(* ===== verification/Prelude.thy ===== *)
theory Prelude
  imports Main "HOL-Library.Tree" "HOL-Library.Monad_Syntax" "HOL-Library.Word"
begin

text \<open>
  Shared vocabulary of the development: addresses, the C \<open>size_t\<close> arithmetic of a
  kernel whose pointers are \<open>4\<close> or \<open>8\<close> bytes wide, the neighbour relation of the
  circular lists of \<^verbatim>\<open>linux/list.h\<close> seen from a list head, and the generic lemmas on
  lists and on the option monad that the component theories use. A computation of type
  \<open>'a option\<close> yields \<open>None\<close> exactly where the C code would hit a \<open>BUG()\<close> or
  dereference a pointer that points to no live object.
\<close>

section \<open>Names of types\<close>

type_synonym addr = nat
type_synonym byte = "8 word"

named_theorems layout_simps \<open>arithmetic of the buffer layout\<close>
named_theorems frame_simps \<open>fields that an operation leaves alone\<close>

section \<open>Neighbours in a list\<close>

fun next_in :: "'a list \<Rightarrow> 'a \<Rightarrow> 'a option" where
  "next_in [] x = None"
| "next_in [y] x = None"
| "next_in (y # z # zs) x = (if x = y then Some z else next_in (z # zs) x)"

fun prev_in :: "'a list \<Rightarrow> 'a \<Rightarrow> 'a option" where
  "prev_in [] x = None"
| "prev_in [y] x = None"
| "prev_in (y # z # zs) x = (if x = z then Some y else prev_in (z # zs) x)"

fun insert_after :: "'a \<Rightarrow> 'a \<Rightarrow> 'a list \<Rightarrow> 'a list" where
  "insert_after x new [] = []"
| "insert_after x new (y # ys) = (if x = y then y # new # ys else y # insert_after x new ys)"

lemma next_in_split:
  "x \<notin> set us \<Longrightarrow> next_in (us @ x # vs) x = (case vs of [] \<Rightarrow> None | v # _ \<Rightarrow> Some v)"
proof (induction us)
  case Nil
  then show ?case by (cases vs) auto
next
  case (Cons u us)
  then show ?case by (cases us) auto
qed

lemma prev_in_split:
  "x \<notin> set us \<Longrightarrow> prev_in (us @ x # vs) x = (if us = [] then prev_in (x # vs) x else Some (last us))"
proof (induction us)
  case Nil
  then show ?case by simp
next
  case (Cons u us)
  then show ?case by (cases us) auto
qed

lemma prev_in_head: "x \<notin> set vs \<Longrightarrow> prev_in (x # vs) x = None"
proof -
  have "x \<notin> set vs \<Longrightarrow> prev_in (y # vs) x = None" for y
    by (induction vs arbitrary: y) auto
  then show "x \<notin> set vs \<Longrightarrow> prev_in (x # vs) x = None" .
qed

lemma insert_after_split:
  "x \<notin> set us \<Longrightarrow> insert_after x new (us @ x # vs) = us @ x # new # vs"
  by (induction us) auto

lemma remove1_mid: "x \<notin> set us \<Longrightarrow> remove1 x (us @ x # vs) = us @ vs"
  by (induction us) auto

lemma split_distinct:
  assumes "x \<in> set xs" and "distinct xs"
  obtains us vs where "xs = us @ x # vs" and "x \<notin> set us" and "x \<notin> set vs"
  using assms by (metis distinct.simps(2) distinct_append not_distinct_conv_prefix split_list split_list_first)

section \<open>Unsigned machine arithmetic\<close>

text \<open>
  \<open>szt w x\<close> truncates to an unsigned type of \<open>w\<close> bytes; \<open>szsub\<close> is its wrapping
  subtraction and \<open>align_up\<close> the kernel macro \<open>ALIGN(x, a)\<close> for a power of two \<open>a\<close>,
  evaluated in that type.
\<close>

definition szt :: "nat \<Rightarrow> nat \<Rightarrow> nat" where
  "szt w x = x mod 2 ^ (8 * w)"

definition szsub :: "nat \<Rightarrow> nat \<Rightarrow> nat \<Rightarrow> nat" where
  "szsub w x y = szt w (x + (2 ^ (8 * w) - szt w y))"

definition align_up :: "nat \<Rightarrow> nat \<Rightarrow> nat \<Rightarrow> nat" where
  "align_up w x a = szt w (x + (a - 1)) div a * a"

lemma szt_less [simp]: "szt w x < 2 ^ (8 * w)"
  by (simp add: szt_def)

lemma szt_id: "x < 2 ^ (8 * w) \<Longrightarrow> szt w x = x"
  by (simp add: szt_def)

lemma szsub_exact: "y \<le> x \<Longrightarrow> x < 2 ^ (8 * w) \<Longrightarrow> szsub w x y = x - y"
proof -
  assume le: "y \<le> x" and lt: "x < 2 ^ (8 * w)"
  have y: "szt w y = y" using le lt by (simp add: szt_id)
  have "x + (2 ^ (8 * w) - y) = (x - y) + 2 ^ (8 * w)"
    using le lt by simp
  then have "szsub w x y = ((x - y) + 2 ^ (8 * w)) mod 2 ^ (8 * w)"
    by (simp only: szsub_def y) (simp only: szt_def)
  also have "\<dots> = x - y"
    using lt by (simp only: mod_add_self2) simp
  finally show ?thesis .
qed

lemma align_up_ge:
  assumes "x + (a - 1) < 2 ^ (8 * w)" and "0 < a"
  shows "x \<le> align_up w x a" and "align_up w x a < x + a"
proof -
  have eq: "align_up w x a = (x + (a - 1)) div a * a"
    using assms by (simp add: align_up_def szt_id)
  have dm: "(x + (a - 1)) div a * a + (x + (a - 1)) mod a = x + (a - 1)"
    by (simp add: div_mult_mod_eq)
  have lt: "(x + (a - 1)) mod a < a" using assms by simp
  show "x \<le> align_up w x a" unfolding eq using dm lt by linarith
  show "align_up w x a < x + a" unfolding eq using dm assms by linarith
qed

lemma align_up_dvd: "a dvd align_up w x a"
  by (simp add: align_up_def)

end
