(* ===== verification/Arrays.thy ===== *)
theory Arrays
  imports Prelude
begin

text \<open>
  Arrays with their bounds: a list, accessed by index, where an access outside the array, whose
  effect C leaves undefined, is \<open>None\<close>; and what a run of stores leaves behind.
\<close>

section \<open>One element\<close>

definition load_at :: "'a list \<Rightarrow> nat \<Rightarrow> 'a option" where
  "load_at s i = (if i < length s then Some (s ! i) else None)"

definition store_at :: "'a list \<Rightarrow> nat \<Rightarrow> 'a \<Rightarrow> 'a list option" where
  "store_at d i v = (if i < length d then Some (d[i := v]) else None)"

lemma load_at_drop: "load_at s (p + k) = load_at (drop p s) k"
  by (auto simp: load_at_def)

lemma load_at_0: "load_at s p = load_at (drop p s) 0"
  using load_at_drop [of s p 0] by simp

lemma load_at_Nil [simp]: "load_at [] i = None"
  by (simp add: load_at_def)

lemma load_at_Cons [simp]: "load_at (x # xs) 0 = Some x" "load_at (x # xs) (Suc i) = load_at xs i"
  by (simp_all add: load_at_def)

lemma load_at_numeral [simp]: "load_at (x # xs) 1 = load_at xs 0" "load_at (x # xs) (numeral k) = load_at xs (pred_numeral k)"
  by (simp_all add: load_at_def numeral_eq_Suc)

section \<open>Writing a run of elements\<close>

definition put_at :: "'a list \<Rightarrow> nat \<Rightarrow> 'a list \<Rightarrow> 'a list option" where
  "put_at d q xs = (if q + length xs \<le> length d then Some (take q d @ xs @ drop (q + length xs) d) else None)"

lemma store_at_put: "store_at d q v = put_at d q [v]"
  by (auto simp: store_at_def put_at_def upd_conv_take_nth_drop)

lemma put_at_Nil: "q \<le> length d \<Longrightarrow> put_at d q [] = Some d"
  by (simp add: put_at_def)

lemma put_at_append: "put_at d q xs \<bind> (\<lambda>d. put_at d (q + length xs) ys) = put_at d q (xs @ ys)"
  by (cases xs) (auto simp: put_at_def min_def add_ac)

lemma put_at_prepend: "put_at d (q + length xs) ys \<bind> (\<lambda>d. put_at d q xs) = put_at d q (xs @ ys)"
  by (cases xs) (auto simp: put_at_def min_def add_ac)

lemma put_at_room: "put_at d q xs = Some d' \<Longrightarrow> length d' = length d \<and> q + length xs \<le> length d"
  by (auto simp: put_at_def split: if_splits)

end
