(* ===== verification/Rbtree.thy ===== *)
theory Rbtree
  imports Prelude
begin

text \<open>
  The hand-written tree descents of \<^verbatim>\<open>driver/binder.c\<close>. The driver keeps its nodes,
  references, threads and buffers in the red-black trees of \<^verbatim>\<open>linux/rbtree.h\<close> and writes
  every search and every insertion as a loop that compares a key with the object at the
  current tree node, moves to \<open>rb_left\<close> or \<open>rb_right\<close>, and finally links the new
  object at the empty position it reached. \<open>rb_search\<close> and \<open>rb_link\<close> are these loops,
  parameterised by the comparison the loop body makes; the comparison is partial because
  its body dereferences the object (\<open>None\<close> is a fault or a \<open>BUG()\<close>). Rebalancing and
  erasing are kernel code outside this repository and are passed as arguments where they
  are used.
\<close>

datatype dir = Go_Left | Go_Right | Here

definition cmp_dir :: "'k::linorder \<Rightarrow> 'k \<Rightarrow> dir" where
  "cmp_dir k k' = (if k < k' then Go_Left else if k > k' then Go_Right else Here)"

fun rb_search :: "('a \<Rightarrow> dir option) \<Rightarrow> 'a tree \<Rightarrow> 'a option option" where
  "rb_search f Leaf = Some None"
| "rb_search f (Node l a r) =
     (case f a of
        None \<Rightarrow> None
      | Some Go_Left \<Rightarrow> rb_search f l
      | Some Go_Right \<Rightarrow> rb_search f r
      | Some Here \<Rightarrow> Some (Some a))"

text \<open>
  The insertion loop: \<open>Some None\<close> when the loop meets an object with the same key,
  \<open>Some (Some t)\<close> with the tree after \<open>rb_link_node\<close> otherwise.
\<close>

fun rb_link :: "('a \<Rightarrow> dir option) \<Rightarrow> 'a \<Rightarrow> 'a tree \<Rightarrow> 'a tree option option" where
  "rb_link f x Leaf = Some (Some (Node Leaf x Leaf))"
| "rb_link f x (Node l a r) =
     (case f a of
        None \<Rightarrow> None
      | Some Go_Left \<Rightarrow> map_option (map_option (\<lambda>l'. Node l' a r)) (rb_link f x l)
      | Some Go_Right \<Rightarrow> map_option (map_option (\<lambda>r'. Node l a r')) (rb_link f x r)
      | Some Here \<Rightarrow> Some None)"

section \<open>Descents over a tree in symmetric order\<close>

text \<open>
  A descent for the key \<open>k\<close> over objects whose keys are given by \<open>kf\<close>. The tree may have
  any shape: only its symmetric order matters.
\<close>

definition key_dir :: "('a \<Rightarrow> 'k::linorder option) \<Rightarrow> 'k \<Rightarrow> 'a \<Rightarrow> dir option" where
  "key_dir kf k a = map_option (cmp_dir k) (kf a)"

definition keys_of :: "('a \<Rightarrow> 'k option) \<Rightarrow> 'a tree \<Rightarrow> 'k list" where
  "keys_of kf t = map (\<lambda>a. the (kf a)) (inorder t)"

definition keyed :: "('a \<Rightarrow> 'k::linorder option) \<Rightarrow> 'a tree \<Rightarrow> bool" where
  "keyed kf t \<longleftrightarrow> (\<forall>a \<in> set (inorder t). kf a \<noteq> None) \<and> sorted_wrt (<) (keys_of kf t)"

lemma keyed_Leaf [simp]: "keyed kf Leaf"
  by (simp add: keyed_def keys_of_def)

lemma keyed_Node:
  "keyed kf (Node l a r) \<longleftrightarrow>
     keyed kf l \<and> keyed kf r \<and> (\<exists>k. kf a = Some k \<and>
       (\<forall>b \<in> set (inorder l). the (kf b) < k) \<and> (\<forall>b \<in> set (inorder r). k < the (kf b)))"
  by (fastforce simp: keyed_def keys_of_def sorted_wrt_append intro: less_trans)

lemma keyed_distinct: "keyed kf t \<Longrightarrow> distinct (inorder t)"
  by (metis keyed_def keys_of_def distinct_map strict_sorted_iff)

lemma rb_search_found:
  "keyed kf t \<Longrightarrow> a \<in> set (inorder t) \<Longrightarrow> kf a = Some k \<Longrightarrow>
     rb_search (key_dir kf k) t = Some (Some a)"
proof (induction t)
  case (Node l b r)
  from Node.prems(1) obtain kb where kb: "kf b = Some kb"
    and l: "keyed kf l" "\<forall>c \<in> set (inorder l). the (kf c) < kb"
    and r: "keyed kf r" "\<forall>c \<in> set (inorder r). kb < the (kf c)"
    by (auto simp: keyed_Node)
  from Node.prems(2) consider "a \<in> set (inorder l)" | "a = b" | "a \<in> set (inorder r)" by auto
  then show ?case
  proof cases
    case 1
    then have "k < kb" using l Node.prems(3) by fastforce
    then show ?thesis using Node.IH(1) [OF l(1) 1 Node.prems(3)] kb
      by (simp add: key_dir_def cmp_dir_def)
  next
    case 2
    then show ?thesis using kb Node.prems(3) by (simp add: key_dir_def cmp_dir_def)
  next
    case 3
    then have "kb < k" using r Node.prems(3) by fastforce
    then show ?thesis using Node.IH(2) [OF r(1) 3 Node.prems(3)] kb
      by (auto simp: key_dir_def cmp_dir_def)
  qed
qed simp

lemma rb_search_missing:
  "keyed kf t \<Longrightarrow> \<forall>a \<in> set (inorder t). kf a \<noteq> Some k \<Longrightarrow>
     rb_search (key_dir kf k) t = Some None"
  by (induction t) (auto simp: keyed_Node key_dir_def cmp_dir_def)

lemma rb_search_sound:
  "rb_search (key_dir kf k) t = Some (Some a) \<Longrightarrow> a \<in> set (inorder t) \<and> kf a = Some k"
proof (induction t)
  case (Node l b r)
  then show ?case
    by (cases "kf b") (auto simp: key_dir_def cmp_dir_def not_less split: if_splits)
qed simp

lemma rb_search_iff:
  assumes "keyed kf t"
  shows "rb_search (key_dir kf k) t = Some (Some a) \<longleftrightarrow> a \<in> set (inorder t) \<and> kf a = Some k"
  using rb_search_found [OF assms] rb_search_sound by metis

lemma rb_search_total: "keyed kf t \<Longrightarrow> rb_search (key_dir kf k) t \<noteq> None"
  using rb_search_found rb_search_missing by (metis option.distinct(1))

lemma rb_link_ex:
  "keyed kf t \<Longrightarrow> \<forall>a \<in> set (inorder t). kf a \<noteq> Some k \<Longrightarrow>
   \<exists>t' us vs. rb_link (key_dir kf k) x t = Some (Some t')
     \<and> inorder t = us @ vs \<and> inorder t' = us @ x # vs
     \<and> (\<forall>a \<in> set us. the (kf a) < k) \<and> (\<forall>a \<in> set vs. k < the (kf a))"
proof (induction t)
  case Leaf
  then show ?case by simp
next
  case (Node l b r)
  from Node.prems(1) obtain kb where kb: "kf b = Some kb"
    and l: "keyed kf l" "\<forall>c \<in> set (inorder l). the (kf c) < kb"
    and r: "keyed kf r" "\<forall>c \<in> set (inorder r). kb < the (kf c)"
    by (auto simp: keyed_Node)
  have ne: "kb \<noteq> k" using Node.prems(2) kb by auto
  show ?case
  proof (cases "k < kb")
    case True
    have "\<forall>a \<in> set (inorder l). kf a \<noteq> Some k" using Node.prems(2) by simp
    from Node.IH(1) [OF l(1) this] obtain l' us vs where
      *: "rb_link (key_dir kf k) x l = Some (Some l')" "inorder l = us @ vs" "inorder l' = us @ x # vs"
      "\<forall>a \<in> set us. the (kf a) < k" "\<forall>a \<in> set vs. k < the (kf a)" by blast
    have "rb_link (key_dir kf k) x (Node l b r) = Some (Some (Node l' b r))"
      using * True kb by (simp add: key_dir_def [of kf k b] cmp_dir_def)
    moreover have "\<forall>a \<in> set (vs @ b # inorder r). k < the (kf a)"
      using * True kb r by (auto dest: less_trans)
    ultimately show ?thesis using *
      by (intro exI [of _ "Node l' b r"] exI [of _ us] exI [of _ "vs @ b # inorder r"]) simp
  next
    case False
    then have gt: "kb < k" using ne by simp
    have "\<forall>a \<in> set (inorder r). kf a \<noteq> Some k" using Node.prems(2) by simp
    from Node.IH(2) [OF r(1) this] obtain r' us vs where
      *: "rb_link (key_dir kf k) x r = Some (Some r')" "inorder r = us @ vs" "inorder r' = us @ x # vs"
      "\<forall>a \<in> set us. the (kf a) < k" "\<forall>a \<in> set vs. k < the (kf a)" by blast
    have "rb_link (key_dir kf k) x (Node l b r) = Some (Some (Node l b r'))"
      using * False gt kb by (simp add: key_dir_def [of kf k b] cmp_dir_def)
    moreover have "\<forall>a \<in> set (inorder l @ b # us). the (kf a) < k"
      using * gt kb l by (auto dest: less_trans)
    ultimately show ?thesis using *
      by (intro exI [of _ "Node l b r'"] exI [of _ "inorder l @ b # us"] exI [of _ vs]) simp
  qed
qed

lemma rb_link_new:
  assumes "keyed kf t" and "\<forall>a \<in> set (inorder t). kf a \<noteq> Some k"
  obtains t' us vs where "rb_link (key_dir kf k) x t = Some (Some t')"
    and "inorder t = us @ vs" and "inorder t' = us @ x # vs"
    and "\<forall>a \<in> set us. the (kf a) < k" and "\<forall>a \<in> set vs. k < the (kf a)"
  using rb_link_ex [OF assms, of x] by blast

lemma rb_link_clash:
  "keyed kf t \<Longrightarrow> a \<in> set (inorder t) \<Longrightarrow> kf a = Some k \<Longrightarrow> rb_link (key_dir kf k) x t = Some None"
proof (induction t)
  case (Node l b r)
  from Node.prems(1) obtain kb where kb: "kf b = Some kb"
    and l: "keyed kf l" "\<forall>c \<in> set (inorder l). the (kf c) < kb"
    and r: "keyed kf r" "\<forall>c \<in> set (inorder r). kb < the (kf c)"
    by (auto simp: keyed_Node)
  from Node.prems(2) consider "a \<in> set (inorder l)" "k < kb" | "a = b" | "a \<in> set (inorder r)" "kb < k"
    using l(2) r(2) Node.prems(3) by fastforce
  then show ?case
    using Node.IH(1) [OF l(1)] Node.IH(2) [OF r(1)] Node.prems(3) kb
    by cases (auto simp: key_dir_def [of kf k b] cmp_dir_def)
qed simp

text \<open>A tree that the insertion loop extends stays in symmetric order.\<close>

lemma keyed_insert:
  assumes "keyed kf t" and "inorder t = us @ vs" and "inorder t' = us @ x # vs" and "kf x = Some k"
    and "\<forall>a \<in> set us. the (kf a) < k" and "\<forall>a \<in> set vs. k < the (kf a)"
  shows "keyed kf t'"
  using assms by (auto simp: keyed_def keys_of_def sorted_wrt_append)

lemma keyed_inorder_cong: "inorder t = inorder t' \<Longrightarrow> keyed kf t = keyed kf t'"
  by (simp add: keyed_def keys_of_def)

lemma keyed_cong: "(\<And>a. a \<in> set (inorder t) \<Longrightarrow> kf a = kf' a) \<Longrightarrow> keyed kf t = keyed kf' t"
proof -
  assume eq: "\<And>a. a \<in> set (inorder t) \<Longrightarrow> kf a = kf' a"
  then have m: "map (\<lambda>a. the (kf a)) (inorder t) = map (\<lambda>a. the (kf' a)) (inorder t)"
    by (intro map_cong refl) simp
  show ?thesis unfolding keyed_def keys_of_def m using eq by auto
qed

lemma sorted_wrt_remove1: "sorted_wrt P xs \<Longrightarrow> sorted_wrt P (remove1 x xs)"
  by (induction xs) (auto dest: notin_set_remove1)

lemma keyed_remove1:
  assumes "keyed kf t" and "inorder t' = remove1 x (inorder t)"
  shows "keyed kf t'"
proof -
  have "sorted_wrt (\<lambda>a b. the (kf a) < the (kf b)) (inorder t)"
    using assms(1) by (simp add: keyed_def keys_of_def sorted_wrt_map)
  then have "sorted_wrt (\<lambda>a b. the (kf a) < the (kf b)) (inorder t')"
    using assms(2) by (simp add: sorted_wrt_remove1)
  moreover have "\<forall>a \<in> set (inorder t'). kf a \<noteq> None"
    using assms by (auto simp: keyed_def dest: notin_set_remove1)
  ultimately show ?thesis by (simp add: keyed_def keys_of_def sorted_wrt_map)
qed

end
