(* ===== verification/Kernel.thy ===== *)
theory Kernel
  imports Rbtree
begin

text \<open>
  The services the driver takes from the rest of the kernel, as a record of functions that
  the definitions of the driver receive as their argument \<open>K\<close>: rebalancing and erasing in
  \<^verbatim>\<open>linux/rbtree.h\<close>, the page allocator and the page-table calls. A call that may fail is a
  function of the number of calls made so far, so that a property quantified over \<open>K\<close>
  covers every pattern of failures. \<open>kern_ok\<close> states the documented behaviour the driver
  relies on: rebalancing keeps the symmetric order of a tree, erasing a tree node removes
  that node from it, \<open>kzalloc\<close> returns memory that is not in use, and \<open>get_vm_area\<close> returns a
  page-aligned range of kernel addresses with a guard page behind it. \<open>u_read\<close> is the memory
  of the calling process: a function of the time of the access, because other threads of that
  process may change it at any moment, and \<open>None\<close> for an address that faults.
  \<open>uninit\<close> is the value of a local variable that is read before it is set.
\<close>

text \<open>
  \<^verbatim>\<open>struct binder_buffer\<close>: the header that precedes each chunk of the transaction area. The
  links \<open>entry\<close> and \<open>rb_node\<close> are represented by the list and the trees of the allocator;
  \<open>b_data\<close> is the memory that follows the header, by offset.
\<close>

record binder_buffer =
  b_free :: bool
  b_allow_user_free :: bool
  b_async_transaction :: bool
  b_debug_id :: nat
  b_transaction :: "addr option"
  b_target_node :: "addr option"
  b_data_size :: nat
  b_offsets_size :: nat
  b_data :: "nat \<Rightarrow> byte"

record kern =
  ptr_bytes :: nat
  rb_insert_color :: "addr \<Rightarrow> addr tree \<Rightarrow> addr tree"
  rb_erase :: "addr \<Rightarrow> addr tree \<Rightarrow> addr tree"
  get_task_mm :: "nat \<Rightarrow> nat \<Rightarrow> nat option"
  alloc_page :: "nat \<Rightarrow> bool"
  map_vm_area :: "nat \<Rightarrow> bool"
  vm_insert_page :: "nat \<Rightarrow> bool"
  stale_header :: "nat \<Rightarrow> binder_buffer"
  kzalloc :: "nat \<Rightarrow> addr list \<Rightarrow> addr option"
  kcalloc :: "nat \<Rightarrow> bool"
  get_vm_area :: "nat \<Rightarrow> nat \<Rightarrow> addr option"
  get_files_struct :: "nat \<Rightarrow> nat option"
  u_read :: "nat \<Rightarrow> nat \<Rightarrow> nat \<Rightarrow> byte list option"
  u_write :: "nat \<Rightarrow> nat \<Rightarrow> nat \<Rightarrow> bool"
  lock_sighand :: "nat \<Rightarrow> bool"
  alloc_fd :: "nat \<Rightarrow> int"
  close_fd :: "nat \<Rightarrow> int"
  fget_file :: "nat \<Rightarrow> nat \<Rightarrow> nat option"
  can_nice :: "nat \<Rightarrow> int \<Rightarrow> bool"
  rlim_nice :: "nat \<Rightarrow> int"
  task_pid :: "nat \<Rightarrow> nat"
  task_tgid :: "nat \<Rightarrow> nat"
  task_euid :: "nat \<Rightarrow> nat"
  uninit :: "nat \<Rightarrow> nat"

definition PAGE_SIZE :: nat where
  "PAGE_SIZE = 4096"

definition kern_ok :: "kern \<Rightarrow> bool" where
  "kern_ok K \<longleftrightarrow>
     (ptr_bytes K = 4 \<or> ptr_bytes K = 8) \<and>
     (\<forall>x t. inorder (rb_insert_color K x t) = inorder t) \<and>
     (\<forall>x t. distinct (inorder t) \<longrightarrow> inorder (rb_erase K x t) = remove1 x (inorder t)) \<and>
     (\<forall>n live a. kzalloc K n live = Some a \<longrightarrow> a \<noteq> 0 \<and> a \<notin> set live) \<and>
     (\<forall>n sz v. get_vm_area K n sz = Some v \<longrightarrow> PAGE_SIZE \<le> v \<and> PAGE_SIZE dvd v \<and>
        v + sz + PAGE_SIZE \<le> 2 ^ (8 * ptr_bytes K)) \<and>
     (\<forall>n a len bs. u_read K n a len = Some bs \<longrightarrow> length bs = len)"

lemma kern_ok_insert [simp]: "kern_ok K \<Longrightarrow> inorder (rb_insert_color K x t) = inorder t"
  by (simp add: kern_ok_def)

lemma kern_ok_erase [simp]:
  "kern_ok K \<Longrightarrow> distinct (inorder t) \<Longrightarrow> inorder (rb_erase K x t) = remove1 x (inorder t)"
  by (simp add: kern_ok_def)

lemma kern_ok_ptr: "kern_ok K \<Longrightarrow> ptr_bytes K = 4 \<or> ptr_bytes K = 8"
  unfolding kern_ok_def by blast

lemma kern_ok_kzalloc: "kern_ok K \<Longrightarrow> kzalloc K n live = Some a \<Longrightarrow> a \<noteq> 0 \<and> a \<notin> set live"
  unfolding kern_ok_def by blast

lemma kern_ok_vm_area:
  "kern_ok K \<Longrightarrow> get_vm_area K n sz = Some v \<Longrightarrow>
     PAGE_SIZE \<le> v \<and> PAGE_SIZE dvd v \<and> v + sz + PAGE_SIZE \<le> 2 ^ (8 * ptr_bytes K)"
  unfolding kern_ok_def by blast

section \<open>A concrete kernel\<close>

text \<open>
  A kernel for the witnesses: 32-bit pointers, trees left as the insertion loop built them,
  erasing by rebuilding the tree from its symmetric order, memory never exhausted, and
  freshly mapped memory full of zeros.
\<close>

fun list_tree :: "'a list \<Rightarrow> 'a tree" where
  "list_tree [] = Leaf"
| "list_tree (x # xs) = Node Leaf x (list_tree xs)"

lemma inorder_list_tree [simp]: "inorder (list_tree xs) = xs"
  by (induction xs) auto

definition zero_header :: binder_buffer where
  "zero_header = \<lparr>b_free = False, b_allow_user_free = False, b_async_transaction = False,
     b_debug_id = 0, b_transaction = None, b_target_node = None, b_data_size = 0,
     b_offsets_size = 0, b_data = (\<lambda>_. 0)\<rparr>"

definition demo_kern :: kern where
  "demo_kern = \<lparr>ptr_bytes = 4, rb_insert_color = (\<lambda>x t. t),
     rb_erase = (\<lambda>x t. list_tree (remove1 x (inorder t))),
     get_task_mm = (\<lambda>tsk n. Some tsk), alloc_page = (\<lambda>_. True), map_vm_area = (\<lambda>_. True),
     vm_insert_page = (\<lambda>_. True), stale_header = (\<lambda>_. zero_header),
     kzalloc = (\<lambda>n live. Some (Suc (fold max live 0))), kcalloc = (\<lambda>_. True),
     get_vm_area = (\<lambda>n sz. if sz \<le> 4194304 then Some 65536 else None),
     get_files_struct = (\<lambda>tsk. Some tsk), u_read = (\<lambda>n a len. Some (replicate len 0)),
     u_write = (\<lambda>n a len. True), lock_sighand = (\<lambda>_. True), alloc_fd = (\<lambda>n. int n),
     close_fd = (\<lambda>_. 0), fget_file = (\<lambda>tsk fd. Some fd), can_nice = (\<lambda>tsk n. True),
     rlim_nice = (\<lambda>_. 20), task_pid = (\<lambda>tsk. tsk), task_tgid = (\<lambda>tsk. tsk),
     task_euid = (\<lambda>_. 1000), uninit = (\<lambda>_. 0)\<rparr>"

lemma fold_max_ge: "(m::nat) \<le> fold max xs m \<and> (\<forall>x \<in> set xs. x \<le> fold max xs m)"
proof (induction xs arbitrary: m)
  case (Cons x xs)
  from Cons.IH [of "max x m"] show ?case by auto
qed simp

lemma demo_kern_ok [simp]: "kern_ok demo_kern"
  using fold_max_ge [of 0] by (auto simp: kern_ok_def demo_kern_def PAGE_SIZE_def Suc_le_eq dest: leD split: if_splits)

end
