(* ===== verification/Binder_Alloc.thy ===== *)
theory Binder_Alloc
  imports Kernel
begin

text \<open>
  The transaction buffer allocator of \<^verbatim>\<open>driver/binder.c\<close>: the area that \<open>binder_mmap\<close>
  shares with a process is cut into buffers, each a header followed by data. The record
  \<open>binder_alloc\<close> holds the fields of \<^verbatim>\<open>struct binder_proc\<close> the allocator uses; the
  operations are \<open>binder_buffer_size\<close>, the insertions into the trees of free and of
  allocated buffers, \<open>binder_buffer_lookup\<close>, \<open>binder_update_page_range\<close> with its error
  paths into the middle of the freeing loop, \<open>binder_alloc_buf\<close>,
  \<open>binder_delete_free_buffer\<close> and \<open>binder_free_buf\<close>. \<open>None\<close> is a kernel crash: a
  \<open>BUG_ON\<close> that fires, a header that is not there, a page freed twice.
\<close>

section \<open>State\<close>

text \<open>
  One entry of \<open>proc->pages\<close> together with the two mappings of that page: the page itself
  (a non-null \<open>struct page *\<close>), its mapping in the kernel and the one in the process.
\<close>

record vpage =
  pg_page :: bool
  pg_kernel :: bool
  pg_user :: bool

definition no_page :: vpage where
  "no_page = \<lparr>pg_page = False, pg_kernel = False, pg_user = False\<rparr>"

definition full_page :: vpage where
  "full_page = \<lparr>pg_page = True, pg_kernel = True, pg_user = True\<rparr>"

record binder_alloc =
  p_tsk :: nat
  p_vma :: bool
  p_vma_vm_mm :: "nat option"
  p_files :: "nat option"
  p_buffer :: addr
  p_user_buffer_offset :: int
  p_buffers :: "addr list"
  p_heap :: "addr \<rightharpoonup> binder_buffer"
  p_free_buffers :: "addr tree"
  p_allocated_buffers :: "addr tree"
  p_free_async_space :: nat
  p_pages :: "vpage list"
  p_buffer_size :: nat
  p_ticks :: nat

definition page_mask :: "nat \<Rightarrow> nat" where
  "page_mask x = x div PAGE_SIZE * PAGE_SIZE"

definition page_align :: "kern \<Rightarrow> nat \<Rightarrow> nat" where
  "page_align K x = align_up (ptr_bytes K) x PAGE_SIZE"

definition ENOMEM :: int where
  "ENOMEM = 12"

text \<open>
  \<open>sizeof(struct binder_buffer)\<close>, which is also the offset of \<open>data\<close>: five list and tree
  links, the flag word, two pointers and two sizes, each of the width of a pointer.
\<close>

definition sizeof_binder_buffer :: "kern \<Rightarrow> nat" where
  "sizeof_binder_buffer K = 10 * ptr_bytes K"

section \<open>Sizes and the trees\<close>

definition buffer_data :: "kern \<Rightarrow> addr \<Rightarrow> addr" where
  "buffer_data K b = b + sizeof_binder_buffer K"

definition binder_buffer_size :: "kern \<Rightarrow> binder_alloc \<Rightarrow> addr \<Rightarrow> nat" where
  "binder_buffer_size K a b =
     (case next_in (p_buffers a) b of
        None \<Rightarrow> szsub (ptr_bytes K) (p_buffer a + p_buffer_size a) (buffer_data K b)
      | Some n \<Rightarrow> szsub (ptr_bytes K) n (buffer_data K b))"

definition free_dir :: "kern \<Rightarrow> binder_alloc \<Rightarrow> nat \<Rightarrow> addr \<Rightarrow> dir option" where
  "free_dir K a new_buffer_size b =
     (case p_heap a b of
        None \<Rightarrow> None
      | Some h \<Rightarrow>
          if \<not> b_free h then None
          else if new_buffer_size < binder_buffer_size K a b then Some Go_Left else Some Go_Right)"

definition binder_insert_free_buffer :: "kern \<Rightarrow> binder_alloc \<Rightarrow> addr \<Rightarrow> binder_alloc option" where
  "binder_insert_free_buffer K a new =
     (case p_heap a new of
        None \<Rightarrow> None
      | Some h \<Rightarrow>
          if \<not> b_free h then None
          else (case rb_link (free_dir K a (binder_buffer_size K a new)) new (p_free_buffers a) of
                  Some (Some t) \<Rightarrow> Some (a\<lparr>p_free_buffers := rb_insert_color K new t\<rparr>)
                | _ \<Rightarrow> None))"

text \<open>The key of an allocated buffer is its address; each visited header must not be free.\<close>

definition alloc_key :: "binder_alloc \<Rightarrow> addr \<Rightarrow> addr option" where
  "alloc_key a b = (case p_heap a b of None \<Rightarrow> None | Some h \<Rightarrow> if b_free h then None else Some b)"

definition binder_insert_allocated_buffer :: "kern \<Rightarrow> binder_alloc \<Rightarrow> addr \<Rightarrow> binder_alloc option" where
  "binder_insert_allocated_buffer K a new =
     (case alloc_key a new of
        None \<Rightarrow> None
      | Some k \<Rightarrow>
          (case rb_link (key_dir (alloc_key a) k) new (p_allocated_buffers a) of
             Some (Some t) \<Rightarrow> Some (a\<lparr>p_allocated_buffers := rb_insert_color K new t\<rparr>)
           | _ \<Rightarrow> None))"

text \<open>
  \<open>user_ptr\<close> comes from the process and may be anything; \<open>kern_ptr\<close> is computed by
  wrapping pointer arithmetic and only ever compared.
\<close>

definition binder_buffer_lookup :: "kern \<Rightarrow> binder_alloc \<Rightarrow> nat \<Rightarrow> addr option option" where
  "binder_buffer_lookup K a user_ptr =
     (let kern_ptr = nat ((int user_ptr - p_user_buffer_offset a - int (sizeof_binder_buffer K))
                            mod 2 ^ (8 * ptr_bytes K))
      in rb_search (key_dir (alloc_key a) kern_ptr) (p_allocated_buffers a))"

section \<open>Mapping and unmapping pages\<close>

definition page_index :: "binder_alloc \<Rightarrow> addr \<Rightarrow> nat option" where
  "page_index a page_addr =
     (let i = (page_addr - p_buffer a) div PAGE_SIZE
      in if p_buffer a \<le> page_addr \<and> i < length (p_pages a) then Some i else None)"

text \<open>
  The body of the loop at \<open>free_range\<close>: the user mapping is zapped when there is a vma, the
  kernel mapping is removed, and \<open>__free_page\<close> must be given a page.
\<close>

definition free_one_page :: "bool \<Rightarrow> binder_alloc \<Rightarrow> addr \<Rightarrow> binder_alloc option" where
  "free_one_page vma a page_addr =
     (case page_index a page_addr of
        None \<Rightarrow> None
      | Some i \<Rightarrow>
          let pg = p_pages a ! i; pg' = (if vma then pg\<lparr>pg_user := False\<rparr> else pg) in
          if pg_page pg'
          then Some (a\<lparr>p_pages := (p_pages a)[i := pg'\<lparr>pg_kernel := False, pg_page := False\<rparr>]\<rparr>)
          else None)"

function page_free_loop :: "bool \<Rightarrow> binder_alloc \<Rightarrow> addr \<Rightarrow> addr \<Rightarrow> binder_alloc option" where
  "page_free_loop vma a start page_addr =
     (if start \<le> page_addr then
        (case free_one_page vma a page_addr of
           None \<Rightarrow> None
         | Some a' \<Rightarrow>
             if page_addr < PAGE_SIZE then None
             else page_free_loop vma a' start (page_addr - PAGE_SIZE))
      else Some a)"
  by pat_completeness auto
termination
  by (relation "measure (\<lambda>(vma, a, start, page_addr). page_addr)") (auto simp: PAGE_SIZE_def)

declare page_free_loop.simps [simp del]

text \<open>
  The allocating loop. Each failure jumps into the freeing loop at the matching label:
  what was done for the current page is undone and the loop continues with the page before.
\<close>

definition page_unwind :: "binder_alloc \<Rightarrow> addr \<Rightarrow> addr \<Rightarrow> (int \<times> binder_alloc) option" where
  "page_unwind a start page_addr =
     (if page_addr < PAGE_SIZE then None
      else map_option (Pair (- ENOMEM)) (page_free_loop True a start (page_addr - PAGE_SIZE)))"

function page_alloc_loop ::
  "kern \<Rightarrow> binder_alloc \<Rightarrow> addr \<Rightarrow> addr \<Rightarrow> addr \<Rightarrow> (int \<times> binder_alloc) option" where
  "page_alloc_loop K a start page_addr end_addr =
     (if page_addr < end_addr then
        (case page_index a page_addr of
           None \<Rightarrow> None
         | Some i \<Rightarrow>
             if pg_page (p_pages a ! i) then None
             else
               let n = p_ticks a;
                   a0 = a\<lparr>p_ticks := Suc n\<rparr>;
                   a1 = a0\<lparr>p_pages := (p_pages a)[i := (p_pages a ! i)\<lparr>pg_page := True\<rparr>]\<rparr>;
                   a2 = a0\<lparr>p_pages := (p_pages a)[i := (p_pages a ! i)\<lparr>pg_page := True, pg_kernel := True\<rparr>]\<rparr>;
                   a3 = a0\<lparr>p_pages := (p_pages a)[i := (p_pages a ! i)\<lparr>pg_page := True, pg_kernel := True, pg_user := True\<rparr>]\<rparr>
               in
               if \<not> alloc_page K n then page_unwind a0 start page_addr
               else if \<not> map_vm_area K n then
                 page_unwind (a1\<lparr>p_pages := (p_pages a1)[i := (p_pages a1 ! i)\<lparr>pg_page := False\<rparr>]\<rparr>)
                   start page_addr
               else if \<not> vm_insert_page K n then
                 page_unwind
                   (a2\<lparr>p_pages := (p_pages a2)[i := (p_pages a2 ! i)\<lparr>pg_kernel := False, pg_page := False\<rparr>]\<rparr>)
                   start page_addr
               else page_alloc_loop K a3 start (page_addr + PAGE_SIZE) end_addr)
      else Some (0, a))"
  by pat_completeness auto
termination
  by (relation "measure (\<lambda>(K, a, start, page_addr, end_addr). end_addr - page_addr)")
    (auto simp: PAGE_SIZE_def)

declare page_alloc_loop.simps [simp del]

definition binder_update_page_range ::
  "kern \<Rightarrow> binder_alloc \<Rightarrow> bool \<Rightarrow> addr \<Rightarrow> addr \<Rightarrow> bool \<Rightarrow> (int \<times> binder_alloc) option" where
  "binder_update_page_range K a allocate start end_addr vma =
     (if end_addr \<le> start then Some (0, a)
      else
        let mm = (if vma then None else get_task_mm K (p_tsk a) (p_ticks a));
            vma' = (case mm of None \<Rightarrow> vma | Some m \<Rightarrow> p_vma a \<and> p_vma_vm_mm a = Some m);
            a' = a\<lparr>p_ticks := Suc (p_ticks a)\<rparr>
        in
        if \<not> allocate then
          (if end_addr < PAGE_SIZE then None
           else map_option (Pair (- ENOMEM)) (page_free_loop vma' a' start (end_addr - PAGE_SIZE)))
        else if \<not> vma' then Some (- ENOMEM, a')
        else page_alloc_loop K a' start start end_addr)"

section \<open>Allocating\<close>

text \<open>
  The best-fit loop. The result is the tree node it stopped at (\<open>n\<close>, empty when the loop
  ran off the tree) and the best fit so far.
\<close>

fun best_fit_loop ::
  "kern \<Rightarrow> binder_alloc \<Rightarrow> nat \<Rightarrow> addr tree \<Rightarrow> addr option \<Rightarrow> (addr option \<times> addr option) option" where
  "best_fit_loop K a sz Leaf best_fit = Some (None, best_fit)"
| "best_fit_loop K a sz (Node l b r) best_fit =
     (case p_heap a b of
        None \<Rightarrow> None
      | Some h \<Rightarrow>
          if \<not> b_free h then None
          else let buffer_size = binder_buffer_size K a b in
            if sz < buffer_size then best_fit_loop K a sz l (Some b)
            else if sz > buffer_size then best_fit_loop K a sz r best_fit
            else Some (Some b, Some b))"

definition alloc_size :: "kern \<Rightarrow> nat \<Rightarrow> nat \<Rightarrow> nat" where
  "alloc_size K data_size offsets_size =
     szt (ptr_bytes K) (align_up (ptr_bytes K) data_size (ptr_bytes K)
                        + align_up (ptr_bytes K) offsets_size (ptr_bytes K))"

text \<open>
  How much of the best fit is used: all of it for an exact fit, and otherwise the request
  alone or the request and the header of the buffer that is split off.
\<close>

definition claimed_size :: "kern \<Rightarrow> addr option \<Rightarrow> nat \<Rightarrow> nat \<Rightarrow> nat" where
  "claimed_size K n sz buffer_size =
     (if n = None then
        (if szt (ptr_bytes K) (sz + sizeof_binder_buffer K + 4) \<ge> buffer_size then sz
         else szt (ptr_bytes K) (sz + sizeof_binder_buffer K))
      else buffer_size)"

text \<open>The second half of \<open>binder_alloc_buf\<close>: the pages are there, the buffer changes hands.\<close>

definition claim_buffer ::
  "kern \<Rightarrow> binder_alloc \<Rightarrow> addr \<Rightarrow> nat \<Rightarrow> nat \<Rightarrow> nat \<Rightarrow> nat \<Rightarrow> bool \<Rightarrow> binder_alloc option" where
  "claim_buffer K a buffer buffer_size sz data_size offsets_size is_async =
     do {
       h \<leftarrow> p_heap a buffer;
       let a1 = a\<lparr>p_free_buffers := rb_erase K buffer (p_free_buffers a),
                  p_heap := (p_heap a)(buffer \<mapsto> h\<lparr>b_free := False\<rparr>)\<rparr>;
       a2 \<leftarrow> binder_insert_allocated_buffer K a1 buffer;
       a3 \<leftarrow> (if buffer_size \<noteq> sz then
                let new_buffer = buffer_data K buffer + sz;
                    a' = a2\<lparr>p_buffers := insert_after buffer new_buffer (p_buffers a2),
                            p_heap := (p_heap a2)(new_buffer \<mapsto> (stale_header K (p_ticks a2))\<lparr>b_free := True\<rparr>)\<rparr>
                in binder_insert_free_buffer K a' new_buffer
              else Some a2);
       h' \<leftarrow> p_heap a3 buffer;
       let a4 = a3\<lparr>p_heap := (p_heap a3)(buffer \<mapsto>
                    h'\<lparr>b_data_size := data_size, b_offsets_size := offsets_size,
                       b_async_transaction := is_async\<rparr>)\<rparr>;
       Some (if is_async
             then a4\<lparr>p_free_async_space :=
                       szsub (ptr_bytes K) (p_free_async_space a4) (sz + sizeof_binder_buffer K)\<rparr>
             else a4)
     }"

definition binder_alloc_buf ::
  "kern \<Rightarrow> binder_alloc \<Rightarrow> nat \<Rightarrow> nat \<Rightarrow> bool \<Rightarrow> (addr option \<times> binder_alloc) option" where
  "binder_alloc_buf K a data_size offsets_size is_async =
     (let sz = alloc_size K data_size offsets_size; H = sizeof_binder_buffer K; w = ptr_bytes K in
      if \<not> p_vma a then Some (None, a)
      else if sz < data_size \<or> sz < offsets_size then Some (None, a)
      else if is_async \<and> p_free_async_space a < szt w (sz + H) then Some (None, a)
      else
        (case best_fit_loop K a sz (p_free_buffers a) None of
           None \<Rightarrow> None
         | Some (n, None) \<Rightarrow> Some (None, a)
         | Some (n, Some buffer) \<Rightarrow>
             let buffer_size0 = binder_buffer_size K a buffer;
                 has_page_addr = page_mask (szt w (buffer_data K buffer + buffer_size0));
                 buffer_size = claimed_size K n sz buffer_size0;
                 end_page_addr = min (page_align K (szt w (buffer_data K buffer + buffer_size))) has_page_addr
             in
             (case binder_update_page_range K a True (page_align K (buffer_data K buffer))
                     end_page_addr False of
                None \<Rightarrow> None
              | Some (ret, a') \<Rightarrow>
                  if ret \<noteq> 0 then Some (None, a')
                  else map_option (Pair (Some buffer))
                         (claim_buffer K a' buffer buffer_size sz data_size offsets_size is_async))))"

section \<open>Freeing\<close>

definition buffer_start_page :: "addr \<Rightarrow> addr" where
  "buffer_start_page b = page_mask b"

definition buffer_end_page :: "kern \<Rightarrow> addr \<Rightarrow> addr" where
  "buffer_end_page K b = page_mask (b + sizeof_binder_buffer K - 1)"

definition is_free :: "binder_alloc \<Rightarrow> addr \<Rightarrow> bool option" where
  "is_free a b = map_option b_free (p_heap a b)"

definition binder_delete_free_buffer :: "kern \<Rightarrow> binder_alloc \<Rightarrow> addr \<Rightarrow> binder_alloc option" where
  "binder_delete_free_buffer K a buffer =
     (case prev_in (p_buffers a) buffer of
        None \<Rightarrow> None
      | Some prev \<Rightarrow>
          if is_free a prev \<noteq> Some True then None
          else
            let shares_prev = (buffer_end_page K prev = buffer_start_page buffer);
                shares_next = (case next_in (p_buffers a) buffer of None \<Rightarrow> False
                               | Some nxt \<Rightarrow> buffer_start_page nxt = buffer_end_page K buffer);
                free_page_start = (\<not> shares_prev \<and> \<not> (shares_next \<and>
                    (case next_in (p_buffers a) buffer of None \<Rightarrow> False
                     | Some nxt \<Rightarrow> buffer_start_page nxt = buffer_start_page buffer)));
                free_page_end = (\<not> (shares_prev \<and> buffer_end_page K prev = buffer_end_page K buffer)
                                 \<and> \<not> shares_next);
                a' = a\<lparr>p_buffers := remove1 buffer (p_buffers a), p_heap := (p_heap a)(buffer := None)\<rparr>
            in
            if free_page_start \<or> free_page_end then
              map_option snd
                (binder_update_page_range K a' False
                   (if free_page_start then buffer_start_page buffer else buffer_end_page K buffer)
                   ((if free_page_end then buffer_end_page K buffer else buffer_start_page buffer)
                      + PAGE_SIZE) False)
            else Some a')"

text \<open>The size \<open>binder_free_buf\<close> recomputes, aligned to \<open>sizeof(binder_ptr)\<close>, which is four.\<close>

definition free_size :: "kern \<Rightarrow> binder_buffer \<Rightarrow> nat" where
  "free_size K h =
     szt (ptr_bytes K) (align_up (ptr_bytes K) (b_data_size h) 4
                        + align_up (ptr_bytes K) (b_offsets_size h) 4)"

text \<open>The merge of a buffer that was just marked free with its free neighbours.\<close>

definition merge_next :: "kern \<Rightarrow> binder_alloc \<Rightarrow> addr \<Rightarrow> binder_alloc option" where
  "merge_next K a buffer =
     (case next_in (p_buffers a) buffer of
        None \<Rightarrow> Some a
      | Some nxt \<Rightarrow>
          (case is_free a nxt of
             None \<Rightarrow> None
           | Some False \<Rightarrow> Some a
           | Some True \<Rightarrow>
               binder_delete_free_buffer K (a\<lparr>p_free_buffers := rb_erase K nxt (p_free_buffers a)\<rparr>) nxt))"

definition merge_prev :: "kern \<Rightarrow> binder_alloc \<Rightarrow> addr \<Rightarrow> (addr \<times> binder_alloc) option" where
  "merge_prev K a buffer =
     (case prev_in (p_buffers a) buffer of
        None \<Rightarrow> Some (buffer, a)
      | Some prev \<Rightarrow>
          (case is_free a prev of
             None \<Rightarrow> None
           | Some False \<Rightarrow> Some (buffer, a)
           | Some True \<Rightarrow>
               map_option (\<lambda>a'. (prev, a'\<lparr>p_free_buffers := rb_erase K prev (p_free_buffers a')\<rparr>))
                 (binder_delete_free_buffer K a buffer)))"

definition binder_free_buf :: "kern \<Rightarrow> binder_alloc \<Rightarrow> addr \<Rightarrow> binder_alloc option" where
  "binder_free_buf K a buffer =
     do {
       h \<leftarrow> p_heap a buffer;
       let buffer_size = binder_buffer_size K a buffer;
       let sz = free_size K h;
       if b_free h \<or> sz > buffer_size \<or> b_transaction h \<noteq> None \<or> buffer < p_buffer a
          \<or> buffer > p_buffer a + p_buffer_size a then None
       else do {
         let a1 = (if b_async_transaction h
                   then a\<lparr>p_free_async_space :=
                            szt (ptr_bytes K) (p_free_async_space a + (sz + sizeof_binder_buffer K))\<rparr>
                   else a);
         (r, a2) \<leftarrow> binder_update_page_range K a1 False (page_align K (buffer_data K buffer))
                      (page_mask (szt (ptr_bytes K) (buffer_data K buffer + buffer_size))) False;
         let a3 = a2\<lparr>p_allocated_buffers := rb_erase K buffer (p_allocated_buffers a2),
                     p_heap := (p_heap a2)(buffer \<mapsto> h\<lparr>b_free := True\<rparr>)\<rparr>;
         a4 \<leftarrow> merge_next K a3 buffer;
         (buffer', a5) \<leftarrow> merge_prev K a4 buffer;
         binder_insert_free_buffer K a5 buffer'
       }
     }"

end
