(* ===== verification/Binder_Layout.thy ===== *)
theory Binder_Layout
  imports Binder_Alloc
begin

text \<open>
  The layout of the transaction area: which addresses the list \<open>proc->buffers\<close> may hold
  (\<open>chain\<close>), where the data of a buffer ends, and which pages the layout occupies
  (\<open>occupied\<close>): the pages of every header and the pages of the data of every allocated
  buffer. The effect of the page loops is given as a change of the set of mapped pages.
\<close>

section \<open>Chains of buffers\<close>

fun chain_next :: "nat \<Rightarrow> nat list \<Rightarrow> nat" where
  "chain_next lim [] = lim"
| "chain_next lim (y # ys) = y"

fun chain :: "nat \<Rightarrow> nat \<Rightarrow> nat list \<Rightarrow> bool" where
  "chain H lim [] = True"
| "chain H lim (x # xs) = (x + H \<le> chain_next lim xs \<and> chain H lim xs)"

lemma chain_append: "chain H lim (us @ vs) = (chain H (chain_next lim vs) us \<and> chain H lim vs)"
proof (induction us)
  case (Cons u us)
  then show ?case by (cases us) auto
qed simp

lemma chain_next_le: "chain H lim xs \<Longrightarrow> chain_next lim xs \<le> lim"
proof (induction xs)
  case (Cons x xs)
  then show ?case by auto
qed simp

lemma chain_mem: "chain H lim xs \<Longrightarrow> x \<in> set xs \<Longrightarrow> chain_next lim xs \<le> x \<and> x + H \<le> lim"
proof (induction xs)
  case (Cons y ys)
  then have "y + H \<le> chain_next lim ys" "chain_next lim ys \<le> lim" "chain H lim ys"
    using chain_next_le [of H lim ys] by simp_all
  then show ?case using Cons by (cases "x = y") auto
qed simp

lemma chain_sorted: "0 < H \<Longrightarrow> chain H lim xs \<Longrightarrow> sorted_wrt (<) xs"
proof (induction xs)
  case (Cons y ys)
  then have "y + H \<le> chain_next lim ys" "chain H lim ys" by simp_all
  then have "\<forall>x \<in> set ys. y < x" using chain_mem [of H lim ys] Cons.prems(1) by fastforce
  then show ?case using Cons by simp
qed simp

lemma chain_distinct: "0 < H \<Longrightarrow> chain H lim xs \<Longrightarrow> distinct xs"
  using chain_sorted strict_sorted_iff by blast

lemma next_in_insert:
  assumes "distinct (us @ x # y # vs)" and "z \<noteq> x" and "z \<noteq> y"
  shows "next_in (us @ x # y # vs) z = next_in (us @ x # vs) z"
  using assms
proof (induction us)
  case Nil
  then show ?case by (cases vs) auto
next
  case (Cons u us)
  then show ?case by (cases us) auto
qed

section \<open>Pages a layout occupies\<close>

fun occupied :: "nat \<Rightarrow> nat \<Rightarrow> (nat \<Rightarrow> bool) \<Rightarrow> nat list \<Rightarrow> nat \<Rightarrow> bool" where
  "occupied H lim fr [] n = False"
| "occupied H lim fr (x # xs) n =
     ((x < Suc n * PAGE_SIZE \<and> n * PAGE_SIZE < (if fr x then x + H else chain_next lim xs))
      \<or> occupied H lim fr xs n)"

lemma occupied_append:
  "occupied H lim fr (us @ vs) n = (occupied H (chain_next lim vs) fr us n \<or> occupied H lim fr vs n)"
proof (induction us)
  case (Cons u us)
  then show ?case by (cases us) auto
qed simp

lemma occupied_cong: "(\<And>x. x \<in> set xs \<Longrightarrow> fr x = fr' x) \<Longrightarrow> occupied H lim fr xs n = occupied H lim fr' xs n"
  by (induction xs) auto

lemma occupied_bounds:
  "chain H lim xs \<Longrightarrow> occupied H lim fr xs n \<Longrightarrow> chain_next lim xs < Suc n * PAGE_SIZE \<and> n * PAGE_SIZE < lim"
proof (induction xs)
  case (Cons x xs)
  have *: "x + H \<le> chain_next lim xs" "chain_next lim xs \<le> lim" "chain H lim xs"
    using Cons.prems chain_next_le [of H lim xs] by simp_all
  show ?case
  proof (cases "occupied H lim fr xs n")
    case True
    then show ?thesis using Cons.IH * by simp
  next
    case False
    then show ?thesis using Cons.prems(2) * by (auto split: if_splits)
  qed
qed simp

text \<open>
  The page a chunk ends in is occupied by the header that follows, unless the chunk ends at
  a page boundary.
\<close>

lemma occupied_next:
  assumes "chain H lim vs" and "0 < H" and "PAGE_SIZE dvd lim"
    and "n * PAGE_SIZE < chain_next lim vs" and "chain_next lim vs < Suc n * PAGE_SIZE"
  shows "occupied H lim fr vs n"
proof (cases vs)
  case Nil
  then have "n * PAGE_SIZE < lim" "lim < Suc n * PAGE_SIZE" using assms by simp_all
  moreover from assms(3) obtain k where "lim = PAGE_SIZE * k" by blast
  ultimately have False by (auto simp: PAGE_SIZE_def)
  then show ?thesis ..
next
  case (Cons v ws)
  then show ?thesis using assms by auto
qed

lemma occupied_data:
  assumes ch: "chain H lim (us @ x # vs)" and H: "0 < H" and P: "PAGE_SIZE dvd lim" and "fr x"
    and "x \<notin> set us" and "x \<notin> set vs"
  shows "occupied H lim (fr(x := False)) (us @ x # vs) n \<longleftrightarrow>
     occupied H lim fr (us @ x # vs) n
       \<or> (x + H \<le> n * PAGE_SIZE \<and> Suc n * PAGE_SIZE \<le> chain_next lim vs)"
proof -
  have vs: "chain H lim vs" and xe: "x + H \<le> chain_next lim vs"
    using assms(1) by (simp_all add: chain_append)
  have u: "occupied H x (fr(x := False)) us n = occupied H x fr us n"
    by (rule occupied_cong) (use assms in auto)
  have v: "occupied H lim (fr(x := False)) vs n = occupied H lim fr vs n"
    by (rule occupied_cong) (use assms in auto)
  let ?e = "chain_next lim vs"
  have "n * PAGE_SIZE < ?e \<Longrightarrow> Suc n * PAGE_SIZE \<le> ?e \<or> occupied H lim fr vs n"
    using occupied_next [OF vs H P, of n fr] by linarith
  then show ?thesis
    using assms(2,4) xe u v by (auto simp: occupied_append not_less PAGE_SIZE_def)
qed

lemma data_not_occupied:
  assumes "chain H lim (us @ x # vs)" and "fr x"
    and "x + H \<le> n * PAGE_SIZE" and "Suc n * PAGE_SIZE \<le> chain_next lim vs"
  shows "\<not> occupied H lim fr (us @ x # vs) n"
proof -
  have vs: "chain H lim vs" and us: "chain H x us"
    using assms(1) by (simp_all add: chain_append)
  have "\<not> occupied H x fr us n" using occupied_bounds [OF us, of fr n] assms by auto
  moreover have "\<not> occupied H lim fr vs n" using occupied_bounds [OF vs, of fr n] assms by auto
  ultimately show ?thesis using assms by (simp add: occupied_append)
qed

lemma occupied_split:
  assumes ch: "chain H lim (us @ x # vs)" and H: "0 < H" and P: "PAGE_SIZE dvd lim" and fr: "fr x"
    and y: "x + H \<le> y" "y + H \<le> chain_next lim vs"
  shows "occupied H lim (fr(x := False, y := True)) (us @ x # y # vs) n \<longleftrightarrow>
     occupied H lim fr (us @ x # vs) n
       \<or> (x + H \<le> n * PAGE_SIZE \<and> Suc n * PAGE_SIZE \<le> chain_next lim vs \<and> n * PAGE_SIZE < y + H)"
proof -
  have vs: "chain H lim vs" and xe: "x + H \<le> chain_next lim vs" and us: "chain H x us"
    using ch by (simp_all add: chain_append)
  have us_x: "\<forall>z \<in> set us. z < x" using chain_mem [OF us] H by fastforce
  have vs_y: "\<forall>z \<in> set vs. y < z" using chain_mem [OF vs] y H by fastforce
  let ?fr = "fr(x := False, y := True)" and ?e = "chain_next lim vs"
  have u: "occupied H x ?fr us n = occupied H x fr us n"
    by (rule occupied_cong) (use us_x y H in auto)
  have v: "occupied H lim ?fr vs n = occupied H lim fr vs n"
    by (rule occupied_cong) (use vs_y y H in auto)
  have "n * PAGE_SIZE < ?e \<Longrightarrow> Suc n * PAGE_SIZE \<le> ?e \<or> occupied H lim fr vs n"
    using occupied_next [OF vs H P, of n fr] by linarith
  then show ?thesis
    using H fr xe u v y by (auto simp: occupied_append not_less PAGE_SIZE_def)
qed

lemma occupied_merge:
  assumes ch: "chain H lim (us @ p # b # vs)" and H: "0 < H" and fr: "fr p" "fr b"
  shows "occupied H lim fr (us @ p # b # vs) n \<longleftrightarrow>
     occupied H lim fr (us @ p # vs) n \<or> (b < Suc n * PAGE_SIZE \<and> n * PAGE_SIZE < b + H)"
  using fr by (auto simp: occupied_append)

text \<open>
  Whether a page of the header being deleted is still in use depends only on the header
  before it and on the start of the one after it.
\<close>

lemma occupied_shared:
  assumes ch: "chain H lim (us @ p # b # vs)" and H: "0 < H" and fr: "fr p"
    and b: "b < Suc n * PAGE_SIZE" "n * PAGE_SIZE < b + H"
  shows "occupied H lim fr (us @ p # vs) n \<longleftrightarrow>
     n * PAGE_SIZE < p + H \<or> (vs \<noteq> [] \<and> chain_next lim vs < Suc n * PAGE_SIZE)"
proof -
  have us: "chain H p us" and vs: "chain H lim vs" and pb: "p + H \<le> b" and be: "b + H \<le> chain_next lim vs"
    using ch by (simp_all add: chain_append)
  have "occupied H p fr us n \<Longrightarrow> n * PAGE_SIZE < p" using occupied_bounds [OF us] by blast
  moreover have "occupied H lim fr vs n \<longleftrightarrow> vs \<noteq> [] \<and> chain_next lim vs < Suc n * PAGE_SIZE"
  proof
    assume "occupied H lim fr vs n"
    then show "vs \<noteq> [] \<and> chain_next lim vs < Suc n * PAGE_SIZE"
      using occupied_bounds [OF vs] by (cases vs) auto
  next
    assume "vs \<noteq> [] \<and> chain_next lim vs < Suc n * PAGE_SIZE"
    then obtain v ws where "vs = v # ws" "v < Suc n * PAGE_SIZE" by (cases vs) auto
    then show "occupied H lim fr vs n" using be b H vs by auto
  qed
  ultimately show ?thesis using fr pb b H by (auto simp: occupied_append)
qed

section \<open>Page arithmetic\<close>

lemma page_mask_le: "page_mask x \<le> x" and page_mask_gt: "x < page_mask x + PAGE_SIZE"
  and page_mask_dvd: "PAGE_SIZE dvd page_mask x"
  by (simp_all add: page_mask_def PAGE_SIZE_def dividend_less_div_times)

lemma less_page_mask: "n * PAGE_SIZE < page_mask x \<longleftrightarrow> Suc n * PAGE_SIZE \<le> x"
  by (simp add: page_mask_def PAGE_SIZE_def) linarith

lemma page_align_exact:
  assumes "x + PAGE_SIZE \<le> 2 ^ (8 * ptr_bytes K)"
  shows "page_align K x = (x + (PAGE_SIZE - 1)) div PAGE_SIZE * PAGE_SIZE"
  using assms by (simp add: page_align_def align_up_def szt_id PAGE_SIZE_def)

lemma page_align_le:
  assumes "x + PAGE_SIZE \<le> 2 ^ (8 * ptr_bytes K)"
  shows "page_align K x \<le> n * PAGE_SIZE \<longleftrightarrow> x \<le> n * PAGE_SIZE"
proof -
  have "(x + 4095) div 4096 \<le> n \<longleftrightarrow> x \<le> n * 4096" by linarith
  then show ?thesis unfolding page_align_exact [OF assms] PAGE_SIZE_def by simp
qed

lemma page_align_dvd: "PAGE_SIZE dvd page_align K x"
  by (simp add: page_align_def align_up_dvd)

end
