(* ===== verification/Binder_Pages.thy ===== *)
theory Binder_Pages
  imports Binder_Layout
begin

text \<open>
  What \<open>binder_update_page_range\<close> does to the page array. Addresses of pages are written as
  multiples of the page size; \<open>B\<close> is the number of the first page of the area. Freeing
  clears the range. Allocating either maps the whole range or, whatever call fails, leaves
  exactly the pages that were mapped before: the jumps into the freeing loop undo the work.
\<close>

definition freed_page :: "bool \<Rightarrow> vpage \<Rightarrow> vpage" where
  "freed_page vma pg = (if vma then pg\<lparr>pg_user := False\<rparr> else pg)\<lparr>pg_kernel := False, pg_page := False\<rparr>"

definition pgv :: "vpage \<Rightarrow> bool \<times> bool" where
  "pgv pg = (pg_page pg, pg_kernel pg)"

lemma pgv_freed [simp]: "pgv (freed_page vma pg) = (False, False)"
  by (simp add: pgv_def freed_page_def)

lemma PAGE_SIZE_pos [simp]: "0 < PAGE_SIZE"
  by (simp add: PAGE_SIZE_def)

text \<open>Updates of the page array and of the call counter are brought into one order.\<close>

lemma ticks_pages [simp]: "a\<lparr>p_ticks := t, p_pages := ps\<rparr> = a\<lparr>p_pages := ps, p_ticks := t\<rparr>"
  by simp

lemma page_index_eq:
  assumes "p_buffer a = B * PAGE_SIZE" and "B \<le> n" and "n < B + length (p_pages a)"
  shows "page_index a (n * PAGE_SIZE) = Some (n - B)"
proof -
  have "(n * PAGE_SIZE - B * PAGE_SIZE) div PAGE_SIZE = n - B"
    by (simp flip: diff_mult_distrib)
  then show ?thesis using assms by (simp add: page_index_def less_diff_conv2)
qed

lemma free_one_page_eq:
  assumes "p_buffer a = B * PAGE_SIZE" and "B \<le> n" and "n < B + length (p_pages a)"
    and "pg_page (p_pages a ! (n - B))"
  shows "free_one_page vma a (n * PAGE_SIZE)
           = Some (a\<lparr>p_pages := (p_pages a)[n - B := freed_page vma (p_pages a ! (n - B))]\<rparr>)"
  using assms(4) by (simp add: free_one_page_def page_index_eq [OF assms(1-3)] freed_page_def Let_def)

lemma page_free_loop_below:
  "page_addr < start \<Longrightarrow> page_free_loop vma a start page_addr = Some a"
  by (simp add: page_free_loop.simps)

lemma page_free_loop_effect:
  assumes "p_buffer a = B * PAGE_SIZE" and "B \<le> S" and "0 < S" and "N < B + length (p_pages a)"
    and "\<forall>j. S \<le> B + j \<and> B + j \<le> N \<longrightarrow> pg_page (p_pages a ! j)"
  shows "\<exists>ps. page_free_loop vma a (S * PAGE_SIZE) (N * PAGE_SIZE) = Some (a\<lparr>p_pages := ps\<rparr>)
     \<and> length ps = length (p_pages a)
     \<and> (\<forall>j < length ps. ps ! j =
          (if S \<le> B + j \<and> B + j \<le> N then freed_page vma (p_pages a ! j) else p_pages a ! j))"
  using assms
proof (induction N arbitrary: a)
  case 0
  then have "page_free_loop vma a (S * PAGE_SIZE) (0 * PAGE_SIZE) = Some a"
    by (simp add: page_free_loop_below)
  then show ?case using 0 by (intro exI [of _ "p_pages a"]) auto
next
  case (Suc N)
  show ?case
  proof (cases "S \<le> Suc N")
    case False
    then have "Suc N * PAGE_SIZE < S * PAGE_SIZE" by (simp only: mult_less_mono1 PAGE_SIZE_pos not_le)
    then have "page_free_loop vma a (S * PAGE_SIZE) (Suc N * PAGE_SIZE) = Some a"
      by (rule page_free_loop_below)
    then show ?thesis using False by (intro exI [of _ "p_pages a"]) auto
  next
    case True
    let ?i = "Suc N - B"
    let ?a = "a\<lparr>p_pages := (p_pages a)[?i := freed_page vma (p_pages a ! ?i)]\<rparr>"
    have pg: "pg_page (p_pages a ! ?i)" using Suc.prems True by auto
    have one: "free_one_page vma a (Suc N * PAGE_SIZE) = Some ?a"
      by (rule free_one_page_eq) (use Suc.prems True pg in auto)
    have "\<forall>j. S \<le> B + j \<and> B + j \<le> N \<longrightarrow> pg_page (p_pages ?a ! j)"
      using Suc.prems by (auto simp: nth_list_update)
    then obtain ps where ps: "page_free_loop vma ?a (S * PAGE_SIZE) (N * PAGE_SIZE) = Some (?a\<lparr>p_pages := ps\<rparr>)"
      "length ps = length (p_pages ?a)"
      "\<forall>j < length ps. ps ! j =
          (if S \<le> B + j \<and> B + j \<le> N then freed_page vma (p_pages ?a ! j) else p_pages ?a ! j)"
      using Suc.IH [of ?a] Suc.prems by auto
    have "page_free_loop vma a (S * PAGE_SIZE) (Suc N * PAGE_SIZE)
            = page_free_loop vma ?a (S * PAGE_SIZE) (N * PAGE_SIZE)"
      using True one by (subst page_free_loop.simps) (simp add: mult_le_mono1 del: mult_Suc, simp)
    then show ?thesis using ps True Suc.prems
      by (intro exI [of _ ps]) (auto simp: nth_list_update le_Suc_eq)
  qed
qed

lemma page_unwind_effect:
  assumes "p_buffer a = B * PAGE_SIZE" and "B \<le> S" and "0 < S" and "S \<le> N" and "N < B + length (p_pages a)"
    and "\<forall>j. S \<le> B + j \<and> B + j < N \<longrightarrow> pg_page (p_pages a ! j)"
  shows "\<exists>ps. page_unwind a (S * PAGE_SIZE) (N * PAGE_SIZE) = Some (- ENOMEM, a\<lparr>p_pages := ps\<rparr>)
     \<and> length ps = length (p_pages a)
     \<and> (\<forall>j < length ps. ps ! j =
          (if S \<le> B + j \<and> B + j < N then freed_page True (p_pages a ! j) else p_pages a ! j))"
proof -
  have N: "0 < N" using assms by simp
  have mul: "N * PAGE_SIZE - PAGE_SIZE = (N - 1) * PAGE_SIZE" by (simp add: diff_mult_distrib)
  have "\<exists>ps. page_free_loop True a (S * PAGE_SIZE) ((N - 1) * PAGE_SIZE) = Some (a\<lparr>p_pages := ps\<rparr>)
     \<and> length ps = length (p_pages a)
     \<and> (\<forall>j < length ps. ps ! j =
          (if S \<le> B + j \<and> B + j \<le> N - 1 then freed_page True (p_pages a ! j) else p_pages a ! j))"
    by (rule page_free_loop_effect) (use assms N in auto)
  moreover have "B + j \<le> N - 1 \<longleftrightarrow> B + j < N" for j using N by auto
  moreover have "\<not> N * PAGE_SIZE < PAGE_SIZE" using N by (cases N) auto
  ultimately show ?thesis by (auto simp: page_unwind_def mul)
qed

text \<open>The two outcomes of the allocating loop, as a relation between page arrays.\<close>

definition pages_mapped :: "nat \<Rightarrow> nat \<Rightarrow> nat \<Rightarrow> vpage list \<Rightarrow> vpage list \<Rightarrow> bool" where
  "pages_mapped B N E ps ps' \<longleftrightarrow> length ps' = length ps \<and>
     (\<forall>j < length ps. pgv (ps' ! j) = (if N \<le> B + j \<and> B + j < E then (True, True) else pgv (ps ! j)))"

definition pages_unmapped :: "nat \<Rightarrow> nat \<Rightarrow> nat \<Rightarrow> vpage list \<Rightarrow> vpage list \<Rightarrow> bool" where
  "pages_unmapped B N E ps ps' \<longleftrightarrow> length ps' = length ps \<and>
     (\<forall>j < length ps. pgv (ps' ! j) = (if N \<le> B + j \<and> B + j < E then (False, False) else pgv (ps ! j)))"

lemma page_alloc_loop_effect:
  assumes "p_buffer a = B * PAGE_SIZE" and "B \<le> S" and "0 < S" and "S \<le> N" and "N \<le> E" and "E \<le> B + length (p_pages a)"
    and "\<forall>j. S \<le> B + j \<and> B + j < N \<longrightarrow> pg_page (p_pages a ! j)"
    and "\<forall>j. N \<le> B + j \<and> B + j < E \<longrightarrow> pgv (p_pages a ! j) = (False, False)"
  shows "\<exists>r ps t. page_alloc_loop K a (S * PAGE_SIZE) (N * PAGE_SIZE) (E * PAGE_SIZE)
            = Some (r, a\<lparr>p_pages := ps, p_ticks := t\<rparr>)
     \<and> (r = 0 \<and> pages_mapped B N E (p_pages a) ps \<or> r = - ENOMEM \<and> pages_unmapped B S E (p_pages a) ps)"
  using assms
proof (induction "E - N" arbitrary: N a)
  case 0
  then have "page_alloc_loop K a (S * PAGE_SIZE) (N * PAGE_SIZE) (E * PAGE_SIZE) = Some (0, a)"
    by (simp add: page_alloc_loop.simps)
  then show ?case using 0
    by (intro exI [of _ 0] exI [of _ "p_pages a"] exI [of _ "p_ticks a"]) (auto simp: pages_mapped_def)
next
  case (Suc d)
  then have NE: "N < E" by simp
  let ?i = "N - B" and ?n = "p_ticks a"
  let ?pg = "p_pages a ! ?i"
  have i: "?i < length (p_pages a)" "B + ?i = N" using Suc.prems NE by auto
  have idx: "page_index a (N * PAGE_SIZE) = Some ?i"
    by (rule page_index_eq) (use Suc.prems NE in auto)
  have pgi: "pgv ?pg = (False, False)" using Suc.prems(8) i NE by auto
  then have pgf: "\<not> pg_page ?pg" "\<not> pg_kernel ?pg" by (auto simp: pgv_def)
  have unwind: "\<exists>r ps' t. page_unwind (a\<lparr>p_pages := qs, p_ticks := Suc ?n\<rparr>) (S * PAGE_SIZE) (N * PAGE_SIZE)
            = Some (r, a\<lparr>p_pages := ps', p_ticks := t\<rparr>)
     \<and> (r = 0 \<and> pages_mapped B N E (p_pages a) ps' \<or> r = - ENOMEM \<and> pages_unmapped B S E (p_pages a) ps')"
    if qs: "length qs = length (p_pages a)" "\<forall>j < length qs. j \<noteq> ?i \<longrightarrow> qs ! j = p_pages a ! j"
      "pgv (qs ! ?i) = (False, False)" for qs
  proof -
    let ?a = "a\<lparr>p_pages := qs, p_ticks := Suc ?n\<rparr>"
    have "\<forall>j. S \<le> B + j \<and> B + j < N \<longrightarrow> pg_page (p_pages ?a ! j)"
      using Suc.prems qs i by auto
    then obtain ps where ps: "page_unwind ?a (S * PAGE_SIZE) (N * PAGE_SIZE) = Some (- ENOMEM, ?a\<lparr>p_pages := ps\<rparr>)"
      "length ps = length qs"
      "\<forall>j < length ps. ps ! j = (if S \<le> B + j \<and> B + j < N then freed_page True (qs ! j) else qs ! j)"
      using page_unwind_effect [of ?a B S N] Suc.prems NE qs by auto
    have "pages_unmapped B S E (p_pages a) ps"
      unfolding pages_unmapped_def
    proof (intro conjI allI impI)
      show "length ps = length (p_pages a)" using ps qs by simp
      fix j assume j: "j < length (p_pages a)"
      show "pgv (ps ! j) = (if S \<le> B + j \<and> B + j < E then (False, False) else pgv (p_pages a ! j))"
        using j ps qs i NE Suc.prems(4,8) by (cases "j = ?i") auto
    qed
    then show ?thesis using ps by (intro exI [of _ "- ENOMEM"] exI [of _ ps] exI [of _ "Suc ?n"]) simp
  qed
  have lt: "N * PAGE_SIZE < E * PAGE_SIZE" using NE by simp
  note unfold = page_alloc_loop.simps [of K a "S * PAGE_SIZE" "N * PAGE_SIZE" "E * PAGE_SIZE"]
  show ?case
  proof (cases "alloc_page K ?n \<and> map_vm_area K ?n \<and> vm_insert_page K ?n")
    case False
    then consider "\<not> alloc_page K ?n" | "alloc_page K ?n" "\<not> map_vm_area K ?n"
      | "alloc_page K ?n" "map_vm_area K ?n" "\<not> vm_insert_page K ?n" by blast
    then show ?thesis
    proof cases
      case 1
      have "a\<lparr>p_ticks := Suc ?n\<rparr> = a\<lparr>p_pages := p_pages a, p_ticks := Suc ?n\<rparr>" by simp
      then show ?thesis using unwind [of "p_pages a"] 1 pgi idx pgf lt unfold by (simp add: Let_def)
    next
      case 2
      then show ?thesis using unwind [of "(p_pages a)[?i := ?pg\<lparr>pg_page := False\<rparr>]"] i pgf idx lt unfold
        by (simp add: Let_def pgv_def)
    next
      case 3
      then show ?thesis
        using unwind [of "(p_pages a)[?i := ?pg\<lparr>pg_kernel := False, pg_page := False\<rparr>]"] i pgf idx lt unfold
        by (simp add: Let_def pgv_def)
    qed
  next
    case True
    let ?qs = "(p_pages a)[?i := ?pg\<lparr>pg_page := True, pg_kernel := True, pg_user := True\<rparr>]"
    let ?a = "a\<lparr>p_pages := ?qs, p_ticks := Suc ?n\<rparr>"
    have eq: "page_alloc_loop K a (S * PAGE_SIZE) (N * PAGE_SIZE) (E * PAGE_SIZE)
        = page_alloc_loop K ?a (S * PAGE_SIZE) (Suc N * PAGE_SIZE) (E * PAGE_SIZE)"
      using True idx pgf lt unfold by (simp add: Let_def add.commute)
    have "d = E - Suc N" using Suc.hyps(2) by simp
    moreover have "\<forall>j. S \<le> B + j \<and> B + j < Suc N \<longrightarrow> pg_page (p_pages ?a ! j)"
      using Suc.prems(7) i by (auto simp: nth_list_update less_Suc_eq)
    moreover have "\<forall>j. Suc N \<le> B + j \<and> B + j < E \<longrightarrow> pgv (p_pages ?a ! j) = (False, False)"
      using Suc.prems(8) i by (auto simp: nth_list_update)
    ultimately obtain r ps t where rec:
      "page_alloc_loop K ?a (S * PAGE_SIZE) (Suc N * PAGE_SIZE) (E * PAGE_SIZE)
          = Some (r, ?a\<lparr>p_pages := ps, p_ticks := t\<rparr>)"
      "r = 0 \<and> pages_mapped B (Suc N) E ?qs ps \<or> r = - ENOMEM \<and> pages_unmapped B S E ?qs ps"
      using Suc.hyps(1) [of "Suc N" ?a] Suc.prems NE by auto
    have "pages_mapped B (Suc N) E ?qs ps \<Longrightarrow> pages_mapped B N E (p_pages a) ps"
      using i NE unfolding pages_mapped_def by (auto simp: nth_list_update pgv_def)
    moreover have "pages_unmapped B S E ?qs ps \<Longrightarrow> pages_unmapped B S E (p_pages a) ps"
      using i NE Suc.prems unfolding pages_unmapped_def by (auto simp: nth_list_update)
    ultimately show ?thesis using rec eq by auto
  qed
qed

text \<open>
  The contract of \<open>binder_update_page_range\<close> on a well-formed area: over the pages of the
  area, freeing a range of mapped pages unmaps exactly that range, and allocating a range of
  unmapped pages either maps exactly that range and returns zero or changes no page and
  returns \<open>-ENOMEM\<close>.
\<close>

definition area_end :: "binder_alloc \<Rightarrow> nat" where
  "area_end a = p_buffer a + p_buffer_size a"

definition area_ok :: "kern \<Rightarrow> binder_alloc \<Rightarrow> bool" where
  "area_ok K a \<longleftrightarrow>
     PAGE_SIZE \<le> p_buffer a \<and> PAGE_SIZE dvd p_buffer a \<and> PAGE_SIZE dvd p_buffer_size a \<and>
     area_end a + PAGE_SIZE \<le> 2 ^ (8 * ptr_bytes K) \<and>
     length (p_pages a) * PAGE_SIZE = p_buffer_size a"

definition in_area :: "binder_alloc \<Rightarrow> nat \<Rightarrow> bool" where
  "in_area a n \<longleftrightarrow> p_buffer a \<le> n * PAGE_SIZE \<and> n * PAGE_SIZE < area_end a"

definition page_at :: "binder_alloc \<Rightarrow> nat \<Rightarrow> bool \<times> bool" where
  "page_at a n = pgv (p_pages a ! (n - p_buffer a div PAGE_SIZE))"

lemma area_okE:
  assumes "area_ok K a"
  obtains B where "p_buffer a = B * PAGE_SIZE" and "0 < B" and "p_buffer a div PAGE_SIZE = B"
    and "area_end a = (B + length (p_pages a)) * PAGE_SIZE"
    and "\<forall>n. in_area a n \<longleftrightarrow> B \<le> n \<and> n < B + length (p_pages a)"
proof -
  from assms obtain B where B: "p_buffer a = PAGE_SIZE * B" by (auto simp: area_ok_def)
  have e: "area_end a = (B + length (p_pages a)) * PAGE_SIZE"
    using assms B by (simp add: area_ok_def area_end_def algebra_simps)
  show thesis
  proof (rule that [of B])
    show "p_buffer a = B * PAGE_SIZE" using B by simp
    show "0 < B" using assms B by (cases B) (auto simp: area_ok_def PAGE_SIZE_def)
    show "p_buffer a div PAGE_SIZE = B" using B by simp
    show "area_end a = (B + length (p_pages a)) * PAGE_SIZE" by (rule e)
    show "\<forall>n. in_area a n \<longleftrightarrow> B \<le> n \<and> n < B + length (p_pages a)"
      unfolding in_area_def e B by (simp add: PAGE_SIZE_def) linarith
  qed
qed

text \<open>\<open>range_set a a' start end v\<close>: \<open>a'\<close> differs from \<open>a\<close> in its pages only, which
  have the state \<open>v\<close> in the range and are unchanged elsewhere.\<close>

definition range_set ::
  "binder_alloc \<Rightarrow> vpage list \<Rightarrow> nat \<Rightarrow> nat \<Rightarrow> bool \<times> bool \<Rightarrow> bool" where
  "range_set a ps start end_addr v \<longleftrightarrow> length ps = length (p_pages a) \<and>
     (\<forall>n. in_area a n \<longrightarrow> pgv (ps ! (n - p_buffer a div PAGE_SIZE)) =
        (if start \<le> n * PAGE_SIZE \<and> n * PAGE_SIZE < end_addr then v else page_at a n))"

lemma update_free:
  assumes ok: "area_ok K a" and "PAGE_SIZE dvd start" and "PAGE_SIZE dvd end_addr"
    and "p_buffer a \<le> start" and "end_addr \<le> area_end a"
    and pres: "\<And>n. start \<le> n * PAGE_SIZE \<Longrightarrow> n * PAGE_SIZE < end_addr \<Longrightarrow> page_at a n = (True, True)"
  obtains r ps t where
    "binder_update_page_range K a False start end_addr False = Some (r, a\<lparr>p_pages := ps, p_ticks := t\<rparr>)"
    and "range_set a ps start end_addr (False, False)"
proof (cases "end_addr \<le> start")
  case True
  then have "binder_update_page_range K a False start end_addr False
      = Some (0, a\<lparr>p_pages := p_pages a, p_ticks := p_ticks a\<rparr>)"
    by (simp add: binder_update_page_range_def)
  then show thesis by (rule that) (use True in \<open>auto simp: range_set_def page_at_def\<close>)
next
  case False
  from ok obtain B where B: "p_buffer a = B * PAGE_SIZE" "0 < B" "p_buffer a div PAGE_SIZE = B"
    "area_end a = (B + length (p_pages a)) * PAGE_SIZE"
    "\<forall>n. in_area a n \<longleftrightarrow> B \<le> n \<and> n < B + length (p_pages a)" by (rule area_okE)
  from assms(2,3) obtain S E where SE: "start = S * PAGE_SIZE" "end_addr = E * PAGE_SIZE"
    by (metis dvd_div_mult_self)
  have bnd: "B \<le> S" "S < E" "E \<le> B + length (p_pages a)"
    using assms(4,5) False B SE by simp_all
  have mul: "E * PAGE_SIZE - PAGE_SIZE = (E - 1) * PAGE_SIZE" by (simp add: diff_mult_distrib)
  obtain vma where vma: "binder_update_page_range K a False start end_addr False
      = map_option (Pair (- ENOMEM))
          (page_free_loop vma (a\<lparr>p_ticks := Suc (p_ticks a)\<rparr>) (S * PAGE_SIZE) ((E - 1) * PAGE_SIZE))"
    using False SE bnd mul by (cases E) (auto simp: binder_update_page_range_def Let_def)
  let ?a = "a\<lparr>p_ticks := Suc (p_ticks a)\<rparr>"
  have pg: "\<forall>j. S \<le> B + j \<and> B + j \<le> E - 1 \<longrightarrow> pg_page (p_pages ?a ! j)"
  proof (intro allI impI)
    fix j assume j: "S \<le> B + j \<and> B + j \<le> E - 1"
    then have "B + j < E" using bnd by auto
    then have "page_at a (B + j) = (True, True)" using pres [of "B + j"] j SE by simp
    then show "pg_page (p_pages ?a ! j)" using B by (simp add: page_at_def pgv_def)
  qed
  obtain ps where ps: "page_free_loop vma ?a (S * PAGE_SIZE) ((E - 1) * PAGE_SIZE) = Some (?a\<lparr>p_pages := ps\<rparr>)"
    "length ps = length (p_pages a)"
    "\<forall>j < length ps. ps ! j = (if S \<le> B + j \<and> B + j \<le> E - 1 then freed_page vma (p_pages a ! j) else p_pages a ! j)"
  proof -
    have "E - 1 < B + length (p_pages ?a)" using bnd by simp
    then show thesis using page_free_loop_effect [of ?a B S "E - 1" vma] pg B bnd that by auto
  qed
  have "range_set a ps start end_addr (False, False)"
    unfolding range_set_def
  proof (intro conjI allI impI)
    show "length ps = length (p_pages a)" by (rule ps(2))
    fix n assume "in_area a n"
    then have n: "B \<le> n" "n - B < length ps" "B + (n - B) = n" using B ps by auto
    have "B + (n - B) \<le> E - 1 \<longleftrightarrow> n < E" using n bnd by auto
    then show "pgv (ps ! (n - p_buffer a div PAGE_SIZE)) =
        (if start \<le> n * PAGE_SIZE \<and> n * PAGE_SIZE < end_addr then (False, False) else page_at a n)"
      using ps(3) n SE B(3) by (simp add: page_at_def)
  qed
  then show thesis using vma ps(1) that by simp
qed

lemma update_alloc:
  assumes "area_ok K a" and "PAGE_SIZE dvd start" and "PAGE_SIZE dvd end_addr"
    and "p_buffer a \<le> start" and "end_addr \<le> area_end a"
    and abs: "\<And>n. start \<le> n * PAGE_SIZE \<Longrightarrow> n * PAGE_SIZE < end_addr \<Longrightarrow> page_at a n = (False, False)"
  obtains (mapped) ps t where
    "binder_update_page_range K a True start end_addr v = Some (0, a\<lparr>p_pages := ps, p_ticks := t\<rparr>)"
    and "range_set a ps start end_addr (True, True)"
  | (failed) ps t where
    "binder_update_page_range K a True start end_addr v = Some (- ENOMEM, a\<lparr>p_pages := ps, p_ticks := t\<rparr>)"
    and "length ps = length (p_pages a)" and "\<And>n. in_area a n \<Longrightarrow> pgv (ps ! (n - p_buffer a div PAGE_SIZE)) = page_at a n"
proof (cases "end_addr \<le> start")
  case True
  then have "binder_update_page_range K a True start end_addr v
      = Some (0, a\<lparr>p_pages := p_pages a, p_ticks := p_ticks a\<rparr>)"
    by (simp add: binder_update_page_range_def)
  then show thesis by (rule mapped) (use True in \<open>auto simp: range_set_def page_at_def\<close>)
next
  case False
  from assms(1) obtain B where B: "p_buffer a = B * PAGE_SIZE" "0 < B" "p_buffer a div PAGE_SIZE = B"
    "area_end a = (B + length (p_pages a)) * PAGE_SIZE"
    "\<forall>n. in_area a n \<longleftrightarrow> B \<le> n \<and> n < B + length (p_pages a)" by (rule area_okE)
  from assms(2,3) obtain S E where SE: "start = S * PAGE_SIZE" "end_addr = E * PAGE_SIZE"
    by (metis dvd_div_mult_self)
  have bnd: "B \<le> S" "S < E" "E \<le> B + length (p_pages a)"
    using assms(4,5) False B SE by simp_all
  let ?a = "a\<lparr>p_ticks := Suc (p_ticks a)\<rparr>"
  consider (novma) "binder_update_page_range K a True start end_addr v = Some (- ENOMEM, ?a)"
    | (loop) "binder_update_page_range K a True start end_addr v
        = page_alloc_loop K ?a (S * PAGE_SIZE) (S * PAGE_SIZE) (E * PAGE_SIZE)"
    using False SE
    by (cases "case if v then None else get_task_mm K (p_tsk a) (p_ticks a) of
                 None \<Rightarrow> v | Some m \<Rightarrow> p_vma a \<and> p_vma_vm_mm a = Some m")
      (simp_all add: binder_update_page_range_def Let_def)
  then show thesis
  proof cases
    case novma
    then have "binder_update_page_range K a True start end_addr v
        = Some (- ENOMEM, a\<lparr>p_pages := p_pages a, p_ticks := Suc (p_ticks a)\<rparr>)" by simp
    then show thesis by (rule failed) (simp_all add: page_at_def)
  next
    case loop
    have pg: "\<forall>j. S \<le> B + j \<and> B + j < E \<longrightarrow> pgv (p_pages ?a ! j) = (False, False)"
    proof (intro allI impI)
      fix j assume "S \<le> B + j \<and> B + j < E"
      then show "pgv (p_pages ?a ! j) = (False, False)"
        using abs [of "B + j"] SE B by (simp add: page_at_def)
    qed
    have "\<exists>r ps t. page_alloc_loop K ?a (S * PAGE_SIZE) (S * PAGE_SIZE) (E * PAGE_SIZE)
            = Some (r, ?a\<lparr>p_pages := ps, p_ticks := t\<rparr>)
     \<and> (r = 0 \<and> pages_mapped B S E (p_pages ?a) ps \<or> r = - ENOMEM \<and> pages_unmapped B S E (p_pages ?a) ps)"
    proof (rule page_alloc_loop_effect [OF _ bnd(1)])
      show "\<forall>j. S \<le> B + j \<and> B + j < S \<longrightarrow> pg_page (p_pages ?a ! j)" by auto
    qed (use B bnd pg in simp_all)
    then obtain r ps t where res: "page_alloc_loop K ?a (S * PAGE_SIZE) (S * PAGE_SIZE) (E * PAGE_SIZE)
          = Some (r, ?a\<lparr>p_pages := ps, p_ticks := t\<rparr>)"
      "r = 0 \<and> pages_mapped B S E (p_pages ?a) ps \<or> r = - ENOMEM \<and> pages_unmapped B S E (p_pages ?a) ps"
      by blast
    have idx: "n - B < length (p_pages a) \<and> B + (n - B) = n" if "in_area a n" for n
    proof -
      have "B \<le> n \<and> n < B + length (p_pages a)" using that B(5) by blast
      then show ?thesis by auto
    qed
    from res(2) have "r = 0 \<and> pages_mapped B S E (p_pages a) ps
        \<or> r = - ENOMEM \<and> pages_unmapped B S E (p_pages a) ps" by simp
    then show thesis
    proof
      assume "r = 0 \<and> pages_mapped B S E (p_pages a) ps"
      then have r: "r = 0" and m: "pages_mapped B S E (p_pages a) ps" by auto
      have "range_set a ps start end_addr (True, True)"
        unfolding range_set_def
      proof (intro conjI allI impI)
        show "length ps = length (p_pages a)" using m by (simp add: pages_mapped_def)
        fix n assume "in_area a n"
        then show "pgv (ps ! (n - p_buffer a div PAGE_SIZE)) =
          (if start \<le> n * PAGE_SIZE \<and> n * PAGE_SIZE < end_addr then (True, True) else page_at a n)"
          using m idx [of n] SE B(3) by (simp add: page_at_def pages_mapped_def)
      qed
      then show thesis by (rule mapped [rotated]) (use loop res(1) r in simp)
    next
      assume "r = - ENOMEM \<and> pages_unmapped B S E (p_pages a) ps"
      then have r: "r = - ENOMEM" and m: "pages_unmapped B S E (p_pages a) ps" by auto
      have "pgv (ps ! (n - p_buffer a div PAGE_SIZE)) = page_at a n" if "in_area a n" for n
        using m idx [OF that] pg B(3) unfolding pages_unmapped_def page_at_def by auto
      moreover have "length ps = length (p_pages a)" using m by (simp add: pages_unmapped_def)
      moreover have "binder_update_page_range K a True start end_addr v
          = Some (- ENOMEM, a\<lparr>p_pages := ps, p_ticks := t\<rparr>)" using loop res(1) r by simp
      ultimately show thesis using failed by blast
    qed
  qed
qed

end
