(* ===== verification/Binder_Trees.thy ===== *)
theory Binder_Trees
  imports Binder_Pages
begin

text \<open>
  The invariant of the transaction area and the behaviour of its two trees: inserting a free
  or an allocated buffer never hits a \<open>BUG_ON\<close> on a well-formed area, the best-fit loop
  finds the smallest free buffer that is large enough, and lookups by user address find
  exactly the allocated buffers.
\<close>

section \<open>The invariant\<close>

definition free_flag :: "binder_alloc \<Rightarrow> addr \<Rightarrow> bool" where
  "free_flag a x \<longleftrightarrow> is_free a x = Some True"

definition free_set :: "binder_alloc \<Rightarrow> addr set" where
  "free_set a = {x \<in> set (p_buffers a). free_flag a x}"

definition alloc_set :: "binder_alloc \<Rightarrow> addr set" where
  "alloc_set a = {x \<in> set (p_buffers a). \<not> free_flag a x}"

definition layout_ok :: "kern \<Rightarrow> binder_alloc \<Rightarrow> bool" where
  "layout_ok K a \<longleftrightarrow>
     p_buffers a \<noteq> [] \<and> hd (p_buffers a) = p_buffer a \<and>
     chain (sizeof_binder_buffer K) (area_end a) (p_buffers a) \<and>
     set (p_buffers a) = dom (p_heap a)"

definition pages_ok :: "kern \<Rightarrow> binder_alloc \<Rightarrow> bool" where
  "pages_ok K a \<longleftrightarrow> (\<forall>n. in_area a n \<longrightarrow>
     page_at a n = (let occ = occupied (sizeof_binder_buffer K) (area_end a) (free_flag a) (p_buffers a) n
                    in (occ, occ)))"

definition free_tree_ok :: "kern \<Rightarrow> binder_alloc \<Rightarrow> addr set \<Rightarrow> bool" where
  "free_tree_ok K a S \<longleftrightarrow> distinct (inorder (p_free_buffers a)) \<and>
     set (inorder (p_free_buffers a)) = S \<and>
     sorted (map (binder_buffer_size K a) (inorder (p_free_buffers a)))"

definition alloc_tree_ok :: "binder_alloc \<Rightarrow> addr set \<Rightarrow> bool" where
  "alloc_tree_ok a S \<longleftrightarrow> keyed (alloc_key a) (p_allocated_buffers a) \<and>
     set (inorder (p_allocated_buffers a)) = S"

definition coalesced :: "binder_alloc \<Rightarrow> bool" where
  "coalesced a \<longleftrightarrow> successively (\<lambda>x y. \<not> (free_flag a x \<and> free_flag a y)) (p_buffers a)"

definition sizes_ok :: "kern \<Rightarrow> binder_alloc \<Rightarrow> bool" where
  "sizes_ok K a \<longleftrightarrow> (\<forall>x h. p_heap a x = Some h \<and> \<not> b_free h \<longrightarrow>
     free_size K h \<le> binder_buffer_size K a x)"

definition binder_inv :: "kern \<Rightarrow> binder_alloc \<Rightarrow> bool" where
  "binder_inv K a \<longleftrightarrow> area_ok K a \<and> layout_ok K a \<and> pages_ok K a \<and>
     free_tree_ok K a (free_set a) \<and> alloc_tree_ok a (alloc_set a) \<and> coalesced a \<and> sizes_ok K a"

section \<open>Sizes on a well-formed area\<close>

lemma sizeof_pos: "kern_ok K \<Longrightarrow> 0 < sizeof_binder_buffer K"
  by (auto simp: sizeof_binder_buffer_def dest: kern_ok_ptr)

lemma sizeof_small: "kern_ok K \<Longrightarrow> sizeof_binder_buffer K + 4 < PAGE_SIZE"
  by (auto simp: sizeof_binder_buffer_def PAGE_SIZE_def dest: kern_ok_ptr)

lemma layout_distinct: "kern_ok K \<Longrightarrow> layout_ok K a \<Longrightarrow> distinct (p_buffers a)"
  using chain_distinct sizeof_pos by (auto simp: layout_ok_def)

lemma layout_split:
  assumes "kern_ok K" and "layout_ok K a" and "x \<in> set (p_buffers a)"
  obtains us vs where "p_buffers a = us @ x # vs" and "x \<notin> set us" and "x \<notin> set vs"
    and "chain (sizeof_binder_buffer K) x us" and "chain (sizeof_binder_buffer K) (area_end a) vs"
    and "x + sizeof_binder_buffer K \<le> chain_next (area_end a) vs"
proof -
  obtain us vs where *: "p_buffers a = us @ x # vs" "x \<notin> set us" "x \<notin> set vs"
    using split_distinct [OF assms(3) layout_distinct [OF assms(1,2)]] .
  have "chain (sizeof_binder_buffer K) (area_end a) (us @ x # vs)"
    using assms(2) * by (simp add: layout_ok_def)
  then show thesis using that * by (simp add: chain_append)
qed

lemma buffer_size_eq:
  assumes "kern_ok K" and "area_ok K a" and "chain (sizeof_binder_buffer K) (area_end a) (p_buffers a)"
    and "p_buffers a = us @ x # vs"
  shows "binder_buffer_size K a x = chain_next (area_end a) vs - (x + sizeof_binder_buffer K)"
proof -
  let ?H = "sizeof_binder_buffer K"
  have ch: "chain ?H (area_end a) (us @ x # vs)" using assms by simp
  then have x: "x \<notin> set us" using chain_distinct [OF sizeof_pos [OF assms(1)]] by fastforce
  have e: "x + ?H \<le> chain_next (area_end a) vs" "chain_next (area_end a) vs \<le> area_end a"
    using ch chain_next_le [of ?H "area_end a" vs] by (simp_all add: chain_append)
  have "area_end a < 2 ^ (8 * ptr_bytes K)"
    using assms(2) PAGE_SIZE_pos unfolding area_ok_def by linarith
  then have "szsub (ptr_bytes K) (chain_next (area_end a) vs) (x + ?H) = chain_next (area_end a) vs - (x + ?H)"
    using e by (intro szsub_exact) auto
  moreover have "binder_buffer_size K a x = szsub (ptr_bytes K) (chain_next (area_end a) vs) (x + ?H)"
    unfolding binder_buffer_size_def assms(4) next_in_split [OF x]
    by (cases vs) (simp_all add: buffer_data_def area_end_def)
  ultimately show ?thesis by simp
qed

lemma buffer_size_frame [frame_simps]:
  "binder_buffer_size K (a\<lparr>p_pages := ps\<rparr>) = binder_buffer_size K a"
  "binder_buffer_size K (a\<lparr>p_ticks := t\<rparr>) = binder_buffer_size K a"
  "binder_buffer_size K (a\<lparr>p_heap := hp\<rparr>) = binder_buffer_size K a"
  "binder_buffer_size K (a\<lparr>p_free_buffers := ft\<rparr>) = binder_buffer_size K a"
  "binder_buffer_size K (a\<lparr>p_allocated_buffers := at\<rparr>) = binder_buffer_size K a"
  "binder_buffer_size K (a\<lparr>p_free_async_space := n\<rparr>) = binder_buffer_size K a"
  by (simp_all add: binder_buffer_size_def fun_eq_iff split: option.split)

section \<open>The tree of free buffers\<close>

lemma rb_link_sized:
  assumes "\<And>b. b \<in> set (inorder t) \<Longrightarrow> f b = Some (if s < sz b then Go_Left else Go_Right)"
    and "sorted (map sz (inorder t))"
  shows "\<exists>t' us vs. rb_link f x t = Some (Some t') \<and> inorder t = us @ vs \<and> inorder t' = us @ x # vs
     \<and> (\<forall>b \<in> set us. sz b \<le> s) \<and> (\<forall>b \<in> set vs. s < sz b)"
  using assms
proof (induction t)
  case Leaf
  then show ?case by simp
next
  case (Node l b r)
  have srt: "sorted (map sz (inorder l))" "sorted (map sz (inorder r))"
    "\<forall>c \<in> set (inorder l). sz c \<le> sz b" "\<forall>c \<in> set (inorder r). sz b \<le> sz c"
    using Node.prems(2) by (auto simp: sorted_append)
  have fb: "f b = Some (if s < sz b then Go_Left else Go_Right)" using Node.prems(1) by simp
  show ?case
  proof (cases "s < sz b")
    case True
    from Node.IH(1) [OF _ srt(1)] Node.prems(1) obtain t' us vs where
      *: "rb_link f x l = Some (Some t')" "inorder l = us @ vs" "inorder t' = us @ x # vs"
         "\<forall>b \<in> set us. sz b \<le> s" "\<forall>b \<in> set vs. s < sz b" by auto
    have "\<forall>c \<in> set (vs @ b # inorder r). s < sz c" using * srt True by fastforce
    then show ?thesis using * True fb
      by (intro exI [of _ "Node t' b r"] exI [of _ us] exI [of _ "vs @ b # inorder r"]) simp
  next
    case False
    from Node.IH(2) [OF _ srt(2)] Node.prems(1) obtain t' us vs where
      *: "rb_link f x r = Some (Some t')" "inorder r = us @ vs" "inorder t' = us @ x # vs"
         "\<forall>b \<in> set us. sz b \<le> s" "\<forall>b \<in> set vs. s < sz b" by auto
    have "\<forall>c \<in> set (inorder l @ b # us). sz c \<le> s" using * srt False by fastforce
    then show ?thesis using * False fb
      by (intro exI [of _ "Node l b t'"] exI [of _ "inorder l @ b # us"] exI [of _ vs]) simp
  qed
qed

lemma insert_free:
  assumes "kern_ok K" and "free_tree_ok K a S" and "\<forall>y \<in> S. free_flag a y" and "free_flag a x" and "x \<notin> S"
  obtains t where "binder_insert_free_buffer K a x = Some (a\<lparr>p_free_buffers := t\<rparr>)"
    and "free_tree_ok K (a\<lparr>p_free_buffers := t\<rparr>) (insert x S)"
proof -
  let ?f = "free_dir K a (binder_buffer_size K a x)"
  have f: "?f b = Some (if binder_buffer_size K a x < binder_buffer_size K a b then Go_Left else Go_Right)"
    if "b \<in> set (inorder (p_free_buffers a))" for b
    using that assms(2,3) by (auto simp: free_tree_ok_def free_dir_def free_flag_def is_free_def)
  from assms(2) have "sorted (map (binder_buffer_size K a) (inorder (p_free_buffers a)))"
    by (simp add: free_tree_ok_def)
  from rb_link_sized [OF f this] obtain t' us vs where
    *: "rb_link ?f x (p_free_buffers a) = Some (Some t')" "inorder (p_free_buffers a) = us @ vs"
       "inorder t' = us @ x # vs" "\<forall>b \<in> set us. binder_buffer_size K a b \<le> binder_buffer_size K a x"
       "\<forall>b \<in> set vs. binder_buffer_size K a x < binder_buffer_size K a b" by blast
  let ?t = "rb_insert_color K x t'"
  have in_t: "inorder ?t = us @ x # vs" using * assms(1) by simp
  obtain h where "p_heap a x = Some h" "b_free h"
    using assms(4) by (auto simp: free_flag_def is_free_def)
  then have "binder_insert_free_buffer K a x = Some (a\<lparr>p_free_buffers := ?t\<rparr>)"
    using * by (simp add: binder_insert_free_buffer_def)
  moreover have "free_tree_ok K (a\<lparr>p_free_buffers := ?t\<rparr>) (insert x S)"
    using assms(2,5) * by (auto simp: free_tree_ok_def in_t sorted_append frame_simps less_imp_le)
  ultimately show thesis by (rule that)
qed

text \<open>What the loop may return when it starts with the candidates \<open>A\<close>.\<close>

definition best_fit_result ::
  "(addr \<Rightarrow> nat) \<Rightarrow> nat \<Rightarrow> addr set \<Rightarrow> addr option \<Rightarrow> addr option \<Rightarrow> addr option \<Rightarrow> bool" where
  "best_fit_result bsz sz A best0 n best \<longleftrightarrow>
     (\<exists>b \<in> A. n = Some b \<and> best = Some b \<and> bsz b = sz)
     \<or> (n = None \<and> best = best0 \<and> (\<forall>y \<in> A. bsz y < sz))
     \<or> (\<exists>b \<in> A. n = None \<and> best = Some b \<and> sz < bsz b \<and> (\<forall>y \<in> A. sz \<le> bsz y \<longrightarrow> bsz b \<le> bsz y))"

lemma best_fit_left:
  assumes "best_fit_result bsz sz L (Some b) n best" and "sz < bsz b"
    and "\<forall>c \<in> R. bsz b \<le> bsz c" and "\<forall>c \<in> L. bsz c \<le> bsz b"
  shows "best_fit_result bsz sz (L \<union> insert b R) best0 n best"
proof -
  from assms(1) consider (exact) c where "c \<in> L" "n = Some c" "best = Some c" "bsz c = sz"
    | (root) "n = None" "best = Some b" "\<forall>y \<in> L. bsz y < sz"
    | (better) c where "c \<in> L" "n = None" "best = Some c" "sz < bsz c" "\<forall>y \<in> L. sz \<le> bsz y \<longrightarrow> bsz c \<le> bsz y"
    unfolding best_fit_result_def by blast
  then show ?thesis
  proof cases
    case exact
    then show ?thesis unfolding best_fit_result_def by blast
  next
    case root
    then have "\<forall>y \<in> L \<union> insert b R. sz \<le> bsz y \<longrightarrow> bsz b \<le> bsz y" using assms(3) by (auto dest: leD)
    then show ?thesis using root assms(2) unfolding best_fit_result_def by blast
  next
    case better
    then have "\<forall>y \<in> L \<union> insert b R. sz \<le> bsz y \<longrightarrow> bsz c \<le> bsz y" using assms(3,4) by fastforce
    then show ?thesis using better unfolding best_fit_result_def by blast
  qed
qed

lemma best_fit_right:
  assumes "best_fit_result bsz sz R best0 n best" and "bsz b < sz" and "\<forall>c \<in> L. bsz c \<le> bsz b"
  shows "best_fit_result bsz sz (L \<union> insert b R) best0 n best"
proof -
  have small: "\<forall>y \<in> insert b L. bsz y < sz" using assms by fastforce
  then have "\<forall>y \<in> insert b L. \<not> sz \<le> bsz y" by auto
  with small assms(1) show ?thesis unfolding best_fit_result_def by blast
qed

lemma best_fit_loop_spec:
  assumes "\<And>b. b \<in> set (inorder t) \<Longrightarrow> free_flag a b"
    and "sorted (map (binder_buffer_size K a) (inorder t))"
  shows "\<exists>n best. best_fit_loop K a sz t best0 = Some (n, best) \<and>
    best_fit_result (binder_buffer_size K a) sz (set (inorder t)) best0 n best"
  using assms
proof (induction t arbitrary: best0)
  case Leaf
  then show ?case by (simp add: best_fit_result_def)
next
  case (Node l b r)
  let ?sz = "binder_buffer_size K a" and ?L = "set (inorder l)" and ?R = "set (inorder r)"
  have srt: "sorted (map ?sz (inorder l))" "sorted (map ?sz (inorder r))"
    "\<forall>c \<in> ?L. ?sz c \<le> ?sz b" "\<forall>c \<in> ?R. ?sz b \<le> ?sz c"
    using Node.prems(2) by (auto simp: sorted_append)
  have "free_flag a b" using Node.prems(1) by simp
  then obtain h where h: "p_heap a b = Some h" "b_free h"
    by (auto simp: free_flag_def is_free_def)
  have all: "set (inorder (Node l b r)) = ?L \<union> insert b ?R" by auto
  have fl: "\<And>c. c \<in> ?L \<Longrightarrow> free_flag a c" "\<And>c. c \<in> ?R \<Longrightarrow> free_flag a c"
    using Node.prems(1) by simp_all
  consider "sz < ?sz b" | "?sz b < sz" | "sz = ?sz b" by linarith
  then show ?case
  proof cases
    case 1
    obtain n best where "best_fit_loop K a sz l (Some b) = Some (n, best)"
      "best_fit_result ?sz sz ?L (Some b) n best"
      using Node.IH(1) [OF fl(1) srt(1), of "Some b"] by blast
    then show ?thesis unfolding all
      using best_fit_left [OF _ 1 srt(4,3), of n best best0] h 1 by auto
  next
    case 2
    obtain n best where "best_fit_loop K a sz r best0 = Some (n, best)"
      "best_fit_result ?sz sz ?R best0 n best"
      using Node.IH(2) [OF fl(2) srt(2), of best0] by blast
    then show ?thesis unfolding all
      using best_fit_right [OF _ 2 srt(3), of ?R best0 n best] h 2 by auto
  next
    case 3
    then have "best_fit_loop K a sz (Node l b r) best0 = Some (Some b, Some b)" using h by simp
    then show ?thesis unfolding all best_fit_result_def using 3 by blast
  qed
qed

section \<open>The tree of allocated buffers\<close>

lemma alloc_key_iff: "alloc_key a x = Some k \<longleftrightarrow> k = x \<and> (\<exists>h. p_heap a x = Some h \<and> \<not> b_free h)"
  by (auto simp: alloc_key_def split: option.splits if_splits)

lemma insert_allocated:
  assumes "kern_ok K" and "alloc_tree_ok a S" and "p_heap a x = Some h" and "\<not> b_free h" and "x \<notin> S"
  obtains t where "binder_insert_allocated_buffer K a x = Some (a\<lparr>p_allocated_buffers := t\<rparr>)"
    and "alloc_tree_ok (a\<lparr>p_allocated_buffers := t\<rparr>) (insert x S)"
proof -
  have kx: "alloc_key a x = Some x" using assms by (simp add: alloc_key_iff)
  have keyed: "keyed (alloc_key a) (p_allocated_buffers a)" and S: "set (inorder (p_allocated_buffers a)) = S"
    using assms(2) by (simp_all add: alloc_tree_ok_def)
  have no: "\<forall>b \<in> set (inorder (p_allocated_buffers a)). alloc_key a b \<noteq> Some x"
    using assms(5) S by (auto simp: alloc_key_iff)
  obtain t' us vs where *: "rb_link (key_dir (alloc_key a) x) x (p_allocated_buffers a) = Some (Some t')"
    "inorder (p_allocated_buffers a) = us @ vs" "inorder t' = us @ x # vs"
    "\<forall>b \<in> set us. the (alloc_key a b) < x" "\<forall>b \<in> set vs. x < the (alloc_key a b)"
    by (rule rb_link_new [OF keyed no])
  let ?t = "rb_insert_color K x t'"
  have "inorder ?t = us @ x # vs" using * assms(1) by simp
  then have "keyed (alloc_key a) ?t"
    using keyed_insert [OF keyed *(2) _ kx *(4,5)] by blast
  moreover have "alloc_key (a\<lparr>p_allocated_buffers := ?t\<rparr>) = alloc_key a"
    by (simp add: alloc_key_def fun_eq_iff)
  moreover have "set (inorder ?t) = insert x S" using * S assms(1) by auto
  ultimately have "alloc_tree_ok (a\<lparr>p_allocated_buffers := ?t\<rparr>) (insert x S)"
    by (simp add: alloc_tree_ok_def)
  moreover have "binder_insert_allocated_buffer K a x = Some (a\<lparr>p_allocated_buffers := ?t\<rparr>)"
    using * kx by (simp add: binder_insert_allocated_buffer_def)
  ultimately show thesis using that by blast
qed

end
