(* ===== verification/Binder_Claim.thy ===== *)
theory Binder_Claim
  imports Binder_Trees
begin

text \<open>
  \<open>binder_alloc_buf\<close> on a well-formed area. The requested size is computed without overflow
  or the request is refused; the best fit is taken whole or split; the pages of the new data
  are mapped and no others; and the invariant holds afterwards, whatever kernel call failed.
\<close>

section \<open>The size of a request\<close>

lemma align_wrap:
  assumes "0 < a" and "a dvd 2 ^ (8 * w)" and "x < 2 ^ (8 * w)"
  shows "align_up w x a + a \<le> 2 ^ (8 * w)"
    and "align_up w x a < x \<Longrightarrow> align_up w x a = 0 \<and> 2 ^ (8 * w) < x + a"
    and "x \<le> align_up w x a \<Longrightarrow> align_up w x a < x + a"
proof -
  let ?M = "2 ^ (8 * w) :: nat"
  from assms(2) obtain k where k: "?M = a * k" by blast
  have lt: "szt w (x + (a - 1)) < a * k" using szt_less k by metis
  then have "szt w (x + (a - 1)) div a < k" by (simp add: less_mult_imp_div_less mult.commute)
  then have "Suc (szt w (x + (a - 1)) div a) * a \<le> k * a" by (intro mult_le_mono1) simp
  then have "align_up w x a + a \<le> a * k" by (simp add: align_up_def algebra_simps)
  then show "align_up w x a + a \<le> ?M" unfolding k .
  show "align_up w x a = 0 \<and> ?M < x + a" if small: "align_up w x a < x"
  proof -
    have ov: "\<not> x + (a - 1) < ?M" using small align_up_ge(1) assms(1) by (meson leD)
    have "a \<le> ?M" using assms(2) by (simp add: dvd_imp_le)
    then have "x + (a - 1) - ?M < ?M" using assms(3) ov by linarith
    then have "szt w (x + (a - 1)) = x + (a - 1) - ?M"
      using ov unfolding szt_def by (simp only: le_mod_geq not_less mod_less)
    moreover have "x + (a - 1) - ?M < a" using assms(1,3) by linarith
    ultimately show ?thesis using ov assms(1) by (simp add: align_up_def)
  qed
  show "align_up w x a < x + a"
    if "x \<le> align_up w x a"
  proof (cases "x + (a - 1) < ?M")
    case True
    then show ?thesis using align_up_ge(2) assms(1) by blast
  next
    case False
    have "align_up w x a \<le> szt w (x + (a - 1))" by (simp add: align_up_def)
    also have "\<dots> \<le> x + (a - 1)" by (simp add: szt_def)
    also have "\<dots> < x + a" using assms(1) by simp
    finally show ?thesis .
  qed
qed


lemma ptr_dvd: "kern_ok K \<Longrightarrow> ptr_bytes K dvd 2 ^ (8 * ptr_bytes K)"
proof -
  assume "kern_ok K"
  then consider "ptr_bytes K = 4" | "ptr_bytes K = 8" using kern_ok_ptr by blast
  then show ?thesis
  proof cases
    case 1
    have "(4::nat) dvd 2 ^ 32" by simp
    then show ?thesis using 1 by simp
  next
    case 2
    have "(8::nat) dvd 2 ^ 64" by simp
    then show ?thesis using 2 by simp
  qed
qed

text \<open>A request that passes the check on its size was computed without wrap-around.\<close>

lemma alloc_size_exact:
  assumes "kern_ok K" and "d < 2 ^ (8 * ptr_bytes K)" and "os < 2 ^ (8 * ptr_bytes K)"
    and "d \<le> alloc_size K d os" and "os \<le> alloc_size K d os"
  shows "alloc_size K d os = align_up (ptr_bytes K) d (ptr_bytes K) + align_up (ptr_bytes K) os (ptr_bytes K)"
    and "d \<le> align_up (ptr_bytes K) d (ptr_bytes K)" and "os \<le> align_up (ptr_bytes K) os (ptr_bytes K)"
proof -
  let ?w = "ptr_bytes K" and ?M = "2 ^ (8 * ptr_bytes K) :: nat"
  let ?D = "align_up ?w d ?w" and ?O = "align_up ?w os ?w"
  have w: "0 < ?w" using kern_ok_ptr [OF assms(1)] by auto
  note D = align_wrap [OF w ptr_dvd [OF assms(1)] assms(2)]
  note O = align_wrap [OF w ptr_dvd [OF assms(1)] assms(3)]
  have size: "alloc_size K d os = (?D + ?O) mod ?M" by (simp add: alloc_size_def szt_def)
  have le: "(?D + ?O) mod ?M \<le> ?D + ?O" by simp
  show d: "d \<le> ?D"
  proof (rule ccontr)
    assume "\<not> d \<le> ?D"
    then have "?D = 0" "?M < d + ?w" using D(2) by simp_all
    then have "(?D + ?O) mod ?M < d" using le O(1) by linarith
    then show False using assms(4) size by simp
  qed
  show o: "os \<le> ?O"
  proof (rule ccontr)
    assume "\<not> os \<le> ?O"
    then have "?O = 0" "?M < os + ?w" using O(2) by simp_all
    then have "(?D + ?O) mod ?M < os" using le D(1) by linarith
    then show False using assms(5) size by simp
  qed
  have "?D + ?O < ?M"
  proof (rule ccontr)
    assume ge: "\<not> ?D + ?O < ?M"
    have "?D + ?O - ?M < ?M" using D(1) O(1) w by linarith
    then have "(?D + ?O) mod ?M = ?D + ?O - ?M" using ge by (simp only: le_mod_geq not_less mod_less)
    then have "alloc_size K d os = ?D + ?O - ?M" using size by simp
    then have "alloc_size K d os < d" using D(3) [OF d] O(1) ge w by linarith
    then show False using assms(4) by simp
  qed
  then show "alloc_size K d os = ?D + ?O" using size by simp
qed

text \<open>What \<open>binder_free_buf\<close> recomputes never exceeds what was allocated.\<close>

lemma align_4_le:
  assumes "ptr_bytes K = 4 \<or> ptr_bytes K = 8" and "x + (ptr_bytes K - 1) < 2 ^ (8 * ptr_bytes K)"
  shows "align_up (ptr_bytes K) x 4 \<le> align_up (ptr_bytes K) x (ptr_bytes K)"
  using assms
proof (elim disjE)
  assume w: "ptr_bytes K = 8"
  then have "x + 7 < 2 ^ 64" using assms(2) by simp
  then have "align_up 8 x 4 = (x + 3) div 4 * 4" "align_up 8 x 8 = (x + 7) div 8 * 8"
    by (simp_all add: align_up_def szt_id)
  then show ?thesis using w by simp
qed simp

lemma free_size_le:
  assumes "kern_ok K" and "d < 2 ^ (8 * ptr_bytes K)" and "os < 2 ^ (8 * ptr_bytes K)"
    and "d \<le> alloc_size K d os" and "os \<le> alloc_size K d os"
    and "b_data_size h = d" and "b_offsets_size h = os"
  shows "free_size K h \<le> alloc_size K d os"
proof -
  let ?w = "ptr_bytes K" and ?M = "2 ^ (8 * ptr_bytes K) :: nat"
  note ex = alloc_size_exact [OF assms(1-5)]
  have w: "0 < ?w" using kern_ok_ptr [OF assms(1)] by auto
  have bnd: "x + (?w - 1) < ?M" if "x < ?M" "x \<le> align_up ?w x ?w" for x
    using align_wrap(1) [OF w ptr_dvd [OF assms(1)] that(1)] that(2) w by linarith
  have "align_up ?w d 4 + align_up ?w os 4 \<le> alloc_size K d os"
    unfolding ex(1) using kern_ok_ptr [OF assms(1)]
    by (intro add_mono align_4_le bnd assms(2,3) ex(2,3)) auto
  moreover have "szt ?w (align_up ?w d 4 + align_up ?w os 4) \<le> align_up ?w d 4 + align_up ?w os 4"
    by (simp add: szt_def)
  ultimately show ?thesis using assms(6,7) by (simp add: free_size_def)
qed

section \<open>Frames for the trees\<close>

lemma free_tree_cong:
  assumes "free_tree_ok K a S" and "p_free_buffers a' = p_free_buffers a"
    and "\<And>y. y \<in> S \<Longrightarrow> binder_buffer_size K a' y = binder_buffer_size K a y"
  shows "free_tree_ok K a' S"
proof -
  have "map (binder_buffer_size K a') (inorder (p_free_buffers a)) = map (binder_buffer_size K a) (inorder (p_free_buffers a))"
    using assms(1,3) by (intro map_cong refl) (simp add: free_tree_ok_def)
  then show ?thesis using assms(1,2) by (simp add: free_tree_ok_def del: map_eq_conv)
qed

lemma free_tree_erase:
  assumes "kern_ok K" and "free_tree_ok K a S" and "p_free_buffers a' = rb_erase K x (p_free_buffers a)"
    and "\<And>y. y \<in> S - {x} \<Longrightarrow> binder_buffer_size K a' y = binder_buffer_size K a y"
  shows "free_tree_ok K a' (S - {x})"
proof -
  let ?t = "inorder (p_free_buffers a)"
  have d: "distinct ?t" "set ?t = S" using assms(2) by (simp_all add: free_tree_ok_def)
  have in': "inorder (p_free_buffers a') = remove1 x ?t" using assms(1,3) d by simp
  have "sorted (map (binder_buffer_size K a) (remove1 x ?t))"
    using assms(2) sorted_wrt_remove1 [of "\<lambda>u v. binder_buffer_size K a u \<le> binder_buffer_size K a v"]
    by (simp add: free_tree_ok_def sorted_wrt_map)
  moreover have "map (binder_buffer_size K a') (remove1 x ?t) = map (binder_buffer_size K a) (remove1 x ?t)"
    using assms(4) d by (intro map_cong refl) simp
  ultimately show ?thesis using d by (simp add: free_tree_ok_def in' del: map_eq_conv)
qed

lemma alloc_tree_cong:
  assumes "alloc_tree_ok a S" and "p_allocated_buffers a' = p_allocated_buffers a"
    and "\<And>y. y \<in> S \<Longrightarrow> alloc_key a' y = alloc_key a y"
  shows "alloc_tree_ok a' S"
  using assms keyed_cong [of "p_allocated_buffers a" "alloc_key a'" "alloc_key a"]
  by (simp add: alloc_tree_ok_def)

lemma alloc_tree_erase:
  assumes "kern_ok K" and "alloc_tree_ok a S" and "p_allocated_buffers a' = rb_erase K x (p_allocated_buffers a)"
    and "\<And>y. y \<in> S - {x} \<Longrightarrow> alloc_key a' y = alloc_key a y"
  shows "alloc_tree_ok a' (S - {x})"
proof -
  have k: "keyed (alloc_key a) (p_allocated_buffers a)" "set (inorder (p_allocated_buffers a)) = S"
    using assms(2) by (simp_all add: alloc_tree_ok_def)
  have in': "inorder (p_allocated_buffers a') = remove1 x (inorder (p_allocated_buffers a))"
    using assms(1,3) keyed_distinct [OF k(1)] by simp
  then have s: "set (inorder (p_allocated_buffers a')) = S - {x}"
    using k(2) keyed_distinct [OF k(1)] by simp
  have "keyed (alloc_key a) (p_allocated_buffers a')" by (rule keyed_remove1 [OF k(1) in'])
  then show ?thesis
    using s assms(4) keyed_cong [of "p_allocated_buffers a'" "alloc_key a'" "alloc_key a"]
    by (simp add: alloc_tree_ok_def)
qed

end
