(* ===== verification/Binder_Alloc_Buf.thy ===== *)
theory Binder_Alloc_Buf
  imports Binder_Claim
begin

text \<open>
  \<open>binder_alloc_buf\<close> keeps the invariant of the area. The proof follows the code: the
  best fit, the pages, and the two ways of claiming the buffer.
\<close>

text \<open>The asynchronous space left after a claim of \<open>sz\<close> bytes.\<close>

definition async_charge :: "kern \<Rightarrow> bool \<Rightarrow> nat \<Rightarrow> nat \<Rightarrow> nat" where
  "async_charge K async space sz =
     (if async then szsub (ptr_bytes K) space (sz + sizeof_binder_buffer K) else space)"

text \<open>The fields that say where the area is and whom it belongs to.\<close>

definition same_area :: "binder_alloc \<Rightarrow> binder_alloc \<Rightarrow> bool" where
  "same_area a a' \<longleftrightarrow> p_tsk a' = p_tsk a \<and> p_vma a' = p_vma a \<and> p_vma_vm_mm a' = p_vma_vm_mm a \<and>
     p_buffer a' = p_buffer a \<and> p_user_buffer_offset a' = p_user_buffer_offset a \<and>
     p_buffer_size a' = p_buffer_size a \<and> length (p_pages a') = length (p_pages a)"

lemma same_area_refl [simp]: "same_area a a"
  by (simp add: same_area_def)

lemma same_area_trans [trans]: "same_area a b \<Longrightarrow> same_area b c \<Longrightarrow> same_area a c"
  by (simp add: same_area_def)

lemma same_areaD:
  assumes "same_area a a'"
  shows "area_ok K a' = area_ok K a" and "area_end a' = area_end a" and "in_area a' = in_area a"
    and "p_buffer a' = p_buffer a" and "p_buffer_size a' = p_buffer_size a"
  using assms by (simp_all add: same_area_def area_ok_def area_end_def in_area_def fun_eq_iff)

lemma claim_whole:
  assumes K: "kern_ok K" and ft: "free_tree_ok K a (free_set a)" and at: "alloc_tree_ok a (alloc_set a)"
    and x: "x \<in> free_set a"
  obtains a' h' where "claim_buffer K a x sz sz d os async = Some a'" and "same_area a a'"
    and "p_buffers a' = p_buffers a" and "p_heap a' = (p_heap a)(x \<mapsto> h')" and "p_pages a' = p_pages a"
    and "\<not> b_free h'" and "b_data_size h' = d" and "b_offsets_size h' = os" and "b_async_transaction h' = async"
    and "free_tree_ok K a' (free_set a - {x})" and "alloc_tree_ok a' (insert x (alloc_set a))"
    and "p_free_async_space a' = async_charge K async (p_free_async_space a) sz"
proof -
  obtain h where h: "p_heap a x = Some h" "b_free h"
    using x by (auto simp: free_set_def free_flag_def is_free_def)
  let ?a1 = "a\<lparr>p_free_buffers := rb_erase K x (p_free_buffers a), p_heap := (p_heap a)(x \<mapsto> h\<lparr>b_free := False\<rparr>)\<rparr>"
  have xS: "x \<notin> alloc_set a" using x by (auto simp: free_set_def alloc_set_def)
  have "alloc_key ?a1 y = alloc_key a y" if "y \<in> alloc_set a" for y
    using that xS by (auto simp: alloc_key_def)
  then have at1: "alloc_tree_ok ?a1 (alloc_set a)" using alloc_tree_cong [OF at, of ?a1] by simp
  obtain t where t: "binder_insert_allocated_buffer K ?a1 x = Some (?a1\<lparr>p_allocated_buffers := t\<rparr>)"
    "alloc_tree_ok (?a1\<lparr>p_allocated_buffers := t\<rparr>) (insert x (alloc_set a))"
    by (rule insert_allocated [OF K at1 _ _ xS]) auto
  let ?h' = "h\<lparr>b_free := False, b_data_size := d, b_offsets_size := os, b_async_transaction := async\<rparr>"
  let ?a4 = "?a1\<lparr>p_allocated_buffers := t, p_heap := (p_heap a)(x \<mapsto> ?h')\<rparr>"
  let ?a' = "if async then ?a4\<lparr>p_free_async_space := szsub (ptr_bytes K) (p_free_async_space ?a4)
                (sz + sizeof_binder_buffer K)\<rparr> else ?a4"
  have eq: "claim_buffer K a x sz sz d os async = Some ?a'"
    using h t by (simp add: claim_buffer_def)
  have "alloc_key ?a' y = alloc_key (?a1\<lparr>p_allocated_buffers := t\<rparr>) y" for y
    by (auto simp: alloc_key_def)
  then have at': "alloc_tree_ok ?a' (insert x (alloc_set a))"
    by (intro alloc_tree_cong [OF t(2)]) simp_all
  have ft': "free_tree_ok K ?a' (free_set a - {x})"
    by (rule free_tree_erase [OF K ft]) (simp_all add: frame_simps)
  show thesis
    by (rule that [OF eq, of ?h']) (use at' ft' in \<open>simp_all add: same_area_def async_charge_def\<close>)
qed

lemma claim_split:
  assumes K: "kern_ok K" and ar: "area_ok K a" and lay: "layout_ok K a"
    and ft: "free_tree_ok K a (free_set a)" and at: "alloc_tree_ok a (alloc_set a)"
    and x: "x \<in> free_set a" and spl: "p_buffers a = us @ x # vs"
    and y: "y = x + sizeof_binder_buffer K + sz" "y + sizeof_binder_buffer K \<le> chain_next (area_end a) vs"
    and bs: "bs \<noteq> sz"
  obtains a' h' g where "claim_buffer K a x bs sz d os async = Some a'" and "same_area a a'"
    and "p_buffers a' = us @ x # y # vs" and "p_heap a' = (p_heap a)(y \<mapsto> g, x \<mapsto> h')" and "p_pages a' = p_pages a"
    and "b_free g" and "\<not> b_free h'" and "b_data_size h' = d" and "b_offsets_size h' = os"
    and "b_async_transaction h' = async"
    and "free_tree_ok K a' (insert y (free_set a - {x}))" and "alloc_tree_ok a' (insert x (alloc_set a))"
    and "p_free_async_space a' = async_charge K async (p_free_async_space a) sz"
proof -
  let ?H = "sizeof_binder_buffer K"
  obtain h where h: "p_heap a x = Some h" "b_free h"
    using x by (auto simp: free_set_def free_flag_def is_free_def)
  let ?a1 = "a\<lparr>p_free_buffers := rb_erase K x (p_free_buffers a), p_heap := (p_heap a)(x \<mapsto> h\<lparr>b_free := False\<rparr>)\<rparr>"
  have xS: "x \<notin> alloc_set a" using x by (auto simp: free_set_def alloc_set_def)
  have ch: "chain ?H (area_end a) (us @ x # vs)" using lay spl by (simp add: layout_ok_def)
  have ch': "chain ?H (area_end a) (us @ x # y # vs)" using ch y by (simp add: chain_append)
  have dist: "distinct (us @ x # y # vs)" by (rule chain_distinct [OF sizeof_pos [OF K] ch'])
  have ynew: "y \<notin> set (p_buffers a)" "x \<noteq> y" "x \<notin> set us" using dist spl by auto
  have "alloc_key ?a1 z = alloc_key a z" if "z \<in> alloc_set a" for z
    using that xS by (auto simp: alloc_key_def)
  then have at1: "alloc_tree_ok ?a1 (alloc_set a)" using alloc_tree_cong [OF at, of ?a1] by simp
  obtain t where t: "binder_insert_allocated_buffer K ?a1 x = Some (?a1\<lparr>p_allocated_buffers := t\<rparr>)"
    "alloc_tree_ok (?a1\<lparr>p_allocated_buffers := t\<rparr>) (insert x (alloc_set a))"
    by (rule insert_allocated [OF K at1 _ _ xS]) auto
  let ?a2 = "?a1\<lparr>p_allocated_buffers := t\<rparr>"
  let ?g = "(stale_header K (p_ticks a))\<lparr>b_free := True\<rparr>"
  let ?a3 = "?a2\<lparr>p_buffers := us @ x # y # vs, p_heap := (p_heap ?a2)(y \<mapsto> ?g)\<rparr>"
  have ff: "free_flag ?a3 = (free_flag a)(x := False, y := True)"
    using ynew h by (auto simp: free_flag_def is_free_def fun_eq_iff)
  have bsz: "binder_buffer_size K ?a3 z = binder_buffer_size K a z" if "z \<noteq> x" "z \<noteq> y" for z
    using next_in_insert [OF dist that] spl by (simp add: binder_buffer_size_def split: option.split)
  have "free_tree_ok K ?a3 (free_set a - {x})"
  proof (rule free_tree_erase [OF K ft])
    show "binder_buffer_size K ?a3 z = binder_buffer_size K a z" if "z \<in> free_set a - {x}" for z
      using that ynew by (intro bsz) (auto simp: free_set_def)
  qed simp
  moreover have "\<forall>z \<in> free_set a - {x}. free_flag ?a3 z"
    unfolding ff by (auto simp: free_set_def)
  moreover have "free_flag ?a3 y" unfolding ff by simp
  moreover have "y \<notin> free_set a - {x}" using ynew by (auto simp: free_set_def)
  ultimately obtain ft3 where ft3: "binder_insert_free_buffer K ?a3 y = Some (?a3\<lparr>p_free_buffers := ft3\<rparr>)"
    "free_tree_ok K (?a3\<lparr>p_free_buffers := ft3\<rparr>) (insert y (free_set a - {x}))"
    using insert_free [OF K] by metis
  let ?h' = "h\<lparr>b_free := False, b_data_size := d, b_offsets_size := os, b_async_transaction := async\<rparr>"
  let ?a4 = "?a3\<lparr>p_free_buffers := ft3, p_heap := (p_heap a)(y \<mapsto> ?g, x \<mapsto> ?h')\<rparr>"
  let ?a' = "if async then ?a4\<lparr>p_free_async_space := szsub (ptr_bytes K) (p_free_async_space ?a4) (sz + ?H)\<rparr> else ?a4"
  have new: "buffer_data K x + sz = y" using y by (simp add: buffer_data_def)
  have ia: "insert_after x y (p_buffers a) = us @ x # y # vs"
    using spl ynew by (simp add: insert_after_split)
  have eq: "claim_buffer K a x bs sz d os async = Some ?a'"
    using h t ft3 bs new ia ynew by (simp add: claim_buffer_def Let_def fun_upd_twist)
  have "alloc_key ?a' z = alloc_key ?a2 z" if "z \<in> insert x (alloc_set a)" for z
    using that ynew by (auto simp: alloc_key_def alloc_set_def)
  then have at': "alloc_tree_ok ?a' (insert x (alloc_set a))"
    by (intro alloc_tree_cong [OF t(2)]) simp_all
  have "binder_buffer_size K ?a' = binder_buffer_size K (?a3\<lparr>p_free_buffers := ft3\<rparr>)"
    by (simp add: binder_buffer_size_def fun_eq_iff split: option.split)
  then have ft': "free_tree_ok K ?a' (insert y (free_set a - {x}))"
    by (intro free_tree_cong [OF ft3(2)]) simp_all
  show thesis
    by (rule that [OF eq, of ?g ?h']) (use at' ft' ynew in \<open>simp_all add: same_area_def async_charge_def\<close>)
qed


section \<open>The invariant after a claim\<close>

lemma pages_after:
  assumes "same_area a a'" and "p_pages a' = ps" and "range_set a ps start end_addr (v, v)"
    and "\<And>n. in_area a n \<Longrightarrow>
       page_at a n = (let occ = occupied (sizeof_binder_buffer K) (area_end a) (free_flag a) (p_buffers a) n in (occ, occ))"
    and "\<And>n. in_area a n \<Longrightarrow>
       occupied (sizeof_binder_buffer K) (area_end a) (free_flag a') (p_buffers a') n =
       (if start \<le> n * PAGE_SIZE \<and> n * PAGE_SIZE < end_addr then v
        else occupied (sizeof_binder_buffer K) (area_end a) (free_flag a) (p_buffers a) n)"
  shows "pages_ok K a'"
  unfolding pages_ok_def
proof (intro allI impI)
  fix n assume "in_area a' n"
  then have n: "in_area a n" using assms(1) by (simp add: same_areaD)
  have "page_at a' n = (if start \<le> n * PAGE_SIZE \<and> n * PAGE_SIZE < end_addr then (v, v) else page_at a n)"
    using assms(1-3) n by (simp add: page_at_def range_set_def same_areaD)
  then show "page_at a' n = (let occ = occupied (sizeof_binder_buffer K) (area_end a') (free_flag a') (p_buffers a') n
      in (occ, occ))"
    using assms(4,5) [OF n] by (simp add: same_areaD [OF assms(1)] Let_def)
qed

lemma flag_of_heap: "p_heap a' = (p_heap a)(x \<mapsto> h) \<Longrightarrow> free_flag a' = (free_flag a)(x := b_free h)"
  by (auto simp: free_flag_def is_free_def fun_eq_iff)

lemma set_of_whole:
  assumes "p_buffers a' = p_buffers a" and "free_flag a' = (free_flag a)(x := False)" and "x \<in> free_set a"
  shows "free_set a' = free_set a - {x}" and "alloc_set a' = insert x (alloc_set a)"
  using assms by (auto simp: free_set_def alloc_set_def)

lemma inv_whole:
  assumes K: "kern_ok K" and inv: "binder_inv K a" and x: "x \<in> free_set a" and sa: "same_area a a'"
    and bufs: "p_buffers a' = p_buffers a" and heap: "p_heap a' = (p_heap a)(x \<mapsto> h')" and nf: "\<not> b_free h'"
    and ft: "free_tree_ok K a' (free_set a - {x})" and at: "alloc_tree_ok a' (insert x (alloc_set a))"
    and fits: "free_size K h' \<le> binder_buffer_size K a x" and pg: "pages_ok K a'"
  shows "binder_inv K a'" and "alloc_set a' = insert x (alloc_set a)"
proof -
  have ff: "free_flag a' = (free_flag a)(x := False)" using flag_of_heap [OF heap] nf by simp
  note sets = set_of_whole [OF bufs ff x]
  show "alloc_set a' = insert x (alloc_set a)" by (rule sets)
  have bsz: "binder_buffer_size K a' = binder_buffer_size K a"
    using bufs sa by (simp add: binder_buffer_size_def fun_eq_iff same_area_def split: option.split)
  have xin: "x \<in> set (p_buffers a)" using x by (simp add: free_set_def)
  have lay: "layout_ok K a'"
    using inv bufs heap xin sa by (auto simp: binder_inv_def layout_ok_def same_areaD)
  have co: "coalesced a'"
    using inv unfolding binder_inv_def coalesced_def bufs ff by (auto elim!: successively_mono)
  have "sizes_ok K a'"
    using inv fits unfolding binder_inv_def sizes_ok_def bsz heap by auto
  then show "binder_inv K a'"
    using inv lay co ft at pg sets sa by (simp add: binder_inv_def same_areaD)
qed

lemma inv_split:
  assumes K: "kern_ok K" and inv: "binder_inv K a" and x: "x \<in> free_set a" and sa: "same_area a a'"
    and spl: "p_buffers a = us @ x # vs" and y: "y = x + sizeof_binder_buffer K + sz"
      "y + sizeof_binder_buffer K \<le> chain_next (area_end a) vs"
    and bufs: "p_buffers a' = us @ x # y # vs" and heap: "p_heap a' = (p_heap a)(y \<mapsto> g, x \<mapsto> h')"
    and fl: "b_free g" "\<not> b_free h'"
    and ft: "free_tree_ok K a' (insert y (free_set a - {x}))" and at: "alloc_tree_ok a' (insert x (alloc_set a))"
    and fits: "free_size K h' \<le> sz" and pg: "pages_ok K a'"
  shows "binder_inv K a'" and "alloc_set a' = insert x (alloc_set a)" and "binder_buffer_size K a' x = sz"
    and "\<And>z. z \<in> alloc_set a \<Longrightarrow> binder_buffer_size K a' z = binder_buffer_size K a z"
proof -
  let ?H = "sizeof_binder_buffer K"
  have ar: "area_ok K a" and ch: "chain ?H (area_end a) (us @ x # vs)"
    using inv spl by (simp_all add: binder_inv_def layout_ok_def)
  have ch': "chain ?H (area_end a) (us @ x # y # vs)" using ch y by (simp add: chain_append)
  have dist: "distinct (us @ x # y # vs)" by (rule chain_distinct [OF sizeof_pos [OF K] ch'])
  have ynew: "y \<notin> set (p_buffers a)" "x \<noteq> y" using dist spl by auto
  have ff: "free_flag a' = (free_flag a)(x := False, y := True)"
    using ynew(2) heap fl by (auto simp: free_flag_def is_free_def fun_eq_iff)
  have sets: "free_set a' = insert y (free_set a - {x})" "alloc_set a' = insert x (alloc_set a)"
    using x ynew bufs spl unfolding free_set_def alloc_set_def ff by auto
  then show "alloc_set a' = insert x (alloc_set a)" by simp
  have ar': "area_ok K a'" using ar sa by (simp add: same_areaD)
  have lay: "layout_ok K a'"
    using inv bufs heap sa spl ch' x by (auto simp: binder_inv_def layout_ok_def same_areaD hd_append free_set_def)
  have chl: "chain ?H (area_end a') (p_buffers a')" using lay by (simp add: layout_ok_def)
  show bx: "binder_buffer_size K a' x = sz"
    using buffer_size_eq [OF K ar' chl bufs] y by simp
  have bsz: "binder_buffer_size K a' z = binder_buffer_size K a z" if "z \<noteq> x" "z \<noteq> y" for z
    using next_in_insert [OF dist that] spl bufs sa
    by (simp add: binder_buffer_size_def same_area_def split: option.split)
  show "binder_buffer_size K a' z = binder_buffer_size K a z" if "z \<in> alloc_set a" for z
    using that x ynew by (intro bsz) (auto simp: alloc_set_def free_set_def)
  have "successively (\<lambda>u v. \<not> (free_flag a u \<and> free_flag a v)) (us @ x # vs)"
    using inv spl by (simp add: binder_inv_def coalesced_def)
  then have s: "successively (\<lambda>u v. \<not> (free_flag a u \<and> free_flag a v)) us"
    "successively (\<lambda>u v. \<not> (free_flag a u \<and> free_flag a v)) vs" "vs \<noteq> [] \<longrightarrow> \<not> free_flag a (hd vs)"
    using x by (auto simp: successively_append_iff successively_Cons free_set_def)
  have "successively (\<lambda>u v. \<not> (free_flag a' u \<and> free_flag a' v)) us"
    using s(1) dist unfolding ff by (auto intro: successively_mono)
  moreover have "successively (\<lambda>u v. \<not> (free_flag a' u \<and> free_flag a' v)) vs"
    using s(2) dist unfolding ff by (auto intro: successively_mono)
  moreover have "vs \<noteq> [] \<longrightarrow> \<not> free_flag a' (hd vs)"
    using s(3) dist unfolding ff by (cases vs) auto
  ultimately have co: "coalesced a'"
    using dist unfolding coalesced_def bufs by (auto simp: successively_append_iff successively_Cons ff)
  have "sizes_ok K a'"
  proof (unfold sizes_ok_def, intro allI impI)
    fix z k assume zk: "p_heap a' z = Some k \<and> \<not> b_free k"
    show "free_size K k \<le> binder_buffer_size K a' z"
    proof (cases "z = x")
      case True
      then show ?thesis using zk heap bx fits by simp
    next
      case False
      then have "z \<noteq> y" "p_heap a z = Some k" using zk heap fl by (auto split: if_splits)
      then show ?thesis using zk inv bsz [OF False] by (simp add: binder_inv_def sizes_ok_def)
    qed
  qed
  then show "binder_inv K a'"
    using lay co ft at pg sets ar' by (simp add: binder_inv_def)
qed

text \<open>
  The outcome of \<open>binder_alloc_buf\<close>: never a crash on a well-formed area, the invariant
  afterwards, and either a refusal that changes no buffer or a buffer of sufficient size
  taken from the free ones. The proof splits along the two ways of claiming the best fit.
\<close>

text \<open>What the caller can rely on after a call that returned \<open>r\<close>.\<close>

definition alloc_post ::
  "kern \<Rightarrow> binder_alloc \<Rightarrow> nat \<Rightarrow> nat \<Rightarrow> bool \<Rightarrow> addr option \<Rightarrow> binder_alloc \<Rightarrow> bool" where
  "alloc_post K a d os async r a' \<longleftrightarrow> binder_inv K a' \<and> same_area a a' \<and>
     (case r of
        None \<Rightarrow> p_buffers a' = p_buffers a \<and> p_heap a' = p_heap a \<and> alloc_set a' = alloc_set a
                \<and> p_free_async_space a' = p_free_async_space a
      | Some x \<Rightarrow> x \<in> free_set a \<and> alloc_set a' = insert x (alloc_set a) \<and>
          alloc_size K d os \<le> binder_buffer_size K a' x \<and>
          (\<exists>h. p_heap a' x = Some h \<and> b_data_size h = d \<and> b_offsets_size h = os
               \<and> b_async_transaction h = async) \<and>
          p_free_async_space a' = async_charge K async (p_free_async_space a) (alloc_size K d os) \<and>
          (\<forall>z \<in> alloc_set a. p_heap a' z = p_heap a z \<and> binder_buffer_size K a' z = binder_buffer_size K a z))"

lemma pages_frame [frame_simps]:
  "alloc_key (a\<lparr>p_pages := ps, p_ticks := t\<rparr>) = alloc_key a"
  "free_flag (a\<lparr>p_pages := ps, p_ticks := t\<rparr>) = free_flag a"
  "free_set (a\<lparr>p_pages := ps, p_ticks := t\<rparr>) = free_set a"
  "alloc_set (a\<lparr>p_pages := ps, p_ticks := t\<rparr>) = alloc_set a"
  by (simp_all add: alloc_key_def free_flag_def is_free_def free_set_def alloc_set_def fun_eq_iff)

lemma inv_pages_frame:
  assumes inv: "binder_inv K a" and len: "length ps = length (p_pages a)"
    and eq: "\<And>n. in_area a n \<Longrightarrow> pgv (ps ! (n - p_buffer a div PAGE_SIZE)) = page_at a n"
  shows "binder_inv K (a\<lparr>p_pages := ps, p_ticks := t\<rparr>)"
    and "same_area a (a\<lparr>p_pages := ps, p_ticks := t\<rparr>)"
    and "alloc_set (a\<lparr>p_pages := ps, p_ticks := t\<rparr>) = alloc_set a"
proof -
  let ?a = "a\<lparr>p_pages := ps, p_ticks := t\<rparr>"
  show sa: "same_area a ?a" using len by (simp add: same_area_def)
  show al: "alloc_set ?a = alloc_set a" by (simp add: frame_simps)
  have "pages_ok K ?a"
    using inv eq by (simp add: binder_inv_def pages_ok_def same_areaD [OF sa] page_at_def frame_simps)
  then show "binder_inv K ?a"
    using inv
    by (simp add: binder_inv_def same_areaD [OF sa] layout_ok_def free_tree_ok_def alloc_tree_ok_def
        coalesced_def sizes_ok_def frame_simps)
qed

lemma free_pages_bounds:
  assumes K: "kern_ok K" and ar: "area_ok K a" and lay: "layout_ok K a" and spl: "p_buffers a = us @ x # vs"
  shows "p_buffer a \<le> x" and "x + sizeof_binder_buffer K \<le> chain_next (area_end a) vs"
    and "chain_next (area_end a) vs \<le> area_end a"
    and "area_end a + PAGE_SIZE \<le> 2 ^ (8 * ptr_bytes K)"
    and "chain (sizeof_binder_buffer K) (area_end a) vs"
proof -
  let ?H = "sizeof_binder_buffer K"
  have ch: "chain ?H (area_end a) (us @ x # vs)" and hd: "hd (us @ x # vs) = p_buffer a"
    using lay spl by (simp_all add: layout_ok_def)
  show v: "chain ?H (area_end a) vs" and "x + ?H \<le> chain_next (area_end a) vs"
    using ch by (simp_all add: chain_append)
  show "chain_next (area_end a) vs \<le> area_end a" by (rule chain_next_le [OF v])
  show "area_end a + PAGE_SIZE \<le> 2 ^ (8 * ptr_bytes K)" using ar by (simp add: area_ok_def)
  have "chain_next (area_end a) (us @ x # vs) \<le> x" using chain_mem [OF ch, of x] by simp
  then show "p_buffer a \<le> x" using hd by (cases us) auto
qed

text \<open>The range of pages the code asks for, in terms of the layout.\<close>

lemma alloc_range:
  assumes "z + PAGE_SIZE \<le> 2 ^ (8 * ptr_bytes K)" and "d + PAGE_SIZE \<le> 2 ^ (8 * ptr_bytes K)"
  shows "page_align K d \<le> n * PAGE_SIZE \<and> n * PAGE_SIZE < min (page_align K z) (page_mask e)
     \<longleftrightarrow> d \<le> n * PAGE_SIZE \<and> n * PAGE_SIZE < z \<and> Suc n * PAGE_SIZE \<le> e"
  using page_align_le [OF assms(1), of n] page_align_le [OF assms(2), of n] less_page_mask [of n e]
  by (auto simp: not_le [symmetric])

lemma alloc_pages:
  assumes K: "kern_ok K" and inv: "binder_inv K a" and x: "x \<in> free_set a" and spl: "p_buffers a = us @ x # vs"
    and z: "z \<le> area_end a"
    and e: "e = chain_next (area_end a) vs" and d: "d = x + sizeof_binder_buffer K"
  obtains (mapped) ps t where
    "binder_update_page_range K a True (page_align K d) (min (page_align K z) (page_mask e)) False
       = Some (0, a\<lparr>p_pages := ps, p_ticks := t\<rparr>)"
    and "range_set a ps (page_align K d) (min (page_align K z) (page_mask e)) (True, True)"
  | (failed) ps t where
    "binder_update_page_range K a True (page_align K d) (min (page_align K z) (page_mask e)) False
       = Some (- ENOMEM, a\<lparr>p_pages := ps, p_ticks := t\<rparr>)"
    and "alloc_post K a dsz osz async None (a\<lparr>p_pages := ps, p_ticks := t\<rparr>)"
proof -
  have ar: "area_ok K a" and lay: "layout_ok K a" and pg: "pages_ok K a" using inv by (simp_all add: binder_inv_def)
  note b = free_pages_bounds [OF K ar lay spl]
  have zM: "z + PAGE_SIZE \<le> 2 ^ (8 * ptr_bytes K)" using z b(4) by linarith
  have dM: "d + PAGE_SIZE \<le> 2 ^ (8 * ptr_bytes K)" using d b by linarith
  note rng = alloc_range [OF zM dM, of _ e]
  have fx: "free_flag a x" using x by (simp add: free_set_def)
  have absent: "page_at a n = (False, False)"
    if "page_align K d \<le> n * PAGE_SIZE" "n * PAGE_SIZE < min (page_align K z) (page_mask e)" for n
  proof -
    have r: "d \<le> n * PAGE_SIZE" "Suc n * PAGE_SIZE \<le> e" using rng that by blast+
    have "chain (sizeof_binder_buffer K) (area_end a) (us @ x # vs)" using lay spl by (simp add: layout_ok_def)
    then have "\<not> occupied (sizeof_binder_buffer K) (area_end a) (free_flag a) (us @ x # vs) n"
      by (rule data_not_occupied) (use fx r d e in simp_all)
    moreover have "in_area a n" unfolding in_area_def using r b d e by (auto simp: PAGE_SIZE_def)
    ultimately show ?thesis using pg spl by (simp add: pages_ok_def)
  qed
  have 1: "PAGE_SIZE dvd page_align K d" by (rule page_align_dvd)
  have 2: "PAGE_SIZE dvd min (page_align K z) (page_mask e)"
    using page_align_dvd page_mask_dvd by (simp add: min_def)
  have 3: "p_buffer a \<le> page_align K d"
  proof -
    have "d + (PAGE_SIZE - 1) < 2 ^ (8 * ptr_bytes K)" using dM PAGE_SIZE_pos by linarith
    then have "d \<le> page_align K d" unfolding page_align_def by (rule align_up_ge) simp
    then show ?thesis using b(1) d by linarith
  qed
  have 4: "min (page_align K z) (page_mask e) \<le> area_end a"
    using page_mask_le [of e] b(3) e by auto
  show thesis
  proof (rule update_alloc [OF ar 1 2 3 4 absent, of False])
    fix ps t
    assume "binder_update_page_range K a True (page_align K d) (min (page_align K z) (page_mask e)) False
       = Some (- ENOMEM, a\<lparr>p_pages := ps, p_ticks := t\<rparr>)"
      and len: "length ps = length (p_pages a)"
      and eq: "\<And>n. in_area a n \<Longrightarrow> pgv (ps ! (n - p_buffer a div PAGE_SIZE)) = page_at a n"
    then show thesis
      using inv_pages_frame [OF inv len eq, of t]
      by (intro failed [of t ps]) (simp_all add: alloc_post_def)
  qed (use mapped in auto)
qed


section \<open>Claiming the best fit\<close>

lemma alloc_whole:
  assumes K: "kern_ok K" and inv: "binder_inv K a" and x: "x \<in> free_set a" and spl: "p_buffers a = us @ x # vs"
    and sz: "sz = alloc_size K d os" "sz \<le> binder_buffer_size K a x"
      "binder_buffer_size K a x \<le> sz + sizeof_binder_buffer K + 4"
    and ds: "d < 2 ^ (8 * ptr_bytes K)" "os < 2 ^ (8 * ptr_bytes K)" "d \<le> sz" "os \<le> sz"
    and e: "e = chain_next (area_end a) vs" and data: "dt = x + sizeof_binder_buffer K"
    and rs: "range_set a ps (page_align K dt) (min (page_align K (dt + sz)) (page_mask e)) (True, True)"
  obtains a' where "claim_buffer K (a\<lparr>p_pages := ps, p_ticks := t\<rparr>) x sz sz d os async = Some a'"
    and "alloc_post K a d os async (Some x) a'"
proof -
  let ?H = "sizeof_binder_buffer K" and ?ap = "a\<lparr>p_pages := ps, p_ticks := t\<rparr>"
  have ar: "area_ok K a" and lay: "layout_ok K a" and pg: "pages_ok K a"
    and ft: "free_tree_ok K a (free_set a)" and at: "alloc_tree_ok a (alloc_set a)"
    using inv by (simp_all add: binder_inv_def)
  note b = free_pages_bounds [OF K ar lay spl]
  have sets: "free_set ?ap = free_set a" "alloc_set ?ap = alloc_set a"
    by (simp_all add: frame_simps)
  have sa: "same_area a ?ap" using rs by (simp add: same_area_def range_set_def)
  have ftp: "free_tree_ok K ?ap (free_set ?ap)" and atp: "alloc_tree_ok ?ap (alloc_set ?ap)" and xp: "x \<in> free_set ?ap"
    using ft at x by (simp_all add: free_tree_ok_def alloc_tree_ok_def frame_simps)
  obtain a' h' where c: "claim_buffer K ?ap x sz sz d os async = Some a'" "same_area ?ap a'"
    "p_buffers a' = p_buffers a" "p_heap a' = (p_heap a)(x \<mapsto> h')" "p_pages a' = ps"
    "\<not> b_free h'" "b_data_size h' = d" "b_offsets_size h' = os" "b_async_transaction h' = async"
    "free_tree_ok K a' (free_set a - {x})" "alloc_tree_ok a' (insert x (alloc_set a))"
    "p_free_async_space a' = async_charge K async (p_free_async_space a) sz"
    by (rule claim_whole [OF K ftp atp xp, of sz d os async], unfold sets) (rule that, simp_all)
  have sa': "same_area a a'" using sa c(2) by (rule same_area_trans)
  have ff: "free_flag a' = (free_flag a)(x := False)" using flag_of_heap [OF c(4)] c(6) by simp
  have bs: "binder_buffer_size K a x = e - dt"
    using buffer_size_eq [OF K ar _ spl] lay e data by (simp add: layout_ok_def)
  have H: "?H + 4 < PAGE_SIZE" by (rule sizeof_small [OF K])
  have dM: "dt + PAGE_SIZE \<le> 2 ^ (8 * ptr_bytes K)" "dt + sz + PAGE_SIZE \<le> 2 ^ (8 * ptr_bytes K)"
    using data b sz bs e by linarith+
  have rng: "page_align K dt \<le> n * PAGE_SIZE \<and> n * PAGE_SIZE < min (page_align K (dt + sz)) (page_mask e)
      \<longleftrightarrow> dt \<le> n * PAGE_SIZE \<and> Suc n * PAGE_SIZE \<le> e" for n
    unfolding alloc_range [OF dM(2,1)] using sz(3) bs H by auto
  have ch: "chain ?H (area_end a) (us @ x # vs)" using lay spl by (simp add: layout_ok_def)
  have dist: "x \<notin> set us" "x \<notin> set vs" using chain_distinct [OF sizeof_pos [OF K] ch] by auto
  have fx: "free_flag a x" using x by (simp add: free_set_def)
  have dvd: "PAGE_SIZE dvd area_end a" using ar by (simp add: area_ok_def area_end_def)
  have occ: "occupied ?H (area_end a) (free_flag a') (p_buffers a') n =
       (if page_align K dt \<le> n * PAGE_SIZE \<and> n * PAGE_SIZE < min (page_align K (dt + sz)) (page_mask e) then True
        else occupied ?H (area_end a) (free_flag a) (p_buffers a) n)" for n
    unfolding rng ff c(3) spl using occupied_data [OF ch sizeof_pos [OF K] dvd, where fr = "free_flag a" and n = n] fx dist data e by auto
  have pg': "pages_ok K a'"
    by (rule pages_after [OF sa' c(5) rs _ occ]) (use pg in \<open>simp add: pages_ok_def\<close>)
  have fs: "free_size K h' \<le> binder_buffer_size K a x"
    using free_size_le [OF K ds(1,2) _ _ c(7,8)] ds(3,4) sz(1,2) by simp
  note res = inv_whole [OF K inv x sa' c(3,4,6,10,11) fs pg']
  have bsz: "binder_buffer_size K a' = binder_buffer_size K a"
    using c(3) sa' by (simp add: binder_buffer_size_def fun_eq_iff same_area_def split: option.split)
  have "alloc_post K a d os async (Some x) a'"
    using res sa' x c(4,7,8,9,12) sz bsz by (auto simp: alloc_post_def alloc_set_def free_set_def)
  with c(1) show thesis by (rule that)
qed

lemma alloc_split:
  assumes K: "kern_ok K" and inv: "binder_inv K a" and x: "x \<in> free_set a" and spl: "p_buffers a = us @ x # vs"
    and sz: "sz = alloc_size K d os" "sz + sizeof_binder_buffer K \<le> binder_buffer_size K a x"
    and ds: "d < 2 ^ (8 * ptr_bytes K)" "os < 2 ^ (8 * ptr_bytes K)" "d \<le> sz" "os \<le> sz"
    and e: "e = chain_next (area_end a) vs" and data: "dt = x + sizeof_binder_buffer K"
    and rs: "range_set a ps (page_align K dt)
               (min (page_align K (dt + (sz + sizeof_binder_buffer K))) (page_mask e)) (True, True)"
  obtains a' where "claim_buffer K (a\<lparr>p_pages := ps, p_ticks := t\<rparr>) x (sz + sizeof_binder_buffer K) sz d os async = Some a'"
    and "alloc_post K a d os async (Some x) a'"
proof -
  let ?H = "sizeof_binder_buffer K" and ?ap = "a\<lparr>p_pages := ps, p_ticks := t\<rparr>"
  let ?y = "x + ?H + sz"
  have ar: "area_ok K a" and lay: "layout_ok K a" and pg: "pages_ok K a"
    and ft: "free_tree_ok K a (free_set a)" and at: "alloc_tree_ok a (alloc_set a)"
    using inv by (simp_all add: binder_inv_def)
  note b = free_pages_bounds [OF K ar lay spl]
  have H0: "0 < ?H" by (rule sizeof_pos [OF K])
  have sets: "free_set ?ap = free_set a" "alloc_set ?ap = alloc_set a"
    by (simp_all add: frame_simps)
  have sa: "same_area a ?ap" using rs by (simp add: same_area_def range_set_def)
  have ftp: "free_tree_ok K ?ap (free_set ?ap)" and atp: "alloc_tree_ok ?ap (alloc_set ?ap)" and xp: "x \<in> free_set ?ap"
    using ft at x by (simp_all add: free_tree_ok_def alloc_tree_ok_def frame_simps)
  have arp: "area_ok K ?ap" and layp: "layout_ok K ?ap"
    using ar lay sa by (simp_all add: layout_ok_def same_areaD)
  have bs: "binder_buffer_size K a x = e - dt"
    using buffer_size_eq [OF K ar _ spl] lay e data by (simp add: layout_ok_def)
  have ye: "?y + ?H \<le> e" using sz bs data H0 by linarith
  obtain a' h' g where c: "claim_buffer K ?ap x (sz + ?H) sz d os async = Some a'" "same_area ?ap a'"
    "p_buffers a' = us @ x # ?y # vs" "p_heap a' = (p_heap a)(?y \<mapsto> g, x \<mapsto> h')" "p_pages a' = ps"
    "b_free g" "\<not> b_free h'" "b_data_size h' = d" "b_offsets_size h' = os" "b_async_transaction h' = async"
    "free_tree_ok K a' (insert ?y (free_set a - {x}))" "alloc_tree_ok a' (insert x (alloc_set a))"
    "p_free_async_space a' = async_charge K async (p_free_async_space a) sz"
  proof (rule claim_split [OF K arp layp ftp atp xp _ refl, of us vs sz "sz + ?H" d os async])
    show "p_buffers ?ap = us @ x # vs" using spl by simp
    show "?y + ?H \<le> chain_next (area_end ?ap) vs" using ye e by (simp add: area_end_def)
    show "sz + ?H \<noteq> sz" using H0 by simp
  qed (unfold sets, rule that, simp_all)
  have sa': "same_area a a'" using sa c(2) by (rule same_area_trans)
  have dM: "dt + PAGE_SIZE \<le> 2 ^ (8 * ptr_bytes K)" "dt + (sz + ?H) + PAGE_SIZE \<le> 2 ^ (8 * ptr_bytes K)"
    using data b ye e by linarith+
  have ch: "chain ?H (area_end a) (us @ x # vs)" using lay spl by (simp add: layout_ok_def)
  have fx: "free_flag a x" using x by (simp add: free_set_def)
  have dvd: "PAGE_SIZE dvd area_end a" using ar by (simp add: area_ok_def area_end_def)
  have xy: "x \<noteq> ?y" using H0 by simp
  have ff: "free_flag a' = (free_flag a)(x := False, ?y := True)"
    using xy c(4,6,7) by (auto simp: free_flag_def is_free_def fun_eq_iff)
  have occ: "occupied ?H (area_end a) (free_flag a') (p_buffers a') n =
       (if page_align K dt \<le> n * PAGE_SIZE \<and> n * PAGE_SIZE < min (page_align K (dt + (sz + ?H))) (page_mask e) then True
        else occupied ?H (area_end a) (free_flag a) (p_buffers a) n)" for n
    unfolding alloc_range [OF dM(2,1)] ff c(3) spl
    using occupied_split [OF ch H0 dvd, where fr = "free_flag a" and y = ?y and n = n] fx ye data e by (auto simp: add.assoc)
  have pg': "pages_ok K a'"
    by (rule pages_after [OF sa' c(5) rs _ occ]) (use pg in \<open>simp add: pages_ok_def\<close>)
  have fs: "free_size K h' \<le> sz"
    using free_size_le [OF K ds(1,2) _ _ c(8,9)] ds(3,4) sz(1) by simp
  note res = inv_split [OF K inv x sa' spl refl ye [unfolded e] c(3,4,6,7,11,12) fs pg']
  have heap: "p_heap a' z = p_heap a z" if "z \<in> alloc_set a" for z
  proof -
    have "z \<noteq> x" using that x by (auto simp: alloc_set_def free_set_def)
    moreover have "z \<noteq> ?y"
    proof
      assume "z = ?y"
      then have "?y \<in> set (us @ x # vs)" using that spl by (simp add: alloc_set_def)
      moreover have "distinct (us @ x # ?y # vs)"
        using ch ye e H0 by (intro chain_distinct [of ?H "area_end a"]) (auto simp: chain_append)
      ultimately show False by auto
    qed
    ultimately show ?thesis using c(4) by simp
  qed
  have "alloc_post K a d os async (Some x) a'"
    using res sa' x c(4,8,9,10,13) sz heap by (auto simp: alloc_post_def)
  with c(1) show thesis by (rule that)
qed


section \<open>The whole function\<close>

text \<open>The code after the best fit \<open>x\<close> was found, with \<open>n\<close> empty unless the fit is exact.\<close>

lemma alloc_found:
  assumes K: "kern_ok K" and inv: "binder_inv K a" and vma: "p_vma a"
    and ds: "d < 2 ^ (8 * ptr_bytes K)" "os < 2 ^ (8 * ptr_bytes K)"
      "d \<le> alloc_size K d os" "os \<le> alloc_size K d os"
    and async: "async \<longrightarrow> szt (ptr_bytes K) (alloc_size K d os + sizeof_binder_buffer K) \<le> p_free_async_space a"
    and bf: "best_fit_loop K a (alloc_size K d os) (p_free_buffers a) None = Some (n, Some x)"
    and x: "x \<in> free_set a"
    and fit: "if n = None then alloc_size K d os < binder_buffer_size K a x
              else alloc_size K d os = binder_buffer_size K a x"
  obtains r a' where "binder_alloc_buf K a d os async = Some (r, a')" and "alloc_post K a d os async r a'"
    and "r = None \<or> r = Some x"
proof -
  let ?H = "sizeof_binder_buffer K" and ?sz = "alloc_size K d os" and ?w = "ptr_bytes K"
  have ar: "area_ok K a" and lay: "layout_ok K a" using inv by (simp_all add: binder_inv_def)
  obtain us vs where spl: "p_buffers a = us @ x # vs"
    using x by (auto simp: free_set_def dest: split_list)
  note b = free_pages_bounds [OF K ar lay spl]
  define e where "e = chain_next (area_end a) vs"
  define dt where "dt = x + ?H"
  have bs: "binder_buffer_size K a x = e - dt"
    using buffer_size_eq [OF K ar _ spl] lay by (simp add: layout_ok_def e_def dt_def)
  have de: "dt \<le> e" "e \<le> area_end a" using b by (simp_all add: e_def dt_def)
  have H: "?H + 4 < PAGE_SIZE" by (rule sizeof_small [OF K])
  have szle: "?sz \<le> e - dt" using fit bs by (auto split: if_splits)
  have small: "v + ?H + 4 < 2 ^ (8 * ?w)" if "v \<le> area_end a" for v
    using that b(4) H by linarith
  have sz_small: "?sz \<le> area_end a" using szle de by linarith
  define whole where "whole \<longleftrightarrow> n \<noteq> None \<or> e - dt \<le> ?sz + ?H + 4"
  define bs' where "bs' = (if whole then ?sz else ?sz + ?H)"
  have bs'_code: "claimed_size K n ?sz (binder_buffer_size K a x) = bs'"
    using fit small [OF sz_small] by (auto simp: claimed_size_def bs'_def whole_def szt_id bs)
  have z: "dt + bs' \<le> area_end a" using szle de by (auto simp: bs'_def whole_def)
  have e_code: "szt ?w (buffer_data K x + binder_buffer_size K a x) = e"
    using de small [of e] bs by (simp add: buffer_data_def dt_def szt_id)
  have z_code: "szt ?w (buffer_data K x + bs') = dt + bs'"
    using z small [of "dt + bs'"] by (simp add: buffer_data_def dt_def szt_id)
  let ?upd = "binder_update_page_range K a True (page_align K dt) (min (page_align K (dt + bs')) (page_mask e)) False"
  have code: "binder_alloc_buf K a d os async =
     (case ?upd of None \<Rightarrow> None
      | Some (ret, a') \<Rightarrow> if ret \<noteq> 0 then Some (None, a')
          else map_option (Pair (Some x)) (claim_buffer K a' x bs' ?sz d os async))"
  proof -
    have "\<not> (async \<and> p_free_async_space a < szt ?w (?sz + ?H))" using async by auto
    then have "binder_alloc_buf K a d os async =
     (case binder_update_page_range K a True (page_align K (buffer_data K x))
         (min (page_align K (szt ?w (buffer_data K x + claimed_size K n ?sz (binder_buffer_size K a x))))
              (page_mask (szt ?w (buffer_data K x + binder_buffer_size K a x)))) False of
        None \<Rightarrow> None
      | Some (ret, a') \<Rightarrow> if ret \<noteq> 0 then Some (None, a')
          else map_option (Pair (Some x))
                 (claim_buffer K a' x (claimed_size K n ?sz (binder_buffer_size K a x)) ?sz d os async))"
      using vma ds(3,4) bf by (simp add: binder_alloc_buf_def Let_def not_less) auto
    then show ?thesis unfolding bs'_code e_code z_code by (simp add: buffer_data_def dt_def)
  qed
  show thesis
  proof (rule alloc_pages [OF K inv x spl z e_def dt_def, where dsz = d and osz = os and async = async])
    fix ps t
    assume upd: "?upd = Some (0, a\<lparr>p_pages := ps, p_ticks := t\<rparr>)"
      and rs: "range_set a ps (page_align K dt) (min (page_align K (dt + bs')) (page_mask e)) (True, True)"
    show thesis
    proof (cases whole)
      case True
      have "binder_buffer_size K a x \<le> ?sz + ?H + 4" using True fit bs by (auto simp: whole_def)
      moreover have "?sz \<le> binder_buffer_size K a x" using szle bs by simp
      ultimately obtain a' where "claim_buffer K (a\<lparr>p_pages := ps, p_ticks := t\<rparr>) x ?sz ?sz d os async = Some a'"
        "alloc_post K a d os async (Some x) a'"
        using alloc_whole [OF K inv x spl refl _ _ ds e_def dt_def, of ps t async] rs True by (auto simp: bs'_def)
      then show thesis using that code upd True by (simp add: bs'_def)
    next
      case False
      have le: "?sz + ?H \<le> binder_buffer_size K a x" using False bs by (auto simp: whole_def)
      obtain a' where "claim_buffer K (a\<lparr>p_pages := ps, p_ticks := t\<rparr>) x (?sz + ?H) ?sz d os async = Some a'"
        "alloc_post K a d os async (Some x) a'"
        using alloc_split [OF K inv x spl refl le ds e_def dt_def, of ps t async] rs False by (auto simp: bs'_def)
      then show thesis using that code upd False by (simp add: bs'_def)
    qed
  next
    fix ps t
    assume "?upd = Some (- ENOMEM, a\<lparr>p_pages := ps, p_ticks := t\<rparr>)"
      and post: "alloc_post K a d os async None (a\<lparr>p_pages := ps, p_ticks := t\<rparr>)"
    then have "binder_alloc_buf K a d os async = Some (None, a\<lparr>p_pages := ps, p_ticks := t\<rparr>)"
      using code by (simp add: ENOMEM_def)
    then show thesis using post by (rule that) simp
  qed
qed

lemma alloc_buf_outcome:
  assumes K: "kern_ok K" and inv: "binder_inv K a"
    and ds: "d < 2 ^ (8 * ptr_bytes K)" "os < 2 ^ (8 * ptr_bytes K)"
  obtains r a' where "binder_alloc_buf K a d os async = Some (r, a')" and "alloc_post K a d os async r a'"
    and "\<And>x y. r = Some x \<Longrightarrow> y \<in> free_set a \<Longrightarrow> alloc_size K d os \<le> binder_buffer_size K a y \<Longrightarrow>
           binder_buffer_size K a x \<le> binder_buffer_size K a y"
proof -
  let ?H = "sizeof_binder_buffer K" and ?sz = "alloc_size K d os" and ?w = "ptr_bytes K"
  let ?ok = "p_vma a \<and> d \<le> ?sz \<and> os \<le> ?sz \<and> (async \<longrightarrow> szt ?w (?sz + ?H) \<le> p_free_async_space a)"
  have same: "alloc_post K a d os async None a" using inv by (simp add: alloc_post_def)
  have ft: "free_tree_ok K a (free_set a)" using inv by (simp add: binder_inv_def)
  then have "\<exists>n best. best_fit_loop K a ?sz (p_free_buffers a) None = Some (n, best) \<and>
      best_fit_result (binder_buffer_size K a) ?sz (set (inorder (p_free_buffers a))) None n best"
    by (intro best_fit_loop_spec) (auto simp: free_tree_ok_def free_set_def)
  then obtain n best where bf: "best_fit_loop K a ?sz (p_free_buffers a) None = Some (n, best)"
    and res: "best_fit_result (binder_buffer_size K a) ?sz (free_set a) None n best"
    using ft by (auto simp: free_tree_ok_def)
  show thesis
  proof (cases "?ok \<and> best \<noteq> None")
    case False
    then have "binder_alloc_buf K a d os async = Some (None, a)"
      using bf by (auto simp: binder_alloc_buf_def Let_def not_less)
    then show thesis using same by (rule that) simp
  next
    case True
    then obtain x where best: "best = Some x" by auto
    have x: "x \<in> free_set a" and fit: "if n = None then ?sz < binder_buffer_size K a x else ?sz = binder_buffer_size K a x"
      and least: "\<forall>y \<in> free_set a. ?sz \<le> binder_buffer_size K a y \<longrightarrow> binder_buffer_size K a x \<le> binder_buffer_size K a y"
      using res best unfolding best_fit_result_def by auto
    obtain r a' where "binder_alloc_buf K a d os async = Some (r, a')" "alloc_post K a d os async r a'"
      "r = None \<or> r = Some x"
      using alloc_found [OF K inv _ ds _ _ _ bf [unfolded best] x fit] True by auto
    then show thesis using least by (intro that [of r a']) auto
  qed
qed

end
