(* ===== verification/Binder_Free.thy ===== *)
theory Binder_Free
  imports Binder_Alloc_Buf
begin

text \<open>
  \<open>binder_free_buf\<close> keeps the invariant of the area. \<open>pending K a x\<close> is the state between
  the moment the buffer is marked free and its insertion into the tree of free buffers: the
  two merges turn a pending buffer into a pending buffer with no free neighbour.
\<close>

section \<open>Deleting the header of a free buffer\<close>

lemma page_of_iff: "x div PAGE_SIZE = q \<longleftrightarrow> q * PAGE_SIZE \<le> x \<and> x < Suc q * PAGE_SIZE"
proof
  assume "x div PAGE_SIZE = q"
  then show "q * PAGE_SIZE \<le> x \<and> x < Suc q * PAGE_SIZE"
    using dividend_less_div_times [of PAGE_SIZE x] by (auto simp: add.commute)
next
  assume "q * PAGE_SIZE \<le> x \<and> x < Suc q * PAGE_SIZE"
  then show "x div PAGE_SIZE = q" by (intro div_nat_eqI) (auto simp: mult.commute)
qed

text \<open>The pages of one header: \<open>s\<close> holds its first and \<open>t\<close> its last byte.\<close>

lemma header_pages:
  fixes b H n s t :: nat
  assumes "0 < H" and "H < PAGE_SIZE" and "s = b div PAGE_SIZE" and "t = (b + H - 1) div PAGE_SIZE"
  shows "b < Suc n * PAGE_SIZE \<and> n * PAGE_SIZE < b + H \<longleftrightarrow> n = s \<or> n = t" and "t = s \<or> t = Suc s"
proof -
  have s: "s * PAGE_SIZE \<le> b" "b < Suc s * PAGE_SIZE"
    and t: "t * PAGE_SIZE \<le> b + H - 1" "b + H - 1 < Suc t * PAGE_SIZE"
    using assms(3,4) page_of_iff by blast+
  have "s \<le> t" "t \<le> Suc s" using s t assms(1,2) unfolding PAGE_SIZE_def by auto
  then show st: "t = s \<or> t = Suc s" by linarith
  show "b < Suc n * PAGE_SIZE \<and> n * PAGE_SIZE < b + H \<longleftrightarrow> n = s \<or> n = t"
  proof
    assume "b < Suc n * PAGE_SIZE \<and> n * PAGE_SIZE < b + H"
    then have "s \<le> n" "n \<le> t" using s t assms(1) unfolding PAGE_SIZE_def by auto
    then show "n = s \<or> n = t" using st by auto
  next
    assume "n = s \<or> n = t"
    then show "b < Suc n * PAGE_SIZE \<and> n * PAGE_SIZE < b + H"
      using s t assms(1) unfolding PAGE_SIZE_def by auto
  qed
qed

lemma deleted_range:
  fixes b H n s t p v :: nat
  assumes H: "0 < H" "H < PAGE_SIZE" and s: "s = b div PAGE_SIZE" and t: "t = (b + H - 1) div PAGE_SIZE"
    and p: "p + H \<le> b" and v: "nv \<Longrightarrow> b + H \<le> v"
    and sp: "sp \<longleftrightarrow> (p + H - 1) div PAGE_SIZE = s" and sn: "sn \<longleftrightarrow> nv \<and> v div PAGE_SIZE = t"
    and fs: "fs \<longleftrightarrow> \<not> sp \<and> \<not> (sn \<and> v div PAGE_SIZE = s)"
    and fe: "fe \<longleftrightarrow> \<not> (sp \<and> (p + H - 1) div PAGE_SIZE = t) \<and> \<not> sn"
  shows "(n = s \<or> n = t) \<and> \<not> (n * PAGE_SIZE < p + H \<or> (nv \<and> v < Suc n * PAGE_SIZE)) \<longleftrightarrow>
     (fs \<or> fe) \<and> (if fs then s else t) \<le> n \<and> n < Suc (if fe then t else s)"
proof -
  have st: "t = s \<or> t = Suc s" by (rule header_pages [OF H s t])
  have b: "s * PAGE_SIZE \<le> b" "b < Suc s * PAGE_SIZE"
    and b': "t * PAGE_SIZE \<le> b + H - 1" "b + H - 1 < Suc t * PAGE_SIZE"
    using s t page_of_iff by blast+
  have 1: "s * PAGE_SIZE < p + H \<longleftrightarrow> sp"
    using p H b unfolding sp page_of_iff PAGE_SIZE_def by auto
  have 2: "t = Suc s \<Longrightarrow> \<not> t * PAGE_SIZE < p + H"
    using p b by simp
  have 3: "nv \<and> v < Suc t * PAGE_SIZE \<longleftrightarrow> sn"
    using v b' H unfolding sn page_of_iff PAGE_SIZE_def by auto
  have 4: "t = Suc s \<Longrightarrow> \<not> (nv \<and> v < Suc s * PAGE_SIZE)"
    using v b' H unfolding PAGE_SIZE_def by auto
  show ?thesis
  proof (cases "t = s")
    case True
    have "fs \<longleftrightarrow> \<not> sp \<and> \<not> sn" "fe \<longleftrightarrow> \<not> sp \<and> \<not> sn" using fs fe True sp sn by blast+
    then show ?thesis using 1 3 True by (cases "n = s") (auto simp del: mult_Suc)
  next
    case False
    then have t': "t = Suc s" using st by simp
    have "fs \<longleftrightarrow> \<not> sp" "fe \<longleftrightarrow> \<not> sn" using fs fe False sp sn by metis+
    moreover have "n = s \<or> n = t \<or> \<not> (s \<le> n \<and> n \<le> t)" using t' by auto
    ultimately show ?thesis using 1 2 [OF t'] 3 4 [OF t'] t'
      by (elim disjE) (auto simp del: mult_Suc)
  qed
qed

lemma delete_free:
  assumes K: "kern_ok K" and ar: "area_ok K a" and lay: "layout_ok K a" and pg: "pages_ok K a"
    and spl: "p_buffers a = us @ p # b # vs" and fr: "free_flag a p" "free_flag a b"
  obtains ps t where
    "binder_delete_free_buffer K a b =
       Some (a\<lparr>p_buffers := us @ p # vs, p_heap := (p_heap a)(b := None), p_pages := ps, p_ticks := t\<rparr>)"
    and "length ps = length (p_pages a)"
    and "pages_ok K (a\<lparr>p_buffers := us @ p # vs, p_heap := (p_heap a)(b := None), p_pages := ps, p_ticks := t\<rparr>)"
proof -
  let ?H = "sizeof_binder_buffer K"
  let ?a1 = "a\<lparr>p_buffers := us @ p # vs, p_heap := (p_heap a)(b := None)\<rparr>"
  have H: "0 < ?H" "?H < PAGE_SIZE" using sizeof_pos [OF K] sizeof_small [OF K] by simp_all
  have ch: "chain ?H (area_end a) (us @ p # b # vs)" using lay spl by (simp add: layout_ok_def)
  have dist: "distinct (us @ p # b # vs)" by (rule chain_distinct [OF H(1) ch])
  have spl': "p_buffers a = (us @ [p]) @ b # vs" using spl by simp
  have bn: "b \<notin> set (us @ [p])" using dist by auto
  have prv: "prev_in (p_buffers a) b = Some p" unfolding spl' prev_in_split [OF bn] by simp
  have nxt: "next_in (p_buffers a) b = (case vs of [] \<Rightarrow> None | v # _ \<Rightarrow> Some v)"
    unfolding spl' next_in_split [OF bn] by simp
  have rem: "remove1 b (p_buffers a) = us @ p # vs" unfolding spl' remove1_mid [OF bn] by simp
  have pb: "p + ?H \<le> b" and be: "b + ?H \<le> chain_next (area_end a) vs" using ch by (simp_all add: chain_append)
  note bnd = free_pages_bounds [OF K ar lay spl']
  define s where "s = b div PAGE_SIZE"
  define t where "t = (b + ?H - 1) div PAGE_SIZE"
  define v where "v = chain_next (area_end a) vs"
  define nv where "nv \<longleftrightarrow> vs \<noteq> []"
  define sp where "sp \<longleftrightarrow> (p + ?H - 1) div PAGE_SIZE = s"
  define sn where "sn \<longleftrightarrow> nv \<and> v div PAGE_SIZE = t"
  define fs where "fs \<longleftrightarrow> \<not> sp \<and> \<not> (sn \<and> v div PAGE_SIZE = s)"
  define fe where "fe \<longleftrightarrow> \<not> (sp \<and> (p + ?H - 1) div PAGE_SIZE = t) \<and> \<not> sn"
  let ?S = "(if fs then s else t) * PAGE_SIZE" and ?E = "Suc (if fe then t else s) * PAGE_SIZE"
  have code: "binder_delete_free_buffer K a b =
      (if fs \<or> fe then map_option snd (binder_update_page_range K ?a1 False ?S ?E False) else Some ?a1)"
    unfolding binder_delete_free_buffer_def prv nxt rem
    using fr(1)
    by (cases vs)
      (simp_all add: Let_def free_flag_def buffer_start_page_def buffer_end_page_def page_mask_def
        fs_def fe_def sp_def sn_def nv_def v_def s_def t_def PAGE_SIZE_def add.commute)
  have hdr: "b < Suc n * PAGE_SIZE \<and> n * PAGE_SIZE < b + ?H \<longleftrightarrow> n = s \<or> n = t" for n
    by (rule header_pages [OF H s_def t_def])
  have ff1: "occupied ?H (area_end a) (free_flag ?a1) (us @ p # vs) n = occupied ?H (area_end a) (free_flag a) (us @ p # vs) n" for n
    by (rule occupied_cong) (use dist in \<open>auto simp: free_flag_def is_free_def\<close>)
  have rng: "(n = s \<or> n = t) \<and> \<not> occupied ?H (area_end a) (free_flag a) (us @ p # vs) n \<longleftrightarrow>
     (fs \<or> fe) \<and> ?S \<le> n * PAGE_SIZE \<and> n * PAGE_SIZE < ?E" for n
  proof -
    have "(n = s \<or> n = t) \<Longrightarrow> occupied ?H (area_end a) (free_flag a) (us @ p # vs) n \<longleftrightarrow>
        n * PAGE_SIZE < p + ?H \<or> (nv \<and> v < Suc n * PAGE_SIZE)"
      using occupied_shared [OF ch H(1), where fr = "free_flag a" and n = n] fr(1) hdr [of n]
      by (auto simp: nv_def v_def)
    moreover have "(n = s \<or> n = t) \<and> \<not> (n * PAGE_SIZE < p + ?H \<or> (nv \<and> v < Suc n * PAGE_SIZE)) \<longleftrightarrow>
        (fs \<or> fe) \<and> (if fs then s else t) \<le> n \<and> n < Suc (if fe then t else s)"
      by (rule deleted_range [OF H s_def t_def pb _ sp_def sn_def fs_def fe_def]) (use be in \<open>simp add: v_def\<close>)
    ultimately show ?thesis by (auto simp del: mult_Suc)
  qed
  have old: "occupied ?H (area_end a) (free_flag a) (us @ p # b # vs) n \<longleftrightarrow>
     occupied ?H (area_end a) (free_flag a) (us @ p # vs) n \<or> n = s \<or> n = t" for n
    using occupied_merge [OF ch H(1), where fr = "free_flag a" and n = n] fr hdr [of n] by simp
  have sa1: "same_area a ?a1" by (simp add: same_area_def)
  have pat: "page_at ?a1 n = page_at a n" for n by (simp add: page_at_def)
  have mapped: "page_at ?a1 n = (True, True)" if "fs \<or> fe" "?S \<le> n * PAGE_SIZE" "n * PAGE_SIZE < ?E" for n
  proof -
    have n: "n = s \<or> n = t" using rng [of n] that by blast
    then have "b < Suc n * PAGE_SIZE" "n * PAGE_SIZE < b + ?H" using hdr by blast+
    moreover have "PAGE_SIZE dvd p_buffer a" using ar by (simp add: area_ok_def)
    ultimately have "in_area a n"
      using bnd(1-3) be unfolding in_area_def by (auto simp: PAGE_SIZE_def elim!: dvdE)
    then show ?thesis using pg old [of n] n unfolding pages_ok_def spl pat by simp
  qed
  show thesis
  proof (cases "fs \<or> fe")
    case True
    have ar1: "area_ok K ?a1" using ar sa1 by (simp add: same_areaD)
    have d: "PAGE_SIZE dvd ?S" "PAGE_SIZE dvd ?E" by simp_all
    have "PAGE_SIZE dvd p_buffer a" "PAGE_SIZE dvd area_end a"
      using ar by (simp_all add: area_ok_def area_end_def)
    then obtain q k where q: "p_buffer a = q * PAGE_SIZE" "area_end a = k * PAGE_SIZE"
      by (metis dvd_div_mult_self)
    have "q \<le> s" "t < k" "s \<le> t"
      using bnd be q H unfolding s_def t_def by (auto simp: PAGE_SIZE_def div_le_mono)
    then have r: "p_buffer ?a1 \<le> ?S" "?E \<le> area_end ?a1"
      using q by (auto simp: same_areaD [OF sa1] area_end_def simp del: mult_Suc)
    obtain r ps t' where u: "binder_update_page_range K ?a1 False ?S ?E False = Some (r, ?a1\<lparr>p_pages := ps, p_ticks := t'\<rparr>)"
      "range_set ?a1 ps ?S ?E (False, False)"
      using update_free [OF ar1 d r mapped [OF True]] by blast
    let ?a2 = "?a1\<lparr>p_pages := ps, p_ticks := t'\<rparr>"
    have "length ps = length (p_pages a)" using u(2) by (simp add: range_set_def)
    moreover have "pages_ok K ?a2"
    proof (rule pages_after [of a])
      show "same_area a ?a2" using u(2) by (simp add: same_area_def range_set_def)
      show "range_set a ps ?S ?E (False, False)"
        using u(2) by (simp add: range_set_def same_areaD [OF sa1] pat)
      show "page_at a n = (let occ = occupied ?H (area_end a) (free_flag a) (p_buffers a) n in (occ, occ))"
        if "in_area a n" for n using pg that by (simp add: pages_ok_def)
      show "occupied ?H (area_end a) (free_flag ?a2) (p_buffers ?a2) n =
          (if ?S \<le> n * PAGE_SIZE \<and> n * PAGE_SIZE < ?E then False
           else occupied ?H (area_end a) (free_flag a) (p_buffers a) n)" if "in_area a n" for n
        using rng [of n] old [of n] ff1 [of n] True spl by (auto simp: frame_simps simp del: mult_Suc)
    qed simp
    ultimately show thesis by (intro that) (use code True u(1) in simp_all)
  next
    case False
    have "pages_ok K (?a1\<lparr>p_pages := p_pages a, p_ticks := p_ticks a\<rparr>)"
      unfolding pages_ok_def
    proof (intro allI impI)
      let ?a2 = "?a1\<lparr>p_pages := p_pages a, p_ticks := p_ticks a\<rparr>"
      fix n assume "in_area ?a2 n"
      then have "in_area a n" by (simp add: in_area_def area_end_def)
      then have "page_at a n = (let occ = occupied ?H (area_end a) (free_flag a) (p_buffers a) n in (occ, occ))"
        using pg by (simp add: pages_ok_def)
      then show "page_at ?a2 n = (let occ = occupied ?H (area_end ?a2) (free_flag ?a2) (p_buffers ?a2) n in (occ, occ))"
        using rng [of n] old [of n] ff1 [of n] False spl by (auto simp: page_at_def area_end_def Let_def)
    qed
    then show thesis by (rule that [rotated 2]) (use code False in simp_all)
  qed
qed

text \<open>
  The merges of \<open>binder_free_buf\<close> and the function as a whole.
\<close>

section \<open>A buffer on its way to the free tree\<close>

definition coalesced_but :: "binder_alloc \<Rightarrow> addr \<Rightarrow> bool" where
  "coalesced_but a x \<longleftrightarrow>
     successively (\<lambda>u v. u = x \<or> v = x \<or> \<not> (free_flag a u \<and> free_flag a v)) (p_buffers a)"

definition pending :: "kern \<Rightarrow> binder_alloc \<Rightarrow> addr \<Rightarrow> bool" where
  "pending K a x \<longleftrightarrow> area_ok K a \<and> layout_ok K a \<and> pages_ok K a \<and> x \<in> free_set a \<and>
     free_tree_ok K a (free_set a - {x}) \<and> alloc_tree_ok a (alloc_set a) \<and>
     coalesced_but a x \<and> sizes_ok K a"

text \<open>What the merges leave alone.\<close>

definition keeps :: "kern \<Rightarrow> binder_alloc \<Rightarrow> binder_alloc \<Rightarrow> bool" where
  "keeps K a a' \<longleftrightarrow> same_area a a' \<and> alloc_set a' = alloc_set a \<and>
     p_free_async_space a' = p_free_async_space a \<and>
     (\<forall>z \<in> alloc_set a. p_heap a' z = p_heap a z \<and> binder_buffer_size K a' z = binder_buffer_size K a z)"

lemma keeps_refl [simp]: "keeps K a a"
  by (simp add: keeps_def)

lemma keeps_trans: "keeps K a b \<Longrightarrow> keeps K b c \<Longrightarrow> keeps K a c"
  unfolding keeps_def by (auto intro: same_area_trans)

lemma successively_drop:
  assumes "successively P (us @ p # b # vs)" and "\<And>v. v \<in> set vs \<Longrightarrow> P b v \<Longrightarrow> P p v"
  shows "successively P (us @ p # vs)"
  using assms by (cases vs) (auto simp: successively_append_iff successively_Cons)

lemma successively_at:
  "successively P (us @ x # vs) \<longleftrightarrow> successively P us \<and> successively P vs
     \<and> (us \<noteq> [] \<longrightarrow> P (last us) x) \<and> (vs \<noteq> [] \<longrightarrow> P x (hd vs))"
  by (auto simp: successively_append_iff successively_Cons)

text \<open>
  The state after a header \<open>b\<close> was deleted from behind the free buffer \<open>p\<close>: everything but
  the tree of free buffers.
\<close>

lemma after_delete:
  assumes K: "kern_ok K" and ar: "area_ok K a" and lay: "layout_ok K a" and at: "alloc_tree_ok a (alloc_set a)"
    and so: "sizes_ok K a" and spl: "p_buffers a = us @ p # b # vs" and fr: "free_flag a p" "free_flag a b"
    and a': "a' = a\<lparr>p_buffers := us @ p # vs, p_heap := (p_heap a)(b := None), p_pages := ps, p_ticks := t\<rparr>"
    and len: "length ps = length (p_pages a)"
  shows "keeps K a a'" and "area_ok K a'" and "layout_ok K a'" and "alloc_tree_ok a' (alloc_set a')"
    and "sizes_ok K a'" and "free_set a' = free_set a - {b}"
    and "\<And>z. z \<noteq> p \<Longrightarrow> z \<noteq> b \<Longrightarrow> binder_buffer_size K a' z = binder_buffer_size K a z"
    and "free_flag a' = (free_flag a)(b := False)"
proof -
  let ?H = "sizeof_binder_buffer K"
  have ch: "chain ?H (area_end a) (us @ p # b # vs)" using lay spl by (simp add: layout_ok_def)
  have dist: "distinct (us @ p # b # vs)" by (rule chain_distinct [OF sizeof_pos [OF K] ch])
  show bsz: "binder_buffer_size K a' z = binder_buffer_size K a z" if "z \<noteq> p" "z \<noteq> b" for z
    using next_in_insert [OF dist that] spl a' by (simp add: binder_buffer_size_def split: option.split)
  show ff: "free_flag a' = (free_flag a)(b := False)"
    using a' by (auto simp: free_flag_def is_free_def fun_eq_iff)
  show fs: "free_set a' = free_set a - {b}"
    using dist unfolding free_set_def ff by (auto simp: a' spl)
  have as: "alloc_set a' = alloc_set a"
    using fr dist unfolding alloc_set_def ff by (auto simp: a' spl)
  have sa: "same_area a a'" using a' len by (simp add: same_area_def)
  show "area_ok K a'" using ar sa by (simp add: same_areaD)
  have "chain ?H (area_end a) (us @ p # vs)" using ch by (auto simp: chain_append)
  then show "layout_ok K a'"
    using lay dist spl unfolding layout_ok_def same_areaD [OF sa] by (cases us) (auto simp: a')
  have nb: "z \<noteq> b \<and> z \<noteq> p" if "z \<in> alloc_set a" for z using that fr by (auto simp: alloc_set_def)
  show "keeps K a a'" unfolding keeps_def using sa as nb bsz by (auto simp: a')
  show "alloc_tree_ok a' (alloc_set a')"
    unfolding as by (rule alloc_tree_cong [OF at]) (use nb in \<open>auto simp: a' alloc_key_def\<close>)
  show "sizes_ok K a'"
    unfolding sizes_ok_def
  proof (intro allI impI)
    fix z h assume zh: "p_heap a' z = Some h \<and> \<not> b_free h"
    then have z: "z \<noteq> b" "p_heap a z = Some h" using a' by (auto split: if_splits)
    then have "z \<noteq> p" using zh fr by (auto simp: free_flag_def is_free_def)
    then show "free_size K h \<le> binder_buffer_size K a' z"
      using so zh z bsz by (simp add: sizes_ok_def)
  qed
qed

lemma pendingD:
  assumes "pending K a x"
  shows "area_ok K a" and "layout_ok K a" and "pages_ok K a" and "free_flag a x" and "x \<in> set (p_buffers a)"
    and "free_tree_ok K a (free_set a - {x})" and "alloc_tree_ok a (alloc_set a)"
    and "coalesced_but a x" and "sizes_ok K a"
  using assms by (auto simp: pending_def free_set_def)

section \<open>Merging with the next buffer\<close>

definition next_taken :: "binder_alloc \<Rightarrow> addr \<Rightarrow> bool" where
  "next_taken a x \<longleftrightarrow> (case next_in (p_buffers a) x of None \<Rightarrow> True | Some v \<Rightarrow> \<not> free_flag a v)"

definition prev_taken :: "binder_alloc \<Rightarrow> addr \<Rightarrow> bool" where
  "prev_taken a x \<longleftrightarrow> (case prev_in (p_buffers a) x of None \<Rightarrow> True | Some u \<Rightarrow> \<not> free_flag a u)"

lemma is_free_cases:
  assumes "layout_ok K a" and "v \<in> set (p_buffers a)"
  shows "is_free a v = Some (free_flag a v)"
  using assms by (auto simp: layout_ok_def is_free_def free_flag_def)

lemma merge_next_ok:
  assumes K: "kern_ok K" and pe: "pending K a x"
  obtains a' where "merge_next K a x = Some a'" and "pending K a' x" and "next_taken a' x" and "keeps K a a'"
proof -
  note P = pendingD [OF pe]
  obtain us vs where spl: "p_buffers a = us @ x # vs" "x \<notin> set us"
    by (rule layout_split [OF K P(2,5)]) (rule that)
  have nx: "next_in (p_buffers a) x = (case vs of [] \<Rightarrow> None | v # _ \<Rightarrow> Some v)"
    unfolding spl next_in_split [OF spl(2)] ..
  show thesis
  proof (cases "vs \<noteq> [] \<and> free_flag a (hd vs)")
    case False
    then have "merge_next K a x = Some a"
      using nx is_free_cases [OF P(2), of "hd vs"] spl
      by (cases vs) (auto simp: merge_next_def)
    moreover have "next_taken a x" using False nx by (cases vs) (auto simp: next_taken_def)
    ultimately show thesis using pe that by simp
  next
    case True
    then obtain v ws where vs: "vs = v # ws" "free_flag a v" by (cases vs) auto
    let ?b = "a\<lparr>p_free_buffers := rb_erase K v (p_free_buffers a)\<rparr>"
    have spl2: "p_buffers a = us @ x # v # ws" using spl vs by simp
    have fv: "is_free a v = Some True" using vs by (simp add: free_flag_def)
    have code: "merge_next K a x = binder_delete_free_buffer K ?b v"
      using nx vs fv by (simp add: merge_next_def)
    have flag: "free_flag ?b = free_flag a" "free_set ?b = free_set a" "alloc_set ?b = alloc_set a"
      "alloc_key ?b = alloc_key a" "area_end ?b = area_end a" "in_area ?b = in_area a" "page_at ?b = page_at a"
      by (simp_all add: free_flag_def is_free_def free_set_def alloc_set_def alloc_key_def area_end_def
          in_area_def page_at_def fun_eq_iff)
    have B: "area_ok K ?b" "layout_ok K ?b" "pages_ok K ?b" "alloc_tree_ok ?b (alloc_set ?b)" "sizes_ok K ?b"
      using P by (simp_all add: area_ok_def layout_ok_def pages_ok_def alloc_tree_ok_def sizes_ok_def flag frame_simps)
    have bspl: "p_buffers ?b = us @ x # v # ws" using spl2 by simp
    have fb: "free_flag ?b x" "free_flag ?b v" using P(4) vs by (simp_all add: flag)
    obtain ps t where del: "binder_delete_free_buffer K ?b v =
       Some (?b\<lparr>p_buffers := us @ x # ws, p_heap := (p_heap ?b)(v := None), p_pages := ps, p_ticks := t\<rparr>)"
      and len: "length ps = length (p_pages ?b)"
      and pg: "pages_ok K (?b\<lparr>p_buffers := us @ x # ws, p_heap := (p_heap ?b)(v := None), p_pages := ps, p_ticks := t\<rparr>)"
      by (rule delete_free [OF K B(1-3) bspl fb])
    define a' where "a' = ?b\<lparr>p_buffers := us @ x # ws, p_heap := (p_heap ?b)(v := None), p_pages := ps, p_ticks := t\<rparr>"
    note D = after_delete [OF K B(1,2,4,5) bspl fb a'_def len]
    have ch: "chain (sizeof_binder_buffer K) (area_end a) (us @ x # v # ws)"
      using P(2) spl2 by (simp add: layout_ok_def)
    have dist: "distinct (us @ x # v # ws)" by (rule chain_distinct [OF sizeof_pos [OF K] ch])
    have xfree: "x \<in> free_set a'" using D(6) P(4) dist spl2 by (auto simp: flag free_set_def)
    have "free_tree_ok K a' ((free_set a - {x}) - {v})"
    proof (rule free_tree_erase [OF K P(6)])
      show "p_free_buffers a' = rb_erase K v (p_free_buffers a)" by (simp add: a'_def)
      show "binder_buffer_size K a' y = binder_buffer_size K a y" if "y \<in> free_set a - {x} - {v}" for y
        using D(7) [of y] that by (simp add: frame_simps)
    qed
    moreover have "(free_set a - {x}) - {v} = free_set a' - {x}" using D(6) by (auto simp: flag)
    ultimately have ft: "free_tree_ok K a' (free_set a' - {x})" by simp
    have co: "successively (\<lambda>u w. u = x \<or> w = x \<or> \<not> (free_flag a u \<and> free_flag a w)) (us @ x # v # ws)"
      using P(8) spl2 by (simp add: coalesced_but_def)
    have hdws: "ws \<noteq> [] \<longrightarrow> \<not> free_flag a (hd ws)"
      using co vs(2) dist by (cases ws) (auto simp: successively_at successively_Cons)
    have "successively (\<lambda>u w. u = x \<or> w = x \<or> \<not> (free_flag a u \<and> free_flag a w)) (us @ x # ws)"
      by (rule successively_drop [OF co]) simp
    moreover have "p_buffers a' = us @ x # ws" by (simp add: a'_def)
    ultimately have cb: "coalesced_but a' x"
      unfolding coalesced_but_def D(8) flag by (auto elim!: successively_mono)
    have "next_in (us @ x # ws) x = (case ws of [] \<Rightarrow> None | w # _ \<Rightarrow> Some w)"
      using spl(2) by (simp add: next_in_split)
    then have nt: "next_taken a' x"
      using hdws dist unfolding next_taken_def D(8) flag by (cases ws) (auto simp: a'_def)
    have "pending K a' x"
      unfolding pending_def using D(2-5) pg xfree ft cb by (simp add: a'_def)
    moreover have "keeps K a a'" using D(1) by (simp add: keeps_def flag frame_simps same_area_def)
    ultimately show thesis using that code del nt by (simp add: a'_def)
  qed
qed


section \<open>Merging with the previous buffer\<close>

lemma merge_prev_ok:
  assumes K: "kern_ok K" and pe: "pending K a x" and nt: "next_taken a x"
  obtains y a' where "merge_prev K a x = Some (y, a')" and "pending K a' y"
    and "next_taken a' y" and "prev_taken a' y" and "keeps K a a'"
proof -
  note P = pendingD [OF pe]
  obtain us vs where spl: "p_buffers a = us @ x # vs" "x \<notin> set us" "x \<notin> set vs"
    by (rule layout_split [OF K P(2,5)]) (rule that)
  have pv: "prev_in (p_buffers a) x = (if us = [] then None else Some (last us))"
    unfolding spl(1) prev_in_split [OF spl(2)] using prev_in_head [OF spl(3)] by simp
  show thesis
  proof (cases "us \<noteq> [] \<and> free_flag a (last us)")
    case False
    then have "merge_prev K a x = Some (x, a)"
      using pv is_free_cases [OF P(2), of "last us"] spl by (auto simp: merge_prev_def)
    moreover have "prev_taken a x" using False pv by (auto simp: prev_taken_def)
    ultimately show thesis using pe nt that by simp
  next
    case True
    then obtain us' p where us: "us = us' @ [p]" "free_flag a p" by (cases us rule: rev_cases) auto
    have spl2: "p_buffers a = us' @ p # x # vs" using spl us by simp
    have fp: "is_free a p = Some True" using us by (simp add: free_flag_def)
    obtain ps t where del: "binder_delete_free_buffer K a x =
       Some (a\<lparr>p_buffers := us' @ p # vs, p_heap := (p_heap a)(x := None), p_pages := ps, p_ticks := t\<rparr>)"
      and len: "length ps = length (p_pages a)"
      and pg: "pages_ok K (a\<lparr>p_buffers := us' @ p # vs, p_heap := (p_heap a)(x := None), p_pages := ps, p_ticks := t\<rparr>)"
      by (rule delete_free [OF K P(1-3) spl2 us(2) P(4)])
    define b where "b = a\<lparr>p_buffers := us' @ p # vs, p_heap := (p_heap a)(x := None), p_pages := ps, p_ticks := t\<rparr>"
    define a' where "a' = b\<lparr>p_free_buffers := rb_erase K p (p_free_buffers b)\<rparr>"
    note D = after_delete [OF K P(1,2,7,9) spl2 us(2) P(4) b_def len]
    have code: "merge_prev K a x = Some (p, a')"
      using pv us fp del by (simp add: merge_prev_def a'_def b_def)
    have flag: "free_flag a' = free_flag b" "free_set a' = free_set b" "alloc_set a' = alloc_set b"
      "alloc_key a' = alloc_key b" "area_end a' = area_end b" "in_area a' = in_area b" "page_at a' = page_at b"
      by (simp_all add: a'_def free_flag_def is_free_def free_set_def alloc_set_def alloc_key_def area_end_def
          in_area_def page_at_def fun_eq_iff)
    have bufs: "p_buffers a' = us' @ p # vs" by (simp add: a'_def b_def)
    have ch: "chain (sizeof_binder_buffer K) (area_end a) (us' @ p # x # vs)"
      using P(2) spl2 by (simp add: layout_ok_def)
    have dist: "distinct (us' @ p # x # vs)" by (rule chain_distinct [OF sizeof_pos [OF K] ch])
    have pfree: "p \<in> free_set a'" using us(2) dist unfolding free_set_def flag D(8) bufs by auto
    have "free_tree_ok K a' ((free_set a - {x}) - {p})"
    proof (rule free_tree_erase [OF K P(6)])
      show "p_free_buffers a' = rb_erase K p (p_free_buffers a)" by (simp add: a'_def b_def)
      show "binder_buffer_size K a' y = binder_buffer_size K a y" if "y \<in> free_set a - {x} - {p}" for y
        using D(7) [of y] that by (simp add: a'_def frame_simps)
    qed
    moreover have "(free_set a - {x}) - {p} = free_set a' - {p}" using D(6) by (auto simp: flag)
    ultimately have ft: "free_tree_ok K a' (free_set a' - {p})" by simp
    have co: "successively (\<lambda>u w. u = x \<or> w = x \<or> \<not> (free_flag a u \<and> free_flag a w)) (us' @ p # x # vs)"
      using P(8) spl2 by (simp add: coalesced_but_def)
    then have parts: "successively (\<lambda>u w. u = x \<or> w = x \<or> \<not> (free_flag a u \<and> free_flag a w)) us'"
      "successively (\<lambda>u w. u = x \<or> w = x \<or> \<not> (free_flag a u \<and> free_flag a w)) vs"
      "us' \<noteq> [] \<longrightarrow> \<not> free_flag a (last us')"
      using us(2) dist by (auto simp: successively_at successively_Cons)
    have "successively (\<lambda>u w. u = p \<or> w = p \<or> \<not> (free_flag a' u \<and> free_flag a' w)) us'"
      "successively (\<lambda>u w. u = p \<or> w = p \<or> \<not> (free_flag a' u \<and> free_flag a' w)) vs"
      unfolding flag D(8) using parts(1,2) by (auto elim!: successively_mono)
    then have cb: "coalesced_but a' p"
      unfolding coalesced_but_def bufs by (auto simp: successively_at)
    have "next_in (p_buffers a) x = (case vs of [] \<Rightarrow> None | v # _ \<Rightarrow> Some v)"
      unfolding spl(1) next_in_split [OF spl(2)] ..
    then have hdvs: "vs \<noteq> [] \<longrightarrow> \<not> free_flag a (hd vs)" using nt by (cases vs) (auto simp: next_taken_def)
    have p_new: "p \<notin> set us'" "p \<notin> set vs" using dist by auto
    have "next_taken a' p"
      unfolding next_taken_def bufs next_in_split [OF p_new(1)] flag D(8)
      using hdvs by (cases vs) auto
    moreover have "prev_taken a' p"
      unfolding prev_taken_def bufs prev_in_split [OF p_new(1)] flag D(8)
      using parts(3) prev_in_head [OF p_new(2)] by auto
    moreover have "pending K a' p"
      unfolding pending_def
    proof (intro conjI)
      show "area_ok K a'" "layout_ok K a'" "alloc_tree_ok a' (alloc_set a')" "sizes_ok K a'"
        using D(2-5) by (simp_all add: a'_def area_ok_def layout_ok_def alloc_tree_ok_def sizes_ok_def frame_simps
            flag [unfolded a'_def])
      show "pages_ok K a'"
        using pg unfolding b_def [symmetric] pages_ok_def flag by (simp add: a'_def)
    qed (use pfree ft cb in simp_all)
    moreover have "keeps K a a'"
      using D(1) unfolding keeps_def flag by (simp add: a'_def frame_simps same_area_def)
    ultimately show thesis using that code by simp
  qed
qed

section \<open>Freeing a buffer\<close>

lemma insert_pending:
  assumes K: "kern_ok K" and pe: "pending K a x" and nt: "next_taken a x" and pt: "prev_taken a x"
  obtains a' where "binder_insert_free_buffer K a x = Some a'" and "binder_inv K a'" and "keeps K a a'"
proof -
  note P = pendingD [OF pe]
  obtain t where t: "binder_insert_free_buffer K a x = Some (a\<lparr>p_free_buffers := t\<rparr>)"
    "free_tree_ok K (a\<lparr>p_free_buffers := t\<rparr>) (insert x (free_set a - {x}))"
    by (rule insert_free [OF K P(6) _ P(4)]) (auto simp: free_set_def)
  define a' where "a' = a\<lparr>p_free_buffers := t\<rparr>"
  have flag: "free_flag a' = free_flag a" "free_set a' = free_set a" "alloc_set a' = alloc_set a"
      "alloc_key a' = alloc_key a" "area_end a' = area_end a" "in_area a' = in_area a" "page_at a' = page_at a"
    by (simp_all add: a'_def free_flag_def is_free_def free_set_def alloc_set_def alloc_key_def area_end_def
          in_area_def page_at_def fun_eq_iff)
  obtain us vs where spl: "p_buffers a = us @ x # vs" "x \<notin> set us" "x \<notin> set vs"
    by (rule layout_split [OF K P(2,5)]) (rule that)
  have "next_in (p_buffers a) x = (case vs of [] \<Rightarrow> None | v # _ \<Rightarrow> Some v)"
    unfolding spl(1) next_in_split [OF spl(2)] ..
  then have hdvs: "vs \<noteq> [] \<longrightarrow> \<not> free_flag a (hd vs)" using nt by (cases vs) (auto simp: next_taken_def)
  have "prev_in (p_buffers a) x = (if us = [] then None else Some (last us))"
    unfolding spl(1) prev_in_split [OF spl(2)] using prev_in_head [OF spl(3)] by simp
  then have lastus: "us \<noteq> [] \<longrightarrow> \<not> free_flag a (last us)" using pt by (auto simp: prev_taken_def)
  have "successively (\<lambda>u v. \<not> (free_flag a u \<and> free_flag a v)) us" "successively (\<lambda>u v. \<not> (free_flag a u \<and> free_flag a v)) vs"
    using P(8) spl unfolding coalesced_but_def spl(1) successively_at
    by (auto elim!: successively_mono)
  then have "coalesced a'" unfolding coalesced_def flag
    using hdvs lastus by (simp add: a'_def spl(1) successively_at)
  moreover have "insert x (free_set a - {x}) = free_set a'"
    unfolding flag(2) using P(4,5) by (auto simp: free_set_def)
  ultimately have "binder_inv K a'"
    using P t(2) unfolding binder_inv_def
    by (simp add: a'_def area_ok_def layout_ok_def pages_ok_def alloc_tree_ok_def sizes_ok_def frame_simps
        flag [unfolded a'_def])
  moreover have "keeps K a a'" unfolding keeps_def flag by (simp add: a'_def frame_simps same_area_def)
  ultimately show thesis using that t(1) by (simp add: a'_def)
qed

text \<open>
  \<open>binder_free_buf\<close> as a whole: on a well-formed area the buffer that is given back is
  unmapped, merged with its free neighbours and put in the tree of free buffers, and no
  other allocated buffer changes.
\<close>

text \<open>The asynchronous space after a buffer with the header \<open>h\<close> was given back.\<close>

definition async_refund :: "kern \<Rightarrow> binder_buffer \<Rightarrow> nat \<Rightarrow> nat" where
  "async_refund K h space =
     (if b_async_transaction h
      then szt (ptr_bytes K) (space + (free_size K h + sizeof_binder_buffer K)) else space)"

definition free_post :: "kern \<Rightarrow> binder_alloc \<Rightarrow> addr \<Rightarrow> binder_buffer \<Rightarrow> binder_alloc \<Rightarrow> bool" where
  "free_post K a x h a' \<longleftrightarrow> binder_inv K a' \<and> same_area a a' \<and> alloc_set a' = alloc_set a - {x} \<and>
     p_free_async_space a' = async_refund K h (p_free_async_space a) \<and>
     (\<forall>z \<in> alloc_set a - {x}. p_heap a' z = p_heap a z \<and> binder_buffer_size K a' z = binder_buffer_size K a z)"

lemma inv_async:
  assumes "binder_inv K a" and a1: "a1 = a\<lparr>p_free_async_space := n\<rparr>"
  shows "binder_inv K a1" and "same_area a a1" and "p_heap a1 = p_heap a" and "p_buffers a1 = p_buffers a"
    and "free_set a1 = free_set a" and "alloc_set a1 = alloc_set a" and "free_flag a1 = free_flag a"
    and "binder_buffer_size K a1 = binder_buffer_size K a"
proof -
  show sa: "same_area a a1" by (simp add: a1 same_area_def)
  show "p_heap a1 = p_heap a" "p_buffers a1 = p_buffers a" by (simp_all add: a1)
  show ff: "free_flag a1 = free_flag a" by (simp add: a1 free_flag_def is_free_def fun_eq_iff)
  show fs: "free_set a1 = free_set a" "alloc_set a1 = alloc_set a"
    unfolding free_set_def alloc_set_def ff by (simp_all add: a1)
  have ak: "alloc_key a1 = alloc_key a" by (simp add: a1 alloc_key_def fun_eq_iff)
  have pa: "page_at a1 = page_at a" by (simp add: a1 page_at_def fun_eq_iff)
  show "binder_buffer_size K a1 = binder_buffer_size K a" by (simp add: a1 frame_simps)
  show "binder_inv K a1"
    using assms(1) unfolding binder_inv_def same_areaD [OF sa] fs
    by (simp add: layout_ok_def pages_ok_def free_tree_ok_def alloc_tree_ok_def coalesced_def sizes_ok_def
        same_areaD [OF sa] ff ak pa a1 [symmetric])
      (simp add: a1 frame_simps)
qed

text \<open>The part up to the merges: the pages of the buffer are given back.\<close>

lemma free_unmap:
  assumes K: "kern_ok K" and inv: "binder_inv K a" and x: "x \<in> alloc_set a" and h: "p_heap a x = Some h"
  obtains r ps t where "binder_update_page_range K a False (page_align K (buffer_data K x))
        (page_mask (szt (ptr_bytes K) (buffer_data K x + binder_buffer_size K a x))) False
      = Some (r, a\<lparr>p_pages := ps, p_ticks := t\<rparr>)"
    and "\<And>a3. a3 = a\<lparr>p_pages := ps, p_ticks := t, p_allocated_buffers := rb_erase K x (p_allocated_buffers a),
             p_heap := (p_heap a)(x \<mapsto> h\<lparr>b_free := True\<rparr>)\<rparr> \<Longrightarrow>
           pages_ok K a3 \<and> same_area a a3"
proof -
  let ?H = "sizeof_binder_buffer K"
  have ar: "area_ok K a" and lay: "layout_ok K a" and pg: "pages_ok K a"
    using inv by (simp_all add: binder_inv_def)
  have xb: "x \<in> set (p_buffers a)" and nf: "\<not> free_flag a x" using x by (simp_all add: alloc_set_def)
  obtain us vs where spl: "p_buffers a = us @ x # vs" "x \<notin> set us" "x \<notin> set vs"
    by (rule layout_split [OF K lay xb]) (rule that)
  note b = free_pages_bounds [OF K ar lay spl(1)]
  define e where "e = chain_next (area_end a) vs"
  define d where "d = x + ?H"
  have H: "?H + 4 < PAGE_SIZE" "0 < ?H" using sizeof_small [OF K] sizeof_pos [OF K] .
  have bs: "binder_buffer_size K a x = e - d"
    using buffer_size_eq [OF K ar _ spl(1)] lay by (simp add: layout_ok_def e_def d_def)
  have de: "d \<le> e" "e \<le> area_end a" using b by (simp_all add: e_def d_def)
  have eM: "e < 2 ^ (8 * ptr_bytes K)" using de b(4) PAGE_SIZE_pos by linarith
  then have e_code: "szt (ptr_bytes K) (buffer_data K x + binder_buffer_size K a x) = e"
    using de bs by (simp add: buffer_data_def d_def szt_id)
  have dM: "d + PAGE_SIZE \<le> 2 ^ (8 * ptr_bytes K)" using de b(4) by linarith
  have rng: "page_align K d \<le> n * PAGE_SIZE \<and> n * PAGE_SIZE < page_mask e
      \<longleftrightarrow> x + ?H \<le> n * PAGE_SIZE \<and> Suc n * PAGE_SIZE \<le> e" for n
    using page_align_le [OF dM, of n] less_page_mask [of n e] by (simp add: d_def)
  have ch: "chain ?H (area_end a) (us @ x # vs)" using lay spl by (simp add: layout_ok_def)
  have dvd: "PAGE_SIZE dvd area_end a" using ar by (simp add: area_ok_def area_end_def)
  let ?fr = "(free_flag a)(x := True)"
  have same: "?fr(x := False) = free_flag a" using nf by (simp add: fun_eq_iff)
  have occ: "occupied ?H (area_end a) (free_flag a) (us @ x # vs) n \<longleftrightarrow>
      occupied ?H (area_end a) ?fr (us @ x # vs) n
        \<or> (x + ?H \<le> n * PAGE_SIZE \<and> Suc n * PAGE_SIZE \<le> e)" for n
    using occupied_data [OF ch H(2) dvd, where fr = ?fr and n = n] spl(2,3) unfolding same e_def by simp
  have gone: "x + ?H \<le> n * PAGE_SIZE \<Longrightarrow> Suc n * PAGE_SIZE \<le> e \<Longrightarrow> \<not> occupied ?H (area_end a) ?fr (us @ x # vs) n" for n
    by (rule data_not_occupied [OF ch]) (simp_all add: e_def)
  have mapped: "page_at a n = (True, True)" if "page_align K d \<le> n * PAGE_SIZE" "n * PAGE_SIZE < page_mask e" for n
  proof -
    have r: "x + ?H \<le> n * PAGE_SIZE" "Suc n * PAGE_SIZE \<le> e" using rng that by blast+
    then have "in_area a n" unfolding in_area_def using de b(1) by (auto simp: PAGE_SIZE_def)
    then show ?thesis using pg occ [of n] r spl(1) by (simp add: pages_ok_def)
  qed
  have "d + (PAGE_SIZE - 1) < 2 ^ (8 * ptr_bytes K)" using dM PAGE_SIZE_pos by linarith
  then have "d \<le> page_align K d" unfolding page_align_def by (rule align_up_ge) simp
  then have lo: "p_buffer a \<le> page_align K d" using b(1) by (simp add: d_def)
  have hi: "page_mask e \<le> area_end a" using page_mask_le [of e] de by linarith
  obtain r ps t where u: "binder_update_page_range K a False (page_align K d) (page_mask e) False
      = Some (r, a\<lparr>p_pages := ps, p_ticks := t\<rparr>)" "range_set a ps (page_align K d) (page_mask e) (False, False)"
    using update_free [OF ar page_align_dvd page_mask_dvd lo hi mapped] by blast
  show thesis
  proof (rule that)
    show "binder_update_page_range K a False (page_align K (buffer_data K x))
        (page_mask (szt (ptr_bytes K) (buffer_data K x + binder_buffer_size K a x))) False
      = Some (r, a\<lparr>p_pages := ps, p_ticks := t\<rparr>)"
      unfolding e_code using u(1) by (simp add: buffer_data_def d_def)
    fix a3 assume a3: "a3 = a\<lparr>p_pages := ps, p_ticks := t, p_allocated_buffers := rb_erase K x (p_allocated_buffers a),
             p_heap := (p_heap a)(x \<mapsto> h\<lparr>b_free := True\<rparr>)\<rparr>"
    have sa: "same_area a a3" using u(2) by (simp add: a3 same_area_def range_set_def)
    have ff: "free_flag a3 = ?fr" by (auto simp: a3 free_flag_def is_free_def fun_eq_iff)
    have "pages_ok K a3"
    proof (rule pages_after [OF sa _ u(2)])
      show "p_pages a3 = ps" by (simp add: a3)
      show "page_at a n = (let occ = occupied ?H (area_end a) (free_flag a) (p_buffers a) n in (occ, occ))"
        if "in_area a n" for n using pg that by (simp add: pages_ok_def)
      show "occupied ?H (area_end a) (free_flag a3) (p_buffers a3) n =
          (if page_align K d \<le> n * PAGE_SIZE \<and> n * PAGE_SIZE < page_mask e then False
           else occupied ?H (area_end a) (free_flag a) (p_buffers a) n)" for n
        unfolding rng ff using occ [of n] gone [of n] by (simp add: a3 spl(1)) blast
    qed
    with sa show "pages_ok K a3 \<and> same_area a a3" by simp
  qed
qed

lemma free_pending:
  assumes K: "kern_ok K" and inv: "binder_inv K a" and x: "x \<in> alloc_set a" and h: "p_heap a x = Some h"
    and a3: "a3 = a\<lparr>p_pages := ps, p_ticks := t, p_allocated_buffers := rb_erase K x (p_allocated_buffers a),
             p_heap := (p_heap a)(x \<mapsto> h\<lparr>b_free := True\<rparr>)\<rparr>"
    and pg: "pages_ok K a3" and sa: "same_area a a3"
  shows "pending K a3 x" and "alloc_set a3 = alloc_set a - {x}"
    and "binder_buffer_size K a3 = binder_buffer_size K a"
proof -
  have I: "area_ok K a" "layout_ok K a" "free_tree_ok K a (free_set a)" "alloc_tree_ok a (alloc_set a)"
    "coalesced a" "sizes_ok K a" using inv by (simp_all add: binder_inv_def)
  have xb: "x \<in> set (p_buffers a)" and nf: "\<not> free_flag a x" using x by (simp_all add: alloc_set_def)
  have ff: "free_flag a3 = (free_flag a)(x := True)" by (auto simp: a3 free_flag_def is_free_def fun_eq_iff)
  have bufs: "p_buffers a3 = p_buffers a" by (simp add: a3)
  show bsz: "binder_buffer_size K a3 = binder_buffer_size K a"
    using sa by (simp add: binder_buffer_size_def fun_eq_iff bufs same_area_def split: option.split)
  have fs: "free_set a3 = insert x (free_set a)" "x \<notin> free_set a"
    using xb nf unfolding free_set_def ff bufs by auto
  show as: "alloc_set a3 = alloc_set a - {x}" unfolding alloc_set_def ff bufs by auto
  have ft: "free_tree_ok K a3 (free_set a3 - {x})"
    using I(3) fs by (simp add: free_tree_ok_def bsz) (simp add: a3)
  have at: "alloc_tree_ok a3 (alloc_set a3)"
    unfolding as by (rule alloc_tree_erase [OF K I(4)]) (auto simp: a3 alloc_key_def)
  have co: "coalesced_but a3 x"
    using I(5) unfolding coalesced_but_def coalesced_def ff bufs by (auto elim!: successively_mono)
  have lo: "layout_ok K a3"
    using I(2) xb unfolding layout_ok_def same_areaD [OF sa] bufs by (auto simp: a3)
  have so: "sizes_ok K a3" using I(6) unfolding sizes_ok_def bsz by (auto simp: a3)
  show "pending K a3 x"
    unfolding pending_def using I(1) lo pg fs ft at co so by (simp add: same_areaD [OF sa])
qed

lemma free_core:
  assumes K: "kern_ok K" and inv: "binder_inv K a" and x: "x \<in> alloc_set a" and h: "p_heap a x = Some h"
    and tr: "b_transaction h = None"
  obtains a' where "binder_free_buf K a x = Some a'" and "free_post K a x h a'"
proof -
  define a1 where "a1 = a\<lparr>p_free_async_space := async_refund K h (p_free_async_space a)\<rparr>"
  note A = inv_async [OF inv a1_def]
  have x1: "x \<in> alloc_set a1" and h1: "p_heap a1 x = Some h" using x h A by simp_all
  obtain r ps t where u: "binder_update_page_range K a1 False (page_align K (buffer_data K x))
        (page_mask (szt (ptr_bytes K) (buffer_data K x + binder_buffer_size K a1 x))) False
      = Some (r, a1\<lparr>p_pages := ps, p_ticks := t\<rparr>)"
    and g: "\<And>a3. a3 = a1\<lparr>p_pages := ps, p_ticks := t, p_allocated_buffers := rb_erase K x (p_allocated_buffers a1),
             p_heap := (p_heap a1)(x \<mapsto> h\<lparr>b_free := True\<rparr>)\<rparr> \<Longrightarrow> pages_ok K a3 \<and> same_area a1 a3"
    by (rule free_unmap [OF K A(1) x1 h1]) (rule that)
  define a3 where "a3 = a1\<lparr>p_pages := ps, p_ticks := t, p_allocated_buffers := rb_erase K x (p_allocated_buffers a1),
             p_heap := (p_heap a1)(x \<mapsto> h\<lparr>b_free := True\<rparr>)\<rparr>"
  have g3: "pages_ok K a3" "same_area a1 a3" using g [OF a3_def] by simp_all
  note P = free_pending [OF K A(1) x1 h1 a3_def g3]
  obtain a4 where m4: "merge_next K a3 x = Some a4" "pending K a4 x" "next_taken a4 x" "keeps K a3 a4"
    by (rule merge_next_ok [OF K P(1)]) (rule that)
  obtain y a5 where m5: "merge_prev K a4 x = Some (y, a5)" "pending K a5 y" "next_taken a5 y" "prev_taken a5 y" "keeps K a4 a5"
    by (rule merge_prev_ok [OF K m4(2,3)]) (rule that)
  obtain a6 where m6: "binder_insert_free_buffer K a5 y = Some a6" "binder_inv K a6" "keeps K a5 a6"
    by (rule insert_pending [OF K m5(2-4)]) (rule that)
  have k: "keeps K a3 a6" using keeps_trans [OF keeps_trans [OF m4(4) m5(5)] m6(3)] .
  have I: "area_ok K a" "layout_ok K a" "sizes_ok K a" using inv by (simp_all add: binder_inv_def)
  have xb: "x \<in> set (p_buffers a)" and nf: "\<not> b_free h"
    using x h by (simp_all add: alloc_set_def free_flag_def is_free_def)
  obtain us vs where spl: "p_buffers a = us @ x # vs" using xb by (auto dest: split_list)
  note b = free_pages_bounds [OF K I(1,2) spl]
  have guard: "free_size K h \<le> binder_buffer_size K a x" "p_buffer a \<le> x" "x \<le> p_buffer a + p_buffer_size a"
    using I(3) h nf b by (auto simp: sizes_ok_def area_end_def)
  have refund: "(if b_async_transaction h
                   then a\<lparr>p_free_async_space :=
                            szt (ptr_bytes K) (p_free_async_space a + (free_size K h + sizeof_binder_buffer K))\<rparr>
                   else a) = a1"
    by (simp add: a1_def async_refund_def)
  have "binder_free_buf K a x = Some a6"
    unfolding binder_free_buf_def h bind.bind_lunit Let_def refund
    using guard nf tr u m4(1) m5(1) m6(1) A(8) by (simp add: a3_def not_le)
  moreover have "free_post K a x h a6"
  proof -
    have "same_area a a6" using A(2) g3(2) k by (auto simp: keeps_def intro: same_area_trans)
    moreover have "alloc_set a6 = alloc_set a - {x}" using k P(2) A(6) by (simp add: keeps_def)
    moreover have "p_free_async_space a6 = async_refund K h (p_free_async_space a)"
      using k by (simp add: keeps_def a3_def a1_def)
    moreover have "\<forall>z \<in> alloc_set a - {x}. p_heap a6 z = p_heap a z \<and> binder_buffer_size K a6 z = binder_buffer_size K a z"
      using k P(2,3) A(3,6,8) by (auto simp: keeps_def a3_def)
    ultimately show ?thesis using m6(2) by (simp add: free_post_def)
  qed
  ultimately show thesis by (rule that)
qed

end
