(* ===== verification/Binder_Mmap.thy ===== *)
theory Binder_Mmap
  imports Binder_Free
begin

text \<open>
  \<open>binder_mmap\<close>: the kernel's half of the area, its first page and the one free buffer that
  covers it. The area the invariant of the allocator talks about starts here.
  \<open>CONFIG_CPU_CACHE_VIPT\<close> is taken to be off.
\<close>

unbundle bit_operations_syntax

record vm_area =
  vm_start :: nat
  vm_end :: nat
  vm_flags :: "32 word"
  vm_mm :: nat

definition SZ_4M :: nat where
  "SZ_4M = 0x400000"

definition FORBIDDEN_MMAP_FLAGS :: "32 word" where
  "FORBIDDEN_MMAP_FLAGS = 0x2"

definition VM_DONTCOPY :: "32 word" where
  "VM_DONTCOPY = 0x20000"

definition VM_MAYWRITE :: "32 word" where
  "VM_MAYWRITE = 0x20"

definition EPERM :: int where "EPERM = 1"
definition EBUSY :: int where "EBUSY = 16"
definition EINVAL :: int where "EINVAL = 22"

text \<open>The label \<open>err_alloc_pages_failed\<close> and what it falls through to.\<close>

definition mmap_undo_area :: "binder_alloc \<Rightarrow> binder_alloc" where
  "mmap_undo_area a = a\<lparr>p_buffer := 0\<rparr>"

definition mmap_vma :: "vm_area \<Rightarrow> vm_area" where
  "mmap_vma vma = (if vm_end vma - vm_start vma > SZ_4M then vma\<lparr>vm_end := vm_start vma + SZ_4M\<rparr> else vma)"

text \<open>The part after the area of kernel addresses was found.\<close>

definition mmap_area :: "kern \<Rightarrow> binder_alloc \<Rightarrow> nat \<Rightarrow> vm_area \<Rightarrow> addr \<Rightarrow> (int \<times> binder_alloc) option" where
  "mmap_area K a current vma area =
     (let len = vm_end vma - vm_start vma;
          a1 = a\<lparr>p_buffer := area, p_user_buffer_offset := int (vm_start vma) - int area,
                 p_ticks := Suc (p_ticks a)\<rparr>
      in
      if \<not> kcalloc K (p_ticks a1) then Some (- ENOMEM, mmap_undo_area (a1\<lparr>p_pages := []\<rparr>))
      else
        let a2 = a1\<lparr>p_pages := replicate (len div PAGE_SIZE) no_page, p_buffer_size := len\<rparr> in
        case binder_update_page_range K a2 True (p_buffer a2) (p_buffer a2 + PAGE_SIZE) True of
          None \<Rightarrow> None
        | Some (ret, a3) \<Rightarrow>
            if ret \<noteq> 0 then Some (- ENOMEM, mmap_undo_area (a3\<lparr>p_pages := []\<rparr>))
            else
              let buffer = p_buffer a3;
                  a4 = a3\<lparr>p_buffers := [buffer],
                          p_heap := (p_heap a3)(buffer \<mapsto> (stale_header K (p_ticks a3))\<lparr>b_free := True\<rparr>)\<rparr>
              in
              map_option
                (\<lambda>a5. (0, a5\<lparr>p_free_async_space := p_buffer_size a5 div 2,
                              p_files := get_files_struct K current,
                              p_vma := True, p_vma_vm_mm := Some (vm_mm vma)\<rparr>))
                (binder_insert_free_buffer K a4 buffer))"

definition binder_mmap ::
  "kern \<Rightarrow> binder_alloc \<Rightarrow> nat \<Rightarrow> vm_area \<Rightarrow> (int \<times> vm_area \<times> binder_alloc) option" where
  "binder_mmap K a current vma0 =
     (if p_tsk a \<noteq> current then Some (- EINVAL, vma0, a)
      else
        let vma1 = mmap_vma vma0 in
        if vm_flags vma1 AND FORBIDDEN_MMAP_FLAGS \<noteq> 0 then Some (- EPERM, vma1, a)
        else
          let vma = vma1\<lparr>vm_flags := (vm_flags vma1 OR VM_DONTCOPY) AND NOT VM_MAYWRITE\<rparr> in
          if p_buffer a \<noteq> 0 then Some (- EBUSY, vma, a)
          else
            case get_vm_area K (p_ticks a) (vm_end vma - vm_start vma) of
              None \<Rightarrow> Some (- ENOMEM, vma, a)
            | Some area \<Rightarrow> map_option (\<lambda>(r, a'). (r, vma, a')) (mmap_area K a current vma area))"

text \<open>A process that has just opened the driver.\<close>

definition fresh_alloc :: "nat \<Rightarrow> nat \<Rightarrow> binder_alloc" where
  "fresh_alloc tsk ticks = \<lparr>p_tsk = tsk, p_vma = False, p_vma_vm_mm = None, p_files = None,
     p_buffer = 0, p_user_buffer_offset = 0, p_buffers = [], p_heap = Map.empty,
     p_free_buffers = Leaf, p_allocated_buffers = Leaf, p_free_async_space = 0, p_pages = [],
     p_buffer_size = 0, p_ticks = ticks\<rparr>"

text \<open>What the fields the allocator uses are before the area is mapped.\<close>

definition unmapped :: "binder_alloc \<Rightarrow> bool" where
  "unmapped a \<longleftrightarrow> p_buffer a = 0 \<and> p_buffers a = [] \<and> p_heap a = Map.empty \<and> p_free_buffers a = Leaf \<and>
     p_allocated_buffers a = Leaf \<and> p_pages a = [] \<and> \<not> p_vma a"

lemma fresh_unmapped [simp]: "unmapped (fresh_alloc tsk n)"
  by (simp add: unmapped_def fresh_alloc_def)

definition vma_ok :: "vm_area \<Rightarrow> bool" where
  "vma_ok vma \<longleftrightarrow> vm_start vma < vm_end vma \<and> PAGE_SIZE dvd vm_start vma \<and> PAGE_SIZE dvd vm_end vma"

lemma mmap_vma_ok: "vma_ok vma \<Longrightarrow> vma_ok (mmap_vma vma)"
  by (auto simp: vma_ok_def mmap_vma_def SZ_4M_def PAGE_SIZE_def)

text \<open>A mapped area with a single free buffer satisfies the invariant.\<close>

lemma inv_single:
  assumes K: "kern_ok K" and ar: "area_ok K a" and ne: "p_buffer_size a \<noteq> 0"
    and bufs: "p_buffers a = [p_buffer a]" and hp: "p_heap a = [p_buffer a \<mapsto> h]" and fr: "b_free h"
    and ft: "inorder (p_free_buffers a) = [p_buffer a]" and at: "p_allocated_buffers a = Leaf"
    and pg: "\<And>n. in_area a n \<Longrightarrow> page_at a n = (n * PAGE_SIZE = p_buffer a, n * PAGE_SIZE = p_buffer a)"
  shows "binder_inv K a" and "alloc_set a = {}"
proof -
  let ?H = "sizeof_binder_buffer K"
  have H: "0 < ?H" "?H + 4 < PAGE_SIZE" using sizeof_pos [OF K] sizeof_small [OF K] .
  obtain q k where q: "p_buffer a = q * PAGE_SIZE" and k: "p_buffer_size a = k * PAGE_SIZE"
    using ar unfolding area_ok_def by (metis dvd_div_mult_self)
  have "PAGE_SIZE \<le> p_buffer_size a" using k ne by (cases k) auto
  then have room: "p_buffer a + ?H \<le> area_end a" using H by (simp add: area_end_def)
  have ff: "free_flag a x \<longleftrightarrow> x = p_buffer a" for x using hp fr by (simp add: free_flag_def is_free_def)
  have fs: "free_set a = {p_buffer a}" by (auto simp: free_set_def bufs ff)
  show as: "alloc_set a = {}" by (auto simp: alloc_set_def bufs ff)
  have "pages_ok K a"
    unfolding pages_ok_def
  proof (intro allI impI)
    fix n assume n: "in_area a n"
    have "p_buffer a < Suc n * PAGE_SIZE \<and> n * PAGE_SIZE < p_buffer a + ?H \<longleftrightarrow> n * PAGE_SIZE = p_buffer a"
      using H n q by (auto simp: in_area_def PAGE_SIZE_def)
    then show "page_at a n = (let occ = occupied ?H (area_end a) (free_flag a) (p_buffers a) n in (occ, occ))"
      unfolding pg [OF n] bufs by (simp add: ff Let_def)
  qed
  moreover have "layout_ok K a" using room by (simp add: layout_ok_def bufs hp)
  moreover have "free_tree_ok K a (free_set a)" unfolding free_tree_ok_def fs ft by simp
  moreover have "alloc_tree_ok a (alloc_set a)" unfolding alloc_tree_ok_def as at by (simp add: keyed_def keys_of_def)
  moreover have "coalesced a" by (simp add: coalesced_def bufs)
  moreover have "sizes_ok K a" using fr by (auto simp: sizes_ok_def hp split: if_splits)
  ultimately show "binder_inv K a" using ar by (simp add: binder_inv_def)
qed

definition mmap_done :: "kern \<Rightarrow> binder_alloc \<Rightarrow> nat \<Rightarrow> binder_alloc \<Rightarrow> bool" where
  "mmap_done K a len a' \<longleftrightarrow> binder_inv K a' \<and> alloc_set a' = {} \<and> p_vma a' \<and> p_tsk a' = p_tsk a \<and>
     p_buffer_size a' = len \<and> p_free_async_space a' = len div 2"

lemma mmap_area_outcome:
  assumes K: "kern_ok K" and un: "unmapped a" and vma: "vma_ok vma"
    and area: "get_vm_area K (p_ticks a) (vm_end vma - vm_start vma) = Some v"
  obtains r a' where "mmap_area K a cur vma v = Some (r, a')"
    and "r = 0 \<and> mmap_done K a (vm_end vma - vm_start vma) a' \<or> r = - ENOMEM \<and> unmapped a'"
proof -
  let ?len = "vm_end vma - vm_start vma"
  have v: "PAGE_SIZE \<le> v" "PAGE_SIZE dvd v" "v + ?len + PAGE_SIZE \<le> 2 ^ (8 * ptr_bytes K)"
    using kern_ok_vm_area [OF K area] by auto
  have len: "PAGE_SIZE dvd ?len" "0 < ?len" using vma by (auto simp: vma_ok_def)
  let ?a1 = "a\<lparr>p_buffer := v, p_user_buffer_offset := int (vm_start vma) - int v, p_ticks := Suc (p_ticks a)\<rparr>"
  let ?a2 = "?a1\<lparr>p_pages := replicate (?len div PAGE_SIZE) no_page, p_buffer_size := ?len\<rparr>"
  show thesis
  proof (cases "kcalloc K (Suc (p_ticks a))")
    case False
    then show thesis using un
      by (intro that [of "- ENOMEM" "mmap_undo_area (?a1\<lparr>p_pages := []\<rparr>)"])
        (simp_all add: mmap_area_def Let_def mmap_undo_area_def unmapped_def)
  next
    case True
    have ar: "area_ok K ?a2" using v len by (simp add: area_ok_def area_end_def)
    obtain B where B: "p_buffer ?a2 = B * PAGE_SIZE" "p_buffer ?a2 div PAGE_SIZE = B"
      "\<forall>n. in_area ?a2 n \<longleftrightarrow> B \<le> n \<and> n < B + length (p_pages ?a2)"
      by (rule area_okE [OF ar]) (rule that)
    have none: "page_at ?a2 n = (False, False)" if "in_area ?a2 n" for n
    proof -
      have "B \<le> n \<and> n < B + length (p_pages ?a2)" using B(3) that by blast
      then have "n - B < ?len div PAGE_SIZE" by auto
      then show ?thesis unfolding page_at_def B(2) by (simp add: no_page_def pgv_def)
    qed
    have le: "PAGE_SIZE \<le> ?len" using len by (rule dvd_imp_le)
    then have hi: "p_buffer ?a2 + PAGE_SIZE \<le> area_end ?a2" by (simp add: area_end_def)
    have inar: "in_area ?a2 n" if "p_buffer ?a2 \<le> n * PAGE_SIZE" "n * PAGE_SIZE < p_buffer ?a2 + PAGE_SIZE" for n
      using that hi unfolding in_area_def by linarith
    have dv: "PAGE_SIZE dvd p_buffer ?a2" "PAGE_SIZE dvd p_buffer ?a2 + PAGE_SIZE" using v by simp_all
    let ?upd = "binder_update_page_range K ?a2 True (p_buffer ?a2) (p_buffer ?a2 + PAGE_SIZE) True"
    show thesis
    proof (rule update_alloc [OF ar dv(1,2) order_refl hi none [OF inar], where v = True])
      fix ps t
      assume u: "?upd = Some (0, ?a2\<lparr>p_pages := ps, p_ticks := t\<rparr>)"
        and rs: "range_set ?a2 ps (p_buffer ?a2) (p_buffer ?a2 + PAGE_SIZE) (True, True)"
      let ?h = "(stale_header K t)\<lparr>b_free := True\<rparr>"
      let ?a4 = "?a2\<lparr>p_pages := ps, p_ticks := t, p_buffers := [v], p_heap := [v \<mapsto> ?h]\<rparr>"
      let ?ft = "rb_insert_color K v \<langle>\<langle>\<rangle>, v, \<langle>\<rangle>\<rangle>"
      have ins: "binder_insert_free_buffer K ?a4 v = Some (?a4\<lparr>p_free_buffers := ?ft\<rparr>)"
        using un by (simp add: binder_insert_free_buffer_def unmapped_def)
      let ?a6 = "?a4\<lparr>p_free_buffers := ?ft, p_free_async_space := ?len div 2,
                     p_files := get_files_struct K cur, p_vma := True, p_vma_vm_mm := Some (vm_mm vma)\<rparr>"
      have code: "mmap_area K a cur vma v = Some (0, ?a6)"
        using True u ins un unfolding unmapped_def by (simp add: mmap_area_def Let_def)
      have lps: "length ps = ?len div PAGE_SIZE" using rs by (simp add: range_set_def)
      have ar6: "area_ok K ?a6" using ar lps by (simp add: area_ok_def area_end_def)
      have pg: "page_at ?a6 n = (n * PAGE_SIZE = p_buffer ?a6, n * PAGE_SIZE = p_buffer ?a6)" if "in_area ?a6 n" for n
      proof -
        have n: "in_area ?a2 n" using that by (simp add: in_area_def area_end_def)
        have "p_buffer ?a2 \<le> n * PAGE_SIZE \<and> n * PAGE_SIZE < p_buffer ?a2 + PAGE_SIZE \<longleftrightarrow> n * PAGE_SIZE = p_buffer ?a2"
          unfolding B(1) by (auto simp: PAGE_SIZE_def)
        then show ?thesis
          using rs n none [OF n] by (simp add: range_set_def page_at_def)
      qed
      have "binder_inv K ?a6 \<and> alloc_set ?a6 = {}"
        by (intro conjI inv_single [OF K ar6, of ?h]) (use len un K pg in \<open>simp_all add: unmapped_def\<close>)
      then show thesis using code by (intro that [of 0 ?a6]) (simp_all add: mmap_done_def)
    next
      fix ps t
      assume u: "?upd = Some (- ENOMEM, ?a2\<lparr>p_pages := ps, p_ticks := t\<rparr>)"
      then show thesis using True un
        by (intro that [of "- ENOMEM" "mmap_undo_area (?a2\<lparr>p_ticks := t, p_pages := []\<rparr>)"])
          (simp_all add: mmap_area_def Let_def mmap_undo_area_def unmapped_def ENOMEM_def)
    qed
  qed
qed

lemma mmap_outcome:
  assumes K: "kern_ok K" and un: "unmapped a" and vma: "vma_ok vma"
  obtains r vma' a' where "binder_mmap K a cur vma = Some (r, vma', a')"
    and "r = 0 \<and> mmap_done K a (min (vm_end vma - vm_start vma) SZ_4M) a' \<or> r < 0 \<and> unmapped a'"
proof -
  let ?v1 = "mmap_vma vma"
  let ?v = "?v1\<lparr>vm_flags := (vm_flags ?v1 OR VM_DONTCOPY) AND NOT VM_MAYWRITE\<rparr>"
  let ?area = "get_vm_area K (p_ticks a) (vm_end ?v - vm_start ?v)"
  have b0: "p_buffer a = 0" using un by (simp add: unmapped_def)
  note E = EINVAL_def EPERM_def ENOMEM_def
  consider (tsk) "p_tsk a \<noteq> cur" | (flags) "p_tsk a = cur" "vm_flags ?v1 AND FORBIDDEN_MMAP_FLAGS \<noteq> 0"
    | (none) "p_tsk a = cur" "vm_flags ?v1 AND FORBIDDEN_MMAP_FLAGS = 0" "?area = None"
    | (area) v where "p_tsk a = cur" "vm_flags ?v1 AND FORBIDDEN_MMAP_FLAGS = 0" "?area = Some v"
    by (cases ?area) auto
  then show thesis
  proof cases
    case tsk
    then show thesis using un by (intro that [of "- EINVAL" vma a]) (simp_all add: binder_mmap_def E)
  next
    case flags
    then show thesis using un by (intro that [of "- EPERM" ?v1 a]) (simp_all add: binder_mmap_def E Let_def)
  next
    case none
    then show thesis using un b0 by (intro that [of "- ENOMEM" ?v a]) (simp_all add: binder_mmap_def E Let_def)
  next
    case area
    have ok: "vma_ok ?v" using mmap_vma_ok [OF vma] by (simp add: vma_ok_def)
    have len: "vm_end ?v - vm_start ?v = min (vm_end vma - vm_start vma) SZ_4M"
      by (simp add: mmap_vma_def)
    obtain r a' where m: "mmap_area K a cur ?v v = Some (r, a')"
      "r = 0 \<and> mmap_done K a (vm_end ?v - vm_start ?v) a' \<or> r = - ENOMEM \<and> unmapped a'"
      by (rule mmap_area_outcome [OF K un ok area(3)]) (rule that)
    have "binder_mmap K a cur vma = Some (r, ?v, a')"
      using area b0 m(1) by (simp add: binder_mmap_def Let_def)
    then show thesis using m(2) unfolding len by (intro that [of r ?v a']) (auto simp: ENOMEM_def)
  qed
qed

end
