(* ===== verification/Binder_State.thy ===== *)
theory Binder_State
  imports Binder_Mmap
begin

text \<open>
  The state of the driver in \<^verbatim>\<open>driver/binder.c\<close>: one heap per kind of kernel object,
  the work lists threaded through the objects, and the global variables. Pointers are
  addresses, \<open>NULL\<close> is \<open>None\<close>. A pointer into a transaction area carries the process
  whose area it points to. An operation that dereferences a freed object yields \<open>None\<close>.
  The reference counts and the object statistics are \<open>int\<close>s of 32 bits in the code; only their
  bits matter, since the driver does nothing with them but count and compare with \<open>0\<close>, and they
  wrap: \<open>32 word\<close>. Debug identifiers and the counts of threads are left unbounded.
\<close>

section \<open>Objects\<close>

datatype work_type = Work_Type_Zero | BINDER_WORK_DEAD_BINDER | BINDER_WORK_DEAD_BINDER_AND_CLEAR
  | BINDER_WORK_CLEAR_DEATH_NOTIFICATION

text \<open>
  A work item, named by the object it is embedded in: \<open>container_of\<close> is the argument. The
  type of an item in a death notification changes and is a field of the notification.
\<close>

datatype work = W_Transaction addr | W_Complete addr | W_Node addr | W_Death addr

datatype list_id = L_Proc addr | L_Thread addr | L_Async addr | L_Delivered addr

text \<open>
  The state of a \<open>list_head\<close> that is a member: initialised or removed by \<open>list_del_init\<close>,
  on a list, or not a valid link (fresh memory, or removed by \<open>list_del\<close>).
\<close>

datatype link = Unlinked | Linked list_id | Wild

record binder_node =
  n_debug_id :: nat
  n_proc :: "addr option"
  n_refs :: "addr list"
  n_internal_strong_refs :: "32 word"
  n_local_weak_refs :: "32 word"
  n_local_strong_refs :: "32 word"
  n_ptr :: nat
  n_cookie :: nat
  n_has_strong_ref :: bool
  n_pending_strong_ref :: bool
  n_has_weak_ref :: bool
  n_pending_weak_ref :: bool
  n_has_async_transaction :: bool
  n_accept_fds :: bool
  n_min_priority :: nat

record binder_ref_death =
  d_type :: work_type
  d_cookie :: nat

record binder_ref =
  r_debug_id :: nat
  r_proc :: addr
  r_node :: addr
  r_desc :: nat
  r_strong :: "32 word"
  r_weak :: "32 word"
  r_death :: "addr option"

datatype br_code = BR_OK | BR_ERROR | BR_TRANSACTION | BR_REPLY | BR_DEAD_REPLY
  | BR_TRANSACTION_COMPLETE | BR_INCREFS | BR_ACQUIRE | BR_RELEASE | BR_DECREFS | BR_NOOP
  | BR_SPAWN_LOOPER | BR_DEAD_BINDER | BR_CLEAR_DEATH_NOTIFICATION_DONE | BR_FAILED_REPLY
  | BR_OTHER nat

record binder_thread =
  th_proc :: addr
  th_pid :: nat
  th_looper :: "32 word"
  th_transaction_stack :: "addr option"
  th_return_error :: br_code
  th_return_error2 :: br_code
  th_br :: "nat \<Rightarrow> nat"
  th_bc :: "nat \<Rightarrow> nat"

record binder_transaction =
  t_debug_id :: nat
  t_from :: "addr option"
  t_from_parent :: "addr option"
  t_to_proc :: "addr option"
  t_to_thread :: "addr option"
  t_to_parent :: "addr option"
  t_need_reply :: bool
  t_buffer :: "(addr \<times> addr) option"
  t_code :: nat
  t_flags :: "32 word"
  t_priority :: int
  t_saved_priority :: int
  t_sender_euid :: nat

record binder_proc =
  pr_threads :: "addr tree"
  pr_nodes :: "addr tree"
  pr_refs_by_desc :: "addr tree"
  pr_refs_by_node :: "addr tree"
  pr_pid :: nat
  pr_deferred_work :: "32 word"
  pr_alloc :: binder_alloc
  pr_br :: "nat \<Rightarrow> nat"
  pr_bc :: "nat \<Rightarrow> nat"
  pr_max_threads :: int
  pr_requested_threads :: int
  pr_requested_threads_started :: int
  pr_ready_threads :: int
  pr_default_priority :: int

datatype stat_type = BINDER_STAT_PROC | BINDER_STAT_THREAD | BINDER_STAT_NODE | BINDER_STAT_REF
  | BINDER_STAT_DEATH | BINDER_STAT_TRANSACTION | BINDER_STAT_TRANSACTION_COMPLETE

text \<open>
  The two rings \<open>binder_transaction_log\<close> and \<open>binder_transaction_log_failed\<close>.
\<close>

record log_entry =
  e_debug_id :: nat
  e_call_type :: nat
  e_from_proc :: nat
  e_from_thread :: nat
  e_target_handle :: nat
  e_to_proc :: nat
  e_to_thread :: nat
  e_to_node :: nat
  e_data_size :: nat
  e_offsets_size :: nat

record binder_transaction_log =
  log_next :: nat
  log_full :: bool
  log_entries :: "log_entry list"

text \<open>The globals, the heaps, and what the driver does to the rest of the kernel.\<close>

record driver =
  procs :: "addr \<rightharpoonup> binder_proc"
  threads :: "addr \<rightharpoonup> binder_thread"
  nodes :: "addr \<rightharpoonup> binder_node"
  refs :: "addr \<rightharpoonup> binder_ref"
  deaths :: "addr \<rightharpoonup> binder_ref_death"
  transactions :: "addr \<rightharpoonup> binder_transaction"
  live :: "(stat_type \<times> addr) list"
  items :: "list_id \<Rightarrow> work list"
  link_of :: "work \<Rightarrow> link"
  binder_last_id :: nat
  binder_context_mgr_node :: "addr option"
  binder_context_mgr_uid :: "nat option"
  binder_procs :: "addr list"
  binder_dead_nodes :: "addr list"
  binder_deferred_list :: "addr list"
  obj_created :: "stat_type \<Rightarrow> 32 word"
  obj_deleted :: "stat_type \<Rightarrow> 32 word"
  st_br :: "nat \<Rightarrow> nat"
  st_bc :: "nat \<Rightarrow> nat"
  tlog :: binder_transaction_log
  tlog_failed :: binder_transaction_log
  fd_table :: "nat \<Rightarrow> nat \<rightharpoonup> nat"
  nice_of :: "nat \<Rightarrow> int"
  user_out :: "(nat \<times> byte list) list"
  ticks :: nat

definition binder_stats_created :: "stat_type \<Rightarrow> driver \<Rightarrow> driver" where
  "binder_stats_created ty s = s\<lparr>obj_created := (obj_created s)(ty := obj_created s ty + 1)\<rparr>"

definition binder_stats_deleted :: "stat_type \<Rightarrow> driver \<Rightarrow> driver" where
  "binder_stats_deleted ty s = s\<lparr>obj_deleted := (obj_deleted s)(ty := obj_deleted s ty + 1)\<rparr>"

section \<open>Memory\<close>

text \<open>
  \<open>live\<close> lists the objects that were allocated and not freed, with their type. A fresh
  object is at an address that no live object has.
\<close>

definition kmalloc :: "kern \<Rightarrow> stat_type \<Rightarrow> driver \<Rightarrow> addr option \<times> driver" where
  "kmalloc K ty s =
     (case kzalloc K (ticks s) (map snd (live s)) of
        None \<Rightarrow> (None, s\<lparr>ticks := Suc (ticks s)\<rparr>)
      | Some a \<Rightarrow> (Some a, s\<lparr>ticks := Suc (ticks s), live := (ty, a) # live s\<rparr>))"

definition kfree :: "stat_type \<Rightarrow> addr \<Rightarrow> driver \<Rightarrow> driver option" where
  "kfree ty a s =
     (if (ty, a) \<in> set (live s) then Some (s\<lparr>live := remove1 (ty, a) (live s)\<rparr>) else None)"

definition set_proc :: "addr \<Rightarrow> binder_proc \<Rightarrow> driver \<Rightarrow> driver" where
  "set_proc a x s = s\<lparr>procs := (procs s)(a \<mapsto> x)\<rparr>"

definition set_thread :: "addr \<Rightarrow> binder_thread \<Rightarrow> driver \<Rightarrow> driver" where
  "set_thread a x s = s\<lparr>threads := (threads s)(a \<mapsto> x)\<rparr>"

definition set_node :: "addr \<Rightarrow> binder_node \<Rightarrow> driver \<Rightarrow> driver" where
  "set_node a x s = s\<lparr>nodes := (nodes s)(a \<mapsto> x)\<rparr>"

definition set_ref :: "addr \<Rightarrow> binder_ref \<Rightarrow> driver \<Rightarrow> driver" where
  "set_ref a x s = s\<lparr>refs := (refs s)(a \<mapsto> x)\<rparr>"

definition set_death :: "addr \<Rightarrow> binder_ref_death \<Rightarrow> driver \<Rightarrow> driver" where
  "set_death a x s = s\<lparr>deaths := (deaths s)(a \<mapsto> x)\<rparr>"

definition set_transaction :: "addr \<Rightarrow> binder_transaction \<Rightarrow> driver \<Rightarrow> driver" where
  "set_transaction a x s = s\<lparr>transactions := (transactions s)(a \<mapsto> x)\<rparr>"

definition set_link :: "work \<Rightarrow> link \<Rightarrow> driver \<Rightarrow> driver" where
  "set_link w l s = s\<lparr>link_of := (link_of s)(w := l)\<rparr>"

section \<open>Work lists\<close>

text \<open>The head of a list is a field of an object, which must be there.\<close>

fun list_live :: "list_id \<Rightarrow> driver \<Rightarrow> bool" where
  "list_live (L_Proc p) s = (procs s p \<noteq> None)"
| "list_live (L_Thread t) s = (threads s t \<noteq> None)"
| "list_live (L_Async n) s = (nodes s n \<noteq> None)"
| "list_live (L_Delivered p) s = (procs s p \<noteq> None)"

definition unlink :: "work \<Rightarrow> link \<Rightarrow> driver \<Rightarrow> driver option" where
  "unlink w l' s =
     (case link_of s w of
        Unlinked \<Rightarrow> Some (set_link w l' s)
      | Linked l \<Rightarrow>
          if list_live l s
          then Some (set_link w l' (s\<lparr>items := (items s)(l := remove1 w (items s l))\<rparr>))
          else None
      | Wild \<Rightarrow> None)"

definition list_del :: "work \<Rightarrow> driver \<Rightarrow> driver option" where
  "list_del w s = unlink w Wild s"

definition list_del_init :: "work \<Rightarrow> driver \<Rightarrow> driver option" where
  "list_del_init w s = unlink w Unlinked s"

text \<open>Adding an item that is on a list would corrupt both lists.\<close>

definition list_add_tail :: "work \<Rightarrow> list_id \<Rightarrow> driver \<Rightarrow> driver option" where
  "list_add_tail w l s =
     (if list_live l s \<and> (\<forall>l'. link_of s w \<noteq> Linked l')
      then Some (set_link w (Linked l) (s\<lparr>items := (items s)(l := items s l @ [w])\<rparr>))
      else None)"

definition list_add :: "work \<Rightarrow> list_id \<Rightarrow> driver \<Rightarrow> driver option" where
  "list_add w l s =
     (if list_live l s \<and> (\<forall>l'. link_of s w \<noteq> Linked l')
      then Some (set_link w (Linked l) (s\<lparr>items := (items s)(l := w # items s l)\<rparr>))
      else None)"

definition link_empty :: "work \<Rightarrow> driver \<Rightarrow> bool" where
  "link_empty w s \<longleftrightarrow> link_of s w = Unlinked"

text \<open>The work item of a destroyed object is no longer part of the state.\<close>

definition drop_work :: "work \<Rightarrow> driver \<Rightarrow> driver" where
  "drop_work w s = set_link w Wild s"

end
