(* ===== verification/Binder_Refs.thy ===== *)
theory Binder_Refs
  imports Binder_State
begin

text \<open>
  Nodes and references: \<open>binder_get_node\<close>, \<open>binder_new_node\<close>, the reference counts of a
  node, the references of a process with their descriptors, and the destruction of both.
\<close>

section \<open>Nodes\<close>

definition node_key :: "driver \<Rightarrow> addr \<Rightarrow> nat option" where
  "node_key s n = map_option n_ptr (nodes s n)"

definition binder_get_node :: "driver \<Rightarrow> addr \<Rightarrow> nat \<Rightarrow> addr option option" where
  "binder_get_node s proc ptr =
     do {
       p \<leftarrow> procs s proc;
       rb_search (key_dir (node_key s) ptr) (pr_nodes p)
     }"

definition blank_node :: binder_node where
  "blank_node = \<lparr>n_debug_id = 0, n_proc = None, n_refs = [], n_internal_strong_refs = 0,
     n_local_weak_refs = 0, n_local_strong_refs = 0, n_ptr = 0, n_cookie = 0,
     n_has_strong_ref = False, n_pending_strong_ref = False, n_has_weak_ref = False,
     n_pending_weak_ref = False, n_has_async_transaction = False, n_accept_fds = False,
     n_min_priority = 0\<rparr>"

definition binder_new_node :: "kern \<Rightarrow> addr \<Rightarrow> nat \<Rightarrow> nat \<Rightarrow> driver \<Rightarrow> (addr option \<times> driver) option" where
  "binder_new_node K proc ptr cookie s =
     do {
       p \<leftarrow> procs s proc;
       found \<leftarrow> rb_search (key_dir (node_key s) ptr) (pr_nodes p);
       if found \<noteq> None then Some (None, s)
       else (case kmalloc K BINDER_STAT_NODE s of
         (None, s1) \<Rightarrow> Some (None, s1)
       | (Some node, s1) \<Rightarrow>
           do {
             t \<leftarrow> rb_link (key_dir (node_key s) ptr) node (pr_nodes p);
             t \<leftarrow> t;
             let s2 = binder_stats_created BINDER_STAT_NODE s1;
             let s3 = set_proc proc (p\<lparr>pr_nodes := rb_insert_color K node t\<rparr>) s2;
             let s4 = s3\<lparr>binder_last_id := Suc (binder_last_id s3)\<rparr>;
             let s5 = set_node node (blank_node\<lparr>n_debug_id := binder_last_id s4, n_proc := Some proc,
                                       n_ptr := ptr, n_cookie := cookie\<rparr>) s4;
             let s6 = set_link (W_Node node) Unlinked s5;
             Some (Some node, s6\<lparr>items := (items s6)(L_Async node := [])\<rparr>)
           })
     }"

section \<open>Counting on a node\<close>

definition binder_inc_node ::
  "addr \<Rightarrow> bool \<Rightarrow> bool \<Rightarrow> list_id option \<Rightarrow> driver \<Rightarrow> (int \<times> driver) option" where
  "binder_inc_node node strong internal target_list s =
     do {
       n \<leftarrow> nodes s node;
       if strong then
         if internal \<and> target_list = None \<and> n_internal_strong_refs n = 0
            \<and> \<not> (binder_context_mgr_node s = Some node \<and> n_has_strong_ref n)
         then Some (- EINVAL, s)
         else
           let n' = (if internal then n\<lparr>n_internal_strong_refs := n_internal_strong_refs n + 1\<rparr>
                     else n\<lparr>n_local_strong_refs := n_local_strong_refs n + 1\<rparr>);
               s1 = set_node node n' s
           in (case target_list of
                 Some l \<Rightarrow>
                   if \<not> n_has_strong_ref n then
                     do {
                       s2 \<leftarrow> list_del_init (W_Node node) s1;
                       s3 \<leftarrow> list_add_tail (W_Node node) l s2;
                       Some (0, s3)
                     }
                   else Some (0, s1)
               | None \<Rightarrow> Some (0, s1))
       else
         let n' = (if internal then n else n\<lparr>n_local_weak_refs := n_local_weak_refs n + 1\<rparr>);
             s1 = set_node node n' s
         in
         if \<not> n_has_weak_ref n \<and> link_empty (W_Node node) s1 then
           (case target_list of
              None \<Rightarrow> Some (- EINVAL, s1)
            | Some l \<Rightarrow> map_option (Pair 0) (list_add_tail (W_Node node) l s1))
         else Some (0, s1)
     }"

text \<open>The end of \<open>binder_dec_node\<close>: tell the owner, or free a node nobody refers to.\<close>

definition dec_node_settle :: "kern \<Rightarrow> addr \<Rightarrow> driver \<Rightarrow> driver option" where
  "dec_node_settle K node s =
     do {
       n \<leftarrow> nodes s node;
       if n_proc n \<noteq> None \<and> (n_has_strong_ref n \<or> n_has_weak_ref n) then
         if link_empty (W_Node node) s then list_add_tail (W_Node node) (L_Proc (the (n_proc n))) s
         else Some s
       else if n_refs n = [] \<and> n_local_strong_refs n = 0 \<and> n_local_weak_refs n = 0 then
         do {
           s1 \<leftarrow> list_del_init (W_Node node) s;
           s2 \<leftarrow> (case n_proc n of
                     Some proc \<Rightarrow>
                       do {
                         p \<leftarrow> procs s1 proc;
                         Some (set_proc proc (p\<lparr>pr_nodes := rb_erase K node (pr_nodes p)\<rparr>) s1)
                       }
                   | None \<Rightarrow> Some (s1\<lparr>binder_dead_nodes := remove1 node (binder_dead_nodes s1)\<rparr>));
           s3 \<leftarrow> kfree BINDER_STAT_NODE node s2;
           Some (binder_stats_deleted BINDER_STAT_NODE
                   (drop_work (W_Node node) (s3\<lparr>nodes := (nodes s3)(node := None)\<rparr>)))
         }
       else Some s
     }"

definition binder_dec_node :: "kern \<Rightarrow> addr \<Rightarrow> bool \<Rightarrow> bool \<Rightarrow> driver \<Rightarrow> (int \<times> driver) option" where
  "binder_dec_node K node strong internal s =
     do {
       n \<leftarrow> nodes s node;
       let n' = (if strong then
                   if internal then n\<lparr>n_internal_strong_refs := n_internal_strong_refs n - 1\<rparr>
                   else n\<lparr>n_local_strong_refs := n_local_strong_refs n - 1\<rparr>
                 else if internal then n
                 else n\<lparr>n_local_weak_refs := n_local_weak_refs n - 1\<rparr>);
       let s1 = set_node node n' s;
       if (if strong then n_local_strong_refs n' \<noteq> 0 \<or> n_internal_strong_refs n' \<noteq> 0
           else n_local_weak_refs n' \<noteq> 0 \<or> n_refs n' \<noteq> [])
       then Some (0, s1)
       else map_option (Pair 0) (dec_node_settle K node s1)
     }"

section \<open>References\<close>

definition desc_key :: "driver \<Rightarrow> addr \<Rightarrow> nat option" where
  "desc_key s r = map_option r_desc (refs s r)"

definition ref_node_key :: "driver \<Rightarrow> addr \<Rightarrow> addr option" where
  "ref_node_key s r = map_option r_node (refs s r)"

definition binder_get_ref :: "driver \<Rightarrow> addr \<Rightarrow> nat \<Rightarrow> addr option option" where
  "binder_get_ref s proc desc =
     do {
       p \<leftarrow> procs s proc;
       rb_search (key_dir (desc_key s) desc) (pr_refs_by_desc p)
     }"

text \<open>The loop over \<open>refs_by_desc\<close> that looks for a free descriptor, and its start value.\<close>

fun next_desc :: "nat \<Rightarrow> nat list \<Rightarrow> nat" where
  "next_desc d [] = d"
| "next_desc d (x # xs) = (if x > d then d else next_desc ((x + 1) mod 2 ^ 32) xs)"

definition first_desc :: "driver \<Rightarrow> addr \<Rightarrow> nat" where
  "first_desc s node = (if binder_context_mgr_node s = Some node then 0 else 1)"

definition binder_get_ref_for_node :: "kern \<Rightarrow> addr \<Rightarrow> addr \<Rightarrow> driver \<Rightarrow> (addr option \<times> driver) option" where
  "binder_get_ref_for_node K proc node s =
     do {
       p \<leftarrow> procs s proc;
       found \<leftarrow> rb_search (key_dir (ref_node_key s) node) (pr_refs_by_node p);
       case found of
         Some ref \<Rightarrow> Some (Some ref, s)
       | None \<Rightarrow> (case kmalloc K BINDER_STAT_REF s of
           (None, s1) \<Rightarrow> Some (None, s1)
         | (Some new_ref, s1) \<Rightarrow>
             do {
               let s2 = binder_stats_created BINDER_STAT_REF s1;
               let s3 = s2\<lparr>binder_last_id := Suc (binder_last_id s2)\<rparr>;
               tn \<leftarrow> rb_link (key_dir (ref_node_key s) node) new_ref (pr_refs_by_node p);
               tn \<leftarrow> tn;
               let descs = map (\<lambda>r. the (desc_key s r)) (inorder (pr_refs_by_desc p));
               let desc = next_desc (first_desc s node) descs;
               td \<leftarrow> rb_link (key_dir (desc_key s) desc) new_ref (pr_refs_by_desc p);
               td \<leftarrow> td;
               n \<leftarrow> nodes s3 node;
               let s4 = set_proc proc (p\<lparr>pr_refs_by_node := rb_insert_color K new_ref tn,
                                         pr_refs_by_desc := rb_insert_color K new_ref td\<rparr>) s3;
               let s5 = set_ref new_ref \<lparr>r_debug_id = binder_last_id s4, r_proc = proc, r_node = node,
                                         r_desc = desc, r_strong = 0, r_weak = 0, r_death = None\<rparr> s4;
               Some (Some new_ref, set_node node (n\<lparr>n_refs := new_ref # n_refs n\<rparr>) s5)
             })
     }"

definition free_ref_death :: "addr option \<Rightarrow> driver \<Rightarrow> driver option" where
  "free_ref_death death s =
     (case death of
        None \<Rightarrow> Some s
      | Some d \<Rightarrow>
          do {
            s1 \<leftarrow> list_del (W_Death d) s;
            s2 \<leftarrow> kfree BINDER_STAT_DEATH d s1;
            Some (binder_stats_deleted BINDER_STAT_DEATH (s2\<lparr>deaths := (deaths s2)(d := None)\<rparr>))
          })"

definition binder_delete_ref :: "kern \<Rightarrow> addr \<Rightarrow> driver \<Rightarrow> driver option" where
  "binder_delete_ref K ref s =
     do {
       r \<leftarrow> refs s ref;
       n0 \<leftarrow> nodes s (r_node r);
       p \<leftarrow> procs s (r_proc r);
       let s1 = set_proc (r_proc r) (p\<lparr>pr_refs_by_desc := rb_erase K ref (pr_refs_by_desc p),
                                       pr_refs_by_node := rb_erase K ref (pr_refs_by_node p)\<rparr>) s;
       s2 \<leftarrow> (if r_strong r \<noteq> 0 then map_option snd (binder_dec_node K (r_node r) True True s1) else Some s1);
       n \<leftarrow> nodes s2 (r_node r);
       let s3 = set_node (r_node r) (n\<lparr>n_refs := remove1 ref (n_refs n)\<rparr>) s2;
       s4 \<leftarrow> map_option snd (binder_dec_node K (r_node r) False True s3);
       s5 \<leftarrow> free_ref_death (r_death r) s4;
       s6 \<leftarrow> kfree BINDER_STAT_REF ref s5;
       Some (binder_stats_deleted BINDER_STAT_REF (s6\<lparr>refs := (refs s6)(ref := None)\<rparr>))
     }"

definition binder_inc_ref :: "addr \<Rightarrow> bool \<Rightarrow> list_id option \<Rightarrow> driver \<Rightarrow> (int \<times> driver) option" where
  "binder_inc_ref ref strong target_list s =
     do {
       r \<leftarrow> refs s ref;
       (ret, s1) \<leftarrow> (if (if strong then r_strong r = 0 else r_weak r = 0)
                     then binder_inc_node (r_node r) strong True target_list s else Some (0, s));
       if ret \<noteq> 0 then Some (ret, s1)
       else Some (0, set_ref ref (if strong then r\<lparr>r_strong := r_strong r + 1\<rparr>
                                  else r\<lparr>r_weak := r_weak r + 1\<rparr>) s1)
     }"

definition binder_dec_ref :: "kern \<Rightarrow> addr \<Rightarrow> bool \<Rightarrow> driver \<Rightarrow> (int \<times> driver) option" where
  "binder_dec_ref K ref strong s =
     do {
       r \<leftarrow> refs s ref;
       if (if strong then r_strong r = 0 else r_weak r = 0) then Some (- EINVAL, s)
       else do {
         let r' = (if strong then r\<lparr>r_strong := r_strong r - 1\<rparr> else r\<lparr>r_weak := r_weak r - 1\<rparr>);
         let s1 = set_ref ref r' s;
         (ret, s2) \<leftarrow> (if strong \<and> r_strong r' = 0 then binder_dec_node K (r_node r) True True s1
                       else Some (0, s1));
         if ret \<noteq> 0 then Some (ret, s2)
         else if r_strong r' = 0 \<and> r_weak r' = 0 then map_option (Pair 0) (binder_delete_ref K ref s2)
         else Some (0, s2)
       }
     }"

end
