(* ===== verification/Binder_Log.thy ===== *)
theory Binder_Log
  imports Binder_State
begin

text \<open>
  The ring of transaction log entries: \<open>binder_transaction_log_add\<close> takes the next slot,
  clears it and advances; \<open>log_put\<close> is the caller's writes through the pointer it was given.
  \<open>log_contents\<close> reads the ring from the oldest entry to the newest, the way the debug
  printer does.
\<close>

definition LOG_SIZE :: nat where
  "LOG_SIZE = 32"

definition zero_entry :: log_entry where
  "zero_entry = \<lparr>e_debug_id = 0, e_call_type = 0, e_from_proc = 0, e_from_thread = 0, e_target_handle = 0,
     e_to_proc = 0, e_to_thread = 0, e_to_node = 0, e_data_size = 0, e_offsets_size = 0\<rparr>"

definition empty_log :: binder_transaction_log where
  "empty_log = \<lparr>log_next = 0, log_full = False, log_entries = replicate LOG_SIZE zero_entry\<rparr>"

definition binder_transaction_log_add :: "binder_transaction_log \<Rightarrow> nat \<times> binder_transaction_log" where
  "binder_transaction_log_add log =
     (let i = log_next log; n = Suc i;
          log1 = log\<lparr>log_entries := (log_entries log)[i := zero_entry]\<rparr>
      in (i, if n = length (log_entries log) then log1\<lparr>log_next := 0, log_full := True\<rparr>
             else log1\<lparr>log_next := n\<rparr>))"

definition log_put :: "nat \<Rightarrow> log_entry \<Rightarrow> binder_transaction_log \<Rightarrow> binder_transaction_log" where
  "log_put i e log = log\<lparr>log_entries := (log_entries log)[i := e]\<rparr>"

text \<open>\<open>binder_transaction_log_show\<close>: the entries after \<open>next\<close> when the ring is full, then those before.\<close>

definition log_contents :: "binder_transaction_log \<Rightarrow> log_entry list" where
  "log_contents log =
     (if log_full log then drop (log_next log) (log_entries log) else [])
       @ take (log_next log) (log_entries log)"

definition log_ok :: "binder_transaction_log \<Rightarrow> bool" where
  "log_ok log \<longleftrightarrow> length (log_entries log) = LOG_SIZE \<and> log_next log < LOG_SIZE"

definition log_write :: "log_entry \<Rightarrow> binder_transaction_log \<Rightarrow> binder_transaction_log" where
  "log_write e log = (case binder_transaction_log_add log of (i, log1) \<Rightarrow> log_put i e log1)"

lemma empty_log_ok: "log_ok empty_log" and empty_log_contents: "log_contents empty_log = []"
  by (simp_all add: log_ok_def empty_log_def LOG_SIZE_def log_contents_def)

lemma log_write_ok:
  assumes "log_ok log"
  shows "log_ok (log_write e log)"
    and "log_contents (log_write e log) =
      (if length (log_contents log) = LOG_SIZE then tl (log_contents log) else log_contents log) @ [e]"
    and "length (log_contents log) \<le> LOG_SIZE"
proof -
  let ?n = "log_next log" and ?es = "log_entries log"
  have len: "length ?es = LOG_SIZE" "?n < LOG_SIZE" using assms by (simp_all add: log_ok_def)
  show "log_ok (log_write e log)"
    using len by (auto simp: log_write_def binder_transaction_log_add_def log_put_def log_ok_def Let_def)
  have take: "take (Suc ?n) (?es[?n := e]) = take ?n ?es @ [e]"
    using len by (simp add: take_Suc_conv_app_nth)
  have drop: "drop (Suc ?n) (?es[?n := e]) = drop (Suc ?n) ?es" by simp
  have hd: "drop ?n ?es = ?es ! ?n # drop (Suc ?n) ?es" using len by (simp add: Cons_nth_drop_Suc)
  have full: "length (log_contents log) = (if log_full log then LOG_SIZE else ?n)"
    using len by (simp add: log_contents_def)
  then show "length (log_contents log) \<le> LOG_SIZE" using len by simp
  have w: "log_write e log =
     (if Suc ?n = LOG_SIZE then log\<lparr>log_entries := ?es[?n := e], log_next := 0, log_full := True\<rparr>
      else log\<lparr>log_entries := ?es[?n := e], log_next := Suc ?n\<rparr>)"
    using len by (simp add: log_write_def binder_transaction_log_add_def log_put_def Let_def)
  show "log_contents (log_write e log) =
      (if length (log_contents log) = LOG_SIZE then tl (log_contents log) else log_contents log) @ [e]"
  proof (cases "Suc ?n = LOG_SIZE")
    case True
    have "?es[?n := e] = take ?n ?es @ [e]"
      using take len True by simp
    moreover have "drop (Suc ?n) ?es = []" using len True by simp
    ultimately show ?thesis
      using True len hd unfolding w full by (simp add: log_contents_def)
  next
    case False
    then show ?thesis using len hd unfolding w full by (simp add: log_contents_def take)
  qed
qed

text \<open>A sequence of writes keeps the newest entries, at most as many as the ring has slots.\<close>

lemma log_writes:
  assumes "log_ok log"
  shows "log_ok (fold log_write es log)"
    and "\<exists>k. log_contents (fold log_write es log) = drop k (log_contents log @ es)
           \<and> length (log_contents (fold log_write es log)) = min LOG_SIZE (length (log_contents log) + length es)"
  using assms
proof (induction es arbitrary: log)
  case Nil
  {
    case 1
    then show ?case by simp
  next
    case 2
    then show ?case using log_write_ok(3) [OF 2] by (intro exI [of _ 0]) simp
  }
next
  case (Cons e es)
  {
    case 1
    then show ?case using Cons.IH(1) [OF log_write_ok(1) [OF 1]] by simp
  next
    case 2
    let ?l = "log_write e log"
    note w = log_write_ok(1,2) [OF 2, of e] log_write_ok(3) [OF 2]
    obtain k where k: "log_contents (fold log_write es ?l) = drop k (log_contents ?l @ es)"
      "length (log_contents (fold log_write es ?l)) = min LOG_SIZE (length (log_contents ?l) + length es)"
      using Cons.IH(2) [OF w(1)] by blast
    show ?case
    proof (cases "length (log_contents log) = LOG_SIZE")
      case True
      then have ne: "log_contents log \<noteq> []" by (auto simp: LOG_SIZE_def)
      have "drop k (tl (log_contents log) @ e # es) = drop (Suc k) (log_contents log @ e # es)"
        using ne by (cases "log_contents log") simp_all
      then show ?thesis using k w True ne
        by (intro exI [of _ "Suc k"]) (simp add: min_def)
    next
      case False
      then show ?thesis using k w by (intro exI [of _ k]) simp
    qed
  }
qed

end
