(* ===== verification/Binder_Object.thy ===== *)
theory Binder_Object
  imports Binder_Refs Binder_Log
begin

text \<open>
  What transactions are made of: little-endian words in a buffer, the flattened objects a
  buffer carries, file descriptors and priorities of other tasks, the transaction stack, and
  the release of what a buffer refers to.
\<close>

section \<open>Words in memory\<close>

definition le32 :: "byte \<Rightarrow> byte \<Rightarrow> byte \<Rightarrow> byte \<Rightarrow> nat" where
  "le32 b0 b1 b2 b3 = unat b0 + 256 * unat b1 + 65536 * unat b2 + 16777216 * unat b3"

definition le_bytes :: "nat \<Rightarrow> byte list" where
  "le_bytes v = [word_of_nat v, word_of_nat (v div 256), word_of_nat (v div 65536), word_of_nat (v div 16777216)]"

definition get_u32 :: "(nat \<Rightarrow> byte) \<Rightarrow> nat \<Rightarrow> nat" where
  "get_u32 m off = le32 (m off) (m (off + 1)) (m (off + 2)) (m (off + 3))"

definition put_bytes :: "(nat \<Rightarrow> byte) \<Rightarrow> nat \<Rightarrow> byte list \<Rightarrow> nat \<Rightarrow> byte" where
  "put_bytes m off bs i = (if off \<le> i \<and> i < off + length bs then bs ! (i - off) else m i)"

definition put_u32 :: "(nat \<Rightarrow> byte) \<Rightarrow> nat \<Rightarrow> nat \<Rightarrow> nat \<Rightarrow> byte" where
  "put_u32 m off v = put_bytes m off (le_bytes v)"

section \<open>Flattened objects\<close>

definition B_PACK_CHARS :: "nat \<Rightarrow> nat \<Rightarrow> nat \<Rightarrow> nat \<Rightarrow> nat" where
  "B_PACK_CHARS c1 c2 c3 c4 = c1 * 2 ^ 24 + c2 * 2 ^ 16 + c3 * 2 ^ 8 + c4"

definition BINDER_TYPE_BINDER :: nat where "BINDER_TYPE_BINDER = B_PACK_CHARS 0x73 0x62 0x2a 0x85"
definition BINDER_TYPE_WEAK_BINDER :: nat where "BINDER_TYPE_WEAK_BINDER = B_PACK_CHARS 0x77 0x62 0x2a 0x85"
definition BINDER_TYPE_HANDLE :: nat where "BINDER_TYPE_HANDLE = B_PACK_CHARS 0x73 0x68 0x2a 0x85"
definition BINDER_TYPE_WEAK_HANDLE :: nat where "BINDER_TYPE_WEAK_HANDLE = B_PACK_CHARS 0x77 0x68 0x2a 0x85"
definition BINDER_TYPE_FD :: nat where "BINDER_TYPE_FD = B_PACK_CHARS 0x66 0x64 0x2a 0x85"

text \<open>\<open>struct flat_binder_object\<close>: type, flags, the union and the cookie, four bytes each.\<close>

definition sizeof_flat :: nat where "sizeof_flat = 16"

definition fp_type :: "(nat \<Rightarrow> byte) \<Rightarrow> nat \<Rightarrow> nat" where "fp_type m off = get_u32 m off"
definition fp_flags :: "(nat \<Rightarrow> byte) \<Rightarrow> nat \<Rightarrow> nat" where "fp_flags m off = get_u32 m (off + 4)"
definition fp_handle :: "(nat \<Rightarrow> byte) \<Rightarrow> nat \<Rightarrow> nat" where "fp_handle m off = get_u32 m (off + 8)"
definition fp_cookie :: "(nat \<Rightarrow> byte) \<Rightarrow> nat \<Rightarrow> nat" where "fp_cookie m off = get_u32 m (off + 12)"

text \<open>
  The check both loops make on an offset: room for an object in front of the end of the data,
  and alignment. The subtraction is that of \<open>size_t\<close>.
\<close>

definition bad_offset :: "kern \<Rightarrow> nat \<Rightarrow> nat \<Rightarrow> bool" where
  "bad_offset K off data_size \<longleftrightarrow>
     off > szsub (ptr_bytes K) data_size sizeof_flat \<or> data_size < sizeof_flat \<or> off mod 4 \<noteq> 0"

text \<open>Where the offsets start in the data of a buffer.\<close>

definition offsets_start :: "kern \<Rightarrow> nat \<Rightarrow> nat" where
  "offsets_start K data_size = align_up (ptr_bytes K) data_size 4"

section \<open>Buffers\<close>

definition buf_get :: "driver \<Rightarrow> addr \<times> addr \<Rightarrow> binder_buffer option" where
  "buf_get s b = do { p \<leftarrow> procs s (fst b); p_heap (pr_alloc p) (snd b) }"

definition buf_set :: "addr \<times> addr \<Rightarrow> binder_buffer \<Rightarrow> driver \<Rightarrow> driver option" where
  "buf_set b h s =
     do {
       p \<leftarrow> procs s (fst b);
       let a = pr_alloc p;
       Some (set_proc (fst b) (p\<lparr>pr_alloc := a\<lparr>p_heap := (p_heap a)(snd b \<mapsto> h)\<rparr>\<rparr>) s)
     }"

definition free_buffer :: "kern \<Rightarrow> addr \<times> addr \<Rightarrow> driver \<Rightarrow> driver option" where
  "free_buffer K b s =
     do {
       p \<leftarrow> procs s (fst b);
       a \<leftarrow> binder_free_buf K (pr_alloc p) (snd b);
       Some (set_proc (fst b) (p\<lparr>pr_alloc := a\<rparr>) s)
     }"

section \<open>Files and priorities\<close>

definition ESRCH :: int where "ESRCH = 3"
definition EMFILE :: int where "EMFILE = 24"

definition tick :: "driver \<Rightarrow> driver" where
  "tick s = s\<lparr>ticks := Suc (ticks s)\<rparr>"

definition task_get_unused_fd_flags :: "kern \<Rightarrow> addr \<Rightarrow> driver \<Rightarrow> (int \<times> driver) option" where
  "task_get_unused_fd_flags K proc s =
     do {
       p \<leftarrow> procs s proc;
       if p_files (pr_alloc p) = None then Some (- ESRCH, s)
       else if \<not> lock_sighand K (ticks s) then Some (- EMFILE, tick s)
       else Some (alloc_fd K (ticks s), tick s)
     }"

definition task_fd_install :: "addr \<Rightarrow> nat \<Rightarrow> nat \<Rightarrow> driver \<Rightarrow> driver option" where
  "task_fd_install proc fd file s =
     do {
       p \<leftarrow> procs s proc;
       Some (case p_files (pr_alloc p) of
               None \<Rightarrow> s
             | Some f \<Rightarrow> s\<lparr>fd_table := (fd_table s)(f := (fd_table s f)(fd \<mapsto> file))\<rparr>)
     }"

text \<open>The result of \<open>task_close_fd\<close> is not used by its callers.\<close>

definition task_close_fd :: "kern \<Rightarrow> addr \<Rightarrow> nat \<Rightarrow> driver \<Rightarrow> (int \<times> driver) option" where
  "task_close_fd K proc fd s =
     do {
       p \<leftarrow> procs s proc;
       Some (case p_files (pr_alloc p) of
               None \<Rightarrow> (- ESRCH, s)
             | Some f \<Rightarrow> (close_fd K (ticks s), (tick s)\<lparr>fd_table := (fd_table s)(f := (fd_table s f)(fd := None))\<rparr>))
     }"

definition binder_set_nice :: "kern \<Rightarrow> nat \<Rightarrow> int \<Rightarrow> driver \<Rightarrow> driver" where
  "binder_set_nice K current nice s =
     (if can_nice K current nice then s\<lparr>nice_of := (nice_of s)(current := nice)\<rparr>
      else s\<lparr>nice_of := (nice_of s)(current := 20 - rlim_nice K current)\<rparr>)"

section \<open>User memory\<close>

text \<open>
  A range that passes the end of the address space faults; nothing is read for a length of
  zero. \<open>copy_to_user\<close> records what it wrote.
\<close>

definition copy_from_user :: "kern \<Rightarrow> nat \<Rightarrow> nat \<Rightarrow> driver \<Rightarrow> byte list option \<times> driver" where
  "copy_from_user K addr len s =
     (if len = 0 then Some []
      else if addr + len < 2 ^ (8 * ptr_bytes K) then u_read K (ticks s) addr len else None, tick s)"

definition get_user :: "kern \<Rightarrow> nat \<Rightarrow> driver \<Rightarrow> nat option \<times> driver" where
  "get_user K addr s =
     (case copy_from_user K addr 4 s of
        (None, s1) \<Rightarrow> (None, s1)
      | (Some bs, s1) \<Rightarrow> (Some (get_u32 (\<lambda>i. bs ! i) 0), s1))"

definition copy_to_user :: "kern \<Rightarrow> nat \<Rightarrow> byte list \<Rightarrow> driver \<Rightarrow> bool \<times> driver" where
  "copy_to_user K addr bs s =
     (if addr + length bs < 2 ^ (8 * ptr_bytes K) \<and> u_write K (ticks s) addr (length bs)
      then (True, (tick s)\<lparr>user_out := user_out s @ [(addr, bs)]\<rparr>)
      else (False, tick s))"

definition put_user :: "kern \<Rightarrow> nat \<Rightarrow> nat \<Rightarrow> driver \<Rightarrow> bool \<times> driver" where
  "put_user K addr v s = copy_to_user K addr (le_bytes v) s"

section \<open>The transaction stack\<close>

definition TF_ONE_WAY :: "32 word" where "TF_ONE_WAY = 0x01"
definition TF_ACCEPT_FDS :: "32 word" where "TF_ACCEPT_FDS = 0x10"

text \<open>\<open>binder_pop_transaction\<close> in three steps: the stack, the buffer, and the transaction.\<close>

definition pop_stack :: "addr option \<Rightarrow> addr \<Rightarrow> binder_transaction \<Rightarrow> driver \<Rightarrow> driver option" where
  "pop_stack target_thread t x s =
     (case target_thread of
        None \<Rightarrow> Some s
      | Some th \<Rightarrow>
          do {
            h \<leftarrow> threads s th;
            if th_transaction_stack h \<noteq> Some t \<or> t_from x \<noteq> Some th then None
            else Some (set_thread th (h\<lparr>th_transaction_stack := t_from_parent x\<rparr>) s)
          })"

definition clear_buffer :: "(addr \<times> addr) option \<Rightarrow> driver \<Rightarrow> driver option" where
  "clear_buffer bo s =
     (case bo of
        None \<Rightarrow> Some s
      | Some b \<Rightarrow> do { h \<leftarrow> buf_get s b; buf_set b (h\<lparr>b_transaction := None\<rparr>) s })"

definition free_transaction :: "addr \<Rightarrow> driver \<Rightarrow> driver option" where
  "free_transaction t s =
     do {
       s1 \<leftarrow> kfree BINDER_STAT_TRANSACTION t s;
       Some (binder_stats_deleted BINDER_STAT_TRANSACTION
               (drop_work (W_Transaction t) (s1\<lparr>transactions := (transactions s1)(t := None)\<rparr>)))
     }"

definition binder_pop_transaction :: "addr option \<Rightarrow> addr \<Rightarrow> driver \<Rightarrow> driver option" where
  "binder_pop_transaction target_thread t s =
     do {
       x \<leftarrow> transactions s t;
       s1 \<leftarrow> pop_stack target_thread t x s;
       s2 \<leftarrow> clear_buffer (t_buffer x) s1;
       free_transaction t s2
     }"

lemma buf_set_live: "buf_set b h s = Some s' \<Longrightarrow> live s' = live s"
  by (auto simp: buf_set_def set_proc_def Let_def split: bind_splits)

lemma pop_stack_live: "pop_stack tt t x s = Some s' \<Longrightarrow> live s' = live s"
  by (auto simp: pop_stack_def set_thread_def split: option.splits bind_splits if_splits)

lemma clear_buffer_live: "clear_buffer bo s = Some s' \<Longrightarrow> live s' = live s"
  by (auto simp: clear_buffer_def dest: buf_set_live split: option.splits bind_splits)

lemma free_transaction_live:
  "free_transaction t s = Some s' \<Longrightarrow>
     (BINDER_STAT_TRANSACTION, t) \<in> set (live s) \<and> live s' = remove1 (BINDER_STAT_TRANSACTION, t) (live s)"
  by (auto simp: free_transaction_def kfree_def binder_stats_deleted_def drop_work_def set_link_def split: bind_splits if_splits)

lemma pop_shrinks:
  assumes "binder_pop_transaction tt t s = Some s'"
  shows "length (live s') < length (live s)"
proof -
  from assms obtain x s1 s2 where "pop_stack tt t x s = Some s1" "clear_buffer (t_buffer x) s1 = Some s2"
    "free_transaction t s2 = Some s'"
    by (auto simp: binder_pop_transaction_def bind_eq_Some_conv)
  then have "live s2 = live s" "(BINDER_STAT_TRANSACTION, t) \<in> set (live s2)"
    "live s' = remove1 (BINDER_STAT_TRANSACTION, t) (live s2)"
    using pop_stack_live clear_buffer_live free_transaction_live by metis+
  then show ?thesis using length_pos_if_in_set by (fastforce simp: length_remove1)
qed

text \<open>
  The error to a thread that waits for the reply \<open>t\<close>: delivered when the thread has no other
  error pending, and passed on to the parent transaction when the sender is gone. The loop
  ends because each round frees a transaction.
\<close>

definition thread_error :: "addr \<Rightarrow> addr \<Rightarrow> br_code \<Rightarrow> driver \<Rightarrow> driver option" where
  "thread_error th t error_code s =
     do {
       h \<leftarrow> threads s th;
       let h1 = (if th_return_error h \<noteq> BR_OK \<and> th_return_error2 h = BR_OK
                 then h\<lparr>th_return_error2 := th_return_error h, th_return_error := BR_OK\<rparr> else h);
       let s1 = set_thread th h1 s;
       if th_return_error h1 = BR_OK then
         do {
           s2 \<leftarrow> binder_pop_transaction (Some th) t s1;
           h2 \<leftarrow> threads s2 th;
           Some (set_thread th (h2\<lparr>th_return_error := error_code\<rparr>) s2)
         }
       else Some s1
     }"

function send_failed_reply_loop :: "addr \<Rightarrow> br_code \<Rightarrow> driver \<Rightarrow> driver option" where
  "send_failed_reply_loop t error_code s =
     (case transactions s t of
        None \<Rightarrow> None
      | Some x \<Rightarrow>
          (case t_from x of
             Some th \<Rightarrow> thread_error th t error_code s
           | None \<Rightarrow>
               (case binder_pop_transaction None t s of
                  None \<Rightarrow> None
                | Some s1 \<Rightarrow>
                    (case t_from_parent x of
                       None \<Rightarrow> Some s1
                     | Some next_t \<Rightarrow> send_failed_reply_loop next_t error_code s1))))"
  by pat_completeness auto
termination
  by (relation "measure (\<lambda>(t, e, s). length (live s))") (auto dest: pop_shrinks)

declare send_failed_reply_loop.simps [simp del]

definition binder_send_failed_reply :: "addr \<Rightarrow> br_code \<Rightarrow> driver \<Rightarrow> driver option" where
  "binder_send_failed_reply t error_code s =
     do {
       x \<leftarrow> transactions s t;
       if t_flags x AND TF_ONE_WAY \<noteq> 0 then None
       else send_failed_reply_loop t error_code s
     }"

section \<open>Releasing what a buffer refers to\<close>

text \<open>One round of the loop over the offsets. Results of the counting functions are ignored.\<close>

definition release_object :: "kern \<Rightarrow> addr \<Rightarrow> (nat \<Rightarrow> byte) \<Rightarrow> nat \<Rightarrow> bool \<Rightarrow> driver \<Rightarrow> driver option" where
  "release_object K proc m off failed s =
     (let ty = fp_type m off in
      if ty = BINDER_TYPE_BINDER \<or> ty = BINDER_TYPE_WEAK_BINDER then
        do {
          found \<leftarrow> binder_get_node s proc (fp_handle m off);
          (case found of
             None \<Rightarrow> Some s
           | Some node \<Rightarrow> map_option snd (binder_dec_node K node (ty = BINDER_TYPE_BINDER) False s))
        }
      else if ty = BINDER_TYPE_HANDLE \<or> ty = BINDER_TYPE_WEAK_HANDLE then
        do {
          found \<leftarrow> binder_get_ref s proc (fp_handle m off);
          (case found of
             None \<Rightarrow> Some s
           | Some ref \<Rightarrow> map_option snd (binder_dec_ref K ref (ty = BINDER_TYPE_HANDLE) s))
        }
      else if ty = BINDER_TYPE_FD then
        (if failed then map_option snd (task_close_fd K proc (fp_handle m off) s) else Some s)
      else Some s)"

fun release_loop :: "kern \<Rightarrow> addr \<Rightarrow> binder_buffer \<Rightarrow> bool \<Rightarrow> nat \<Rightarrow> nat \<Rightarrow> driver \<Rightarrow> driver option" where
  "release_loop K proc h failed i 0 s = Some s"
| "release_loop K proc h failed i (Suc n) s =
     (let off = get_u32 (b_data h) (offsets_start K (b_data_size h) + 4 * i) in
      do {
        s1 \<leftarrow> (if bad_offset K off (b_data_size h) then Some s
                else release_object K proc (b_data h) off failed s);
        release_loop K proc h failed (Suc i) n s1
      })"

text \<open>
  \<open>failed_at\<close> is the index of the offset a translation stopped at; without it all offsets
  are released.
\<close>

definition binder_transaction_buffer_release ::
  "kern \<Rightarrow> addr \<Rightarrow> addr \<times> addr \<Rightarrow> nat option \<Rightarrow> driver \<Rightarrow> driver option" where
  "binder_transaction_buffer_release K proc b failed_at s =
     do {
       h \<leftarrow> buf_get s b;
       s1 \<leftarrow> (case b_target_node h of
                 None \<Rightarrow> Some s
               | Some node \<Rightarrow> map_option snd (binder_dec_node K node True False s));
       release_loop K proc h (failed_at \<noteq> None) 0
         (case failed_at of Some i \<Rightarrow> i | None \<Rightarrow> (b_offsets_size h + 3) div 4) s1
     }"

end
