(* ===== verification/Words.thy ===== *)
theory Words
  imports Binder_Object
begin

text \<open>Words of four and two bytes in memory: reading gives back what was written.\<close>

lemma unat_byte: "unat (word_of_nat v :: byte) = v mod 256"
  by (simp add: unsigned_of_nat take_bit_eq_mod)

lemma digits4: "v mod 256 + 256 * (v div 256 mod 256) + 65536 * (v div 65536 mod 256) + 16777216 * (v div 16777216 mod 256) = v mod 2 ^ 32" for v :: nat
proof -
  have "v mod (256 * 16777216) = 256 * (v div 256 mod 16777216) + v mod 256" by (rule mod_mult2_eq)
  moreover have "v div 256 mod (256 * 65536) = 256 * (v div 256 div 256 mod 65536) + v div 256 mod 256" by (rule mod_mult2_eq)
  moreover have "v div 256 div 256 mod (256 * 256) = 256 * (v div 256 div 256 div 256 mod 256) + v div 256 div 256 mod 256"
    by (rule mod_mult2_eq)
  ultimately show ?thesis by (simp add: div_mult2_eq [symmetric])
qed

lemma le32_bytes: "le32 (word_of_nat v) (word_of_nat (v div 256)) (word_of_nat (v div 65536)) (word_of_nat (v div 16777216)) = v mod 2 ^ 32"
  by (simp only: le32_def unat_byte digits4)

lemma le_bytes_length [simp]: "length (le_bytes v) = 4"
  by (simp add: le_bytes_def)

lemma le_bytes_nth: "le_bytes v ! 0 = word_of_nat v" "le_bytes v ! 1 = word_of_nat (v div 256)"
  "le_bytes v ! 2 = word_of_nat (v div 65536)" "le_bytes v ! 3 = word_of_nat (v div 16777216)"
  by (simp_all add: le_bytes_def numeral_2_eq_2 numeral_3_eq_3)

lemma get_put_u32: "get_u32 (put_u32 m off v) off = v mod 2 ^ 32"
  by (simp add: get_u32_def put_u32_def put_bytes_def le_bytes_nth le_bytes_nth(2) [simplified] le32_bytes)

lemma get_put_u32_other: "off + 4 \<le> off' \<or> off' + 4 \<le> off \<Longrightarrow> get_u32 (put_u32 m off v) off' = get_u32 m off'"
  by (auto simp: get_u32_def put_u32_def put_bytes_def)

lemma get_le_bytes: "get_u32 (\<lambda>i. (as @ le_bytes v @ bs) ! i) (length as) = v mod 2 ^ 32"
  by (simp add: get_u32_def nth_append le_bytes_nth le_bytes_nth(2) [simplified] le32_bytes)

lemma get_word:
  assumes "i < length ws"
  shows "get_u32 (\<lambda>i. concat (map le_bytes ws) ! i) (4 * i) = ws ! i mod 2 ^ 32"
proof -
  have "length (concat (map le_bytes xs)) = 4 * length xs" for xs :: "nat list"
    by (induction xs) simp_all
  then have "length (concat (map le_bytes (take i ws))) = 4 * i" using assms by simp
  moreover have "concat (map le_bytes ws) =
      concat (map le_bytes (take i ws)) @ le_bytes (ws ! i) @ concat (map le_bytes (drop (Suc i) ws))"
    using id_take_nth_drop [OF assms] by (metis (no_types) concat.simps(2) concat_append list.simps(9) map_append)
  ultimately show ?thesis using get_le_bytes by metis
qed

end
