(* ===== verification/Parcel_State.thy ===== *)
theory Parcel_State
  imports Arrays Words
begin

text \<open>
  The state of a \<^verbatim>\<open>Parcel\<close> (\<^verbatim>\<open>src/src/lib/binder/Parcel.cpp\<close>) in a 32-bit process, what its
  operations need from the process, and the operations that manage its memory and the
  references it holds. An access outside a block, through the null pointer or to a freed
  block is \<open>None\<close>. Arithmetic on \<^verbatim>\<open>size_t\<close> is that of four bytes, \<open>szt 4\<close>.
\<close>

section \<open>Blocks of the heap\<close>

datatype 'a block = Null | Freed | Block "'a list"

definition block_get :: "'a block \<Rightarrow> nat \<Rightarrow> 'a option" where
  "block_get b i = (case b of Block xs \<Rightarrow> load_at xs i | _ \<Rightarrow> None)"

definition block_put :: "'a block \<Rightarrow> nat \<Rightarrow> 'a list \<Rightarrow> 'a block option" where
  "block_put b i xs = (case b of Block ys \<Rightarrow> map_option Block (put_at ys i xs) | _ \<Rightarrow> None)"

definition block_read :: "'a block \<Rightarrow> nat \<Rightarrow> nat \<Rightarrow> 'a list option" where
  "block_read b i n = (case b of Block xs \<Rightarrow> if i + n \<le> length xs then Some (take n (drop i xs)) else None | _ \<Rightarrow> None)"

section \<open>Objects and references\<close>

record flat_binder =
  f_type :: nat
  f_flags :: nat
  f_handle :: nat
  f_cookie :: nat

definition flat_bytes :: "flat_binder \<Rightarrow> byte list" where
  "flat_bytes f = concat (map le_bytes [f_type f, f_flags f, f_handle f, f_cookie f])"

definition flat_at :: "byte block \<Rightarrow> nat \<Rightarrow> flat_binder option" where
  "flat_at b off = do {
    xs \<leftarrow> block_read b off sizeof_flat;
    Some \<lparr>f_type = fp_type (\<lambda>i. xs ! i) 0, f_flags = fp_flags (\<lambda>i. xs ! i) 0,
          f_handle = fp_handle (\<lambda>i. xs ! i) 0, f_cookie = fp_cookie (\<lambda>i. xs ! i) 0\<rparr> }"

text \<open>
  What a reference is held on: a local object by its address, the reference counter of one,
  or a proxy by its handle.
\<close>

datatype ref_key = Strong_Local nat | Weak_Local nat | Strong_Handle nat | Weak_Handle nat

section \<open>The process\<close>

text \<open>
  The heap answers the \<open>k\<close>-th request for \<open>n\<close> bytes or refuses it, with any bytes in a new
  block; \<open>he_moves\<close> says whether \<^verbatim>\<open>realloc\<close> moves the block and \<open>he_zero\<close> whether it returns a
  block for the size 0 rather than free the old one and return \<^verbatim>\<open>NULL\<close>, as glibc does. The
  process also says for which handles a proxy can be had, what \<^verbatim>\<open>dup\<close> and the calls for shared
  memory return, and what \<^verbatim>\<open>errno\<close> is after they failed. Its state counts these calls and the
  references held, and logs the descriptors closed, the memory unmapped, and the cookies with
  which the data of others was handed back.
\<close>

record parcel_env =
  he_ok :: "nat \<Rightarrow> nat \<Rightarrow> bool"
  he_fill :: "nat \<Rightarrow> nat \<Rightarrow> byte"
  he_index :: "nat \<Rightarrow> nat \<Rightarrow> nat"
  he_moves :: "nat \<Rightarrow> bool"
  he_zero :: bool
  pe_proxy :: "nat \<Rightarrow> bool"
  pe_dup :: "nat \<Rightarrow> int \<Rightarrow> int"
  pe_ashmem :: "nat \<Rightarrow> nat \<Rightarrow> int"
  pe_protect :: "nat \<Rightarrow> int \<Rightarrow> nat \<Rightarrow> int"
  pe_map :: "nat \<Rightarrow> int \<Rightarrow> nat \<Rightarrow> nat option"
  pe_errno :: "nat \<Rightarrow> int"

record process =
  pw_ticks :: nat
  pw_refs :: "ref_key \<Rightarrow> int"
  pw_closed :: "int list"
  pw_returned :: "nat list"
  pw_unmapped :: "(nat option \<times> nat) list"

definition pw_tick :: "process \<Rightarrow> process" where
  "pw_tick w = w\<lparr>pw_ticks := Suc (pw_ticks w)\<rparr>"

definition malloc_bytes :: "parcel_env \<Rightarrow> nat \<Rightarrow> process \<Rightarrow> byte list option \<times> process" where
  "malloc_bytes E n w =
    (if he_ok E (pw_ticks w) n then Some (map (he_fill E (pw_ticks w)) [0..<n]) else None, pw_tick w)"

definition malloc_objects :: "parcel_env \<Rightarrow> nat \<Rightarrow> process \<Rightarrow> nat list option \<times> process" where
  "malloc_objects E n w =
    (if he_ok E (pw_ticks w) (szt 4 (4 * n)) then Some (map (he_index E (pw_ticks w)) [0..<szt 4 (4 * n) div 4]) else None,
     pw_tick w)"

text \<open>\<^verbatim>\<open>realloc\<close>: the returned block and what has become of the old one.\<close>

definition realloc_with :: "parcel_env \<Rightarrow> bool \<Rightarrow> 'a list option \<times> process \<Rightarrow> 'a block \<Rightarrow> ('a list option \<times> 'a block \<times> process) option" where
  "realloc_with E nothing fresh old = (case old of
      Null \<Rightarrow> Some (fst fresh, Null, snd fresh)
    | Freed \<Rightarrow> None
    | Block xs \<Rightarrow>
        if nothing \<and> \<not> he_zero E then Some (None, Freed, snd fresh)
        else Some (case fst fresh of
            None \<Rightarrow> (None, Block xs, snd fresh)
          | Some ys \<Rightarrow> (Some (take (length ys) xs @ drop (length xs) ys), Freed, snd fresh)))"

definition realloc_bytes :: "parcel_env \<Rightarrow> byte block \<Rightarrow> nat \<Rightarrow> process \<Rightarrow> (byte list option \<times> byte block \<times> process) option" where
  "realloc_bytes E old n w = realloc_with E (n = 0) (malloc_bytes E n w) old"

definition realloc_objects :: "parcel_env \<Rightarrow> nat block \<Rightarrow> nat \<Rightarrow> process \<Rightarrow> (nat list option \<times> nat block \<times> process) option" where
  "realloc_objects E old n w = realloc_with E (szt 4 (4 * n) = 0) (malloc_objects E n w) old"

text \<open>The \<^verbatim>\<open>int32_t\<close> with the bits of a word.\<close>

definition int_of :: "nat \<Rightarrow> int" where
  "int_of v = (if v < 2 ^ 31 then int v else int v - 2 ^ 32)"

definition add_ref :: "ref_key \<Rightarrow> int \<Rightarrow> process \<Rightarrow> process" where
  "add_ref k d w = w\<lparr>pw_refs := (pw_refs w)(k := pw_refs w k + d)\<rparr>"

definition close_file :: "int \<Rightarrow> process \<Rightarrow> process" where
  "close_file fd w = w\<lparr>pw_closed := pw_closed w @ [fd]\<rparr>"

text \<open>The reference an object in a parcel stands for.\<close>

definition acquire_object :: "parcel_env \<Rightarrow> flat_binder \<Rightarrow> process \<Rightarrow> process" where
  "acquire_object E obj w =
    (if f_type obj = BINDER_TYPE_BINDER then
       if f_handle obj \<noteq> 0 then add_ref (Strong_Local (f_cookie obj)) 1 w else w
     else if f_type obj = BINDER_TYPE_WEAK_BINDER then
       if f_handle obj \<noteq> 0 then add_ref (Weak_Local (f_handle obj)) 1 w else w
     else if f_type obj = BINDER_TYPE_HANDLE then
       if pe_proxy E (f_handle obj) then add_ref (Strong_Handle (f_handle obj)) 1 w else w
     else if f_type obj = BINDER_TYPE_WEAK_HANDLE then
       if pe_proxy E (f_handle obj) then add_ref (Weak_Handle (f_handle obj)) 1 w else w
     else w)"

definition release_object_ref :: "parcel_env \<Rightarrow> flat_binder \<Rightarrow> process \<Rightarrow> process" where
  "release_object_ref E obj w =
    (if f_type obj = BINDER_TYPE_BINDER then
       if f_handle obj \<noteq> 0 then add_ref (Strong_Local (f_cookie obj)) (- 1) w else w
     else if f_type obj = BINDER_TYPE_WEAK_BINDER then
       if f_handle obj \<noteq> 0 then add_ref (Weak_Local (f_handle obj)) (- 1) w else w
     else if f_type obj = BINDER_TYPE_HANDLE then
       if pe_proxy E (f_handle obj) then add_ref (Strong_Handle (f_handle obj)) (- 1) w else w
     else if f_type obj = BINDER_TYPE_WEAK_HANDLE then
       if pe_proxy E (f_handle obj) then add_ref (Weak_Handle (f_handle obj)) (- 1) w else w
     else if f_type obj = BINDER_TYPE_FD then
       if f_cookie obj \<noteq> 0 then close_file (int_of (f_handle obj)) w else w
     else w)"

section \<open>The parcel\<close>

definition NO_ERROR :: int where "NO_ERROR = 0"
definition NO_MEMORY :: int where "NO_MEMORY = - 12"
definition BAD_VALUE :: int where "BAD_VALUE = - 22"
definition NOT_ENOUGH_DATA :: int where "NOT_ENOUGH_DATA = - 61"
definition BAD_TYPE :: int where "BAD_TYPE = - 2147483647"
definition FDS_NOT_ALLOWED :: int where "FDS_NOT_ALLOWED = - 2147483641"

record parcel =
  m_error :: int
  m_data :: "byte block"
  m_data_size :: nat
  m_data_capacity :: nat
  m_data_pos :: nat
  m_objects :: "nat block"
  m_objects_size :: nat
  m_objects_capacity :: nat
  m_next_object_hint :: nat
  m_fds_known :: bool
  m_has_fds :: bool
  m_allow_fds :: bool
  m_owner :: "nat option"

definition init_state :: parcel where
  "init_state = \<lparr>m_error = NO_ERROR, m_data = Null, m_data_size = 0, m_data_capacity = 0, m_data_pos = 0,
     m_objects = Null, m_objects_size = 0, m_objects_capacity = 0, m_next_object_hint = 0,
     m_fds_known = True, m_has_fds = False, m_allow_fds = True, m_owner = None\<rparr>"

definition PAD_SIZE :: "nat \<Rightarrow> nat" where
  "PAD_SIZE s = align_up 4 s 4"

definition data_size :: "parcel \<Rightarrow> nat" where
  "data_size p = (if m_data_size p > m_data_pos p then m_data_size p else m_data_pos p)"

definition data_avail :: "parcel \<Rightarrow> nat" where
  "data_avail p = szsub 4 (data_size p) (m_data_pos p)"

definition set_error :: "int \<Rightarrow> parcel \<Rightarrow> parcel" where
  "set_error err p = p\<lparr>m_error := err\<rparr>"

text \<open>\<^verbatim>\<open>remove\<close> is not implemented and aborts.\<close>

definition parcel_remove :: "nat \<Rightarrow> nat \<Rightarrow> parcel \<Rightarrow> parcel option" where
  "parcel_remove start amt p = None"

definition set_data_position :: "nat \<Rightarrow> parcel \<Rightarrow> parcel" where
  "set_data_position pos p = p\<lparr>m_data_pos := pos, m_next_object_hint := 0\<rparr>"

section \<open>Releasing and acquiring what the objects refer to\<close>

fun release_objects_loop :: "parcel_env \<Rightarrow> byte block \<Rightarrow> nat block \<Rightarrow> nat \<Rightarrow> process \<Rightarrow> process option" where
  "release_objects_loop E data objs 0 w = Some w"
| "release_objects_loop E data objs (Suc i) w = do {
    off \<leftarrow> block_get objs i;
    flat \<leftarrow> flat_at data off;
    release_objects_loop E data objs i (release_object_ref E flat w) }"

definition release_objects :: "parcel_env \<Rightarrow> parcel \<Rightarrow> process \<Rightarrow> process option" where
  "release_objects E p w = release_objects_loop E (m_data p) (m_objects p) (m_objects_size p) w"

fun acquire_objects_loop :: "parcel_env \<Rightarrow> byte block \<Rightarrow> nat block \<Rightarrow> nat \<Rightarrow> process \<Rightarrow> process option" where
  "acquire_objects_loop E data objs 0 w = Some w"
| "acquire_objects_loop E data objs (Suc i) w = do {
    off \<leftarrow> block_get objs i;
    flat \<leftarrow> flat_at data off;
    acquire_objects_loop E data objs i (acquire_object E flat w) }"

definition acquire_objects :: "parcel_env \<Rightarrow> parcel \<Rightarrow> process \<Rightarrow> process option" where
  "acquire_objects E p w = acquire_objects_loop E (m_data p) (m_objects p) (m_objects_size p) w"

text \<open>Data that belongs to somebody else is handed back to its owner, with its cookie.\<close>

definition free_data_no_init :: "parcel_env \<Rightarrow> parcel \<Rightarrow> process \<Rightarrow> process option" where
  "free_data_no_init E p w = (case m_owner p of
      Some c \<Rightarrow> Some (w\<lparr>pw_returned := pw_returned w @ [c]\<rparr>)
    | None \<Rightarrow> do {
        w \<leftarrow> release_objects E p w;
        if m_data p = Freed \<or> m_objects p = Freed then None else Some w })"

definition free_data :: "parcel_env \<Rightarrow> parcel \<Rightarrow> process \<Rightarrow> (parcel \<times> process) option" where
  "free_data E p w = do { w \<leftarrow> free_data_no_init E p w; Some (init_state, w) }"

section \<open>Changing the size\<close>

text \<open>How many objects lie before the new size.\<close>

fun keep_loop :: "nat block \<Rightarrow> nat \<Rightarrow> nat \<Rightarrow> nat option" where
  "keep_loop objs desired 0 = Some 0"
| "keep_loop objs desired (Suc n) = do {
    off \<leftarrow> block_get objs n;
    if off < desired then Some (Suc n) else keep_loop objs desired n }"

definition kept_objects :: "parcel \<Rightarrow> nat \<Rightarrow> nat option" where
  "kept_objects p desired =
    (if desired < m_data_size p then
       if desired = 0 then Some 0 else keep_loop (m_objects p) desired (m_objects_size p)
     else Some (m_objects_size p))"

text \<open>\<^verbatim>\<open>memcpy\<close> of \<open>n\<close> elements to the start of a new block.\<close>

definition copy_into :: "'a list \<Rightarrow> 'a block \<Rightarrow> nat \<Rightarrow> 'a list option" where
  "copy_into new old n = (case old of
      Null \<Rightarrow> Some new
    | _ \<Rightarrow> do { xs \<leftarrow> block_read old 0 n; put_at new 0 xs })"

definition continue_owned :: "parcel_env \<Rightarrow> nat \<Rightarrow> nat \<Rightarrow> nat \<Rightarrow> parcel \<Rightarrow> process \<Rightarrow> (int \<times> parcel \<times> process) option" where
  "continue_owned E c desired objectsSize p w =
    (if desired = 0 then do { (p, w) \<leftarrow> free_data E p w; Some (NO_ERROR, p, w) }
     else case malloc_bytes E desired w of
       (None, w) \<Rightarrow> Some (NO_MEMORY, p\<lparr>m_error := NO_MEMORY\<rparr>, w)
     | (Some data, w) \<Rightarrow> do {
         (objects, w) \<leftarrow>
           if objectsSize = 0 then Some (Some Null, w)
           else case malloc_objects E objectsSize w of
             (None, w) \<Rightarrow> Some (None, w)
           | (Some objs, w) \<Rightarrow> do {
               w \<leftarrow> acquire_objects E (p\<lparr>m_objects_size := objectsSize\<rparr>) w;
               objs \<leftarrow> copy_into objs (m_objects p) objectsSize;
               Some (Some (Block objs), w) };
         case objects of
           None \<Rightarrow> Some (NO_MEMORY, p\<lparr>m_error := NO_MEMORY\<rparr>, w)
         | Some objects \<Rightarrow> do {
             data \<leftarrow> copy_into data (m_data p) (min (m_data_size p) desired);
             Some (NO_ERROR,
               p\<lparr>m_owner := None, m_data := Block data, m_objects := objects,
                 m_data_size := min (m_data_size p) desired, m_data_capacity := desired,
                 m_objects_size := objectsSize, m_objects_capacity := objectsSize, m_next_object_hint := 0\<rparr>,
               w\<lparr>pw_returned := pw_returned w @ [c]\<rparr>) } })"

text \<open>The references of the objects from \<open>i\<close> on are dropped.\<close>

fun drop_loop :: "parcel_env \<Rightarrow> nat \<Rightarrow> nat \<Rightarrow> parcel \<Rightarrow> process \<Rightarrow> (parcel \<times> process) option" where
  "drop_loop E i 0 p w = Some (p, w)"
| "drop_loop E i (Suc k) p w = do {
    off \<leftarrow> block_get (m_objects p) i;
    flat \<leftarrow> flat_at (m_data p) off;
    let p = (if f_type flat = BINDER_TYPE_FD then p\<lparr>m_fds_known := False\<rparr> else p) in
    drop_loop E (i + 1) k p (release_object_ref E flat w) }"

definition shrink_objects :: "parcel_env \<Rightarrow> nat \<Rightarrow> parcel \<Rightarrow> process \<Rightarrow> (parcel \<times> process) option" where
  "shrink_objects E objectsSize p w =
    (if objectsSize < m_objects_size p then do {
       (p, w) \<leftarrow> drop_loop E objectsSize (m_objects_size p - objectsSize) p w;
       (objects, old, w) \<leftarrow> realloc_objects E (m_objects p) objectsSize w;
       let p = (case objects of Some os \<Rightarrow> p\<lparr>m_objects := Block os\<rparr> | None \<Rightarrow> p\<lparr>m_objects := old\<rparr>) in
       Some (p\<lparr>m_objects_size := objectsSize, m_next_object_hint := 0\<rparr>, w) }
     else Some (p, w))"

definition continue_own :: "parcel_env \<Rightarrow> nat \<Rightarrow> nat \<Rightarrow> parcel \<Rightarrow> process \<Rightarrow> (int \<times> parcel \<times> process) option" where
  "continue_own E desired objectsSize p w = do {
    (p, w) \<leftarrow> shrink_objects E objectsSize p w;
    if desired > m_data_capacity p then do {
      (data, old, w) \<leftarrow> realloc_bytes E (m_data p) desired w;
      case data of
        Some d \<Rightarrow> Some (NO_ERROR, p\<lparr>m_data := Block d, m_data_capacity := desired\<rparr>, w)
      | None \<Rightarrow> Some (NO_MEMORY, p\<lparr>m_data := old, m_error := NO_MEMORY\<rparr>, w) }
    else
      let p = (if m_data_size p > desired then p\<lparr>m_data_size := desired\<rparr> else p);
          p = (if m_data_pos p > desired then p\<lparr>m_data_pos := desired\<rparr> else p) in
      Some (NO_ERROR, p, w) }"

definition continue_first :: "parcel_env \<Rightarrow> nat \<Rightarrow> parcel \<Rightarrow> process \<Rightarrow> (int \<times> parcel \<times> process) option" where
  "continue_first E desired p w = (case malloc_bytes E desired w of
      (None, w) \<Rightarrow> Some (NO_MEMORY, p\<lparr>m_error := NO_MEMORY\<rparr>, w)
    | (Some data, w) \<Rightarrow>
        Some (NO_ERROR, p\<lparr>m_data := Block data, m_data_size := 0, m_data_pos := 0, m_data_capacity := desired\<rparr>, w))"

definition continue_write :: "parcel_env \<Rightarrow> nat \<Rightarrow> parcel \<Rightarrow> process \<Rightarrow> (int \<times> parcel \<times> process) option" where
  "continue_write E desired p w = do {
    objectsSize \<leftarrow> kept_objects p desired;
    case m_owner p of
      Some c \<Rightarrow> continue_owned E c desired objectsSize p w
    | None \<Rightarrow> (case m_data p of
          Freed \<Rightarrow> None
        | Block _ \<Rightarrow> continue_own E desired objectsSize p w
        | Null \<Rightarrow> continue_first E desired p w) }"

definition grow_data :: "parcel_env \<Rightarrow> nat \<Rightarrow> parcel \<Rightarrow> process \<Rightarrow> (int \<times> parcel \<times> process) option" where
  "grow_data E len p w =
    (let newSize = szt 4 ((m_data_size p + len) * 3) div 2 in
     if newSize \<le> m_data_size p then Some (NO_MEMORY, p, w) else continue_write E newSize p w)"

text \<open>
  \<^verbatim>\<open>restartWrite\<close> calls \<^verbatim>\<open>releaseObjects\<close> after \<^verbatim>\<open>realloc\<close> and with the old pointer: the objects are
  read in the new block if it has not moved.
\<close>

definition restart_write :: "parcel_env \<Rightarrow> nat \<Rightarrow> parcel \<Rightarrow> process \<Rightarrow> (int \<times> parcel \<times> process) option" where
  "restart_write E desired p w =
    (if m_owner p \<noteq> None then do { (p, w) \<leftarrow> free_data E p w; continue_write E desired p w }
     else do {
       (data, old, w1) \<leftarrow> realloc_bytes E (m_data p) desired w;
       if data = None \<and> desired > m_data_capacity p then
         Some (NO_MEMORY, p\<lparr>m_data := old, m_error := NO_MEMORY\<rparr>, w1)
       else do {
         let seen = (case data of Some d \<Rightarrow> if he_moves E (pw_ticks w) then old else Block d | None \<Rightarrow> old) in do {
         w2 \<leftarrow> release_objects E (p\<lparr>m_data := seen\<rparr>) w1;
         let p = (case data of Some d \<Rightarrow> p\<lparr>m_data := Block d, m_data_capacity := desired\<rparr> | None \<Rightarrow> p\<lparr>m_data := old\<rparr>) in
         if m_objects p = Freed then None
         else Some (NO_ERROR,
           p\<lparr>m_data_size := 0, m_data_pos := 0, m_objects := Null, m_objects_size := 0, m_objects_capacity := 0,
             m_next_object_hint := 0, m_has_fds := False, m_fds_known := True, m_allow_fds := True\<rparr>, w2) } } })"

definition set_data_size :: "parcel_env \<Rightarrow> nat \<Rightarrow> parcel \<Rightarrow> process \<Rightarrow> (int \<times> parcel \<times> process) option" where
  "set_data_size E n p w = do {
    (err, p, w) \<leftarrow> continue_write E n p w;
    Some (err, if err = NO_ERROR then p\<lparr>m_data_size := n\<rparr> else p, w) }"

definition set_data_capacity :: "parcel_env \<Rightarrow> nat \<Rightarrow> parcel \<Rightarrow> process \<Rightarrow> (int \<times> parcel \<times> process) option" where
  "set_data_capacity E n p w =
    (if n > m_data_capacity p then continue_write E n p w else Some (NO_ERROR, p, w))"

definition set_data :: "parcel_env \<Rightarrow> byte list \<Rightarrow> parcel \<Rightarrow> process \<Rightarrow> (int \<times> parcel \<times> process) option" where
  "set_data E buffer p w = do {
    (err, p, w) \<leftarrow> restart_write E (length buffer) p w;
    if err = NO_ERROR then do {
      data \<leftarrow> if buffer = [] then Some (m_data p) else block_put (m_data p) 0 buffer;
      Some (err, p\<lparr>m_data := data, m_data_size := length buffer, m_fds_known := False\<rparr>, w) }
    else Some (err, p, w) }"

end
