(* ===== verification/User_Memory.thy ===== *)
theory User_Memory
  imports Words
begin

text \<open>
  The memory of a user process, for the service manager: a partial map from addresses to
  bytes, where an access to an address that is not mapped (the null pointer among them) ends
  the process and is \<open>None\<close>. The service manager is a 32-bit program: it keeps pointers in
  \<open>uint32_t\<close>, so addresses and lengths are numbers below \<open>2 ^ 32\<close> and arithmetic on them wraps.
\<close>

type_synonym umem = "addr \<Rightarrow> byte option"

named_theorems mem_simps \<open>what a load sees after a store\<close>

section \<open>Loads and stores\<close>

fun load_bytes :: "umem \<Rightarrow> addr \<Rightarrow> nat \<Rightarrow> byte list option" where
  "load_bytes m a 0 = Some []"
| "load_bytes m a (Suc n) = do { b \<leftarrow> m a; bs \<leftarrow> load_bytes m (a + 1) n; Some (b # bs) }"

fun store_bytes :: "umem \<Rightarrow> addr \<Rightarrow> byte list \<Rightarrow> umem option" where
  "store_bytes m a [] = Some m"
| "store_bytes m a (b # bs) = (if m a = None then None else store_bytes (m(a \<mapsto> b)) (a + 1) bs)"

definition load32 :: "umem \<Rightarrow> addr \<Rightarrow> nat option" where
  "load32 m a = do { bs \<leftarrow> load_bytes m a 4; Some (le32 (bs ! 0) (bs ! 1) (bs ! 2) (bs ! 3)) }"

definition store32 :: "umem \<Rightarrow> addr \<Rightarrow> nat \<Rightarrow> umem option" where
  "store32 m a v = store_bytes m a (le_bytes v)"

definition le16 :: "byte \<Rightarrow> byte \<Rightarrow> nat" where
  "le16 b0 b1 = unat b0 + 256 * unat b1"

definition load16 :: "umem \<Rightarrow> addr \<Rightarrow> nat option" where
  "load16 m a = do { bs \<leftarrow> load_bytes m a 2; Some (le16 (bs ! 0) (bs ! 1)) }"

definition le_bytes16 :: "nat \<Rightarrow> byte list" where
  "le_bytes16 v = [word_of_nat v, word_of_nat (v div 256)]"

fun load_u16s :: "umem \<Rightarrow> addr \<Rightarrow> nat \<Rightarrow> nat list option" where
  "load_u16s m a 0 = Some []"
| "load_u16s m a (Suc n) = do { v \<leftarrow> load16 m a; vs \<leftarrow> load_u16s m (a + 2) n; Some (v # vs) }"

definition store_u16s :: "umem \<Rightarrow> addr \<Rightarrow> nat list \<Rightarrow> umem option" where
  "store_u16s m a vs = store_bytes m a (concat (map le_bytes16 vs))"

section \<open>What they do\<close>

definition mapped :: "umem \<Rightarrow> addr \<Rightarrow> nat \<Rightarrow> bool" where
  "mapped m a n \<longleftrightarrow> {a ..< a + n} \<subseteq> dom m"

lemma mapped_0 [simp]: "mapped m a 0"
  by (simp add: mapped_def)

lemma mapped_Suc: "mapped m a (Suc n) \<longleftrightarrow> m a \<noteq> None \<and> mapped m (a + 1) n"
proof -
  have "{a ..< a + Suc n} = insert a {Suc a ..< Suc a + n}" by auto
  then show ?thesis by (auto simp: mapped_def)
qed

lemma mapped_sub: "mapped m a n \<Longrightarrow> a \<le> b \<Longrightarrow> b + k \<le> a + n \<Longrightarrow> mapped m b k"
  unfolding mapped_def by (erule subset_trans [rotated]) auto

lemma load_bytes_mapped: "(\<exists>bs. load_bytes m a n = Some bs) \<longleftrightarrow> mapped m a n"
  by (induction n arbitrary: a) (auto simp: mapped_Suc bind_eq_Some_conv)

lemma load_bytes_length [dest]: "load_bytes m a n = Some bs \<Longrightarrow> length bs = n"
  by (induction n arbitrary: a bs) (auto simp: bind_eq_Some_conv)

definition patch :: "umem \<Rightarrow> addr \<Rightarrow> byte list \<Rightarrow> umem" where
  "patch m a bs i = (if a \<le> i \<and> i < a + length bs then Some (bs ! (i - a)) else m i)"

lemma patch_Cons: "patch (m(a \<mapsto> b)) (a + 1) bs = patch m a (b # bs)"
proof (rule ext)
  fix i
  show "patch (m(a \<mapsto> b)) (a + 1) bs i = patch m a (b # bs) i"
  proof (cases "i \<le> a")
    case False
    then obtain k where "i = Suc (a + k)" by (metis less_natE not_le)
    then show ?thesis by (simp add: patch_def)
  qed (auto simp: patch_def)
qed

lemma patch_Nil [simp]: "patch m a [] = m"
  by (rule ext) (auto simp: patch_def)

lemma mapped_update: "m a \<noteq> None \<Longrightarrow> mapped (m(a \<mapsto> b)) c n = mapped m c n"
  by (auto simp: mapped_def)

lemma store_bytes_iff: "store_bytes m a bs = (if mapped m a (length bs) then Some (patch m a bs) else None)"
  by (induction bs arbitrary: m a) (simp_all add: mapped_Suc mapped_update patch_Cons [simplified])

lemma load_patch_same: "load_bytes (patch m a bs) a (length bs) = Some bs"
proof -
  have "load_bytes (patch m a (xs @ bs)) (a + length xs) (length bs) = Some bs" for xs
  proof (induction bs arbitrary: xs)
    case (Cons b bs)
    from Cons.IH [of "xs @ [b]"] show ?case by (simp add: patch_def)
  qed simp
  from this [of "[]"] show ?thesis by simp
qed

lemma load_patch_other: "c + n \<le> a \<or> a + length bs \<le> c \<Longrightarrow> load_bytes (patch m a bs) c n = load_bytes m c n"
proof (induction n arbitrary: c)
  case (Suc n)
  then have "load_bytes (patch m a bs) (c + 1) n = load_bytes m (c + 1) n" by auto
  moreover have "patch m a bs c = m c" using Suc(2) by (auto simp: patch_def)
  ultimately show ?case by simp
qed simp

lemma load32_patch_same: "load32 (patch m a (le_bytes v)) a = Some (v mod 2 ^ 32)"
  using load_patch_same [of m a "le_bytes v"]
  by (simp add: load32_def le_bytes_nth le_bytes_nth(2) [simplified] le32_bytes)

lemma load32_patch_other: "c + 4 \<le> a \<or> a + length bs \<le> c \<Longrightarrow> load32 (patch m a bs) c = load32 m c"
  by (simp add: load32_def load_patch_other)

lemma load16_patch_other: "c + 2 \<le> a \<or> a + length bs \<le> c \<Longrightarrow> load16 (patch m a bs) c = load16 m c"
  by (simp add: load16_def load_patch_other)

lemma load32_mapped: "(\<exists>v. load32 m a = Some v) \<longleftrightarrow> mapped m a 4"
  using load_bytes_mapped [of m a 4] by (auto simp: load32_def bind_eq_Some_conv)

lemma load16_mapped: "(\<exists>v. load16 m a = Some v) \<longleftrightarrow> mapped m a 2"
  using load_bytes_mapped [of m a 2] by (auto simp: load16_def bind_eq_Some_conv)

lemma store32_iff: "store32 m a v = (if mapped m a 4 then Some (patch m a (le_bytes v)) else None)"
  by (simp add: store32_def store_bytes_iff)

lemma mapped_add: "mapped m a (i + j) \<longleftrightarrow> mapped m a i \<and> mapped m (a + i) j"
proof -
  have "{a ..< a + (i + j)} = {a ..< a + i} \<union> {a + i ..< a + i + j}" by auto
  then show ?thesis by (auto simp: mapped_def)
qed

lemma load_u16s_length [dest]: "load_u16s m a n = Some vs \<Longrightarrow> length vs = n"
  by (induction n arbitrary: a vs) (auto simp: bind_eq_Some_conv)

lemma load_u16s_patch_other:
  "c + 2 * n \<le> a \<or> a + length bs \<le> c \<Longrightarrow> load_u16s (patch m a bs) c n = load_u16s m c n"
proof (induction n arbitrary: c)
  case (Suc n)
  have "load_u16s (patch m a bs) (c + 2) n = load_u16s m (c + 2) n" by (rule Suc(1)) (use Suc(2) in auto)
  moreover have "load16 (patch m a bs) c = load16 m c" by (rule load16_patch_other) (use Suc(2) in auto)
  ultimately show ?case by simp
qed simp

lemma load_bytes_append:
  "load_bytes m a (i + j) = do { xs \<leftarrow> load_bytes m a i; ys \<leftarrow> load_bytes m (a + i) j; Some (xs @ ys) }"
  by (induction i arbitrary: a) (auto split: bind_split)

lemma byte_less: "unat b < 256" for b :: byte
proof -
  have "unat b < 2 ^ LENGTH(8)" by (rule unsigned_less)
  then show ?thesis by simp
qed

lemma le16_less: "le16 b c < 2 ^ 16"
  using byte_less [of b] byte_less [of c] by (simp add: le16_def)

lemma le32_less: "le32 a b c d < 2 ^ 32"
  using byte_less [of a] byte_less [of b] byte_less [of c] byte_less [of d] by (simp add: le32_def)

lemma load32_less: "load32 m a = Some v \<Longrightarrow> v < 2 ^ 32"
  using le32_less by (auto simp: load32_def bind_eq_Some_conv)

lemma load16_less: "load16 m a = Some v \<Longrightarrow> v < 2 ^ 16"
  using le16_less by (auto simp: load16_def bind_eq_Some_conv)

lemma le16_bytes: "v < 2 ^ 16 \<Longrightarrow> le16 (word_of_nat v) (word_of_nat (v div 256)) = v"
proof -
  assume "v < 2 ^ 16"
  then have "v div 256 < 256" by simp
  then show ?thesis by (simp add: le16_def unat_byte)
qed

lemma length_le16s [simp]: "length (concat (map le_bytes16 vs)) = 2 * length vs"
  by (induction vs) (auto simp: le_bytes16_def)

lemma load_u16s_bytes:
  "load_bytes m a (2 * length vs) = Some (concat (map le_bytes16 vs)) \<Longrightarrow> \<forall>v \<in> set vs. v < 2 ^ 16 \<Longrightarrow>
   load_u16s m a (length vs) = Some vs"
proof (induction vs arbitrary: a)
  case (Cons v vs)
  have "load_bytes m a (2 + 2 * length vs) = Some (le_bytes16 v @ concat (map le_bytes16 vs))" using Cons(2) by simp
  then obtain xs ys where xs: "load_bytes m a 2 = Some xs" and ys: "load_bytes m (a + 2) (2 * length vs) = Some ys"
    and e: "xs @ ys = le_bytes16 v @ concat (map le_bytes16 vs)"
    by (auto simp only: load_bytes_append bind_eq_Some_conv option.inject)
  have "length xs = length (le_bytes16 v)" using xs by (auto simp: le_bytes16_def)
  then have eq: "xs = le_bytes16 v" "ys = concat (map le_bytes16 vs)" using e by auto
  then have "load_u16s m (a + 2) (length vs) = Some vs" using Cons(1) [of "a + 2"] ys Cons(3) by simp
  moreover have "load16 m a = Some v" using xs eq(1) Cons(3) by (simp add: load16_def le_bytes16_def le16_bytes)
  ultimately show ?case by simp
qed simp

lemma load_u16s_patch_same:
  "\<forall>v \<in> set vs. v < 2 ^ 16 \<Longrightarrow> load_u16s (patch m a (concat (map le_bytes16 vs))) a (length vs) = Some vs"
  by (rule load_u16s_bytes) (use load_patch_same [of m a "concat (map le_bytes16 vs)"] in auto)

end
