(* ===== verification/Parcel_Write.thy ===== *)
theory Parcel_Write
  imports Parcel_State User_Memory
begin

text \<open>
  Writing into a parcel. A result of type \<^verbatim>\<open>status_t\<close> comes first; pointers into the data are
  offsets, \<open>None\<close> for \<^verbatim>\<open>NULL\<close>.
\<close>

section \<open>Raw data\<close>

text \<open>Every write makes room unless its end lies within the capacity.\<close>

definition make_room :: "parcel_env \<Rightarrow> nat \<Rightarrow> parcel \<Rightarrow> process \<Rightarrow> (int \<times> parcel \<times> process) option" where
  "make_room E len p w =
    (if szt 4 (m_data_pos p + len) \<le> m_data_capacity p then Some (NO_ERROR, p, w) else grow_data E len p w)"

definition finish_write :: "nat \<Rightarrow> parcel \<Rightarrow> parcel" where
  "finish_write len p =
    (let p = p\<lparr>m_data_pos := szt 4 (m_data_pos p + len)\<rparr> in
     if m_data_pos p > m_data_size p then p\<lparr>m_data_size := m_data_pos p\<rparr> else p)"

definition store_data :: "byte list \<Rightarrow> parcel \<Rightarrow> parcel option" where
  "store_data bs p =
    (if bs = [] then Some p else do { data \<leftarrow> block_put (m_data p) (m_data_pos p) bs; Some (p\<lparr>m_data := data\<rparr>) })"

definition write_aligned :: "parcel_env \<Rightarrow> byte list \<Rightarrow> parcel \<Rightarrow> process \<Rightarrow> (int \<times> parcel \<times> process) option" where
  "write_aligned E bs p w = do {
     (err, p, w) \<leftarrow> make_room E (length bs) p w;
     if err = NO_ERROR then do { p \<leftarrow> store_data bs p; Some (NO_ERROR, finish_write (length bs) p, w) }
     else Some (err, p, w) }"

definition write_unpadded :: "parcel_env \<Rightarrow> byte list \<Rightarrow> parcel \<Rightarrow> process \<Rightarrow> (int \<times> parcel \<times> process) option" where
  "write_unpadded E bs p w =
    (if szt 4 (m_data_pos p + length bs) < m_data_pos p then Some (BAD_VALUE, p, w)
     else do {
       (err, p, w) \<leftarrow> make_room E (length bs) p w;
       if err = NO_ERROR then do { p \<leftarrow> store_data bs p; Some (NO_ERROR, finish_write (length bs) p, w) }
       else Some (err, p, w) })"

text \<open>
  \<^verbatim>\<open>writeInplace\<close>: the place for \<open>len\<close> bytes. The word that ends the place is masked, so that the
  bytes of padding in it are zero.
\<close>

definition clear_padding :: "nat \<Rightarrow> nat \<Rightarrow> parcel \<Rightarrow> parcel option" where
  "clear_padding padded len p =
    (if padded = len then Some p
     else if m_data_pos p + padded < 4 then None
     else do {
       data \<leftarrow> block_put (m_data p) (m_data_pos p + padded - szsub 4 padded len) (replicate (szsub 4 padded len) 0);
       Some (p\<lparr>m_data := data\<rparr>) })"

definition write_inplace :: "parcel_env \<Rightarrow> nat \<Rightarrow> parcel \<Rightarrow> process \<Rightarrow> (nat option \<times> parcel \<times> process) option" where
  "write_inplace E len p w =
    (let padded = PAD_SIZE len in
     if szt 4 (m_data_pos p + padded) < m_data_pos p then Some (None, p, w)
     else do {
       (err, p, w) \<leftarrow> make_room E padded p w;
       if err = NO_ERROR then do {
         let place = (if m_data p = Null \<and> m_data_pos p = 0 then None else Some (m_data_pos p)) in do {
         p \<leftarrow> clear_padding padded len p;
         Some (place, finish_write padded p, w) } }
       else Some (None, p, w) })"

definition put_bytes_at :: "nat \<Rightarrow> byte list \<Rightarrow> parcel \<Rightarrow> parcel option" where
  "put_bytes_at d bs p =
    (if bs = [] then Some p else do { data \<leftarrow> block_put (m_data p) d bs; Some (p\<lparr>m_data := data\<rparr>) })"

definition parcel_write :: "parcel_env \<Rightarrow> byte list \<Rightarrow> parcel \<Rightarrow> process \<Rightarrow> (int \<times> parcel \<times> process) option" where
  "parcel_write E bs p w = do {
     (d, p, w) \<leftarrow> write_inplace E (length bs) p w;
     case d of
       Some d \<Rightarrow> do { p \<leftarrow> put_bytes_at d bs p; Some (NO_ERROR, p, w) }
     | None \<Rightarrow> Some (m_error p, p, w) }"

section \<open>Numbers\<close>

definition word_of :: "int \<Rightarrow> nat" where
  "word_of v = nat (v mod 2 ^ 32)"

definition word_bytes :: "int \<Rightarrow> byte list" where
  "word_bytes v = le_bytes (word_of v)"

definition long_bytes :: "int \<Rightarrow> byte list" where
  "long_bytes v = word_bytes v @ word_bytes (v div 2 ^ 32)"

definition write_int32 :: "parcel_env \<Rightarrow> int \<Rightarrow> parcel \<Rightarrow> process \<Rightarrow> (int \<times> parcel \<times> process) option" where
  "write_int32 E v = write_aligned E (word_bytes v)"

definition write_int64 :: "parcel_env \<Rightarrow> int \<Rightarrow> parcel \<Rightarrow> process \<Rightarrow> (int \<times> parcel \<times> process) option" where
  "write_int64 E v = write_aligned E (long_bytes v)"

text \<open>A \<^verbatim>\<open>float\<close> is given by the word that represents it, a \<^verbatim>\<open>double\<close> by two.\<close>

definition write_float :: "parcel_env \<Rightarrow> nat \<Rightarrow> parcel \<Rightarrow> process \<Rightarrow> (int \<times> parcel \<times> process) option" where
  "write_float E v = write_aligned E (le_bytes v)"

definition write_double :: "parcel_env \<Rightarrow> nat \<Rightarrow> nat \<Rightarrow> parcel \<Rightarrow> process \<Rightarrow> (int \<times> parcel \<times> process) option" where
  "write_double E lo hi = write_aligned E (le_bytes lo @ le_bytes hi)"

definition write_int_ptr :: "parcel_env \<Rightarrow> nat \<Rightarrow> parcel \<Rightarrow> process \<Rightarrow> (int \<times> parcel \<times> process) option" where
  "write_int_ptr E v = write_aligned E (le_bytes v)"

definition write_no_exception :: "parcel_env \<Rightarrow> parcel \<Rightarrow> process \<Rightarrow> (int \<times> parcel \<times> process) option" where
  "write_no_exception E = write_int32 E 0"

section \<open>Strings\<close>

definition write_c_string :: "parcel_env \<Rightarrow> byte list \<Rightarrow> parcel \<Rightarrow> process \<Rightarrow> (int \<times> parcel \<times> process) option" where
  "write_c_string E str = parcel_write E (str @ [0])"

definition write_string8 :: "parcel_env \<Rightarrow> byte list \<Rightarrow> parcel \<Rightarrow> process \<Rightarrow> (int \<times> parcel \<times> process) option" where
  "write_string8 E str p w = do {
     (err, p, w) \<leftarrow> write_int32 E (int (length str)) p w;
     if 0 < length str \<and> err = NO_ERROR then parcel_write E (str @ [0]) p w else Some (err, p, w) }"

definition write_string16 :: "parcel_env \<Rightarrow> nat list option \<Rightarrow> parcel \<Rightarrow> process \<Rightarrow> (int \<times> parcel \<times> process) option" where
  "write_string16 E str p w = (case str of
      None \<Rightarrow> write_int32 E (- 1) p w
    | Some str \<Rightarrow> do {
        (err, p, w) \<leftarrow> write_int32 E (int (length str)) p w;
        if err = NO_ERROR then do {
          let len = szt 4 (length str * 2) in do {
          (data, p, w) \<leftarrow> write_inplace E (szt 4 (len + 2)) p w;
          case data of
            Some d \<Rightarrow> do {
              p \<leftarrow> put_bytes_at d (take len (concat (map le_bytes16 str))) p;
              p \<leftarrow> put_bytes_at (d + len) (le_bytes16 0) p;
              Some (NO_ERROR, p, w) }
          | None \<Rightarrow> Some (m_error p, p, w) } }
        else Some (err, p, w) })"

text \<open>The strict mode policy of the thread is an argument.\<close>

definition STRICT_MODE_PENALTY_GATHER :: nat where "STRICT_MODE_PENALTY_GATHER = 0x100"

definition write_interface_token :: "parcel_env \<Rightarrow> nat \<Rightarrow> nat list \<Rightarrow> parcel \<Rightarrow> process \<Rightarrow> (int \<times> parcel \<times> process) option" where
  "write_interface_token E policy interface p w = do {
     (_, p, w) \<leftarrow> write_int32 E (int (or policy STRICT_MODE_PENALTY_GATHER)) p w;
     write_string16 E (Some interface) p w }"

section \<open>Objects\<close>

text \<open>A longer array of offsets. If there is no memory for it, \<^verbatim>\<open>realloc\<close> has left the old one.\<close>

definition more_objects :: "parcel_env \<Rightarrow> nat \<Rightarrow> parcel \<Rightarrow> process \<Rightarrow> (int \<times> parcel \<times> process) option" where
  "more_objects E newSize p w = do {
     (objects, old, w) \<leftarrow> realloc_objects E (m_objects p) newSize w;
     case objects of
       None \<Rightarrow> Some (NO_MEMORY, p\<lparr>m_objects := old\<rparr>, w)
     | Some os \<Rightarrow> Some (NO_ERROR, p\<lparr>m_objects := Block os, m_objects_capacity := newSize\<rparr>, w) }"

definition write_object :: "parcel_env \<Rightarrow> flat_binder \<Rightarrow> bool \<Rightarrow> parcel \<Rightarrow> process \<Rightarrow> (int \<times> parcel \<times> process) option" where
  "write_object E val nullMetaData p w = do {
     let enoughObjects = (m_objects_size p < m_objects_capacity p) in do {
     (err, p, w) \<leftarrow> make_room E sizeof_flat p w;
     if err \<noteq> NO_ERROR then Some (err, p, w)
     else do {
       (err, p, w) \<leftarrow> if enoughObjects then Some (NO_ERROR, p, w)
         else more_objects E (szt 4 ((m_objects_size p + 2) * 3) div 2) p w;
       if err \<noteq> NO_ERROR then Some (err, p, w)
       else do {
         p \<leftarrow> store_data (flat_bytes val) p;
         (p, w) \<leftarrow> if nullMetaData \<or> f_handle val \<noteq> 0 then do {
             objs \<leftarrow> block_put (m_objects p) (m_objects_size p) [m_data_pos p];
             Some (p\<lparr>m_objects := objs, m_objects_size := Suc (m_objects_size p)\<rparr>, acquire_object E val w) }
           else Some (p, w);
         if f_type val = BINDER_TYPE_FD \<and> \<not> m_allow_fds p then Some (FDS_NOT_ALLOWED, p, w)
         else
           let p = (if f_type val = BINDER_TYPE_FD then p\<lparr>m_has_fds := True, m_fds_known := True\<rparr> else p) in
           Some (NO_ERROR, finish_write sizeof_flat p, w) } } } }"

text \<open>
  A pointer to a binder: null, a local object with its reference counter, a proxy, or an
  object that is neither. A weak pointer may not be promoted any more.
\<close>

datatype ibinder = No_Binder | Local_Binder (local_refs: nat) (local_object: nat) | Proxy_Binder nat | Odd_Binder

definition FLAT_FLAGS :: nat where "FLAT_FLAGS = or 0x7f 0x100"

definition flatten_binder :: "parcel_env \<Rightarrow> ibinder \<Rightarrow> parcel \<Rightarrow> process \<Rightarrow> (int \<times> parcel \<times> process) option" where
  "flatten_binder E binder =
    write_object E
      (case binder of
         Local_Binder rc obj \<Rightarrow> \<lparr>f_type = BINDER_TYPE_BINDER, f_flags = FLAT_FLAGS, f_handle = rc, f_cookie = obj\<rparr>
       | Proxy_Binder h \<Rightarrow> \<lparr>f_type = BINDER_TYPE_HANDLE, f_flags = FLAT_FLAGS, f_handle = h, f_cookie = 0\<rparr>
       | Odd_Binder \<Rightarrow> \<lparr>f_type = BINDER_TYPE_HANDLE, f_flags = FLAT_FLAGS, f_handle = 0, f_cookie = 0\<rparr>
       | No_Binder \<Rightarrow> \<lparr>f_type = BINDER_TYPE_BINDER, f_flags = FLAT_FLAGS, f_handle = 0, f_cookie = 0\<rparr>)
      False"

definition flatten_weak_binder :: "parcel_env \<Rightarrow> ibinder option \<Rightarrow> parcel \<Rightarrow> process \<Rightarrow> (int \<times> parcel \<times> process) option" where
  "flatten_weak_binder E promoted =
    write_object E
      (case promoted of
         Some (Local_Binder rc obj) \<Rightarrow>
           \<lparr>f_type = BINDER_TYPE_WEAK_BINDER, f_flags = FLAT_FLAGS, f_handle = rc, f_cookie = obj\<rparr>
       | Some (Proxy_Binder h) \<Rightarrow> \<lparr>f_type = BINDER_TYPE_WEAK_HANDLE, f_flags = FLAT_FLAGS, f_handle = h, f_cookie = 0\<rparr>
       | Some Odd_Binder \<Rightarrow> \<lparr>f_type = BINDER_TYPE_WEAK_HANDLE, f_flags = FLAT_FLAGS, f_handle = 0, f_cookie = 0\<rparr>
       | _ \<Rightarrow> \<lparr>f_type = BINDER_TYPE_BINDER, f_flags = FLAT_FLAGS, f_handle = 0, f_cookie = 0\<rparr>)
      False"

definition write_file_descriptor :: "parcel_env \<Rightarrow> int \<Rightarrow> bool \<Rightarrow> parcel \<Rightarrow> process \<Rightarrow> (int \<times> parcel \<times> process) option" where
  "write_file_descriptor E fd takeOwnership =
    write_object E \<lparr>f_type = BINDER_TYPE_FD, f_flags = FLAT_FLAGS, f_handle = word_of fd, f_cookie = (if takeOwnership then 1 else 0)\<rparr> True"

definition dup_file :: "parcel_env \<Rightarrow> int \<Rightarrow> process \<Rightarrow> int \<times> process" where
  "dup_file E fd w = (pe_dup E (pw_ticks w) fd, pw_tick w)"

definition write_dup_file_descriptor :: "parcel_env \<Rightarrow> int \<Rightarrow> parcel \<Rightarrow> process \<Rightarrow> (int \<times> parcel \<times> process) option" where
  "write_dup_file_descriptor E fd p w =
    (let (dupFd, w) = dup_file E fd w in
     if dupFd < 0 then Some (- pe_errno E (pw_ticks w), p, w)
     else do {
       (err, p, w) \<leftarrow> write_file_descriptor E dupFd True p w;
       Some (err, p, if err \<noteq> 0 then close_file dupFd w else w) })"

text \<open>The file descriptors of a native handle, then its numbers.\<close>

fun write_fds :: "parcel_env \<Rightarrow> int list \<Rightarrow> parcel \<Rightarrow> process \<Rightarrow> (int \<times> parcel \<times> process) option" where
  "write_fds E [] p w = Some (NO_ERROR, p, w)"
| "write_fds E (fd # fds) p w = do {
     (err, p, w) \<leftarrow> write_dup_file_descriptor E fd p w;
     if err = NO_ERROR then write_fds E fds p w else Some (err, p, w) }"

definition write_native_handle :: "parcel_env \<Rightarrow> (nat \<times> int list \<times> int list) option \<Rightarrow> parcel \<Rightarrow> process \<Rightarrow> (int \<times> parcel \<times> process) option" where
  "write_native_handle E handle p w = (case handle of
      None \<Rightarrow> Some (BAD_TYPE, p, w)
    | Some (version, fds, ints) \<Rightarrow>
        if version \<noteq> 12 then Some (BAD_TYPE, p, w)
        else do {
          (err, p, w) \<leftarrow> write_int32 E (int (length fds)) p w;
          if err \<noteq> NO_ERROR then Some (err, p, w)
          else do {
            (err, p, w) \<leftarrow> write_int32 E (int (length ints)) p w;
            if err \<noteq> NO_ERROR then Some (err, p, w)
            else do {
              (err, p, w) \<leftarrow> write_fds E fds p w;
              if err \<noteq> NO_ERROR then Some (err, p, w)
              else parcel_write E (concat (map word_bytes ints)) p w } } })"

text \<open>
  A \<^verbatim>\<open>Flattenable\<close> is what its methods say: the size, the number of files, and what
  \<^verbatim>\<open>flatten\<close> returns, puts into the buffer and into the list of files.
\<close>

record flattenable =
  fl_size :: nat
  fl_count :: nat
  fl_flatten :: "int \<times> byte list \<times> (nat \<Rightarrow> int)"

definition write_flattenable :: "parcel_env \<Rightarrow> flattenable \<Rightarrow> parcel \<Rightarrow> process \<Rightarrow> (int \<times> parcel \<times> process) option" where
  "write_flattenable E val p w = do {
     (err, p, w) \<leftarrow> write_int32 E (int (fl_size val)) p w;
     if err \<noteq> NO_ERROR then Some (err, p, w)
     else do {
       (err, p, w) \<leftarrow> write_int32 E (int (fl_count val)) p w;
       if err \<noteq> NO_ERROR then Some (err, p, w)
       else do {
         (buf, p, w) \<leftarrow> write_inplace E (PAD_SIZE (fl_size val)) p w;
         case buf of
           None \<Rightarrow> Some (BAD_VALUE, p, w)
         | Some buf \<Rightarrow>
             let (err, bytes, fds) = fl_flatten val in do {
             p \<leftarrow> put_bytes_at buf bytes p;
             if err = NO_ERROR then write_fds E (map fds [0..<fl_count val]) p w else Some (err, p, w) } } } }"

section \<open>Other parcels\<close>

text \<open>
  Appending a part of another parcel \<open>src\<close> (not of the parcel itself, whose arrays would move):
  first the range of the objects at offsets from \<open>offset\<close> to before \<open>offset + len\<close>.
\<close>

fun object_range :: "nat block \<Rightarrow> nat \<Rightarrow> nat \<Rightarrow> nat \<Rightarrow> nat \<Rightarrow> int \<times> int \<Rightarrow> (int \<times> int) option" where
  "object_range objs offset len i 0 r = Some r"
| "object_range objs offset len i (Suc k) (lo, hi) = do {
     off \<leftarrow> block_get objs i;
     object_range objs offset len (i + 1) k
       (if offset \<le> off \<and> off < szt 4 (offset + len) then (if lo = - 1 then int i else lo, int i) else (lo, hi)) }"

fun append_objects :: "parcel_env \<Rightarrow> nat block \<Rightarrow> nat \<Rightarrow> nat \<Rightarrow> nat \<Rightarrow> nat \<Rightarrow> int \<Rightarrow> parcel \<Rightarrow> process \<Rightarrow> (int \<times> parcel \<times> process) option" where
  "append_objects E objs offset startPos i 0 err p w = Some (err, p, w)"
| "append_objects E objs offset startPos i (Suc k) err p w = do {
     obj \<leftarrow> block_get objs i;
     let off = szt 4 (szsub 4 obj offset + startPos) in do {
     os \<leftarrow> block_put (m_objects p) (m_objects_size p) [off];
     let p = p\<lparr>m_objects := os, m_objects_size := Suc (m_objects_size p)\<rparr> in do {
     flat \<leftarrow> flat_at (m_data p) off;
     let w = acquire_object E flat w in
     if f_type flat = BINDER_TYPE_FD then do {
       let (fd, w) = dup_file E (int_of (f_handle flat)) w in do {
       data \<leftarrow> block_put (m_data p) off (flat_bytes (flat\<lparr>f_handle := word_of fd, f_cookie := 1\<rparr>));
       let p = p\<lparr>m_data := data, m_has_fds := True, m_fds_known := True\<rparr> in
       append_objects E objs offset startPos (i + 1) k (if m_allow_fds p then err else FDS_NOT_ALLOWED) p w } }
     else append_objects E objs offset startPos (i + 1) k err p w } } }"

definition append_from :: "parcel_env \<Rightarrow> parcel \<Rightarrow> nat \<Rightarrow> nat \<Rightarrow> parcel \<Rightarrow> process \<Rightarrow> (int \<times> parcel \<times> process) option" where
  "append_from E src offset len p w =
    (let startPos = m_data_pos p in
     if len = 0 then Some (NO_ERROR, p, w)
     else if offset > m_data_size src \<or> len > m_data_size src \<or> szt 4 (offset + len) > m_data_size src then Some (BAD_VALUE, p, w)
     else do {
       (firstIndex, lastIndex) \<leftarrow> object_range (m_objects src) offset len 0 (m_objects_size src) (- 1, - 2);
       let numObjects = lastIndex - firstIndex + 1 in do {
       (err, p, w) \<leftarrow> if szt 4 (m_data_size p + len) > m_data_capacity p then grow_data E len p w else Some (NO_ERROR, p, w);
       if err \<noteq> NO_ERROR then Some (err, p, w)
       else do {
         bs \<leftarrow> block_read (m_data src) offset len;
         data \<leftarrow> block_put (m_data p) (m_data_pos p) bs;
         let p = p\<lparr>m_data := data, m_data_pos := szt 4 (m_data_pos p + len), m_data_size := szt 4 (m_data_size p + len)\<rparr> in
         if numObjects \<le> 0 then Some (NO_ERROR, p, w)
         else do {
           (err, p, w) \<leftarrow> if m_objects_capacity p < m_objects_size p + nat numObjects
             then more_objects E (szt 4 ((m_objects_size p + nat numObjects) * 3) div 2) p w
             else Some (NO_ERROR, p, w);
           if err \<noteq> NO_ERROR then Some (err, p, w)
           else append_objects E (m_objects src) offset startPos (nat firstIndex) (nat numObjects) NO_ERROR p w } } } })"

section \<open>Files allowed or not\<close>

definition push_allow_fds :: "bool \<Rightarrow> parcel \<Rightarrow> bool \<times> parcel" where
  "push_allow_fds allowFds p = (m_allow_fds p, if allowFds then p else p\<lparr>m_allow_fds := False\<rparr>)"

definition restore_allow_fds :: "bool \<Rightarrow> parcel \<Rightarrow> parcel" where
  "restore_allow_fds lastValue p = p\<lparr>m_allow_fds := lastValue\<rparr>"

end
