(* ===== verification/Parcel_Read.thy ===== *)
theory Parcel_Read
  imports Parcel_Write
begin

text \<open>
  Reading from a parcel. Reads move the position and the hint, which are mutable; pointers into
  the data are offsets, \<open>None\<close> for \<^verbatim>\<open>NULL\<close>.
\<close>

section \<open>Raw data\<close>

definition memory_at :: "byte block \<Rightarrow> nat \<Rightarrow> nat \<Rightarrow> byte list option" where
  "memory_at b i n = (if n = 0 then Some [] else block_read b i n)"

definition enough_data :: "nat \<Rightarrow> parcel \<Rightarrow> bool" where
  "enough_data len p \<longleftrightarrow>
     szt 4 (m_data_pos p + PAD_SIZE len) \<ge> m_data_pos p \<and> szt 4 (m_data_pos p + PAD_SIZE len) \<le> m_data_size p"

definition parcel_read :: "nat \<Rightarrow> parcel \<Rightarrow> (int \<times> byte list \<times> parcel) option" where
  "parcel_read len p =
    (if enough_data len p then do {
       bs \<leftarrow> memory_at (m_data p) (m_data_pos p) len;
       Some (NO_ERROR, bs, p\<lparr>m_data_pos := szt 4 (m_data_pos p + PAD_SIZE len)\<rparr>) }
     else Some (NOT_ENOUGH_DATA, [], p))"

definition read_inplace :: "nat \<Rightarrow> parcel \<Rightarrow> nat option \<times> parcel" where
  "read_inplace len p =
    (if enough_data len p then
       (if m_data p = Null \<and> m_data_pos p = 0 then None else Some (m_data_pos p),
        p\<lparr>m_data_pos := szt 4 (m_data_pos p + PAD_SIZE len)\<rparr>)
     else (None, p))"

text \<open>A value of \<open>n\<close> bytes, which \<open>get\<close> makes of them, or the default with an error.\<close>

definition read_aligned :: "nat \<Rightarrow> (byte list \<Rightarrow> 'a) \<Rightarrow> 'a \<Rightarrow> parcel \<Rightarrow> (int \<times> 'a \<times> parcel) option" where
  "read_aligned n get dflt p =
    (if szt 4 (m_data_pos p + n) \<le> m_data_size p then do {
       bs \<leftarrow> block_read (m_data p) (m_data_pos p) n;
       Some (NO_ERROR, get bs, p\<lparr>m_data_pos := szt 4 (m_data_pos p + n)\<rparr>) }
     else Some (NOT_ENOUGH_DATA, dflt, p))"

definition word_in :: "byte list \<Rightarrow> nat" where
  "word_in bs = get_u32 (\<lambda>i. bs ! i) 0"

definition long_in :: "byte list \<Rightarrow> int" where
  "long_in bs = int_of (get_u32 (\<lambda>i. bs ! i) 4) * 2 ^ 32 + int (get_u32 (\<lambda>i. bs ! i) 0)"

definition read_int32 :: "parcel \<Rightarrow> (int \<times> int \<times> parcel) option" where
  "read_int32 = read_aligned 4 (\<lambda>bs. int_of (word_in bs)) 0"

definition read_int64 :: "parcel \<Rightarrow> (int \<times> int \<times> parcel) option" where
  "read_int64 = read_aligned 8 long_in 0"

definition read_float :: "parcel \<Rightarrow> (int \<times> nat \<times> parcel) option" where
  "read_float = read_aligned 4 word_in 0"

definition read_double :: "parcel \<Rightarrow> (int \<times> (nat \<times> nat) \<times> parcel) option" where
  "read_double = read_aligned 8 (\<lambda>bs. (get_u32 (\<lambda>i. bs ! i) 0, get_u32 (\<lambda>i. bs ! i) 4)) (0, 0)"

definition read_int_ptr :: "parcel \<Rightarrow> (int \<times> nat \<times> parcel) option" where
  "read_int_ptr = read_aligned 4 word_in 0"

section \<open>Strings\<close>

text \<open>\<^verbatim>\<open>memchr\<close> for the byte 0 in \<open>n\<close> bytes from \<open>i\<close> on: where it is.\<close>

fun find_zero :: "byte block \<Rightarrow> nat \<Rightarrow> nat \<Rightarrow> nat option option" where
  "find_zero b i 0 = Some None"
| "find_zero b i (Suc n) = do { c \<leftarrow> block_get b i; if c = 0 then Some (Some i) else find_zero b (i + 1) n }"

definition read_c_string :: "parcel \<Rightarrow> (nat option \<times> parcel) option" where
  "read_c_string p =
    (let avail = szsub 4 (m_data_size p) (m_data_pos p) in
     if avail > 0 then do {
       eos \<leftarrow> find_zero (m_data p) (m_data_pos p) avail;
       case eos of
         Some e \<Rightarrow> Some (Some (m_data_pos p), p\<lparr>m_data_pos := szt 4 (m_data_pos p + PAD_SIZE (e - m_data_pos p + 1))\<rparr>)
       | None \<Rightarrow> Some (None, p) }
     else Some (None, p))"

text \<open>
  \<^verbatim>\<open>SharedBuffer::alloc\<close>: the memory for a header of sixteen bytes and \<open>n\<close> bytes, and the header,
  for which there must be room. Copying \<open>copied\<close> bytes and a terminator needs room for them.
\<close>

definition shared_alloc :: "parcel_env \<Rightarrow> nat \<Rightarrow> process \<Rightarrow> (nat option \<times> process) option" where
  "shared_alloc E n w =
    (let total = szt 4 (16 + n) in
     if \<not> he_ok E (pw_ticks w) total then Some (None, pw_tick w)
     else if total < 16 then None
     else Some (Some (total - 16), pw_tick w))"

definition string8_new :: "parcel_env \<Rightarrow> byte block \<Rightarrow> nat \<Rightarrow> nat \<Rightarrow> process \<Rightarrow> (byte list \<times> process) option" where
  "string8_new E b off len w =
    (if len > 0 then do {
       (buf, w) \<leftarrow> shared_alloc E (szt 4 (len + 1)) w;
       case buf of
         None \<Rightarrow> Some ([], w)
       | Some room \<Rightarrow> if room < len + 1 then None else do { bs \<leftarrow> block_read b off len; Some (bs, w) } }
     else Some ([], w))"

fun units_of :: "byte list \<Rightarrow> nat list" where
  "units_of (b0 # b1 # bs) = le16 b0 b1 # units_of bs"
| "units_of _ = []"

definition string16_new :: "parcel_env \<Rightarrow> byte block \<Rightarrow> nat \<Rightarrow> nat \<Rightarrow> process \<Rightarrow> (nat list \<times> process) option" where
  "string16_new E b off len w = do {
     (buf, w) \<leftarrow> shared_alloc E (szt 4 (szt 4 (len + 1) * 2)) w;
     case buf of
       None \<Rightarrow> Some ([], w)
     | Some room \<Rightarrow>
         if room < szt 4 (len * 2) \<or> room < 2 * len + 2 then None
         else do { bs \<leftarrow> memory_at b off (szt 4 (len * 2)); Some (units_of bs, w) } }"

definition INT32_MAX :: int where "INT32_MAX = 2147483647"

definition read_string8 :: "parcel_env \<Rightarrow> parcel \<Rightarrow> process \<Rightarrow> (byte list \<times> parcel \<times> process) option" where
  "read_string8 E p w = do {
     (_, size, p) \<leftarrow> read_int32 p;
     if size > 0 \<and> size < INT32_MAX then
       let (str, p) = read_inplace (nat size + 1) p in
       case str of
         Some d \<Rightarrow> do { (s, w) \<leftarrow> string8_new E (m_data p) d (nat size) w; Some (s, p, w) }
       | None \<Rightarrow> Some ([], p, w)
     else Some ([], p, w) }"

definition read_string16_inplace :: "parcel \<Rightarrow> (nat option \<times> nat \<times> parcel) option" where
  "read_string16_inplace p = do {
     (_, size, p) \<leftarrow> read_int32 p;
     if size \<ge> 0 \<and> size < INT32_MAX then
       let (str, p) = read_inplace (szt 4 ((nat size + 1) * 2)) p in
       Some (case str of Some d \<Rightarrow> (Some d, nat size, p) | None \<Rightarrow> (None, 0, p))
     else Some (None, 0, p) }"

definition read_string16 :: "parcel_env \<Rightarrow> parcel \<Rightarrow> process \<Rightarrow> (nat list \<times> parcel \<times> process) option" where
  "read_string16 E p w = do {
     (str, len, p) \<leftarrow> read_string16_inplace p;
     case str of
       Some d \<Rightarrow> do { (s, w) \<leftarrow> string16_new E (m_data p) d len w; Some (s, p, w) }
     | None \<Rightarrow> Some ([], p, w) }"

section \<open>Headers\<close>

text \<open>The result says whether the names agree and which policy the thread gets.\<close>

definition enforce_interface :: "parcel_env \<Rightarrow> bool \<Rightarrow> nat list \<Rightarrow> parcel \<Rightarrow> process \<Rightarrow> (bool \<times> int \<times> parcel \<times> process) option" where
  "enforce_interface E oneway interface p w = do {
     (_, strictPolicy, p) \<leftarrow> read_int32 p;
     let policy = (if oneway then 0 else strictPolicy);
     (str, p, w) \<leftarrow> read_string16 E p w;
     Some (str = interface, policy, p, w) }"

definition check_interface :: "parcel_env \<Rightarrow> bool \<Rightarrow> nat list \<Rightarrow> parcel \<Rightarrow> process \<Rightarrow> (bool \<times> int \<times> parcel \<times> process) option" where
  "check_interface E oneway descriptor = enforce_interface E oneway descriptor"

definition EX_HAS_REPLY_HEADER :: int where "EX_HAS_REPLY_HEADER = - 128"

definition read_exception_code :: "parcel \<Rightarrow> (int \<times> parcel) option" where
  "read_exception_code p = do {
     (_, exception_code, p) \<leftarrow> read_int32 p;
     if exception_code = EX_HAS_REPLY_HEADER then do {
       let header_start = m_data_pos p;
       (_, header_size, p) \<leftarrow> read_int32 p;
       Some (0, set_data_position (word_of (int header_start + header_size)) p) }
     else Some (exception_code, p) }"

section \<open>Objects\<close>

fun search_forward :: "nat block \<Rightarrow> nat \<Rightarrow> nat \<Rightarrow> nat \<Rightarrow> nat option" where
  "search_forward objs dpos opos 0 = Some opos"
| "search_forward objs dpos opos (Suc k) = do {
     off \<leftarrow> block_get objs opos;
     if off < dpos then search_forward objs dpos (opos + 1) k else Some opos }"

fun search_backward :: "nat block \<Rightarrow> nat \<Rightarrow> nat \<Rightarrow> nat option" where
  "search_backward objs dpos 0 = Some 0"
| "search_backward objs dpos (Suc opos) = do {
     off \<leftarrow> block_get objs (Suc opos);
     if off > dpos then search_backward objs dpos opos else Some (Suc opos) }"

text \<open>The index of the object at \<open>dpos\<close>, sought from the hint forwards, then backwards.\<close>

definition find_object :: "nat block \<Rightarrow> nat \<Rightarrow> nat \<Rightarrow> nat \<Rightarrow> nat option option" where
  "find_object objs n hint dpos =
    (if n > 0 then do {
       opos \<leftarrow> if hint < n then search_forward objs dpos hint (n - 1 - hint) else Some (n - 1);
       off \<leftarrow> block_get objs opos;
       if off = dpos then Some (Some opos)
       else do {
         opos \<leftarrow> search_backward objs dpos opos;
         off \<leftarrow> block_get objs opos;
         Some (if off = dpos then Some opos else None) } }
     else Some None)"

definition read_object :: "bool \<Rightarrow> parcel \<Rightarrow> (nat option \<times> parcel) option" where
  "read_object nullMetaData p =
    (let dpos = m_data_pos p in
     if szt 4 (dpos + sizeof_flat) \<le> m_data_size p then do {
       let p = p\<lparr>m_data_pos := szt 4 (dpos + sizeof_flat)\<rparr>;
       null \<leftarrow> if nullMetaData then Some False
         else do { obj \<leftarrow> flat_at (m_data p) dpos; Some (f_cookie obj = 0 \<and> f_handle obj = 0) };
       if null then Some (Some dpos, p)
       else do {
         found \<leftarrow> find_object (m_objects p) (m_objects_size p) (m_next_object_hint p) dpos;
         Some (case found of
             Some opos \<Rightarrow> (Some dpos, p\<lparr>m_next_object_hint := opos + 1\<rparr>)
           | None \<Rightarrow> (None, p)) } }
     else Some (None, p))"

text \<open>
  What a pointer to a binder becomes: a local object by its address (0 for the null pointer),
  with its reference counter for a weak pointer, or the proxy for a handle.
\<close>

datatype read_binder = Got_Null | Got_Local nat | Got_Weak nat nat | Got_Proxy nat

definition proxy_for :: "parcel_env \<Rightarrow> nat \<Rightarrow> read_binder" where
  "proxy_for E h = (if pe_proxy E h then Got_Proxy h else Got_Null)"

definition unflatten_binder :: "parcel_env \<Rightarrow> parcel \<Rightarrow> (int \<times> read_binder \<times> parcel) option" where
  "unflatten_binder E p = do {
     (obj, p) \<leftarrow> read_object False p;
     case obj of
       None \<Rightarrow> Some (BAD_TYPE, Got_Null, p)
     | Some d \<Rightarrow> do {
         flat \<leftarrow> flat_at (m_data p) d;
         Some (if f_type flat = BINDER_TYPE_BINDER then (NO_ERROR, if f_cookie flat = 0 then Got_Null else Got_Local (f_cookie flat), p)
               else if f_type flat = BINDER_TYPE_HANDLE then (NO_ERROR, proxy_for E (f_handle flat), p)
               else (BAD_TYPE, Got_Null, p)) } }"

definition unflatten_weak_binder :: "parcel_env \<Rightarrow> parcel \<Rightarrow> (int \<times> read_binder \<times> parcel) option" where
  "unflatten_weak_binder E p = do {
     (obj, p) \<leftarrow> read_object False p;
     case obj of
       None \<Rightarrow> Some (BAD_TYPE, Got_Null, p)
     | Some d \<Rightarrow> do {
         flat \<leftarrow> flat_at (m_data p) d;
         Some (if f_type flat = BINDER_TYPE_BINDER then (NO_ERROR, if f_cookie flat = 0 then Got_Null else Got_Local (f_cookie flat), p)
               else if f_type flat = BINDER_TYPE_WEAK_BINDER then
                 (NO_ERROR, if f_handle flat \<noteq> 0 then Got_Weak (f_cookie flat) (f_handle flat) else Got_Null, p)
               else if f_type flat = BINDER_TYPE_HANDLE \<or> f_type flat = BINDER_TYPE_WEAK_HANDLE then
                 (NO_ERROR, proxy_for E (f_handle flat), p)
               else (BAD_TYPE, Got_Null, p)) } }"

definition read_file_descriptor :: "parcel \<Rightarrow> (int \<times> parcel) option" where
  "read_file_descriptor p = do {
     (obj, p) \<leftarrow> read_object True p;
     case obj of
       None \<Rightarrow> Some (BAD_TYPE, p)
     | Some d \<Rightarrow> do {
         flat \<leftarrow> flat_at (m_data p) d;
         Some (if f_type flat = BINDER_TYPE_FD then int_of (f_handle flat) else BAD_TYPE, p) } }"

text \<open>Descriptors read and duplicated into the array \<open>h\<close> from index \<open>i\<close> on, up to a failure.\<close>

fun read_fds :: "parcel_env \<Rightarrow> int list \<Rightarrow> nat \<Rightarrow> nat \<Rightarrow> parcel \<Rightarrow> process \<Rightarrow> (int \<times> int list \<times> parcel \<times> process) option" where
  "read_fds E h i 0 p w = Some (NO_ERROR, h, p, w)"
| "read_fds E h i (Suc n) p w = do {
     (fd, p) \<leftarrow> read_file_descriptor p;
     let (fd, w) = dup_file E fd w in do {
     h \<leftarrow> store_at h i fd;
     if fd < 0 then Some (BAD_VALUE, h, p, w) else read_fds E h (i + 1) n p w } }"

text \<open>
  \<^verbatim>\<open>native_handle_create\<close> multiplies and adds without a check and uses what \<^verbatim>\<open>malloc\<close> returns; the
  header has twelve bytes. \<^verbatim>\<open>native_handle_close\<close> closes the first \<open>numFds\<close> entries.
\<close>

definition native_handle_create :: "parcel_env \<Rightarrow> int \<Rightarrow> int \<Rightarrow> process \<Rightarrow> (int list \<times> process) option" where
  "native_handle_create E numFds numInts w =
    (let total = szt 4 (12 + szt 4 (4 * word_of (numFds + numInts))) in
     if \<not> he_ok E (pw_ticks w) total \<or> total < 12 then None
     else Some (map (\<lambda>i. int_of (he_index E (pw_ticks w) i)) [0..<(total - 12) div 4], pw_tick w))"

fun native_handle_close :: "int list \<Rightarrow> nat \<Rightarrow> nat \<Rightarrow> process \<Rightarrow> process option" where
  "native_handle_close h i 0 w = Some w"
| "native_handle_close h i (Suc n) w = do { fd \<leftarrow> load_at h i; native_handle_close h (i + 1) n (close_file fd w) }"

fun words_of :: "byte list \<Rightarrow> int list" where
  "words_of (b0 # b1 # b2 # b3 # bs) = int_of (le32 b0 b1 b2 b3) # words_of bs"
| "words_of _ = []"

definition read_native_handle :: "parcel_env \<Rightarrow> parcel \<Rightarrow> process \<Rightarrow> (int list option \<times> parcel \<times> process) option" where
  "read_native_handle E p w = do {
     (err, numFds, p) \<leftarrow> read_int32 p;
     if err \<noteq> NO_ERROR then Some (None, p, w)
     else do {
       (err, numInts, p) \<leftarrow> read_int32 p;
       if err \<noteq> NO_ERROR then Some (None, p, w)
       else do {
         (h, w) \<leftarrow> native_handle_create E numFds numInts w;
         (_, h, p, w) \<leftarrow> read_fds E h 0 (nat numFds) p w;
         (err, bs, p) \<leftarrow> parcel_read (szt 4 (4 * word_of numInts)) p;
         if err \<noteq> NO_ERROR then do { w \<leftarrow> native_handle_close h 0 (nat numFds) w; Some (None, p, w) }
         else do {
           h \<leftarrow> if bs = [] then Some h else if numFds < 0 then None else put_at h (nat numFds) (words_of bs);
           Some (Some h, p, w) } } } }"

text \<open>
  Reading a \<^verbatim>\<open>Flattenable\<close> hands the bytes and the duplicated descriptors to its method
  \<^verbatim>\<open>unflatten\<close>. The array for these comes from \<^verbatim>\<open>new\<close>, which throws when there is no memory.
\<close>

definition read_flattenable :: "parcel_env \<Rightarrow> (byte list \<Rightarrow> int list \<Rightarrow> int) \<Rightarrow> parcel \<Rightarrow> process \<Rightarrow> (int \<times> parcel \<times> process) option" where
  "read_flattenable E unflatten p w = do {
     (_, len, p) \<leftarrow> read_int32 p;
     (_, fd_count, p) \<leftarrow> read_int32 p;
     let len = word_of len;
     let fd_count = word_of fd_count;
     let (buf, p) = read_inplace (PAD_SIZE len) p;
     case buf of
       None \<Rightarrow> Some (BAD_VALUE, p, w)
     | Some d \<Rightarrow>
         if 2 ^ 32 \<le> 4 * fd_count \<or> fd_count > 0 \<and> \<not> he_ok E (pw_ticks w) (4 * fd_count) then None
         else do {
           let fds = map (\<lambda>i. int_of (he_index E (pw_ticks w) i)) [0..<fd_count];
           let w = (if fd_count > 0 then pw_tick w else w);
           (err, fds, p, w) \<leftarrow> read_fds E fds 0 fd_count p w;
           if err = NO_ERROR then do {
             bs \<leftarrow> memory_at (m_data p) d len;
             Some (unflatten bs fds, p, w) }
           else Some (err, p, w) } }"

section \<open>Descriptors\<close>

fun scan_loop :: "byte block \<Rightarrow> nat block \<Rightarrow> nat \<Rightarrow> nat \<Rightarrow> bool option" where
  "scan_loop data objs i 0 = Some False"
| "scan_loop data objs i (Suc k) = do {
     off \<leftarrow> block_get objs i;
     flat \<leftarrow> flat_at data off;
     if f_type flat = BINDER_TYPE_FD then Some True else scan_loop data objs (i + 1) k }"

definition scan_for_fds :: "parcel \<Rightarrow> parcel option" where
  "scan_for_fds p = do {
     hasFds \<leftarrow> scan_loop (m_data p) (m_objects p) 0 (m_objects_size p);
     Some (p\<lparr>m_has_fds := hasFds, m_fds_known := True\<rparr>) }"

definition has_file_descriptors :: "parcel \<Rightarrow> (bool \<times> parcel) option" where
  "has_file_descriptors p = do {
     p \<leftarrow> if m_fds_known p then Some p else scan_for_fds p;
     Some (m_has_fds p, p) }"

fun close_loop :: "byte block \<Rightarrow> nat block \<Rightarrow> nat \<Rightarrow> process \<Rightarrow> process option" where
  "close_loop data objs 0 w = Some w"
| "close_loop data objs (Suc i) w = do {
     off \<leftarrow> block_get objs i;
     flat \<leftarrow> flat_at data off;
     close_loop data objs i (if f_type flat = BINDER_TYPE_FD then close_file (int_of (f_handle flat)) w else w) }"

definition close_file_descriptors :: "parcel \<Rightarrow> process \<Rightarrow> process option" where
  "close_file_descriptors p w = close_loop (m_data p) (m_objects p) (m_objects_size p) w"

text \<open>Data of somebody else, with the cookie it is handed back with.\<close>

definition ipc_set_data_reference ::
  "parcel_env \<Rightarrow> byte block \<Rightarrow> nat \<Rightarrow> nat block \<Rightarrow> nat \<Rightarrow> nat option \<Rightarrow> parcel \<Rightarrow> process \<Rightarrow> (parcel \<times> process) option" where
  "ipc_set_data_reference E data dataSize objects objectsCount owner p w = do {
     w \<leftarrow> free_data_no_init E p w;
     p \<leftarrow> scan_for_fds (p\<lparr>m_error := NO_ERROR, m_data := data, m_data_size := dataSize, m_data_capacity := dataSize,
         m_data_pos := 0, m_objects := objects, m_objects_size := objectsCount, m_objects_capacity := objectsCount,
         m_next_object_hint := 0, m_owner := owner\<rparr>);
     Some (p, w) }"

section \<open>Blobs\<close>

datatype blob_ptr = No_Data | In_Parcel nat | Mapped_At "nat option"

record blob =
  bl_mapped :: bool
  bl_data :: blob_ptr
  bl_size :: nat

definition blob_init :: "bool \<Rightarrow> blob_ptr \<Rightarrow> nat \<Rightarrow> blob" where
  "blob_init is_mapped ptr len = \<lparr>bl_mapped = is_mapped, bl_data = ptr, bl_size = len\<rparr>"

definition blob_clear :: blob where
  "blob_clear = \<lparr>bl_mapped = False, bl_data = No_Data, bl_size = 0\<rparr>"

text \<open>\<^verbatim>\<open>munmap\<close> of what \<^verbatim>\<open>mmap\<close> returned, \<open>None\<close> for \<^verbatim>\<open>MAP_FAILED\<close>.\<close>

definition unmap :: "nat option \<Rightarrow> nat \<Rightarrow> process \<Rightarrow> process" where
  "unmap a n w = w\<lparr>pw_unmapped := pw_unmapped w @ [(a, n)]\<rparr>"

definition blob_release :: "blob \<Rightarrow> process \<Rightarrow> blob \<times> process" where
  "blob_release b w =
    (blob_clear, if bl_mapped b then (case bl_data b of Mapped_At a \<Rightarrow> unmap a (bl_size b) w | _ \<Rightarrow> w) else w)"

definition IN_PLACE_BLOB_LIMIT :: nat where "IN_PLACE_BLOB_LIMIT = 40 * 1024"
definition PROT_READ :: nat where "PROT_READ = 1"
definition PROT_WRITE :: nat where "PROT_WRITE = 2"

text \<open>The part of \<^verbatim>\<open>writeBlob\<close> that follows a successful \<^verbatim>\<open>mmap\<close>.\<close>

definition write_mapped_blob :: "parcel_env \<Rightarrow> int \<Rightarrow> parcel \<Rightarrow> process \<Rightarrow> (int \<times> parcel \<times> process) option" where
  "write_mapped_blob E fd p w =
    (let result = pe_protect E (pw_ticks w) fd PROT_READ; w = pw_tick w in
     if result < 0 then Some (result, p, w)
     else do {
       (status, p, w) \<leftarrow> write_int32 E 1 p w;
       if status = NO_ERROR then write_file_descriptor E fd True p w else Some (status, p, w) })"

definition write_blob :: "parcel_env \<Rightarrow> nat \<Rightarrow> parcel \<Rightarrow> process \<Rightarrow> (int \<times> blob option \<times> parcel \<times> process) option" where
  "write_blob E len p w =
    (if \<not> m_allow_fds p \<or> len \<le> IN_PLACE_BLOB_LIMIT then do {
       (status, p, w) \<leftarrow> write_int32 E 0 p w;
       if status \<noteq> NO_ERROR then Some (status, None, p, w)
       else do {
         (ptr, p, w) \<leftarrow> write_inplace E len p w;
         case ptr of
           None \<Rightarrow> Some (NO_MEMORY, None, p, w)
         | Some d \<Rightarrow> Some (NO_ERROR, Some (blob_init False (In_Parcel d) len), p, w) } }
     else
       let fd = pe_ashmem E (pw_ticks w) len; w = pw_tick w in
       if fd < 0 then Some (NO_MEMORY, None, p, w)
       else
         let result = pe_protect E (pw_ticks w) fd (or PROT_READ PROT_WRITE); w = pw_tick w in
         if result < 0 then Some (result, None, p, close_file fd w)
         else
           let ptr = pe_map E (pw_ticks w) fd len; w = pw_tick w in
           if ptr = None then Some (- pe_errno E (pw_ticks w), None, p, close_file fd (unmap ptr len w))
           else do {
             (status, p, w) \<leftarrow> write_mapped_blob E fd p w;
             if status = NO_ERROR then Some (NO_ERROR, Some (blob_init True (Mapped_At ptr) len), p, w)
             else Some (status, None, p, close_file fd (unmap ptr len w)) })"

text \<open>\<^verbatim>\<open>readBlob\<close> compares what \<^verbatim>\<open>mmap\<close> returns with \<^verbatim>\<open>NULL\<close>, which it never is.\<close>

definition read_blob :: "parcel_env \<Rightarrow> nat \<Rightarrow> parcel \<Rightarrow> process \<Rightarrow> (int \<times> blob option \<times> parcel \<times> process) option" where
  "read_blob E len p w = do {
     (status, useAshmem, p) \<leftarrow> read_int32 p;
     if status \<noteq> NO_ERROR then Some (status, None, p, w)
     else if useAshmem = 0 then
       let (ptr, p) = read_inplace len p in
       Some (case ptr of
           None \<Rightarrow> (BAD_VALUE, None, p, w)
         | Some d \<Rightarrow> (NO_ERROR, Some (blob_init False (In_Parcel d) len), p, w))
     else do {
       (fd, p) \<leftarrow> read_file_descriptor p;
       if fd = BAD_TYPE then Some (BAD_VALUE, None, p, w)
       else
         let ptr = pe_map E (pw_ticks w) fd len; w = pw_tick w in
         Some (NO_ERROR, Some (blob_init True (Mapped_At ptr) len), p, w) } }"

end
