(* ===== verification/Parcel_Append.thy ===== *)
theory Parcel_Append
  imports Parcel_Read
begin

text \<open>
  The invariant of a parcel that is written from its start to its end, what a write promises,
  and how such promises compose.
\<close>

section \<open>Contents\<close>

definition contents :: "parcel \<Rightarrow> byte list" where
  "contents p = (case m_data p of Block bs \<Rightarrow> take (m_data_size p) bs | _ \<Rightarrow> [])"

definition offsets :: "parcel \<Rightarrow> nat list" where
  "offsets p = (case m_objects p of Block xs \<Rightarrow> take (m_objects_size p) xs | _ \<Rightarrow> [])"

definition block_ok :: "'a block \<Rightarrow> nat \<Rightarrow> bool" where
  "block_ok b n = (case b of Null \<Rightarrow> n = 0 | Freed \<Rightarrow> False | Block xs \<Rightarrow> length xs = n)"

lemma block_ok_simps [simp]: "block_ok Null n \<longleftrightarrow> n = 0" "\<not> block_ok Freed n" "block_ok (Block xs) n \<longleftrightarrow> length xs = n"
  by (simp_all add: block_ok_def)

text \<open>Objects lie one behind the other, from \<open>lo\<close> on and in front of \<open>n\<close>.\<close>

fun apart :: "nat \<Rightarrow> nat list \<Rightarrow> nat \<Rightarrow> bool" where
  "apart lo [] n \<longleftrightarrow> lo \<le> n"
| "apart lo (x # xs) n \<longleftrightarrow> lo \<le> x \<and> apart (x + sizeof_flat) xs n"

lemma apart_append: "apart lo xs a \<Longrightarrow> apart a ys n \<Longrightarrow> apart lo (xs @ ys) n"
proof (induction xs arbitrary: lo)
  case Nil
  then show ?case by (cases ys) auto
qed simp

lemma apart_end: "apart lo xs a \<Longrightarrow> a \<le> b \<Longrightarrow> apart lo xs b"
  using apart_append [of lo xs a "[]" b] by simp

lemma apart_room: "apart lo xs n \<Longrightarrow> lo + 16 * length xs \<le> n"
proof (induction xs arbitrary: lo)
  case (Cons x xs)
  then have "lo \<le> x" and "x + sizeof_flat + 16 * length xs \<le> n" by simp_all
  then show ?case by (simp add: sizeof_flat_def)
qed simp

lemma apart_mem: "apart lo xs n \<Longrightarrow> x \<in> set xs \<Longrightarrow> lo \<le> x \<and> x + sizeof_flat \<le> n"
proof (induction xs arbitrary: lo)
  case (Cons y xs)
  have "y + sizeof_flat \<le> n" using Cons.prems(1) apart_room [of "y + sizeof_flat" xs n] by simp
  then show ?case using Cons by (auto dest!: Cons.IH)
qed simp

lemma apart_shift: "apart lo xs n \<Longrightarrow> apart (d + lo) (map (\<lambda>x. d + x) xs) (d + n)"
  by (induction xs arbitrary: lo) (auto simp: add.assoc)

lemma offsets_update [simp]: "offsets (p\<lparr>m_data_pos := a\<rparr>) = offsets p" "offsets (p\<lparr>m_data_size := a\<rparr>) = offsets p"
  "offsets (p\<lparr>m_data := b\<rparr>) = offsets p" "offsets (p\<lparr>m_data_capacity := a\<rparr>) = offsets p" "offsets (p\<lparr>m_error := e\<rparr>) = offsets p"
  "offsets (p\<lparr>m_objects_capacity := a\<rparr>) = offsets p" "offsets (p\<lparr>m_has_fds := c\<rparr>) = offsets p" "offsets (p\<lparr>m_fds_known := c\<rparr>) = offsets p"
  "offsets (p\<lparr>m_next_object_hint := a\<rparr>) = offsets p" "offsets (p\<lparr>m_allow_fds := c\<rparr>) = offsets p"
  by (simp_all add: offsets_def split: block.split)

lemma contents_update [simp]: "contents (p\<lparr>m_data_pos := a\<rparr>) = contents p" "contents (p\<lparr>m_error := e\<rparr>) = contents p"
  "contents (p\<lparr>m_data_capacity := a\<rparr>) = contents p" "contents (p\<lparr>m_objects := b\<rparr>) = contents p"
  "contents (p\<lparr>m_objects_size := a\<rparr>) = contents p" "contents (p\<lparr>m_objects_capacity := a\<rparr>) = contents p"
  "contents (p\<lparr>m_has_fds := c\<rparr>) = contents p" "contents (p\<lparr>m_fds_known := c\<rparr>) = contents p"
  "contents (p\<lparr>m_next_object_hint := a\<rparr>) = contents p" "contents (p\<lparr>m_allow_fds := c\<rparr>) = contents p"
  by (simp_all add: contents_def split: block.split)

section \<open>The invariant\<close>

definition parcel_ok :: "parcel \<Rightarrow> bool" where
  "parcel_ok p \<longleftrightarrow>
     block_ok (m_data p) (m_data_capacity p) \<and> m_data_size p \<le> m_data_capacity p
   \<and> block_ok (m_objects p) (m_objects_capacity p) \<and> m_objects_size p \<le> m_objects_capacity p
   \<and> apart 0 (offsets p) (m_data_size p)"

definition appending :: "parcel \<Rightarrow> bool" where
  "appending p \<longleftrightarrow>
     parcel_ok p \<and> m_owner p = None \<and> m_data_pos p = m_data_size p
   \<and> 4 dvd m_data_size p \<and> (\<forall>x \<in> set (offsets p). 4 dvd x)"

lemma contents_length: "parcel_ok p \<Longrightarrow> length (contents p) = m_data_size p"
  by (auto simp: parcel_ok_def contents_def split: block.splits)

lemma offsets_length: "parcel_ok p \<Longrightarrow> length (offsets p) = m_objects_size p"
  by (auto simp: parcel_ok_def offsets_def split: block.splits)

lemma init_appending: "appending init_state"
  by (simp add: init_state_def appending_def parcel_ok_def offsets_def)

text \<open>The references a parcel holds, and what a process has besides.\<close>

definition counts :: "parcel_env \<Rightarrow> flat_binder \<Rightarrow> ref_key \<Rightarrow> int" where
  "counts E f k =
    (if f_type f = BINDER_TYPE_BINDER then if f_handle f \<noteq> 0 \<and> k = Strong_Local (f_cookie f) then 1 else 0
     else if f_type f = BINDER_TYPE_WEAK_BINDER then if f_handle f \<noteq> 0 \<and> k = Weak_Local (f_handle f) then 1 else 0
     else if f_type f = BINDER_TYPE_HANDLE then if pe_proxy E (f_handle f) \<and> k = Strong_Handle (f_handle f) then 1 else 0
     else if f_type f = BINDER_TYPE_WEAK_HANDLE then if pe_proxy E (f_handle f) \<and> k = Weak_Handle (f_handle f) then 1 else 0
     else 0)"

definition flat_in :: "byte list \<Rightarrow> nat \<Rightarrow> flat_binder" where
  "flat_in bs off = (let xs = take sizeof_flat (drop off bs) in
     \<lparr>f_type = fp_type (\<lambda>i. xs ! i) 0, f_flags = fp_flags (\<lambda>i. xs ! i) 0,
      f_handle = fp_handle (\<lambda>i. xs ! i) 0, f_cookie = fp_cookie (\<lambda>i. xs ! i) 0\<rparr>)"

definition refs_held :: "parcel_env \<Rightarrow> byte list \<Rightarrow> nat list \<Rightarrow> ref_key \<Rightarrow> int" where
  "refs_held E bs xs k = (\<Sum>x \<leftarrow> xs. counts E (flat_in bs x) k)"

definition others :: "parcel_env \<Rightarrow> parcel \<Rightarrow> process \<Rightarrow> ref_key \<Rightarrow> int" where
  "others E p w k = pw_refs w k - refs_held E (contents p) (offsets p) k"

lemma acquire_counts: "pw_refs (acquire_object E f w) k = pw_refs w k + counts E f k"
  by (auto simp: acquire_object_def counts_def add_ref_def)

lemma release_counts: "pw_refs (release_object_ref E f w) k = pw_refs w k - counts E f k"
  by (auto simp: release_object_ref_def counts_def add_ref_def close_file_def)

lemma refs_held_append: "refs_held E bs (xs @ ys) k = refs_held E bs xs k + refs_held E bs ys k"
  by (simp add: refs_held_def)

lemma flat_in_append: "off + sizeof_flat \<le> length bs \<Longrightarrow> flat_in (bs @ cs) off = flat_in bs off"
  by (simp add: flat_in_def)

lemma refs_held_extend:
  assumes "apart lo xs (length bs)"
  shows "refs_held E (bs @ cs) xs k = refs_held E bs xs k"
  unfolding refs_held_def using apart_mem [OF assms] by (intro arg_cong [of _ _ sum_list] map_cong refl) (simp add: flat_in_append)

section \<open>What a write promises\<close>

definition LIMIT :: nat where "LIMIT = 0x40000000"

definition grown :: "parcel \<Rightarrow> byte list \<Rightarrow> nat list \<Rightarrow> parcel \<Rightarrow> bool" where
  "grown p bs xs p' \<longleftrightarrow>
     appending p' \<and> contents p' = contents p @ bs \<and> offsets p' = offsets p @ map (\<lambda>x. m_data_size p + x) xs
   \<and> m_allow_fds p' = m_allow_fds p"

definition partly :: "byte list \<Rightarrow> nat list \<Rightarrow> byte list \<Rightarrow> nat list \<Rightarrow> bool" where
  "partly bs xs bs' xs' \<longleftrightarrow> (\<exists>n m. bs' = take n bs \<and> xs' = take m xs)"

text \<open>Memory is never refused, and no earlier write has failed.\<close>

definition generous :: "parcel_env \<Rightarrow> bool" where
  "generous E \<longleftrightarrow> (\<forall>k n. n < 2 ^ 32 \<longrightarrow> he_ok E k n)"

definition lucky :: "parcel_env \<Rightarrow> parcel \<Rightarrow> bool" where
  "lucky E p \<longleftrightarrow> generous E \<and> m_error p = NO_ERROR"

definition promised :: "parcel_env \<Rightarrow> byte list \<Rightarrow> nat list \<Rightarrow> parcel \<Rightarrow> process \<Rightarrow> (int \<times> parcel \<times> process) option \<Rightarrow> bool" where
  "promised E bs xs p w r \<longleftrightarrow> (\<exists>err p' w'. r = Some (err, p', w') \<and> others E p' w' = others E p w \<and>
     (if err = NO_ERROR then grown p bs xs p' else \<exists>bs' xs'. partly bs xs bs' xs' \<and> grown p bs' xs' p') \<and>
     (lucky E p \<longrightarrow> err = NO_ERROR \<and> m_error p' = NO_ERROR))"

definition appends :: "parcel_env \<Rightarrow> (parcel \<Rightarrow> process \<Rightarrow> (int \<times> parcel \<times> process) option) \<Rightarrow> byte list \<Rightarrow> nat list \<Rightarrow> bool" where
  "appends E f bs xs \<longleftrightarrow> (\<forall>p w. appending p \<longrightarrow> m_allow_fds p \<longrightarrow> m_data_size p + length bs \<le> LIMIT \<longrightarrow> promised E bs xs p w (f p w))"

lemma grown_size: "grown p bs xs p' \<Longrightarrow> appending p \<Longrightarrow> m_data_size p' = m_data_size p + length bs"
  using contents_length [of p] contents_length [of p'] by (auto simp: grown_def appending_def)

lemma grown_refl: "appending p \<Longrightarrow> grown p [] [] p"
  by (simp add: grown_def)

lemma grown_trans:
  assumes "appending p" and "grown p bs xs q" and "grown q cs ys r"
  shows "grown p (bs @ cs) (xs @ map (\<lambda>x. length bs + x) ys) r"
  using assms(2,3) grown_size [OF assms(2,1)] by (simp add: grown_def add.assoc)

lemma partly_second:
  assumes "partly cs ys cs' ys'"
  shows "partly (bs @ cs) (xs @ map g ys) (bs @ cs') (xs @ map g ys')"
proof -
  obtain n m where "cs' = take n cs" and "ys' = take m ys" using assms by (auto simp: partly_def)
  then have "bs @ cs' = take (length bs + n) (bs @ cs)" and "xs @ map g ys' = take (length xs + m) (xs @ map g ys)"
    by (simp_all add: take_map)
  then show ?thesis unfolding partly_def by blast
qed

lemma partly_first:
  assumes "partly bs xs bs' xs'"
  shows "partly (bs @ cs) (xs @ ys) bs' xs'"
proof -
  obtain n m where "bs' = take n bs" and "xs' = take m xs" using assms by (auto simp: partly_def)
  then have "bs' = take (min n (length bs)) (bs @ cs)" and "xs' = take (min m (length xs)) (xs @ ys)" by (simp_all add: min_def)
  then show ?thesis unfolding partly_def by blast
qed

lemma partly_none: "partly bs xs [] []"
  unfolding partly_def by (metis take0)

text \<open>Making room leaves what a parcel holds; storing at its end appends.\<close>

section \<open>Room for data\<close>

definition enlarged :: "parcel \<Rightarrow> parcel \<Rightarrow> bool" where
  "enlarged p q \<longleftrightarrow> grown p [] [] q \<and> m_objects q = m_objects p \<and> m_objects_size q = m_objects_size p
     \<and> m_objects_capacity q = m_objects_capacity p \<and> m_data_pos q = m_data_pos p"

lemma malloc_bytes_length: "malloc_bytes E n w = (Some bs, w') \<Longrightarrow> length bs = n"
  by (auto simp: malloc_bytes_def split: if_splits)

lemma malloc_refs: "malloc_bytes E n w = (r, w') \<Longrightarrow> pw_refs w' = pw_refs w" "malloc_objects E n w = (s, w') \<Longrightarrow> pw_refs w' = pw_refs w"
  by (auto simp: malloc_bytes_def malloc_objects_def pw_tick_def)

lemma grow_data_ok:
  assumes A: "appending p" and big: "m_data_capacity p < m_data_size p + len" and L: "m_data_size p + len \<le> LIMIT"
  shows "\<exists>err q w'. grow_data E len p w = Some (err, q, w') \<and> pw_refs w' = pw_refs w \<and> enlarged p q
    \<and> (if err = NO_ERROR then m_data_size p + len \<le> m_data_capacity q \<and> (\<exists>bs. m_data q = Block bs)
       else err = NO_MEMORY \<and> m_error q = NO_MEMORY)
    \<and> (generous E \<longrightarrow> err = NO_ERROR \<and> m_error q = m_error p)"
proof -
  define N where "N = (m_data_size p + len) * 3 div 2"
  have s: "m_data_size p \<le> m_data_capacity p" using A by (simp add: appending_def parcel_ok_def)
  have N: "szt 4 ((m_data_size p + len) * 3) div 2 = N" using L by (simp add: N_def LIMIT_def szt_id)
  have N': "m_data_size p + len \<le> N" "m_data_size p < N" "0 < N" using big s by (auto simp: N_def)
  have G: "grow_data E len p w = continue_write E N p w" using N' by (simp only: grow_data_def N Let_def not_le [symmetric] if_False)
  have mem: "generous E \<longrightarrow> fst (malloc_bytes E N w) \<noteq> None" using L by (simp add: malloc_bytes_def generous_def N_def LIMIT_def)
  have own: "m_owner p = None" using A by (simp add: appending_def)
  have kept: "kept_objects p N = Some (m_objects_size p)" using N' by (simp add: kept_objects_def)
  show ?thesis
  proof (cases "m_data p")
    case Null
    then have z: "m_data_size p = 0" "m_data_pos p = 0" using A by (auto simp: appending_def parcel_ok_def)
    obtain d v where m: "malloc_bytes E N w = (d, v)" by (cases "malloc_bytes E N w")
    show ?thesis
    proof (cases d)
      case None
      then show ?thesis using A m mem malloc_refs(1) [OF m]
        by (simp add: G continue_write_def kept own Null continue_first_def enlarged_def grown_def appending_def parcel_ok_def
            contents_def NO_ERROR_def NO_MEMORY_def)
    next
      case (Some bs)
      then show ?thesis using A m mem malloc_refs(1) [OF m] malloc_bytes_length [of E N w bs v] N' z
        by (simp add: G continue_write_def kept own Null continue_first_def enlarged_def grown_def appending_def parcel_ok_def
            contents_def NO_ERROR_def NO_MEMORY_def)
    qed
  next
    case Freed
    then show ?thesis using A by (simp add: appending_def parcel_ok_def)
  next
    case (Block xs)
    have lx: "length xs = m_data_capacity p" using A Block by (simp add: appending_def parcel_ok_def)
    have more: "m_data_capacity p < N" using big N' by simp
    obtain d v where m: "malloc_bytes E N w = (d, v)" by (cases "malloc_bytes E N w")
    show ?thesis
    proof (cases d)
      case None
      then show ?thesis using A m mem malloc_refs(1) [OF m] N' more
        by (simp add: G continue_write_def kept own Block continue_own_def shrink_objects_def realloc_bytes_def realloc_with_def
            enlarged_def grown_def appending_def parcel_ok_def contents_def NO_ERROR_def NO_MEMORY_def)
    next
      case (Some bs)
      then show ?thesis using A m mem malloc_refs(1) [OF m] malloc_bytes_length [of E N w bs v] N' more lx s
        by (simp add: G continue_write_def kept own Block continue_own_def shrink_objects_def realloc_bytes_def realloc_with_def
            enlarged_def grown_def appending_def parcel_ok_def contents_def NO_ERROR_def NO_MEMORY_def)
    qed
  qed
qed

lemma make_room_ok:
  assumes A: "appending p" and L: "m_data_size p + len \<le> LIMIT"
  shows "\<exists>err q w'. make_room E len p w = Some (err, q, w') \<and> pw_refs w' = pw_refs w \<and> enlarged p q
    \<and> (err = NO_ERROR \<longrightarrow> m_data_size p + len \<le> m_data_capacity q) \<and> (err \<noteq> NO_ERROR \<longrightarrow> err = NO_MEMORY \<and> m_error q = NO_MEMORY)
    \<and> (generous E \<longrightarrow> err = NO_ERROR \<and> m_error q = m_error p)"
proof (cases "m_data_size p + len \<le> m_data_capacity p")
  case True
  have "szt 4 (m_data_pos p + len) = m_data_size p + len" using A L by (simp add: appending_def LIMIT_def szt_id)
  then have "make_room E len p w = Some (NO_ERROR, p, w)" using True by (simp add: make_room_def)
  then show ?thesis using A True by (simp add: enlarged_def grown_refl)
next
  case False
  have "szt 4 (m_data_pos p + len) = m_data_size p + len" using A L by (simp add: appending_def LIMIT_def szt_id)
  then have "make_room E len p w = grow_data E len p w" using False by (simp add: make_room_def)
  then show ?thesis using grow_data_ok [OF A _ L, of E w] False by (auto split: if_splits)
qed

section \<open>Storing at the end\<close>

lemma enlarged_trans: "enlarged p q \<Longrightarrow> grown q bs xs r \<Longrightarrow> appending p \<Longrightarrow> grown p bs xs r"
  using grown_size [of p "[]" "[]" q] by (simp add: enlarged_def grown_def)

text \<open>\<open>bs\<close> has been put behind the data of \<open>p\<close>, and the position follows it.\<close>

lemma store_end:
  assumes A: "appending p" and room: "m_data_size p + length bs \<le> m_data_capacity p" and ne: "bs \<noteq> []"
    and L: "m_data_size p + length bs \<le> LIMIT"
  obtains d where "m_data p = Block d" and "put_at d (m_data_size p) bs = Some (take (m_data_size p) d @ bs @ drop (m_data_size p + length bs) d)"
    and "store_data bs p = Some (p\<lparr>m_data := Block (take (m_data_size p) d @ bs @ drop (m_data_size p + length bs) d)\<rparr>)"
proof (cases "m_data p")
  case Null
  then show ?thesis using A room ne by (auto simp: appending_def parcel_ok_def)
next
  case Freed
  then show ?thesis using A by (simp add: appending_def parcel_ok_def)
next
  case (Block d)
  then have "put_at d (m_data_size p) bs = Some (take (m_data_size p) d @ bs @ drop (m_data_size p + length bs) d)"
    using A room by (simp add: put_at_def appending_def parcel_ok_def)
  moreover have "m_data_pos p = m_data_size p" using A by (simp add: appending_def)
  ultimately show ?thesis using that [OF Block] ne by (simp add: store_data_def block_put_def Block)
qed

lemma finish_at:
  assumes "m_data_pos p = m_data_size p" and "m_data_size p + len \<le> LIMIT"
  shows "finish_write len p = p\<lparr>m_data_pos := m_data_size p + len, m_data_size := m_data_size p + len\<rparr>"
proof -
  have "szt 4 (m_data_size p + len) = m_data_size p + len" using assms(2) by (simp add: LIMIT_def szt_id)
  then show ?thesis using assms(1) by (cases p) (simp add: finish_write_def Let_def)
qed

lemma finish_end:
  assumes A: "appending p" and d: "m_data p = Block d" and room: "m_data_size p + length bs \<le> m_data_capacity p"
    and L: "m_data_size p + length bs \<le> LIMIT" and four: "4 dvd length bs"
  shows "grown p bs [] (finish_write (length bs) (p\<lparr>m_data := Block (take (m_data_size p) d @ bs @ drop (m_data_size p + length bs) d)\<rparr>))"
proof -
  have "apart 0 (offsets p) (m_data_size p + length bs)" using A by (auto simp: appending_def parcel_ok_def elim: apart_end)
  then show ?thesis using A d room four L
    by (simp add: grown_def appending_def parcel_ok_def finish_at contents_def)
qed

lemma finish_nothing: "appending p \<Longrightarrow> m_data_size p \<le> LIMIT \<Longrightarrow> grown p [] [] (finish_write 0 p)"
  by (simp add: grown_def appending_def parcel_ok_def finish_at contents_def split: block.split)

lemma finish_error [simp]: "m_error (finish_write n p) = m_error p"
  by (simp add: finish_write_def Let_def)

lemma store_error: "store_data bs p = Some q \<Longrightarrow> m_error q = m_error p"
  by (auto simp: store_data_def split: if_splits Option.bind_splits)

lemma store_grows:
  assumes A: "appending p" and room: "m_data_size p + length bs \<le> m_data_capacity p"
    and L: "m_data_size p + length bs \<le> LIMIT" and four: "4 dvd length bs"
  obtains q where "store_data bs p = Some q" and "grown p bs [] (finish_write (length bs) q)" and "m_error (finish_write (length bs) q) = m_error p"
proof (cases "bs = []")
  case True
  then show ?thesis using that [of p] finish_nothing A L by (simp add: store_data_def finish_error)
next
  case False
  obtain d where d: "m_data p = Block d"
    and st: "store_data bs p = Some (p\<lparr>m_data := Block (take (m_data_size p) d @ bs @ drop (m_data_size p + length bs) d)\<rparr>)"
    by (rule store_end [OF A room False L])
  show ?thesis by (rule that [OF st finish_end [OF A d room L four]]) simp
qed

section \<open>References do not change\<close>

lemma others_grown:
  assumes "appending p" and "grown p bs [] q" and "pw_refs w' = pw_refs w"
  shows "others E q w' = others E p w"
proof
  fix k
  have "apart 0 (offsets p) (length (contents p))" using assms(1) by (simp add: appending_def parcel_ok_def contents_length)
  then show "others E q w' k = others E p w k" using assms(2,3) refs_held_extend by (simp add: others_def grown_def)
qed

lemma promised_partly:
  assumes "partly bs xs bs' xs'" and "grown p bs' xs' q" and "others E q v = others E p w" and "err \<noteq> NO_ERROR" and "\<not> lucky E p"
  shows "promised E bs xs p w (Some (err, q, v))"
  using assms by (auto simp: promised_def)

lemma promised_grown:
  assumes "grown p bs xs q" and "others E q v = others E p w" and "lucky E p \<Longrightarrow> m_error q = NO_ERROR"
  shows "promised E bs xs p w (Some (NO_ERROR, q, v))"
  using assms by (auto simp: promised_def)

lemma write_aligned_appends: "4 dvd length bs \<Longrightarrow> appends E (write_aligned E bs) bs []"
  unfolding appends_def
proof (intro allI impI)
  fix p w
  assume four: "4 dvd length bs" and A: "appending p" and L: "m_data_size p + length bs \<le> LIMIT"
  obtain err q v where r: "make_room E (length bs) p w = Some (err, q, v)" and k: "pw_refs v = pw_refs w" and e: "enlarged p q"
    and ok: "err = NO_ERROR \<Longrightarrow> m_data_size p + length bs \<le> m_data_capacity q"
    and lucky: "generous E \<Longrightarrow> err = NO_ERROR \<and> m_error q = m_error p"
    using make_room_ok [OF A L, of E w] by blast
  have gq: "grown p [] [] q" and Aq: "appending q" and sz: "m_data_size q = m_data_size p"
    using e grown_size [OF _ A, of "[]" "[]" q] by (auto simp: enlarged_def grown_def)
  show "promised E bs [] p w (write_aligned E bs p w)"
  proof (cases "err = NO_ERROR")
    case True
    have room: "m_data_size q + length bs \<le> m_data_capacity q" and L': "m_data_size q + length bs \<le> LIMIT"
      using ok [OF True] L sz by simp_all
    obtain q' where st: "store_data bs q = Some q'" and g: "grown q bs [] (finish_write (length bs) q')"
      and er: "m_error (finish_write (length bs) q') = m_error q"
      by (rule store_grows [OF Aq room L' four])
    have g': "grown p bs [] (finish_write (length bs) q')" by (rule enlarged_trans [OF e g A])
    show ?thesis using r st True promised_grown [OF g' others_grown [OF A g' k]] er lucky
      by (simp add: write_aligned_def lucky_def)
  next
    case False
    have "\<not> lucky E p" using lucky False by (auto simp: lucky_def)
    then show ?thesis using r False promised_partly [OF partly_none gq others_grown [OF A gq k] False]
      by (simp add: write_aligned_def)
  qed
qed

text \<open>What each kind of write appends, and how writes follow each other.\<close>

section \<open>One after the other\<close>

definition then_write :: "(parcel \<Rightarrow> process \<Rightarrow> (int \<times> parcel \<times> process) option) \<Rightarrow> (parcel \<Rightarrow> process \<Rightarrow> (int \<times> parcel \<times> process) option)
    \<Rightarrow> parcel \<Rightarrow> process \<Rightarrow> (int \<times> parcel \<times> process) option" where
  "then_write f g p w = do { (err, p, w) \<leftarrow> f p w; if err = NO_ERROR then g p w else Some (err, p, w) }"

lemma then_appends:
  assumes f: "appends E f bs xs" and g: "appends E g cs ys"
  shows "appends E (then_write f g) (bs @ cs) (xs @ map (\<lambda>x. length bs + x) ys)"
  unfolding appends_def
proof (intro allI impI)
  fix p w
  assume A: "appending p" and fds: "m_allow_fds p" and L: "m_data_size p + length (bs @ cs) \<le> LIMIT"
  have "promised E bs xs p w (f p w)" using f A fds L by (simp add: appends_def)
  then obtain err q v where r: "f p w = Some (err, q, v)" and o: "others E q v = others E p w"
    and ok: "err = NO_ERROR \<Longrightarrow> grown p bs xs q"
    and bad: "err \<noteq> NO_ERROR \<Longrightarrow> \<exists>bs' xs'. partly bs xs bs' xs' \<and> grown p bs' xs' q"
    and lucky: "lucky E p \<Longrightarrow> err = NO_ERROR \<and> m_error q = NO_ERROR"
    unfolding promised_def by (metis (full_types))
  show "promised E (bs @ cs) (xs @ map (\<lambda>x. length bs + x) ys) p w (then_write f g p w)"
  proof (cases "err = NO_ERROR")
    case False
    then obtain bs' xs' where "partly bs xs bs' xs'" "grown p bs' xs' q" using bad by blast
    moreover have "\<not> lucky E p" using lucky False by blast
    ultimately show ?thesis using r False o promised_partly [OF partly_first] by (simp add: then_write_def)
  next
    case True
    then have gq: "grown p bs xs q" by (rule ok)
    then have sz: "m_data_size q = m_data_size p + length bs" by (rule grown_size [OF _ A])
    have "promised E cs ys q v (g q v)" using g gq fds L sz by (simp add: appends_def grown_def)
    then obtain e r v' where rg: "g q v = Some (e, r, v')" and o': "others E r v' = others E q v"
      and ok': "e = NO_ERROR \<Longrightarrow> grown q cs ys r"
      and bad': "e \<noteq> NO_ERROR \<Longrightarrow> \<exists>cs' ys'. partly cs ys cs' ys' \<and> grown q cs' ys' r"
      and lucky': "lucky E q \<Longrightarrow> e = NO_ERROR \<and> m_error r = NO_ERROR"
      unfolding promised_def by (metis (full_types))
    have lu: "lucky E p \<Longrightarrow> e = NO_ERROR \<and> m_error r = NO_ERROR" using lucky lucky' by (simp add: lucky_def)
    have t: "then_write f g p w = Some (e, r, v')" by (simp add: then_write_def r True rg)
    show ?thesis
    proof (cases "e = NO_ERROR")
      case True
      then show ?thesis using t promised_grown [OF grown_trans [OF A gq ok']] o o' lu by metis
    next
      case False
      then obtain cs' ys' where "partly cs ys cs' ys'" and "grown q cs' ys' r" using bad' by blast
      then show ?thesis using t False o o' promised_partly [OF partly_second grown_trans [OF A gq]] lu by metis
    qed
  qed
qed

section \<open>Bytes with padding\<close>

definition padding :: "nat \<Rightarrow> nat" where
  "padding n = (n + 3) div 4 * 4 - n"

definition padded_bytes :: "byte list \<Rightarrow> byte list" where
  "padded_bytes bs = bs @ replicate (padding (length bs)) 0"

lemma padding_up: "n + padding n = (n + 3) div 4 * 4"
  unfolding padding_def by arith

lemma padding_dvd: "4 dvd n + padding n"
  by (simp add: padding_up)

lemma PAD_SIZE_eq: "n + padding n \<le> LIMIT \<Longrightarrow> PAD_SIZE n = n + padding n"
proof -
  assume L: "n + padding n \<le> LIMIT"
  have "n + 3 < 2 ^ 32" using L by (simp add: LIMIT_def)
  then show ?thesis by (simp add: PAD_SIZE_def align_up_def szt_id padding_up)
qed

lemma padding_exact: "n + padding n \<le> LIMIT \<Longrightarrow> szsub 4 (n + padding n) n = padding n"
  by (subst szsub_exact) (simp_all add: LIMIT_def)

lemma put_twice:
  assumes "put_at d (q + length xs) ys = Some d'"
  shows "put_at d' q xs = put_at d q (xs @ ys)"
  using put_at_prepend [of d q xs ys] assms by simp

lemma block_put_twice:
  "block_put b (q + length xs) ys = Some b' \<Longrightarrow> block_put b' q xs = block_put b q (xs @ ys)"
  by (auto simp: block_put_def put_twice split: block.splits)

text \<open>The place \<^verbatim>\<open>writeInplace\<close> returns, when it is filled.\<close>

lemma inplace_ok:
  assumes A: "appending p" and L: "m_data_size p + n + padding n \<le> LIMIT"
  shows "\<exists>d q v. write_inplace E n p w = Some (d, q, v) \<and> pw_refs v = pw_refs w
    \<and> (d = None \<longrightarrow> grown p [] [] q \<and> (m_error q = NO_MEMORY \<or> n = 0))
    \<and> (d \<noteq> None \<longrightarrow> d = Some (m_data_size p)
         \<and> (\<forall>bs. length bs = n \<longrightarrow> (\<exists>q'. put_bytes_at (m_data_size p) bs q = Some q' \<and> grown p (padded_bytes bs) [] q')))
    \<and> (generous E \<longrightarrow> m_error q = m_error p \<and> (0 < n \<longrightarrow> d \<noteq> None))"
proof -
  let ?pad = "n + padding n"
  have P: "PAD_SIZE n = ?pad" and pos: "m_data_pos p = m_data_size p" using L A by (simp_all add: PAD_SIZE_eq appending_def)
  have lim: "m_data_size p + ?pad \<le> LIMIT" using L by simp
  have no: "\<not> szt 4 (m_data_pos p + ?pad) < m_data_pos p" using lim by (simp add: pos szt_id LIMIT_def)
  obtain err q v where r: "make_room E ?pad p w = Some (err, q, v)" and k: "pw_refs v = pw_refs w" and e: "enlarged p q"
    and ok: "err = NO_ERROR \<Longrightarrow> m_data_size p + ?pad \<le> m_data_capacity q" and bad: "err \<noteq> NO_ERROR \<Longrightarrow> err = NO_MEMORY \<and> m_error q = NO_MEMORY"
    and gen: "generous E \<Longrightarrow> err = NO_ERROR \<and> m_error q = m_error p"
    using make_room_ok [OF A lim, of E w] by blast
  have gq: "grown p [] [] q" and Aq: "appending q" and sz: "m_data_size q = m_data_size p" and pq: "m_data_pos q = m_data_size p"
    using e grown_size [OF _ A, of "[]" "[]" q] by (auto simp: enlarged_def grown_def pos)
  show ?thesis
  proof (cases "err = NO_ERROR")
    case False
    have "write_inplace E n p w = Some (None, q, v)" using r False no by (simp add: write_inplace_def P Let_def)
    then show ?thesis using k gq bad [OF False] gen False by blast
  next
    case True
    show ?thesis
    proof (cases "n = 0")
      case True
      then have "PAD_SIZE 0 = 0" using P by (simp add: padding_def)
      with True have w: "write_inplace E n p w = Some (if m_data q = Null \<and> m_data_pos q = 0 then None else Some (m_data_pos q), finish_write 0 q, v)"
        using r \<open>err = NO_ERROR\<close> no by (simp add: write_inplace_def Let_def clear_padding_def padding_def)
      have "grown p [] [] (finish_write 0 q)"
        using enlarged_trans [OF e finish_nothing [OF Aq]] A L sz by simp
      then show ?thesis using w k True pq gen by (auto simp: put_bytes_at_def padded_bytes_def padding_def split: if_splits)
    next
      case nz: False
      define z where "z = replicate (padding n) (0 :: byte)"
      have room: "m_data_size q + ?pad \<le> m_data_capacity q" using ok [OF True] sz by simp
      obtain D where D: "m_data q = Block D" and lD: "length D = m_data_capacity q"
        using Aq room nz by (auto simp: appending_def parcel_ok_def block_ok_def split: block.splits)
      define D' where "D' = take (m_data_size q + n) D @ z @ drop (m_data_size q + ?pad) D"
      have "4 div 4 \<le> (n + 3) div 4" using nz by (intro div_le_mono) simp
      then have "4 \<le> m_data_pos q + ?pad" by (simp add: padding_up)
      moreover have "szsub 4 ?pad n = padding n" using lim by (simp add: padding_exact)
      moreover have "put_at D (m_data_size q + n) z = Some D'" using room lD by (simp add: put_at_def D'_def z_def add.assoc)
      ultimately have clr: "clear_padding ?pad n q = Some (q\<lparr>m_data := Block D'\<rparr>)"
      proof (cases "padding n = 0")
        case True
        then have "D' = D" by (simp add: D'_def z_def)
        then show ?thesis using True D by (cases q) (simp add: clear_padding_def)
      next
        case False
        have "m_data_pos q + ?pad - padding n = m_data_size q + n" using pq sz by simp
        then show ?thesis using False \<open>4 \<le> _\<close> \<open>szsub 4 ?pad n = padding n\<close> \<open>put_at D (m_data_size q + n) z = Some D'\<close> D
          by (simp add: clear_padding_def block_put_def z_def)
      qed
      have w: "write_inplace E n p w = Some (Some (m_data_size p), finish_write ?pad (q\<lparr>m_data := Block D'\<rparr>), v)"
        using r True no clr pq D by (simp add: write_inplace_def P Let_def)
      have "\<exists>q'. put_bytes_at (m_data_size p) bs (finish_write ?pad (q\<lparr>m_data := Block D'\<rparr>)) = Some q' \<and> grown p (padded_bytes bs) [] q'"
        if lb: "length bs = n" for bs
      proof -
        have len: "length (padded_bytes bs) = ?pad" by (simp add: padded_bytes_def lb)
        have all: "put_at D' (m_data_size q) bs = put_at D (m_data_size q) (padded_bytes bs)"
          using put_twice [of D "m_data_size q" bs z D'] \<open>put_at D (m_data_size q + n) z = Some D'\<close> lb
          by (simp add: padded_bytes_def z_def)
        have "put_at D (m_data_size q) (padded_bytes bs) = Some (take (m_data_size q) D @ padded_bytes bs @ drop (m_data_size q + ?pad) D)"
          using room lD by (simp add: put_at_def len)
        then have put: "put_bytes_at (m_data_size p) bs (finish_write ?pad (q\<lparr>m_data := Block D'\<rparr>))
            = Some (finish_write ?pad (q\<lparr>m_data := Block (take (m_data_size q) D @ padded_bytes bs @ drop (m_data_size q + ?pad) D)\<rparr>))"
          using nz lb all sz pq lim by (auto simp: put_bytes_at_def block_put_def finish_at)
        have "grown q (padded_bytes bs) [] (finish_write (length (padded_bytes bs)) (q\<lparr>m_data := Block (take (m_data_size q) D @ padded_bytes bs @ drop (m_data_size q + length (padded_bytes bs)) D)\<rparr>))"
          using finish_end [OF Aq D, of "padded_bytes bs"] room lim sz padding_dvd by (simp add: len)
        then show ?thesis using put enlarged_trans [OF e _ A] by (simp add: len)
      qed
      moreover have "generous E \<longrightarrow> m_error (finish_write ?pad (q\<lparr>m_data := Block D'\<rparr>)) = m_error p" using gen by simp
      ultimately show ?thesis using w k by blast
    qed
  qed
qed

lemma put_bytes_error: "put_bytes_at d bs p = Some q \<Longrightarrow> m_error q = m_error p"
  by (auto simp: put_bytes_at_def split: if_splits Option.bind_splits)

lemma parcel_write_appends: "appends E (parcel_write E bs) (padded_bytes bs) []"
  unfolding appends_def
proof (intro allI impI)
  fix p w
  assume A: "appending p" and L: "m_data_size p + length (padded_bytes bs) \<le> LIMIT"
  then have "m_data_size p + length bs + padding (length bs) \<le> LIMIT" by (simp add: padded_bytes_def)
  then obtain d q v where r: "write_inplace E (length bs) p w = Some (d, q, v)" and k: "pw_refs v = pw_refs w"
    and none: "d = None \<Longrightarrow> grown p [] [] q \<and> (m_error q = NO_MEMORY \<or> length bs = 0)"
    and d: "d \<noteq> None \<Longrightarrow> d = Some (m_data_size p)"
    and some: "d \<noteq> None \<Longrightarrow> \<exists>q'. put_bytes_at (m_data_size p) bs q = Some q' \<and> grown p (padded_bytes bs) [] q'"
    and gen: "generous E \<Longrightarrow> m_error q = m_error p"
    using inplace_ok [OF A, of "length bs" E w] by blast
  show "promised E (padded_bytes bs) [] p w (parcel_write E bs p w)"
  proof (cases d)
    case None
    then have g: "grown p [] [] q" and e: "m_error q = NO_MEMORY \<or> bs = []" using none by auto
    have o: "others E q v = others E p w" by (rule others_grown [OF A g k])
    show ?thesis
    proof (cases "m_error q = NO_ERROR")
      case True
      then have "padded_bytes bs = []" using e by (simp add: NO_ERROR_def NO_MEMORY_def padded_bytes_def padding_def)
      then show ?thesis using r None True promised_grown [OF g o] by (simp add: parcel_write_def)
    next
      case False
      then have "\<not> lucky E p" using gen by (auto simp: lucky_def)
      then show ?thesis using r None False g o promised_partly [OF partly_none] by (simp add: parcel_write_def)
    qed
  next
    case (Some a)
    then obtain q' where q': "put_bytes_at (m_data_size p) bs q = Some q'" and g: "grown p (padded_bytes bs) [] q'" using some by blast
    have "lucky E p \<Longrightarrow> m_error q' = NO_ERROR" using gen put_bytes_error [OF q'] by (simp add: lucky_def)
    then show ?thesis using r Some d q' promised_grown [OF g others_grown [OF A g k]] by (simp add: parcel_write_def)
  qed
qed

end
