(* ===== verification/Binder_Transaction.thy ===== *)
theory Binder_Transaction
  imports Binder_Object
begin

text \<open>
  \<open>binder_transaction\<close>: finding the target of a call or a reply, allocating the transaction
  and its buffer, copying the data, translating the objects between the two processes,
  queueing the work, and the error path that undoes it. A failure is \<open>Inl\<close> of the code that
  \<open>return_error\<close> has at the label.
\<close>

section \<open>The request\<close>

text \<open>\<open>struct binder_transaction_data\<close> as read from a command.\<close>

record tx_data =
  td_target :: nat
  td_cookie :: nat
  td_code :: nat
  td_flags :: "32 word"
  td_data_size :: nat
  td_offsets_size :: nat
  td_buffer :: nat
  td_offsets :: nat

definition read_tx_data :: "byte list \<Rightarrow> tx_data" where
  "read_tx_data bs =
     (let m = (\<lambda>i. bs ! i) in
      \<lparr>td_target = get_u32 m 0, td_cookie = get_u32 m 4, td_code = get_u32 m 8,
       td_flags = word_of_nat (get_u32 m 12), td_data_size = get_u32 m 24,
       td_offsets_size = get_u32 m 28, td_buffer = get_u32 m 32, td_offsets = get_u32 m 36\<rparr>)"

definition BR_OK_nr :: nat where "BR_OK_nr = 0x7201"

text \<open>A \<open>uint32_t\<close> that was never assigned, as a return code.\<close>

definition garbage_error :: "kern \<Rightarrow> driver \<Rightarrow> br_code" where
  "garbage_error K s = (let v = uninit K (ticks s) in if v = BR_OK_nr then BR_OK else BR_OTHER v)"

section \<open>Finding the target\<close>

text \<open>Who receives the transaction: process, thread, node, and the transaction it replies to.\<close>

record tx_target =
  tg_proc :: addr
  tg_thread :: "addr option"
  tg_node :: "addr option"
  tg_in_reply_to :: "addr option"

text \<open>A failure also says whether \<open>in_reply_to\<close> is still set.\<close>

type_synonym tx_failure = "br_code \<times> addr option"

definition tx_target_reply :: "kern \<Rightarrow> nat \<Rightarrow> addr \<Rightarrow> driver \<Rightarrow> ((tx_failure + tx_target) \<times> driver) option" where
  "tx_target_reply K current thread s =
     do {
       th \<leftarrow> threads s thread;
       case th_transaction_stack th of
         None \<Rightarrow> Some (Inl (BR_FAILED_REPLY, None), s)
       | Some irt \<Rightarrow>
           do {
             ir \<leftarrow> transactions s irt;
             let s1 = binder_set_nice K current (t_saved_priority ir) s;
             if t_to_thread ir \<noteq> Some thread then Some (Inl (BR_FAILED_REPLY, None), s1)
             else
               let s2 = set_thread thread (th\<lparr>th_transaction_stack := t_to_parent ir\<rparr>) s1 in
               case t_from ir of
                 None \<Rightarrow> Some (Inl (BR_DEAD_REPLY, Some irt), s2)
               | Some tt \<Rightarrow>
                   do {
                     h \<leftarrow> threads s2 tt;
                     if th_transaction_stack h \<noteq> Some irt then Some (Inl (BR_FAILED_REPLY, None), s2)
                     else Some (Inr \<lparr>tg_proc = th_proc h, tg_thread = Some tt, tg_node = None,
                                     tg_in_reply_to = Some irt\<rparr>, s2)
                   }
           }
     }"

text \<open>
  The search for a thread of the target process that waits in the caller's stack; a stack
  longer than the number of objects is a cycle.
\<close>

fun stack_search :: "nat \<Rightarrow> driver \<Rightarrow> addr \<Rightarrow> addr option \<Rightarrow> addr option \<Rightarrow> addr option option" where
  "stack_search fuel s target_proc None best = Some best"
| "stack_search 0 s target_proc (Some tmp) best = None"
| "stack_search (Suc fuel) s target_proc (Some tmp) best =
     do {
       x \<leftarrow> transactions s tmp;
       best' \<leftarrow> (case t_from x of
                   None \<Rightarrow> Some best
                 | Some f \<Rightarrow> do { h \<leftarrow> threads s f; Some (if th_proc h = target_proc then Some f else best) });
       stack_search fuel s target_proc (t_from_parent x) best'
     }"

definition tx_target_call ::
  "addr \<Rightarrow> addr \<Rightarrow> tx_data \<Rightarrow> driver \<Rightarrow> ((tx_failure + tx_target) \<times> nat option) option" where
  "tx_target_call proc thread tr s =
     do {
       th \<leftarrow> threads s thread;
       node \<leftarrow> (if td_target tr \<noteq> 0 then
                  do {
                    found \<leftarrow> binder_get_ref s proc (td_target tr);
                    (case found of
                       None \<Rightarrow> Some (Inl BR_FAILED_REPLY)
                     | Some ref \<Rightarrow> do { r \<leftarrow> refs s ref; Some (Inr (r_node r)) })
                  }
                else Some (case binder_context_mgr_node s of None \<Rightarrow> Inl BR_DEAD_REPLY | Some n \<Rightarrow> Inr n));
       case node of
         Inl e \<Rightarrow> Some (Inl (e, None), None)
       | Inr node \<Rightarrow>
           do {
             n \<leftarrow> nodes s node;
             case n_proc n of
               None \<Rightarrow> Some (Inl (BR_DEAD_REPLY, None), Some (n_debug_id n))
             | Some target_proc \<Rightarrow>
                 if td_flags tr AND TF_ONE_WAY = 0 \<and> th_transaction_stack th \<noteq> None then
                   do {
                     x \<leftarrow> transactions s (the (th_transaction_stack th));
                     if t_to_thread x \<noteq> Some thread
                     then Some (Inl (BR_FAILED_REPLY, None), Some (n_debug_id n))
                     else do {
                       tt \<leftarrow> stack_search (length (live s)) s target_proc (th_transaction_stack th) None;
                       Some (Inr \<lparr>tg_proc = target_proc, tg_thread = tt, tg_node = Some node,
                                  tg_in_reply_to = None\<rparr>, Some (n_debug_id n))
                     }
                   }
                 else Some (Inr \<lparr>tg_proc = target_proc, tg_thread = None, tg_node = Some node,
                                 tg_in_reply_to = None\<rparr>, Some (n_debug_id n))
           }
     }"

section \<open>Translating objects\<close>

text \<open>What the loop over the offsets does not change.\<close>

record tx_env =
  x_proc :: addr
  x_thread :: addr
  x_target_proc :: addr
  x_target_node :: "addr option"
  x_in_reply_to :: "addr option"
  x_buf :: "addr \<times> addr"

definition buf_put :: "addr \<times> addr \<Rightarrow> nat \<Rightarrow> nat \<Rightarrow> driver \<Rightarrow> driver option" where
  "buf_put b off v s =
     do {
       h \<leftarrow> buf_get s b;
       buf_set b (h\<lparr>b_data := put_u32 (b_data h) off v\<rparr>) s
     }"

text \<open>A local object of the sender becomes a handle of the receiver.\<close>

definition tx_binder :: "kern \<Rightarrow> tx_env \<Rightarrow> (nat \<Rightarrow> byte) \<Rightarrow> nat \<Rightarrow> driver \<Rightarrow> (br_code option \<times> driver) option" where
  "tx_binder K x m off s =
     do {
       found \<leftarrow> binder_get_node s (x_proc x) (fp_handle m off);
       (node, s1) \<leftarrow> (case found of
           Some node \<Rightarrow> Some (Some node, s)
         | None \<Rightarrow>
             do {
               (res, s1) \<leftarrow> binder_new_node K (x_proc x) (fp_handle m off) (fp_cookie m off) s;
               (case res of
                  None \<Rightarrow> Some (None, s1)
                | Some node \<Rightarrow>
                    do {
                      n \<leftarrow> nodes s1 node;
                      Some (Some node, set_node node
                        (n\<lparr>n_min_priority := fp_flags m off mod 256,
                           n_accept_fds := (fp_flags m off div 256 mod 2 = 1)\<rparr>) s1)
                    })
             });
       case node of
         None \<Rightarrow> Some (Some BR_FAILED_REPLY, s1)
       | Some node \<Rightarrow>
           do {
             n \<leftarrow> nodes s1 node;
             if fp_cookie m off \<noteq> n_cookie n then Some (Some (garbage_error K s1), s1)
             else do {
               (res, s2) \<leftarrow> binder_get_ref_for_node K (x_target_proc x) node s1;
               case res of
                 None \<Rightarrow> Some (Some BR_FAILED_REPLY, s2)
               | Some ref \<Rightarrow>
                   do {
                     r \<leftarrow> refs s2 ref;
                     let strong = (fp_type m off = BINDER_TYPE_BINDER);
                     s3 \<leftarrow> buf_put (x_buf x) off (if strong then BINDER_TYPE_HANDLE else BINDER_TYPE_WEAK_HANDLE) s2;
                     s4 \<leftarrow> buf_put (x_buf x) (off + 8) (r_desc r) s3;
                     (ret, s5) \<leftarrow> binder_inc_ref ref strong (Some (L_Thread (x_thread x))) s4;
                     Some (None, s5)
                   }
             }
           }
     }"

text \<open>A handle of the sender becomes a local object of its owner, or a handle of the receiver.\<close>

definition tx_handle :: "kern \<Rightarrow> tx_env \<Rightarrow> (nat \<Rightarrow> byte) \<Rightarrow> nat \<Rightarrow> driver \<Rightarrow> (br_code option \<times> driver) option" where
  "tx_handle K x m off s =
     do {
       found \<leftarrow> binder_get_ref s (x_proc x) (fp_handle m off);
       case found of
         None \<Rightarrow> Some (Some BR_FAILED_REPLY, s)
       | Some ref \<Rightarrow>
           do {
             r \<leftarrow> refs s ref;
             n \<leftarrow> nodes s (r_node r);
             let strong = (fp_type m off = BINDER_TYPE_HANDLE);
             if n_proc n = Some (x_target_proc x) then
               do {
                 s1 \<leftarrow> buf_put (x_buf x) off (if strong then BINDER_TYPE_BINDER else BINDER_TYPE_WEAK_BINDER) s;
                 s2 \<leftarrow> buf_put (x_buf x) (off + 8) (n_ptr n) s1;
                 s3 \<leftarrow> buf_put (x_buf x) (off + 12) (n_cookie n) s2;
                 (ret, s4) \<leftarrow> binder_inc_node (r_node r) strong False None s3;
                 Some (None, s4)
               }
             else
               do {
                 (res, s1) \<leftarrow> binder_get_ref_for_node K (x_target_proc x) (r_node r) s;
                 case res of
                   None \<Rightarrow> Some (Some BR_FAILED_REPLY, s1)
                 | Some new_ref \<Rightarrow>
                     do {
                       nr \<leftarrow> refs s1 new_ref;
                       s2 \<leftarrow> buf_put (x_buf x) (off + 8) (r_desc nr) s1;
                       (ret, s3) \<leftarrow> binder_inc_ref new_ref strong None s2;
                       Some (None, s3)
                     }
               }
           }
     }"

text \<open>A file descriptor of the caller is opened again in the receiver, when that one allows it.\<close>

definition tx_fd_allowed :: "tx_env \<Rightarrow> driver \<Rightarrow> bool option" where
  "tx_fd_allowed x s =
     (case x_in_reply_to x of
        Some irt \<Rightarrow> do { ir \<leftarrow> transactions s irt; Some (t_flags ir AND TF_ACCEPT_FDS \<noteq> 0) }
      | None \<Rightarrow> do { node \<leftarrow> x_target_node x; n \<leftarrow> nodes s node; Some (n_accept_fds n) })"

definition tx_fd :: "kern \<Rightarrow> nat \<Rightarrow> tx_env \<Rightarrow> (nat \<Rightarrow> byte) \<Rightarrow> nat \<Rightarrow> driver \<Rightarrow> (br_code option \<times> driver) option" where
  "tx_fd K current x m off s =
     do {
       allowed \<leftarrow> tx_fd_allowed x s;
       if \<not> allowed then Some (Some BR_FAILED_REPLY, s)
       else (case fget_file K current (fp_handle m off) of
           None \<Rightarrow> Some (Some BR_FAILED_REPLY, s)
         | Some file \<Rightarrow>
             do {
               (target_fd, s1) \<leftarrow> task_get_unused_fd_flags K (x_target_proc x) s;
               if target_fd < 0 then Some (Some BR_FAILED_REPLY, s1)
               else do {
                 s2 \<leftarrow> task_fd_install (x_target_proc x) (nat target_fd) file s1;
                 s3 \<leftarrow> buf_put (x_buf x) (off + 8) (nat target_fd) s2;
                 Some (None, s3)
               }
             })
     }"

definition tx_object :: "kern \<Rightarrow> nat \<Rightarrow> tx_env \<Rightarrow> (nat \<Rightarrow> byte) \<Rightarrow> nat \<Rightarrow> driver \<Rightarrow> (br_code option \<times> driver) option" where
  "tx_object K current x m off s =
     (let ty = fp_type m off in
      if ty = BINDER_TYPE_BINDER \<or> ty = BINDER_TYPE_WEAK_BINDER then tx_binder K x m off s
      else if ty = BINDER_TYPE_HANDLE \<or> ty = BINDER_TYPE_WEAK_HANDLE then tx_handle K x m off s
      else if ty = BINDER_TYPE_FD then tx_fd K current x m off s
      else Some (Some BR_FAILED_REPLY, s))"

text \<open>
  The loop; \<open>i\<close> is the index of the offset, \<open>n\<close> how many are left. The result is the index
  it failed at with the error, or nothing.
\<close>

fun tx_objects ::
  "kern \<Rightarrow> nat \<Rightarrow> tx_env \<Rightarrow> nat \<Rightarrow> nat \<Rightarrow> driver \<Rightarrow> ((nat \<times> br_code) option \<times> driver) option" where
  "tx_objects K current x i 0 s = Some (None, s)"
| "tx_objects K current x i (Suc n) s =
     do {
       h \<leftarrow> buf_get s (x_buf x);
       let off = get_u32 (b_data h) (offsets_start K (b_data_size h) + 4 * i);
       if bad_offset K off (b_data_size h) then Some (Some (i, BR_FAILED_REPLY), s)
       else do {
         (res, s1) \<leftarrow> tx_object K current x (b_data h) off s;
         case res of
           Some e \<Rightarrow> Some (Some (i, e), s1)
         | None \<Rightarrow> tx_objects K current x (Suc i) n s1
       }
     }"

section \<open>The buffer\<close>

text \<open>Copying data and offsets, and the loop: the result is where and with what it failed.\<close>

definition tx_fill ::
  "kern \<Rightarrow> nat \<Rightarrow> tx_env \<Rightarrow> tx_data \<Rightarrow> driver \<Rightarrow> ((nat \<times> br_code) option \<times> driver) option" where
  "tx_fill K current x tr s =
     do {
       let (data, s1) = copy_from_user K (td_buffer tr) (td_data_size tr) s;
       case data of
         None \<Rightarrow> Some (Some (0, BR_FAILED_REPLY), s1)
       | Some bs \<Rightarrow>
           do {
             h \<leftarrow> buf_get s1 (x_buf x);
             s2 \<leftarrow> buf_set (x_buf x) (h\<lparr>b_data := put_bytes (b_data h) 0 bs\<rparr>) s1;
             let (offs, s3) = copy_from_user K (td_offsets tr) (td_offsets_size tr) s2;
             case offs of
               None \<Rightarrow> Some (Some (0, BR_FAILED_REPLY), s3)
             | Some os \<Rightarrow>
                 do {
                   h \<leftarrow> buf_get s3 (x_buf x);
                   s4 \<leftarrow> buf_set (x_buf x)
                           (h\<lparr>b_data := put_bytes (b_data h) (offsets_start K (td_data_size tr)) os\<rparr>) s3;
                   if td_offsets_size tr mod 4 \<noteq> 0 then Some (Some (0, BR_FAILED_REPLY), s4)
                   else tx_objects K current x 0 (td_offsets_size tr div 4) s4
                 }
           }
     }"

text \<open>The labels from \<open>err_binder_get_ref_for_node_failed\<close> to \<open>err_copy_data_failed\<close>.\<close>

definition tx_undo_buffer :: "kern \<Rightarrow> tx_env \<Rightarrow> nat \<Rightarrow> driver \<Rightarrow> driver option" where
  "tx_undo_buffer K x failed_at s =
     do {
       s1 \<leftarrow> binder_transaction_buffer_release K (x_target_proc x) (x_buf x) (Some failed_at) s;
       s2 \<leftarrow> clear_buffer (Some (x_buf x)) s1;
       free_buffer K (x_buf x) s2
     }"

definition free_complete :: "addr \<Rightarrow> driver \<Rightarrow> driver option" where
  "free_complete c s =
     map_option (\<lambda>s1. binder_stats_deleted BINDER_STAT_TRANSACTION_COMPLETE (drop_work (W_Complete c) s1))
       (kfree BINDER_STAT_TRANSACTION_COMPLETE c s)"

section \<open>Queueing\<close>

text \<open>The list the transaction goes to, after the stacks or the node were updated for it.\<close>

definition tx_target_list ::
  "addr \<Rightarrow> tx_target \<Rightarrow> bool \<Rightarrow> addr \<Rightarrow> binder_transaction \<Rightarrow> binder_buffer \<Rightarrow> driver \<Rightarrow> (list_id \<times> driver) option" where
  "tx_target_list thread tg reply t x h s =
     (let target_list = (case tg_thread tg of Some tt \<Rightarrow> L_Thread tt | None \<Rightarrow> L_Proc (tg_proc tg)) in
      if reply then
        if b_async_transaction h then None
        else do {
          irt \<leftarrow> tg_in_reply_to tg;
          s1 \<leftarrow> binder_pop_transaction (tg_thread tg) irt s;
          Some (target_list, s1)
        }
      else if t_flags x AND TF_ONE_WAY = 0 then
        if b_async_transaction h then None
        else do {
          th \<leftarrow> threads s thread;
          let s1 = set_transaction t (x\<lparr>t_need_reply := True, t_from_parent := th_transaction_stack th\<rparr>) s;
          Some (target_list, set_thread thread (th\<lparr>th_transaction_stack := Some t\<rparr>) s1)
        }
      else
        if \<not> b_async_transaction h then None
        else do {
          node \<leftarrow> tg_node tg;
          n \<leftarrow> nodes s node;
          Some (if n_has_async_transaction n then (L_Async node, s)
                else (target_list, set_node node (n\<lparr>n_has_async_transaction := True\<rparr>) s))
        })"

definition tx_queue ::
  "addr \<Rightarrow> addr \<Rightarrow> tx_target \<Rightarrow> bool \<Rightarrow> addr \<Rightarrow> addr \<Rightarrow> addr \<times> addr \<Rightarrow> driver \<Rightarrow> driver option" where
  "tx_queue proc thread tg reply t c b s =
     do {
       x \<leftarrow> transactions s t;
       h \<leftarrow> buf_get s b;
       (l, s1) \<leftarrow> tx_target_list thread tg reply t x h s;
       s2 \<leftarrow> list_add_tail (W_Transaction t) l s1;
       list_add_tail (W_Complete c) (L_Thread thread) s2
     }"

section \<open>The handler\<close>

text \<open>Allocating the transaction, its completion and its buffer, and filling them in.\<close>

definition new_transaction :: "kern \<Rightarrow> nat \<Rightarrow> addr \<Rightarrow> addr \<Rightarrow> tx_target \<Rightarrow> tx_data \<Rightarrow> bool \<Rightarrow> driver
    \<Rightarrow> binder_transaction option" where
  "new_transaction K current proc thread tg tr reply s =
     do {
       p \<leftarrow> procs s proc;
       Some \<lparr>t_debug_id = binder_last_id s,
             t_from = (if \<not> reply \<and> td_flags tr AND TF_ONE_WAY = 0 then Some thread else None),
             t_from_parent = None, t_to_proc = Some (tg_proc tg), t_to_thread = tg_thread tg,
             t_to_parent = None, t_need_reply = False, t_buffer = None, t_code = td_code tr,
             t_flags = td_flags tr, t_priority = nice_of s current, t_saved_priority = 0,
             t_sender_euid = task_euid K (p_tsk (pr_alloc p))\<rparr>
     }"

definition tx_alloc_buf :: "kern \<Rightarrow> tx_target \<Rightarrow> tx_data \<Rightarrow> bool \<Rightarrow> addr \<Rightarrow> driver \<Rightarrow> ((addr \<times> addr) option \<times> driver) option" where
  "tx_alloc_buf K tg tr reply t s =
     do {
       p \<leftarrow> procs s (tg_proc tg);
       x \<leftarrow> transactions s t;
       (res, a) \<leftarrow> binder_alloc_buf K (pr_alloc p) (td_data_size tr) (td_offsets_size tr)
                      (\<not> reply \<and> td_flags tr AND TF_ONE_WAY \<noteq> 0);
       let s1 = set_proc (tg_proc tg) (p\<lparr>pr_alloc := a\<rparr>) s;
       case res of
         None \<Rightarrow> Some (None, s1)
       | Some buffer \<Rightarrow>
           do {
             let b = (tg_proc tg, buffer);
             h \<leftarrow> buf_get s1 b;
             s2 \<leftarrow> buf_set b (h\<lparr>b_allow_user_free := False, b_debug_id := t_debug_id x mod 2 ^ 29,
                              b_transaction := Some t, b_target_node := tg_node tg\<rparr>) s1;
             let s3 = set_transaction t (x\<lparr>t_buffer := Some b\<rparr>) s2;
             s4 \<leftarrow> (case tg_node tg of
                       None \<Rightarrow> Some s3
                     | Some node \<Rightarrow> map_option snd (binder_inc_node node True False None s3));
             Some (Some b, s4)
           }
     }"

text \<open>The code after \<open>tcomplete\<close> was allocated. \<open>Some e\<close> is a failure, with everything undone.\<close>

definition tx_send ::
  "kern \<Rightarrow> nat \<Rightarrow> addr \<Rightarrow> addr \<Rightarrow> tx_target \<Rightarrow> tx_data \<Rightarrow> bool \<Rightarrow> addr \<Rightarrow> addr \<Rightarrow> driver
     \<Rightarrow> (br_code option \<times> driver) option" where
  "tx_send K current proc thread tg tr reply t c s =
     do {
       let s1 = s\<lparr>binder_last_id := Suc (binder_last_id s)\<rparr>;
       x \<leftarrow> new_transaction K current proc thread tg tr reply s1;
       let s2 = set_transaction t x s1;
       (b, s3) \<leftarrow> tx_alloc_buf K tg tr reply t s2;
       case b of
         None \<Rightarrow>
           do { s4 \<leftarrow> free_complete c s3; s5 \<leftarrow> free_transaction t s4; Some (Some BR_FAILED_REPLY, s5) }
       | Some b \<Rightarrow>
           do {
             let env = \<lparr>x_proc = proc, x_thread = thread, x_target_proc = tg_proc tg,
                        x_target_node = tg_node tg, x_in_reply_to = tg_in_reply_to tg, x_buf = b\<rparr>;
             (res, s4) \<leftarrow> tx_fill K current env tr s3;
             case res of
               None \<Rightarrow> map_option (Pair None) (tx_queue proc thread tg reply t c b s4)
             | Some (failed_at, e) \<Rightarrow>
                 do {
                   s5 \<leftarrow> tx_undo_buffer K env failed_at s4;
                   s6 \<leftarrow> free_complete c s5;
                   s7 \<leftarrow> free_transaction t s6;
                   Some (Some e, s7)
                 }
           }
     }"

text \<open>What \<open>kzalloc\<close> returns.\<close>

definition blank_transaction :: binder_transaction where
  "blank_transaction = \<lparr>t_debug_id = 0, t_from = None, t_from_parent = None, t_to_proc = None,
     t_to_thread = None, t_to_parent = None, t_need_reply = False, t_buffer = None, t_code = 0,
     t_flags = 0, t_priority = 0, t_saved_priority = 0, t_sender_euid = 0\<rparr>"

definition tx_deliver ::
  "kern \<Rightarrow> nat \<Rightarrow> addr \<Rightarrow> addr \<Rightarrow> tx_target \<Rightarrow> tx_data \<Rightarrow> bool \<Rightarrow> driver \<Rightarrow> (br_code option \<times> driver) option" where
  "tx_deliver K current proc thread tg tr reply s =
     (case kmalloc K BINDER_STAT_TRANSACTION s of
        (None, s1) \<Rightarrow> Some (Some BR_FAILED_REPLY, s1)
      | (Some t, s1) \<Rightarrow>
          let s2 = binder_stats_created BINDER_STAT_TRANSACTION (set_transaction t blank_transaction s1) in
          (case kmalloc K BINDER_STAT_TRANSACTION_COMPLETE s2 of
             (None, s3) \<Rightarrow> map_option (Pair (Some BR_FAILED_REPLY)) (free_transaction t s3)
           | (Some c, s3) \<Rightarrow>
               tx_send K current proc thread tg tr reply t c
                 (binder_stats_created BINDER_STAT_TRANSACTION_COMPLETE s3)))"

text \<open>The end of the error path: what the calling thread and a waiting thread are told.\<close>

definition tx_fail :: "addr \<Rightarrow> addr option \<Rightarrow> br_code \<Rightarrow> driver \<Rightarrow> driver option" where
  "tx_fail thread in_reply_to e s =
     do {
       th \<leftarrow> threads s thread;
       if th_return_error th \<noteq> BR_OK then None
       else (case in_reply_to of
           Some irt \<Rightarrow> binder_send_failed_reply irt e
                          (set_thread thread (th\<lparr>th_return_error := BR_TRANSACTION_COMPLETE\<rparr>) s)
         | None \<Rightarrow> Some (set_thread thread (th\<lparr>th_return_error := e\<rparr>) s))
     }"

definition tx_log_entry :: "driver \<Rightarrow> addr \<Rightarrow> addr \<Rightarrow> tx_data \<Rightarrow> bool \<Rightarrow> log_entry option" where
  "tx_log_entry s proc thread tr reply =
     do {
       p \<leftarrow> procs s proc;
       th \<leftarrow> threads s thread;
       Some (zero_entry\<lparr>e_call_type := (if reply then 2 else if td_flags tr AND TF_ONE_WAY \<noteq> 0 then 1 else 0),
              e_from_proc := pr_pid p, e_from_thread := th_pid th, e_target_handle := td_target tr,
              e_data_size := td_data_size tr, e_offsets_size := td_offsets_size tr\<rparr>)
     }"

definition tx_log_target :: "driver \<Rightarrow> tx_target \<Rightarrow> log_entry \<Rightarrow> log_entry" where
  "tx_log_target s tg e =
     e\<lparr>e_to_thread := (case tg_thread tg of None \<Rightarrow> 0
                        | Some tt \<Rightarrow> (case threads s tt of None \<Rightarrow> 0 | Some h \<Rightarrow> th_pid h)),
       e_to_proc := (case procs s (tg_proc tg) of None \<Rightarrow> 0 | Some p \<Rightarrow> pr_pid p)\<rparr>"

definition tx_find ::
  "kern \<Rightarrow> nat \<Rightarrow> addr \<Rightarrow> addr \<Rightarrow> tx_data \<Rightarrow> bool \<Rightarrow> driver
     \<Rightarrow> (((tx_failure + tx_target) \<times> nat option) \<times> driver) option" where
  "tx_find K current proc thread tr reply s =
     (if reply then map_option (\<lambda>(tg, s1). ((tg, None), s1)) (tx_target_reply K current thread s)
      else map_option (\<lambda>r. (r, s)) (tx_target_call proc thread tr s))"

text \<open>
  The debug id of the transaction is in the log once both allocations have succeeded.
\<close>

definition tx_attempt ::
  "kern \<Rightarrow> nat \<Rightarrow> addr \<Rightarrow> addr \<Rightarrow> tx_data \<Rightarrow> bool \<Rightarrow> tx_failure + tx_target \<Rightarrow> log_entry \<Rightarrow> driver
     \<Rightarrow> ((tx_failure option \<times> log_entry) \<times> driver) option" where
  "tx_attempt K current proc thread tr reply tg e s =
     (case tg of
        Inl f \<Rightarrow> Some ((Some f, e), s)
      | Inr g \<Rightarrow>
          do {
            (res, s1) \<leftarrow> tx_deliver K current proc thread g tr reply s;
            let e1 = tx_log_target s g e;
            let e2 = (if binder_last_id s1 = binder_last_id s then e1
                      else e1\<lparr>e_debug_id := Suc (binder_last_id s)\<rparr>);
            Some ((map_option (\<lambda>c. (c, tg_in_reply_to g)) res, e2), s1)
          })"

text \<open>The entry is copied to the second ring when the transaction fails.\<close>

definition binder_transaction ::
  "kern \<Rightarrow> nat \<Rightarrow> addr \<Rightarrow> addr \<Rightarrow> tx_data \<Rightarrow> bool \<Rightarrow> driver \<Rightarrow> driver option" where
  "binder_transaction K current proc thread tr reply s =
     do {
       let (slot, log) = binder_transaction_log_add (tlog s);
       e \<leftarrow> tx_log_entry s proc thread tr reply;
       ((tg, node_id), s1) \<leftarrow> tx_find K current proc thread tr reply (s\<lparr>tlog := log\<rparr>);
       let e1 = (case node_id of None \<Rightarrow> e | Some i \<Rightarrow> e\<lparr>e_to_node := i\<rparr>);
       ((fail, e2), s2) \<leftarrow> tx_attempt K current proc thread tr reply tg e1 s1;
       let s3 = s2\<lparr>tlog := log_put slot e2 (tlog s2)\<rparr>;
       case fail of
         None \<Rightarrow> Some s3
       | Some (c, irt) \<Rightarrow> tx_fail thread irt c (s3\<lparr>tlog_failed := log_write e2 (tlog_failed s3)\<rparr>)
     }"

end
