(* ===== verification/Binder_Write.thy ===== *)
theory Binder_Write
  imports Binder_Transaction
begin

text \<open>
  \<open>binder_thread_write\<close>: the commands a thread sends. One definition per command, each
  returning either the error the whole call returns or the position behind the command, and
  the loop that reads, counts and dispatches them.
\<close>

section \<open>Command codes\<close>

definition IOC_WRITE :: nat where "IOC_WRITE = 1"
definition IOC_READ :: nat where "IOC_READ = 2"

definition IOC :: "nat \<Rightarrow> nat \<Rightarrow> nat \<Rightarrow> nat \<Rightarrow> nat" where
  "IOC dir ty nr sz = dir * 2 ^ 30 + sz * 2 ^ 16 + ty * 2 ^ 8 + nr"

definition IOC_NR :: "nat \<Rightarrow> nat" where
  "IOC_NR cmd = cmd mod 2 ^ 8"

definition sizeof_tx_data :: nat where "sizeof_tx_data = 40"

definition BC_code :: "nat \<Rightarrow> nat \<Rightarrow> nat" where
  "BC_code nr sz = IOC (if sz = 0 then 0 else IOC_WRITE) 0x63 nr sz"

definition BC_TRANSACTION :: nat where "BC_TRANSACTION = BC_code 0 40"
definition BC_REPLY :: nat where "BC_REPLY = BC_code 1 40"
definition BC_ACQUIRE_RESULT :: nat where "BC_ACQUIRE_RESULT = BC_code 2 4"
definition BC_FREE_BUFFER :: nat where "BC_FREE_BUFFER = BC_code 3 4"
definition BC_INCREFS :: nat where "BC_INCREFS = BC_code 4 4"
definition BC_ACQUIRE :: nat where "BC_ACQUIRE = BC_code 5 4"
definition BC_RELEASE :: nat where "BC_RELEASE = BC_code 6 4"
definition BC_DECREFS :: nat where "BC_DECREFS = BC_code 7 4"
definition BC_INCREFS_DONE :: nat where "BC_INCREFS_DONE = BC_code 8 8"
definition BC_ACQUIRE_DONE :: nat where "BC_ACQUIRE_DONE = BC_code 9 8"
definition BC_ATTEMPT_ACQUIRE :: nat where "BC_ATTEMPT_ACQUIRE = BC_code 10 8"
definition BC_REGISTER_LOOPER :: nat where "BC_REGISTER_LOOPER = BC_code 11 0"
definition BC_ENTER_LOOPER :: nat where "BC_ENTER_LOOPER = BC_code 12 0"
definition BC_EXIT_LOOPER :: nat where "BC_EXIT_LOOPER = BC_code 13 0"
definition BC_REQUEST_DEATH_NOTIFICATION :: nat where "BC_REQUEST_DEATH_NOTIFICATION = BC_code 14 8"
definition BC_CLEAR_DEATH_NOTIFICATION :: nat where "BC_CLEAR_DEATH_NOTIFICATION = BC_code 15 8"
definition BC_DEAD_BINDER_DONE :: nat where "BC_DEAD_BINDER_DONE = BC_code 16 4"

definition BC_COUNT :: nat where "BC_COUNT = 17"

definition EFAULT :: int where "EFAULT = 14"

definition LOOPER_REGISTERED :: "32 word" where "LOOPER_REGISTERED = 0x01"
definition LOOPER_ENTERED :: "32 word" where "LOOPER_ENTERED = 0x02"
definition LOOPER_EXITED :: "32 word" where "LOOPER_EXITED = 0x04"
definition LOOPER_INVALID :: "32 word" where "LOOPER_INVALID = 0x08"
definition LOOPER_WAITING :: "32 word" where "LOOPER_WAITING = 0x10"
definition LOOPER_NEED_RETURN :: "32 word" where "LOOPER_NEED_RETURN = 0x20"

type_synonym cmd_result = "((int + nat) \<times> driver) option"

section \<open>Reference counts\<close>

text \<open>The reference a count command is about; the new one is read before it is checked.\<close>

definition count_target :: "kern \<Rightarrow> addr \<Rightarrow> nat \<Rightarrow> nat \<Rightarrow> driver \<Rightarrow> (addr option \<times> driver) option" where
  "count_target K proc cmd target s =
     (case binder_context_mgr_node s of
        Some mgr \<Rightarrow>
          if target = 0 \<and> (cmd = BC_INCREFS \<or> cmd = BC_ACQUIRE) then
            do {
              (ref, s1) \<leftarrow> binder_get_ref_for_node K proc mgr s;
              ref \<leftarrow> ref;
              Some (Some ref, s1)
            }
          else map_option (\<lambda>ref. (ref, s)) (binder_get_ref s proc target)
      | None \<Rightarrow> map_option (\<lambda>ref. (ref, s)) (binder_get_ref s proc target))"

definition write_count :: "kern \<Rightarrow> addr \<Rightarrow> nat \<Rightarrow> nat \<Rightarrow> driver \<Rightarrow> cmd_result" where
  "write_count K proc cmd ptr s =
     (case get_user K ptr s of
        (None, s1) \<Rightarrow> Some (Inl (- EFAULT), s1)
      | (Some target, s1) \<Rightarrow>
          do {
            (found, s2) \<leftarrow> count_target K proc cmd target s1;
            s3 \<leftarrow> (case found of
                None \<Rightarrow> Some s2
              | Some ref \<Rightarrow>
                  if cmd = BC_INCREFS then map_option snd (binder_inc_ref ref False None s2)
                  else if cmd = BC_ACQUIRE then map_option snd (binder_inc_ref ref True None s2)
                  else if cmd = BC_RELEASE then map_option snd (binder_dec_ref K ref True s2)
                  else map_option snd (binder_dec_ref K ref False s2));
            Some (Inr (ptr + 4), s3)
          })"

text \<open>The owner of a node acknowledges the reference it was told about.\<close>

definition node_done :: "kern \<Rightarrow> addr \<Rightarrow> bool \<Rightarrow> nat \<Rightarrow> nat \<Rightarrow> driver \<Rightarrow> driver option" where
  "node_done K proc strong node_ptr cookie s =
     do {
       found \<leftarrow> binder_get_node s proc node_ptr;
       (case found of
          None \<Rightarrow> Some s
        | Some node \<Rightarrow>
            do {
              n \<leftarrow> nodes s node;
              if cookie \<noteq> n_cookie n then Some s
              else if \<not> (if strong then n_pending_strong_ref n else n_pending_weak_ref n) then Some s
              else map_option snd (binder_dec_node K node strong False
                     (set_node node (if strong then n\<lparr>n_pending_strong_ref := False\<rparr>
                                     else n\<lparr>n_pending_weak_ref := False\<rparr>) s))
            })
     }"

definition write_done :: "kern \<Rightarrow> addr \<Rightarrow> nat \<Rightarrow> nat \<Rightarrow> driver \<Rightarrow> cmd_result" where
  "write_done K proc cmd ptr s =
     (case get_user K ptr s of
        (None, s1) \<Rightarrow> Some (Inl (- EFAULT), s1)
      | (Some node_ptr, s1) \<Rightarrow>
          (case get_user K (ptr + 4) s1 of
             (None, s2) \<Rightarrow> Some (Inl (- EFAULT), s2)
           | (Some cookie, s2) \<Rightarrow>
               map_option (Pair (Inr (ptr + 8))) (node_done K proc (cmd = BC_ACQUIRE_DONE) node_ptr cookie s2)))"

section \<open>Freeing a buffer\<close>

definition detach_transaction :: "addr \<times> addr \<Rightarrow> driver \<Rightarrow> driver option" where
  "detach_transaction b s =
     do {
       h \<leftarrow> buf_get s b;
       case b_transaction h of
         None \<Rightarrow> Some s
       | Some t \<Rightarrow>
           do {
             x \<leftarrow> transactions s t;
             buf_set b (h\<lparr>b_transaction := None\<rparr>) (set_transaction t (x\<lparr>t_buffer := None\<rparr>) s)
           }
     }"

text \<open>The next asynchronous transaction of the node, if any, moves to this thread.\<close>

definition next_async :: "addr \<Rightarrow> addr \<times> addr \<Rightarrow> driver \<Rightarrow> driver option" where
  "next_async thread b s =
     do {
       h \<leftarrow> buf_get s b;
       case (b_async_transaction h, b_target_node h) of
         (True, Some node) \<Rightarrow>
           do {
             n \<leftarrow> nodes s node;
             if \<not> n_has_async_transaction n then None
             else (case items s (L_Async node) of
                 [] \<Rightarrow> Some (set_node node (n\<lparr>n_has_async_transaction := False\<rparr>) s)
               | w # ws \<Rightarrow>
                   do {
                     s1 \<leftarrow> list_del w s;
                     list_add_tail w (L_Thread thread) s1
                   })
           }
       | _ \<Rightarrow> Some s
     }"

definition release_buffer :: "kern \<Rightarrow> addr \<Rightarrow> addr \<Rightarrow> addr \<Rightarrow> driver \<Rightarrow> driver option" where
  "release_buffer K proc thread buffer s =
     do {
       s1 \<leftarrow> detach_transaction (proc, buffer) s;
       s2 \<leftarrow> next_async thread (proc, buffer) s1;
       s3 \<leftarrow> binder_transaction_buffer_release K proc (proc, buffer) None s2;
       free_buffer K (proc, buffer) s3
     }"

definition write_free_buffer :: "kern \<Rightarrow> addr \<Rightarrow> addr \<Rightarrow> nat \<Rightarrow> driver \<Rightarrow> cmd_result" where
  "write_free_buffer K proc thread ptr s =
     (case get_user K ptr s of
        (None, s1) \<Rightarrow> Some (Inl (- EFAULT), s1)
      | (Some data_ptr, s1) \<Rightarrow>
          do {
            p \<leftarrow> procs s1 proc;
            found \<leftarrow> binder_buffer_lookup K (pr_alloc p) data_ptr;
            s2 \<leftarrow> (case found of
                None \<Rightarrow> Some s1
              | Some buffer \<Rightarrow>
                  do {
                    h \<leftarrow> buf_get s1 (proc, buffer);
                    if \<not> b_allow_user_free h then Some s1 else release_buffer K proc thread buffer s1
                  });
            Some (Inr (ptr + 4), s2)
          })"

section \<open>Transactions\<close>

definition write_transaction :: "kern \<Rightarrow> nat \<Rightarrow> addr \<Rightarrow> addr \<Rightarrow> nat \<Rightarrow> nat \<Rightarrow> driver \<Rightarrow> cmd_result" where
  "write_transaction K current proc thread cmd ptr s =
     (case copy_from_user K ptr sizeof_tx_data s of
        (None, s1) \<Rightarrow> Some (Inl (- EFAULT), s1)
      | (Some bs, s1) \<Rightarrow>
          map_option (Pair (Inr (ptr + sizeof_tx_data)))
            (binder_transaction K current proc thread (read_tx_data bs) (cmd = BC_REPLY) s1))"

section \<open>The thread pool\<close>

definition register_looper :: "addr \<Rightarrow> addr \<Rightarrow> driver \<Rightarrow> driver option" where
  "register_looper proc thread s =
     do {
       p \<leftarrow> procs s proc;
       th \<leftarrow> threads s thread;
       let (l, p') =
         (if th_looper th AND LOOPER_ENTERED \<noteq> 0 then (th_looper th OR LOOPER_INVALID, p)
          else if pr_requested_threads p = 0 then (th_looper th OR LOOPER_INVALID, p)
          else (th_looper th, p\<lparr>pr_requested_threads := pr_requested_threads p - 1,
                                pr_requested_threads_started := pr_requested_threads_started p + 1\<rparr>));
       Some (set_thread thread (th\<lparr>th_looper := l OR LOOPER_REGISTERED\<rparr>) (set_proc proc p' s))
     }"

definition enter_looper :: "addr \<Rightarrow> driver \<Rightarrow> driver option" where
  "enter_looper thread s =
     do {
       th \<leftarrow> threads s thread;
       let l = (if th_looper th AND LOOPER_REGISTERED \<noteq> 0 then th_looper th OR LOOPER_INVALID else th_looper th);
       Some (set_thread thread (th\<lparr>th_looper := l OR LOOPER_ENTERED\<rparr>) s)
     }"

definition exit_looper :: "addr \<Rightarrow> driver \<Rightarrow> driver option" where
  "exit_looper thread s =
     do {
       th \<leftarrow> threads s thread;
       Some (set_thread thread (th\<lparr>th_looper := th_looper th OR LOOPER_EXITED\<rparr>) s)
     }"

section \<open>Death notifications\<close>

text \<open>A thread of the pool gets the work itself, otherwise any thread of the process does.\<close>

definition death_list :: "addr \<Rightarrow> binder_thread \<Rightarrow> addr \<Rightarrow> list_id" where
  "death_list thread th proc =
     (if th_looper th AND (LOOPER_REGISTERED OR LOOPER_ENTERED) \<noteq> 0 then L_Thread thread else L_Proc proc)"

definition request_death :: "kern \<Rightarrow> addr \<Rightarrow> addr \<Rightarrow> addr \<Rightarrow> nat \<Rightarrow> driver \<Rightarrow> driver option" where
  "request_death K proc thread ref cookie s =
     do {
       r \<leftarrow> refs s ref;
       th \<leftarrow> threads s thread;
       if r_death r \<noteq> None then Some s
       else (case kmalloc K BINDER_STAT_DEATH s of
         (None, s1) \<Rightarrow> Some (set_thread thread (th\<lparr>th_return_error := BR_ERROR\<rparr>) s1)
       | (Some d, s1) \<Rightarrow>
           do {
             let s2 = set_link (W_Death d) Unlinked (binder_stats_created BINDER_STAT_DEATH s1);
             let s3 = set_death d \<lparr>d_type = Work_Type_Zero, d_cookie = cookie\<rparr> s2;
             let s4 = set_ref ref (r\<lparr>r_death := Some d\<rparr>) s3;
             n \<leftarrow> nodes s4 (r_node r);
             if n_proc n = None then
               list_add_tail (W_Death d) (death_list thread th proc)
                 (set_death d \<lparr>d_type = BINDER_WORK_DEAD_BINDER, d_cookie = cookie\<rparr> s4)
             else Some s4
           })
     }"

definition clear_death :: "addr \<Rightarrow> addr \<Rightarrow> addr \<Rightarrow> nat \<Rightarrow> driver \<Rightarrow> driver option" where
  "clear_death proc thread ref cookie s =
     do {
       r \<leftarrow> refs s ref;
       th \<leftarrow> threads s thread;
       case r_death r of
         None \<Rightarrow> Some s
       | Some d \<Rightarrow>
           do {
             dt \<leftarrow> deaths s d;
             if d_cookie dt \<noteq> cookie then Some s
             else do {
               let s1 = set_ref ref (r\<lparr>r_death := None\<rparr>) s;
               if link_empty (W_Death d) s1 then
                 list_add_tail (W_Death d) (death_list thread th proc)
                   (set_death d (dt\<lparr>d_type := BINDER_WORK_CLEAR_DEATH_NOTIFICATION\<rparr>) s1)
               else if d_type dt \<noteq> BINDER_WORK_DEAD_BINDER then None
               else Some (set_death d (dt\<lparr>d_type := BINDER_WORK_DEAD_BINDER_AND_CLEAR\<rparr>) s1)
             }
           }
     }"

definition write_death :: "kern \<Rightarrow> addr \<Rightarrow> addr \<Rightarrow> nat \<Rightarrow> nat \<Rightarrow> driver \<Rightarrow> cmd_result" where
  "write_death K proc thread cmd ptr s =
     (case get_user K ptr s of
        (None, s1) \<Rightarrow> Some (Inl (- EFAULT), s1)
      | (Some target, s1) \<Rightarrow>
          (case get_user K (ptr + 4) s1 of
             (None, s2) \<Rightarrow> Some (Inl (- EFAULT), s2)
           | (Some cookie, s2) \<Rightarrow>
               do {
                 found \<leftarrow> binder_get_ref s2 proc target;
                 s3 \<leftarrow> (case found of
                     None \<Rightarrow> Some s2
                   | Some ref \<Rightarrow>
                       if cmd = BC_REQUEST_DEATH_NOTIFICATION then request_death K proc thread ref cookie s2
                       else clear_death proc thread ref cookie s2);
                 Some (Inr (ptr + 8), s3)
               }))"

text \<open>The first delivered notification with the cookie; every item of the list is one.\<close>

fun find_delivered :: "driver \<Rightarrow> nat \<Rightarrow> work list \<Rightarrow> addr option option" where
  "find_delivered s cookie [] = Some None"
| "find_delivered s cookie (W_Death d # ws) =
     (case deaths s d of
        None \<Rightarrow> None
      | Some dt \<Rightarrow> if d_cookie dt = cookie then Some (Some d) else find_delivered s cookie ws)"
| "find_delivered s cookie (w # ws) = None"

definition death_done :: "addr \<Rightarrow> addr \<Rightarrow> nat \<Rightarrow> driver \<Rightarrow> driver option" where
  "death_done proc thread cookie s =
     do {
       found \<leftarrow> find_delivered s cookie (items s (L_Delivered proc));
       case found of
         None \<Rightarrow> Some s
       | Some d \<Rightarrow>
           do {
             s1 \<leftarrow> list_del_init (W_Death d) s;
             dt \<leftarrow> deaths s1 d;
             th \<leftarrow> threads s1 thread;
             if d_type dt = BINDER_WORK_DEAD_BINDER_AND_CLEAR then
               list_add_tail (W_Death d) (death_list thread th proc)
                 (set_death d (dt\<lparr>d_type := BINDER_WORK_CLEAR_DEATH_NOTIFICATION\<rparr>) s1)
             else Some s1
           }
     }"

definition write_death_done :: "kern \<Rightarrow> addr \<Rightarrow> addr \<Rightarrow> nat \<Rightarrow> driver \<Rightarrow> cmd_result" where
  "write_death_done K proc thread ptr s =
     (case get_user K ptr s of
        (None, s1) \<Rightarrow> Some (Inl (- EFAULT), s1)
      | (Some cookie, s1) \<Rightarrow> map_option (Pair (Inr (ptr + 4))) (death_done proc thread cookie s1))"

section \<open>The loop\<close>

definition count_bc :: "addr \<Rightarrow> addr \<Rightarrow> nat \<Rightarrow> driver \<Rightarrow> driver option" where
  "count_bc proc thread cmd s =
     do {
       p \<leftarrow> procs s proc;
       th \<leftarrow> threads s thread;
       let n = IOC_NR cmd;
       Some (if n < BC_COUNT then
               set_thread thread (th\<lparr>th_bc := (th_bc th)(n := Suc (th_bc th n))\<rparr>)
                 (set_proc proc (p\<lparr>pr_bc := (pr_bc p)(n := Suc (pr_bc p n))\<rparr>)
                   (s\<lparr>st_bc := (st_bc s)(n := Suc (st_bc s n))\<rparr>))
             else s)
     }"

definition write_command :: "kern \<Rightarrow> nat \<Rightarrow> addr \<Rightarrow> addr \<Rightarrow> nat \<Rightarrow> nat \<Rightarrow> driver \<Rightarrow> cmd_result" where
  "write_command K current proc thread cmd ptr s =
     (if cmd \<in> {BC_INCREFS, BC_ACQUIRE, BC_RELEASE, BC_DECREFS} then write_count K proc cmd ptr s
      else if cmd \<in> {BC_INCREFS_DONE, BC_ACQUIRE_DONE} then write_done K proc cmd ptr s
      else if cmd \<in> {BC_ATTEMPT_ACQUIRE, BC_ACQUIRE_RESULT} then Some (Inl (- EINVAL), s)
      else if cmd = BC_FREE_BUFFER then write_free_buffer K proc thread ptr s
      else if cmd \<in> {BC_TRANSACTION, BC_REPLY} then write_transaction K current proc thread cmd ptr s
      else if cmd = BC_REGISTER_LOOPER then map_option (Pair (Inr ptr)) (register_looper proc thread s)
      else if cmd = BC_ENTER_LOOPER then map_option (Pair (Inr ptr)) (enter_looper thread s)
      else if cmd = BC_EXIT_LOOPER then map_option (Pair (Inr ptr)) (exit_looper thread s)
      else if cmd \<in> {BC_REQUEST_DEATH_NOTIFICATION, BC_CLEAR_DEATH_NOTIFICATION}
        then write_death K proc thread cmd ptr s
      else if cmd = BC_DEAD_BINDER_DONE then write_death_done K proc thread ptr s
      else Some (Inl (- EINVAL), s))"

text \<open>No command moves the position back, so the loop ends at \<open>end\<close>.\<close>

lemma write_command_forward:
  "write_command K current proc thread cmd ptr s = Some (Inr ptr', s') \<Longrightarrow> ptr \<le> ptr'"
  by (auto simp: write_command_def write_count_def write_done_def write_free_buffer_def write_transaction_def
      write_death_def write_death_done_def split: if_splits option.splits prod.splits bind_splits)

function thread_write_loop ::
  "kern \<Rightarrow> nat \<Rightarrow> addr \<Rightarrow> addr \<Rightarrow> nat \<Rightarrow> nat \<Rightarrow> nat \<Rightarrow> driver \<Rightarrow> (int \<times> nat \<times> driver) option" where
  "thread_write_loop K current proc thread end_ptr ptr consumed s =
     (case threads s thread of
        None \<Rightarrow> None
      | Some th \<Rightarrow>
          if ptr < end_ptr \<and> th_return_error th = BR_OK then
            (case get_user K ptr s of
               (None, s1) \<Rightarrow> Some (- EFAULT, consumed, s1)
             | (Some cmd, s1) \<Rightarrow>
                 (case count_bc proc thread cmd s1 of
                    None \<Rightarrow> None
                  | Some s2 \<Rightarrow>
                      (case write_command K current proc thread cmd (ptr + 4) s2 of
                         None \<Rightarrow> None
                       | Some (Inl e, s3) \<Rightarrow> Some (e, consumed, s3)
                       | Some (Inr ptr', s3) \<Rightarrow>
                           thread_write_loop K current proc thread end_ptr ptr' ptr' s3)))
          else Some (0, consumed, s))"
  by pat_completeness auto
termination
  by (relation "measure (\<lambda>(K, current, proc, thread, end_ptr, ptr, consumed, s). end_ptr - ptr)")
    (auto dest!: write_command_forward)

declare thread_write_loop.simps [simp del]

text \<open>
  Pointers start out as the caller gives them, with the arithmetic of pointers; what was
  consumed is their difference as a \<open>signed long\<close>.
\<close>

definition ptr_add :: "kern \<Rightarrow> nat \<Rightarrow> int \<Rightarrow> nat" where
  "ptr_add K p n = nat ((int p + n) mod 2 ^ (8 * ptr_bytes K))"

definition ptr_diff :: "kern \<Rightarrow> nat \<Rightarrow> nat \<Rightarrow> int" where
  "ptr_diff K p q =
     (let d = (int p - int q) mod 2 ^ (8 * ptr_bytes K)
      in if d < 2 ^ (8 * ptr_bytes K - 1) then d else d - 2 ^ (8 * ptr_bytes K))"

definition binder_thread_write ::
  "kern \<Rightarrow> nat \<Rightarrow> addr \<Rightarrow> addr \<Rightarrow> nat \<Rightarrow> int \<Rightarrow> int \<Rightarrow> driver \<Rightarrow> (int \<times> int \<times> driver) option" where
  "binder_thread_write K current proc thread buffer sz consumed s =
     (let ptr = ptr_add K buffer consumed in
      map_option (\<lambda>(ret, p, s'). (ret, ptr_diff K p buffer, s'))
        (thread_write_loop K current proc thread (ptr_add K buffer sz) ptr ptr s))"

end
