(* ===== verification/Binder_Read.thy ===== *)
theory Binder_Read
  imports Binder_Write
begin

text \<open>
  \<open>binder_thread_read\<close>: the return commands a thread receives. The function gives up the
  driver's lock while it sleeps, so it is modelled in two parts: \<open>thread_read_start\<close> runs to
  the point where the thread goes to sleep, or to the end, and \<open>thread_read_resume\<close> goes on
  from a wake-up in whatever state the driver is then. What the sleeping thread keeps on its
  stack is in \<open>Read_Sleep\<close>. The wait for \<open>binder_stop_on_user_error\<close>, a debugging aid that
  is off unless set, is left out.
\<close>

section \<open>Return codes\<close>

definition BR_number :: "nat \<Rightarrow> nat \<Rightarrow> nat" where
  "BR_number nr sz = IOC (if sz = 0 then 0 else IOC_READ) 0x72 nr sz"

fun br_number :: "br_code \<Rightarrow> nat" where
  "br_number BR_ERROR = BR_number 0 4"
| "br_number BR_OK = BR_number 1 0"
| "br_number BR_TRANSACTION = BR_number 2 40"
| "br_number BR_REPLY = BR_number 3 40"
| "br_number BR_DEAD_REPLY = BR_number 5 0"
| "br_number BR_TRANSACTION_COMPLETE = BR_number 6 0"
| "br_number BR_INCREFS = BR_number 7 8"
| "br_number BR_ACQUIRE = BR_number 8 8"
| "br_number BR_RELEASE = BR_number 9 8"
| "br_number BR_DECREFS = BR_number 10 8"
| "br_number BR_NOOP = BR_number 12 0"
| "br_number BR_SPAWN_LOOPER = BR_number 13 0"
| "br_number BR_DEAD_BINDER = BR_number 15 4"
| "br_number BR_CLEAR_DEATH_NOTIFICATION_DONE = BR_number 16 4"
| "br_number BR_FAILED_REPLY = BR_number 17 0"
| "br_number (BR_OTHER v) = v"

definition BR_COUNT :: nat where "BR_COUNT = 18"

definition EAGAIN :: int where "EAGAIN = 11"
definition ERESTARTSYS :: int where "ERESTARTSYS = 512"

definition binder_stat_br :: "addr \<Rightarrow> addr \<Rightarrow> br_code \<Rightarrow> driver \<Rightarrow> driver option" where
  "binder_stat_br proc thread cmd s =
     do {
       p \<leftarrow> procs s proc;
       th \<leftarrow> threads s thread;
       let n = IOC_NR (br_number cmd);
       Some (if n < BR_COUNT then
               set_thread thread (th\<lparr>th_br := (th_br th)(n := Suc (th_br th n))\<rparr>)
                 (set_proc proc (p\<lparr>pr_br := (pr_br p)(n := Suc (pr_br p n))\<rparr>)
                   (s\<lparr>st_br := (st_br s)(n := Suc (st_br s n))\<rparr>))
             else s)
     }"

fun put_words :: "kern \<Rightarrow> nat \<Rightarrow> nat list \<Rightarrow> driver \<Rightarrow> bool \<times> driver" where
  "put_words K ptr [] s = (True, s)"
| "put_words K ptr (v # vs) s =
     (case put_user K ptr v s of
        (False, s1) \<Rightarrow> (False, s1)
      | (True, s1) \<Rightarrow> put_words K (ptr + 4) vs s1)"

section \<open>Waiting\<close>

text \<open>The arguments of the call, which stay the same.\<close>

record read_args =
  ra_current :: nat
  ra_proc :: addr
  ra_thread :: addr
  ra_buffer :: nat
  ra_end :: nat
  ra_consumed :: int
  ra_non_block :: bool

datatype read_result = Read_Return int int | Read_Sleep nat bool

definition binder_has_proc_work :: "addr \<Rightarrow> addr \<Rightarrow> driver \<Rightarrow> bool option" where
  "binder_has_proc_work proc thread s =
     do {
       th \<leftarrow> threads s thread;
       Some (items s (L_Proc proc) \<noteq> [] \<or> th_looper th AND LOOPER_NEED_RETURN \<noteq> 0)
     }"

definition binder_has_thread_work :: "addr \<Rightarrow> driver \<Rightarrow> bool option" where
  "binder_has_thread_work thread s =
     do {
       th \<leftarrow> threads s thread;
       Some (items s (L_Thread thread) \<noteq> [] \<or> th_return_error th \<noteq> BR_OK
             \<or> th_looper th AND LOOPER_NEED_RETURN \<noteq> 0)
     }"

text \<open>
  What the wait returns when it is looked at in state \<open>s\<close>: nothing while it goes on.
\<close>

definition wait_result :: "read_args \<Rightarrow> bool \<Rightarrow> bool \<Rightarrow> driver \<Rightarrow> int option option" where
  "wait_result a wait_for_proc_work interrupted s =
     do {
       work \<leftarrow> (if wait_for_proc_work then binder_has_proc_work (ra_proc a) (ra_thread a) s
                else binder_has_thread_work (ra_thread a) s);
       Some (if work then Some 0
             else if ra_non_block a then Some (- EAGAIN)
             else if interrupted then Some (- ERESTARTSYS)
             else None)
     }"

section \<open>One work item\<close>

datatype item_result = Item_Next nat | Item_Done nat | Item_Fault

definition read_complete :: "kern \<Rightarrow> read_args \<Rightarrow> addr \<Rightarrow> nat \<Rightarrow> driver \<Rightarrow> (item_result \<times> driver) option" where
  "read_complete K a c ptr s =
     (case put_user K ptr (br_number BR_TRANSACTION_COMPLETE) s of
        (False, s1) \<Rightarrow> Some (Item_Fault, s1)
      | (True, s1) \<Rightarrow>
          do {
            s2 \<leftarrow> binder_stat_br (ra_proc a) (ra_thread a) BR_TRANSACTION_COMPLETE s1;
            s3 \<leftarrow> list_del (W_Complete c) s2;
            s4 \<leftarrow> free_complete c s3;
            Some (Item_Next (ptr + 4), s4)
          })"

definition node_strong :: "binder_node \<Rightarrow> bool" where
  "node_strong n \<longleftrightarrow> n_internal_strong_refs n \<noteq> 0 \<or> n_local_strong_refs n \<noteq> 0"

definition node_weak :: "binder_node \<Rightarrow> bool" where
  "node_weak n \<longleftrightarrow> n_refs n \<noteq> [] \<or> n_local_weak_refs n \<noteq> 0 \<or> node_strong n"

text \<open>What the owner of a node is told next, and the node afterwards.\<close>

definition node_command :: "binder_node \<Rightarrow> br_code \<times> binder_node" where
  "node_command n =
     (if node_weak n \<and> \<not> n_has_weak_ref n then
        (BR_INCREFS, n\<lparr>n_has_weak_ref := True, n_pending_weak_ref := True,
                       n_local_weak_refs := n_local_weak_refs n + 1\<rparr>)
      else if node_strong n \<and> \<not> n_has_strong_ref n then
        (BR_ACQUIRE, n\<lparr>n_has_strong_ref := True, n_pending_strong_ref := True,
                       n_local_strong_refs := n_local_strong_refs n + 1\<rparr>)
      else if \<not> node_strong n \<and> n_has_strong_ref n then (BR_RELEASE, n\<lparr>n_has_strong_ref := False\<rparr>)
      else if \<not> node_weak n \<and> n_has_weak_ref n then (BR_DECREFS, n\<lparr>n_has_weak_ref := False\<rparr>)
      else (BR_NOOP, n))"

definition free_unused_node :: "kern \<Rightarrow> addr \<Rightarrow> addr \<Rightarrow> driver \<Rightarrow> driver option" where
  "free_unused_node K proc node s =
     do {
       p \<leftarrow> procs s proc;
       s1 \<leftarrow> kfree BINDER_STAT_NODE node (set_proc proc (p\<lparr>pr_nodes := rb_erase K node (pr_nodes p)\<rparr>) s);
       Some (binder_stats_deleted BINDER_STAT_NODE
               (drop_work (W_Node node) (s1\<lparr>nodes := (nodes s1)(node := None)\<rparr>)))
     }"

definition read_node :: "kern \<Rightarrow> read_args \<Rightarrow> addr \<Rightarrow> nat \<Rightarrow> driver \<Rightarrow> (item_result \<times> driver) option" where
  "read_node K a node ptr s =
     do {
       n \<leftarrow> nodes s node;
       let (cmd, n') = node_command n;
       let s1 = set_node node n' s;
       if cmd \<noteq> BR_NOOP then
         (case put_words K ptr [br_number cmd, n_ptr n, n_cookie n] s1 of
            (False, s2) \<Rightarrow> Some (Item_Fault, s2)
          | (True, s2) \<Rightarrow>
              map_option (Pair (Item_Next (ptr + 12))) (binder_stat_br (ra_proc a) (ra_thread a) cmd s2))
       else do {
         s2 \<leftarrow> list_del_init (W_Node node) s1;
         s3 \<leftarrow> (if \<not> node_weak n \<and> \<not> node_strong n then free_unused_node K (ra_proc a) node s2 else Some s2);
         Some (Item_Next ptr, s3)
       }
     }"

definition free_death :: "addr \<Rightarrow> driver \<Rightarrow> driver option" where
  "free_death d s =
     do {
       s1 \<leftarrow> kfree BINDER_STAT_DEATH d s;
       Some (binder_stats_deleted BINDER_STAT_DEATH
               (drop_work (W_Death d) (s1\<lparr>deaths := (deaths s1)(d := None)\<rparr>)))
     }"

definition read_death :: "kern \<Rightarrow> read_args \<Rightarrow> addr \<Rightarrow> nat \<Rightarrow> driver \<Rightarrow> (item_result \<times> driver) option" where
  "read_death K a d ptr s =
     do {
       dt \<leftarrow> deaths s d;
       let clear = (d_type dt = BINDER_WORK_CLEAR_DEATH_NOTIFICATION);
       let cmd = (if clear then BR_CLEAR_DEATH_NOTIFICATION_DONE else BR_DEAD_BINDER);
       case put_words K ptr [br_number cmd, d_cookie dt] s of
         (False, s1) \<Rightarrow> Some (Item_Fault, s1)
       | (True, s1) \<Rightarrow>
           do {
             s2 \<leftarrow> binder_stat_br (ra_proc a) (ra_thread a) cmd s1;
             s3 \<leftarrow> list_del (W_Death d) s2;
             if clear then map_option (Pair (Item_Next (ptr + 8))) (free_death d s3)
             else map_option (Pair (Item_Done (ptr + 8))) (list_add (W_Death d) (L_Delivered (ra_proc a)) s3)
           }
     }"

section \<open>Delivering a transaction\<close>

text \<open>The priority the thread takes on while it serves a call.\<close>

definition serve_priority :: "kern \<Rightarrow> nat \<Rightarrow> binder_transaction \<Rightarrow> int \<Rightarrow> int \<Rightarrow> driver \<Rightarrow> driver" where
  "serve_priority K current x saved min_priority s =
     (if t_priority x < min_priority \<and> t_flags x AND TF_ONE_WAY = 0 then binder_set_nice K current (t_priority x) s
      else if t_flags x AND TF_ONE_WAY = 0 \<or> saved > min_priority then binder_set_nice K current min_priority s
      else s)"

text \<open>The sender's process id, as the receiver sees it.\<close>

definition sender_pid :: "kern \<Rightarrow> binder_transaction \<Rightarrow> driver \<Rightarrow> nat option" where
  "sender_pid K x s =
     (case t_from x of
        None \<Rightarrow> Some 0
      | Some f \<Rightarrow> do { h \<leftarrow> threads s f; p \<leftarrow> procs s (th_proc h); Some (task_tgid K (p_tsk (pr_alloc p))) })"

definition tx_words :: "kern \<Rightarrow> binder_transaction \<Rightarrow> nat \<Rightarrow> nat \<Rightarrow> nat \<Rightarrow> binder_alloc \<Rightarrow> addr \<Rightarrow> binder_buffer \<Rightarrow> nat list" where
  "tx_words K x target cookie pid al b h =
     (let data = nat ((int (buffer_data K b) + p_user_buffer_offset al) mod 2 ^ 32)
      in [target, cookie, t_code x, unat (t_flags x), pid, t_sender_euid x, b_data_size h, b_offsets_size h,
          data, (data + align_up (ptr_bytes K) (b_data_size h) 4) mod 2 ^ 32])"

definition finish_delivery :: "addr \<Rightarrow> addr \<Rightarrow> addr \<times> addr \<Rightarrow> bool \<Rightarrow> driver \<Rightarrow> driver option" where
  "finish_delivery thread t b call s =
     do {
       s1 \<leftarrow> list_del (W_Transaction t) s;
       h \<leftarrow> buf_get s1 b;
       s2 \<leftarrow> buf_set b (h\<lparr>b_allow_user_free := True\<rparr>) s1;
       x \<leftarrow> transactions s2 t;
       if call \<and> t_flags x AND TF_ONE_WAY = 0 then
         do {
           th \<leftarrow> threads s2 thread;
           Some (set_thread thread (th\<lparr>th_transaction_stack := Some t\<rparr>)
                  (set_transaction t (x\<lparr>t_to_parent := th_transaction_stack th, t_to_thread := Some thread\<rparr>) s2))
         }
       else do {
         s3 \<leftarrow> clear_buffer (Some b) s2;
         free_transaction t s3
       }
     }"

definition read_transaction :: "kern \<Rightarrow> read_args \<Rightarrow> addr \<Rightarrow> nat \<Rightarrow> driver \<Rightarrow> (item_result \<times> driver) option" where
  "read_transaction K a t ptr s =
     do {
       x \<leftarrow> transactions s t;
       b \<leftarrow> t_buffer x;
       h \<leftarrow> buf_get s b;
       (target, cookie, s1) \<leftarrow>
         (case b_target_node h of
            None \<Rightarrow> Some (0, 0, s)
          | Some node \<Rightarrow>
              do {
                n \<leftarrow> nodes s node;
                let saved = nice_of s (ra_current a);
                let s0 = set_transaction t (x\<lparr>t_saved_priority := saved\<rparr>) s;
                Some (n_ptr n, n_cookie n, serve_priority K (ra_current a) x saved (int (n_min_priority n)) s0)
              });
       let cmd = (if b_target_node h = None then BR_REPLY else BR_TRANSACTION);
       pid \<leftarrow> sender_pid K x s1;
       p \<leftarrow> procs s1 (ra_proc a);
       case put_user K ptr (br_number cmd) s1 of
         (False, s2) \<Rightarrow> Some (Item_Fault, s2)
       | (True, s2) \<Rightarrow>
           (case copy_to_user K (ptr + 4)
                   (concat (map le_bytes (tx_words K x target cookie pid (pr_alloc p) (snd b) h))) s2 of
              (False, s3) \<Rightarrow> Some (Item_Fault, s3)
            | (True, s3) \<Rightarrow>
                do {
                  s4 \<leftarrow> binder_stat_br (ra_proc a) (ra_thread a) cmd s3;
                  s5 \<leftarrow> finish_delivery (ra_thread a) t b (cmd = BR_TRANSACTION) s4;
                  Some (Item_Done (ptr + 44), s5)
                })
     }"

fun read_item :: "kern \<Rightarrow> read_args \<Rightarrow> work \<Rightarrow> nat \<Rightarrow> driver \<Rightarrow> (item_result \<times> driver) option" where
  "read_item K a (W_Transaction t) ptr s = read_transaction K a t ptr s"
| "read_item K a (W_Complete c) ptr s = read_complete K a c ptr s"
| "read_item K a (W_Node node) ptr s = read_node K a node ptr s"
| "read_item K a (W_Death d) ptr s = read_death K a d ptr s"

section \<open>The loop over the work\<close>

text \<open>The links of the first item belong to its list; anything else is a corrupted list.\<close>

definition list_first :: "list_id \<Rightarrow> driver \<Rightarrow> work option option" where
  "list_first l s =
     (case items s l of
        [] \<Rightarrow> Some None
      | w # _ \<Rightarrow> if link_of s w = Linked l then Some (Some w) else None)"

definition next_work :: "read_args \<Rightarrow> bool \<Rightarrow> driver \<Rightarrow> work option option" where
  "next_work a wait_for_proc_work s =
     do {
       own \<leftarrow> list_first (L_Thread (ra_thread a)) s;
       case own of
         Some w \<Rightarrow> Some (Some w)
       | None \<Rightarrow> if wait_for_proc_work then list_first (L_Proc (ra_proc a)) s else Some None
     }"

text \<open>The difference of two pointers, compared as an unsigned number.\<close>

definition room_left :: "kern \<Rightarrow> nat \<Rightarrow> nat \<Rightarrow> nat" where
  "room_left K end_ptr ptr = nat ((int end_ptr - int ptr) mod 2 ^ (8 * ptr_bytes K))"

datatype loop_result = Loop_Done nat | Loop_Retry nat | Loop_Fault

definition work_items :: "read_args \<Rightarrow> driver \<Rightarrow> nat" where
  "work_items a s = length (items s (L_Thread (ra_thread a))) + length (items s (L_Proc (ra_proc a)))"


text \<open>
  A round that goes on has either written something, below the end of the address space, or
  taken an item off one of the two lists.
\<close>

lemma put_user_room: "put_user K ptr v s = (True, s') \<Longrightarrow> ptr < 2 ^ (8 * ptr_bytes K)"
  by (auto simp: put_user_def copy_to_user_def split: if_splits)

lemma put_words_room: "put_words K ptr (v # vs) s = (True, s') \<Longrightarrow> ptr < 2 ^ (8 * ptr_bytes K)"
  by (auto dest: put_user_room split: prod.splits bool.splits)

lemma list_first_head: "list_first l s = Some (Some w) \<Longrightarrow> link_of s w = Linked l \<and> (\<exists>ws. items s l = w # ws)"
  by (auto simp: list_first_def split: list.splits if_splits)

lemma next_work_head:
  assumes "next_work a waitp s = Some (Some w)"
  obtains l ws where "l \<in> {L_Thread (ra_thread a), L_Proc (ra_proc a)}" and "link_of s w = Linked l"
    and "items s l = w # ws"
  using assms
  by (auto simp: next_work_def bind_eq_Some_conv split: option.splits if_splits dest!: list_first_head)

lemma free_unused_items: "free_unused_node K proc node s = Some s' \<Longrightarrow> items s' = items s"
  by (auto simp: free_unused_node_def kfree_def set_proc_def binder_stats_deleted_def drop_work_def set_link_def
      split: bind_splits if_splits)

lemma work_items_unlink:
  assumes "l \<in> {L_Thread (ra_thread a), L_Proc (ra_proc a)}" and "link_of s w = Linked l" and "items s l = w # ws"
    and "list_del_init w s = Some s'"
  shows "work_items a s' < work_items a s"
  using assms by (auto simp: work_items_def list_del_init_def unlink_def set_link_def split: if_splits)

lemma read_item_progress:
  assumes "next_work a waitp s = Some (Some w)" and "read_item K a w ptr s = Some (Item_Next ptr', s')"
  shows "ptr < ptr' \<and> ptr < 2 ^ (8 * ptr_bytes K) \<or> ptr' = ptr \<and> work_items a s' < work_items a s"
proof (cases w)
  case (W_Transaction t)
  with assms(2) show ?thesis
    by (auto simp: read_transaction_def Let_def split: bind_splits prod.splits bool.splits)
next
  case (W_Complete c)
  with assms(2) show ?thesis
    by (auto simp: read_complete_def dest: put_user_room split: bind_splits prod.splits bool.splits)
next
  case (W_Death d)
  with assms(2) show ?thesis
    by (auto simp: read_death_def Let_def simp del: put_words.simps dest: put_words_room
        split: bind_splits prod.splits bool.splits if_splits)
next
  case (W_Node node)
  obtain n where n: "nodes s node = Some n" using assms(2) W_Node by (auto simp: read_node_def split: bind_splits)
  obtain cmd n' where c: "node_command n = (cmd, n')" by fastforce
  show ?thesis
  proof (cases "cmd = BR_NOOP")
    case False
    with assms(2) W_Node n c show ?thesis
      by (auto simp: read_node_def simp del: put_words.simps dest: put_words_room
          split: bind_splits prod.splits bool.splits if_splits)
  next
    case True
    then obtain s2 where s2: "list_del_init (W_Node node) (set_node node n' s) = Some s2" "ptr' = ptr"
      "items s' = items s2"
      using assms(2) W_Node n c
      by (auto simp: read_node_def dest: free_unused_items split: bind_splits if_splits)
    obtain l ws where "l \<in> {L_Thread (ra_thread a), L_Proc (ra_proc a)}" "link_of s w = Linked l" "items s l = w # ws"
      by (rule next_work_head [OF assms(1)])
    then have "work_items a s2 < work_items a (set_node node n' s)"
      using s2(1) W_Node by (intro work_items_unlink [of l a _ w ws]) (simp_all add: set_node_def)
    then show ?thesis using s2 by (simp add: work_items_def set_node_def)
  qed
qed

function read_loop :: "kern \<Rightarrow> read_args \<Rightarrow> bool \<Rightarrow> nat \<Rightarrow> driver \<Rightarrow> (loop_result \<times> driver) option" where
  "read_loop K a wait_for_proc_work ptr s =
     (case next_work a wait_for_proc_work s of
        None \<Rightarrow> None
      | Some None \<Rightarrow>
          (case threads s (ra_thread a) of
             None \<Rightarrow> None
           | Some th \<Rightarrow>
               if ptr = ra_buffer a + 4 \<and> th_looper th AND LOOPER_NEED_RETURN = 0
               then Some (Loop_Retry ptr, s) else Some (Loop_Done ptr, s))
      | Some (Some w) \<Rightarrow>
          if room_left K (ra_end a) ptr < sizeof_tx_data + 4 then Some (Loop_Done ptr, s)
          else (case read_item K a w ptr s of
              None \<Rightarrow> None
            | Some (Item_Fault, s1) \<Rightarrow> Some (Loop_Fault, s1)
            | Some (Item_Done ptr', s1) \<Rightarrow> Some (Loop_Done ptr', s1)
            | Some (Item_Next ptr', s1) \<Rightarrow> read_loop K a wait_for_proc_work ptr' s1))"
  by pat_completeness auto
termination
  by (relation "measures [\<lambda>(K, a, waitp, ptr, s). 2 ^ (8 * ptr_bytes K) - ptr, \<lambda>(K, a, waitp, ptr, s). work_items a s]")
    (auto dest!: read_item_progress)

declare read_loop.simps [simp del]

section \<open>The end of the call\<close>

definition spawn_looper :: "binder_proc \<Rightarrow> binder_thread \<Rightarrow> bool" where
  "spawn_looper p th \<longleftrightarrow> pr_requested_threads p + pr_ready_threads p = 0 \<and>
     pr_requested_threads_started p < pr_max_threads p \<and>
     th_looper th AND (LOOPER_REGISTERED OR LOOPER_ENTERED) \<noteq> 0"

definition read_done :: "kern \<Rightarrow> read_args \<Rightarrow> nat \<Rightarrow> driver \<Rightarrow> (read_result \<times> driver) option" where
  "read_done K a ptr s =
     do {
       p \<leftarrow> procs s (ra_proc a);
       th \<leftarrow> threads s (ra_thread a);
       let consumed = ptr_diff K ptr (ra_buffer a);
       if spawn_looper p th then
         (case put_user K (ra_buffer a) (br_number BR_SPAWN_LOOPER)
                 (set_proc (ra_proc a) (p\<lparr>pr_requested_threads := pr_requested_threads p + 1\<rparr>) s) of
            (False, s1) \<Rightarrow> Some (Read_Return (- EFAULT) consumed, s1)
          | (True, s1) \<Rightarrow>
              map_option (Pair (Read_Return 0 consumed))
                (binder_stat_br (ra_proc a) (ra_thread a) BR_SPAWN_LOOPER s1))
       else Some (Read_Return 0 consumed, s)
     }"

definition read_fault :: "read_args \<Rightarrow> driver \<Rightarrow> (read_result \<times> driver) option" where
  "read_fault a s = Some (Read_Return (- EFAULT) (ra_consumed a), s)"

text \<open>The pending errors of the thread: first the second one, then the first.\<close>

definition read_errors :: "kern \<Rightarrow> read_args \<Rightarrow> nat \<Rightarrow> binder_thread \<Rightarrow> driver \<Rightarrow> (read_result \<times> driver) option" where
  "read_errors K a ptr th s =
     do {
       (res, ptr1, s1) \<leftarrow>
         (if th_return_error2 th \<noteq> BR_OK then
            (case put_user K ptr (br_number (th_return_error2 th)) s of
               (False, s1) \<Rightarrow> Some (Item_Fault, ptr, s1)
             | (True, s1) \<Rightarrow>
                 do {
                   s2 \<leftarrow> binder_stat_br (ra_proc a) (ra_thread a) (th_return_error2 th) s1;
                   if ptr + 4 = ra_end a then Some (Item_Done (ptr + 4), ptr + 4, s2)
                   else do {
                     h \<leftarrow> threads s2 (ra_thread a);
                     Some (Item_Next (ptr + 4), ptr + 4, set_thread (ra_thread a) (h\<lparr>th_return_error2 := BR_OK\<rparr>) s2)
                   }
                 })
          else Some (Item_Next ptr, ptr, s));
       case res of
         Item_Fault \<Rightarrow> read_fault a s1
       | Item_Done p \<Rightarrow> read_done K a p s1
       | Item_Next p \<Rightarrow>
           (case put_user K p (br_number (th_return_error th)) s1 of
              (False, s2) \<Rightarrow> read_fault a s2
            | (True, s2) \<Rightarrow>
                do {
                  s3 \<leftarrow> binder_stat_br (ra_proc a) (ra_thread a) (th_return_error th) s2;
                  h \<leftarrow> threads s3 (ra_thread a);
                  read_done K a (p + 4) (set_thread (ra_thread a) (h\<lparr>th_return_error := BR_OK\<rparr>) s3)
                })
     }"

text \<open>From the label \<open>retry\<close> to the point where the lock is given up.\<close>

definition read_retry :: "kern \<Rightarrow> read_args \<Rightarrow> nat \<Rightarrow> driver \<Rightarrow> (read_result \<times> driver) option" where
  "read_retry K a ptr s =
     do {
       th \<leftarrow> threads s (ra_thread a);
       p \<leftarrow> procs s (ra_proc a);
       let waitp = (th_transaction_stack th = None \<and> items s (L_Thread (ra_thread a)) = []);
       if th_return_error th \<noteq> BR_OK \<and> ptr < ra_end a then read_errors K a ptr th s
       else
         let s1 = set_thread (ra_thread a) (th\<lparr>th_looper := th_looper th OR LOOPER_WAITING\<rparr>) s in
         Some (Read_Sleep ptr waitp,
           if waitp then
             binder_set_nice K (ra_current a) (pr_default_priority p)
               (set_proc (ra_proc a) (p\<lparr>pr_ready_threads := pr_ready_threads p + 1\<rparr>) s1)
           else s1)
     }"

definition thread_read_start :: "kern \<Rightarrow> read_args \<Rightarrow> driver \<Rightarrow> (read_result \<times> driver) option" where
  "thread_read_start K a s =
     (let ptr = ptr_add K (ra_buffer a) (ra_consumed a) in
      if ra_consumed a = 0 then
        (case put_user K ptr (br_number BR_NOOP) s of
           (False, s1) \<Rightarrow> read_fault a s1
         | (True, s1) \<Rightarrow> read_retry K a (ptr + 4) s1)
      else read_retry K a ptr s)"

text \<open>The thread has the lock again; \<open>ret\<close> is what the wait returned.\<close>

definition read_woken :: "read_args \<Rightarrow> bool \<Rightarrow> driver \<Rightarrow> driver option" where
  "read_woken a waitp s =
     do {
       th \<leftarrow> threads s (ra_thread a);
       p \<leftarrow> procs s (ra_proc a);
       let s1 = (if waitp then set_proc (ra_proc a) (p\<lparr>pr_ready_threads := pr_ready_threads p - 1\<rparr>) s else s);
       Some (set_thread (ra_thread a) (th\<lparr>th_looper := th_looper th AND NOT LOOPER_WAITING\<rparr>) s1)
     }"

definition thread_read_resume ::
  "kern \<Rightarrow> read_args \<Rightarrow> nat \<Rightarrow> bool \<Rightarrow> int \<Rightarrow> driver \<Rightarrow> (read_result \<times> driver) option" where
  "thread_read_resume K a ptr waitp ret s =
     do {
       s1 \<leftarrow> read_woken a waitp s;
       if ret \<noteq> 0 then Some (Read_Return (if ret = - ERESTARTSYS then 0 else ret) (ra_consumed a), s1)
       else do {
         (res, s2) \<leftarrow> read_loop K a waitp ptr s1;
         (case res of
            Loop_Fault \<Rightarrow> read_fault a s2
          | Loop_Retry p \<Rightarrow> read_retry K a p s2
          | Loop_Done p \<Rightarrow> read_done K a p s2)
       }
     }"

end
