(* ===== verification/Binder_Ioctl.thy ===== *)
theory Binder_Ioctl
  imports Binder_Read
begin

text \<open>
  The entry points a thread uses: \<open>binder_get_thread\<close>, \<open>binder_free_thread\<close> with
  \<open>binder_release_work\<close>, \<open>binder_poll\<close> and \<open>binder_ioctl\<close>. An \<open>ioctl\<close> that sleeps in its
  read returns \<open>Ioctl_Sleep\<close> with what it keeps on its stack, and goes on with
  \<open>binder_ioctl_resume\<close>. The counts that are only printed are not computed.
\<close>

section \<open>Work nobody will receive\<close>

lemma buf_set_items: "buf_set b h s = Some s' \<Longrightarrow> items s' = items s"
  by (auto simp: buf_set_def set_proc_def Let_def split: bind_splits)

lemma pop_stack_items: "pop_stack tt t x s = Some s' \<Longrightarrow> items s' = items s"
  by (auto simp: pop_stack_def set_thread_def split: option.splits bind_splits if_splits)

lemma clear_buffer_items: "clear_buffer bo s = Some s' \<Longrightarrow> items s' = items s"
  by (auto simp: clear_buffer_def dest: buf_set_items split: option.splits bind_splits)

lemma free_transaction_items: "free_transaction t s = Some s' \<Longrightarrow> items s' = items s"
  by (auto simp: free_transaction_def kfree_def binder_stats_deleted_def drop_work_def set_link_def
      split: bind_splits if_splits)

lemma pop_items: "binder_pop_transaction tt t s = Some s' \<Longrightarrow> items s' = items s"
  by (auto simp: binder_pop_transaction_def bind_eq_Some_conv
      dest!: pop_stack_items clear_buffer_items free_transaction_items)

lemma thread_error_items: "thread_error th t e s = Some s' \<Longrightarrow> items s' = items s"
  by (auto simp: thread_error_def Let_def set_thread_def dest!: pop_items split: bind_splits if_splits)

lemma send_failed_reply_loop_items: "send_failed_reply_loop t e s = Some s' \<Longrightarrow> items s' = items s"
proof (induction t e s rule: send_failed_reply_loop.induct)
  case (1 t e s)
  have parent: "items s' = items s" if "transactions s t = Some x" "t_from x = None" "t_from_parent x = Some t'"
    "binder_pop_transaction None t s = Some s1" "send_failed_reply_loop t' e s1 = Some s'" for x t' s1
    using 1(1) [OF that(1,2,4,3,5)] pop_items [OF that(4)] by simp
  from 1(2) show ?case
    by (subst (asm) send_failed_reply_loop.simps)
      (auto split: option.splits dest: thread_error_items pop_items intro: parent)
qed

lemma send_failed_reply_items: "binder_send_failed_reply t e s = Some s' \<Longrightarrow> items s' = items s"
  by (auto simp: binder_send_failed_reply_def dest!: send_failed_reply_loop_items split: bind_splits if_splits)

definition undelivered_transaction :: "addr \<Rightarrow> driver \<Rightarrow> driver option" where
  "undelivered_transaction t s =
     do {
       x \<leftarrow> transactions s t;
       b \<leftarrow> t_buffer x;
       h \<leftarrow> buf_get s b;
       if b_target_node h \<noteq> None \<and> t_flags x AND TF_ONE_WAY = 0 then binder_send_failed_reply t BR_DEAD_REPLY s
       else do {
         s1 \<leftarrow> clear_buffer (Some b) s;
         free_transaction t s1
       }
     }"

text \<open>Nodes and notifications that still belong to a reference are only taken off the list.\<close>

fun undelivered :: "work \<Rightarrow> driver \<Rightarrow> driver option" where
  "undelivered (W_Transaction t) s = undelivered_transaction t s"
| "undelivered (W_Complete c) s = free_complete c s"
| "undelivered (W_Death d) s =
     do {
       dt \<leftarrow> deaths s d;
       if d_type dt = BINDER_WORK_DEAD_BINDER_AND_CLEAR \<or> d_type dt = BINDER_WORK_CLEAR_DEATH_NOTIFICATION
       then free_death d s else Some s
     }"
| "undelivered (W_Node node) s = Some s"

lemma undelivered_items: "undelivered w s = Some s' \<Longrightarrow> items s' = items s"
proof (cases w)
  case (W_Transaction t)
  assume "undelivered w s = Some s'"
  with W_Transaction show ?thesis
    by (auto simp: undelivered_transaction_def dest!: send_failed_reply_items clear_buffer_items free_transaction_items
        split: bind_splits if_splits)
next
  case (W_Complete c)
  assume "undelivered w s = Some s'"
  with W_Complete show ?thesis
    by (auto simp: free_complete_def kfree_def binder_stats_deleted_def drop_work_def set_link_def split: if_splits)
next
  case (W_Death d)
  assume "undelivered w s = Some s'"
  with W_Death show ?thesis
    by (auto simp: free_death_def kfree_def binder_stats_deleted_def drop_work_def set_link_def
        split: bind_splits if_splits)
qed simp

lemma list_first_unlink:
  assumes "list_first l s = Some (Some w)" and "list_del_init w s = Some s'"
  shows "length (items s' l) < length (items s l)"
  using assms by (auto simp: list_del_init_def unlink_def set_link_def dest!: list_first_head split: if_splits)

function binder_release_work :: "list_id \<Rightarrow> driver \<Rightarrow> driver option" where
  "binder_release_work l s =
     (case list_first l s of
        None \<Rightarrow> None
      | Some None \<Rightarrow> Some s
      | Some (Some w) \<Rightarrow>
          (case list_del_init w s of
             None \<Rightarrow> None
           | Some s1 \<Rightarrow> (case undelivered w s1 of None \<Rightarrow> None | Some s2 \<Rightarrow> binder_release_work l s2)))"
  by pat_completeness auto
termination
  by (relation "measure (\<lambda>(l, s). length (items s l))") (auto dest: list_first_unlink dest!: undelivered_items)

declare binder_release_work.simps [simp del]

section \<open>Threads\<close>

definition thread_key :: "driver \<Rightarrow> addr \<Rightarrow> nat option" where
  "thread_key s t = map_option th_pid (threads s t)"

definition new_thread :: "addr \<Rightarrow> nat \<Rightarrow> binder_thread" where
  "new_thread proc pid = \<lparr>th_proc = proc, th_pid = pid, th_looper = LOOPER_NEED_RETURN,
     th_transaction_stack = None, th_return_error = BR_OK, th_return_error2 = BR_OK,
     th_br = (\<lambda>_. 0), th_bc = (\<lambda>_. 0)\<rparr>"

definition binder_get_thread :: "kern \<Rightarrow> nat \<Rightarrow> addr \<Rightarrow> driver \<Rightarrow> (addr option \<times> driver) option" where
  "binder_get_thread K current proc s =
     do {
       p \<leftarrow> procs s proc;
       found \<leftarrow> rb_search (key_dir (thread_key s) (task_pid K current)) (pr_threads p);
       case found of
         Some thread \<Rightarrow> Some (Some thread, s)
       | None \<Rightarrow> (case kmalloc K BINDER_STAT_THREAD s of
           (None, s1) \<Rightarrow> Some (None, s1)
         | (Some thread, s1) \<Rightarrow>
             do {
               let s2 = binder_stats_created BINDER_STAT_THREAD s1;
               t \<leftarrow> rb_link (key_dir (thread_key s) (task_pid K current)) thread (pr_threads p);
               t \<leftarrow> t;
               let s3 = set_proc proc (p\<lparr>pr_threads := rb_insert_color K thread t\<rparr>) s2;
               let s4 = set_thread thread (new_thread proc (task_pid K current)) s3;
               Some (Some thread, s4\<lparr>items := (items s4)(L_Thread thread := [])\<rparr>)
             })
     }"

text \<open>
  The transactions on the stack of a thread that goes away. Each round takes the thread out
  of one of them, so the number of live objects, twice, bounds the rounds; a transaction that
  is met with nothing to take out is the \<open>BUG\<close>.
\<close>

fun detach_stack :: "nat \<Rightarrow> addr \<Rightarrow> addr option \<Rightarrow> driver \<Rightarrow> driver option" where
  "detach_stack fuel thread None s = Some s"
| "detach_stack 0 thread (Some t) s = None"
| "detach_stack (Suc fuel) thread (Some t) s =
     do {
       x \<leftarrow> transactions s t;
       if t_to_thread x = Some thread then
         do {
           s1 \<leftarrow> clear_buffer (t_buffer x) s;
           detach_stack fuel thread (t_to_parent x)
             (set_transaction t (x\<lparr>t_to_proc := None, t_to_thread := None, t_buffer := None\<rparr>) s1)
         }
       else if t_from x = Some thread then
         detach_stack fuel thread (t_from_parent x) (set_transaction t (x\<lparr>t_from := None\<rparr>) s)
       else None
     }"

definition binder_free_thread :: "kern \<Rightarrow> addr \<Rightarrow> addr \<Rightarrow> driver \<Rightarrow> driver option" where
  "binder_free_thread K proc thread s =
     do {
       p \<leftarrow> procs s proc;
       th \<leftarrow> threads s thread;
       let s1 = set_proc proc (p\<lparr>pr_threads := rb_erase K thread (pr_threads p)\<rparr>) s;
       send_reply \<leftarrow> (case th_transaction_stack th of
           None \<Rightarrow> Some None
         | Some t \<Rightarrow> do { x \<leftarrow> transactions s t; Some (if t_to_thread x = Some thread then Some t else None) });
       s2 \<leftarrow> detach_stack (2 * length (live s)) thread (th_transaction_stack th) s1;
       s3 \<leftarrow> (case send_reply of None \<Rightarrow> Some s2 | Some t \<Rightarrow> binder_send_failed_reply t BR_DEAD_REPLY s2);
       s4 \<leftarrow> binder_release_work (L_Thread thread) s3;
       s5 \<leftarrow> kfree BINDER_STAT_THREAD thread s4;
       Some (binder_stats_deleted BINDER_STAT_THREAD (s5\<lparr>threads := (threads s5)(thread := None)\<rparr>))
     }"

section \<open>Polling\<close>

text \<open>
  Which work the thread polls for; a failed allocation of the thread is not checked. Whether
  there is any is looked at without the lock, twice, in whatever state the driver is then.
\<close>

definition binder_poll :: "kern \<Rightarrow> nat \<Rightarrow> addr \<Rightarrow> driver \<Rightarrow> ((addr \<times> bool) \<times> driver) option" where
  "binder_poll K current proc s =
     do {
       (res, s1) \<leftarrow> binder_get_thread K current proc s;
       thread \<leftarrow> res;
       th \<leftarrow> threads s1 thread;
       Some ((thread, th_transaction_stack th = None \<and> items s1 (L_Thread thread) = [] \<and> th_return_error th = BR_OK), s1)
     }"

definition poll_ready :: "addr \<Rightarrow> addr \<Rightarrow> bool \<Rightarrow> driver \<Rightarrow> bool option" where
  "poll_ready proc thread wait_for_proc_work s =
     (if wait_for_proc_work then binder_has_proc_work proc thread s else binder_has_thread_work thread s)"

section \<open>The control commands\<close>

definition B_code :: "nat \<Rightarrow> nat \<Rightarrow> nat \<Rightarrow> nat" where
  "B_code dir nr sz = IOC dir 0x62 nr sz"

definition BINDER_WRITE_READ :: nat where "BINDER_WRITE_READ = B_code (IOC_READ + IOC_WRITE) 1 24"
definition BINDER_SET_MAX_THREADS :: nat where "BINDER_SET_MAX_THREADS = B_code IOC_WRITE 5 4"
definition BINDER_SET_CONTEXT_MGR :: nat where "BINDER_SET_CONTEXT_MGR = B_code IOC_WRITE 7 4"
definition BINDER_THREAD_EXIT :: nat where "BINDER_THREAD_EXIT = B_code IOC_WRITE 8 4"
definition BINDER_VERSION :: nat where "BINDER_VERSION = B_code (IOC_READ + IOC_WRITE) 9 4"

definition BINDER_CURRENT_PROTOCOL_VERSION :: nat where "BINDER_CURRENT_PROTOCOL_VERSION = 7"

definition IOC_SIZE :: "nat \<Rightarrow> nat" where
  "IOC_SIZE cmd = cmd div 2 ^ 16 mod 2 ^ 14"

record binder_write_read =
  write_size :: int
  write_consumed :: int
  write_buffer :: nat
  read_size :: int
  read_consumed :: int
  read_buffer :: nat

definition s32 :: "nat \<Rightarrow> int" where
  "s32 v = sint (word_of_nat v :: 32 word)"

definition trunc_s32 :: "int \<Rightarrow> int" where
  "trunc_s32 v = sint (word_of_int v :: 32 word)"

definition u32_of :: "int \<Rightarrow> nat" where
  "u32_of v = nat (v mod 2 ^ 32)"

definition bwr_of_bytes :: "byte list \<Rightarrow> binder_write_read" where
  "bwr_of_bytes bs =
     (let m = (\<lambda>i. bs ! i) in
      \<lparr>write_size = s32 (get_u32 m 0), write_consumed = s32 (get_u32 m 4), write_buffer = get_u32 m 8,
       read_size = s32 (get_u32 m 12), read_consumed = s32 (get_u32 m 16), read_buffer = get_u32 m 20\<rparr>)"

definition bytes_of_bwr :: "binder_write_read \<Rightarrow> byte list" where
  "bytes_of_bwr b =
     concat (map le_bytes [u32_of (write_size b), u32_of (write_consumed b), write_buffer b,
                           u32_of (read_size b), u32_of (read_consumed b), read_buffer b])"

text \<open>What a sleeping call keeps on its stack.\<close>

record ioctl_frame =
  if_thread :: addr
  if_ubuf :: nat
  if_bwr :: binder_write_read
  if_args :: read_args
  if_ptr :: nat
  if_wait_proc :: bool

datatype ioctl_result = Ioctl_Return int | Ioctl_Sleep ioctl_frame

text \<open>The label \<open>err\<close>, which the successful commands reach too.\<close>

definition ioctl_end :: "addr option \<Rightarrow> int \<Rightarrow> driver \<Rightarrow> (ioctl_result \<times> driver) option" where
  "ioctl_end thread ret s =
     (case thread of
        None \<Rightarrow> Some (Ioctl_Return ret, s)
      | Some t \<Rightarrow>
          do {
            th \<leftarrow> threads s t;
            Some (Ioctl_Return ret, set_thread t (th\<lparr>th_looper := th_looper th AND NOT LOOPER_NEED_RETURN\<rparr>) s)
          })"

text \<open>The structure goes back to the caller, with an error or without.\<close>

definition bwr_end :: "kern \<Rightarrow> addr \<Rightarrow> nat \<Rightarrow> binder_write_read \<Rightarrow> int \<Rightarrow> driver \<Rightarrow> (ioctl_result \<times> driver) option" where
  "bwr_end K thread ubuf bwr ret s =
     (case copy_to_user K ubuf (bytes_of_bwr bwr) s of
        (False, s1) \<Rightarrow> ioctl_end (Some thread) (- EFAULT) s1
      | (True, s1) \<Rightarrow> ioctl_end (Some thread) (if ret < 0 then ret else 0) s1)"

definition after_read ::
  "kern \<Rightarrow> addr \<Rightarrow> nat \<Rightarrow> binder_write_read \<Rightarrow> read_args \<Rightarrow> read_result \<Rightarrow> driver \<Rightarrow> (ioctl_result \<times> driver) option" where
  "after_read K thread ubuf bwr a res s =
     (case res of
        Read_Sleep ptr waitp \<Rightarrow>
          Some (Ioctl_Sleep \<lparr>if_thread = thread, if_ubuf = ubuf, if_bwr = bwr, if_args = a, if_ptr = ptr,
                             if_wait_proc = waitp\<rparr>, s)
      | Read_Return ret consumed \<Rightarrow>
          bwr_end K thread ubuf (bwr\<lparr>read_consumed := trunc_s32 consumed\<rparr>) ret s)"

definition ioctl_read ::
  "kern \<Rightarrow> nat \<Rightarrow> bool \<Rightarrow> addr \<Rightarrow> addr \<Rightarrow> nat \<Rightarrow> binder_write_read \<Rightarrow> driver \<Rightarrow> (ioctl_result \<times> driver) option" where
  "ioctl_read K current non_block proc thread ubuf bwr s =
     (if read_size bwr > 0 then
        let a = \<lparr>ra_current = current, ra_proc = proc, ra_thread = thread, ra_buffer = read_buffer bwr,
                 ra_end = ptr_add K (read_buffer bwr) (read_size bwr), ra_consumed = 0, ra_non_block = non_block\<rparr>
        in do {
          (res, s1) \<leftarrow> thread_read_start K a s;
          after_read K thread ubuf bwr a res s1
        }
      else bwr_end K thread ubuf bwr 0 s)"

definition ioctl_write_read ::
  "kern \<Rightarrow> nat \<Rightarrow> bool \<Rightarrow> addr \<Rightarrow> addr \<Rightarrow> nat \<Rightarrow> driver \<Rightarrow> (ioctl_result \<times> driver) option" where
  "ioctl_write_read K current non_block proc thread ubuf s =
     (case copy_from_user K ubuf 24 s of
        (None, s1) \<Rightarrow> ioctl_end (Some thread) (- EFAULT) s1
      | (Some bs, s1) \<Rightarrow>
          let bwr = bwr_of_bytes bs in
          if write_size bwr > 0 then
            do {
              (ret, consumed, s2) \<leftarrow>
                binder_thread_write K current proc thread (write_buffer bwr) (write_size bwr) 0 s1;
              let bwr1 = bwr\<lparr>write_consumed := trunc_s32 consumed\<rparr>;
              if ret < 0 then bwr_end K thread ubuf (bwr1\<lparr>read_consumed := 0\<rparr>) ret s2
              else ioctl_read K current non_block proc thread ubuf bwr1 s2
            }
          else ioctl_read K current non_block proc thread ubuf bwr s1)"

text \<open>A copy that faults leaves something unspecified in \<open>max_threads\<close>.\<close>

definition set_max_threads :: "kern \<Rightarrow> addr \<Rightarrow> nat \<Rightarrow> driver \<Rightarrow> (int \<times> driver) option" where
  "set_max_threads K proc ubuf s =
     do {
       let (v, s1) = get_user K ubuf s;
       p \<leftarrow> procs s1 proc;
       Some (case v of
               None \<Rightarrow> (- EINVAL, set_proc proc (p\<lparr>pr_max_threads := s32 (uninit K (ticks s))\<rparr>) s1)
             | Some n \<Rightarrow> (0, set_proc proc (p\<lparr>pr_max_threads := s32 n\<rparr>) s1))
     }"

definition set_context_mgr :: "kern \<Rightarrow> nat \<Rightarrow> addr \<Rightarrow> driver \<Rightarrow> (int \<times> driver) option" where
  "set_context_mgr K current proc s =
     (if binder_context_mgr_node s \<noteq> None then Some (- EBUSY, s)
      else if binder_context_mgr_uid s \<noteq> None \<and> binder_context_mgr_uid s \<noteq> Some (task_euid K current)
      then Some (- EPERM, s)
      else do {
        let s1 = s\<lparr>binder_context_mgr_uid := Some (task_euid K current)\<rparr>;
        (res, s2) \<leftarrow> binder_new_node K proc 0 0 s1;
        let s3 = s2\<lparr>binder_context_mgr_node := res\<rparr>;
        case res of
          None \<Rightarrow> Some (- ENOMEM, s3)
        | Some node \<Rightarrow>
            do {
              n \<leftarrow> nodes s3 node;
              Some (0, set_node node (n\<lparr>n_local_weak_refs := n_local_weak_refs n + 1,
                                        n_local_strong_refs := n_local_strong_refs n + 1,
                                        n_has_strong_ref := True, n_has_weak_ref := True\<rparr>) s3)
            }
      })"

definition ioctl_version :: "kern \<Rightarrow> nat \<Rightarrow> driver \<Rightarrow> int \<times> driver" where
  "ioctl_version K ubuf s =
     (case put_user K ubuf BINDER_CURRENT_PROTOCOL_VERSION s of
        (False, s1) \<Rightarrow> (- EINVAL, s1)
      | (True, s1) \<Rightarrow> (0, s1))"

definition ioctl_command ::
  "kern \<Rightarrow> nat \<Rightarrow> bool \<Rightarrow> addr \<Rightarrow> addr \<Rightarrow> nat \<Rightarrow> nat \<Rightarrow> driver \<Rightarrow> (ioctl_result \<times> driver) option" where
  "ioctl_command K current non_block proc thread cmd arg s =
     (if cmd = BINDER_WRITE_READ then
        (if IOC_SIZE cmd \<noteq> 24 then ioctl_end (Some thread) (- EINVAL) s
         else ioctl_write_read K current non_block proc thread arg s)
      else if cmd = BINDER_SET_MAX_THREADS then
        do { (ret, s1) \<leftarrow> set_max_threads K proc arg s; ioctl_end (Some thread) ret s1 }
      else if cmd = BINDER_SET_CONTEXT_MGR then
        do { (ret, s1) \<leftarrow> set_context_mgr K current proc s; ioctl_end (Some thread) ret s1 }
      else if cmd = BINDER_THREAD_EXIT then
        do { s1 \<leftarrow> binder_free_thread K proc thread s; ioctl_end None 0 s1 }
      else if cmd = BINDER_VERSION then
        (if IOC_SIZE cmd \<noteq> 4 then ioctl_end (Some thread) (- EINVAL) s
         else let (ret, s1) = ioctl_version K arg s in ioctl_end (Some thread) ret s1)
      else ioctl_end (Some thread) (- EINVAL) s)"

definition binder_ioctl ::
  "kern \<Rightarrow> nat \<Rightarrow> bool \<Rightarrow> addr \<Rightarrow> nat \<Rightarrow> nat \<Rightarrow> driver \<Rightarrow> (ioctl_result \<times> driver) option" where
  "binder_ioctl K current non_block proc cmd arg s =
     do {
       (res, s1) \<leftarrow> binder_get_thread K current proc s;
       case res of
         None \<Rightarrow> ioctl_end None (- ENOMEM) s1
       | Some thread \<Rightarrow> ioctl_command K current non_block proc thread cmd arg s1
     }"

text \<open>
  The rest of a call that was asleep, in the state in which its wait returned; while the wait
  goes on it stays where it is.
\<close>

definition binder_ioctl_resume ::
  "kern \<Rightarrow> ioctl_frame \<Rightarrow> bool \<Rightarrow> driver \<Rightarrow> (ioctl_result \<times> driver) option" where
  "binder_ioctl_resume K f interrupted s =
     do {
       w \<leftarrow> wait_result (if_args f) (if_wait_proc f) interrupted s;
       case w of
         None \<Rightarrow> Some (Ioctl_Sleep f, s)
       | Some ret \<Rightarrow>
           do {
             (res, s1) \<leftarrow> thread_read_resume K (if_args f) (if_ptr f) (if_wait_proc f) ret s;
             after_read K (if_thread f) (if_ubuf f) (if_bwr f) (if_args f) res s1
           }
     }"

end
