(* ===== verification/Binder_Lifecycle.thy ===== *)
theory Binder_Lifecycle
  imports Binder_Ioctl
begin

text \<open>
  The life of a process in the driver: \<open>binder_open\<close>, mapping and unmapping its area,
  \<open>binder_flush\<close>, \<open>binder_release\<close>, and the deferred work that tears a process down:
  its threads, its nodes and the death notifications they cause, its references, its
  buffers, and the process itself.
\<close>

section \<open>Opening\<close>

definition blank_proc :: "kern \<Rightarrow> nat \<Rightarrow> driver \<Rightarrow> binder_proc" where
  "blank_proc K current s = \<lparr>pr_threads = Leaf, pr_nodes = Leaf, pr_refs_by_desc = Leaf, pr_refs_by_node = Leaf,
     pr_pid = task_tgid K current, pr_deferred_work = 0, pr_alloc = fresh_alloc current (ticks s),
     pr_br = (\<lambda>_. 0), pr_bc = (\<lambda>_. 0), pr_max_threads = 0, pr_requested_threads = 0,
     pr_requested_threads_started = 0, pr_ready_threads = 0, pr_default_priority = nice_of s current\<rparr>"

definition binder_open :: "kern \<Rightarrow> nat \<Rightarrow> driver \<Rightarrow> (int \<times> addr option) \<times> driver" where
  "binder_open K current s =
     (case kmalloc K BINDER_STAT_PROC s of
        (None, s1) \<Rightarrow> ((- ENOMEM, None), s1)
      | (Some proc, s1) \<Rightarrow>
          let s2 = set_proc proc (blank_proc K current s1) s1;
              s3 = s2\<lparr>items := (items s2)(L_Proc proc := [], L_Delivered proc := [])\<rparr>;
              s4 = binder_stats_created BINDER_STAT_PROC s3
          in ((0, Some proc), s4\<lparr>binder_procs := proc # binder_procs s4\<rparr>))"

section \<open>Deferred work\<close>

definition BINDER_DEFERRED_PUT_FILES :: "32 word" where "BINDER_DEFERRED_PUT_FILES = 0x01"
definition BINDER_DEFERRED_FLUSH :: "32 word" where "BINDER_DEFERRED_FLUSH = 0x02"
definition BINDER_DEFERRED_RELEASE :: "32 word" where "BINDER_DEFERRED_RELEASE = 0x04"

definition binder_defer_work :: "addr \<Rightarrow> 32 word \<Rightarrow> driver \<Rightarrow> driver option" where
  "binder_defer_work proc defer s =
     do {
       p \<leftarrow> procs s proc;
       let s1 = set_proc proc (p\<lparr>pr_deferred_work := pr_deferred_work p OR defer\<rparr>) s;
       Some (if proc \<in> set (binder_deferred_list s1) then s1
             else s1\<lparr>binder_deferred_list := proc # binder_deferred_list s1\<rparr>)
     }"

definition binder_flush :: "addr \<Rightarrow> driver \<Rightarrow> driver option" where
  "binder_flush proc s = binder_defer_work proc BINDER_DEFERRED_FLUSH s"

definition binder_release :: "addr \<Rightarrow> driver \<Rightarrow> driver option" where
  "binder_release proc s = binder_defer_work proc BINDER_DEFERRED_RELEASE s"

section \<open>The mapping\<close>

definition proc_mmap :: "kern \<Rightarrow> nat \<Rightarrow> addr \<Rightarrow> vm_area \<Rightarrow> driver \<Rightarrow> ((int \<times> vm_area) \<times> driver) option" where
  "proc_mmap K current proc vma s =
     do {
       p \<leftarrow> procs s proc;
       (ret, vma', a) \<leftarrow> binder_mmap K (pr_alloc p) current vma;
       Some ((ret, vma'), set_proc proc (p\<lparr>pr_alloc := a\<rparr>) s)
     }"

definition binder_vma_close :: "addr \<Rightarrow> driver \<Rightarrow> driver option" where
  "binder_vma_close proc s =
     do {
       p \<leftarrow> procs s proc;
       let a = pr_alloc p;
       binder_defer_work proc BINDER_DEFERRED_PUT_FILES
         (set_proc proc (p\<lparr>pr_alloc := a\<lparr>p_vma := False, p_vma_vm_mm := None\<rparr>\<rparr>) s)
     }"

section \<open>Flushing\<close>

fun flush_threads :: "addr list \<Rightarrow> driver \<Rightarrow> driver option" where
  "flush_threads [] s = Some s"
| "flush_threads (t # ts) s =
     do {
       th \<leftarrow> threads s t;
       flush_threads ts (set_thread t (th\<lparr>th_looper := th_looper th OR LOOPER_NEED_RETURN\<rparr>) s)
     }"

definition binder_deferred_flush :: "addr \<Rightarrow> driver \<Rightarrow> driver option" where
  "binder_deferred_flush proc s =
     do {
       p \<leftarrow> procs s proc;
       flush_threads (inorder (pr_threads p)) s
     }"

section \<open>A node whose owner is gone\<close>

text \<open>The references are told in order, up to the first that has no notification.\<close>

fun tell_deaths :: "addr list \<Rightarrow> driver \<Rightarrow> driver option" where
  "tell_deaths [] s = Some s"
| "tell_deaths (ref # rs) s =
     do {
       r \<leftarrow> refs s ref;
       case r_death r of
         None \<Rightarrow> Some s
       | Some d \<Rightarrow>
           do {
             dt \<leftarrow> deaths s d;
             if link_empty (W_Death d) s then
               do {
                 s1 \<leftarrow> list_add_tail (W_Death d) (L_Proc (r_proc r))
                         (set_death d (dt\<lparr>d_type := BINDER_WORK_DEAD_BINDER\<rparr>) s);
                 tell_deaths rs s1
               }
             else None
           }
     }"

definition binder_node_release :: "addr \<Rightarrow> driver \<Rightarrow> driver option" where
  "binder_node_release node s =
     do {
       s1 \<leftarrow> list_del_init (W_Node node) s;
       s2 \<leftarrow> binder_release_work (L_Async node) s1;
       n \<leftarrow> nodes s2 node;
       if n_refs n = [] then
         do {
           s3 \<leftarrow> kfree BINDER_STAT_NODE node s2;
           Some (binder_stats_deleted BINDER_STAT_NODE
                   (drop_work (W_Node node) (s3\<lparr>nodes := (nodes s3)(node := None)\<rparr>)))
         }
       else
         let s3 = set_node node (n\<lparr>n_proc := None, n_local_strong_refs := 0, n_local_weak_refs := 0\<rparr>) s2
         in tell_deaths (n_refs n) (s3\<lparr>binder_dead_nodes := node # binder_dead_nodes s3\<rparr>)
     }"

section \<open>Tearing a process down\<close>

text \<open>
  A loop of the form \<open>while ((n = rb_first(tree)))\<close> whose body takes the first element out of
  the tree. The number of elements bounds the rounds.
\<close>

fun drain :: "nat \<Rightarrow> (driver \<Rightarrow> addr list option) \<Rightarrow> (addr \<Rightarrow> driver \<Rightarrow> driver option) \<Rightarrow> driver \<Rightarrow> driver option" where
  "drain 0 elems body s = (case elems s of Some [] \<Rightarrow> Some s | _ \<Rightarrow> None)"
| "drain (Suc fuel) elems body s =
     (case elems s of
        None \<Rightarrow> None
      | Some [] \<Rightarrow> Some s
      | Some (x # xs) \<Rightarrow> (case body x s of None \<Rightarrow> None | Some s1 \<Rightarrow> drain fuel elems body s1))"

definition elements :: "(binder_proc \<Rightarrow> addr tree) \<Rightarrow> addr \<Rightarrow> driver \<Rightarrow> addr list option" where
  "elements tree proc s = map_option (\<lambda>p. inorder (tree p)) (procs s proc)"

definition drain_all :: "(binder_proc \<Rightarrow> addr tree) \<Rightarrow> addr \<Rightarrow> (addr \<Rightarrow> driver \<Rightarrow> driver option) \<Rightarrow> driver \<Rightarrow> driver option" where
  "drain_all tree proc body s =
     do {
       xs \<leftarrow> elements tree proc s;
       drain (length xs) (elements tree proc) body s
     }"

definition release_node :: "kern \<Rightarrow> addr \<Rightarrow> addr \<Rightarrow> driver \<Rightarrow> driver option" where
  "release_node K proc node s =
     do {
       p \<leftarrow> procs s proc;
       binder_node_release node (set_proc proc (p\<lparr>pr_nodes := rb_erase K node (pr_nodes p)\<rparr>) s)
     }"

definition reclaim_buffer :: "kern \<Rightarrow> addr \<Rightarrow> addr \<Rightarrow> driver \<Rightarrow> driver option" where
  "reclaim_buffer K proc buffer s =
     do {
       s1 \<leftarrow> detach_transaction (proc, buffer) s;
       free_buffer K (proc, buffer) s1
     }"

text \<open>
  The pages that are still mapped are given back with the process: they are part of its
  record, which is dropped at the end.
\<close>

definition binder_deferred_release :: "kern \<Rightarrow> addr \<Rightarrow> driver \<Rightarrow> driver option" where
  "binder_deferred_release K proc s =
     do {
       p \<leftarrow> procs s proc;
       if p_vma (pr_alloc p) \<or> p_files (pr_alloc p) \<noteq> None then None
       else do {
         let s1 = s\<lparr>binder_procs := remove1 proc (binder_procs s)\<rparr>;
         s2 \<leftarrow> (case binder_context_mgr_node s1 of
                   None \<Rightarrow> Some s1
                 | Some mgr \<Rightarrow>
                     do {
                       n \<leftarrow> nodes s1 mgr;
                       Some (if n_proc n = Some proc then s1\<lparr>binder_context_mgr_node := None\<rparr> else s1)
                     });
         s3 \<leftarrow> drain_all pr_threads proc (binder_free_thread K proc) s2;
         s4 \<leftarrow> drain_all pr_nodes proc (release_node K proc) s3;
         s5 \<leftarrow> drain_all pr_refs_by_desc proc (binder_delete_ref K) s4;
         s6 \<leftarrow> binder_release_work (L_Proc proc) s5;
         s7 \<leftarrow> binder_release_work (L_Delivered proc) s6;
         s8 \<leftarrow> drain_all (\<lambda>p. p_allocated_buffers (pr_alloc p)) proc (reclaim_buffer K proc) s7;
         s9 \<leftarrow> kfree BINDER_STAT_PROC proc (binder_stats_deleted BINDER_STAT_PROC s8);
         Some (s9\<lparr>procs := (procs s9)(proc := None)\<rparr>)
       }
     }"

text \<open>
  One round of \<open>binder_deferred_func\<close>, which holds the lock from start to end; the result
  says whether there was a process to work on, that is, whether there is another round.
\<close>

definition deferred_work :: "kern \<Rightarrow> addr \<Rightarrow> 32 word \<Rightarrow> driver \<Rightarrow> driver option" where
  "deferred_work K proc defer s =
     do {
       p \<leftarrow> procs s proc;
       let a = pr_alloc p;
       let s1 = (if defer AND BINDER_DEFERRED_PUT_FILES \<noteq> 0
                 then set_proc proc (p\<lparr>pr_alloc := a\<lparr>p_files := None\<rparr>\<rparr>) s else s);
       s2 \<leftarrow> (if defer AND BINDER_DEFERRED_FLUSH \<noteq> 0 then binder_deferred_flush proc s1 else Some s1);
       if defer AND BINDER_DEFERRED_RELEASE \<noteq> 0 then binder_deferred_release K proc s2 else Some s2
     }"

definition binder_deferred_func :: "kern \<Rightarrow> driver \<Rightarrow> (bool \<times> driver) option" where
  "binder_deferred_func K s =
     (case binder_deferred_list s of
        [] \<Rightarrow> Some (False, s)
      | proc # ps \<Rightarrow>
          do {
            p \<leftarrow> procs s proc;
            let s1 = set_proc proc (p\<lparr>pr_deferred_work := 0\<rparr>) (s\<lparr>binder_deferred_list := ps\<rparr>);
            map_option (Pair True) (deferred_work K proc (pr_deferred_work p) s1)
          })"

end
