(* ===== verification/Trace.thy ===== *)
theory Trace
  imports Prelude
begin

text \<open>
  Runs of a component: a step function that may crash (\<open>None\<close>), the events a caller may
  issue in a state, and the locale \<open>guarded\<close> of components whose invariant survives every
  step a caller may issue. Its theorem is that no such run crashes.
\<close>

fun run :: "('e \<Rightarrow> 's \<Rightarrow> 's option) \<Rightarrow> 'e list \<Rightarrow> 's \<Rightarrow> 's option" where
  "run step [] s = Some s"
| "run step (e # es) s = (case step e s of None \<Rightarrow> None | Some s' \<Rightarrow> run step es s')"

fun admissible :: "('e \<Rightarrow> 's \<Rightarrow> bool) \<Rightarrow> ('e \<Rightarrow> 's \<Rightarrow> 's option) \<Rightarrow> 'e list \<Rightarrow> 's \<Rightarrow> bool" where
  "admissible ok step [] s = True"
| "admissible ok step (e # es) s =
     (ok e s \<and> (case step e s of None \<Rightarrow> True | Some s' \<Rightarrow> admissible ok step es s'))"

lemma run_append:
  "run step (es @ fs) s = (case run step es s of None \<Rightarrow> None | Some s' \<Rightarrow> run step fs s')"
  by (induction es arbitrary: s) (auto split: option.split)

locale guarded =
  fixes inv :: "'s \<Rightarrow> bool" and ok :: "'e \<Rightarrow> 's \<Rightarrow> bool" and step :: "'e \<Rightarrow> 's \<Rightarrow> 's option"
  assumes step_safe: "inv s \<Longrightarrow> ok e s \<Longrightarrow> \<exists>s'. step e s = Some s' \<and> inv s'"
begin

lemma run_safe: "inv s \<Longrightarrow> admissible ok step es s \<Longrightarrow> \<exists>s'. run step es s = Some s' \<and> inv s'"
proof (induction es arbitrary: s)
  case (Cons e es)
  from Cons.prems obtain s1 where s1: "step e s = Some s1" "inv s1" using step_safe [of s e] by auto
  with Cons.prems have "admissible ok step es s1" by simp
  with Cons.IH s1 show ?case by simp
qed simp

lemma run_invariant: "inv s \<Longrightarrow> admissible ok step es s \<Longrightarrow> run step es s = Some s' \<Longrightarrow> inv s'"
  using run_safe by fastforce

text \<open>A quantity that no step changes is the same at the end of a run.\<close>

lemma run_constant:
  assumes "\<And>s e s'. inv s \<Longrightarrow> ok e s \<Longrightarrow> step e s = Some s' \<Longrightarrow> f s' = f s"
    and "inv s" and "admissible ok step es s" and "run step es s = Some s'"
  shows "f s' = f s"
  using assms(2-)
proof (induction es arbitrary: s)
  case (Cons e es)
  from Cons.prems obtain s1 where s1: "step e s = Some s1" "inv s1" using step_safe [of s e] by auto
  with Cons.prems have "admissible ok step es s1" "run step es s1 = Some s'" by simp_all
  then have "f s' = f s1" using Cons.IH s1 by blast
  also have "f s1 = f s" using assms(1) [of s e s1] Cons.prems s1 by simp
  finally show ?case .
qed simp

end

end
