(* ===== verification/Buffer_Pool.thy ===== *)
theory Buffer_Pool
  imports Trace
begin

text \<open>
  What the transaction code takes from a buffer allocator: requests that may be refused, a
  set of live buffers, and the contents of each. The locale states the laws, and the client
  lemmas say that a sequence of requests and releases of live buffers cannot go wrong, that
  a buffer is never handed out twice, and that contents survive until the release.
\<close>

datatype ('r, 'b) pool_event = Request 'r | Release 'b

fun pool_step :: "('r \<Rightarrow> 's \<Rightarrow> ('b option \<times> 's) option) \<Rightarrow> ('b \<Rightarrow> 's \<Rightarrow> 's option) \<Rightarrow>
    ('r, 'b) pool_event \<Rightarrow> 's \<Rightarrow> 's option" where
  "pool_step alloc release (Request r) s = map_option snd (alloc r s)"
| "pool_step alloc release (Release b) s = release b s"

fun pool_ok :: "('r \<Rightarrow> bool) \<Rightarrow> ('s \<Rightarrow> 'b set) \<Rightarrow> ('s \<Rightarrow> 'b \<Rightarrow> bool) \<Rightarrow>
    ('r, 'b) pool_event \<Rightarrow> 's \<Rightarrow> bool" where
  "pool_ok valid live busy (Request r) s = valid r"
| "pool_ok valid live busy (Release b) s = (b \<in> live s \<and> \<not> busy s b)"

locale buffer_pool =
  fixes inv :: "'s \<Rightarrow> bool" and valid :: "'r \<Rightarrow> bool" and live :: "'s \<Rightarrow> 'b set"
    and busy :: "'s \<Rightarrow> 'b \<Rightarrow> bool" and room :: "'s \<Rightarrow> 'b \<Rightarrow> nat"
    and alloc :: "'r \<Rightarrow> 's \<Rightarrow> ('b option \<times> 's) option" and release :: "'b \<Rightarrow> 's \<Rightarrow> 's option"
  assumes alloc_safe: "inv s \<Longrightarrow> valid r \<Longrightarrow> \<exists>res s'. alloc r s = Some (res, s') \<and> inv s'"
    and alloc_live: "inv s \<Longrightarrow> valid r \<Longrightarrow> alloc r s = Some (res, s') \<Longrightarrow>
          set_option res \<inter> live s = {} \<and> live s' = set_option res \<union> live s"
    and alloc_room: "inv s \<Longrightarrow> valid r \<Longrightarrow> alloc r s = Some (res, s') \<Longrightarrow> b \<in> live s \<Longrightarrow> room s' b = room s b"
    and release_safe: "inv s \<Longrightarrow> b \<in> live s \<Longrightarrow> \<not> busy s b \<Longrightarrow>
          \<exists>s'. release b s = Some s' \<and> inv s' \<and> live s' = live s - {b} \<and>
               (\<forall>c \<in> live s - {b}. room s' c = room s c)"
begin

sublocale guarded inv "pool_ok valid live busy" "pool_step alloc release"
proof unfold_locales
  fix s and e :: "('r, 'b) pool_event"
  assume "inv s" "pool_ok valid live busy e s"
  then show "\<exists>s'. pool_step alloc release e s = Some s' \<and> inv s'"
    by (cases e) (use alloc_safe release_safe in fastforce)+
qed

text \<open>While a buffer is not released it stays live and keeps its room.\<close>

lemma step_keeps:
  assumes "inv s" and "pool_ok valid live busy e s" and "pool_step alloc release e s = Some s'"
    and "b \<in> live s" and "e \<noteq> Release b"
  shows "b \<in> live s' \<and> room s' b = room s b"
proof (cases e)
  case (Request r)
  then obtain res where r: "alloc r s = Some (res, s')" "valid r" using assms(2,3) by auto
  then have "live s' = set_option res \<union> live s" "room s' b = room s b"
    using assms(1,4) alloc_live alloc_room by auto
  with assms(4) show ?thesis by auto
next
  case (Release c)
  then have c: "c \<in> live s" "\<not> busy s c" "release c s = Some s'" "b \<noteq> c" using assms(2,3,5) by auto
  obtain s'' where s'': "release c s = Some s''" "live s'' = live s - {c}" "\<forall>d \<in> live s - {c}. room s'' d = room s d"
    using release_safe [OF assms(1) c(1,2)] by blast
  then show ?thesis using assms(4) c by auto
qed

lemma run_keeps:
  assumes "inv s" and "admissible (pool_ok valid live busy) (pool_step alloc release) es s"
    and "run (pool_step alloc release) es s = Some s'" and "b \<in> live s" and "Release b \<notin> set es"
  shows "b \<in> live s' \<and> room s' b = room s b"
  using assms
proof (induction es arbitrary: s)
  case (Cons e es)
  from Cons.prems obtain s1 where s1: "pool_step alloc release e s = Some s1" "inv s1"
    using step_safe [of s e] by auto
  have "b \<in> live s1 \<and> room s1 b = room s b"
    using step_keeps [OF Cons.prems(1) _ s1(1)] Cons.prems by auto
  then show ?case using Cons.IH [OF s1(2)] Cons.prems s1 by auto
qed simp

text \<open>Hence a later request is never answered with a buffer that is still out.\<close>

lemma never_twice:
  assumes "inv s" and "admissible (pool_ok valid live busy) (pool_step alloc release) es s"
    and "run (pool_step alloc release) es s = Some s'" and "b \<in> live s" and "Release b \<notin> set es"
    and "valid r" and "alloc r s' = Some (Some c, s'')"
  shows "c \<noteq> b"
  using run_keeps [OF assms(1-5)] run_invariant [OF assms(1-3)] alloc_live [of s' r "Some c" s''] assms(6,7)
  by auto

lemma alloc_release:
  assumes "inv s" and "valid r" and "alloc r s = Some (Some b, s')" and "\<not> busy s' b"
  shows "\<exists>s''. release b s' = Some s'' \<and> inv s'' \<and> live s'' = live s"
proof -
  have l: "b \<notin> live s" "live s' = insert b (live s)" using alloc_live [OF assms(1-3)] by auto
  have "inv s'" using alloc_safe [OF assms(1,2)] assms(3) by auto
  from release_safe [OF this _ assms(4)] l show ?thesis by auto
qed

end

end
