(* ===== verification/Binder_Area.thy ===== *)
theory Binder_Area
  imports Binder_Mmap Buffer_Pool
begin

text \<open>
  The transaction area as its clients see it: the interpretation of the locale
  \<open>buffer_pool\<close> on \<open>binder_alloc_buf\<close> and \<open>binder_free_buf\<close>, lookups by user address,
  what the invariant says about the pages under a buffer, and the accounting of the space
  for asynchronous transactions.
\<close>

section \<open>The area as a pool of buffers\<close>

definition area_inv :: "kern \<Rightarrow> binder_alloc \<Rightarrow> bool" where
  "area_inv K a \<longleftrightarrow> kern_ok K \<and> binder_inv K a"

type_synonym alloc_request = "nat \<times> nat \<times> bool"

fun area_valid :: "kern \<Rightarrow> alloc_request \<Rightarrow> bool" where
  "area_valid K (d, os, async) = (d < 2 ^ (8 * ptr_bytes K) \<and> os < 2 ^ (8 * ptr_bytes K))"

definition area_busy :: "binder_alloc \<Rightarrow> addr \<Rightarrow> bool" where
  "area_busy a x = (case p_heap a x of None \<Rightarrow> True | Some h \<Rightarrow> b_transaction h \<noteq> None)"

fun area_alloc :: "kern \<Rightarrow> alloc_request \<Rightarrow> binder_alloc \<Rightarrow> (addr option \<times> binder_alloc) option" where
  "area_alloc K (d, os, async) a = binder_alloc_buf K a d os async"

definition area_free :: "kern \<Rightarrow> addr \<Rightarrow> binder_alloc \<Rightarrow> binder_alloc option" where
  "area_free K x a = binder_free_buf K a x"

lemma alloc_post_live:
  assumes "alloc_post K a d os async r a'"
  shows "set_option r \<inter> alloc_set a = {}" and "alloc_set a' = set_option r \<union> alloc_set a"
proof -
  have "set_option r \<inter> alloc_set a = {} \<and> alloc_set a' = set_option r \<union> alloc_set a"
  proof (cases r)
    case None
    then show ?thesis using assms by (simp add: alloc_post_def)
  next
    case (Some x)
    then have "x \<in> free_set a" "alloc_set a' = insert x (alloc_set a)"
      using assms by (simp_all add: alloc_post_def)
    then show ?thesis using Some by (simp add: free_set_def alloc_set_def)
  qed
  then show "set_option r \<inter> alloc_set a = {}" and "alloc_set a' = set_option r \<union> alloc_set a" by simp_all
qed

lemma alloc_post_room:
  assumes "alloc_post K a d os async r a'" and "z \<in> alloc_set a"
  shows "binder_buffer_size K a' z = binder_buffer_size K a z"
proof (cases r)
  case None
  then show ?thesis using assms(1)
    by (simp add: alloc_post_def same_area_def binder_buffer_size_def split: option.split)
next
  case (Some x)
  then show ?thesis using assms by (simp add: alloc_post_def)
qed

interpretation area: buffer_pool "area_inv K" "area_valid K" alloc_set area_busy "binder_buffer_size K"
    "area_alloc K" "area_free K" for K
proof unfold_locales
  fix s r assume i: "area_inv K s" "area_valid K r"
  obtain d os async where r: "r = (d, os, async)" by (cases r)
  have ds: "kern_ok K" "binder_inv K s" "d < 2 ^ (8 * ptr_bytes K)" "os < 2 ^ (8 * ptr_bytes K)"
    using i by (simp_all add: area_inv_def r)
  obtain res s' where o: "binder_alloc_buf K s d os async = Some (res, s')" "alloc_post K s d os async res s'"
    by (rule alloc_buf_outcome [OF ds]) (rule that)
  then show "\<exists>res s'. area_alloc K r s = Some (res, s') \<and> area_inv K s'"
    using ds by (auto simp: r area_inv_def alloc_post_def)
  fix res' s'' assume "area_alloc K r s = Some (res', s'')"
  then have eq: "res' = res" "s'' = s'" using o(1) by (simp_all add: r)
  show "set_option res' \<inter> alloc_set s = {} \<and> alloc_set s'' = set_option res' \<union> alloc_set s"
    using alloc_post_live [OF o(2)] eq by simp
  fix b assume "b \<in> alloc_set s"
  then show "binder_buffer_size K s'' b = binder_buffer_size K s b"
    using alloc_post_room [OF o(2)] eq by simp
next
  fix s b assume i: "area_inv K s" "b \<in> alloc_set s" "\<not> area_busy s b"
  have K: "kern_ok K" "binder_inv K s" using i(1) by (simp_all add: area_inv_def)
  obtain h where h: "p_heap s b = Some h" "b_transaction h = None"
    using i(3) unfolding area_busy_def by (cases "p_heap s b") auto
  obtain s' where "binder_free_buf K s b = Some s'" "free_post K s b h s'"
    by (rule free_core [OF K i(2) h]) (rule that)
  then show "\<exists>s'. area_free K b s = Some s' \<and> area_inv K s' \<and> alloc_set s' = alloc_set s - {b} \<and>
      (\<forall>c \<in> alloc_set s - {b}. binder_buffer_size K s' c = binder_buffer_size K s c)"
    using K by (auto simp: area_free_def free_post_def area_inv_def)
qed

section \<open>Buffers of a well-formed area\<close>

lemma buffers_disjoint:
  assumes K: "kern_ok K" and inv: "binder_inv K a" and x: "x \<in> set (p_buffers a)" and y: "y \<in> set (p_buffers a)"
    and xy: "x < y"
  shows "x + sizeof_binder_buffer K + binder_buffer_size K a x \<le> y"
proof -
  have I: "area_ok K a" "layout_ok K a" using inv by (simp_all add: binder_inv_def)
  obtain us vs where spl: "p_buffers a = us @ x # vs" using x by (auto dest: split_list)
  have ch: "chain (sizeof_binder_buffer K) (area_end a) (us @ x # vs)" using I(2) spl by (simp add: layout_ok_def)
  then have "sorted_wrt (<) (us @ x # vs)" by (rule chain_sorted [OF sizeof_pos [OF K]])
  then have "y \<in> set vs" using y xy spl by (auto simp: sorted_wrt_append)
  moreover have "chain (sizeof_binder_buffer K) (area_end a) vs" "x + sizeof_binder_buffer K \<le> chain_next (area_end a) vs"
    using ch by (simp_all add: chain_append)
  moreover have "binder_buffer_size K a x = chain_next (area_end a) vs - (x + sizeof_binder_buffer K)"
    using buffer_size_eq [OF K I(1) _ spl] I(2) by (simp add: layout_ok_def)
  ultimately show ?thesis using chain_mem [of _ "area_end a" vs y] by fastforce
qed

lemma buffer_inside:
  assumes K: "kern_ok K" and inv: "binder_inv K a" and x: "x \<in> set (p_buffers a)"
  shows "p_buffer a \<le> x" and "x + sizeof_binder_buffer K + binder_buffer_size K a x \<le> area_end a"
proof -
  have I: "area_ok K a" "layout_ok K a" using inv by (simp_all add: binder_inv_def)
  obtain us vs where spl: "p_buffers a = us @ x # vs" using x by (auto dest: split_list)
  note b = free_pages_bounds [OF K I spl]
  have "binder_buffer_size K a x = chain_next (area_end a) vs - (x + sizeof_binder_buffer K)"
    using buffer_size_eq [OF K I(1) _ spl] I(2) by (simp add: layout_ok_def)
  then show "p_buffer a \<le> x" and "x + sizeof_binder_buffer K + binder_buffer_size K a x \<le> area_end a"
    using b by simp_all
qed

text \<open>Every byte of an allocated buffer, header and data, lies on a mapped page.\<close>

lemma buffer_mapped:
  assumes K: "kern_ok K" and inv: "binder_inv K a" and x: "x \<in> alloc_set a"
    and p: "x \<le> p" "p < x + sizeof_binder_buffer K + binder_buffer_size K a x"
  shows "page_at a (p div PAGE_SIZE) = (True, True)"
proof -
  have I: "area_ok K a" "layout_ok K a" "pages_ok K a" using inv by (simp_all add: binder_inv_def)
  have xb: "x \<in> set (p_buffers a)" and nf: "\<not> free_flag a x" using x by (simp_all add: alloc_set_def)
  note ins = buffer_inside [OF K inv xb]
  let ?n = "p div PAGE_SIZE"
  have n: "?n * PAGE_SIZE \<le> p" "p < Suc ?n * PAGE_SIZE" by (simp_all add: PAGE_SIZE_def)
  obtain B where B: "p_buffer a = B * PAGE_SIZE" by (rule area_okE [OF I(1)]) (rule that)
  have "B \<le> ?n" using ins(1) p(1) B by (simp add: PAGE_SIZE_def)
  then moreover have "?n * PAGE_SIZE < area_end a" using n(1) ins(2) p(2) by linarith
  ultimately have "in_area a ?n" unfolding in_area_def B using mult_le_mono1 by blast
  moreover have "occupied (sizeof_binder_buffer K) (area_end a) (free_flag a) (p_buffers a) ?n"
  proof -
    obtain us vs where spl: "p_buffers a = us @ x # vs" using xb by (auto dest: split_list)
    have "binder_buffer_size K a x = chain_next (area_end a) vs - (x + sizeof_binder_buffer K)"
      using buffer_size_eq [OF K I(1) _ spl] I(2) by (simp add: layout_ok_def)
    moreover have "x + sizeof_binder_buffer K \<le> chain_next (area_end a) vs"
      using free_pages_bounds [OF K I(1,2) spl] by simp
    ultimately have "x < Suc ?n * PAGE_SIZE" "?n * PAGE_SIZE < chain_next (area_end a) vs"
      using p n by linarith+
    then show ?thesis unfolding spl occupied_append using nf by simp
  qed
  ultimately show ?thesis using I(3) by (simp add: pages_ok_def)
qed

text \<open>With no buffer allocated, the area is one free buffer and only its first page is mapped.\<close>

lemma all_free_single:
  assumes K: "kern_ok K" and inv: "binder_inv K a" and none: "alloc_set a = {}"
  shows "p_buffers a = [p_buffer a]"
proof -
  have lay: "layout_ok K a" and co: "coalesced a" using inv by (simp_all add: binder_inv_def)
  have fr: "free_flag a x" if "x \<in> set (p_buffers a)" for x using none that by (auto simp: alloc_set_def)
  obtain b bs where b: "p_buffers a = b # bs" using lay by (cases "p_buffers a") (auto simp: layout_ok_def)
  moreover have "bs = []"
    using co fr b by (cases bs) (auto simp: coalesced_def)
  ultimately show ?thesis using lay by (simp add: layout_ok_def)
qed

lemma all_free_pages:
  assumes K: "kern_ok K" and inv: "binder_inv K a" and none: "alloc_set a = {}" and n: "in_area a n"
  shows "page_at a n = (n * PAGE_SIZE = p_buffer a, n * PAGE_SIZE = p_buffer a)"
proof -
  let ?H = "sizeof_binder_buffer K"
  have I: "area_ok K a" "pages_ok K a" using inv by (simp_all add: binder_inv_def)
  have b: "p_buffers a = [p_buffer a]" by (rule all_free_single [OF K inv none])
  have "free_flag a (p_buffer a)" using none b by (auto simp: alloc_set_def)
  moreover obtain B where B: "p_buffer a = B * PAGE_SIZE" by (rule area_okE [OF I(1)]) (rule that)
  moreover have "0 < ?H" "?H + 4 < PAGE_SIZE" using sizeof_pos [OF K] sizeof_small [OF K] .
  moreover have "p_buffer a \<le> n * PAGE_SIZE" using n by (simp add: in_area_def)
  ultimately have "occupied ?H (area_end a) (free_flag a) (p_buffers a) n \<longleftrightarrow> n * PAGE_SIZE = p_buffer a"
    unfolding b by (auto simp: PAGE_SIZE_def)
  then show ?thesis using I(2) n by (simp add: pages_ok_def Let_def)
qed

section \<open>Lookup by user address\<close>

lemma lookup_exact:
  assumes K: "kern_ok K" and inv: "binder_inv K a"
  obtains r where "binder_buffer_lookup K a u = Some r"
    and "\<And>x. r = Some x \<longleftrightarrow> x \<in> alloc_set a \<and>
      int x = (int u - p_user_buffer_offset a - int (sizeof_binder_buffer K)) mod 2 ^ (8 * ptr_bytes K)"
proof -
  let ?k = "nat ((int u - p_user_buffer_offset a - int (sizeof_binder_buffer K)) mod 2 ^ (8 * ptr_bytes K))"
  have ke: "keyed (alloc_key a) (p_allocated_buffers a)" and S: "set (inorder (p_allocated_buffers a)) = alloc_set a"
    using inv by (simp_all add: binder_inv_def alloc_tree_ok_def)
  have key: "alloc_key a x = Some x" if "x \<in> alloc_set a" for x
    using inv that
    by (auto simp: alloc_key_iff alloc_set_def binder_inv_def layout_ok_def free_flag_def is_free_def)
  obtain r where r: "rb_search (key_dir (alloc_key a) ?k) (p_allocated_buffers a) = Some r"
    using rb_search_total [OF ke] by blast
  have "r = Some x \<longleftrightarrow> x \<in> alloc_set a \<and> alloc_key a x = Some ?k" for x
    using rb_search_iff [OF ke, of ?k x] r S by auto
  then have "r = Some x \<longleftrightarrow> x \<in> alloc_set a \<and> x = ?k" for x
    using key [of x] by (cases "x \<in> alloc_set a") simp_all
  then have "r = Some x \<longleftrightarrow> x \<in> alloc_set a \<and>
      int x = (int u - p_user_buffer_offset a - int (sizeof_binder_buffer K)) mod 2 ^ (8 * ptr_bytes K)" for x
    using int_eq_iff [of x] by (simp add: int_eq_iff)
  then show thesis using r by (intro that [of r]) (simp_all add: binder_buffer_lookup_def Let_def)
qed

end
