(* ===== verification/Binder_Async.thy ===== *)
theory Binder_Async
  imports Binder_Area
begin

text \<open>
  The space set aside for asynchronous transactions: what an allocation takes from it and
  what freeing the buffer gives back. The two agree when \<open>sizeof(void *)\<close> is the size
  \<open>binder_free_buf\<close> aligns to, and differ on a kernel with 64-bit pointers.
\<close>

definition header_charge :: "kern \<Rightarrow> binder_buffer option \<Rightarrow> nat" where
  "header_charge K ho = (case ho of None \<Rightarrow> 0
     | Some h \<Rightarrow> if b_async_transaction h then free_size K h + sizeof_binder_buffer K else 0)"

definition async_held :: "kern \<Rightarrow> binder_alloc \<Rightarrow> nat" where
  "async_held K a = (\<Sum>x \<in> alloc_set a. header_charge K (p_heap a x))"

definition async_ok :: "kern \<Rightarrow> binder_alloc \<Rightarrow> bool" where
  "async_ok K a \<longleftrightarrow> p_free_async_space a + async_held K a = p_buffer_size a div 2"

lemma finite_alloc_set [simp]: "finite (alloc_set a)"
  by (simp add: alloc_set_def)

lemma area_size_less:
  "binder_inv K a \<Longrightarrow> n \<le> p_buffer_size a div 2 \<Longrightarrow> n < 2 ^ (8 * ptr_bytes K)"
  using PAGE_SIZE_pos unfolding binder_inv_def area_ok_def area_end_def by linarith

text \<open>A request that was answered: the size did not wrap and the space was there.\<close>

lemma alloc_answered:
  assumes K: "kern_ok K" and v: "area_valid K (d, os, async)"
    and code: "binder_alloc_buf K a d os async = Some (Some x, a')" and post: "alloc_post K a d os async (Some x) a'"
  shows "d \<le> alloc_size K d os" and "os \<le> alloc_size K d os"
    and "alloc_size K d os + sizeof_binder_buffer K < 2 ^ (8 * ptr_bytes K)"
    and "async \<longrightarrow> alloc_size K d os + sizeof_binder_buffer K \<le> p_free_async_space a"
proof -
  show d: "d \<le> alloc_size K d os" "os \<le> alloc_size K d os"
    using code by (auto simp: binder_alloc_buf_def Let_def split: if_splits)
  have a: "async \<longrightarrow> szt (ptr_bytes K) (alloc_size K d os + sizeof_binder_buffer K) \<le> p_free_async_space a"
    using code by (auto simp: binder_alloc_buf_def Let_def split: if_splits)
  have i: "binder_inv K a'" "x \<in> alloc_set a'" "alloc_size K d os \<le> binder_buffer_size K a' x"
    using post by (simp_all add: alloc_post_def)
  have "x \<in> set (p_buffers a')" using i(2) by (simp add: alloc_set_def)
  from buffer_inside [OF K i(1) this] i(3) have "alloc_size K d os \<le> area_end a'" by linarith
  moreover have "area_end a' + PAGE_SIZE \<le> 2 ^ (8 * ptr_bytes K)" using i(1) by (simp add: binder_inv_def area_ok_def)
  ultimately show s: "alloc_size K d os + sizeof_binder_buffer K < 2 ^ (8 * ptr_bytes K)"
    using sizeof_small [OF K] by linarith
  show "async \<longrightarrow> alloc_size K d os + sizeof_binder_buffer K \<le> p_free_async_space a"
    using a s by (simp add: szt_id)
qed

lemma alloc_space:
  assumes "kern_ok K" and "area_valid K (d, os, async)" and small: "p_free_async_space a < 2 ^ (8 * ptr_bytes K)"
    and "binder_alloc_buf K a d os async = Some (Some x, a')" and post: "alloc_post K a d os async (Some x) a'"
  shows "p_free_async_space a = p_free_async_space a'
           + (if async then alloc_size K d os + sizeof_binder_buffer K else 0)"
proof -
  note A = alloc_answered [OF assms(1,2,4,5)]
  have "p_free_async_space a' = async_charge K async (p_free_async_space a) (alloc_size K d os)"
    using post by (simp add: alloc_post_def)
  then show ?thesis using A(4) small by (simp add: async_charge_def szsub_exact)
qed

text \<open>On a 32-bit kernel a buffer is charged what it is refunded.\<close>

lemma free_size_32:
  assumes "ptr_bytes K = 4"
  shows "free_size K h = alloc_size K (b_data_size h) (b_offsets_size h)"
  using assms by (simp add: free_size_def alloc_size_def)

lemma held_insert:
  assumes "x \<notin> alloc_set a" and "alloc_set a' = insert x (alloc_set a)"
    and "\<And>z. z \<in> alloc_set a \<Longrightarrow> p_heap a' z = p_heap a z"
  shows "async_held K a' = header_charge K (p_heap a' x) + async_held K a"
  using assms by (simp add: async_held_def)

lemma held_remove:
  assumes "x \<in> alloc_set a" and "alloc_set a' = alloc_set a - {x}"
    and "\<And>z. z \<in> alloc_set a - {x} \<Longrightarrow> p_heap a' z = p_heap a z"
  shows "async_held K a = header_charge K (p_heap a x) + async_held K a'"
  using assms sum.remove [of "alloc_set a" x "\<lambda>x. header_charge K (p_heap a x)"] by (simp add: async_held_def)

lemma alloc_async_ok:
  assumes K: "kern_ok K" and w: "ptr_bytes K = 4" and inv: "binder_inv K a" and ok: "async_ok K a"
    and v: "area_valid K (d, os, async)"
    and code: "binder_alloc_buf K a d os async = Some (r, a')" and post: "alloc_post K a d os async r a'"
  shows "async_ok K a'"
proof (cases r)
  case None
  then show ?thesis using post ok by (simp add: alloc_post_def async_ok_def async_held_def same_area_def)
next
  case (Some x)
  have P: "x \<in> free_set a" "alloc_set a' = insert x (alloc_set a)" "same_area a a'"
    "\<forall>z \<in> alloc_set a. p_heap a' z = p_heap a z"
    using post Some by (simp_all add: alloc_post_def)
  obtain h where h: "p_heap a' x = Some h" "b_data_size h = d" "b_offsets_size h = os" "b_async_transaction h = async"
    using post Some by (auto simp: alloc_post_def)
  have "p_free_async_space a < 2 ^ (8 * ptr_bytes K)"
    by (rule area_size_less [OF inv]) (use ok in \<open>simp add: async_ok_def\<close>)
  from alloc_space [OF K v this code [unfolded Some] post [unfolded Some]]
  have "p_free_async_space a = p_free_async_space a' + header_charge K (p_heap a' x)"
    using h free_size_32 [OF w, of h] by (simp add: header_charge_def)
  moreover have "async_held K a' = header_charge K (p_heap a' x) + async_held K a"
    using held_insert [of x a a' K] P by (simp add: free_set_def alloc_set_def)
  ultimately show ?thesis using ok P(3) by (simp add: async_ok_def same_area_def)
qed

lemma free_async_ok:
  assumes K: "kern_ok K" and inv: "binder_inv K a" and ok: "async_ok K a" and x: "x \<in> alloc_set a"
    and h: "p_heap a x = Some h" and post: "free_post K a x h a'"
  shows "async_ok K a'"
proof -
  have P: "alloc_set a' = alloc_set a - {x}" "same_area a a'"
    "p_free_async_space a' = async_refund K h (p_free_async_space a)"
    "\<forall>z \<in> alloc_set a - {x}. p_heap a' z = p_heap a z"
    using post by (simp_all add: free_post_def)
  have held: "async_held K a = header_charge K (p_heap a x) + async_held K a'"
    by (rule held_remove [OF x P(1)]) (use P(4) in blast)
  then have "p_free_async_space a + header_charge K (Some h) < 2 ^ (8 * ptr_bytes K)"
    by (intro area_size_less [OF inv]) (use ok h in \<open>simp add: async_ok_def\<close>)
  then have "p_free_async_space a' = p_free_async_space a + header_charge K (Some h)"
    using P(3) by (simp add: async_refund_def header_charge_def szt_id split: if_splits)
  then show ?thesis using ok P(2) held h by (simp add: async_ok_def same_area_def)
qed

section \<open>Runs on a 32-bit kernel\<close>

definition area32_inv :: "kern \<Rightarrow> binder_alloc \<Rightarrow> bool" where
  "area32_inv K a \<longleftrightarrow> area_inv K a \<and> ptr_bytes K = 4 \<and> async_ok K a"

interpretation area32: guarded "area32_inv K" "pool_ok (area_valid K) alloc_set area_busy"
    "pool_step (area_alloc K) (area_free K)" for K
proof unfold_locales
  fix s and e :: "(alloc_request, addr) pool_event"
  assume i: "area32_inv K s" and e: "pool_ok (area_valid K) alloc_set area_busy e s"
  then have K: "kern_ok K" "binder_inv K s" "ptr_bytes K = 4" "async_ok K s"
    by (simp_all add: area32_inv_def area_inv_def)
  show "\<exists>s'. pool_step (area_alloc K) (area_free K) e s = Some s' \<and> area32_inv K s'"
  proof (cases e)
    case (Request r)
    obtain d os async where r: "r = (d, os, async)" by (cases r)
    have v: "area_valid K (d, os, async)" using e Request r by simp
    obtain res s' where o: "binder_alloc_buf K s d os async = Some (res, s')" "alloc_post K s d os async res s'"
      by (rule alloc_buf_outcome [OF K(1,2), of d os async]) (use v that in simp_all)
    have "async_ok K s'" by (rule alloc_async_ok [OF K(1,3,2,4) v o])
    moreover have "binder_inv K s'" using o(2) by (simp add: alloc_post_def)
    ultimately show ?thesis using o(1) K Request r by (simp add: area32_inv_def area_inv_def)
  next
    case (Release x)
    then have x: "x \<in> alloc_set s" "\<not> area_busy s x" using e by simp_all
    then obtain h where h: "p_heap s x = Some h" "b_transaction h = None"
      unfolding area_busy_def by (cases "p_heap s x") auto
    obtain s' where f: "binder_free_buf K s x = Some s'" "free_post K s x h s'"
      by (rule free_core [OF K(1,2) x(1) h]) (rule that)
    have "async_ok K s'" by (rule free_async_ok [OF K(1,2,4) x(1) h(1) f(2)])
    moreover have "binder_inv K s'" using f(2) by (simp add: free_post_def)
    ultimately show ?thesis using f(1) K Release by (simp add: area32_inv_def area_inv_def area_free_def)
  qed
qed

section \<open>The leak on a 64-bit kernel\<close>

lemma align_up_exact:
  "x + (a - 1) < 2 ^ (8 * w) \<Longrightarrow> align_up w x a = (x + (a - 1)) div a * a"
  by (simp add: align_up_def szt_id)

lemma align_4_8:
  assumes "1 \<le> d mod 8" and "d mod 8 \<le> (4 :: nat)"
  shows "(d + 3) div 4 * 4 + 4 = (d + 7) div 8 * 8"
proof -
  define q r where "q = d div 8" and "r = d mod 8"
  then have d: "d = 8 * q + r" "1 \<le> r" "r \<le> 4" using assms by simp_all
  then have "(d + 3) div 4 = 2 * q + 1" "(d + 7) div 8 = q + 1" by linarith+
  then show ?thesis by simp
qed

lemma alloc_free_size_64:
  assumes K: "kern_ok K" and w: "ptr_bytes K = 8" and d: "1 \<le> d mod 8" "d mod 8 \<le> 4" and os: "os mod 8 = 0"
    and v: "area_valid K (d, os, async)"
    and le: "d \<le> alloc_size K d os" "os \<le> alloc_size K d os" "alloc_size K d os + sizeof_binder_buffer K < 2 ^ (8 * ptr_bytes K)"
    and h: "b_data_size h = d" "b_offsets_size h = os"
  shows "free_size K h + 4 = alloc_size K d os"
proof -
  have ex: "alloc_size K d os = align_up 8 d 8 + align_up 8 os 8" "d \<le> align_up 8 d 8" "os \<le> align_up 8 os 8"
    using alloc_size_exact [OF K _ _ le(1,2)] v w by simp_all
  have H: "sizeof_binder_buffer K = 80" by (simp add: sizeof_binder_buffer_def w)
  have small: "d + os + 80 < 2 ^ 64" using ex le(3) w H by simp
  have A: "align_up 8 d 8 = (d + 7) div 8 * 8" "align_up 8 os 8 = (os + 7) div 8 * 8"
    "align_up 8 d 4 = (d + 3) div 4 * 4" "align_up 8 os 4 = (os + 3) div 4 * 4"
    using small by (simp_all add: align_up_exact)
  have "(d + 3) div 4 * 4 + 4 = (d + 7) div 8 * 8" by (rule align_4_8 [OF d])
  moreover have "(os + 3) div 4 * 4 = (os + 7) div 8 * 8" using os by (auto elim!: dvdE simp: mod_eq_0_iff_dvd)
  ultimately have "align_up 8 d 4 + align_up 8 os 4 + 4 = alloc_size K d os" using A ex by simp
  moreover have "align_up 8 d 4 + align_up 8 os 4 < 2 ^ (8 * 8)" using calculation le(3) w by simp
  ultimately show ?thesis by (simp add: free_size_def w h szt_id)
qed

lemma alloc_free_leak:
  assumes K: "kern_ok K" and w: "ptr_bytes K = 8" and inv: "binder_inv K a"
    and sp: "p_free_async_space a < 2 ^ (8 * ptr_bytes K)"
    and d: "1 \<le> d mod 8" "d mod 8 \<le> 4" and os: "os mod 8 = 0" and v: "area_valid K (d, os, True)"
    and code: "binder_alloc_buf K a d os True = Some (Some x, a')" and idle: "\<not> area_busy a' x"
  obtains a'' where "binder_free_buf K a' x = Some a''" and "p_free_async_space a'' + 4 = p_free_async_space a"
proof -
  obtain r b where "binder_alloc_buf K a d os True = Some (r, b)" "alloc_post K a d os True r b"
    by (rule alloc_buf_outcome [OF K inv, of d os True]) (use v that in simp_all)
  then have post: "alloc_post K a d os True (Some x) a'" using code by simp
  note A = alloc_answered [OF K v code post]
  have x: "x \<in> alloc_set a'" and inv': "binder_inv K a'" using post by (simp_all add: alloc_post_def)
  obtain h where h: "p_heap a' x = Some h" "b_data_size h = d" "b_offsets_size h = os" "b_async_transaction h"
    using post by (auto simp: alloc_post_def)
  have tr: "b_transaction h = None" using idle h(1) by (simp add: area_busy_def)
  obtain a'' where f: "binder_free_buf K a' x = Some a''" "free_post K a' x h a''"
    by (rule free_core [OF K inv' x h(1) tr]) (rule that)
  have fs: "free_size K h + 4 = alloc_size K d os"
    by (rule alloc_free_size_64 [OF K w d os v A(1-3) h(2,3)])
  have "p_free_async_space a = p_free_async_space a' + (alloc_size K d os + sizeof_binder_buffer K)"
    using alloc_space [OF K v sp code post] by simp
  moreover have "p_free_async_space a'' = async_refund K h (p_free_async_space a')"
    using f(2) by (simp add: free_post_def)
  ultimately have "p_free_async_space a'' + 4 = p_free_async_space a"
    using h(4) fs sp by (simp add: async_refund_def szt_id)
  then show thesis using f(1) that by simp
qed

end
