(* ===== verification/Area_Progress.thy ===== *)
theory Area_Progress
  imports Binder_Async
begin

text \<open>
  Requests that cannot fail: with pages to be had, the process alive and asynchronous space
  left, \<open>binder_alloc_buf\<close> answers every request for which some free buffer is large enough.
\<close>

definition pages_available :: "kern \<Rightarrow> bool" where
  "pages_available K \<longleftrightarrow> (\<forall>n. alloc_page K n \<and> map_vm_area K n \<and> vm_insert_page K n)"

definition process_alive :: "kern \<Rightarrow> binder_alloc \<Rightarrow> bool" where
  "process_alive K a \<longleftrightarrow> p_vma a \<and> p_vma_vm_mm a \<noteq> None \<and> get_task_mm K (p_tsk a) (p_ticks a) = p_vma_vm_mm a"

definition async_room :: "kern \<Rightarrow> binder_alloc \<Rightarrow> nat \<Rightarrow> bool \<Rightarrow> bool" where
  "async_room K a sz async \<longleftrightarrow> (async \<longrightarrow> szt (ptr_bytes K) (sz + sizeof_binder_buffer K) \<le> p_free_async_space a)"

lemma page_alloc_loop_succeeds:
  "pages_available K \<Longrightarrow> page_alloc_loop K a start p e = Some (r, a') \<Longrightarrow> r = 0"
proof (induction K a start p e rule: page_alloc_loop.induct)
  case (1 K a start p e)
  from 1(3) show ?case using 1(1) 1(2)
    by (subst (asm) page_alloc_loop.simps) (auto simp: pages_available_def Let_def split: if_splits option.splits)
qed

lemma update_range_succeeds:
  assumes "pages_available K" and "process_alive K a"
    and "binder_update_page_range K a True start e False = Some (r, a')"
  shows "r = 0"
  using assms page_alloc_loop_succeeds
  by (fastforce simp: binder_update_page_range_def process_alive_def Let_def split: if_splits option.splits)

lemma alloc_granted:
  assumes K: "kern_ok K" and inv: "binder_inv K a" and pg: "pages_available K" and alive: "process_alive K a"
    and sz: "d \<le> alloc_size K d os" "os \<le> alloc_size K d os" and as: "async_room K a (alloc_size K d os) async"
    and y: "y \<in> free_set a" "alloc_size K d os \<le> binder_buffer_size K a y"
    and code: "binder_alloc_buf K a d os async = Some (r, a')"
  shows "r \<noteq> None"
proof
  assume r: "r = None"
  have ft: "free_tree_ok K a (free_set a)" using inv by (simp add: binder_inv_def)
  then have "\<exists>n best. best_fit_loop K a (alloc_size K d os) (p_free_buffers a) None = Some (n, best) \<and>
      best_fit_result (binder_buffer_size K a) (alloc_size K d os) (set (inorder (p_free_buffers a))) None n best"
    by (intro best_fit_loop_spec) (auto simp: free_tree_ok_def free_set_def)
  moreover have "set (inorder (p_free_buffers a)) = free_set a" using ft by (simp add: free_tree_ok_def)
  ultimately obtain n best where fit: "best_fit_loop K a (alloc_size K d os) (p_free_buffers a) None = Some (n, best)"
    and res: "best_fit_result (binder_buffer_size K a) (alloc_size K d os) (free_set a) None n best"
    by auto
  have "best \<noteq> None" using res y by (auto simp: best_fit_result_def not_less [symmetric])
  then obtain b where bf: "best_fit_loop K a (alloc_size K d os) (p_free_buffers a) None = Some (n, Some b)"
    using fit by auto
  have "p_vma a" using alive by (simp add: process_alive_def)
  moreover have "\<not> (async \<and> p_free_async_space a < szt (ptr_bytes K) (alloc_size K d os + sizeof_binder_buffer K))"
    using as by (auto simp: async_room_def)
  ultimately obtain s e q c where "binder_update_page_range K a True s e False = Some (q, c)" "q \<noteq> 0"
    using code r bf sz by (auto simp: binder_alloc_buf_def Let_def not_less[symmetric] split: option.splits if_splits)
  then show False using update_range_succeeds [OF pg alive] by blast
qed

section \<open>The pages array\<close>

lemma page_at_index:
  assumes "area_ok K a" and "p_buffer a \<le> p" and "p < area_end a" and "page_at a (p div PAGE_SIZE) = (g, k)"
  shows "\<exists>i. page_index a p = Some i \<and> pg_page (p_pages a ! i) = g \<and> pg_kernel (p_pages a ! i) = k"
proof -
  obtain B where B: "p_buffer a = B * PAGE_SIZE" by (rule area_okE [OF assms(1)]) (rule that)
  have "(p - B * PAGE_SIZE) div PAGE_SIZE = p div PAGE_SIZE - B" if "B * PAGE_SIZE \<le> p"
  proof -
    define r where "r = p - B * PAGE_SIZE"
    then have "p = r + B * PAGE_SIZE" using that by simp
    then show ?thesis by (simp add: PAGE_SIZE_def)
  qed
  moreover have "(p - p_buffer a) div PAGE_SIZE < length (p_pages a)"
    using assms(1-3) unfolding area_ok_def area_end_def by (auto simp: less_mult_imp_div_less)
  ultimately show ?thesis using assms(2,4) B
    by (auto simp: page_index_def Let_def page_at_def pgv_def PAGE_SIZE_def)
qed

lemma allocated_page:
  assumes K: "kern_ok K" and inv: "binder_inv K a" and x: "x \<in> alloc_set a"
    and p: "x \<le> p" "p < x + sizeof_binder_buffer K + binder_buffer_size K a x"
  shows "\<exists>i. page_index a p = Some i \<and> pg_page (p_pages a ! i) \<and> pg_kernel (p_pages a ! i)"
proof -
  have "x \<in> set (p_buffers a)" using x by (simp add: alloc_set_def)
  note ins = buffer_inside [OF K inv this]
  have "area_ok K a" using inv by (simp add: binder_inv_def)
  moreover have "p_buffer a \<le> p" "p < area_end a" using ins p by linarith+
  ultimately show ?thesis using page_at_index [of K a p True True] buffer_mapped [OF K inv x p] by simp
qed

lemma all_free_area:
  assumes K: "kern_ok K" and inv: "binder_inv K a" and none: "alloc_set a = {}"
  shows "p_buffers a = [p_buffer a] \<and> (\<forall>i < length (p_pages a). pg_page (p_pages a ! i) \<longleftrightarrow> i = 0)"
proof (intro conjI allI impI)
  show "p_buffers a = [p_buffer a]" by (rule all_free_single [OF K inv none])
  fix i assume i: "i < length (p_pages a)"
  have ar: "area_ok K a" using inv by (simp add: binder_inv_def)
  obtain B where B: "p_buffer a = B * PAGE_SIZE" by (rule area_okE [OF ar]) (rule that)
  have "in_area a (B + i)" using ar i B by (auto simp: in_area_def area_ok_def area_end_def PAGE_SIZE_def)
  from all_free_pages [OF K inv none this] show "pg_page (p_pages a ! i) \<longleftrightarrow> i = 0"
    by (simp add: page_at_def pgv_def B PAGE_SIZE_def)
qed

end
