(* ===== verification/Area_State.thy ===== *)
theory Area_State
  imports Binder_Lifecycle Area_Progress
begin

text \<open>
  The area of a process at any time of its life: not mapped yet, or well-formed. Every
  operation of the driver on an area, and every change it makes to the header of a buffer,
  leads from such a state to such a state.
\<close>

definition area_state :: "kern \<Rightarrow> binder_alloc \<Rightarrow> bool" where
  "area_state K a \<longleftrightarrow> unmapped a \<or> binder_inv K a"

text \<open>What the driver writes into a header leaves the fields the allocator relies on.\<close>

definition same_shape :: "binder_buffer \<Rightarrow> binder_buffer \<Rightarrow> bool" where
  "same_shape h h' \<longleftrightarrow> b_free h' = b_free h \<and> b_data_size h' = b_data_size h \<and> b_offsets_size h' = b_offsets_size h"

lemma header_frame:
  assumes "p_heap a x = Some h" and "same_shape h h'"
  defines "a' \<equiv> a\<lparr>p_heap := (p_heap a)(x \<mapsto> h')\<rparr>"
  shows "alloc_key a' = alloc_key a" and "free_flag a' = free_flag a" and "binder_buffer_size K a' = binder_buffer_size K a"
    and "page_at a' = page_at a" and "same_area a a'"
    and "dom (p_heap a') = dom (p_heap a)" and "free_set a' = free_set a" and "alloc_set a' = alloc_set a"
proof -
  show ff: "free_flag a' = free_flag a" using assms by (auto simp: free_flag_def is_free_def fun_eq_iff same_shape_def)
  show "alloc_key a' = alloc_key a" using assms by (auto simp: alloc_key_def fun_eq_iff same_shape_def)
  show "binder_buffer_size K a' = binder_buffer_size K a"
    by (simp add: a'_def binder_buffer_size_def fun_eq_iff split: option.split)
  show "page_at a' = page_at a" by (simp add: a'_def page_at_def fun_eq_iff)
  show "same_area a a'" by (simp add: a'_def same_area_def)
  show "dom (p_heap a') = dom (p_heap a)" using assms by (auto simp: a'_def)
  show "free_set a' = free_set a" "alloc_set a' = alloc_set a"
    unfolding free_set_def alloc_set_def ff by (simp_all add: a'_def)
qed

lemma header_inv:
  assumes inv: "binder_inv K a" and h: "p_heap a x = Some h" and ss: "same_shape h h'"
  shows "binder_inv K (a\<lparr>p_heap := (p_heap a)(x \<mapsto> h')\<rparr>)"
proof -
  define a' where "a' = a\<lparr>p_heap := (p_heap a)(x \<mapsto> h')\<rparr>"
  note F = header_frame [OF h ss, folded a'_def]
  have "sizes_ok K a'"
  proof -
    have "free_size K h' = free_size K h" using ss by (simp add: free_size_def same_shape_def)
    moreover have "b_free h' = b_free h" using ss by (simp add: same_shape_def)
    moreover have "\<forall>z g. p_heap a z = Some g \<and> \<not> b_free g \<longrightarrow> free_size K g \<le> binder_buffer_size K a z"
      using inv by (simp add: binder_inv_def sizes_ok_def)
    ultimately show ?thesis using h unfolding sizes_ok_def F(3) by (auto simp: a'_def)
  qed
  then have "binder_inv K a'"
    using inv unfolding binder_inv_def layout_ok_def pages_ok_def free_tree_ok_def alloc_tree_ok_def coalesced_def
      same_areaD [OF F(5)] F
    by (simp add: a'_def)
  then show ?thesis by (simp add: a'_def)
qed

lemma header_state:
  assumes "area_state K a" and "p_heap a x = Some h" and "same_shape h h'"
  shows "area_state K (a\<lparr>p_heap := (p_heap a)(x \<mapsto> h')\<rparr>)"
  using assms header_inv by (auto simp: area_state_def unmapped_def)

lemma alloc_state:
  assumes K: "kern_ok K" and st: "area_state K a" and "d < 2 ^ (8 * ptr_bytes K)" and "os < 2 ^ (8 * ptr_bytes K)"
    and code: "binder_alloc_buf K a d os async = Some (r, a')"
  shows "area_state K a'"
proof (cases "unmapped a")
  case True
  then have "a' = a" using code by (simp add: binder_alloc_buf_def unmapped_def)
  then show ?thesis using st by simp
next
  case False
  then have inv: "binder_inv K a" using st by (simp add: area_state_def)
  obtain q b where "binder_alloc_buf K a d os async = Some (q, b)" "alloc_post K a d os async q b"
    by (rule alloc_buf_outcome [OF K inv assms(3,4)]) (rule that)
  then show ?thesis using code by (simp add: area_state_def alloc_post_def)
qed

lemma free_state:
  assumes K: "kern_ok K" and st: "area_state K a" and code: "binder_free_buf K a x = Some a'"
  shows "area_state K a'"
proof -
  obtain h where h: "p_heap a x = Some h" using code by (auto simp: binder_free_buf_def split: bind_splits)
  have nb: "\<not> b_free h" "b_transaction h = None"
    using code h by (auto simp: binder_free_buf_def Let_def split: if_splits)
  have inv: "binder_inv K a" using st h by (auto simp: area_state_def unmapped_def)
  then have "set (p_buffers a) = dom (p_heap a)" by (simp add: binder_inv_def layout_ok_def)
  then have x: "x \<in> alloc_set a" using h nb by (auto simp: alloc_set_def free_flag_def is_free_def)
  obtain b where "binder_free_buf K a x = Some b" "free_post K a x h b"
    by (rule free_core [OF K inv x h nb(2)]) (rule that)
  then show ?thesis using code by (simp add: area_state_def free_post_def)
qed

lemma mmap_state:
  assumes K: "kern_ok K" and st: "area_state K a" and vma: "vma_ok vma"
    and code: "binder_mmap K a cur vma = Some (r, vma', a')"
  shows "area_state K a'"
proof (cases "unmapped a")
  case True
  obtain q v b where "binder_mmap K a cur vma = Some (q, v, b)"
    "q = 0 \<and> mmap_done K a (min (vm_end vma - vm_start vma) SZ_4M) b \<or> q < 0 \<and> unmapped b"
    by (rule mmap_outcome [OF K True vma]) (rule that)
  then show ?thesis using code by (auto simp: area_state_def mmap_done_def)
next
  case False
  then have inv: "binder_inv K a" using st by (simp add: area_state_def)
  then have "p_buffer a \<noteq> 0" using PAGE_SIZE_pos by (auto simp: binder_inv_def area_ok_def simp del: PAGE_SIZE_pos)
  then have "a' = a" using code by (auto simp: binder_mmap_def Let_def split: if_splits)
  then show ?thesis using st by simp
qed

text \<open>The fields that only say who may map pages, or where files go.\<close>

lemma owner_frame:
  assumes "a' = a\<lparr>p_vma := v, p_vma_vm_mm := m\<rparr> \<or> a' = a\<lparr>p_files := f\<rparr>" and "v \<longrightarrow> p_vma a"
  shows "area_state K a \<Longrightarrow> area_state K a'"
proof -
  have eq: "p_heap a' = p_heap a" "p_buffers a' = p_buffers a" "p_buffer a' = p_buffer a" "p_pages a' = p_pages a"
    "p_buffer_size a' = p_buffer_size a" "p_free_buffers a' = p_free_buffers a"
    "p_allocated_buffers a' = p_allocated_buffers a" "p_vma a' \<longrightarrow> p_vma a"
    using assms by auto
  have ff: "free_flag a' = free_flag a" "alloc_key a' = alloc_key a"
    by (simp_all add: eq free_flag_def is_free_def alloc_key_def fun_eq_iff)
  have fs: "free_set a' = free_set a" "alloc_set a' = alloc_set a"
    by (simp_all add: free_set_def alloc_set_def ff eq)
  have bs: "binder_buffer_size K a' = binder_buffer_size K a"
    by (simp add: binder_buffer_size_def eq fun_eq_iff split: option.split)
  have pa: "page_at a' = page_at a" "area_end a' = area_end a" "in_area a' = in_area a" "area_ok K a' = area_ok K a"
    by (simp_all add: page_at_def area_end_def in_area_def area_ok_def eq fun_eq_iff)
  have "binder_inv K a' = binder_inv K a"
    by (simp add: binder_inv_def layout_ok_def pages_ok_def free_tree_ok_def alloc_tree_ok_def coalesced_def sizes_ok_def
        ff fs bs pa eq)
  moreover assume "area_state K a"
  ultimately show ?thesis using eq by (auto simp: area_state_def unmapped_def)
qed

end
