(* ===== verification/Binder_Links.thy ===== *)
theory Binder_Links
  imports Binder_Refs
begin

text \<open>
  Memory and work lists of the driver: what allocating, freeing, linking and unlinking do to
  the state, as equations that show the fields they leave alone.
\<close>

section \<open>Memory\<close>

definition mem_ok :: "driver \<Rightarrow> bool" where
  "mem_ok s \<longleftrightarrow> distinct (live s) \<and>
     (\<forall>a. (BINDER_STAT_PROC, a) \<in> set (live s) \<longleftrightarrow> procs s a \<noteq> None) \<and>
     (\<forall>a. (BINDER_STAT_THREAD, a) \<in> set (live s) \<longleftrightarrow> threads s a \<noteq> None) \<and>
     (\<forall>a. (BINDER_STAT_NODE, a) \<in> set (live s) \<longleftrightarrow> nodes s a \<noteq> None) \<and>
     (\<forall>a. (BINDER_STAT_REF, a) \<in> set (live s) \<longleftrightarrow> refs s a \<noteq> None) \<and>
     (\<forall>a. (BINDER_STAT_DEATH, a) \<in> set (live s) \<longleftrightarrow> deaths s a \<noteq> None) \<and>
     (\<forall>a. (BINDER_STAT_TRANSACTION, a) \<in> set (live s) \<longleftrightarrow> transactions s a \<noteq> None)"

text \<open>The counters of \<open>binder_stats\<close> agree with the objects that exist.\<close>

definition stats_ok :: "driver \<Rightarrow> bool" where
  "stats_ok s \<longleftrightarrow> (\<forall>ty. obj_created s ty = obj_deleted s ty + of_nat (length (filter (\<lambda>x. fst x = ty) (live s))))"

lemma kmalloc_cases:
  assumes "kern_ok K"
  obtains "kmalloc K ty s = (None, s\<lparr>ticks := Suc (ticks s)\<rparr>)"
  | a where "kmalloc K ty s = (Some a, s\<lparr>ticks := Suc (ticks s), live := (ty, a) # live s\<rparr>)"
    and "\<And>ty'. (ty', a) \<notin> set (live s)"
proof (cases "kzalloc K (ticks s) (map snd (live s))")
  case None
  then show thesis using that(1) by (simp add: kmalloc_def)
next
  case (Some a)
  have "a \<notin> set (map snd (live s))" using kern_ok_kzalloc [OF assms Some] by simp
  then have "\<And>ty'. (ty', a) \<notin> set (live s)" by force
  then show thesis using that(2) [of a] Some by (simp add: kmalloc_def)
qed

lemma count_remove1:
  "x \<in> set xs \<Longrightarrow> P x \<Longrightarrow> Suc (length (filter P (remove1 x xs))) = length (filter P xs)"
  by (induction xs) auto

lemma count_remove1_other: "\<not> P x \<Longrightarrow> filter P (remove1 x xs) = filter P xs"
  by (induction xs) auto

lemma stats_delete:
  assumes "stats_ok s" and "(ty, a) \<in> set (live s)" and "live s' = remove1 (ty, a) (live s)"
    and "obj_created s' = obj_created s" and "obj_deleted s' = (obj_deleted s)(ty := obj_deleted s ty + 1)"
  shows "stats_ok s'"
  unfolding stats_ok_def
proof
  fix ty'
  show "obj_created s' ty' = obj_deleted s' ty' + of_nat (length (filter (\<lambda>x. fst x = ty') (live s')))"
  proof (cases "ty' = ty")
    case True
    have "length (filter (\<lambda>x. fst x = ty) (live s)) = Suc (length (filter (\<lambda>x. fst x = ty) (live s')))"
      using assms(3) count_remove1 [OF assms(2), of "\<lambda>x. fst x = ty"] by simp
    then show ?thesis using assms True by (simp add: stats_ok_def)
  next
    case False
    then have "filter (\<lambda>x. fst x = ty') (live s') = filter (\<lambda>x. fst x = ty') (live s)"
      using assms(3) by (simp add: count_remove1_other)
    then show ?thesis using False assms by (simp add: stats_ok_def)
  qed
qed

lemma stats_create:
  assumes "stats_ok s" and "live s' = (ty, a) # live s"
    and "obj_created s' = (obj_created s)(ty := obj_created s ty + 1)" and "obj_deleted s' = obj_deleted s"
  shows "stats_ok s'"
  using assms by (simp add: stats_ok_def)

lemma stats_cong:
  "live s' = live s \<Longrightarrow> obj_created s' = obj_created s \<Longrightarrow> obj_deleted s' = obj_deleted s \<Longrightarrow> stats_ok s' = stats_ok s"
  by (simp add: stats_ok_def)

section \<open>Links\<close>

definition links_ok :: "driver \<Rightarrow> bool" where
  "links_ok s \<longleftrightarrow> (\<forall>w l. link_of s w = Linked l \<longleftrightarrow> w \<in> set (items s l)) \<and>
     (\<forall>l. distinct (items s l)) \<and> (\<forall>l. items s l \<noteq> [] \<longrightarrow> list_live l s)"

lemma linksD:
  assumes "links_ok s"
  shows "link_of s w = Linked l \<longleftrightarrow> w \<in> set (items s l)" and "distinct (items s l)"
    and "items s l \<noteq> [] \<Longrightarrow> list_live l s"
  using assms by (auto simp: links_ok_def)

lemma unlink_ok:
  assumes ok: "links_ok s" and w: "link_of s w \<noteq> Wild" and l': "\<And>l. l' \<noteq> Linked l"
  obtains it where "unlink w l' s = Some (s\<lparr>items := it, link_of := (link_of s)(w := l')\<rparr>)"
    and "links_ok (s\<lparr>items := it, link_of := (link_of s)(w := l')\<rparr>)"
    and "\<And>l. it l = remove1 w (items s l)"
proof -
  define it where "it = (\<lambda>l. remove1 w (items s l))"
  let ?s = "s\<lparr>items := it, link_of := (link_of s)(w := l')\<rparr>"
  have other: "w \<notin> set (items s l)" if "link_of s w \<noteq> Linked l" for l using ok that by (simp add: links_ok_def)
  have "unlink w l' s = Some ?s"
  proof (cases "link_of s w")
    case Unlinked
    then have "it = items s" using other by (simp add: it_def fun_eq_iff remove1_idem)
    then show ?thesis using Unlinked by (simp add: unlink_def set_link_def)
  next
    case (Linked l)
    then have wl: "w \<in> set (items s l)" using ok by (simp add: links_ok_def)
    then have "items s l \<noteq> []" by (cases "items s l") simp_all
    then have "list_live l s" by (rule linksD(3) [OF ok])
    moreover have "it = (items s)(l := remove1 w (items s l))"
      using other Linked by (auto simp: it_def fun_eq_iff remove1_idem)
    ultimately show ?thesis using Linked by (simp add: unlink_def set_link_def)
  next
    case Wild
    then show ?thesis using w by simp
  qed
  moreover have "links_ok ?s"
  proof -
    have "list_live l ?s = list_live l s" for l by (cases l) simp_all
    moreover have "items s l \<noteq> []" if "it l \<noteq> []" for l using that by (auto simp: it_def)
    ultimately show ?thesis
      using ok l' unfolding links_ok_def by (auto simp: it_def dest: notin_set_remove1)
  qed
  ultimately show thesis using that [of it] by (simp add: it_def)
qed

lemma add_tail_ok:
  assumes ok: "links_ok s" and w: "\<And>l'. link_of s w \<noteq> Linked l'" and l: "list_live l s"
  shows "list_add_tail w l s = Some (s\<lparr>items := (items s)(l := items s l @ [w]), link_of := (link_of s)(w := Linked l)\<rparr>)"
    and "links_ok (s\<lparr>items := (items s)(l := items s l @ [w]), link_of := (link_of s)(w := Linked l)\<rparr>)"
proof -
  let ?s = "s\<lparr>items := (items s)(l := items s l @ [w]), link_of := (link_of s)(w := Linked l)\<rparr>"
  show "list_add_tail w l s = Some ?s" using w l by (simp add: list_add_tail_def set_link_def)
  have fresh: "w \<notin> set (items s l')" for l' using ok w by (simp add: links_ok_def)
  have "list_live l' ?s = list_live l' s" for l' by (cases l') simp_all
  then show "links_ok ?s"
    using ok l fresh unfolding links_ok_def by auto
qed

lemma links_cong:
  assumes "items s' = items s" and "link_of s' = link_of s" and "\<And>l. list_live l s \<Longrightarrow> list_live l s'"
  shows "links_ok s \<Longrightarrow> links_ok s'"
  using assms by (simp add: links_ok_def)

end
