(* ===== verification/Driver_Inv.thy ===== *)
theory Driver_Inv
  imports Area_State Binder_Links
begin

text \<open>
  The invariant of the whole driver: the area of every process is well-formed or not mapped,
  the counts of the thread pool are not negative, an object exists exactly when it was
  allocated and not freed, no two objects have one address, the statistics count exactly the
  objects that exist, and the two logs are rings. This theory proves it for the primitive operations on the state.
\<close>

definition proc_good :: "kern \<Rightarrow> binder_proc \<Rightarrow> bool" where
  "proc_good K x \<longleftrightarrow> area_state K (pr_alloc x) \<and> 0 \<le> pr_requested_threads x \<and> 0 \<le> pr_requested_threads_started x"

definition procs_good :: "kern \<Rightarrow> driver \<Rightarrow> bool" where
  "procs_good K s \<longleftrightarrow> (\<forall>p x. procs s p = Some x \<longrightarrow> proc_good K x)"

definition driver_inv :: "kern \<Rightarrow> driver \<Rightarrow> bool" where
  "driver_inv K s \<longleftrightarrow> kern_ok K \<and> procs_good K s \<and> mem_ok s \<and> distinct (map snd (live s)) \<and>
     stats_ok s \<and> log_ok (tlog s) \<and> log_ok (tlog_failed s)"

lemma driver_invD:
  assumes "driver_inv K s"
  shows "kern_ok K" and "mem_ok s" and "stats_ok s" and "procs s p = Some x \<Longrightarrow> proc_good K x"
  using assms by (auto simp: driver_inv_def procs_good_def)

section \<open>Fields the invariant does not speak of\<close>

definition same_core :: "driver \<Rightarrow> driver \<Rightarrow> bool" where
  "same_core s s' \<longleftrightarrow> procs s' = procs s \<and> threads s' = threads s \<and> nodes s' = nodes s \<and> refs s' = refs s \<and>
     deaths s' = deaths s \<and> transactions s' = transactions s \<and> live s' = live s \<and>
     obj_created s' = obj_created s \<and> obj_deleted s' = obj_deleted s \<and> tlog s' = tlog s \<and> tlog_failed s' = tlog_failed s"

lemma same_core_refl [simp]: "same_core s s"
  by (simp add: same_core_def)

lemma same_core_trans [trans]: "same_core s t \<Longrightarrow> same_core t u \<Longrightarrow> same_core s u"
  by (simp add: same_core_def)

lemma same_coreD:
  assumes "same_core s s'"
  shows "procs s' = procs s" and "threads s' = threads s" and "nodes s' = nodes s" and "refs s' = refs s"
    and "deaths s' = deaths s" and "transactions s' = transactions s" and "live s' = live s"
  using assms by (simp_all add: same_core_def)

lemma same_core_inv: "same_core s s' \<Longrightarrow> driver_inv K s' = driver_inv K s"
  by (simp add: same_core_def driver_inv_def procs_good_def mem_ok_def stats_ok_def)

lemma core_update [simp]:
  "same_core s (s\<lparr>items := it\<rparr>)" "same_core s (s\<lparr>link_of := lk\<rparr>)" "same_core s (s\<lparr>ticks := n\<rparr>)"
  "same_core s (s\<lparr>fd_table := ft\<rparr>)" "same_core s (s\<lparr>nice_of := nn\<rparr>)" "same_core s (s\<lparr>user_out := uo\<rparr>)"
  "same_core s (s\<lparr>binder_last_id := i\<rparr>)" "same_core s (s\<lparr>binder_dead_nodes := dn\<rparr>)"
  "same_core s (s\<lparr>binder_context_mgr_node := m\<rparr>)" "same_core s (s\<lparr>binder_context_mgr_uid := u\<rparr>)"
  "same_core s (s\<lparr>binder_procs := ps\<rparr>)" "same_core s (s\<lparr>binder_deferred_list := dl\<rparr>)"
  "same_core s (s\<lparr>st_br := br\<rparr>)" "same_core s (s\<lparr>st_bc := bc\<rparr>)"
  "same_core s (set_link w l s)" "same_core s (drop_work w s)" "same_core s (tick s)"
  "same_core s (binder_set_nice K c v s)"
  by (simp_all add: same_core_def set_link_def drop_work_def tick_def binder_set_nice_def)

lemma unlink_core: "unlink w l s = Some s' \<Longrightarrow> same_core s s'"
  by (auto simp: unlink_def same_core_def set_link_def split: link.splits if_splits)

lemma list_core:
  "list_del w s = Some s' \<Longrightarrow> same_core s s'"
  "list_del_init w s = Some s' \<Longrightarrow> same_core s s'"
  "list_add_tail w l s = Some s' \<Longrightarrow> same_core s s'"
  "list_add w l s = Some s' \<Longrightarrow> same_core s s'"
  by (auto simp: list_del_def list_del_init_def list_add_tail_def list_add_def dest: unlink_core split: if_splits)
    (simp_all add: same_core_def set_link_def)

lemma copy_from_user_core: "copy_from_user K a n s = (r, s') \<Longrightarrow> same_core s s'"
  by (auto simp: copy_from_user_def)

lemma get_user_core: "get_user K a s = (r, s') \<Longrightarrow> same_core s s'"
  by (auto simp: get_user_def dest!: copy_from_user_core split: prod.splits option.splits)

lemma copy_to_user_core: "copy_to_user K a bs s = (r, s') \<Longrightarrow> same_core s s'"
  by (auto simp: copy_to_user_def same_core_def tick_def split: if_splits)

lemma put_user_core: "put_user K a v s = (r, s') \<Longrightarrow> same_core s s'"
  unfolding put_user_def by (rule copy_to_user_core)

lemma put_words_core: "put_words K a vs s = (r, s') \<Longrightarrow> same_core s s'"
proof (induction vs arbitrary: a s)
  case (Cons v vs)
  then show ?case by (auto split: prod.splits bool.splits dest!: put_user_core intro: same_core_trans)
qed simp

lemmas user_core = copy_from_user_core get_user_core copy_to_user_core put_user_core put_words_core

section \<open>Objects\<close>

lemma set_proc_inv: "driver_inv K s \<Longrightarrow> procs s p \<noteq> None \<Longrightarrow> proc_good K x \<Longrightarrow> driver_inv K (set_proc p x s)"
  by (auto simp: driver_inv_def procs_good_def mem_ok_def stats_ok_def set_proc_def)

lemma set_thread_inv: "driver_inv K s \<Longrightarrow> threads s t \<noteq> None \<Longrightarrow> driver_inv K (set_thread t x s)"
  by (auto simp: driver_inv_def procs_good_def mem_ok_def stats_ok_def set_thread_def)

lemma set_node_inv: "driver_inv K s \<Longrightarrow> nodes s n \<noteq> None \<Longrightarrow> driver_inv K (set_node n x s)"
  by (auto simp: driver_inv_def procs_good_def mem_ok_def stats_ok_def set_node_def)

lemma set_ref_inv: "driver_inv K s \<Longrightarrow> refs s r \<noteq> None \<Longrightarrow> driver_inv K (set_ref r x s)"
  by (auto simp: driver_inv_def procs_good_def mem_ok_def stats_ok_def set_ref_def)

lemma set_death_inv: "driver_inv K s \<Longrightarrow> deaths s d \<noteq> None \<Longrightarrow> driver_inv K (set_death d x s)"
  by (auto simp: driver_inv_def procs_good_def mem_ok_def stats_ok_def set_death_def)

lemma set_transaction_inv: "driver_inv K s \<Longrightarrow> transactions s t \<noteq> None \<Longrightarrow> driver_inv K (set_transaction t x s)"
  by (auto simp: driver_inv_def procs_good_def mem_ok_def stats_ok_def set_transaction_def)

lemma set_frame [simp]:
  "procs (set_thread t x s) = procs s" "nodes (set_thread t x s) = nodes s" "refs (set_thread t x s) = refs s"
  "deaths (set_thread t x s) = deaths s" "transactions (set_thread t x s) = transactions s"
  "threads (set_thread t x s) = (threads s)(t \<mapsto> x)"
  "procs (set_node n y s) = procs s" "threads (set_node n y s) = threads s" "refs (set_node n y s) = refs s"
  "deaths (set_node n y s) = deaths s" "transactions (set_node n y s) = transactions s"
  "nodes (set_node n y s) = (nodes s)(n \<mapsto> y)"
  "procs (set_ref r z s) = procs s" "threads (set_ref r z s) = threads s" "nodes (set_ref r z s) = nodes s"
  "deaths (set_ref r z s) = deaths s" "transactions (set_ref r z s) = transactions s"
  "refs (set_ref r z s) = (refs s)(r \<mapsto> z)"
  "procs (set_death d u s) = procs s" "threads (set_death d u s) = threads s" "nodes (set_death d u s) = nodes s"
  "refs (set_death d u s) = refs s" "transactions (set_death d u s) = transactions s"
  "deaths (set_death d u s) = (deaths s)(d \<mapsto> u)"
  "procs (set_transaction q v s) = procs s" "threads (set_transaction q v s) = threads s"
  "nodes (set_transaction q v s) = nodes s" "refs (set_transaction q v s) = refs s"
  "deaths (set_transaction q v s) = deaths s" "transactions (set_transaction q v s) = (transactions s)(q \<mapsto> v)"
  "threads (set_proc p w s) = threads s" "nodes (set_proc p w s) = nodes s" "refs (set_proc p w s) = refs s"
  "deaths (set_proc p w s) = deaths s" "transactions (set_proc p w s) = transactions s"
  "procs (set_proc p w s) = (procs s)(p \<mapsto> w)"
  by (simp_all add: set_thread_def set_node_def set_ref_def set_death_def set_transaction_def set_proc_def)

lemma stats_frame [simp]:
  "procs (binder_stats_deleted ty s) = procs s" "threads (binder_stats_deleted ty s) = threads s"
  "nodes (binder_stats_deleted ty s) = nodes s" "refs (binder_stats_deleted ty s) = refs s"
  "deaths (binder_stats_deleted ty s) = deaths s" "transactions (binder_stats_deleted ty s) = transactions s"
  "procs (binder_stats_created ty s) = procs s" "threads (binder_stats_created ty s) = threads s"
  "nodes (binder_stats_created ty s) = nodes s" "refs (binder_stats_created ty s) = refs s"
  "deaths (binder_stats_created ty s) = deaths s" "transactions (binder_stats_created ty s) = transactions s"
  by (simp_all add: binder_stats_deleted_def binder_stats_created_def)

section \<open>Processes\<close>

lemma proc_area:
  "proc_good K p \<Longrightarrow> area_state K a \<Longrightarrow> proc_good K (p\<lparr>pr_alloc := a\<rparr>)"
  by (simp add: proc_good_def)

section \<open>Freeing\<close>

text \<open>
  An object is freed, its table entry removed and the deletion counted; the three may be
  apart, so the lemma speaks of what they come to.
\<close>

definition freed :: "stat_type \<Rightarrow> addr \<Rightarrow> driver \<Rightarrow> driver \<Rightarrow> bool" where
  "freed ty a s s' \<longleftrightarrow> (ty, a) \<in> set (live s) \<and> live s' = remove1 (ty, a) (live s) \<and>
     obj_created s' = obj_created s \<and> obj_deleted s' = (obj_deleted s)(ty := obj_deleted s ty + 1) \<and>
     tlog s' = tlog s \<and> tlog_failed s' = tlog_failed s \<and>
     procs s' = (if ty = BINDER_STAT_PROC then (procs s)(a := None) else procs s) \<and>
     threads s' = (if ty = BINDER_STAT_THREAD then (threads s)(a := None) else threads s) \<and>
     nodes s' = (if ty = BINDER_STAT_NODE then (nodes s)(a := None) else nodes s) \<and>
     refs s' = (if ty = BINDER_STAT_REF then (refs s)(a := None) else refs s) \<and>
     deaths s' = (if ty = BINDER_STAT_DEATH then (deaths s)(a := None) else deaths s) \<and>
     transactions s' = (if ty = BINDER_STAT_TRANSACTION then (transactions s)(a := None) else transactions s)"

lemma freed_inv:
  assumes f: "freed ty a s s'" and inv: "driver_inv K s"
  shows "driver_inv K s'"
proof -
  note F = f [unfolded freed_def]
  have d: "distinct (live s)" using inv by (simp add: driver_inv_def mem_ok_def)
  then have set: "set (live s') = set (live s) - {(ty, a)}" using F by simp
  have "mem_ok s'"
    using inv F d set unfolding driver_inv_def mem_ok_def by (cases ty) auto
  moreover have "distinct (map snd (live s'))"
    using inv F d by (auto simp: driver_inv_def distinct_map inj_on_def)
  moreover have "stats_ok s'"
    using stats_delete [of s ty a s'] inv F by (simp add: driver_inv_def)
  moreover have "procs_good K s'"
    using inv F by (auto simp: driver_inv_def procs_good_def split: if_splits)
  ultimately show ?thesis using inv F by (simp add: driver_inv_def)
qed

section \<open>Allocating\<close>

definition created :: "kern \<Rightarrow> stat_type \<Rightarrow> addr \<Rightarrow> driver \<Rightarrow> driver \<Rightarrow> bool" where
  "created K ty a s s' \<longleftrightarrow> (\<forall>ty'. (ty', a) \<notin> set (live s)) \<and> live s' = (ty, a) # live s \<and>
     obj_created s' = (obj_created s)(ty := obj_created s ty + 1) \<and> obj_deleted s' = obj_deleted s \<and>
     tlog s' = tlog s \<and> tlog_failed s' = tlog_failed s \<and>
     (\<forall>x. (procs s' x \<noteq> None) = (procs s x \<noteq> None \<or> ty = BINDER_STAT_PROC \<and> x = a)) \<and>
     (\<forall>x. (threads s' x \<noteq> None) = (threads s x \<noteq> None \<or> ty = BINDER_STAT_THREAD \<and> x = a)) \<and>
     (\<forall>x. (nodes s' x \<noteq> None) = (nodes s x \<noteq> None \<or> ty = BINDER_STAT_NODE \<and> x = a)) \<and>
     (\<forall>x. (refs s' x \<noteq> None) = (refs s x \<noteq> None \<or> ty = BINDER_STAT_REF \<and> x = a)) \<and>
     (\<forall>x. (deaths s' x \<noteq> None) = (deaths s x \<noteq> None \<or> ty = BINDER_STAT_DEATH \<and> x = a)) \<and>
     (\<forall>x. (transactions s' x \<noteq> None) = (transactions s x \<noteq> None \<or> ty = BINDER_STAT_TRANSACTION \<and> x = a)) \<and>
     procs_good K s'"

lemma created_inv:
  assumes c: "created K ty a s s'" and inv: "driver_inv K s"
  shows "driver_inv K s'"
proof -
  note C = c [unfolded created_def]
  have "mem_ok s'" using inv C unfolding driver_inv_def mem_ok_def by auto
  moreover have "distinct (map snd (live s'))"
    using inv C by (auto simp: driver_inv_def)
  moreover have "stats_ok s'"
    using stats_create [of s s' ty a] inv C by (simp add: driver_inv_def)
  ultimately show ?thesis using inv C by (simp add: driver_inv_def)
qed

lemma kmalloc_none: "kmalloc K ty s = (None, s1) \<Longrightarrow> same_core s s1"
  by (auto simp: kmalloc_def split: option.splits)

lemma kmalloc_some:
  assumes "kern_ok K" and "kmalloc K ty s = (Some a, s1)"
  shows "s1 = s\<lparr>ticks := Suc (ticks s), live := (ty, a) # live s\<rparr>" and "\<And>ty'. (ty', a) \<notin> set (live s)"
  using kmalloc_cases [OF assms(1), of ty s] assms(2) by auto

end
