(* ===== verification/Driver_Objects.thy ===== *)
theory Driver_Objects
  imports Driver_Inv
begin

text \<open>
  The invariant of the driver survives the operations on buffers, nodes, references, and the
  transaction stack.
\<close>

named_theorems inv_intros \<open>an operation that succeeds keeps the invariant\<close>

lemma core_inv: "same_core s s' \<Longrightarrow> driver_inv K s \<Longrightarrow> driver_inv K s'"
  by (simp add: same_core_inv)

lemma core_simp [simp]:
  "driver_inv K (s\<lparr>items := it\<rparr>) = driver_inv K s" "driver_inv K (s\<lparr>link_of := lk\<rparr>) = driver_inv K s"
  "driver_inv K (s\<lparr>ticks := n\<rparr>) = driver_inv K s" "driver_inv K (s\<lparr>fd_table := ft\<rparr>) = driver_inv K s"
  "driver_inv K (s\<lparr>user_out := uo\<rparr>) = driver_inv K s"
  "driver_inv K (s\<lparr>binder_last_id := i\<rparr>) = driver_inv K s"
  "driver_inv K (s\<lparr>binder_dead_nodes := dn\<rparr>) = driver_inv K s"
  "driver_inv K (s\<lparr>binder_context_mgr_node := m\<rparr>) = driver_inv K s"
  "driver_inv K (s\<lparr>binder_context_mgr_uid := u\<rparr>) = driver_inv K s"
  "driver_inv K (s\<lparr>binder_procs := ps\<rparr>) = driver_inv K s"
  "driver_inv K (s\<lparr>binder_deferred_list := dl\<rparr>) = driver_inv K s"
  "driver_inv K (s\<lparr>st_br := br\<rparr>) = driver_inv K s" "driver_inv K (s\<lparr>st_bc := bc\<rparr>) = driver_inv K s"
  "driver_inv K (set_link w l s) = driver_inv K s" "driver_inv K (drop_work w s) = driver_inv K s"
  "driver_inv K (tick s) = driver_inv K s" "driver_inv K (binder_set_nice K c v s) = driver_inv K s"
  by (simp_all add: same_core_inv [OF core_update(1)] same_core_inv [OF core_update(2)] same_core_inv [OF core_update(3)]
      same_core_inv [OF core_update(4)] same_core_inv [OF core_update(6)] same_core_inv [OF core_update(7)]
      same_core_inv [OF core_update(8)] same_core_inv [OF core_update(9)] same_core_inv [OF core_update(10)]
      same_core_inv [OF core_update(11)] same_core_inv [OF core_update(12)] same_core_inv [OF core_update(13)]
      same_core_inv [OF core_update(14)] same_core_inv [OF core_update(15)] same_core_inv [OF core_update(16)]
      same_core_inv [OF core_update(17)] same_core_inv [OF core_update(18)])

section \<open>Buffers\<close>

lemma buf_getD: "buf_get s b = Some h \<Longrightarrow> \<exists>p. procs s (fst b) = Some p \<and> p_heap (pr_alloc p) (snd b) = Some h"
  by (auto simp: buf_get_def bind_eq_Some_conv)

lemma buf_set_inv:
  assumes inv: "driver_inv K s" and h: "buf_get s b = Some h" and ss: "same_shape h h'" and set: "buf_set b h' s = Some s'"
  shows "driver_inv K s'"
proof -
  obtain p where p: "procs s (fst b) = Some p" "p_heap (pr_alloc p) (snd b) = Some h"
    using buf_getD [OF h] by blast
  have g: "proc_good K p" by (rule driver_invD(4) [OF inv p(1)])
  then have "area_state K ((pr_alloc p)\<lparr>p_heap := (p_heap (pr_alloc p))(snd b \<mapsto> h')\<rparr>)"
    using header_state [OF _ p(2) ss] by (simp add: proc_good_def)
  then show ?thesis
    using set p inv g set_proc_inv [OF inv, of "fst b"] proc_area [OF g] by (auto simp: buf_set_def Let_def)
qed

lemma buf_set_frame:
  assumes "buf_set b h s = Some s'"
  shows "threads s' = threads s" and "nodes s' = nodes s" and "refs s' = refs s" and "deaths s' = deaths s"
    and "transactions s' = transactions s" and "\<And>q. (procs s' q = None) = (procs s q = None)" and "buf_get s' b = Some h"
  using assms by (auto simp: buf_set_def buf_get_def Let_def split: bind_splits if_splits)

lemma buf_frame:
  "procs s' = procs s \<Longrightarrow> buf_get s' b = buf_get s b"
  by (simp add: buf_get_def)

lemma clear_buffer_inv [inv_intros]:
  assumes "clear_buffer bo s = Some s'" and "driver_inv K s"
  shows "driver_inv K s'"
proof (cases bo)
  case None
  then show ?thesis using assms by (simp add: clear_buffer_def)
next
  case (Some b)
  with assms(1) obtain h where h: "buf_get s b = Some h" "buf_set b (h\<lparr>b_transaction := None\<rparr>) s = Some s'"
    by (auto simp: clear_buffer_def bind_eq_Some_conv)
  show ?thesis by (rule buf_set_inv [OF assms(2) h(1) _ h(2)]) (simp add: same_shape_def)
qed

lemma clear_buffer_frame:
  assumes "clear_buffer bo s = Some s'"
  shows "threads s' = threads s" and "nodes s' = nodes s" and "refs s' = refs s" and "deaths s' = deaths s"
    and "transactions s' = transactions s"
  using assms by (auto simp: clear_buffer_def bind_eq_Some_conv dest: buf_set_frame split: option.splits)

lemma detach_transaction_inv [inv_intros]:
  assumes "detach_transaction b s = Some s'" and "driver_inv K s"
  shows "driver_inv K s'"
proof -
  obtain h where h: "buf_get s b = Some h" using assms(1) by (auto simp: detach_transaction_def bind_eq_Some_conv)
  show ?thesis
  proof (cases "b_transaction h")
    case None
    then show ?thesis using assms h by (simp add: detach_transaction_def)
  next
    case (Some t)
    with assms(1) h obtain x where x: "transactions s t = Some x"
      "buf_set b (h\<lparr>b_transaction := None\<rparr>) (set_transaction t (x\<lparr>t_buffer := None\<rparr>) s) = Some s'"
      by (auto simp: detach_transaction_def bind_eq_Some_conv)
    have "driver_inv K (set_transaction t (x\<lparr>t_buffer := None\<rparr>) s)"
      using set_transaction_inv [OF assms(2)] x(1) by simp
    then show ?thesis
      by (rule buf_set_inv [OF _ _ _ x(2)]) (simp_all add: buf_frame [of _ s] h same_shape_def)
  qed
qed

lemma free_buffer_inv [inv_intros]:
  assumes "free_buffer K b s = Some s'" and inv: "driver_inv K s"
  shows "driver_inv K s'"
proof -
  obtain p a where p: "procs s (fst b) = Some p" "binder_free_buf K (pr_alloc p) (snd b) = Some a"
    and s': "s' = set_proc (fst b) (p\<lparr>pr_alloc := a\<rparr>) s"
    using assms(1) by (auto simp: free_buffer_def bind_eq_Some_conv)
  have g: "proc_good K p" by (rule driver_invD(4) [OF inv p(1)])
  then have "area_state K a" using free_state [OF driver_invD(1) [OF inv] _ p(2)] by (simp add: proc_good_def)
  then show ?thesis using set_proc_inv [OF inv] p(1) proc_area [OF g] s' by simp
qed

section \<open>Freeing objects\<close>

lemma free_transaction_inv [inv_intros]: "free_transaction t s = Some s' \<Longrightarrow> driver_inv K s \<Longrightarrow> driver_inv K s'"
  by (rule freed_inv [of BINDER_STAT_TRANSACTION t])
    (auto simp: free_transaction_def kfree_def freed_def binder_stats_deleted_def drop_work_def set_link_def
      split: bind_splits if_splits)

lemma free_complete_inv [inv_intros]: "free_complete c s = Some s' \<Longrightarrow> driver_inv K s \<Longrightarrow> driver_inv K s'"
  by (rule freed_inv [of BINDER_STAT_TRANSACTION_COMPLETE c])
    (auto simp: free_complete_def kfree_def freed_def binder_stats_deleted_def drop_work_def set_link_def
      split: bind_splits if_splits)

lemma free_death_inv [inv_intros]: "free_death d s = Some s' \<Longrightarrow> driver_inv K s \<Longrightarrow> driver_inv K s'"
  by (rule freed_inv [of BINDER_STAT_DEATH d])
    (auto simp: free_death_def kfree_def freed_def binder_stats_deleted_def drop_work_def set_link_def
      split: bind_splits if_splits)

lemma list_inv [inv_intros]:
  "list_del w s = Some s' \<Longrightarrow> driver_inv K s \<Longrightarrow> driver_inv K s'"
  "list_del_init w s = Some s' \<Longrightarrow> driver_inv K s \<Longrightarrow> driver_inv K s'"
  "list_add_tail w l s = Some s' \<Longrightarrow> driver_inv K s \<Longrightarrow> driver_inv K s'"
  "list_add w l s = Some s' \<Longrightarrow> driver_inv K s \<Longrightarrow> driver_inv K s'"
  using list_core core_inv by blast+

lemma user_inv:
  "copy_from_user K a n s = (r1, s') \<Longrightarrow> driver_inv K s \<Longrightarrow> driver_inv K s'"
  "get_user K a s = (r2, s') \<Longrightarrow> driver_inv K s \<Longrightarrow> driver_inv K s'"
  "copy_to_user K a bs s = (r3, s') \<Longrightarrow> driver_inv K s \<Longrightarrow> driver_inv K s'"
  "put_user K a v s = (r3, s') \<Longrightarrow> driver_inv K s \<Longrightarrow> driver_inv K s'"
  "put_words K a vs s = (r3, s') \<Longrightarrow> driver_inv K s \<Longrightarrow> driver_inv K s'"
  by (rule core_inv, erule user_core, assumption)+

section \<open>Nodes\<close>

lemma proc_nodes_good: "proc_good K p \<Longrightarrow> proc_good K (p\<lparr>pr_nodes := t\<rparr>)"
  by (simp add: proc_good_def)

lemma proc_refs_good: "proc_good K p \<Longrightarrow> proc_good K (p\<lparr>pr_refs_by_desc := t, pr_refs_by_node := u\<rparr>)"
  by (simp add: proc_good_def)

lemma new_node_inv [inv_intros]:
  assumes code: "binder_new_node K proc ptr cookie s = Some (r, s')" and inv: "driver_inv K s"
  shows "driver_inv K s'"
proof (cases r)
  case None
  with code show ?thesis
    using inv by (auto simp: binder_new_node_def Let_def dest!: kmalloc_none core_inv
        split: bind_splits prod.splits option.splits if_splits)
next
  case (Some node)
  with code obtain p s1 t where p: "procs s proc = Some p" and m: "kmalloc K BINDER_STAT_NODE s = (Some node, s1)"
    and s': "s' = (let s2 = binder_stats_created BINDER_STAT_NODE s1;
             s3 = set_proc proc (p\<lparr>pr_nodes := t\<rparr>) s2;
             s4 = s3\<lparr>binder_last_id := Suc (binder_last_id s3)\<rparr>;
             s5 = set_node node (blank_node\<lparr>n_debug_id := binder_last_id s4, n_proc := Some proc,
                                       n_ptr := ptr, n_cookie := cookie\<rparr>) s4;
             s6 = set_link (W_Node node) Unlinked s5 in s6\<lparr>items := (items s6)(L_Async node := [])\<rparr>)"
    by (auto simp: binder_new_node_def Let_def split: bind_splits prod.splits option.splits if_splits)
  note M = kmalloc_some [OF driver_invD(1) [OF inv] m]
  have "procs_good K s'"
    using inv p proc_nodes_good [of K p t] by (auto simp: driver_inv_def procs_good_def s' M(1) Let_def binder_stats_created_def
        set_proc_def set_node_def set_link_def)
  then have "created K BINDER_STAT_NODE node s s'"
    using M(2) p by (auto simp: created_def s' M(1) Let_def binder_stats_created_def set_proc_def set_node_def set_link_def)
  then show ?thesis using inv by (rule created_inv)
qed

lemma inc_node_inv [inv_intros]:
  "binder_inc_node node strong internal l s = Some (r, s') \<Longrightarrow> driver_inv K s \<Longrightarrow> driver_inv K s'"
  by (auto simp: binder_inc_node_def Let_def intro!: set_node_inv elim!: list_inv
      split: bind_splits if_splits option.splits)

lemma free_node_inv:
  assumes "kfree BINDER_STAT_NODE node s = Some s1" and "driver_inv K s"
  shows "driver_inv K (binder_stats_deleted BINDER_STAT_NODE (drop_work (W_Node node) (s1\<lparr>nodes := (nodes s1)(node := None)\<rparr>)))"
  by (rule freed_inv [OF _ assms(2), of BINDER_STAT_NODE node])
    (use assms(1) in \<open>auto simp: kfree_def freed_def binder_stats_deleted_def drop_work_def set_link_def split: if_splits\<close>)

lemma dec_settle_inv [inv_intros]:
  assumes "dec_node_settle K node s = Some s'" and inv: "driver_inv K s"
  shows "driver_inv K s'"
proof -
  obtain n where n: "nodes s node = Some n" using assms(1) by (auto simp: dec_node_settle_def bind_eq_Some_conv)
  consider (tell) "n_proc n \<noteq> None \<and> (n_has_strong_ref n \<or> n_has_weak_ref n)"
    | (free) "\<not> (n_proc n \<noteq> None \<and> (n_has_strong_ref n \<or> n_has_weak_ref n))"
      "n_refs n = [] \<and> n_local_strong_refs n = 0 \<and> n_local_weak_refs n = 0"
    | (keep) "s' = s"
    using assms(1) n by (auto simp: dec_node_settle_def split: if_splits)
  then show ?thesis
  proof cases
    case tell
    then show ?thesis using assms n by (auto simp: dec_node_settle_def elim: list_inv split: if_splits)
  next
    case free
    then obtain s1 s2 s3 where 1: "list_del_init (W_Node node) s = Some s1"
      and 2: "(case n_proc n of
                     Some proc \<Rightarrow>
                       do {
                         p \<leftarrow> procs s1 proc;
                         Some (set_proc proc (p\<lparr>pr_nodes := rb_erase K node (pr_nodes p)\<rparr>) s1)
                       }
                   | None \<Rightarrow> Some (s1\<lparr>binder_dead_nodes := remove1 node (binder_dead_nodes s1)\<rparr>)) = Some s2"
      and 3: "kfree BINDER_STAT_NODE node s2 = Some s3"
      and s': "s' = binder_stats_deleted BINDER_STAT_NODE (drop_work (W_Node node) (s3\<lparr>nodes := (nodes s3)(node := None)\<rparr>))"
      using assms(1) n by (auto simp: dec_node_settle_def bind_eq_Some_conv)
    have i1: "driver_inv K s1" by (rule list_inv(2) [OF 1 inv])
    have i2: "driver_inv K s2"
      using 2 i1 driver_invD(4) [OF i1] proc_nodes_good
      by (auto simp: bind_eq_Some_conv intro!: set_proc_inv split: option.splits)
    show ?thesis unfolding s' by (rule free_node_inv [OF 3 i2])
  next
    case keep
    then show ?thesis using inv by simp
  qed
qed

lemma dec_node_inv [inv_intros]:
  assumes "binder_dec_node K node strong internal s = Some (r, s')" and "driver_inv K s"
  shows "driver_inv K s'"
proof -
  obtain n where n: "nodes s node = Some n" using assms(1) by (auto simp: binder_dec_node_def bind_eq_Some_conv)
  have "driver_inv K (set_node node n' s)" for n' using set_node_inv [OF assms(2)] n by simp
  then show ?thesis
    using assms(1) n by (auto simp: binder_dec_node_def Let_def elim!: dec_settle_inv split: if_splits)
qed

end
