(* ===== verification/Parcel_Runs.thy ===== *)
theory Parcel_Runs
  imports Parcel_Append Driver_Objects
begin

text \<open>Strings and objects, and runs of writes of all kinds.\<close>

section \<open>Numbers and strings\<close>

lemma word_bytes_length [simp]: "length (word_bytes v) = 4"
  by (simp add: word_bytes_def)

lemma long_bytes_length [simp]: "length (long_bytes v) = 8"
  by (simp add: long_bytes_def)

lemma write_int32_appends: "appends E (write_int32 E v) (word_bytes v) []"
  unfolding write_int32_def by (rule write_aligned_appends) simp

lemma write_string8_eq:
  "write_string8 E str = (if str = [] then write_int32 E 0 else then_write (write_int32 E (int (length str))) (parcel_write E (str @ [0])))"
  by (intro ext) (auto simp: write_string8_def then_write_def split: Option.bind_splits)

lemma write_string8_appends:
  "appends E (write_string8 E str) (word_bytes (int (length str)) @ (if str = [] then [] else padded_bytes (str @ [0]))) []"
  using then_appends [OF write_int32_appends parcel_write_appends, of E "int (length str)" "str @ [0]"] write_int32_appends [of E 0]
  by (cases "str = []") (simp_all add: write_string8_eq)

definition units_bytes :: "nat list \<Rightarrow> byte list" where
  "units_bytes us = concat (map le_bytes16 us)"

lemma units_bytes_length [simp]: "length (units_bytes us) = 2 * length us"
  unfolding units_bytes_def by (induction us) (simp_all add: le_bytes16_def)

definition write_units :: "parcel_env \<Rightarrow> nat list \<Rightarrow> parcel \<Rightarrow> process \<Rightarrow> (int \<times> parcel \<times> process) option" where
  "write_units E str p w =
     (let len = szt 4 (length str * 2) in do {
      (data, p, w) \<leftarrow> write_inplace E (szt 4 (len + 2)) p w;
      case data of
        Some d \<Rightarrow> do {
          p \<leftarrow> put_bytes_at d (take len (concat (map le_bytes16 str))) p;
          p \<leftarrow> put_bytes_at (d + len) (le_bytes16 0) p;
          Some (NO_ERROR, p, w) }
      | None \<Rightarrow> Some (m_error p, p, w) })"

lemma write_string16_eq: "write_string16 E (Some str) = then_write (write_int32 E (int (length str))) (write_units E str)"
  unfolding write_string16_def then_write_def write_units_def by simp

lemma put_bytes_at_append:
  "ys \<noteq> [] \<Longrightarrow> put_bytes_at d xs p \<bind> put_bytes_at (d + length xs) ys = put_bytes_at d (xs @ ys) p"
proof (cases "m_data p")
  case (Block b)
  assume "ys \<noteq> []"
  then show ?thesis using Block put_at_append [of b d xs ys]
    by (cases "xs = []") (auto simp: put_bytes_at_def block_put_def split: Option.bind_splits)
qed (auto simp: put_bytes_at_def block_put_def)

lemma write_units_appends: "appends E (write_units E us) (padded_bytes (units_bytes us @ le_bytes16 0)) []"
  unfolding appends_def
proof (intro allI impI)
  fix p w
  let ?bs = "units_bytes us @ le_bytes16 0"
  assume A: "appending p" and L: "m_data_size p + length (padded_bytes ?bs) \<le> LIMIT"
  have n: "length ?bs = 2 * length us + 2" by (simp add: le_bytes16_def)
  have L': "m_data_size p + length ?bs + padding (length ?bs) \<le> LIMIT" using L by (simp add: padded_bytes_def)
  then have trunc: "szt 4 (length us * 2) = 2 * length us" "szt 4 (2 * length us + 2) = 2 * length us + 2"
    using n by (simp_all add: szt_id LIMIT_def)
  obtain d q v where r: "write_inplace E (length ?bs) p w = Some (d, q, v)" and k: "pw_refs v = pw_refs w"
    and none: "d = None \<Longrightarrow> grown p [] [] q \<and> (m_error q = NO_MEMORY \<or> length ?bs = 0)"
    and some: "d \<noteq> None \<Longrightarrow> d = Some (m_data_size p) \<and> (\<exists>q'. put_bytes_at (m_data_size p) ?bs q = Some q' \<and> grown p (padded_bytes ?bs) [] q')"
    and gen: "generous E \<Longrightarrow> m_error q = m_error p \<and> (0 < length ?bs \<longrightarrow> d \<noteq> None)"
    using inplace_ok [OF A L', of E w] by blast
  have r': "write_inplace E (2 * length us + 2) p w = Some (d, q, v)" using r by (simp only: n)
  show "promised E (padded_bytes ?bs) [] p w (write_units E us p w)"
  proof (cases d)
    case None
    then have g: "grown p [] [] q" and e: "m_error q \<noteq> NO_ERROR" using none n by (auto simp: NO_ERROR_def NO_MEMORY_def)
    then have "write_units E us p w = Some (m_error q, q, v)" using r' None unfolding write_units_def trunc Let_def by simp
    moreover have "\<not> lucky E p" using gen n None by (auto simp: lucky_def)
    ultimately show ?thesis using promised_partly [OF partly_none g others_grown [OF A g k] e] by simp
  next
    case (Some a)
    then obtain q' where a: "a = m_data_size p" and put: "put_bytes_at a ?bs q = Some q'" and g: "grown p (padded_bytes ?bs) [] q'"
      using some by blast
    have "put_bytes_at a (units_bytes us) q \<bind> put_bytes_at (a + 2 * length us) (le_bytes16 0) = Some q'"
      using put put_bytes_at_append [of "le_bytes16 0" a "units_bytes us" q] by (simp add: le_bytes16_def)
    then have "write_units E us p w = Some (NO_ERROR, q', v)" using r' Some
      unfolding write_units_def trunc Let_def units_bytes_def [symmetric] by (auto split: Option.bind_splits)
    moreover have "lucky E p \<Longrightarrow> m_error q' = NO_ERROR" using gen put_bytes_error [OF put] by (simp add: lucky_def)
    ultimately show ?thesis using promised_grown [OF g others_grown [OF A g k]] by simp
  qed
qed

lemma write_string16_appends:
  "appends E (write_string16 E str) (case str of None \<Rightarrow> word_bytes (- 1)
     | Some us \<Rightarrow> word_bytes (int (length us)) @ padded_bytes (units_bytes us @ le_bytes16 0)) []"
proof (cases str)
  case None
  then have "write_string16 E str = write_int32 E (- 1)" by (intro ext) (simp add: write_string16_def)
  then show ?thesis using None write_int32_appends by simp
next
  case (Some us)
  then show ?thesis using then_appends [OF write_int32_appends write_units_appends, of E "int (length us)" us]
    by (simp add: write_string16_eq)
qed

section \<open>Objects\<close>

lemma flat_bytes_length [simp]: "length (flat_bytes f) = sizeof_flat"
  by (simp add: flat_bytes_def sizeof_flat_def)

definition flat_ok :: "flat_binder \<Rightarrow> bool" where
  "flat_ok f \<longleftrightarrow> f_type f < 2 ^ 32 \<and> f_flags f < 2 ^ 32 \<and> f_handle f < 2 ^ 32 \<and> f_cookie f < 2 ^ 32"

lemma flat_in_bytes:
  assumes "flat_ok f"
  shows "flat_in (bs @ flat_bytes f @ cs) (length bs) = f"
proof -
  let ?ws = "[f_type f, f_flags f, f_handle f, f_cookie f]"
  have t: "take sizeof_flat (drop (length bs) (bs @ flat_bytes f @ cs)) = concat (map le_bytes ?ws)"
    by (simp add: flat_bytes_def sizeof_flat_def)
  have "get_u32 (\<lambda>i. concat (map le_bytes ?ws) ! i) (4 * j) = ?ws ! j mod 2 ^ 32" if "j < 4" for j
    by (rule get_word) (use that in simp)
  from this [of 0] this [of 1] this [of 2] this [of 3] show ?thesis using assms
    unfolding flat_in_def t Let_def
    by (simp add: fp_type_def fp_flags_def fp_handle_def fp_cookie_def flat_ok_def numeral_2_eq_2 numeral_3_eq_3)
qed

lemma more_objects_ok:
  assumes A: "appending p" and n: "n = (m_objects_size p + 2) * 3 div 2" and L: "m_data_size p \<le> LIMIT" and full: "m_objects_capacity p \<le> m_objects_size p"
  shows "\<exists>err q v. more_objects E n p w = Some (err, q, v) \<and> pw_refs v = pw_refs w \<and> grown p [] [] q \<and> m_data q = m_data p
    \<and> m_data_capacity q = m_data_capacity p \<and> m_data_size q = m_data_size p \<and> (err = NO_ERROR \<longrightarrow> m_objects_size q < m_objects_capacity q)
    \<and> (err = NO_ERROR \<or> err = NO_MEMORY) \<and> (generous E \<longrightarrow> err = NO_ERROR) \<and> m_error q = m_error p"
proof -
  have "16 * length (offsets p) \<le> m_data_size p"
    using A apart_room [of 0 "offsets p" "m_data_size p"] by (simp add: appending_def parcel_ok_def)
  then have small: "m_objects_size p \<le> 0x4000000" using A L by (simp add: offsets_length appending_def LIMIT_def)
  then have four: "szt 4 (4 * n) = 4 * n" by (simp add: szt_id n)
  have pos: "0 < n" "m_objects_size p < n" by (simp_all add: n)
  obtain d v where m: "malloc_objects E n w = (d, v)" by (cases "malloc_objects E n w")
  have "szt 4 (4 * n) < 2 ^ 32" using four small by (simp add: n)
  then have "generous E \<longrightarrow> he_ok E (pw_ticks w) (szt 4 (4 * n))" unfolding generous_def by blast
  then have gen: "generous E \<longrightarrow> d \<noteq> None" using m by (auto simp: malloc_objects_def)
  have ld: "d = Some ys \<Longrightarrow> length ys = n" for ys using m four by (auto simp: malloc_objects_def split: if_splits)
  show ?thesis
  proof (cases "m_objects p")
    case Freed
    then show ?thesis using A by (simp add: appending_def parcel_ok_def)
  next
    case Null
    then have "m_objects_size p = 0" using A by (simp add: appending_def parcel_ok_def)
    then show ?thesis using A Null m malloc_refs(2) [OF m] pos ld gen
      by (cases d) (simp_all add: more_objects_def realloc_objects_def realloc_with_def grown_def appending_def parcel_ok_def
          offsets_def NO_ERROR_def NO_MEMORY_def)
  next
    case (Block xs)
    then have "length xs \<le> n" "m_objects_size p \<le> length xs" using A full pos by (simp_all add: appending_def parcel_ok_def)
    then show ?thesis using A Block m malloc_refs(2) [OF m] pos ld gen four
      by (cases d) (simp_all add: more_objects_def realloc_objects_def realloc_with_def grown_def appending_def parcel_ok_def
          offsets_def NO_ERROR_def NO_MEMORY_def)
  qed
qed

lemma more_objects_size: "n \<le> 0x4000000 \<Longrightarrow> szt 4 ((n + 2) * 3) div 2 = (n + 2) * 3 div 2"
  by (simp add: szt_id)

text \<open>The last steps of \<^verbatim>\<open>writeObject\<close>, when there is room.\<close>

definition place_object :: "parcel_env \<Rightarrow> flat_binder \<Rightarrow> bool \<Rightarrow> parcel \<Rightarrow> process \<Rightarrow> (int \<times> parcel \<times> process) option" where
  "place_object E val nullMetaData p w = do {
     p \<leftarrow> store_data (flat_bytes val) p;
     (p, w) \<leftarrow> if nullMetaData \<or> f_handle val \<noteq> 0 then do {
         objs \<leftarrow> block_put (m_objects p) (m_objects_size p) [m_data_pos p];
         Some (p\<lparr>m_objects := objs, m_objects_size := Suc (m_objects_size p)\<rparr>, acquire_object E val w) }
       else Some (p, w);
     if f_type val = BINDER_TYPE_FD \<and> \<not> m_allow_fds p then Some (FDS_NOT_ALLOWED, p, w)
     else
       let p = (if f_type val = BINDER_TYPE_FD then p\<lparr>m_has_fds := True, m_fds_known := True\<rparr> else p) in
       Some (NO_ERROR, finish_write sizeof_flat p, w) }"

definition object_at :: "flat_binder \<Rightarrow> bool \<Rightarrow> nat list" where
  "object_at val nullMetaData = (if nullMetaData \<or> f_handle val \<noteq> 0 then [0] else [])"

lemma object_stored:
  assumes A: "appending p" and d: "m_data p = Block d" and room: "m_data_size p + sizeof_flat \<le> m_data_capacity p"
    and L: "m_data_size p + sizeof_flat \<le> LIMIT" and xs: "m_objects p = Block xs" and free: "m_objects_size p < length xs"
  shows "grown p (flat_bytes val) [0] (finish_write sizeof_flat (p\<lparr>m_data := Block (take (m_data_size p) d @ flat_bytes val @ drop (m_data_size p + sizeof_flat) d),
      m_objects := Block (xs[m_objects_size p := m_data_size p]), m_objects_size := Suc (m_objects_size p)\<rparr>))"
proof -
  have lo: "offsets p = take (m_objects_size p) xs" by (simp add: offsets_def xs)
  have "apart 0 (offsets p @ [m_data_size p]) (m_data_size p + sizeof_flat)"
    using A by (intro apart_append [of _ _ "m_data_size p"]) (simp_all add: appending_def parcel_ok_def)
  moreover have "take (Suc (m_objects_size p)) (xs[m_objects_size p := m_data_size p]) = offsets p @ [m_data_size p]"
    using free by (simp add: lo take_Suc_conv_app_nth)
  ultimately show ?thesis using A d xs free room L
    by (auto simp: grown_def appending_def parcel_ok_def finish_at contents_def offsets_def sizeof_flat_def)
qed

lemma others_object:
  assumes A: "appending p" and g: "grown p (flat_bytes val) [0] q" and "flat_ok val"
  shows "others E q (acquire_object E val w) = others E p w"
proof
  fix k
  have l: "length (contents p) = m_data_size p" and a: "apart 0 (offsets p) (length (contents p))"
    using A by (simp_all add: appending_def parcel_ok_def contents_length)
  have "flat_in (contents q) (m_data_size p) = val"
    using g flat_in_bytes [OF assms(3), of "contents p" "[]"] by (simp add: grown_def l)
  then have "refs_held E (contents q) (offsets q) k = refs_held E (contents p) (offsets p) k + counts E val k"
    using g refs_held_extend [OF a] by (simp add: grown_def refs_held_append) (simp add: refs_held_def)
  then show "others E q (acquire_object E val w) k = others E p w k" by (simp add: others_def acquire_counts)
qed

lemma grown_same:
  assumes "grown p bs xs q" and "q' = q\<lparr>m_has_fds := a, m_fds_known := b\<rparr>"
  shows "grown p bs xs q'"
  using assms by (auto simp: grown_def appending_def parcel_ok_def)

lemma finish_flags: "finish_write n (p\<lparr>m_has_fds := a, m_fds_known := b\<rparr>) = (finish_write n p)\<lparr>m_has_fds := a, m_fds_known := b\<rparr>"
  by (cases p) (simp add: finish_write_def Let_def)

lemma place_object_ok:
  assumes A: "appending p" and fds: "m_allow_fds p" and room: "m_data_size p + sizeof_flat \<le> m_data_capacity p"
    and L: "m_data_size p + sizeof_flat \<le> LIMIT" and free: "m_objects_size p < m_objects_capacity p" and val: "flat_ok val"
  shows "\<exists>q v. place_object E val nm p w = Some (NO_ERROR, q, v) \<and> grown p (flat_bytes val) (object_at val nm) q \<and> others E q v = others E p w
    \<and> m_error q = m_error p"
proof -
  have ne: "flat_bytes val \<noteq> []" and four: "4 dvd length (flat_bytes val)"
    by (simp add: flat_bytes_def le_bytes_def) (simp add: sizeof_flat_def)
  obtain d where d: "m_data p = Block d"
    and st: "store_data (flat_bytes val) p = Some (p\<lparr>m_data := Block (take (m_data_size p) d @ flat_bytes val @ drop (m_data_size p + sizeof_flat) d)\<rparr>)"
    (is "_ = Some ?p") using store_end [OF A _ ne] room L by (metis flat_bytes_length)
  obtain xs where xs: "m_objects p = Block xs" and lx: "m_objects_size p < length xs"
    using A free by (auto simp: appending_def parcel_ok_def block_ok_def split: block.splits)
  have pos: "m_data_pos p = m_data_size p" using A by (simp add: appending_def)
  let ?flags = "\<lambda>q. if f_type val = BINDER_TYPE_FD then q\<lparr>m_has_fds := True, m_fds_known := True\<rparr> else q"
  have flags: "grown p bs ys q \<Longrightarrow> grown p bs ys (?flags q)" for bs ys q using grown_same by simp
  have fin: "finish_write sizeof_flat (?flags q) = ?flags (finish_write sizeof_flat q)" for q by (simp add: finish_flags)
  show ?thesis
  proof (cases "nm \<or> f_handle val \<noteq> 0")
    case True
    let ?q = "?p\<lparr>m_objects := Block (xs[m_objects_size p := m_data_size p]), m_objects_size := Suc (m_objects_size p)\<rparr>"
    have "block_put (m_objects ?p) (m_objects_size ?p) [m_data_pos ?p] = Some (Block (xs[m_objects_size p := m_data_size p]))"
      using lx by (simp add: block_put_def xs put_at_def pos upd_conv_take_nth_drop)
    then have "place_object E val nm p w = Some (NO_ERROR, ?flags (finish_write sizeof_flat ?q), acquire_object E val w)"
      using True fds by (simp add: place_object_def st fin [symmetric])
    moreover have "grown p (flat_bytes val) [0] (?flags (finish_write sizeof_flat ?q))"
      by (rule flags [OF object_stored [OF A d room L xs lx]])
    ultimately show ?thesis using True others_object [OF A _ val] by (simp add: object_at_def)
  next
    case False
    then have "place_object E val nm p w = Some (NO_ERROR, ?flags (finish_write sizeof_flat ?p), w)"
      using fds by (simp add: place_object_def st fin [symmetric])
    moreover have "grown p (flat_bytes val) [] (finish_write sizeof_flat ?p)"
      using finish_end [OF A d, of "flat_bytes val"] room L four by simp
    then have "grown p (flat_bytes val) [] (?flags (finish_write sizeof_flat ?p))" by (rule flags)
    ultimately show ?thesis using False others_grown [OF A] by (simp add: object_at_def)
  qed
qed

lemma write_object_eq:
  "write_object E val nm p w = do {
     (err, q, v) \<leftarrow> make_room E sizeof_flat p w;
     if err \<noteq> NO_ERROR then Some (err, q, v)
     else do {
       (err, q, v) \<leftarrow> if m_objects_size p < m_objects_capacity p then Some (NO_ERROR, q, v)
         else more_objects E (szt 4 ((m_objects_size q + 2) * 3) div 2) q v;
       if err \<noteq> NO_ERROR then Some (err, q, v) else place_object E val nm q v } }"
  unfolding write_object_def place_object_def by simp

lemma write_object_appends:
  assumes val: "flat_ok val"
  shows "appends E (write_object E val nm) (flat_bytes val) (object_at val nm)"
  unfolding appends_def
proof (intro allI impI)
  fix p w
  assume A: "appending p" and fds: "m_allow_fds p" and "m_data_size p + length (flat_bytes val) \<le> LIMIT"
  then have L: "m_data_size p + sizeof_flat \<le> LIMIT" by simp
  obtain err q v where r: "make_room E sizeof_flat p w = Some (err, q, v)" and k: "pw_refs v = pw_refs w" and e: "enlarged p q"
    and ok: "err = NO_ERROR \<Longrightarrow> m_data_size p + sizeof_flat \<le> m_data_capacity q"
    and gen: "generous E \<Longrightarrow> err = NO_ERROR \<and> m_error q = m_error p"
    using make_room_ok [OF A L, of E w] by blast
  have gq: "grown p [] [] q" and Aq: "appending q" and fq: "m_allow_fds q" and sz: "m_data_size q = m_data_size p"
    and os: "m_objects_size q = m_objects_size p" "m_objects_capacity q = m_objects_capacity p"
    using e grown_size [OF _ A, of "[]" "[]" q] fds by (auto simp: enlarged_def grown_def)
  have o: "others E q v = others E p w" by (rule others_grown [OF A gq k])
  show "promised E (flat_bytes val) (object_at val nm) p w (write_object E val nm p w)"
  proof (cases "err = NO_ERROR")
    case False
    then have "\<not> lucky E p" using gen by (auto simp: lucky_def)
    then show ?thesis using r False promised_partly [OF partly_none gq o False] by (simp add: write_object_eq)
  next
    case True
    have put: "promised E (flat_bytes val) (object_at val nm) p w (place_object E val nm u x)"
      if g: "grown p [] [] u" and k: "pw_refs x = pw_refs w" and room: "m_data_size p + sizeof_flat \<le> m_data_capacity u"
        and free: "m_objects_size u < m_objects_capacity u" and er: "lucky E p \<Longrightarrow> m_error u = NO_ERROR" for u x
    proof -
      have "appending u" and "m_allow_fds u" and "m_data_size u = m_data_size p"
        using g fds grown_size [OF g A] by (simp_all add: grown_def)
      then obtain z y where z: "place_object E val nm u x = Some (NO_ERROR, z, y)" and gz: "grown u (flat_bytes val) (object_at val nm) z"
        and o: "others E z y = others E u x" and ez: "m_error z = m_error u" using place_object_ok [of u val E nm x] room L free val by auto
      show ?thesis using grown_trans [OF A g gz] o others_grown [OF A g k] er ez by (simp add: z promised_grown)
    qed
    show ?thesis
    proof (cases "m_objects_size p < m_objects_capacity p")
      case enough: True
      then have "write_object E val nm p w = place_object E val nm q v" using r True by (simp add: write_object_eq)
      then show ?thesis using put [OF gq k] ok [OF True] enough os gen by (simp add: lucky_def)
    next
      case full: False
      have "16 * length (offsets q) \<le> m_data_size q"
        using Aq apart_room [of 0 "offsets q" "m_data_size q"] by (simp add: appending_def parcel_ok_def)
      then have "m_objects_size q \<le> 0x4000000" using Aq L sz by (simp add: offsets_length appending_def LIMIT_def)
      then have n: "szt 4 ((m_objects_size q + 2) * 3) div 2 = (m_objects_size q + 2) * 3 div 2" by (rule more_objects_size)
      have "m_data_size q \<le> LIMIT" and "m_objects_capacity q \<le> m_objects_size q" using L sz full os by simp_all
      then obtain e u x where m: "more_objects E ((m_objects_size q + 2) * 3 div 2) q v = Some (e, u, x)" and kx: "pw_refs x = pw_refs v"
        and gu: "grown q [] [] u" and c: "m_data_capacity u = m_data_capacity q" "e = NO_ERROR \<Longrightarrow> m_objects_size u < m_objects_capacity u"
        and gen': "generous E \<longrightarrow> e = NO_ERROR" "m_error u = m_error q"
        using more_objects_ok [OF Aq refl, of E v] by blast
      have g: "grown p [] [] u" using grown_trans [OF A gq gu] by simp
      have w: "write_object E val nm p w = (if e \<noteq> NO_ERROR then Some (e, u, x) else place_object E val nm u x)"
        using r True full m n by (simp add: write_object_eq)
      show ?thesis
      proof (cases "e = NO_ERROR")
        case t: True
        then show ?thesis using put [OF g] kx k ok [OF True] c gen gen' by (simp add: w lucky_def)
      next
        case False
        then have "\<not> lucky E p" using gen' by (auto simp: lucky_def)
        then show ?thesis using promised_partly [OF partly_none g others_grown [OF A g] False] kx k False by (simp add: w)
      qed
    qed
  qed
qed

text \<open>
  Runs of writes, what they append, and what happens to the references when the parcel is freed.
\<close>

section \<open>Items\<close>

datatype parcel_item =
    Int32 int | Int64 int | Float nat | Double nat nat | Int_Ptr nat | No_Exception
  | Raw "byte list" | C_String "byte list" | String8 "byte list" | String16 "nat list option"
  | Strong ibinder | Weak "ibinder option" | File int bool

fun write_item :: "parcel_env \<Rightarrow> parcel_item \<Rightarrow> parcel \<Rightarrow> process \<Rightarrow> (int \<times> parcel \<times> process) option" where
  "write_item E (Int32 v) = write_int32 E v"
| "write_item E (Int64 v) = write_int64 E v"
| "write_item E (Float v) = write_float E v"
| "write_item E (Double lo hi) = write_double E lo hi"
| "write_item E (Int_Ptr v) = write_int_ptr E v"
| "write_item E No_Exception = write_no_exception E"
| "write_item E (Raw bs) = parcel_write E bs"
| "write_item E (C_String str) = write_c_string E str"
| "write_item E (String8 str) = write_string8 E str"
| "write_item E (String16 str) = write_string16 E str"
| "write_item E (Strong b) = flatten_binder E b"
| "write_item E (Weak b) = flatten_weak_binder E b"
| "write_item E (File fd own) = write_file_descriptor E fd own"

fun write_items :: "parcel_env \<Rightarrow> parcel_item list \<Rightarrow> parcel \<Rightarrow> process \<Rightarrow> (int \<times> parcel \<times> process) option" where
  "write_items E [] p w = Some (NO_ERROR, p, w)"
| "write_items E (it # its) p w = then_write (write_item E it) (write_items E its) p w"

definition strong_flat :: "ibinder \<Rightarrow> flat_binder" where
  "strong_flat b = (case b of
       Local_Binder rc obj \<Rightarrow> \<lparr>f_type = BINDER_TYPE_BINDER, f_flags = FLAT_FLAGS, f_handle = rc, f_cookie = obj\<rparr>
     | Proxy_Binder h \<Rightarrow> \<lparr>f_type = BINDER_TYPE_HANDLE, f_flags = FLAT_FLAGS, f_handle = h, f_cookie = 0\<rparr>
     | Odd_Binder \<Rightarrow> \<lparr>f_type = BINDER_TYPE_HANDLE, f_flags = FLAT_FLAGS, f_handle = 0, f_cookie = 0\<rparr>
     | No_Binder \<Rightarrow> \<lparr>f_type = BINDER_TYPE_BINDER, f_flags = FLAT_FLAGS, f_handle = 0, f_cookie = 0\<rparr>)"

definition weak_flat :: "ibinder option \<Rightarrow> flat_binder" where
  "weak_flat b = (case b of
       Some (Local_Binder rc obj) \<Rightarrow> \<lparr>f_type = BINDER_TYPE_WEAK_BINDER, f_flags = FLAT_FLAGS, f_handle = rc, f_cookie = obj\<rparr>
     | Some (Proxy_Binder h) \<Rightarrow> \<lparr>f_type = BINDER_TYPE_WEAK_HANDLE, f_flags = FLAT_FLAGS, f_handle = h, f_cookie = 0\<rparr>
     | Some Odd_Binder \<Rightarrow> \<lparr>f_type = BINDER_TYPE_WEAK_HANDLE, f_flags = FLAT_FLAGS, f_handle = 0, f_cookie = 0\<rparr>
     | _ \<Rightarrow> \<lparr>f_type = BINDER_TYPE_BINDER, f_flags = FLAT_FLAGS, f_handle = 0, f_cookie = 0\<rparr>)"

definition file_flat :: "int \<Rightarrow> bool \<Rightarrow> flat_binder" where
  "file_flat fd own = \<lparr>f_type = BINDER_TYPE_FD, f_flags = FLAT_FLAGS, f_handle = word_of fd, f_cookie = (if own then 1 else 0)\<rparr>"

lemma flatten_eqs: "flatten_binder E b = write_object E (strong_flat b) False"
  "flatten_weak_binder E wb = write_object E (weak_flat wb) False"
  "write_file_descriptor E fd own = write_object E (file_flat fd own) True"
  by (simp_all add: flatten_binder_def strong_flat_def flatten_weak_binder_def weak_flat_def write_file_descriptor_def file_flat_def)

text \<open>The bytes of an item, and where in them there is an object.\<close>

fun item_bytes :: "parcel_item \<Rightarrow> byte list" where
  "item_bytes (Int32 v) = word_bytes v"
| "item_bytes (Int64 v) = long_bytes v"
| "item_bytes (Float v) = le_bytes v"
| "item_bytes (Double lo hi) = le_bytes lo @ le_bytes hi"
| "item_bytes (Int_Ptr v) = le_bytes v"
| "item_bytes No_Exception = word_bytes 0"
| "item_bytes (Raw bs) = padded_bytes bs"
| "item_bytes (C_String str) = padded_bytes (str @ [0])"
| "item_bytes (String8 str) = word_bytes (int (length str)) @ (if str = [] then [] else padded_bytes (str @ [0]))"
| "item_bytes (String16 str) = (case str of None \<Rightarrow> word_bytes (- 1)
     | Some us \<Rightarrow> word_bytes (int (length us)) @ padded_bytes (units_bytes us @ le_bytes16 0))"
| "item_bytes (Strong b) = flat_bytes (strong_flat b)"
| "item_bytes (Weak b) = flat_bytes (weak_flat b)"
| "item_bytes (File fd own) = flat_bytes (file_flat fd own)"

fun item_objects :: "parcel_item \<Rightarrow> nat list" where
  "item_objects (Strong b) = object_at (strong_flat b) False"
| "item_objects (Weak b) = object_at (weak_flat b) False"
| "item_objects (File fd own) = [0]"
| "item_objects _ = []"

fun items_objects :: "parcel_item list \<Rightarrow> nat list" where
  "items_objects [] = []"
| "items_objects (it # its) = item_objects it @ map (\<lambda>x. length (item_bytes it) + x) (items_objects its)"

text \<open>Pointers and handles have 32 bits.\<close>

fun binder_fits :: "ibinder \<Rightarrow> bool" where
  "binder_fits (Local_Binder rc obj) \<longleftrightarrow> rc < 2 ^ 32 \<and> obj < 2 ^ 32"
| "binder_fits (Proxy_Binder h) \<longleftrightarrow> h < 2 ^ 32"
| "binder_fits _ \<longleftrightarrow> True"

fun parcel_item_fits :: "parcel_item \<Rightarrow> bool" where
  "parcel_item_fits (Strong b) \<longleftrightarrow> binder_fits b"
| "parcel_item_fits (Weak (Some b)) \<longleftrightarrow> binder_fits b"
| "parcel_item_fits _ \<longleftrightarrow> True"

lemma type_words: "BINDER_TYPE_BINDER = 0x73622a85" "BINDER_TYPE_WEAK_BINDER = 0x77622a85" "BINDER_TYPE_HANDLE = 0x73682a85"
  "BINDER_TYPE_WEAK_HANDLE = 0x77682a85" "BINDER_TYPE_FD = 0x66642a85" "FLAT_FLAGS = 0x17f"
  by (simp_all add: BINDER_TYPE_BINDER_def BINDER_TYPE_WEAK_BINDER_def BINDER_TYPE_HANDLE_def BINDER_TYPE_WEAK_HANDLE_def
      BINDER_TYPE_FD_def B_PACK_CHARS_def FLAT_FLAGS_def)

lemma word_of_less: "word_of v < 2 ^ 32"
proof -
  have "0 \<le> v mod 2 ^ 32" and "v mod 2 ^ 32 < 2 ^ 32" by simp_all
  then show ?thesis unfolding word_of_def by (simp add: nat_less_iff)
qed

lemma flats_ok: "binder_fits b \<Longrightarrow> flat_ok (strong_flat b)" "parcel_item_fits (Weak wb) \<Longrightarrow> flat_ok (weak_flat wb)" "flat_ok (file_flat fd own)"
  using word_of_less [of fd]
  by (auto simp: flat_ok_def strong_flat_def weak_flat_def file_flat_def type_words split: ibinder.splits option.splits)

lemma write_item_appends: "parcel_item_fits it \<Longrightarrow> appends E (write_item E it) (item_bytes it) (item_objects it)"
proof (cases it)
  case (Strong b)
  moreover assume "parcel_item_fits it"
  ultimately show ?thesis using write_object_appends [OF flats_ok(1), of b E False] by (simp add: flatten_eqs)
next
  case (Weak wb)
  moreover assume "parcel_item_fits it"
  ultimately show ?thesis using write_object_appends [OF flats_ok(2), of wb E False] by (simp add: flatten_eqs)
next
  case (File fd own)
  then show ?thesis using write_object_appends [OF flats_ok(3), of E fd own True] by (simp add: flatten_eqs object_at_def)
qed (simp_all add: write_int32_appends write_int64_def write_float_def write_double_def write_int_ptr_def write_no_exception_def
    write_aligned_appends parcel_write_appends write_c_string_def write_string8_appends [simplified] write_string16_appends)

lemma nothing_appends: "appends E (\<lambda>p w. Some (NO_ERROR, p, w)) [] []"
  by (auto simp: appends_def grown_refl lucky_def intro!: promised_grown)

lemma write_items_appends:
  "\<forall>it \<in> set its. parcel_item_fits it \<Longrightarrow> appends E (write_items E its) (concat (map item_bytes its)) (items_objects its)"
proof (induction its)
  case Nil
  have "write_items E [] = (\<lambda>p w. Some (NO_ERROR, p, w))" by (intro ext) simp
  then show ?case by (simp add: nothing_appends)
next
  case (Cons it its)
  have "write_items E (it # its) = then_write (write_item E it) (write_items E its)" by (intro ext) simp
  then show ?case using Cons then_appends [OF write_item_appends [of it E] Cons.IH] by simp
qed

section \<open>Freeing\<close>

lemma flat_at_contents:
  assumes "parcel_ok p" and "off + sizeof_flat \<le> m_data_size p"
  shows "flat_at (m_data p) off = Some (flat_in (contents p) off)"
proof (cases "m_data p")
  case (Block bs)
  have l: "m_data_size p \<le> length bs" using assms Block by (simp add: parcel_ok_def)
  have "take sizeof_flat (drop off (contents p)) = take sizeof_flat (drop off bs)"
    using assms(2) by (simp add: contents_def Block drop_take min_def)
  then show ?thesis using assms(2) l by (simp add: flat_at_def block_read_def Block flat_in_def Let_def)
qed (use assms in \<open>auto simp: parcel_ok_def sizeof_flat_def\<close>)

lemma object_index:
  assumes "parcel_ok p" and "i < m_objects_size p"
  shows "block_get (m_objects p) i = Some (offsets p ! i)" and "offsets p ! i + sizeof_flat \<le> m_data_size p"
proof -
  have l: "length (offsets p) = m_objects_size p" and a: "apart 0 (offsets p) (m_data_size p)"
    using assms(1) by (simp_all add: offsets_length parcel_ok_def)
  show "block_get (m_objects p) i = Some (offsets p ! i)"
    using assms by (auto simp: parcel_ok_def block_get_def offsets_def load_at_def split: block.splits)
  show "offsets p ! i + sizeof_flat \<le> m_data_size p" using apart_mem [OF a, of "offsets p ! i"] assms(2) l by simp
qed

lemma release_objects_loop_ok:
  assumes "parcel_ok p" and "n \<le> m_objects_size p"
  shows "\<exists>v. release_objects_loop E (m_data p) (m_objects p) n w = Some v
    \<and> (\<forall>k. pw_refs v k = pw_refs w k - refs_held E (contents p) (take n (offsets p)) k)"
  using assms(2)
proof (induction n arbitrary: w)
  case 0
  then show ?case by (simp add: refs_held_def)
next
  case (Suc n)
  let ?f = "flat_in (contents p) (offsets p ! n)"
  have "block_get (m_objects p) n = Some (offsets p ! n)" and "flat_at (m_data p) (offsets p ! n) = Some ?f"
    using object_index [OF assms(1), of n] flat_at_contents [OF assms(1)] Suc.prems by simp_all
  moreover obtain v where "release_objects_loop E (m_data p) (m_objects p) n (release_object_ref E ?f w) = Some v"
    and "\<forall>k. pw_refs v k = pw_refs (release_object_ref E ?f w) k - refs_held E (contents p) (take n (offsets p)) k"
    using Suc.IH [of "release_object_ref E ?f w"] Suc.prems by auto
  moreover have "take (Suc n) (offsets p) = take n (offsets p) @ [offsets p ! n]"
    using Suc.prems offsets_length [OF assms(1)] by (simp add: take_Suc_conv_app_nth)
  ultimately show ?case by (simp add: refs_held_append release_counts) (simp add: refs_held_def)
qed

lemma free_data_ok:
  assumes "parcel_ok p" and "m_owner p = None"
  shows "\<exists>v. free_data E p w = Some (init_state, v) \<and> pw_refs v = others E p w"
proof -
  obtain v where v: "release_objects_loop E (m_data p) (m_objects p) (m_objects_size p) w = Some v"
    and k: "\<forall>k. pw_refs v k = pw_refs w k - refs_held E (contents p) (take (m_objects_size p) (offsets p)) k"
    using release_objects_loop_ok [OF assms(1), of "m_objects_size p" E w] by blast
  have "m_data p \<noteq> Freed" and "m_objects p \<noteq> Freed" using assms(1) by (auto simp: parcel_ok_def)
  then have "free_data E p w = Some (init_state, v)" using v by (simp add: free_data_def free_data_no_init_def assms(2) release_objects_def)
  moreover have "pw_refs v = others E p w" using k offsets_length [OF assms(1)] by (intro ext) (simp add: others_def)
  ultimately show ?thesis by blast
qed

section \<open>The driver's check\<close>

lemma offsets_pass:
  assumes "appending p" and "ptr_bytes K = 4" and "m_data_size p \<le> LIMIT" and "x \<in> set (offsets p)"
  shows "\<not> bad_offset K x (m_data_size p)"
proof -
  have "x + 16 \<le> m_data_size p" using apart_mem [of 0 "offsets p" "m_data_size p" x] assms(1,4) by (simp add: appending_def parcel_ok_def sizeof_flat_def)
  moreover have "4 dvd x" using assms(1,4) by (simp add: appending_def)
  ultimately show ?thesis using assms(2,3) by (auto simp: bad_offset_def sizeof_flat_def szsub_exact LIMIT_def)
qed

end
