(* ===== verification/Parcel_Roundtrip.thy ===== *)
theory Parcel_Roundtrip
  imports Parcel_Runs
begin

text \<open>
  The search of \<^verbatim>\<open>readObject\<close>: in ascending offsets it finds exactly what is there, whatever
  the hint.
\<close>

lemma search_forward_ok:
  assumes get: "\<forall>i < n. block_get objs i = Some (xs ! i)" and "opos + k = n - 1" and "opos < n"
  shows "\<exists>j. search_forward objs dpos opos k = Some j \<and> opos \<le> j \<and> j < n
    \<and> (\<forall>i. opos \<le> i \<and> i < j \<longrightarrow> xs ! i < dpos) \<and> (j = n - 1 \<or> dpos \<le> xs ! j)"
  using assms(2,3)
proof (induction k arbitrary: opos)
  case 0
  then show ?case by auto
next
  case (Suc k)
  show ?case
  proof (cases "xs ! opos < dpos")
    case True
    have "(opos + 1) + k = n - 1" and "opos + 1 < n" using Suc.prems by simp_all
    from Suc.IH [OF this] obtain j where j: "search_forward objs dpos (opos + 1) k = Some j" "opos + 1 \<le> j" "j < n"
      "\<forall>i. opos + 1 \<le> i \<and> i < j \<longrightarrow> xs ! i < dpos" "j = n - 1 \<or> dpos \<le> xs ! j" by blast
    have "xs ! i < dpos" if "opos \<le> i" "i < j" for i
    proof (cases "i = opos")
      case False
      then show ?thesis using j(4) that by simp
    qed (use True in simp)
    then show ?thesis using j get Suc.prems(2) True by (intro exI [of _ j]) auto
  next
    case False
    then show ?thesis using get Suc.prems(2) by (intro exI [of _ opos]) auto
  qed
qed

lemma search_backward_ok:
  assumes get: "\<forall>i < n. block_get objs i = Some (xs ! i)" and "opos < n"
  shows "\<exists>j. search_backward objs dpos opos = Some j \<and> j \<le> opos
    \<and> (\<forall>i. j < i \<and> i \<le> opos \<longrightarrow> dpos < xs ! i) \<and> (j = 0 \<or> xs ! j \<le> dpos)"
  using assms(2)
proof (induction opos)
  case (Suc opos)
  show ?case
  proof (cases "dpos < xs ! Suc opos")
    case True
    then obtain j where j: "search_backward objs dpos opos = Some j" "j \<le> opos"
      "\<forall>i. j < i \<and> i \<le> opos \<longrightarrow> dpos < xs ! i" "j = 0 \<or> xs ! j \<le> dpos"
      using Suc by auto
    have "dpos < xs ! i" if "j < i" "i \<le> Suc opos" for i
    proof (cases "i = Suc opos")
      case False
      then show ?thesis using j(3) that by simp
    qed (use True in simp)
    then show ?thesis using j get Suc.prems True by (intro exI [of _ j]) auto
  next
    case False
    then show ?thesis using get Suc.prems by (intro exI [of _ "Suc opos"]) auto
  qed
qed simp

lemma sorted_less: "sorted_wrt (<) xs \<Longrightarrow> i < j \<Longrightarrow> j < length xs \<Longrightarrow> xs ! i < xs ! j" for xs :: "nat list"
  by (rule sorted_wrt_nth_less)

lemma find_object_ok:
  fixes xs :: "nat list"
  assumes get: "\<forall>i < n. block_get objs i = Some (xs ! i)" and n: "n = length xs"
  shows "\<exists>r. find_object objs n hint dpos = Some r \<and>
    (case r of Some i \<Rightarrow> i < n \<and> xs ! i = dpos | None \<Rightarrow> sorted_wrt (<) xs \<longrightarrow> dpos \<notin> set xs)"
proof (cases "n = 0")
  case True
  then show ?thesis using n by (simp add: find_object_def)
next
  case nz: False
  define start where "start = (if hint < n then hint else n - 1)"
  have "\<exists>j. (if hint < n then search_forward objs dpos hint (n - 1 - hint) else Some (n - 1)) = Some j \<and> start \<le> j \<and> j < n
    \<and> (\<forall>i. start \<le> i \<and> i < j \<longrightarrow> xs ! i < dpos) \<and> (j = n - 1 \<or> dpos \<le> xs ! j)"
  proof (cases "hint < n")
    case True
    then have "hint + (n - 1 - hint) = n - 1" by simp
    from search_forward_ok [OF get this True] show ?thesis using True by (simp only: start_def if_True)
  next
    case False
    then show ?thesis using nz by (simp add: start_def)
  qed
  then obtain j where j: "(if hint < n then search_forward objs dpos hint (n - 1 - hint) else Some (n - 1)) = Some j"
    "start \<le> j" "j < n" "\<forall>i. start \<le> i \<and> i < j \<longrightarrow> xs ! i < dpos" "j = n - 1 \<or> dpos \<le> xs ! j" by (elim exE conjE)
  obtain l where l: "search_backward objs dpos j = Some l" "l \<le> j" "\<forall>i. l < i \<and> i \<le> j \<longrightarrow> dpos < xs ! i" "l = 0 \<or> xs ! l \<le> dpos"
    using search_backward_ok [OF get j(3), of dpos] by (elim exE conjE)
  have gj: "block_get objs j = Some (xs ! j)" and gl: "block_get objs l = Some (xs ! l)" using get j(3) l(2) by simp_all
  have r: "find_object objs n hint dpos = Some (if xs ! j = dpos then Some j else if xs ! l = dpos then Some l else None)"
    unfolding find_object_def j(1) using nz l(1) gj gl by simp
  have "xs ! j = dpos \<or> xs ! l = dpos" if mem: "dpos \<in> set xs" and s: "sorted_wrt (<) xs"
  proof -
    obtain i where i: "i < n" "xs ! i = dpos" using mem n by (auto simp: in_set_conv_nth)
    have mono: "a < b \<Longrightarrow> b < n \<Longrightarrow> xs ! a < xs ! b" for a b using sorted_less [OF s] n by blast
    consider "j = i" | "j < i" | "i < j" by linarith
    then show ?thesis
    proof cases
      case 2
      from mono [OF this i(1)] have "xs ! j < dpos" using i(2) by simp
      moreover have "j \<noteq> n - 1" using 2 i(1) by simp
      ultimately show ?thesis using j(5) by simp
    next
      case 3
      consider "l = i" | "l < i" | "i < l" by linarith
      then show ?thesis
      proof cases
        case 2
        then have "dpos < xs ! i" using l(3) 3 by (meson less_imp_le_nat)
        then show ?thesis using i(2) by simp
      next
        case far: 3
        have "l < n" using l(2) j(3) by simp
        from mono [OF far this] have "dpos < xs ! l" using i(2) by simp
        then show ?thesis using l(4) far by simp
      qed (use i in simp)
    qed (use i in simp)
  qed
  then have no: "xs ! j \<noteq> dpos \<Longrightarrow> xs ! l \<noteq> dpos \<Longrightarrow> sorted_wrt (<) xs \<longrightarrow> dpos \<notin> set xs" by blast
  have ln: "l < n" using l(2) j(3) by simp
  show ?thesis unfolding r using no j(3) ln by simp
qed

lemma apart_sorted: "apart lo xs n \<Longrightarrow> sorted_wrt (<) xs"
proof (induction xs arbitrary: lo)
  case (Cons x xs)
  then have "sorted_wrt (<) xs" and a: "apart (x + sizeof_flat) xs n" by auto
  moreover have "x < y" if "y \<in> set xs" for y using apart_mem [OF a that] by (simp add: sizeof_flat_def)
  ultimately show ?case by simp
qed simp

lemma find_in_parcel:
  assumes "parcel_ok p"
  shows "\<exists>r. find_object (m_objects p) (m_objects_size p) hint dpos = Some r \<and> (r \<noteq> None \<longleftrightarrow> dpos \<in> set (offsets p))"
proof -
  have n: "m_objects_size p = length (offsets p)" using assms by (simp add: offsets_length)
  have s: "sorted_wrt (<) (offsets p)" using assms apart_sorted by (auto simp: parcel_ok_def)
  obtain r where r: "find_object (m_objects p) (m_objects_size p) hint dpos = Some r"
    and e: "case r of Some i \<Rightarrow> i < m_objects_size p \<and> offsets p ! i = dpos | None \<Rightarrow> sorted_wrt (<) (offsets p) \<longrightarrow> dpos \<notin> set (offsets p)"
    using find_object_ok [OF _ n, of "m_objects p" hint dpos] object_index(1) [OF assms] by blast
  then show ?thesis using n s by (cases r) auto
qed

text \<open>What was written comes back when it is read.\<close>

section \<open>Numbers in memory\<close>

lemma word_in_bytes: "word_in (le_bytes v) = v mod 2 ^ 32"
  using get_le_bytes [of "[]" v "[]"] by (simp add: word_in_def)

lemma get_pair: "get_u32 (\<lambda>i. (le_bytes a @ le_bytes b) ! i) 0 = a mod 2 ^ 32" "get_u32 (\<lambda>i. (le_bytes a @ le_bytes b) ! i) 4 = b mod 2 ^ 32"
  using get_le_bytes [of "[]" a "le_bytes b"] get_le_bytes [of "le_bytes a" b "[]"] by simp_all

lemma int_of_word_of: "- (2 ^ 31) \<le> v \<Longrightarrow> v < 2 ^ 31 \<Longrightarrow> int_of (word_of v) = v"
proof (cases "0 \<le> v")
  case True
  moreover assume "v < 2 ^ 31"
  ultimately have "v mod 2 ^ 32 = v" by (simp add: mod_pos_pos_trivial)
  then show ?thesis using True \<open>v < 2 ^ 31\<close> by (simp add: int_of_def word_of_def)
next
  case False
  moreover assume "- (2 ^ 31) \<le> v"
  ultimately have "v mod 2 ^ 32 = v + 2 ^ 32" using mod_pos_pos_trivial [of "v + 2 ^ 32" "2 ^ 32"] by simp
  then show ?thesis using False \<open>- (2 ^ 31) \<le> v\<close> by (simp add: int_of_def word_of_def)
qed

lemma word_of_mod: "word_of v mod 2 ^ 32 = word_of v"
  using word_of_less by simp

lemma int_word_of: "int (word_of v) = v mod 2 ^ 32"
  by (simp add: word_of_def)

lemma long_in_bytes: "- (2 ^ 63) \<le> v \<Longrightarrow> v < 2 ^ 63 \<Longrightarrow> long_in (long_bytes v) = v"
proof -
  assume "- (2 ^ 63) \<le> v" and "v < 2 ^ 63"
  moreover have "v div 2 ^ 32 * 2 ^ 32 + v mod 2 ^ 32 = v" and "0 \<le> v mod 2 ^ 32" and "v mod 2 ^ 32 < 2 ^ 32" by simp_all
  ultimately have "- (2 ^ 31) \<le> v div 2 ^ 32" and "v div 2 ^ 32 < 2 ^ 31" by simp_all
  then have "long_in (long_bytes v) = (v div 2 ^ 32) * 2 ^ 32 + v mod 2 ^ 32"
    by (simp only: long_in_def long_bytes_def word_bytes_def get_pair word_of_mod int_of_word_of int_word_of)
  then show ?thesis by simp
qed

lemma units_of_bytes: "\<forall>u \<in> set us. u < 2 ^ 16 \<Longrightarrow> units_of (units_bytes us) = us"
proof (induction us)
  case (Cons u us)
  have "u div 256 < 256" using Cons.prems by (intro less_mult_imp_div_less) simp
  then have "u mod 256 + 256 * (u div 256 mod 256) = u" by simp
  then have "le16 (word_of_nat u) (word_of_nat (u div 256)) = u" by (simp only: le16_def unat_byte)
  then show ?case using Cons by (simp add: units_bytes_def le_bytes16_def)
qed (simp add: units_bytes_def)

section \<open>Reading at a place\<close>

definition placed :: "parcel \<Rightarrow> nat \<Rightarrow> nat \<Rightarrow> parcel" where
  "placed q a h = q\<lparr>m_data_pos := a, m_next_object_hint := h\<rparr>"

lemma placed_simps [simp]: "m_data (placed q a h) = m_data q" "m_data_size (placed q a h) = m_data_size q"
  "m_data_pos (placed q a h) = a" "m_next_object_hint (placed q a h) = h" "m_objects (placed q a h) = m_objects q"
  "m_objects_size (placed q a h) = m_objects_size q" "(placed q a h)\<lparr>m_data_pos := b\<rparr> = placed q b h"
  "(placed q a h)\<lparr>m_next_object_hint := g\<rparr> = placed q a g"
  by (simp_all add: placed_def)

definition holds :: "parcel \<Rightarrow> nat \<Rightarrow> byte list \<Rightarrow> bool" where
  "holds q a bs \<longleftrightarrow> parcel_ok q \<and> m_data_size q \<le> LIMIT \<and> a + length bs \<le> m_data_size q \<and> take (length bs) (drop a (contents q)) = bs"

lemma holds_append: "holds q a (bs @ cs) \<longleftrightarrow> holds q a bs \<and> holds q (a + length bs) cs"
proof
  assume h: "holds q a (bs @ cs)"
  then have t: "take (length bs + length cs) (drop a (contents q)) = bs @ cs" by (simp add: holds_def)
  have "take (length bs) (drop a (contents q)) = take (length bs) (take (length bs + length cs) (drop a (contents q)))" by (simp add: min_def)
  moreover have "take (length cs) (drop (a + length bs) (contents q)) = drop (length bs) (take (length bs + length cs) (drop a (contents q)))"
    by (simp add: drop_take add.commute)
  ultimately show "holds q a bs \<and> holds q (a + length bs) cs" using h unfolding t by (simp add: holds_def)
next
  assume h: "holds q a bs \<and> holds q (a + length bs) cs"
  then have "take (length bs + length cs) (drop a (contents q)) = bs @ cs"
    by (simp add: take_add holds_def add.commute)
  then show "holds q a (bs @ cs)" using h by (simp add: holds_def)
qed

lemma block_read_holds: "holds q a bs \<Longrightarrow> bs \<noteq> [] \<Longrightarrow> block_read (m_data q) a (length bs) = Some bs"
proof (cases "m_data q")
  case (Block d)
  assume h: "holds q a bs"
  then have l: "m_data_size q \<le> length d" using Block by (simp add: holds_def parcel_ok_def)
  have "length bs \<le> m_data_size q - a" using h by (auto simp: holds_def)
  then have "take (length bs) (drop a (contents q)) = take (length bs) (drop a d)"
    by (simp add: contents_def Block drop_take min_def)
  then show ?thesis using h l by (simp add: block_read_def Block holds_def)
qed (auto simp: holds_def parcel_ok_def)

lemma memory_at_holds: "holds q a bs \<Longrightarrow> memory_at (m_data q) a (length bs) = Some bs"
  using block_read_holds by (cases "bs = []") (simp_all add: memory_at_def)

lemma holds_limit: "holds q a bs \<Longrightarrow> szt 4 (a + length bs) = a + length bs"
  by (simp add: holds_def szt_id LIMIT_def)

lemma read_aligned_holds:
  assumes "holds q a bs" and "bs \<noteq> []"
  shows "read_aligned (length bs) get d (placed q a h) = Some (NO_ERROR, get bs, placed q (a + length bs) h)"
  using block_read_holds [OF assms] holds_limit [OF assms(1)] assms(1) by (simp add: read_aligned_def holds_def)

lemma read_int32_holds:
  assumes "holds q a (word_bytes v)" and "- (2 ^ 31) \<le> v" and "v < 2 ^ 31"
  shows "read_int32 (placed q a h) = Some (NO_ERROR, v, placed q (a + 4) h)"
proof -
  have "word_bytes v \<noteq> []" by (metis word_bytes_length list.size(3) zero_neq_numeral)
  then show ?thesis using read_aligned_holds [OF assms(1), of "\<lambda>bs. int_of (word_in bs)" 0 h] assms(2,3)
    by (simp add: read_int32_def word_bytes_def word_in_bytes word_of_mod [simplified] int_of_word_of)
qed

lemma padded_length: "length (padded_bytes bs) = length bs + padding (length bs)"
  by (simp add: padded_bytes_def)

lemma holds_padded: "holds q a (padded_bytes bs) \<Longrightarrow> holds q a bs" 
  unfolding padded_bytes_def holds_append by simp

lemma enough_holds:
  assumes "holds q a (padded_bytes bs)"
  shows "enough_data (length bs) (placed q a h)" and "szt 4 (a + PAD_SIZE (length bs)) = a + length (padded_bytes bs)"
proof -
  have "length bs + padding (length bs) \<le> LIMIT" and fit: "a + length (padded_bytes bs) \<le> m_data_size q"
    using assms by (simp_all add: holds_def padded_length)
  then have P: "PAD_SIZE (length bs) = length (padded_bytes bs)" by (simp add: PAD_SIZE_eq padded_length)
  show e: "szt 4 (a + PAD_SIZE (length bs)) = a + length (padded_bytes bs)" unfolding P by (rule holds_limit [OF assms])
  show "enough_data (length bs) (placed q a h)" using fit by (simp add: enough_data_def e)
qed

lemma parcel_read_holds:
  assumes "holds q a (padded_bytes bs)"
  shows "parcel_read (length bs) (placed q a h) = Some (NO_ERROR, bs, placed q (a + length (padded_bytes bs)) h)"
  using enough_holds [OF assms] memory_at_holds [OF holds_padded [OF assms]] by (simp add: parcel_read_def)

lemma read_inplace_holds:
  assumes "holds q a (padded_bytes bs)" and "bs \<noteq> []"
  shows "read_inplace (length bs) (placed q a h) = (Some a, placed q (a + length (padded_bytes bs)) h)"
proof -
  have "m_data q \<noteq> Null" using block_read_holds [OF holds_padded [OF assms(1)] assms(2)] by (auto simp: block_read_def)
  then show ?thesis using enough_holds [OF assms(1)] by (simp add: read_inplace_def)
qed

section \<open>Strings\<close>

lemma shared_alloc_ok: "generous E \<Longrightarrow> n \<le> LIMIT \<Longrightarrow> shared_alloc E n w = Some (Some n, pw_tick w)"
  by (simp add: shared_alloc_def generous_def LIMIT_def szt_id)

lemma find_zero_ok:
  assumes "\<forall>i < length bs. block_get b (a + i) = Some (bs ! i)" and "block_get b (a + length bs) = Some 0"
    and "0 \<notin> set bs" and "length bs < n"
  shows "find_zero b a n = Some (Some (a + length bs))"
  using assms
proof (induction bs arbitrary: a n)
  case Nil
  then show ?case by (cases n) simp_all
next
  case (Cons c cs)
  obtain m where n: "n = Suc m" using Cons.prems(4) by (cases n) simp_all
  have "block_get b a = Some c" and "c \<noteq> 0" using Cons.prems(1,3) by force+
  moreover have "\<forall>i < length cs. block_get b (a + 1 + i) = Some (cs ! i)"
    using Cons.prems(1) by (metis Suc_less_eq add.assoc length_Cons nth_Cons_Suc plus_1_eq_Suc)
  ultimately show ?case using Cons.IH [of "a + 1" m] Cons.prems(2-4) by (simp add: n)
qed

lemma block_get_holds: "holds q a bs \<Longrightarrow> i < length bs \<Longrightarrow> block_get (m_data q) (a + i) = Some (bs ! i)"
proof (cases "m_data q")
  case (Block d)
  assume h: "holds q a bs" and i: "i < length bs"
  then have "bs \<noteq> []" by auto
  then have "take (length bs) (drop a d) = bs" and "a + length bs \<le> length d"
    using block_read_holds [OF h] by (auto simp: block_read_def Block split: if_splits)
  then have "bs ! i = d ! (a + i)" and "a + i < length d" using i by (metis nth_drop nth_take le_add1 order.trans, simp)
  then show ?thesis by (simp add: block_get_def Block load_at_def)
qed (auto simp: holds_def parcel_ok_def)

text \<open>Reading the kinds of items that were written, one after the other.\<close>

datatype reading =
    R_Int int | R_Word nat | R_Words nat nat | R_Bytes "byte list" | R_Units "nat list" | R_Binder read_binder | R_File int
  | R_Failed int

text \<open>The string a pointer into the data leads to.\<close>

definition string_at :: "parcel \<Rightarrow> nat \<Rightarrow> byte list option" where
  "string_at p d = do {
     e \<leftarrow> find_zero (m_data p) d (m_data_size p - d);
     case e of None \<Rightarrow> None | Some e \<Rightarrow> memory_at (m_data p) d (e - d) }"

text \<open>The read that fits an item; of the item it uses the kind, and the length for raw data.\<close>

fun get_item :: "parcel_env \<Rightarrow> parcel_item \<Rightarrow> parcel \<Rightarrow> process \<Rightarrow> (reading \<times> parcel \<times> process) option" where
  "get_item E (Int32 _) p w = do { (err, v, p) \<leftarrow> read_int32 p; Some (if err = NO_ERROR then R_Int v else R_Failed err, p, w) }"
| "get_item E (Int64 _) p w = do { (err, v, p) \<leftarrow> read_int64 p; Some (if err = NO_ERROR then R_Int v else R_Failed err, p, w) }"
| "get_item E (Float _) p w = do { (err, v, p) \<leftarrow> read_float p; Some (if err = NO_ERROR then R_Word v else R_Failed err, p, w) }"
| "get_item E (Double _ _) p w = do { (err, v, p) \<leftarrow> read_double p;
     Some (if err = NO_ERROR then R_Words (fst v) (snd v) else R_Failed err, p, w) }"
| "get_item E (Int_Ptr _) p w = do { (err, v, p) \<leftarrow> read_int_ptr p; Some (if err = NO_ERROR then R_Word v else R_Failed err, p, w) }"
| "get_item E No_Exception p w = do { (v, p) \<leftarrow> read_exception_code p; Some (R_Int v, p, w) }"
| "get_item E (Raw bs) p w = do { (err, v, p) \<leftarrow> parcel_read (length bs) p; Some (if err = NO_ERROR then R_Bytes v else R_Failed err, p, w) }"
| "get_item E (C_String _) p w = do {
     (str, p) \<leftarrow> read_c_string p;
     case str of
       None \<Rightarrow> Some (R_Failed NOT_ENOUGH_DATA, p, w)
     | Some d \<Rightarrow> do { s \<leftarrow> string_at p d; Some (R_Bytes s, p, w) } }"
| "get_item E (String8 _) p w = do { (s, p, w) \<leftarrow> read_string8 E p w; Some (R_Bytes s, p, w) }"
| "get_item E (String16 _) p w = do { (s, p, w) \<leftarrow> read_string16 E p w; Some (R_Units s, p, w) }"
| "get_item E (Strong _) p w = do { (err, b, p) \<leftarrow> unflatten_binder E p; Some (if err = NO_ERROR then R_Binder b else R_Failed err, p, w) }"
| "get_item E (Weak _) p w = do { (err, b, p) \<leftarrow> unflatten_weak_binder E p; Some (if err = NO_ERROR then R_Binder b else R_Failed err, p, w) }"
| "get_item E (File _ _) p w = do { (fd, p) \<leftarrow> read_file_descriptor p; Some (R_File fd, p, w) }"

fun get_items :: "parcel_env \<Rightarrow> parcel_item list \<Rightarrow> parcel \<Rightarrow> process \<Rightarrow> (reading list \<times> parcel \<times> process) option" where
  "get_items E [] p w = Some ([], p, w)"
| "get_items E (it # its) p w = do {
     (r, p, w) \<leftarrow> get_item E it p w;
     (rs, p, w) \<leftarrow> get_items E its p w;
     Some (r # rs, p, w) }"

text \<open>What a reader should get for an item.\<close>

fun binder_meaning :: "parcel_env \<Rightarrow> ibinder \<Rightarrow> read_binder" where
  "binder_meaning E No_Binder = Got_Null"
| "binder_meaning E (Local_Binder rc obj) = Got_Local obj"
| "binder_meaning E (Proxy_Binder h) = proxy_for E h"
| "binder_meaning E Odd_Binder = proxy_for E 0"

fun meaning :: "parcel_env \<Rightarrow> parcel_item \<Rightarrow> reading" where
  "meaning E (Int32 v) = R_Int v"
| "meaning E (Int64 v) = R_Int v"
| "meaning E (Float v) = R_Word v"
| "meaning E (Double lo hi) = R_Words lo hi"
| "meaning E (Int_Ptr v) = R_Word v"
| "meaning E No_Exception = R_Int 0"
| "meaning E (Raw bs) = R_Bytes bs"
| "meaning E (C_String str) = R_Bytes str"
| "meaning E (String8 str) = R_Bytes str"
| "meaning E (String16 str) = R_Units (case str of None \<Rightarrow> [] | Some us \<Rightarrow> us)"
| "meaning E (Strong b) = R_Binder (binder_meaning E b)"
| "meaning E (Weak b) = R_Binder (case b of None \<Rightarrow> Got_Null | Some (Local_Binder rc obj) \<Rightarrow> Got_Weak obj rc
     | Some b \<Rightarrow> binder_meaning E b)"
| "meaning E (File fd own) = R_File fd"

text \<open>
  Values in the range of their types; strings for C have no zero in them; a local object
  has an address and a reference counter.
\<close>

fun binder_valid :: "ibinder \<Rightarrow> bool" where
  "binder_valid (Local_Binder rc obj) \<longleftrightarrow> 0 < rc \<and> rc < 2 ^ 32 \<and> 0 < obj \<and> obj < 2 ^ 32"
| "binder_valid (Proxy_Binder h) \<longleftrightarrow> h < 2 ^ 32"
| "binder_valid _ \<longleftrightarrow> True"

fun item_valid :: "parcel_item \<Rightarrow> bool" where
  "item_valid (Int32 v) \<longleftrightarrow> - (2 ^ 31) \<le> v \<and> v < 2 ^ 31"
| "item_valid (Int64 v) \<longleftrightarrow> - (2 ^ 63) \<le> v \<and> v < 2 ^ 63"
| "item_valid (Float v) \<longleftrightarrow> v < 2 ^ 32"
| "item_valid (Double lo hi) \<longleftrightarrow> lo < 2 ^ 32 \<and> hi < 2 ^ 32"
| "item_valid (Int_Ptr v) \<longleftrightarrow> v < 2 ^ 32"
| "item_valid (C_String str) \<longleftrightarrow> 0 \<notin> set str"
| "item_valid (String16 (Some us)) \<longleftrightarrow> (\<forall>u \<in> set us. u < 2 ^ 16)"
| "item_valid (Strong b) \<longleftrightarrow> binder_valid b"
| "item_valid (Weak (Some b)) \<longleftrightarrow> binder_valid b"
| "item_valid (File fd own) \<longleftrightarrow> - (2 ^ 31) \<le> fd \<and> fd < 2 ^ 31"
| "item_valid _ \<longleftrightarrow> True"

lemma binder_valid_fits: "binder_valid b \<Longrightarrow> binder_fits b"
  by (cases b) simp_all

lemma item_valid_parcel_fits: "item_valid it \<Longrightarrow> parcel_item_fits it"
  by (induction it rule: parcel_item_fits.induct) (simp_all add: binder_valid_fits)

section \<open>One item\<close>

definition reads_as :: "parcel_env \<Rightarrow> parcel_item \<Rightarrow> parcel \<Rightarrow> nat \<Rightarrow> bool" where
  "reads_as E it q a \<longleftrightarrow> (\<forall>h v. \<exists>g u. get_item E it (placed q a h) v = Some (meaning E it, placed q (a + length (item_bytes it)) g, u))"

lemma placed_some [simp]: "\<exists>g. placed q a h = placed q a g"
  by blast

lemma reads_number:
  assumes "holds q a (item_bytes it)" and "item_valid it" and "it \<in> {Int32 v, Int64 v, Float n, Double n m, Int_Ptr n, No_Exception}"
  shows "reads_as E it q a"
proof -
  have ne: "le_bytes x \<noteq> []" for x by (simp add: le_bytes_def)
  have "reads_as E (Int32 v) q a" if "holds q a (word_bytes v)" and "item_valid (Int32 v)"
    using that read_int32_holds by (simp add: reads_as_def)
  moreover have "reads_as E (Int64 v) q a" if "holds q a (long_bytes v)" and "item_valid (Int64 v)"
    using that read_aligned_holds [OF that(1), of long_in 0] long_in_bytes [of v] ne
    by (simp add: reads_as_def read_int64_def) (simp add: long_bytes_def word_bytes_def)
  moreover have "reads_as E (Float n) q a \<and> reads_as E (Int_Ptr n) q a" if "holds q a (le_bytes n)" and "n < 2 ^ 32"
    using that read_aligned_holds [OF that(1) ne, of word_in 0] by (simp add: reads_as_def read_float_def read_int_ptr_def word_in_bytes)
  moreover have "reads_as E (Double n m) q a" if "holds q a (le_bytes n @ le_bytes m)" and "item_valid (Double n m)"
    using that read_aligned_holds [OF that(1), of "\<lambda>bs. (get_u32 (\<lambda>i. bs ! i) 0, get_u32 (\<lambda>i. bs ! i) 4)" "(0, 0)"] ne
    by (simp add: reads_as_def read_double_def get_pair)
  moreover have "reads_as E No_Exception q a" if "holds q a (word_bytes 0)"
    using that read_int32_holds [OF that] by (simp add: reads_as_def read_exception_code_def EX_HAS_REPLY_HEADER_def)
  ultimately show ?thesis using assms by auto
qed

lemma reads_raw: "holds q a (item_bytes (Raw bs)) \<Longrightarrow> reads_as E (Raw bs) q a"
  using parcel_read_holds by (simp add: reads_as_def)

lemma find_zero_holds:
  assumes "holds q a (str @ [0])" and "0 \<notin> set str" and "length str < n"
  shows "find_zero (m_data q) a n = Some (Some (a + length str))"
  using assms block_get_holds [OF assms(1)] by (intro find_zero_ok) (auto simp: nth_append)

lemma reads_c_string:
  assumes "holds q a (item_bytes (C_String str))" and v: "item_valid (C_String str)"
  shows "reads_as E (C_String str) q a"
proof -
  let ?bs = "str @ [0]"
  have P: "holds q a (padded_bytes ?bs)" and h: "holds q a ?bs" using assms(1) holds_padded by simp_all
  then have room: "a + length str < m_data_size q" and L: "m_data_size q \<le> LIMIT" by (simp_all add: holds_def)
  have avail: "szsub 4 (m_data_size q) a = m_data_size q - a" using room L by (simp add: szsub_exact LIMIT_def)
  have f: "find_zero (m_data q) a (m_data_size q - a) = Some (Some (a + length str))"
    using find_zero_holds [OF h] v room by simp
  have pad: "szt 4 (a + PAD_SIZE (Suc (length str))) = a + length (padded_bytes ?bs)"
    using enough_holds(2) [OF P] by simp
  have "memory_at (m_data q) a (length str) = Some str" using memory_at_holds h holds_append by blast
  then show ?thesis using room avail f pad
    by (simp add: reads_as_def read_c_string_def string_at_def)
qed

lemma reads_string8:
  assumes "holds q a (item_bytes (String8 str))" and "generous E"
  shows "reads_as E (String8 str) q a"
proof (cases "str = []")
  case True
  then show ?thesis using assms(1) read_int32_holds [of q a 0] by (simp add: reads_as_def read_string8_def)
next
  case False
  let ?bs = "str @ [0]"
  have h: "holds q a (word_bytes (int (length str)))" and P: "holds q (a + 4) (padded_bytes ?bs)"
    using assms(1) False by (simp_all add: holds_append)
  have L: "length ?bs \<le> LIMIT" using P by (simp add: holds_def padded_length)
  then have n: "int (length str) < 2 ^ 31" "int (length str) < INT32_MAX" by (simp_all add: LIMIT_def INT32_MAX_def)
  have i: "read_int32 (placed q a g) = Some (NO_ERROR, int (length str), placed q (a + 4) g)" for g
    using read_int32_holds [OF h _ n(1)] by simp
  have p: "read_inplace (Suc (length str)) (placed q (a + 4) g) = (Some (a + 4), placed q (a + 4 + length (padded_bytes ?bs)) g)" for g
    using read_inplace_holds [OF P, of g] by simp
  have "szt 4 (length str + 1) = length str + 1" using L by (simp add: szt_id LIMIT_def)
  moreover have "block_read (m_data q) (a + 4) (length str) = Some str"
    using holds_padded [OF P] False holds_append block_read_holds by blast
  ultimately have "string8_new E (m_data q) (a + 4) (length str) w = Some (str, pw_tick w)" for w
    using shared_alloc_ok [OF assms(2) L] False by (simp add: string8_new_def)
  then show ?thesis using False n i p by (simp add: reads_as_def read_string8_def add.assoc)
qed

lemma reads_string16:
  assumes "holds q a (item_bytes (String16 str))" and v: "item_valid (String16 str)" and "generous E"
  shows "reads_as E (String16 str) q a"
proof (cases str)
  case None
  then have "holds q a (word_bytes (- 1))" using assms(1) by simp
  then show ?thesis using None read_int32_holds [of q a "- 1"] by (simp add: reads_as_def read_string16_def read_string16_inplace_def)
next
  case (Some us)
  let ?bs = "units_bytes us @ le_bytes16 0"
  have h: "holds q a (word_bytes (int (length us)))" and P: "holds q (a + 4) (padded_bytes ?bs)"
    using assms(1) Some by (simp_all add: holds_append)
  have lb: "length ?bs = 2 * length us + 2" by (simp add: le_bytes16_def)
  have L: "2 * length us + 2 \<le> LIMIT" using P lb by (simp add: holds_def padded_length)
  then have n: "int (length us) < 2 ^ 31" "int (length us) < INT32_MAX" by (simp_all add: LIMIT_def INT32_MAX_def)
  have i: "read_int32 (placed q a g) = Some (NO_ERROR, int (length us), placed q (a + 4) g)" for g
    using read_int32_holds [OF h _ n(1)] by simp
  have p: "read_inplace (2 * length us + 2) (placed q (a + 4) g) = (Some (a + 4), placed q (a + 4 + length (padded_bytes ?bs)) g)" for g
    using read_inplace_holds [OF P, of g] lb by (metis length_0_conv not_add_less2 zero_less_numeral less_nat_zero_code)
  have t: "szt 4 ((length us + 1) * 2) = 2 * length us + 2" "szt 4 (length us + 1) = length us + 1" "szt 4 (length us * 2) = 2 * length us"
    using L by (simp_all add: szt_id LIMIT_def)
  have "memory_at (m_data q) (a + 4) (length (units_bytes us)) = Some (units_bytes us)"
    using holds_padded [OF P] holds_append memory_at_holds by blast
  then have "string16_new E (m_data q) (a + 4) (length us) w = Some (us, pw_tick w)" for w
    using shared_alloc_ok [OF assms(3) L] v Some t by (simp add: string16_new_def units_of_bytes)
  then show ?thesis using Some n i p t by (simp add: reads_as_def read_string16_def read_string16_inplace_def add.assoc)
qed

section \<open>Objects\<close>

lemma flat_at_holds:
  assumes "holds q a (flat_bytes f)" and "flat_ok f"
  shows "flat_at (m_data q) a = Some f"
proof -
  have "flat_bytes f \<noteq> []" by (simp add: flat_bytes_def le_bytes_def)
  then have "block_read (m_data q) a sizeof_flat = Some (flat_bytes f)" using block_read_holds [OF assms(1)] by simp
  moreover have "flat_in (flat_bytes f) 0 = f" using flat_in_bytes [OF assms(2), of "[]" "[]"] by simp
  ultimately show ?thesis by (simp add: flat_at_def flat_in_def Let_def)
qed

lemma read_object_holds:
  assumes h: "holds q a (flat_bytes f)" and f: "flat_ok f"
    and found: "a \<in> set (offsets q) \<or> \<not> nm \<and> f_cookie f = 0 \<and> f_handle f = 0"
  shows "\<exists>g. read_object nm (placed q a h) = Some (Some a, placed q (a + sizeof_flat) g)"
proof -
  have e: "szt 4 (a + sizeof_flat) = a + sizeof_flat" using holds_limit [OF h] by simp
  have ok: "parcel_ok q" and fit: "a + sizeof_flat \<le> m_data_size q" using h by (simp_all add: holds_def)
  obtain r where r: "find_object (m_objects q) (m_objects_size q) h a = Some r" and m: "r \<noteq> None \<longleftrightarrow> a \<in> set (offsets q)"
    using find_in_parcel [OF ok] by blast
  show ?thesis
  proof (cases "\<not> nm \<and> f_cookie f = 0 \<and> f_handle f = 0")
    case True
    then show ?thesis using e fit flat_at_holds [OF h f] by (simp add: read_object_def Let_def)
  next
    case False
    then obtain i where "r = Some i" using found m by auto
    then show ?thesis using e fit flat_at_holds [OF h f] r False by (auto simp: read_object_def Let_def)
  qed
qed

definition strong_result :: "parcel_env \<Rightarrow> flat_binder \<Rightarrow> int \<times> read_binder" where
  "strong_result E f =
     (if f_type f = BINDER_TYPE_BINDER then (NO_ERROR, if f_cookie f = 0 then Got_Null else Got_Local (f_cookie f))
      else if f_type f = BINDER_TYPE_HANDLE then (NO_ERROR, proxy_for E (f_handle f)) else (BAD_TYPE, Got_Null))"

definition weak_result :: "parcel_env \<Rightarrow> flat_binder \<Rightarrow> int \<times> read_binder" where
  "weak_result E f =
     (if f_type f = BINDER_TYPE_BINDER then (NO_ERROR, if f_cookie f = 0 then Got_Null else Got_Local (f_cookie f))
      else if f_type f = BINDER_TYPE_WEAK_BINDER then (NO_ERROR, if f_handle f \<noteq> 0 then Got_Weak (f_cookie f) (f_handle f) else Got_Null)
      else if f_type f = BINDER_TYPE_HANDLE \<or> f_type f = BINDER_TYPE_WEAK_HANDLE then (NO_ERROR, proxy_for E (f_handle f))
      else (BAD_TYPE, Got_Null))"

lemma unflatten_holds:
  assumes h: "holds q a (flat_bytes f)" and f: "flat_ok f" and found: "a \<in> set (offsets q) \<or> f_cookie f = 0 \<and> f_handle f = 0"
  shows "\<exists>g. unflatten_binder E (placed q a h) = Some (fst (strong_result E f), snd (strong_result E f), placed q (a + sizeof_flat) g)"
    and "\<exists>g. unflatten_weak_binder E (placed q a h) = Some (fst (weak_result E f), snd (weak_result E f), placed q (a + sizeof_flat) g)"
proof -
  obtain g where "read_object False (placed q a h) = Some (Some a, placed q (a + sizeof_flat) g)"
    using read_object_holds [OF h f, of False h] found by auto
  then show "\<exists>g. unflatten_binder E (placed q a h) = Some (fst (strong_result E f), snd (strong_result E f), placed q (a + sizeof_flat) g)"
    and "\<exists>g. unflatten_weak_binder E (placed q a h) = Some (fst (weak_result E f), snd (weak_result E f), placed q (a + sizeof_flat) g)"
    using flat_at_holds [OF h f]
    by (simp_all add: unflatten_binder_def unflatten_weak_binder_def strong_result_def weak_result_def)
qed

text \<open>What the flattened forms of pointers mean.\<close>

lemma flat_meanings:
  "binder_valid b \<Longrightarrow> strong_result E (strong_flat b) = (NO_ERROR, binder_meaning E b)"
  "item_valid (Weak wb) \<Longrightarrow> R_Binder (snd (weak_result E (weak_flat wb))) = meaning E (Weak wb)"
  "item_valid (Weak wb) \<Longrightarrow> fst (weak_result E (weak_flat wb)) = NO_ERROR"
  by (cases b) (auto simp: strong_result_def strong_flat_def weak_result_def weak_flat_def type_words split: option.splits ibinder.splits)

lemma objects_found:
  "binder_valid b \<Longrightarrow> \<forall>x \<in> set (item_objects (Strong b)). a + x \<in> X \<Longrightarrow> a \<in> X \<or> f_cookie (strong_flat b) = 0 \<and> f_handle (strong_flat b) = 0"
  "item_valid (Weak wb) \<Longrightarrow> \<forall>x \<in> set (item_objects (Weak wb)). a + x \<in> X \<Longrightarrow> a \<in> X \<or> f_cookie (weak_flat wb) = 0 \<and> f_handle (weak_flat wb) = 0"
  by (auto simp: object_at_def strong_flat_def weak_flat_def split: option.splits ibinder.splits if_splits)

lemma reads_strong:
  assumes h: "holds q a (item_bytes (Strong b))" and v: "item_valid (Strong b)" and o: "\<forall>x \<in> set (item_objects (Strong b)). a + x \<in> set (offsets q)"
  shows "reads_as E (Strong b) q a"
proof -
  have b: "binder_valid b" and f: "flat_ok (strong_flat b)" using v binder_valid_fits flats_ok(1) by simp_all
  have r: "\<exists>g. unflatten_binder E (placed q a k) = Some (NO_ERROR, binder_meaning E b, placed q (a + sizeof_flat) g)" for k
    using unflatten_holds(1) [OF _ f objects_found(1) [OF b o], of E k] h by (simp add: flat_meanings(1) [OF b])
  show ?thesis
    unfolding reads_as_def
  proof (intro allI)
    fix k v
    obtain g where "unflatten_binder E (placed q a k) = Some (NO_ERROR, binder_meaning E b, placed q (a + sizeof_flat) g)" using r by blast
    then show "\<exists>g u. get_item E (Strong b) (placed q a k) v = Some (meaning E (Strong b), placed q (a + length (item_bytes (Strong b))) g, u)"
      by simp
  qed
qed

lemma reads_weak:
  assumes h: "holds q a (item_bytes (Weak wb))" and v: "item_valid (Weak wb)" and o: "\<forall>x \<in> set (item_objects (Weak wb)). a + x \<in> set (offsets q)"
  shows "reads_as E (Weak wb) q a"
proof -
  have f: "flat_ok (weak_flat wb)" using item_valid_parcel_fits [OF v] by (rule flats_ok(2))
  have r: "\<exists>g. unflatten_weak_binder E (placed q a k) = Some (NO_ERROR, snd (weak_result E (weak_flat wb)), placed q (a + sizeof_flat) g)" for k
    using unflatten_holds(2) [OF _ f objects_found(2) [OF v o], of E k] h by (simp add: flat_meanings(3) [OF v])
  show ?thesis
    unfolding reads_as_def flat_meanings(2) [OF v, symmetric]
  proof (intro allI)
    fix k u
    obtain g where "unflatten_weak_binder E (placed q a k) = Some (NO_ERROR, snd (weak_result E (weak_flat wb)), placed q (a + sizeof_flat) g)"
      using r by blast
    then show "\<exists>g v. get_item E (Weak wb) (placed q a k) u
        = Some (R_Binder (snd (weak_result E (weak_flat wb))), placed q (a + length (item_bytes (Weak wb))) g, v)"
      by simp
  qed
qed

lemma reads_file:
  assumes h: "holds q a (item_bytes (File fd own))" and v: "item_valid (File fd own)" and o: "\<forall>x \<in> set (item_objects (File fd own)). a + x \<in> set (offsets q)"
  shows "reads_as E (File fd own) q a"
proof -
  have hb: "holds q a (flat_bytes (file_flat fd own))" and m: "a \<in> set (offsets q)" using h o by simp_all
  have r: "\<exists>g. read_object True (placed q a k) = Some (Some a, placed q (a + sizeof_flat) g)" for k
    by (rule read_object_holds [OF hb flats_ok(3)]) (simp add: m)
  have i: "int_of (word_of fd) = fd" using v int_of_word_of by simp
  show ?thesis
    unfolding reads_as_def
  proof (intro allI)
    fix k v
    obtain g where "read_object True (placed q a k) = Some (Some a, placed q (a + sizeof_flat) g)" using r by blast
    then show "\<exists>g u. get_item E (File fd own) (placed q a k) v = Some (meaning E (File fd own), placed q (a + length (item_bytes (File fd own))) g, u)"
      using flat_at_holds [OF hb flats_ok(3)] i by (simp add: read_file_descriptor_def) (simp add: file_flat_def)
  qed
qed

lemma reads_item:
  assumes h: "holds q a (item_bytes it)" and v: "item_valid it" and o: "\<forall>x \<in> set (item_objects it). a + x \<in> set (offsets q)"
    and E: "generous E"
  shows "reads_as E it q a"
proof (cases it)
  case (Raw bs)
  then show ?thesis using h reads_raw by simp
next
  case (C_String str)
  then show ?thesis using h v reads_c_string by metis
next
  case (String8 str)
  then show ?thesis using h reads_string8 [OF _ E] by metis
next
  case (String16 str)
  then show ?thesis using h v reads_string16 [OF _ _ E] by metis
next
  case (Strong b)
  then show ?thesis using reads_strong h v o by metis
next
  case (Weak b)
  then show ?thesis using reads_weak h v o by metis
next
  case (File fd own)
  then show ?thesis using reads_file h v o by metis
qed (use reads_number [OF h v] in auto)

section \<open>Runs\<close>

lemma reads_items:
  assumes "holds q a (concat (map item_bytes its))" and "\<forall>it \<in> set its. item_valid it"
    and "\<forall>x \<in> set (items_objects its). a + x \<in> set (offsets q)" and E: "generous E"
  shows "\<exists>g u. get_items E its (placed q a h) w = Some (map (meaning E) its, placed q (a + length (concat (map item_bytes its))) g, u)"
  using assms(1-3)
proof (induction its arbitrary: a h w)
  case Nil
  then show ?case by auto
next
  case (Cons it its)
  have h1: "holds q a (item_bytes it)" and h2: "holds q (a + length (item_bytes it)) (concat (map item_bytes its))"
    using Cons.prems(1) by (simp_all add: holds_append)
  have "reads_as E it q a" using Cons.prems(2,3) by (intro reads_item [OF h1 _ _ E]) auto
  then obtain g u where r: "get_item E it (placed q a h) w = Some (meaning E it, placed q (a + length (item_bytes it)) g, u)"
    unfolding reads_as_def by blast
  have "\<forall>x \<in> set (items_objects its). a + length (item_bytes it) + x \<in> set (offsets q)"
    using Cons.prems(3) by (auto simp: add.assoc)
  then obtain g' u' where "get_items E its (placed q (a + length (item_bytes it)) g) u
      = Some (map (meaning E) its, placed q (a + length (item_bytes it) + length (concat (map item_bytes its))) g', u')"
    using Cons.IH [OF h2] Cons.prems(2) by (metis list.set_intros(2))
  then show ?case using r by (simp add: add.assoc)
qed

end
