(* ===== verification/Parcel_Safe.thy ===== *)
theory Parcel_Safe
  imports Parcel_Roundtrip
begin

text \<open>
  Reading a parcel somebody else filled: whatever its data and its offsets are, reads stay
  inside the data.
\<close>

definition readable :: "parcel \<Rightarrow> bool" where
  "readable p \<longleftrightarrow>
     block_ok (m_data p) (m_data_capacity p) \<and> m_data_size p \<le> m_data_capacity p \<and> m_data_size p < 2 ^ 31
   \<and> block_ok (m_objects p) (m_objects_capacity p) \<and> m_objects_size p \<le> m_objects_capacity p
   \<and> m_data_pos p \<le> m_data_size p"

text \<open>A read moves the position within the data and the hint, and changes nothing else.\<close>

definition moved :: "parcel \<Rightarrow> parcel \<Rightarrow> bool" where
  "moved p q \<longleftrightarrow> m_data_pos q \<le> m_data_size p \<and> q = placed p (m_data_pos q) (m_next_object_hint q)"

lemma moved_readable: "readable p \<Longrightarrow> moved p q \<Longrightarrow> readable q"
  unfolding moved_def by (elim conjE) (erule ssubst, simp add: readable_def placed_def)

lemma moved_refl: "readable p \<Longrightarrow> moved p p"
  by (simp add: moved_def readable_def placed_def)

lemma moved_to: "b \<le> m_data_size p \<Longrightarrow> moved p (p\<lparr>m_data_pos := b\<rparr>)"
  by (simp add: moved_def placed_def)

lemma moved_trans:
  assumes "moved p q" and "moved q r"
  shows "moved p r"
proof -
  have q: "q = placed p (m_data_pos q) (m_next_object_hint q)" and r: "r = placed q (m_data_pos r) (m_next_object_hint r)"
    and b: "m_data_pos r \<le> m_data_size q" using assms by (simp_all add: moved_def)
  have "placed (placed p a h) b g = placed p b g" for a h b g by (simp add: placed_def)
  then have "r = placed p (m_data_pos r) (m_next_object_hint r)" using q r by metis
  moreover have "m_data_size q = m_data_size p" by (subst q) simp
  ultimately show ?thesis using b by (simp add: moved_def)
qed

lemma block_read_inside:
  assumes "readable p" and "i + n \<le> m_data_size p" and "0 < n"
  shows "\<exists>bs. block_read (m_data p) i n = Some bs \<and> length bs = n"
  using assms by (cases "m_data p") (auto simp: readable_def block_read_def)

lemma memory_at_inside: "readable p \<Longrightarrow> i + n \<le> m_data_size p \<Longrightarrow> \<exists>bs. memory_at (m_data p) i n = Some bs"
  using block_read_inside [of p i n] by (auto simp: memory_at_def)

lemma block_get_inside: "readable p \<Longrightarrow> i < m_data_size p \<Longrightarrow> \<exists>b. block_get (m_data p) i = Some b"
  by (cases "m_data p") (auto simp: readable_def block_get_def load_at_def)

lemma read_aligned_inside:
  assumes R: "readable p" and n: "0 < n" "n \<le> 16"
  shows "\<exists>err v q. read_aligned n get d p = Some (err, v, q) \<and> moved p q"
proof -
  have "szt 4 (m_data_pos p + n) = m_data_pos p + n" using R n by (simp add: readable_def szt_id)
  then show ?thesis using block_read_inside [OF R, of "m_data_pos p" n] n(1) moved_refl [OF R] moved_to [of "m_data_pos p + n" p]
    by (auto simp: read_aligned_def)
qed

lemma read_int32_inside: "readable p \<Longrightarrow> \<exists>err v q. read_int32 p = Some (err, v, q) \<and> moved p q"
  unfolding read_int32_def by (rule read_aligned_inside) simp_all

lemma enough_inside:
  assumes "enough_data n p" and "n < 2 ^ 31" and R: "readable p"
  shows "m_data_pos p + n \<le> m_data_size p" and "szt 4 (m_data_pos p + PAD_SIZE n) \<le> m_data_size p"
proof -
  have "n \<le> PAD_SIZE n" and u: "PAD_SIZE n < n + 4" using align_up_ge [of n 4 4] assms(2) by (simp_all add: PAD_SIZE_def)
  obtain k where k: "PAD_SIZE n = 4 * k" using align_up_dvd [of 4 4 n] by (auto simp: PAD_SIZE_def)
  then have "4 * k < 2 ^ 31 + 3" using u assms(2) by simp
  then have "PAD_SIZE n \<le> 2 ^ 31" using k by simp
  then have "szt 4 (m_data_pos p + PAD_SIZE n) = m_data_pos p + PAD_SIZE n" using R by (simp add: readable_def szt_id)
  moreover note \<open>n \<le> PAD_SIZE n\<close>
  ultimately show "m_data_pos p + n \<le> m_data_size p" and "szt 4 (m_data_pos p + PAD_SIZE n) \<le> m_data_size p"
    using assms(1) by (simp_all add: enough_data_def)
qed

lemma parcel_read_inside:
  assumes R: "readable p" and n: "n < 2 ^ 31"
  shows "\<exists>err bs q. parcel_read n p = Some (err, bs, q) \<and> moved p q"
proof (cases "enough_data n p")
  case True
  then show ?thesis using enough_inside [OF True n R] memory_at_inside [OF R] moved_to by (fastforce simp: parcel_read_def)
qed (simp add: parcel_read_def moved_refl [OF R])

lemma read_inplace_inside:
  assumes R: "readable p" and n: "n < 2 ^ 31"
  shows "moved p (snd (read_inplace n p))" and "fst (read_inplace n p) = Some d \<Longrightarrow> d + n \<le> m_data_size p"
  using enough_inside [OF _ n R] moved_to moved_refl [OF R] by (auto simp: read_inplace_def split: if_splits)

section \<open>Strings\<close>

lemma find_zero_inside:
  assumes R: "readable p" and "i + n \<le> m_data_size p"
  shows "\<exists>r. find_zero (m_data p) i n = Some r \<and> (\<forall>e. r = Some e \<longrightarrow> i \<le> e \<and> e < i + n)"
  using assms(2)
proof (induction n arbitrary: i)
  case (Suc n)
  obtain b where b: "block_get (m_data p) i = Some b" using block_get_inside [OF R, of i] Suc.prems by auto
  have "\<exists>r. find_zero (m_data p) (i + 1) n = Some r \<and> (\<forall>e. r = Some e \<longrightarrow> i + 1 \<le> e \<and> e < i + 1 + n)"
    using Suc.prems by (intro Suc.IH) simp
  then show ?case using b by auto
qed simp

text \<open>One C string is found inside the data, though the position may move behind their end.\<close>

lemma read_c_string_inside:
  assumes R: "readable p"
  shows "\<exists>str q. read_c_string p = Some (str, q) \<and> m_data_pos q \<le> m_data_size p + 3"
proof -
  let ?a = "m_data_pos p" and ?n = "m_data_size p - m_data_pos p"
  have fit: "?a + ?n \<le> m_data_size p" and avail: "szsub 4 (m_data_size p) ?a = ?n"
    using R by (simp_all add: readable_def szsub_exact)
  obtain r where r: "find_zero (m_data p) ?a ?n = Some r" and e: "\<forall>e. r = Some e \<longrightarrow> ?a \<le> e \<and> e < ?a + ?n"
    using find_zero_inside [OF R fit] by blast
  show ?thesis
  proof (cases r)
    case None
    then show ?thesis using r R by (simp add: read_c_string_def avail Let_def readable_def)
  next
    case (Some x)
    then have x: "?a \<le> x" "x < m_data_size p" using e fit by auto
    have "m_data_size p < 2 ^ 31" using R by (simp add: readable_def)
    then have "(x - ?a + 1) + (4 - 1) < 2 ^ (8 * 4)" using x by simp
    from align_up_ge(2) [OF this] have P: "PAD_SIZE (x - ?a + 1) < x - ?a + 1 + 4" by (simp add: PAD_SIZE_def)
    then have b: "?a + PAD_SIZE (x - ?a + 1) \<le> m_data_size p + 3" using x by linarith
    then have "szt 4 (?a + PAD_SIZE (x - ?a + 1)) \<le> m_data_size p + 3" using R by (simp add: szt_id readable_def)
    moreover have "0 < ?n" using x by simp
    ultimately show ?thesis using r Some by (simp add: read_c_string_def avail Let_def)
  qed
qed

lemma string8_new_inside:
  assumes R: "readable p" and "d + n + 1 \<le> m_data_size p"
  shows "\<exists>s v. string8_new E (m_data p) d n w = Some (s, v)"
proof -
  have n: "n + 1 < 2 ^ 31" using assms by (simp add: readable_def)
  then have t: "szt 4 (n + 1) = n + 1" "szt 4 (16 + (n + 1)) = n + 17" by (simp_all add: szt_id)
  have "shared_alloc E (n + 1) w = Some (if he_ok E (pw_ticks w) (n + 17) then Some (n + 1) else None, pw_tick w)"
    unfolding shared_alloc_def t(2) Let_def by simp
  then obtain r v where r: "shared_alloc E (n + 1) w = Some (r, v)" and room: "r = None \<or> r = Some (n + 1)" by auto
  show ?thesis using r room block_read_inside [OF R, of d n] assms(2) by (auto simp: string8_new_def t(1) [simplified])
qed

lemma read_string8_inside:
  assumes R: "readable p"
  shows "\<exists>s q v. read_string8 E p w = Some (s, q, v) \<and> moved p q"
proof -
  obtain err n q where i: "read_int32 p = Some (err, n, q)" and m: "moved p q" using read_int32_inside [OF R] by blast
  have Rq: "readable q" by (rule moved_readable [OF R m])
  show ?thesis
  proof (cases "n > 0 \<and> n < INT32_MAX")
    case False
    then have "read_string8 E p w = Some ([], q, w)" using i by (auto simp: read_string8_def)
    then show ?thesis using m by simp
  next
    case True
    then have n: "nat n + 1 < 2 ^ 31" by (simp add: INT32_MAX_def) linarith
    obtain str r where s: "read_inplace (nat n + 1) q = (str, r)" by (cases "read_inplace (nat n + 1) q")
    have mr: "moved q r" using read_inplace_inside(1) [OF Rq n] s by simp
    show ?thesis
    proof (cases str)
      case None
      then show ?thesis using i s True moved_trans [OF m mr] by (simp add: read_string8_def)
    next
      case (Some d)
      then have "d + (nat n + 1) \<le> m_data_size q" using read_inplace_inside(2) [OF Rq n] s by simp
      moreover have "m_data_size r = m_data_size q" using mr by (simp add: moved_def) (metis placed_simps(2))
      ultimately obtain x v where "string8_new E (m_data r) d (nat n) w = Some (x, v)"
        using string8_new_inside [OF moved_readable [OF Rq mr]] by (metis add.assoc)
      then show ?thesis using i s Some True moved_trans [OF m mr] by (simp add: read_string8_def)
    qed
  qed
qed

section \<open>Objects\<close>

lemma flat_at_inside: "readable p \<Longrightarrow> a + sizeof_flat \<le> m_data_size p \<Longrightarrow> \<exists>f. flat_at (m_data p) a = Some f"
  using block_read_inside [of p a sizeof_flat] by (auto simp: flat_at_def sizeof_flat_def)

lemma find_object_inside:
  assumes R: "readable p"
  shows "\<exists>r. find_object (m_objects p) (m_objects_size p) hint dpos = Some r"
proof -
  define n where "n = m_objects_size p"
  obtain xs where get: "\<forall>i < n. block_get (m_objects p) i = Some (xs ! i)"
    using R by (cases "m_objects p") (auto simp: readable_def block_get_def load_at_def n_def)
  show ?thesis
  proof (cases "n = 0")
    case True
    then show ?thesis by (simp add: find_object_def n_def)
  next
    case False
    have "\<exists>j. (if hint < n then search_forward (m_objects p) dpos hint (n - 1 - hint) else Some (n - 1)) = Some j \<and> j < n"
    proof (cases "hint < n")
      case True
      then have "hint + (n - 1 - hint) = n - 1" by simp
      from search_forward_ok [OF get this True, of dpos] True show ?thesis by auto
    qed (use False in simp)
    then obtain j where j: "(if hint < n then search_forward (m_objects p) dpos hint (n - 1 - hint) else Some (n - 1)) = Some j" "j < n"
      by blast
    obtain l where l: "search_backward (m_objects p) dpos j = Some l" "l \<le> j"
      using search_backward_ok [OF get j(2), of dpos] by blast
    show ?thesis unfolding find_object_def n_def [symmetric] j(1) using False get j(2) l by simp
  qed
qed

lemma read_object_inside:
  assumes R: "readable p"
  shows "\<exists>r q. read_object nm p = Some (r, q) \<and> moved p q \<and> (\<forall>d. r = Some d \<longrightarrow> d + sizeof_flat \<le> m_data_size p)"
proof -
  let ?a = "m_data_pos p"
  have t: "szt 4 (?a + sizeof_flat) = ?a + sizeof_flat" using R by (simp add: readable_def sizeof_flat_def szt_id)
  show ?thesis
  proof (cases "?a + sizeof_flat \<le> m_data_size p")
    case False
    then show ?thesis using t moved_refl [OF R] by (simp add: read_object_def Let_def)
  next
    case True
    obtain f where f: "flat_at (m_data p) ?a = Some f" using flat_at_inside [OF R True] by blast
    obtain r where r: "find_object (m_objects p) (m_objects_size p) (m_next_object_hint p) ?a = Some r"
      using find_object_inside [OF R] by blast
    have m: "moved p (p\<lparr>m_data_pos := ?a + sizeof_flat\<rparr>)" "moved p (p\<lparr>m_data_pos := ?a + sizeof_flat, m_next_object_hint := g\<rparr>)" for g
      using True by (simp_all add: moved_def placed_def)
    show ?thesis using True t f r m by (cases nm; cases r) (simp_all add: read_object_def Let_def)
  qed
qed

lemma unflatten_inside:
  assumes R: "readable p"
  shows "\<exists>err b q. unflatten_binder E p = Some (err, b, q) \<and> moved p q" "\<exists>err b q. unflatten_weak_binder E p = Some (err, b, q) \<and> moved p q"
    "\<exists>fd q. read_file_descriptor p = Some (fd, q) \<and> moved p q"
proof -
  have main: "\<exists>r q. read_object nm p = Some (r, q) \<and> moved p q \<and> (\<forall>d. r = Some d \<longrightarrow> (\<exists>f. flat_at (m_data q) d = Some f))" for nm
  proof -
    obtain r q where o: "read_object nm p = Some (r, q)" "moved p q" "\<forall>d. r = Some d \<longrightarrow> d + sizeof_flat \<le> m_data_size p"
      using read_object_inside [OF R] by blast
    have "m_data q = m_data p" using o(2) by (simp add: moved_def) (metis placed_simps(1))
    then show ?thesis using o flat_at_inside [OF R] by auto
  qed
  show "\<exists>err b q. unflatten_binder E p = Some (err, b, q) \<and> moved p q" "\<exists>err b q. unflatten_weak_binder E p = Some (err, b, q) \<and> moved p q"
    using main [of False] by (auto simp: unflatten_binder_def unflatten_weak_binder_def split: option.splits)
  show "\<exists>fd q. read_file_descriptor p = Some (fd, q) \<and> moved p q"
    using main [of True] by (auto simp: read_file_descriptor_def split: option.splits)
qed

section \<open>Runs of reads\<close>

text \<open>The reads that cannot leave the data. Raw data is asked for with a length below \<open>2\<^sup>3\<^sup>1\<close>.\<close>

fun guarded_read :: "parcel_item \<Rightarrow> bool" where
  "guarded_read (Raw bs) \<longleftrightarrow> length bs < 2 ^ 31"
| "guarded_read (C_String _) \<longleftrightarrow> False"
| "guarded_read (String16 _) \<longleftrightarrow> False"
| "guarded_read No_Exception \<longleftrightarrow> False"
| "guarded_read _ \<longleftrightarrow> True"

lemma get_number_inside:
  assumes R: "readable p"
  shows "\<exists>r q v. get_item E (Int32 i) p w = Some (r, q, v) \<and> moved p q" "\<exists>r q v. get_item E (Int64 i) p w = Some (r, q, v) \<and> moved p q"
    "\<exists>r q v. get_item E (Float n) p w = Some (r, q, v) \<and> moved p q" "\<exists>r q v. get_item E (Int_Ptr n) p w = Some (r, q, v) \<and> moved p q"
    "\<exists>r q v. get_item E (Double n m) p w = Some (r, q, v) \<and> moved p q"
proof -
  obtain e a q where "read_int32 p = Some (e, a, q)" "moved p q"
    using read_int32_inside [OF R] by blast
  then show "\<exists>r q v. get_item E (Int32 i) p w = Some (r, q, v) \<and> moved p q" by simp
  obtain e a q where "read_aligned 8 long_in 0 p = Some (e, a, q)" "moved p q"
    using read_aligned_inside [OF R, of 8 long_in 0] by auto
  then show "\<exists>r q v. get_item E (Int64 i) p w = Some (r, q, v) \<and> moved p q" by (simp add: read_int64_def)
  obtain e a q where "read_aligned 4 word_in 0 p = Some (e, a, q)" "moved p q"
    using read_aligned_inside [OF R, of 4 word_in 0] by auto
  then show "\<exists>r q v. get_item E (Float n) p w = Some (r, q, v) \<and> moved p q" "\<exists>r q v. get_item E (Int_Ptr n) p w = Some (r, q, v) \<and> moved p q"
    by (simp_all add: read_float_def read_int_ptr_def)
  obtain e a q where "read_aligned 8 (\<lambda>bs. (get_u32 (\<lambda>i. bs ! i) 0, get_u32 (\<lambda>i. bs ! i) 4)) (0, 0) p = Some (e, a, q)" "moved p q"
    using read_aligned_inside [OF R, of 8 "\<lambda>bs. (get_u32 (\<lambda>i. bs ! i) 0, get_u32 (\<lambda>i. bs ! i) 4)" "(0, 0)"] by auto
  then show "\<exists>r q v. get_item E (Double n m) p w = Some (r, q, v) \<and> moved p q" by (simp add: read_double_def)
qed

lemma get_object_inside:
  assumes R: "readable p"
  shows "\<exists>r q v. get_item E (Strong b) p w = Some (r, q, v) \<and> moved p q" "\<exists>r q v. get_item E (Weak wb) p w = Some (r, q, v) \<and> moved p q"
    "\<exists>r q v. get_item E (File fd own) p w = Some (r, q, v) \<and> moved p q"
proof -
  obtain e c q where "unflatten_binder E p = Some (e, c, q)" "moved p q" using unflatten_inside(1) [OF R] by blast
  then show "\<exists>r q v. get_item E (Strong b) p w = Some (r, q, v) \<and> moved p q" by simp
  obtain e c q where "unflatten_weak_binder E p = Some (e, c, q)" "moved p q" using unflatten_inside(2) [OF R] by blast
  then show "\<exists>r q v. get_item E (Weak wb) p w = Some (r, q, v) \<and> moved p q" by simp
  obtain f q where "read_file_descriptor p = Some (f, q)" "moved p q" using unflatten_inside(3) [OF R] by blast
  then show "\<exists>r q v. get_item E (File fd own) p w = Some (r, q, v) \<and> moved p q" by simp
qed

lemma get_bytes_inside:
  assumes R: "readable p"
  shows "\<exists>r q v. get_item E (String8 s) p w = Some (r, q, v) \<and> moved p q"
    and "length bs < 2 ^ 31 \<Longrightarrow> \<exists>r q v. get_item E (Raw bs) p w = Some (r, q, v) \<and> moved p q"
proof -
  obtain t q v where "read_string8 E p w = Some (t, q, v)" "moved p q" using read_string8_inside [OF R] by blast
  then show "\<exists>r q v. get_item E (String8 s) p w = Some (r, q, v) \<and> moved p q" by simp
  assume "length bs < 2 ^ 31"
  then obtain e t q where "parcel_read (length bs) p = Some (e, t, q)" "moved p q" using parcel_read_inside [OF R] by blast
  then show "\<exists>r q v. get_item E (Raw bs) p w = Some (r, q, v) \<and> moved p q" by simp
qed

lemma get_item_inside:
  assumes "readable p" and "guarded_read it"
  shows "\<exists>r q v. get_item E it p w = Some (r, q, v) \<and> moved p q"
  using assms(2) get_number_inside [OF assms(1)] get_object_inside [OF assms(1)] get_bytes_inside [OF assms(1)]
  by (cases it) (simp_all only: guarded_read.simps)

lemma get_items_inside:
  assumes "readable p" and "\<forall>it \<in> set its. guarded_read it"
  shows "\<exists>rs q v. get_items E its p w = Some (rs, q, v) \<and> moved p q"
  using assms
proof (induction its arbitrary: p w)
  case Nil
  then show ?case using moved_refl by auto
next
  case (Cons it its)
  obtain r q v where 1: "get_item E it p w = Some (r, q, v)" "moved p q" using get_item_inside [of p it E w] Cons.prems by auto
  obtain rs q' v' where 2: "get_items E its q v = Some (rs, q', v')" "moved q q'"
    using Cons.IH [OF moved_readable [OF Cons.prems(1) 1(2)]] Cons.prems(2) by fastforce
  show ?case using 1 2 moved_trans by auto
qed

end
