(* ===== verification/Parcel_Faults.thy ===== *)
theory Parcel_Faults
  imports Parcel_Safe
begin

text \<open>What goes wrong in parcels: shrinking, refused descriptors, huge sizes, hostile strings.\<close>

section \<open>Shrinking\<close>

lemma keep_loop_ok:
  assumes "parcel_ok p" and "m \<le> m_objects_size p"
  shows "\<exists>k. keep_loop (m_objects p) n m = Some k \<and> k \<le> m \<and> (0 < m \<longrightarrow> n \<le> offsets p ! (m - 1) \<longrightarrow> k < m)"
  using assms(2)
proof (induction m)
  case (Suc m)
  have "block_get (m_objects p) m = Some (offsets p ! m)" using object_index(1) [OF assms(1)] Suc.prems by simp
  then show ?case using Suc by auto
qed simp

lemma drop_loop_ok:
  assumes "parcel_ok p" and "i + k = m_objects_size p"
  shows "\<exists>q v. drop_loop E i k p w = Some (q, v) \<and> (\<exists>b. q = p\<lparr>m_fds_known := b\<rparr>)"
  using assms
proof (induction k arbitrary: i p w)
  case 0
  have "\<exists>b. p = p\<lparr>m_fds_known := b\<rparr>" by (rule exI [of _ "m_fds_known p"]) simp
  then show ?case by simp
next
  case (Suc k)
  have i: "i < m_objects_size p" using Suc.prems(2) by simp
  let ?f = "flat_in (contents p) (offsets p ! i)"
  let ?p = "if f_type ?f = BINDER_TYPE_FD then p\<lparr>m_fds_known := False\<rparr> else p"
  have g: "block_get (m_objects p) i = Some (offsets p ! i)" "flat_at (m_data p) (offsets p ! i) = Some ?f"
    using object_index [OF Suc.prems(1) i] flat_at_contents [OF Suc.prems(1)] by simp_all
  have "parcel_ok ?p" and "i + 1 + k = m_objects_size ?p" using Suc.prems by (simp_all add: parcel_ok_def)
  from Suc.IH [OF this] obtain q v b where "drop_loop E (i + 1) k ?p (release_object_ref E ?f w) = Some (q, v)" and "q = ?p\<lparr>m_fds_known := b\<rparr>"
    by blast
  then show ?case using g by auto
qed

definition cut_objects :: "nat block \<Rightarrow> nat \<Rightarrow> bool" where
  "cut_objects b k \<longleftrightarrow> b = Freed \<or> (\<exists>ys. b = Block ys \<and> length ys = k)"

lemma realloc_objects_cut:
  assumes "generous E" and "4 * k < 2 ^ 32"
  obtains r old v where "realloc_objects E (Block xs) k w = Some (r, old, v)"
    and "cut_objects (case r of Some ys \<Rightarrow> Block ys | None \<Rightarrow> old) k"
proof -
  have t: "szt 4 (4 * k) = 4 * k" using assms(2) by (simp add: szt_id)
  have m: "malloc_objects E k w = (Some (map (he_index E (pw_ticks w)) [0..<k]), pw_tick w)"
    using assms by (simp add: malloc_objects_def t generous_def)
  show ?thesis
  proof (cases "k = 0 \<and> \<not> he_zero E")
    case True
    then show ?thesis using that [of None Freed "pw_tick w"] m t by (simp add: realloc_objects_def realloc_with_def cut_objects_def)
  next
    case False
    let ?ys = "take k xs @ drop (length xs) (map (he_index E (pw_ticks w)) [0..<k])"
    have "length ?ys = k" by simp
    then show ?thesis using that [of "Some ?ys" Freed "pw_tick w"] m t False
      by (auto simp: realloc_objects_def realloc_with_def cut_objects_def)
  qed
qed

text \<open>
  After \<^verbatim>\<open>setDataSize\<close> has cut off objects, the capacity still tells of the old array.
\<close>

lemma set_data_size_cuts:
  assumes A: "appending p" and L: "m_data_size p \<le> LIMIT" and E: "generous E" and ne: "offsets p \<noteq> []" and n: "n \<le> last (offsets p)"
  shows "\<exists>q v. set_data_size E n p w = Some (NO_ERROR, q, v) \<and> cut_objects (m_objects q) (m_objects_size q)
    \<and> m_objects_size q < m_objects_capacity q \<and> m_data_pos q = n \<and> n + sizeof_flat \<le> m_data_capacity q
    \<and> m_data q = m_data p \<and> m_data_capacity q = m_data_capacity p"
proof -
  have ok: "parcel_ok p" and own: "m_owner p = None" and pos: "m_data_pos p = m_data_size p" using A by (simp_all add: appending_def)
  have lo: "length (offsets p) = m_objects_size p" by (rule offsets_length [OF ok])
  then have some: "0 < m_objects_size p" using ne by (metis length_greater_0_conv)
  then have l: "last (offsets p) = offsets p ! (m_objects_size p - 1)" using lo ne by (simp add: last_conv_nth)
  have fit: "n + sizeof_flat \<le> m_data_size p" using object_index(2) [OF ok, of "m_objects_size p - 1"] n l some by simp
  then have lt: "n < m_data_size p" by (simp add: sizeof_flat_def)
  have cap: "m_data_size p \<le> m_data_capacity p" and ocap: "m_objects_size p \<le> m_objects_capacity p" using ok by (simp_all add: parcel_ok_def)
  obtain k where "keep_loop (m_objects p) n (m_objects_size p) = Some k" and "k < m_objects_size p"
    using keep_loop_ok [OF ok order_refl, of n] n l some by auto
  then obtain k where k: "kept_objects p n = Some k" "k < m_objects_size p" using lt some by (cases "n = 0") (auto simp: kept_objects_def)
  obtain d where d: "m_data p = Block d" using ok lt by (auto simp: parcel_ok_def block_ok_def split: block.splits)
  obtain xs where xs: "m_objects p = Block xs" using ok some by (auto simp: parcel_ok_def block_ok_def split: block.splits)
  obtain q v b where q: "drop_loop E k (m_objects_size p - k) p w = Some (q, v)" and qb: "q = p\<lparr>m_fds_known := b\<rparr>"
    using drop_loop_ok [OF ok, of k "m_objects_size p - k" E w] k(2) by auto
  have "16 * m_objects_size p \<le> m_data_size p" using apart_room [of 0 "offsets p" "m_data_size p"] ok lo by (simp add: parcel_ok_def)
  then have k4: "4 * k < 2 ^ 32" using k(2) L by (simp add: LIMIT_def)
  obtain r old u where r: "realloc_objects E (Block xs) k v = Some (r, old, u)"
    and cut: "cut_objects (case r of Some ys \<Rightarrow> Block ys | None \<Rightarrow> old) k"
    by (rule realloc_objects_cut [OF E k4])
  let ?o = "case r of Some ys \<Rightarrow> Block ys | None \<Rightarrow> old"
  have s: "shrink_objects E k p w = Some (p\<lparr>m_fds_known := b, m_objects := ?o, m_objects_size := k, m_next_object_hint := 0\<rparr>, u)"
    using k(2) q r by (cases r) (simp_all add: shrink_objects_def qb xs)
  have c: "continue_write E n p w
      = Some (NO_ERROR, p\<lparr>m_fds_known := b, m_objects := ?o, m_objects_size := k, m_next_object_hint := 0, m_data_size := n, m_data_pos := n\<rparr>, u)"
    using s lt cap pos by (simp add: continue_write_def k(1) own d continue_own_def Let_def)
  show ?thesis using cut k(2) ocap fit cap d by (simp add: set_data_size_def c)
qed

lemma overrun_after_cut:
  assumes "cut_objects (m_objects q) (m_objects_size q)" and "m_objects_size q < m_objects_capacity q"
    and d: "m_data q = Block d" "length d = m_data_capacity q" and fit: "m_data_pos q + sizeof_flat \<le> m_data_capacity q" and cap: "m_data_capacity q < 2 ^ 32"
  shows "write_file_descriptor E fd own q v = None"
proof -
  have "szt 4 (m_data_pos q + sizeof_flat) = m_data_pos q + sizeof_flat" using fit cap by (simp add: szt_id)
  then have "make_room E sizeof_flat q v = Some (NO_ERROR, q, v)" using fit by (simp add: make_room_def)
  moreover have "place_object E (file_flat fd own) True q v = None"
    using assms(1) by (auto simp: place_object_def store_data_def block_put_def d cut_objects_def put_at_def split: Option.bind_splits block.splits)
  ultimately show ?thesis using assms(2) by (simp add: flatten_eqs write_object_eq)
qed

section \<open>Descriptors that are not allowed\<close>

lemma release_objects_loop_closed: "release_objects_loop E data objs n w = Some u \<Longrightarrow> \<exists>cs. pw_closed u = pw_closed w @ cs"
proof (induction n arbitrary: w)
  case (Suc n)
  then obtain off flat where "release_objects_loop E data objs n (release_object_ref E flat w) = Some u"
    by (auto split: Option.bind_splits)
  from Suc.IH [OF this] obtain cs where "pw_closed u = pw_closed (release_object_ref E flat w) @ cs" by blast
  moreover have "\<exists>c. pw_closed (release_object_ref E flat w) = pw_closed w @ c"
    by (auto simp: release_object_ref_def add_ref_def close_file_def)
  ultimately show ?case by auto
qed simp

text \<open>
  Room for an object and its offset has been made: the object is stored and recorded, and the
  position stays where it is.
\<close>

lemma refused_object:
  assumes A: "appending p" and fds: "\<not> m_allow_fds p" and room: "m_data_size p + sizeof_flat \<le> m_data_capacity p"
    and L: "m_data_size p + sizeof_flat \<le> LIMIT" and free: "m_objects_size p < m_objects_capacity p"
  shows "\<exists>q. place_object E (file_flat fd own) True p w = Some (FDS_NOT_ALLOWED, q, w) \<and> m_owner q = None
    \<and> m_objects_size q = Suc (m_objects_size p) \<and> block_get (m_objects q) (m_objects_size p) = Some (m_data_size p)
    \<and> flat_at (m_data q) (m_data_size p) = Some (file_flat fd own) \<and> parcel_ok (q\<lparr>m_objects_size := m_objects_size p\<rparr>)"
proof -
  let ?f = "file_flat fd own"
  have ne: "flat_bytes ?f \<noteq> []" by (auto simp: flat_bytes_def le_bytes_def)
  obtain d where d: "m_data p = Block d"
    and st: "store_data (flat_bytes ?f) p = Some (p\<lparr>m_data := Block (take (m_data_size p) d @ flat_bytes ?f @ drop (m_data_size p + sizeof_flat) d)\<rparr>)"
    using store_end [OF A _ ne] room L by (metis flat_bytes_length)
  obtain xs where xs: "m_objects p = Block xs" and lx: "m_objects_size p < length xs"
    using A free by (auto simp: appending_def parcel_ok_def block_ok_def split: block.splits)
  have pos: "m_data_pos p = m_data_size p" and ld: "length d = m_data_capacity p" and lxs: "length xs = m_objects_capacity p"
    using A d xs by (simp_all add: appending_def parcel_ok_def)
  let ?D = "take (m_data_size p) d @ flat_bytes ?f @ drop (m_data_size p + sizeof_flat) d"
  let ?q = "p\<lparr>m_data := Block ?D, m_objects := Block (xs[m_objects_size p := m_data_size p]), m_objects_size := Suc (m_objects_size p)\<rparr>"
  have "acquire_object E ?f w = w" by (simp add: acquire_object_def file_flat_def type_words)
  moreover have "block_put (Block xs) (m_objects_size p) [m_data_size p] = Some (Block (xs[m_objects_size p := m_data_size p]))"
    using lx by (simp add: block_put_def put_at_def upd_conv_take_nth_drop)
  ultimately have r: "place_object E ?f True p w = Some (FDS_NOT_ALLOWED, ?q, w)"
    using fds by (simp add: place_object_def st pos xs) (simp add: file_flat_def)
  have "length (take (m_data_size p) d) = m_data_size p" using ld room by simp
  then have "flat_in ?D (m_data_size p) = ?f"
    using flat_in_bytes [OF flats_ok(3), of "take (m_data_size p) d" fd own "drop (m_data_size p + sizeof_flat) d"] by metis
  then have f: "flat_at (Block ?D) (m_data_size p) = Some ?f" using ld room
    by (simp add: flat_at_def block_read_def flat_in_def Let_def)
  have "offsets (?q\<lparr>m_objects_size := m_objects_size p\<rparr>) = offsets p" by (simp add: offsets_def xs)
  then have ok: "parcel_ok (?q\<lparr>m_objects_size := m_objects_size p\<rparr>)"
    using A ld room lxs d xs by (simp add: parcel_ok_def appending_def)
  show ?thesis
    by (rule exI [of _ ?q]) (use r f ok A lx in \<open>simp add: block_get_def load_at_def appending_def\<close>)
qed

definition refused :: "parcel \<Rightarrow> int \<Rightarrow> bool \<Rightarrow> bool" where
  "refused q fd own \<longleftrightarrow> m_owner q = None \<and> (\<exists>n a. m_objects_size q = Suc n \<and> block_get (m_objects q) n = Some a
     \<and> flat_at (m_data q) a = Some (file_flat fd own) \<and> parcel_ok (q\<lparr>m_objects_size := n\<rparr>))"

lemma write_refused:
  assumes A: "appending p" and fds: "\<not> m_allow_fds p" and L: "m_data_size p + sizeof_flat \<le> LIMIT" and E: "generous E"
  shows "\<exists>q v. write_file_descriptor E fd own p w = Some (FDS_NOT_ALLOWED, q, v) \<and> refused q fd own"
proof -
  obtain p1 w1 where r: "make_room E sizeof_flat p w = Some (NO_ERROR, p1, w1)" and e: "enlarged p p1"
    and room: "m_data_size p + sizeof_flat \<le> m_data_capacity p1"
    using make_room_ok [OF A L, of E w] E by auto
  have A1: "appending p1" and g1: "grown p [] [] p1" and os: "m_objects_size p1 = m_objects_size p" "m_objects_capacity p1 = m_objects_capacity p"
    using e by (simp_all add: enlarged_def grown_def)
  have sz: "m_data_size p1 = m_data_size p" using grown_size [OF g1 A] by simp
  have put: "\<exists>q. place_object E (file_flat fd own) True u x = Some (FDS_NOT_ALLOWED, q, x) \<and> refused q fd own"
    if g: "grown p [] [] u" and room: "m_data_size p + sizeof_flat \<le> m_data_capacity u" and free: "m_objects_size u < m_objects_capacity u" for u x
  proof -
    have "appending u" and "\<not> m_allow_fds u" and "m_data_size u = m_data_size p" using g fds grown_size [OF g A] by (simp_all add: grown_def)
    then show ?thesis using refused_object [of u E fd own x] room L free by (auto simp: refused_def)
  qed
  show ?thesis
  proof (cases "m_objects_size p < m_objects_capacity p")
    case True
    then have "write_file_descriptor E fd own p w = place_object E (file_flat fd own) True p1 w1" using r by (simp add: flatten_eqs write_object_eq)
    then show ?thesis using put [OF g1 room, of w1] True os by auto
  next
    case False
    have "16 * length (offsets p1) \<le> m_data_size p1"
      using A1 apart_room [of 0 "offsets p1" "m_data_size p1"] by (simp add: appending_def parcel_ok_def)
    then have "m_objects_size p1 \<le> 0x4000000" using A1 L sz by (simp add: offsets_length appending_def LIMIT_def)
    then have n: "szt 4 ((m_objects_size p1 + 2) * 3) div 2 = (m_objects_size p1 + 2) * 3 div 2" by (rule more_objects_size)
    have "m_data_size p1 \<le> LIMIT" and "m_objects_capacity p1 \<le> m_objects_size p1" using L sz False os by simp_all
    then obtain u x where m: "more_objects E ((m_objects_size p1 + 2) * 3 div 2) p1 w1 = Some (NO_ERROR, u, x)"
      and gu: "grown p1 [] [] u" and c: "m_data_capacity u = m_data_capacity p1" "m_objects_size u < m_objects_capacity u"
      using more_objects_ok [OF A1 refl, of E w1] E by auto
    have g: "grown p [] [] u" using grown_trans [OF A g1 gu] by simp
    have "write_file_descriptor E fd own p w = place_object E (file_flat fd own) True u x"
      using r False m n by (simp add: flatten_eqs write_object_eq)
    then show ?thesis using put [OF g _ c(2), of x] room c(1) by auto
  qed
qed

lemma free_closes_again:
  assumes r: "refused q fd True" and fd: "0 \<le> fd" "fd < 2 ^ 31"
  shows "\<exists>u cs. free_data E q v = Some (init_state, u) \<and> pw_closed u = pw_closed v @ fd # cs"
proof -
  obtain n a where own: "m_owner q = None" and n: "m_objects_size q = Suc n" and a: "block_get (m_objects q) n = Some a"
    and f: "flat_at (m_data q) a = Some (file_flat fd True)" and ok: "parcel_ok (q\<lparr>m_objects_size := n\<rparr>)"
    using r by (auto simp: refused_def)
  have c: "release_object_ref E (file_flat fd True) v = close_file fd v"
    using int_of_word_of [of fd] fd by (simp add: release_object_ref_def file_flat_def type_words)
  obtain u where u: "release_objects_loop E (m_data q) (m_objects q) n (close_file fd v) = Some u"
    using release_objects_loop_ok [OF ok, of n E "close_file fd v"] by auto
  then obtain cs where "pw_closed u = pw_closed (close_file fd v) @ cs" using release_objects_loop_closed by blast
  moreover have "m_data q \<noteq> Freed" and "m_objects q \<noteq> Freed" using ok by (auto simp: parcel_ok_def)
  ultimately show ?thesis using u a f c n own
    by (simp add: free_data_def free_data_no_init_def release_objects_def close_file_def)
qed

section \<open>Hostile and huge sizes\<close>

text \<open>The length word \<open>0x7FFFFFFE\<close>: the size of the string in bytes wraps when it is padded.\<close>

lemma huge_string16:
  assumes R: "readable p" and fit: "m_data_pos p + 4 \<le> m_data_size p"
    and w: "block_read (m_data p) (m_data_pos p) 4 = Some (le_bytes 0x7FFFFFFE)"
  shows "read_string16_inplace p = Some (Some (m_data_pos p + 4), 0x7FFFFFFE, p\<lparr>m_data_pos := m_data_pos p + 4\<rparr>)"
    and "he_ok E (pw_ticks v) 14 \<Longrightarrow> read_string16 E p v = None"
proof -
  let ?q = "p\<lparr>m_data_pos := m_data_pos p + 4\<rparr>"
  have t: "szt 4 (m_data_pos p + 4) = m_data_pos p + 4" using R by (simp add: readable_def szt_id)
  have i: "read_int32 p = Some (NO_ERROR, 0x7FFFFFFE, ?q)"
    using fit w by (simp add: read_int32_def read_aligned_def t word_in_bytes int_of_def)
  have N: "szt 4 ((0x7FFFFFFE + 1) * 2) = 0xFFFFFFFE" by (simp add: szt_def)
  have P: "PAD_SIZE 0xFFFFFFFE = 0" by (simp add: PAD_SIZE_def align_up_def szt_def)
  have "enough_data 0xFFFFFFFE ?q" using fit R by (simp add: enough_data_def P readable_def szt_id)
  then have "read_inplace 0xFFFFFFFE ?q = (Some (m_data_pos p + 4), ?q)"
    using P t by (simp add: read_inplace_def)
  then have "read_inplace (szt 4 ((0x7FFFFFFE + 1) * 2)) ?q = (Some (m_data_pos p + 4), ?q)" by (simp only: N)
  then show r: "read_string16_inplace p = Some (Some (m_data_pos p + 4), 0x7FFFFFFE, ?q)"
    using i by (simp add: read_string16_inplace_def INT32_MAX_def)
  have n: "szt 4 (szt 4 (0x7FFFFFFE + 1) * 2) = 0xFFFFFFFE" "szt 4 (16 + 0xFFFFFFFE) = 14" by (simp_all add: szt_def)
  show "read_string16 E p v = None" if "he_ok E (pw_ticks v) 14"
    using that r n by (simp add: read_string16_def string16_new_def shared_alloc_def)
qed

text \<open>
  A string that ends with the data, when their size is not a multiple of four: the position moves
  behind the end, and the next \<^verbatim>\<open>readCString\<close> looks for a zero in almost four gigabytes.
\<close>

lemma second_c_string:
  assumes d: "m_data p = Block d" "length d = m_data_size p" and pos: "m_data_pos p = 0" and n: "m_data_size p < 2 ^ 31" "m_data_size p mod 4 \<noteq> 0"
    and str: "d = bs @ [0]" "0 \<notin> set bs"
  shows "\<exists>q. read_c_string p = Some (Some 0, q) \<and> read_c_string q = None"
proof -
  have l: "m_data_size p = length bs + 1" using d str by simp
  have "\<forall>i < length bs. block_get (m_data p) (0 + i) = Some (bs ! i)" and "block_get (m_data p) (0 + length bs) = Some 0"
    by (simp_all add: d(1) str(1) block_get_def load_at_def nth_append)
  from find_zero_ok [OF this str(2), of "m_data_size p"] have f: "find_zero (m_data p) 0 (m_data_size p) = Some (Some (length bs))" using l by simp
  have av: "szsub 4 (m_data_size p) 0 = m_data_size p" using n by (simp add: szsub_exact)
  define P where "P = PAD_SIZE (length bs + 1)"
  have "(length bs + 1) + (4 - 1) < 2 ^ (8 * 4)" using n l by simp
  from align_up_ge [OF this] have P1: "length bs + 1 \<le> P" "P < length bs + 5" by (simp_all add: P_def PAD_SIZE_def)
  have "P mod 4 = 0" using align_up_dvd [of 4 4 "length bs + 1"] by (simp add: P_def PAD_SIZE_def dvd_eq_mod_eq_0)
  then have P2: "m_data_size p < P" using P1 l n(2) by (cases "P = m_data_size p") simp_all
  have small: "P < 2 ^ 32" using P1 n l by simp
  let ?q = "p\<lparr>m_data_pos := P\<rparr>"
  have "0 < m_data_size p" using l by simp
  then have r: "read_c_string p = Some (Some 0, ?q)" using f small
    by (simp add: read_c_string_def Let_def pos av szt_id) (simp add: P_def szt_id)
  have "0 < szsub 4 (m_data_size p) P"
  proof -
    have "szt 4 P = P" using small by (simp add: szt_id)
    then show ?thesis using P2 small by (simp add: szsub_def szt_id)
  qed
  then obtain k where k: "szsub 4 (m_data_size p) P = Suc k" by (cases "szsub 4 (m_data_size p) P") simp_all
  have "block_get (m_data p) P = None" using P2 d by (simp add: block_get_def load_at_def)
  then have "read_c_string ?q = None" by (simp add: read_c_string_def Let_def k)
  then show ?thesis using r by blast
qed

text \<open>
  When the size to grow to is computed modulo \<open>2\<^sup>3\<^sup>2\<close> and turns out too small, \<^verbatim>\<open>growData\<close> refuses without
  setting the error that \<^verbatim>\<open>write\<close> returns: the data are dropped and the caller sees success.
\<close>

lemma write_drops_data:
  assumes A: "appending p" and e: "m_error p = NO_ERROR" and full: "m_data_capacity p = m_data_size p"
    and n: "0 < length bs" "length bs \<le> 0x10000000" and size: "0x55555556 \<le> m_data_size p" "m_data_size p \<le> 0x60000000"
  shows "parcel_write E bs p w = Some (NO_ERROR, p, w)"
proof -
  define P where "P = PAD_SIZE (length bs)"
  have b: "length bs + (4 - 1) < 2 ^ (8 * 4)" using n by simp
  have P: "length bs \<le> P" "P < length bs + 4" using align_up_ge [OF b] by (simp_all add: P_def PAD_SIZE_def)
  from n(1) P(1) have "0 < P" by (rule less_le_trans)
  have pos: "m_data_pos p = m_data_size p" using A by (simp add: appending_def)
  have t: "szt 4 (m_data_pos p + P) = m_data_size p + P" using P n size by (simp add: pos szt_id)
  have "(m_data_size p + P) * 3 - 2 ^ 32 < 2 ^ 32" and "2 ^ 32 \<le> (m_data_size p + P) * 3" using P n size by simp_all
  then have "szt 4 ((m_data_size p + P) * 3) = (m_data_size p + P) * 3 - 2 ^ 32" by (simp add: szt_def mod_if)
  then have "szt 4 ((m_data_size p + P) * 3) div 2 \<le> m_data_size p" using P n size by simp
  then have "make_room E P p w = Some (NO_MEMORY, p, w)" using t \<open>0 < P\<close> full by (simp add: make_room_def grow_data_def Let_def)
  then have "write_inplace E (length bs) p w = Some (None, p, w)"
    using t by (simp add: write_inplace_def Let_def P_def [symmetric] pos) (simp add: NO_MEMORY_def NO_ERROR_def)
  then show ?thesis by (simp add: parcel_write_def e)
qed

text \<open>
  The header of a reply moves the position to wherever the sender says: a following read of a
  number computes its end modulo \<open>2\<^sup>3\<^sup>2\<close> and reads in front of the data.
\<close>

lemma reply_header_escapes:
  assumes p: "m_data p = Block (word_bytes (- 128) @ word_bytes (- 8) @ rest)" "m_data_pos p = 0" "m_data_size p < 2 ^ 31" "8 \<le> m_data_size p"
    and l: "length rest < 2 ^ 31"
  shows "\<exists>q. read_exception_code p = Some (0, q) \<and> m_data_pos q = 0xFFFFFFFC \<and> read_int32 q = None"
proof -
  let ?q = "p\<lparr>m_data_pos := 4\<rparr>" and ?r = "p\<lparr>m_data_pos := 0xFFFFFFFC, m_next_object_hint := 0\<rparr>"
  have b: "block_read (m_data p) 0 4 = Some (word_bytes (- 128))" "block_read (m_data p) 4 4 = Some (word_bytes (- 8))"
    by (simp_all add: p(1) block_read_def)
  have v: "int_of (word_in (word_bytes (- 128))) = - 128" "int_of (word_in (word_bytes (- 8))) = - 8"
    by (simp_all add: word_bytes_def word_in_bytes word_of_mod [simplified] int_of_word_of)
  have i: "read_int32 p = Some (NO_ERROR, - 128, ?q)" using b(1) v(1) p(2,4) by (simp add: read_int32_def read_aligned_def szt_def)
  have j: "read_int32 ?q = Some (NO_ERROR, - 8, p\<lparr>m_data_pos := 8\<rparr>)" using b(2) v(2) p(4) by (simp add: read_int32_def read_aligned_def szt_def)
  have "read_exception_code p = Some (0, ?r)" using i j
    by (simp add: read_exception_code_def EX_HAS_REPLY_HEADER_def set_data_position_def word_of_def)
  moreover have "read_int32 ?r = None" using l by (simp add: read_int32_def read_aligned_def szt_def p(1) block_read_def)
  ultimately show ?thesis by (intro exI [of _ ?r]) simp
qed

end
