(* ===== verification/Area_Demo.thy ===== *)
theory Area_Demo
  imports Area_Progress
begin

text \<open>
  A concrete area for the witnesses: four pages mapped by \<open>binder_mmap\<close> on the concrete
  kernel (\<open>demo_area\<close>), and the same area after a request for 100 bytes was answered
  (\<open>demo_busy_area\<close>), both computed by the model.
\<close>

definition demo_vma :: vm_area where
  "demo_vma = \<lparr>vm_start = 1048576, vm_end = 1064960, vm_flags = 0, vm_mm = 1\<rparr>"

definition demo_area :: binder_alloc where
  "demo_area = \<lparr>p_tsk = 1, p_vma = True, p_vma_vm_mm = Some 1, p_files = Some 1,
     p_buffer = 65536, p_user_buffer_offset = 983040, p_buffers = [65536],
     p_heap = [65536 \<mapsto> zero_header\<lparr>b_free := True\<rparr>],
     p_free_buffers = Node Leaf 65536 Leaf, p_allocated_buffers = Leaf, p_free_async_space = 8192,
     p_pages = [full_page, no_page, no_page, no_page], p_buffer_size = 16384, p_ticks = 3\<rparr>"

lemmas mmap_eval = binder_mmap_def mmap_area_def mmap_vma_def SZ_4M_def PAGE_SIZE_def demo_kern_def
  fresh_alloc_def FORBIDDEN_MMAP_FLAGS_def VM_DONTCOPY_def VM_MAYWRITE_def binder_update_page_range_def
  page_alloc_loop.simps page_index_def no_page_def full_page_def binder_insert_free_buffer_def zero_header_def


lemma replicate_4: "replicate 4 x = [x, x, x, x]" by (simp add: eval_nat_numeral)
lemma demo_mmap: "binder_mmap demo_kern (fresh_alloc 1 0) 1 demo_vma
   = Some (0, demo_vma\<lparr>vm_flags := 0x20000\<rparr>, demo_area)"
  by (simp add: mmap_eval demo_vma_def demo_area_def Let_def replicate_4)


lemma demo_kern_sel [simp]: "ptr_bytes demo_kern = 4" "rb_insert_color demo_kern = (\<lambda>x t. t)"
  "rb_erase demo_kern = (\<lambda>x t. list_tree (remove1 x (inorder t)))" "stale_header demo_kern = (\<lambda>_. zero_header)"
  by (simp_all add: demo_kern_def)
lemma demo_sizes: "sizeof_binder_buffer demo_kern = 40" 
  by (simp add: sizeof_binder_buffer_def)
lemmas size_eval = demo_sizes buffer_data_def szsub_def szt_def align_up_def page_align_def page_mask_def PAGE_SIZE_def

definition demo_busy_area :: binder_alloc where
  "demo_busy_area = demo_area\<lparr>p_buffers := [65536, 65676],
     p_heap := [65536 \<mapsto> zero_header\<lparr>b_async_transaction := True, b_data_size := 100\<rparr>,
                65676 \<mapsto> zero_header\<lparr>b_free := True\<rparr>],
     p_free_buffers := Node Leaf 65676 Leaf, p_allocated_buffers := Node Leaf 65536 Leaf,
     p_free_async_space := 8052\<rparr>"


lemma demo_area_sel: "p_vma demo_area" "p_buffers demo_area = [65536]" "p_free_buffers demo_area = Node Leaf 65536 Leaf"
  "p_buffer demo_area = 65536" "p_buffer_size demo_area = 16384" "p_free_async_space demo_area = 8192"
  "p_heap demo_area = [65536 \<mapsto> zero_header\<lparr>b_free := True\<rparr>]"
  by (simp_all add: demo_area_def)
lemma demo_alloc_steps: "alloc_size demo_kern 100 0 = 100" "binder_buffer_size demo_kern demo_area 65536 = 16344"
  "claimed_size demo_kern None 100 16344 = 140"
  by (simp_all add: alloc_size_def binder_buffer_size_def demo_area_sel size_eval claimed_size_def)
lemma demo_best_fit:
  "best_fit_loop demo_kern demo_area 100 (Node Leaf 65536 Leaf) None = Some (None, Some 65536)"
  by (simp add: demo_alloc_steps demo_area_sel)
lemma demo_claim: "claim_buffer demo_kern demo_area 65536 140 100 100 0 True = Some demo_busy_area"
  by (auto simp add: claim_buffer_def demo_area_def demo_busy_area_def binder_insert_allocated_buffer_def alloc_key_def binder_buffer_size_def
   binder_insert_free_buffer_def free_dir_def key_dir_def cmp_dir_def zero_header_def size_eval Let_def)
lemma demo_range: "binder_update_page_range demo_kern demo_area True 69632 69632 False = Some (0, demo_area)"
  by (simp add: binder_update_page_range_def)
lemma demo_alloc: "binder_alloc_buf demo_kern demo_area 100 0 True = Some (Some 65536, demo_busy_area)"
  by (simp add: binder_alloc_buf_def Let_def demo_alloc_steps demo_best_fit demo_area_sel size_eval demo_range demo_claim)
lemma demo_busy_area_sets: "\<not> area_busy demo_busy_area 65536" "65536 \<in> alloc_set demo_busy_area" "65536 \<in> free_set demo_area"
  by (simp_all add: area_busy_def demo_busy_area_def demo_area_def zero_header_def alloc_set_def free_set_def free_flag_def is_free_def)

lemma demo_vma_ok: "vma_ok demo_vma"
  by (simp add: vma_ok_def demo_vma_def PAGE_SIZE_def)

lemma demo_mmap_done: "mmap_done demo_kern (fresh_alloc 1 0) 16384 demo_area"
proof -
  obtain r vma' a' where r: "binder_mmap demo_kern (fresh_alloc 1 0) 1 demo_vma = Some (r, vma', a')"
    "r = 0 \<and> mmap_done demo_kern (fresh_alloc 1 0) (min (vm_end demo_vma - vm_start demo_vma) SZ_4M) a'
       \<or> r < 0 \<and> unmapped a'"
    by (rule mmap_outcome [OF demo_kern_ok fresh_unmapped demo_vma_ok]) (rule that)
  moreover have "min (vm_end demo_vma - vm_start demo_vma) SZ_4M = 16384"
    by (simp add: demo_vma_def SZ_4M_def)
  ultimately show ?thesis unfolding demo_mmap by simp
qed

lemma demo_inv: "binder_inv demo_kern demo_area" "alloc_set demo_area = {}"
  using demo_mmap_done by (simp_all only: mmap_done_def)

lemma demo_busy_post: "alloc_post demo_kern demo_area 100 0 True (Some 65536) demo_busy_area"
  by (rule alloc_buf_outcome [OF demo_kern_ok demo_inv(1), of 100 0 True]) (simp_all add: demo_alloc)

lemma demo_busy_inv: "binder_inv demo_kern demo_busy_area"
  using demo_busy_post by (simp add: alloc_post_def)

lemma demo_busy_alloc_set: "alloc_set demo_busy_area = {65536}"
  using demo_busy_post demo_inv(2) by (simp add: alloc_post_def)

lemma demo_busy_offset: "p_user_buffer_offset demo_busy_area = 983040"
  by (simp add: demo_busy_area_def demo_area_def)

lemma demo_vma_length: "min (vm_end demo_vma - vm_start demo_vma) SZ_4M = 16384"
  by (simp add: demo_vma_def SZ_4M_def)

lemma demo_available: "pages_available demo_kern" "process_alive demo_kern demo_area"
  by (simp_all add: pages_available_def process_alive_def demo_kern_def demo_area_def)

lemma demo_busy_header:
  "p_heap demo_busy_area 65536 = Some (zero_header\<lparr>b_async_transaction := True, b_data_size := 100\<rparr>)"
  "b_transaction zero_header = None"
  by (simp_all add: demo_busy_area_def zero_header_def)

lemma demo_busy_size: "binder_buffer_size demo_kern demo_busy_area 65536 = 100"
  by (simp add: binder_buffer_size_def demo_busy_area_def size_eval)

section \<open>The same area on a 64-bit kernel\<close>

definition demo_kern64 :: kern where
  "demo_kern64 = demo_kern\<lparr>ptr_bytes := 8\<rparr>"

definition demo_busy_area64 :: binder_alloc where
  "demo_busy_area64 = demo_area\<lparr>p_buffers := [65536, 65720],
     p_heap := [65536 \<mapsto> zero_header\<lparr>b_async_transaction := True, b_data_size := 100\<rparr>,
                65720 \<mapsto> zero_header\<lparr>b_free := True\<rparr>],
     p_free_buffers := Node Leaf 65720 Leaf, p_allocated_buffers := Node Leaf 65536 Leaf,
     p_free_async_space := 8008\<rparr>"

lemma demo_kern64_sel [simp]: "ptr_bytes demo_kern64 = 8" "rb_insert_color demo_kern64 = (\<lambda>x t. t)"
  "rb_erase demo_kern64 = (\<lambda>x t. list_tree (remove1 x (inorder t)))" "stale_header demo_kern64 = (\<lambda>_. zero_header)"
  by (simp_all add: demo_kern64_def)

lemma demo_kern64_ok: "kern_ok demo_kern64"
proof -
  have "get_vm_area demo_kern n sz = Some v \<Longrightarrow> v + sz + PAGE_SIZE \<le> 2 ^ (8 * 8)" for n sz v
    by (auto simp: demo_kern_def PAGE_SIZE_def split: if_splits)
  then show ?thesis using demo_kern_ok by (simp add: kern_ok_def demo_kern64_def)
qed

lemma demo_sizes64: "sizeof_binder_buffer demo_kern64 = 80"
  by (simp add: sizeof_binder_buffer_def)

lemmas size_eval64 = demo_sizes64 buffer_data_def szsub_def szt_def align_up_def page_align_def page_mask_def PAGE_SIZE_def

lemma demo_inv64: "binder_inv demo_kern64 demo_area"
proof -
  obtain r vma' a' where r: "binder_mmap demo_kern64 (fresh_alloc 1 0) 1 demo_vma = Some (r, vma', a')"
    "r = 0 \<and> mmap_done demo_kern64 (fresh_alloc 1 0) (min (vm_end demo_vma - vm_start demo_vma) SZ_4M) a'
       \<or> r < 0 \<and> unmapped a'"
    by (rule mmap_outcome [OF demo_kern64_ok fresh_unmapped demo_vma_ok]) (rule that)
  moreover have "binder_mmap demo_kern64 (fresh_alloc 1 0) 1 demo_vma
      = Some (0, demo_vma\<lparr>vm_flags := 0x20000\<rparr>, demo_area)"
    by (simp add: mmap_eval demo_kern64_def demo_vma_def demo_area_def Let_def replicate_4)
  ultimately show ?thesis by (simp add: mmap_done_def)
qed

lemma demo_alloc_steps64: "alloc_size demo_kern64 100 0 = 104" "binder_buffer_size demo_kern64 demo_area 65536 = 16304"
  "claimed_size demo_kern64 None 104 16304 = 184"
  by (simp_all add: alloc_size_def binder_buffer_size_def demo_area_sel size_eval64 claimed_size_def)

lemma demo_best_fit64:
  "best_fit_loop demo_kern64 demo_area 104 (Node Leaf 65536 Leaf) None = Some (None, Some 65536)"
  by (simp add: demo_alloc_steps64 demo_area_sel)

lemma demo_claim64: "claim_buffer demo_kern64 demo_area 65536 184 104 100 0 True = Some demo_busy_area64"
  by (auto simp: claim_buffer_def demo_area_def demo_busy_area64_def binder_insert_allocated_buffer_def alloc_key_def
    binder_buffer_size_def binder_insert_free_buffer_def free_dir_def key_dir_def cmp_dir_def zero_header_def
    size_eval64 Let_def)

lemma demo_range64: "binder_update_page_range demo_kern64 demo_area True 69632 69632 False = Some (0, demo_area)"
  by (simp add: binder_update_page_range_def)

lemma demo_alloc64: "binder_alloc_buf demo_kern64 demo_area 100 0 True = Some (Some 65536, demo_busy_area64)"
  by (simp add: binder_alloc_buf_def Let_def demo_alloc_steps64 demo_best_fit64 demo_area_sel size_eval64
    demo_range64 demo_claim64)

end
