(* ===== verification/Parcel_Theorems.thy ===== *)
theory Parcel_Theorems
  imports Parcel_Faults Area_Demo
begin

text \<open>The properties of parcels, with a process in which they are applied.\<close>

section \<open>Lemmas\<close>

lemma known_types:
  "f_type (strong_flat b) \<in> {BINDER_TYPE_BINDER, BINDER_TYPE_HANDLE}"
  "f_type (weak_flat wb) \<in> {BINDER_TYPE_BINDER, BINDER_TYPE_WEAK_BINDER, BINDER_TYPE_WEAK_HANDLE}"
  "f_type (file_flat fd own) = BINDER_TYPE_FD"
  by (auto simp: strong_flat_def weak_flat_def file_flat_def split: ibinder.splits option.splits)

definition known :: "nat \<Rightarrow> bool" where
  "known t \<longleftrightarrow> t \<in> {BINDER_TYPE_BINDER, BINDER_TYPE_WEAK_BINDER, BINDER_TYPE_HANDLE, BINDER_TYPE_WEAK_HANDLE, BINDER_TYPE_FD}"

lemma item_object_known:
  assumes "parcel_item_fits it" and "x \<in> set (item_objects it)"
  shows "known (f_type (flat_in (bs @ item_bytes it @ cs) (length bs + x)))"
proof (cases it)
  case (Strong b)
  then have "x = 0" and "flat_in (bs @ item_bytes it @ cs) (length bs) = strong_flat b"
    using assms flat_in_bytes [OF flats_ok(1), of b] by (auto simp: object_at_def split: if_splits)
  then show ?thesis using known_types(1) [of b] by (auto simp: known_def)
next
  case (Weak wb)
  then have "x = 0" and "flat_in (bs @ item_bytes it @ cs) (length bs) = weak_flat wb"
    using assms flat_in_bytes [OF flats_ok(2), of wb] by (auto simp: object_at_def split: if_splits)
  then show ?thesis using known_types(2) [of wb] by (auto simp: known_def)
next
  case (File fd own)
  then have "x = 0" and "flat_in (bs @ item_bytes it @ cs) (length bs) = file_flat fd own"
    using assms flat_in_bytes [OF flats_ok(3), of bs fd own] by auto
  then show ?thesis using known_types(3) [of fd own] by (simp add: known_def)
qed (use assms in simp_all)

lemma items_objects_known:
  assumes "\<forall>it \<in> set its. parcel_item_fits it" and "x \<in> set (items_objects its)"
  shows "known (f_type (flat_in (bs @ concat (map item_bytes its)) (length bs + x)))"
  using assms
proof (induction its arbitrary: bs x)
  case (Cons it its)
  show ?case
  proof (cases "x \<in> set (item_objects it)")
    case True
    then show ?thesis using item_object_known [of it x bs "concat (map item_bytes its)"] Cons.prems(1) by simp
  next
    case False
    then obtain y where "y \<in> set (items_objects its)" and "x = length (item_bytes it) + y" using Cons.prems(2) by auto
    then show ?thesis using Cons.IH [of y "bs @ item_bytes it"] Cons.prems(1) by (simp add: add.assoc)
  qed
qed simp

lemma flat_in_type: "off + sizeof_flat \<le> length bs \<Longrightarrow> f_type (flat_in bs off) = fp_type (\<lambda>i. bs ! i) off"
  by (simp add: flat_in_def Let_def fp_type_def get_u32_def sizeof_flat_def)

lemma run_result:
  assumes "appending p" and "m_allow_fds p" and "\<forall>it \<in> set its. parcel_item_fits it" and "m_data_size p + length (concat (map item_bytes its)) \<le> LIMIT"
  shows "\<exists>err q v. write_items E its p w = Some (err, q, v) \<and> others E q v = others E p w \<and> appending q
    \<and> (err = NO_ERROR \<longrightarrow> grown p (concat (map item_bytes its)) (items_objects its) q)
    \<and> (err \<noteq> NO_ERROR \<longrightarrow> (\<exists>n m. grown p (take n (concat (map item_bytes its))) (take m (items_objects its)) q))
    \<and> (lucky E p \<longrightarrow> err = NO_ERROR)"
proof -
  have "promised E (concat (map item_bytes its)) (items_objects its) p w (write_items E its p w)"
    using write_items_appends [OF assms(3), of E] assms(1,2,4) by (simp add: appends_def)
  then obtain err q v where r: "write_items E its p w = Some (err, q, v)" "others E q v = others E p w"
    and g: "if err = NO_ERROR then grown p (concat (map item_bytes its)) (items_objects its) q
      else \<exists>bs' xs'. partly (concat (map item_bytes its)) (items_objects its) bs' xs' \<and> grown p bs' xs' q"
    and l: "lucky E p \<longrightarrow> err = NO_ERROR \<and> m_error q = NO_ERROR" unfolding promised_def by blast
  show ?thesis
  proof (cases "err = NO_ERROR")
    case True
    then have "appending q" using g by (simp add: grown_def)
    then show ?thesis using r g True by simp
  next
    case False
    then obtain n m where n: "grown p (take n (concat (map item_bytes its))) (take m (items_objects its)) q"
      using g by (auto simp: partly_def)
    then have "appending q" by (simp add: grown_def)
    then show ?thesis using r n False l by blast
  qed
qed

lemma run_succeeds:
  assumes "appending p" and "m_allow_fds p" and "\<forall>it \<in> set its. parcel_item_fits it" and "m_data_size p + length (concat (map item_bytes its)) \<le> LIMIT"
    and "lucky E p"
  shows "\<exists>q v. write_items E its p w = Some (NO_ERROR, q, v) \<and> appending q \<and> grown p (concat (map item_bytes its)) (items_objects its) q"
  using run_result [OF assms(1-4), of E w] assms(5) by auto

section \<open>A process\<close>

definition parcel_demo_env :: parcel_env where
  "parcel_demo_env = \<lparr>he_ok = (\<lambda>_ _. True), he_fill = (\<lambda>_ _. 0), he_index = (\<lambda>_ _. 0), he_moves = (\<lambda>_. False), he_zero = False,
     pe_proxy = (\<lambda>_. True), pe_dup = (\<lambda>_ _. 7), pe_ashmem = (\<lambda>_ _. - 1), pe_protect = (\<lambda>_ _ _. 0), pe_map = (\<lambda>_ _ _. None),
     pe_errno = (\<lambda>_. 12)\<rparr>"

definition parcel_demo_process :: process where
  "parcel_demo_process = \<lparr>pw_ticks = 0, pw_refs = (\<lambda>_. 0), pw_closed = [], pw_returned = [], pw_unmapped = []\<rparr>"

definition parcel_demo_items :: "parcel_item list" where
  "parcel_demo_items = [Int32 5, String16 (Some [65, 66]), Strong (Proxy_Binder 3), Raw [1, 2, 3], Strong (Local_Binder 16 32), File 4 False]"

lemma parcel_demo_generous: "generous parcel_demo_env"
  by (simp add: generous_def parcel_demo_env_def)

lemma parcel_demo_length: "length (concat (map item_bytes parcel_demo_items)) = 68"
  by (simp add: parcel_demo_items_def padded_length padding_def sizeof_flat_def le_bytes16_def)

lemma parcel_demo_fits: "\<forall>it \<in> set parcel_demo_items. parcel_item_fits it" "\<forall>it \<in> set parcel_demo_items. item_valid it"
  by (simp_all add: parcel_demo_items_def)

lemma init_facts: "m_allow_fds init_state" "m_error init_state = NO_ERROR" "m_data_size init_state = 0"
  "contents init_state = []" "offsets init_state = []"
  by (simp_all add: init_state_def contents_def offsets_def)

section \<open>Writing\<close>

text \<open>
  C7. Take a parcel that owns its data, is written at its end and admits file descriptors (a parcel
  that refuses them is the matter of C40), and a run of items that are all writable (their numbers,
  descriptors and addresses fit the words they are stored in) and that leave the data below a
  gigabyte. The run returns, and what
  the parcel holds are its bytes and its offsets: when every write succeeds, the bytes of the items
  one after the other and the places of their objects have been appended; when a write fails for
  lack of memory, a part of both. Without such a failure no write fails. The pointers, the
  capacities, the truncated sizes and the reallocations of the code do not show.
\<close>

theorem parcel_run_appends:
  assumes "appending p" and "m_allow_fds p" and "\<forall>it \<in> set its. parcel_item_fits it" and "m_data_size p + length (concat (map item_bytes its)) \<le> LIMIT"
  shows "\<exists>err q v. write_items E its p w = Some (err, q, v) \<and> appending q
    \<and> (if err = NO_ERROR
       then contents q = contents p @ concat (map item_bytes its) \<and> offsets q = offsets p @ map (\<lambda>x. m_data_size p + x) (items_objects its)
       else \<exists>n m. contents q = contents p @ take n (concat (map item_bytes its))
              \<and> offsets q = offsets p @ map (\<lambda>x. m_data_size p + x) (take m (items_objects its)))
    \<and> (generous E \<and> m_error p = NO_ERROR \<longrightarrow> err = NO_ERROR)"
proof -
  obtain err q v where r: "write_items E its p w = Some (err, q, v)" "appending q"
    and ok: "err = NO_ERROR \<longrightarrow> grown p (concat (map item_bytes its)) (items_objects its) q"
    and bad: "err \<noteq> NO_ERROR \<longrightarrow> (\<exists>n m. grown p (take n (concat (map item_bytes its))) (take m (items_objects its)) q)"
    and l: "lucky E p \<longrightarrow> err = NO_ERROR"
    using run_result [OF assms, of E w] by blast
  show ?thesis
  proof (cases "err = NO_ERROR")
    case True
    then show ?thesis using r ok by (simp add: grown_def)
  next
    case False
    then obtain n m where "grown p (take n (concat (map item_bytes its))) (take m (items_objects its)) q" using bad by blast
    then show ?thesis using r l False by (auto simp: grown_def lucky_def)
  qed
qed

theorem parcel_run_appends_witness:
  "\<exists>err q v. write_items parcel_demo_env parcel_demo_items init_state parcel_demo_process = Some (err, q, v) \<and> appending q
    \<and> (if err = NO_ERROR
       then contents q = contents init_state @ concat (map item_bytes parcel_demo_items)
         \<and> offsets q = offsets init_state @ map (\<lambda>x. m_data_size init_state + x) (items_objects parcel_demo_items)
       else \<exists>n m. contents q = contents init_state @ take n (concat (map item_bytes parcel_demo_items))
         \<and> offsets q = offsets init_state @ map (\<lambda>x. m_data_size init_state + x) (take m (items_objects parcel_demo_items)))
    \<and> (generous parcel_demo_env \<and> m_error init_state = NO_ERROR \<longrightarrow> err = NO_ERROR)"
  by (rule parcel_run_appends [OF init_appending init_facts(1) parcel_demo_fits(1)]) (simp add: init_facts(3) parcel_demo_length LIMIT_def)

text \<open>
  C12. What a run of writes put into a parcel comes back, item by item, when the parcel is read
  from where the run began, and all of it is consumed: numbers of every width, raw data, C strings,
  \<^verbatim>\<open>String8\<close> and \<^verbatim>\<open>String16\<close>, strong and weak binders (a proxy for the handle, a local object by its
  address) and file descriptors.
\<close>

theorem parcel_roundtrip:
  assumes "appending p" and "m_allow_fds p" and "m_error p = NO_ERROR" and "generous E"
    and "\<forall>it \<in> set its. item_valid it" and "m_data_size p + length (concat (map item_bytes its)) \<le> LIMIT"
  shows "\<exists>q v r u. write_items E its p w = Some (NO_ERROR, q, v)
    \<and> get_items E its (set_data_position (m_data_size p) q) v = Some (map (meaning E) its, r, u) \<and> m_data_pos r = m_data_size q"
proof -
  have fits: "\<forall>it \<in> set its. parcel_item_fits it" using assms(5) item_valid_parcel_fits by blast
  obtain q v where w: "write_items E its p w = Some (NO_ERROR, q, v)" and q: "appending q" and g: "grown p (concat (map item_bytes its)) (items_objects its) q"
    using run_succeeds [OF assms(1,2) fits assms(6), of E w] assms(3,4) by (auto simp: lucky_def)
  have n: "m_data_size q = m_data_size p + length (concat (map item_bytes its))" by (rule grown_size [OF g assms(1)])
  have "length (contents p) = m_data_size p" using assms(1) by (simp add: appending_def contents_length)
  then have h: "holds q (m_data_size p) (concat (map item_bytes its))"
    using q g n assms(6) by (simp add: holds_def appending_def grown_def)
  have o: "\<forall>x \<in> set (items_objects its). m_data_size p + x \<in> set (offsets q)" using g by (simp add: grown_def)
  obtain g' u where "get_items E its (placed q (m_data_size p) 0) v
      = Some (map (meaning E) its, placed q (m_data_size p + length (concat (map item_bytes its))) g', u)"
    using reads_items [OF h assms(5) o assms(4)] by blast
  then show ?thesis using w n by (simp add: set_data_position_def placed_def)
qed

theorem parcel_roundtrip_witness:
  "\<exists>q v r u. write_items parcel_demo_env parcel_demo_items init_state parcel_demo_process = Some (NO_ERROR, q, v)
    \<and> get_items parcel_demo_env parcel_demo_items (set_data_position (m_data_size init_state) q) v
      = Some ([R_Int 5, R_Units [65, 66], R_Binder (Got_Proxy 3), R_Bytes [1, 2, 3], R_Binder (Got_Local 32), R_File 4], r, u)
    \<and> m_data_pos r = m_data_size q"
proof -
  have m: "map (meaning parcel_demo_env) parcel_demo_items
      = [R_Int 5, R_Units [65, 66], R_Binder (Got_Proxy 3), R_Bytes [1, 2, 3], R_Binder (Got_Local 32), R_File 4]"
    by (simp add: parcel_demo_items_def proxy_for_def parcel_demo_env_def)
  show ?thesis
    using parcel_roundtrip [OF init_appending init_facts(1,2) parcel_demo_generous parcel_demo_fits(2)]
    unfolding m by (simp add: init_facts(3) parcel_demo_length LIMIT_def)
qed

text \<open>
  C17. A parcel accounts for the references it holds: after any run of writes, failed or not, the
  process has the references it had and those of the recorded objects, and freeing the parcel
  returns exactly these.
\<close>

theorem parcel_references:
  assumes "\<forall>it \<in> set its. parcel_item_fits it" and "length (concat (map item_bytes its)) \<le> LIMIT"
  shows "\<exists>err q v u. write_items E its init_state w = Some (err, q, v)
    \<and> (\<forall>k. pw_refs v k = pw_refs w k + refs_held E (contents q) (offsets q) k)
    \<and> free_data E q v = Some (init_state, u) \<and> pw_refs u = pw_refs w"
proof -
  have s: "m_data_size init_state + length (concat (map item_bytes its)) \<le> LIMIT" using assms(2) by (simp add: init_facts(3))
  have i: "others E init_state w = pw_refs w" by (intro ext) (simp add: others_def init_facts refs_held_def)
  obtain err q v where w: "write_items E its init_state w = Some (err, q, v)" and o: "others E q v = pw_refs w" and q: "appending q"
    using run_result [OF init_appending init_facts(1) assms(1) s, of E w] unfolding i by blast
  obtain u where u: "free_data E q v = Some (init_state, u)" "pw_refs u = others E q v"
    using free_data_ok [of q E v] q by (auto simp: appending_def)
  have "pw_refs v k = pw_refs w k + refs_held E (contents q) (offsets q) k" for k
    using fun_cong [OF o, of k] by (simp add: others_def)
  then show ?thesis using w u o by simp
qed

theorem parcel_references_witness:
  "\<exists>err q v u. write_items parcel_demo_env parcel_demo_items init_state parcel_demo_process = Some (err, q, v)
    \<and> (\<forall>k. pw_refs v k = pw_refs parcel_demo_process k + refs_held parcel_demo_env (contents q) (offsets q) k)
    \<and> free_data parcel_demo_env q v = Some (init_state, u) \<and> pw_refs u = pw_refs parcel_demo_process"
  by (rule parcel_references [OF parcel_demo_fits(1)]) (simp add: parcel_demo_length LIMIT_def)

text \<open>
  C20. What a process writes into a parcel passes the checks the driver makes on the offsets of a
  transaction: every recorded offset leaves room for an object in front of the end of the data and
  is aligned, the offsets ascend, and the word the driver reads there is a type it knows.
\<close>

theorem parcel_passes_driver:
  assumes "\<forall>it \<in> set its. parcel_item_fits it" and "length (concat (map item_bytes its)) \<le> LIMIT" and "generous E" and "ptr_bytes K = 4"
  shows "\<exists>q v. write_items E its init_state w = Some (NO_ERROR, q, v) \<and> sorted_wrt (<) (offsets q)
    \<and> (\<forall>x \<in> set (offsets q). \<not> bad_offset K x (m_data_size q) \<and> known (fp_type (\<lambda>i. contents q ! i) x))"
proof -
  have s: "m_data_size init_state + length (concat (map item_bytes its)) \<le> LIMIT" using assms(2) by (simp add: init_facts(3))
  have l: "lucky E init_state" using assms(3) by (simp add: lucky_def init_facts)
  obtain q v where w: "write_items E its init_state w = Some (NO_ERROR, q, v)" and q: "appending q"
    and g: "grown init_state (concat (map item_bytes its)) (items_objects its) q"
    using run_succeeds [OF init_appending init_facts(1) assms(1) s l, of w] by blast
  have c: "contents q = concat (map item_bytes its)" and o: "offsets q = items_objects its"
    using g by (simp_all add: grown_def init_facts)
  have n: "m_data_size q = length (contents q)" using q by (simp add: appending_def contents_length)
  have a: "apart 0 (offsets q) (m_data_size q)" using q by (simp add: appending_def parcel_ok_def)
  have "\<not> bad_offset K x (m_data_size q) \<and> known (fp_type (\<lambda>i. contents q ! i) x)" if x: "x \<in> set (offsets q)" for x
  proof
    show "\<not> bad_offset K x (m_data_size q)" using offsets_pass [OF q assms(4) _ x] n c assms(2) by simp
    have "known (f_type (flat_in (contents q) x))" using items_objects_known [OF assms(1), of x "[]"] x c o by simp
    then show "known (fp_type (\<lambda>i. contents q ! i) x)" using flat_in_type apart_mem [OF a x] n by simp
  qed
  then show ?thesis using w apart_sorted [OF a] by blast
qed

section \<open>Reading\<close>

text \<open>
  C22. \<^verbatim>\<open>readObject\<close> with meta-data, on any parcel whose blocks have their sizes, whatever its
  offsets, its hint and its bytes: behind the last place for an object it returns nothing and changes
  nothing. Else it moves the position behind the object and perhaps the hint, and what it returns is
  the object at the position, only if its offset is recorded: no parcel, hostile or not, has bytes
  taken for an object without a record. When the offsets ascend, as a \<^verbatim>\<open>Parcel\<close> writes them, it
  returns every recorded object, so that the two loops from the hint decide membership. The driver
  does not ask for ascending offsets: in a received parcel whose offsets do not ascend a recorded
  object can be missed, and the witness shows one.
\<close>

theorem read_object_exact:
  assumes "readable p"
  shows "\<exists>r q. read_object True p = Some (r, q)
    \<and> (if m_data_pos p + sizeof_flat \<le> m_data_size p
       then (\<exists>h. q = p\<lparr>m_data_pos := m_data_pos p + sizeof_flat, m_next_object_hint := h\<rparr>)
         \<and> (r \<noteq> None \<longrightarrow> r = Some (m_data_pos p) \<and> m_data_pos p \<in> set (offsets p))
         \<and> (sorted_wrt (<) (offsets p) \<and> m_data_pos p \<in> set (offsets p) \<longrightarrow> r = Some (m_data_pos p))
       else r = None \<and> q = p)"
proof -
  let ?a = "m_data_pos p"
  have t: "szt 4 (?a + sizeof_flat) = ?a + sizeof_flat" using assms by (simp add: readable_def sizeof_flat_def szt_id)
  have n: "m_objects_size p = length (offsets p)"
    using assms by (auto simp: readable_def offsets_def split: block.splits)
  have get: "\<forall>i < m_objects_size p. block_get (m_objects p) i = Some (offsets p ! i)"
    using assms by (auto simp: readable_def block_get_def offsets_def load_at_def split: block.splits)
  obtain r where r: "find_object (m_objects p) (m_objects_size p) (m_next_object_hint p) ?a = Some r"
    and e: "case r of Some i \<Rightarrow> i < m_objects_size p \<and> offsets p ! i = ?a
      | None \<Rightarrow> sorted_wrt (<) (offsets p) \<longrightarrow> ?a \<notin> set (offsets p)"
    using find_object_ok [OF get n] by blast
  have same: "\<exists>h. p\<lparr>m_data_pos := ?a + sizeof_flat\<rparr> = p\<lparr>m_data_pos := ?a + sizeof_flat, m_next_object_hint := h\<rparr>"
    by (rule exI [of _ "m_next_object_hint p"]) simp
  show ?thesis
  proof (cases r)
    case None
    then show ?thesis using r t e same by (simp add: read_object_def Let_def)
  next
    case (Some i)
    then have "?a \<in> set (offsets p)" using e n by (auto simp: in_set_conv_nth)
    then show ?thesis using r t Some by (auto simp: read_object_def Let_def)
  qed
qed

definition demo_parcel :: parcel where
  "demo_parcel = init_state\<lparr>m_data := Block (flat_bytes (file_flat 4 True)), m_data_size := 16, m_data_capacity := 16, m_data_pos := 16,
     m_objects := Block [0], m_objects_size := 1, m_objects_capacity := 1, m_has_fds := True\<rparr>"

lemma demo_parcel_appending: "appending demo_parcel" "parcel_ok demo_parcel"
  by (simp_all add: appending_def parcel_ok_def demo_parcel_def init_state_def offsets_def sizeof_flat_def)

lemma demo_parcel_offsets: "offsets demo_parcel = [0]"
  by (simp add: demo_parcel_def offsets_def)

text \<open>Two recorded offsets that do not ascend: the first object is not found from hint 0.\<close>

definition demo_disordered :: parcel where
  "demo_disordered = init_state\<lparr>m_data := Block (replicate 48 0), m_data_size := 48, m_data_capacity := 48,
     m_objects := Block [32, 0], m_objects_size := 2, m_objects_capacity := 2\<rparr>"

theorem read_object_exact_witness:
  "(\<exists>h. read_object True (demo_parcel\<lparr>m_data_pos := 0, m_next_object_hint := 9\<rparr>)
     = Some (Some 0, demo_parcel\<lparr>m_data_pos := 16, m_next_object_hint := h\<rparr>))
   \<and> (\<exists>r q. read_object True demo_disordered = Some (r, q)) \<and> map_option fst (read_object True demo_disordered) = Some None
   \<and> 0 \<in> set (offsets demo_disordered)"
proof -
  have "readable (demo_parcel\<lparr>m_data_pos := 0, m_next_object_hint := 9\<rparr>)" and d: "readable demo_disordered"
    by (simp_all add: readable_def demo_parcel_def demo_disordered_def init_state_def sizeof_flat_def)
  from read_object_exact [OF this(1)]
  have "\<exists>h. read_object True (demo_parcel\<lparr>m_data_pos := 0, m_next_object_hint := 9\<rparr>)
     = Some (Some 0, demo_parcel\<lparr>m_data_pos := 16, m_next_object_hint := h\<rparr>)"
    by (auto simp: demo_parcel_def offsets_def sizeof_flat_def)
  moreover have "map_option fst (read_object True demo_disordered) = Some None"
    by (simp add: read_object_def find_object_def demo_disordered_def init_state_def block_get_def load_at_def sizeof_flat_def
        szt_def Let_def)
  ultimately show ?thesis using read_object_exact [OF d] by (auto simp: demo_disordered_def offsets_def)
qed

text \<open>
  C21. Reads of a parcel somebody else filled stay inside its data, whatever the bytes and the offsets
  are: any sequence of reads of numbers, raw data, \<^verbatim>\<open>String8\<close>, binders and descriptors returns, and
  only the position and the hint have moved, the position within the data.
\<close>

theorem guarded_reads_inside:
  assumes "readable p" and "\<forall>it \<in> set its. guarded_read it"
  shows "\<exists>rs q v. get_items E its p w = Some (rs, q, v) \<and> readable q
    \<and> q = p\<lparr>m_data_pos := m_data_pos q, m_next_object_hint := m_next_object_hint q\<rparr>"
proof -
  obtain rs q v where r: "get_items E its p w = Some (rs, q, v)" and m: "moved p q" using get_items_inside [OF assms] by blast
  then show ?thesis using moved_readable [OF assms(1) m] by (simp add: moved_def placed_def)
qed

text \<open>
  C38. \<^verbatim>\<open>readString16Inplace\<close> trusts the length word \<open>0x7FFFFFFE\<close>: the size in bytes, \<open>0xFFFFFFFE\<close>, is rounded up
  to 0, so the bounds check passes and the caller gets a pointer with a length that exceeds the data by
  far. \<^verbatim>\<open>readString16\<close> then writes behind a block of 14 bytes.
\<close>

theorem hostile_string16:
  assumes "readable p" and "m_data_pos p + 4 \<le> m_data_size p" and "block_read (m_data p) (m_data_pos p) 4 = Some (le_bytes 0x7FFFFFFE)"
  shows "read_string16_inplace p = Some (Some (m_data_pos p + 4), 0x7FFFFFFE, p\<lparr>m_data_pos := m_data_pos p + 4\<rparr>)
    \<and> m_data_size p < m_data_pos p + 4 + 2 * 0x7FFFFFFE
    \<and> (he_ok E (pw_ticks w) 14 \<longrightarrow> read_string16 E p w = None)"
proof (intro conjI impI)
  show "read_string16_inplace p = Some (Some (m_data_pos p + 4), 0x7FFFFFFE, p\<lparr>m_data_pos := m_data_pos p + 4\<rparr>)"
    by (rule huge_string16(1) [OF assms])
  show "m_data_size p < m_data_pos p + 4 + 2 * 0x7FFFFFFE" using assms(1) by (simp add: readable_def)
  show "read_string16 E p w = None" if "he_ok E (pw_ticks w) 14" by (rule huge_string16(2) [OF assms that])
qed

section \<open>What goes wrong\<close>

text \<open>
  C39. Shrinking a parcel of one's own that cuts off objects leaves the recorded capacity of the array
  of offsets as it was, although the array has been reallocated to a smaller one (or, for no
  objects, freed): the next write of an object goes beyond the array.
\<close>

theorem shrunk_parcel_overruns:
  assumes "appending p" and "m_data_size p \<le> LIMIT" and "generous E" and "m_data_capacity p < 2 ^ 32"
    and "offsets p \<noteq> []" and "n \<le> last (offsets p)"
  shows "\<exists>q v. set_data_size E n p w = Some (NO_ERROR, q, v) \<and> write_file_descriptor E fd own q v = None"
proof -
  obtain q v where q: "set_data_size E n p w = Some (NO_ERROR, q, v)" and c: "cut_objects (m_objects q) (m_objects_size q)"
    "m_objects_size q < m_objects_capacity q" "m_data_pos q = n" "n + sizeof_flat \<le> m_data_capacity q"
    "m_data q = m_data p" "m_data_capacity q = m_data_capacity p"
    using set_data_size_cuts [OF assms(1-3,5,6)] by blast
  have "m_data_capacity p \<noteq> 0" using c(4,6) by (simp add: sizeof_flat_def)
  then obtain d where "m_data p = Block d" and "length d = m_data_capacity p"
    using assms(1) by (auto simp: appending_def parcel_ok_def block_ok_def split: block.splits)
  then have "write_file_descriptor E fd own q v = None"
    using overrun_after_cut [OF c(1,2), of d E fd own v] c(3-6) assms(4) by simp
  then show ?thesis using q by blast
qed

text \<open>
  C40. When a parcel does not allow descriptors, \<^verbatim>\<open>writeDupFileDescriptor\<close> fails and closes its duplicate,
  but \<^verbatim>\<open>writeObject\<close> has recorded the object already: freeing the parcel closes the same number a
  second time, which by then may be another file.
\<close>

theorem refused_descriptor_closed_twice:
  assumes "appending p" and "\<not> m_allow_fds p" and "m_data_size p + sizeof_flat \<le> LIMIT" and "generous E"
    and "pe_dup E (pw_ticks w) fd = d" and "0 \<le> d" and "d < 2 ^ 31"
  shows "\<exists>q v u bs cs. write_dup_file_descriptor E fd p w = Some (FDS_NOT_ALLOWED, q, v) \<and> pw_closed v = bs @ [d]
    \<and> free_data E q v = Some (init_state, u) \<and> pw_closed u = bs @ d # d # cs"
proof -
  obtain q v where r: "write_file_descriptor E d True p (pw_tick w) = Some (FDS_NOT_ALLOWED, q, v)" and f: "refused q d True"
    using write_refused [OF assms(1-4), of d True "pw_tick w"] by blast
  obtain u cs where "free_data E q (close_file d v) = Some (init_state, u)" and "pw_closed u = pw_closed (close_file d v) @ d # cs"
    using free_closes_again [OF f assms(6,7), of E "close_file d v"] by blast
  moreover have "write_dup_file_descriptor E fd p w = Some (FDS_NOT_ALLOWED, q, close_file d v)"
    using r assms(5,6) by (simp add: write_dup_file_descriptor_def dup_file_def) (simp add: FDS_NOT_ALLOWED_def)
  ultimately show ?thesis by (simp add: close_file_def)
qed

section \<open>The same at work\<close>

theorem parcel_passes_driver_witness:
  "\<exists>q v. write_items parcel_demo_env parcel_demo_items init_state parcel_demo_process = Some (NO_ERROR, q, v) \<and> sorted_wrt (<) (offsets q)
    \<and> (\<forall>x \<in> set (offsets q). \<not> bad_offset demo_kern x (m_data_size q) \<and> known (fp_type (\<lambda>i. contents q ! i) x))"
  by (rule parcel_passes_driver [OF parcel_demo_fits(1) _ parcel_demo_generous]) (simp_all add: parcel_demo_length LIMIT_def)

lemma parcel_demo_readable: "readable (demo_parcel\<lparr>m_data_pos := 0\<rparr>)"
  by (simp add: readable_def demo_parcel_def init_state_def sizeof_flat_def)

theorem guarded_reads_inside_witness:
  "\<exists>rs q v. get_items parcel_demo_env [Int32 0, String8 [], Strong No_Binder, File 0 False] (demo_parcel\<lparr>m_data_pos := 0\<rparr>) parcel_demo_process = Some (rs, q, v)
    \<and> readable q \<and> q = demo_parcel\<lparr>m_data_pos := m_data_pos q, m_next_object_hint := m_next_object_hint q\<rparr>"
  using guarded_reads_inside [OF parcel_demo_readable, of "[Int32 0, String8 [], Strong No_Binder, File 0 False]" parcel_demo_env parcel_demo_process] by simp

definition hostile_parcel :: parcel where
  "hostile_parcel = init_state\<lparr>m_data := Block (le_bytes 0x7FFFFFFE), m_data_size := 4, m_data_capacity := 4\<rparr>"

theorem hostile_string16_witness:
  "read_string16_inplace hostile_parcel = Some (Some 4, 0x7FFFFFFE, hostile_parcel\<lparr>m_data_pos := 4\<rparr>)
    \<and> read_string16 parcel_demo_env hostile_parcel parcel_demo_process = None"
proof -
  have "readable hostile_parcel" by (simp add: readable_def hostile_parcel_def init_state_def)
  moreover have "m_data_pos hostile_parcel = 0" by (simp add: hostile_parcel_def init_state_def)
  moreover have "m_data_size hostile_parcel = 4" by (simp add: hostile_parcel_def)
  moreover have "block_read (m_data hostile_parcel) 0 4 = Some (le_bytes 0x7FFFFFFE)"
    by (simp add: hostile_parcel_def block_read_def le_bytes_def)
  ultimately show ?thesis using hostile_string16 [of hostile_parcel parcel_demo_env parcel_demo_process] by (simp add: parcel_demo_env_def)
qed

theorem shrunk_parcel_overruns_witness:
  "\<exists>q v. set_data_size parcel_demo_env 0 demo_parcel parcel_demo_process = Some (NO_ERROR, q, v) \<and> write_file_descriptor parcel_demo_env 5 False q v = None"
  by (rule shrunk_parcel_overruns [OF demo_parcel_appending(1) _ parcel_demo_generous])
    (simp_all add: demo_parcel_offsets, simp_all add: demo_parcel_def LIMIT_def)

theorem refused_descriptor_closed_twice_witness:
  "\<exists>q v u bs cs. write_dup_file_descriptor parcel_demo_env 4 (demo_parcel\<lparr>m_allow_fds := False\<rparr>) parcel_demo_process = Some (FDS_NOT_ALLOWED, q, v)
    \<and> pw_closed v = bs @ [7] \<and> free_data parcel_demo_env q v = Some (init_state, u) \<and> pw_closed u = bs @ 7 # 7 # cs"
proof -
  have "appending (demo_parcel\<lparr>m_allow_fds := False\<rparr>)"
    by (simp add: appending_def parcel_ok_def demo_parcel_def init_state_def offsets_def sizeof_flat_def)
  then show ?thesis
    by (rule refused_descriptor_closed_twice [OF _ _ _ parcel_demo_generous]) (simp_all add: demo_parcel_def LIMIT_def sizeof_flat_def parcel_demo_env_def)
qed

end
