(* ===== verification/Driver_Release.thy ===== *)
theory Driver_Release
  imports Driver_Objects
begin

text \<open>
  The invariant of the driver survives the operations on references, failed replies, and the
  release of what a buffer refers to.
\<close>

section \<open>References\<close>

lemma get_ref_for_node_inv [inv_intros]:
  assumes code: "binder_get_ref_for_node K proc node s = Some (r, s')" and inv: "driver_inv K s"
  shows "driver_inv K s'"
proof -
  obtain p found where p: "procs s proc = Some p"
    and f: "rb_search (key_dir (ref_node_key s) node) (pr_refs_by_node p) = Some found"
    using code by (auto simp: binder_get_ref_for_node_def bind_eq_Some_conv)
  consider (old) "found \<noteq> None" | (fail) s1 where "found = None" "kmalloc K BINDER_STAT_REF s = (None, s1)"
    | (new) ref s1 where "found = None" "kmalloc K BINDER_STAT_REF s = (Some ref, s1)"
    by (cases found; cases "kmalloc K BINDER_STAT_REF s"; cases "fst (kmalloc K BINDER_STAT_REF s)") auto
  then show ?thesis
  proof cases
    case old
    then show ?thesis using code p f inv by (auto simp: binder_get_ref_for_node_def)
  next
    case fail
    then have "s' = s1" using code p f by (simp add: binder_get_ref_for_node_def)
    then show ?thesis using core_inv [OF kmalloc_none [OF fail(2)] inv] by simp
  next
    case new
    note M = kmalloc_some [OF driver_invD(1) [OF inv] new(2)]
    obtain n t u x where n: "nodes s node = Some n" and s': "s' = set_node node (n\<lparr>n_refs := ref # n_refs n\<rparr>)
       (set_ref ref x (set_proc proc (p\<lparr>pr_refs_by_node := t, pr_refs_by_desc := u\<rparr>)
         ((binder_stats_created BINDER_STAT_REF s1)\<lparr>binder_last_id := Suc (binder_last_id (binder_stats_created BINDER_STAT_REF s1))\<rparr>)))"
      using code p f new
      by (auto simp: binder_get_ref_for_node_def bind_eq_Some_conv Let_def M(1) binder_stats_created_def)
    have "procs_good K s'"
      using inv p by (auto simp: driver_inv_def procs_good_def s' M(1) binder_stats_created_def
          set_proc_def set_node_def set_ref_def proc_good_def)
    then have "created K BINDER_STAT_REF ref s s'"
      using M(2) p n by (auto simp: created_def s' M(1) binder_stats_created_def set_proc_def set_node_def set_ref_def)
    then show ?thesis using inv by (rule created_inv)
  qed
qed

lemma free_ref_death_inv [inv_intros]:
  assumes "free_ref_death d s = Some s'" and "driver_inv K s"
  shows "driver_inv K s'"
proof (cases d)
  case (Some x)
  with assms(1) obtain s1 s2 where 1: "list_del (W_Death x) s = Some s1" and 2: "kfree BINDER_STAT_DEATH x s1 = Some s2"
    and s': "s' = binder_stats_deleted BINDER_STAT_DEATH (s2\<lparr>deaths := (deaths s2)(x := None)\<rparr>)"
    by (auto simp: free_ref_death_def bind_eq_Some_conv)
  have "driver_inv K s1" by (rule list_inv(1) [OF 1 assms(2)])
  moreover have "freed BINDER_STAT_DEATH x s1 s'"
    using 2 by (auto simp: s' kfree_def freed_def binder_stats_deleted_def split: if_splits)
  ultimately show ?thesis using freed_inv by blast
qed (use assms in \<open>simp add: free_ref_death_def\<close>)

lemma free_ref_inv:
  assumes "kfree BINDER_STAT_REF ref s = Some s1" and "driver_inv K s"
  shows "driver_inv K (binder_stats_deleted BINDER_STAT_REF (s1\<lparr>refs := (refs s1)(ref := None)\<rparr>))"
  by (rule freed_inv [OF _ assms(2), of BINDER_STAT_REF ref])
    (use assms(1) in \<open>auto simp: kfree_def freed_def binder_stats_deleted_def split: if_splits\<close>)

lemma delete_ref_inv [inv_intros]:
  assumes code: "binder_delete_ref K ref s = Some s'" and inv: "driver_inv K s"
  shows "driver_inv K s'"
proof -
  let ?s1 = "\<lambda>r p. set_proc (r_proc r) (p\<lparr>pr_refs_by_desc := rb_erase K ref (pr_refs_by_desc p),
                                       pr_refs_by_node := rb_erase K ref (pr_refs_by_node p)\<rparr>) s"
  obtain r p s2 n s4 s5 s6 where "refs s ref = Some r" and p: "procs s (r_proc r) = Some p"
    and 2: "(if r_strong r \<noteq> 0 then map_option snd (binder_dec_node K (r_node r) True True (?s1 r p))
             else Some (?s1 r p)) = Some s2"
    and n: "nodes s2 (r_node r) = Some n"
    and 4: "map_option snd (binder_dec_node K (r_node r) False True (set_node (r_node r) (n\<lparr>n_refs := remove1 ref (n_refs n)\<rparr>) s2)) = Some s4"
    and 5: "free_ref_death (r_death r) s4 = Some s5" and 6: "kfree BINDER_STAT_REF ref s5 = Some s6"
    and s': "binder_stats_deleted BINDER_STAT_REF (s6\<lparr>refs := (refs s6)(ref := None)\<rparr>) = s'"
    using code unfolding binder_delete_ref_def bind_eq_Some_conv Let_def option.inject by blast
  have i1: "driver_inv K (?s1 r p)"
    using set_proc_inv [OF inv] p proc_refs_good [OF driver_invD(4) [OF inv p]] by simp
  have i2: "driver_inv K s2" using 2 i1 by (auto elim: dec_node_inv split: if_splits)
  have "driver_inv K (set_node (r_node r) (n\<lparr>n_refs := remove1 ref (n_refs n)\<rparr>) s2)"
    using set_node_inv [OF i2] n by simp
  then have i4: "driver_inv K s4" using 4 by (auto elim: dec_node_inv)
  have i5: "driver_inv K s5" by (rule free_ref_death_inv [OF 5 i4])
  show ?thesis unfolding s' [symmetric] by (rule free_ref_inv [OF 6 i5])
qed

lemma list_refs:
  "list_del_init w s = Some s' \<Longrightarrow> refs s' = refs s"
  "list_add_tail w l s = Some s' \<Longrightarrow> refs s' = refs s"
  using list_core(2,3) same_coreD(4) by blast+

lemma node_ops_refs:
  "binder_inc_node node strong internal l s = Some (r, s') \<Longrightarrow> refs s' = refs s"
  by (auto simp: binder_inc_node_def Let_def dest!: list_refs split: bind_splits if_splits option.splits)

lemma inc_ref_inv [inv_intros]:
  assumes "binder_inc_ref ref strong l s = Some (r, s')" and inv: "driver_inv K s"
  shows "driver_inv K s'"
proof -
  obtain x where x: "refs s ref = Some x" using assms(1) by (auto simp: binder_inc_ref_def bind_eq_Some_conv)
  obtain ret s1 where 1: "(if (if strong then r_strong x = 0 else r_weak x = 0)
      then binder_inc_node (r_node x) strong True l s else Some (0, s)) = Some (ret, s1)"
    and s': "ret \<noteq> 0 \<and> s' = s1 \<or> (\<exists>y. s' = set_ref ref y s1)"
    using assms(1) x by (auto simp: binder_inc_ref_def bind_eq_Some_conv split: if_splits)
  have "driver_inv K s1" using 1 inv by (auto elim: inc_node_inv split: if_splits)
  moreover have "refs s1 = refs s" using 1 by (auto dest: node_ops_refs split: if_splits)
  ultimately show ?thesis using s' x set_ref_inv by auto
qed

lemma dec_ref_inv [inv_intros]:
  assumes "binder_dec_ref K ref strong s = Some (r, s')" and inv: "driver_inv K s"
  shows "driver_inv K s'"
proof -
  obtain x where x: "refs s ref = Some x" using assms(1) by (auto simp: binder_dec_ref_def bind_eq_Some_conv)
  have i1: "driver_inv K (set_ref ref y s)" for y using set_ref_inv [OF inv] x by simp
  show ?thesis
    using assms(1) x i1 inv
    by (auto simp: binder_dec_ref_def bind_eq_Some_conv Let_def elim!: delete_ref_inv dec_node_inv split: if_splits)
qed

section \<open>Failed replies\<close>

lemma pop_stack_inv [inv_intros]:
  "pop_stack tt t x s = Some s' \<Longrightarrow> driver_inv K s \<Longrightarrow> driver_inv K s'"
  by (auto simp: pop_stack_def intro!: set_thread_inv split: option.splits bind_splits if_splits)

lemma pop_inv [inv_intros]:
  "binder_pop_transaction tt t s = Some s' \<Longrightarrow> driver_inv K s \<Longrightarrow> driver_inv K s'"
  by (auto simp: binder_pop_transaction_def bind_eq_Some_conv elim!: pop_stack_inv clear_buffer_inv free_transaction_inv)

lemma thread_error_inv [inv_intros]:
  assumes "thread_error th t e s = Some s'" and inv: "driver_inv K s"
  shows "driver_inv K s'"
proof -
  obtain h where h: "threads s th = Some h" using assms(1) by (auto simp: thread_error_def bind_eq_Some_conv)
  have i: "driver_inv K (set_thread th h1 s)" for h1 using set_thread_inv [OF inv] h by simp
  have j: "driver_inv K (set_thread th z s2)"
    if "binder_pop_transaction (Some th) t (set_thread th h1 s) = Some s2" "threads s2 th = Some h2" for h1 s2 h2 z
    using set_thread_inv [OF pop_inv [OF that(1) i]] that(2) by simp
  show ?thesis
    using assms(1) h by (auto simp: thread_error_def bind_eq_Some_conv Let_def intro: i j split: if_splits)
qed

lemma send_failed_reply_loop_inv: "send_failed_reply_loop t e s = Some s' \<Longrightarrow> driver_inv K s \<Longrightarrow> driver_inv K s'"
proof (induction t e s rule: send_failed_reply_loop.induct)
  case (1 t e s)
  have parent: "driver_inv K s'" if "transactions s t = Some x" "t_from x = None" "t_from_parent x = Some t'"
    "binder_pop_transaction None t s = Some s1" "send_failed_reply_loop t' e s1 = Some s'" for x t' s1
    using 1(1) [OF that(1,2,4,3,5) pop_inv [OF that(4) 1(3)]] .
  from 1(2,3) show ?case
    by (subst (asm) send_failed_reply_loop.simps)
      (auto split: option.splits elim: thread_error_inv pop_inv parent)
qed

lemma send_failed_reply_inv [inv_intros]:
  "binder_send_failed_reply t e s = Some s' \<Longrightarrow> driver_inv K s \<Longrightarrow> driver_inv K s'"
  by (auto simp: binder_send_failed_reply_def bind_eq_Some_conv elim!: send_failed_reply_loop_inv split: if_splits)

section \<open>Releasing a buffer\<close>

lemma task_close_fd_inv: "task_close_fd K proc fd s = Some (r, s') \<Longrightarrow> driver_inv K s \<Longrightarrow> driver_inv K s'"
  by (auto simp: task_close_fd_def bind_eq_Some_conv split: option.splits)

lemma release_object_inv [inv_intros]:
  "release_object K proc m off failed s = Some s' \<Longrightarrow> driver_inv K s \<Longrightarrow> driver_inv K s'"
  by (auto simp: release_object_def Let_def bind_eq_Some_conv elim!: dec_node_inv dec_ref_inv task_close_fd_inv
      split: if_splits option.splits)

lemma release_loop_inv: "release_loop K proc h failed i n s = Some s' \<Longrightarrow> driver_inv K s \<Longrightarrow> driver_inv K s'"
proof (induction n arbitrary: i s)
  case (Suc n)
  then show ?case
    by (auto simp: Let_def bind_eq_Some_conv split: if_splits dest: release_object_inv)
qed simp

lemma buffer_release_inv [inv_intros]:
  "binder_transaction_buffer_release K proc b failed s = Some s' \<Longrightarrow> driver_inv K s \<Longrightarrow> driver_inv K s'"
  by (auto simp: binder_transaction_buffer_release_def bind_eq_Some_conv elim!: release_loop_inv dec_node_inv
      split: option.splits)

end
