(* ===== verification/Driver_Transaction.thy ===== *)
theory Driver_Transaction
  imports Driver_Release
begin

text \<open>The invariant of the driver survives \<open>binder_transaction\<close>, on every path.\<close>

section \<open>Files and buffers\<close>

lemma get_unused_fd_inv: "task_get_unused_fd_flags K proc s = Some (r, s') \<Longrightarrow> driver_inv K s \<Longrightarrow> driver_inv K s'"
  by (auto simp: task_get_unused_fd_flags_def bind_eq_Some_conv split: if_splits)

lemma fd_install_inv: "task_fd_install proc fd f s = Some s' \<Longrightarrow> driver_inv K s \<Longrightarrow> driver_inv K s'"
  by (auto simp: task_fd_install_def bind_eq_Some_conv split: option.splits)

lemma buf_put_inv [inv_intros]:
  assumes "buf_put b off v s = Some s'" and "driver_inv K s"
  shows "driver_inv K s'"
proof -
  obtain h where h: "buf_get s b = Some h" "buf_set b (h\<lparr>b_data := put_u32 (b_data h) off v\<rparr>) s = Some s'"
    using assms(1) by (auto simp: buf_put_def bind_eq_Some_conv)
  show ?thesis by (rule buf_set_inv [OF assms(2) h(1) _ h(2)]) (simp add: same_shape_def)
qed

section \<open>Translating objects\<close>

lemma tx_new_node_inv:
  assumes "binder_new_node K p ptr c s = Some (Some node, s1)" and "driver_inv K s" and "nodes s1 node = Some n"
  shows "driver_inv K (set_node node n' s1)"
  using set_node_inv [OF new_node_inv [OF assms(1,2)]] assms(3) by simp

lemma tx_binder_inv [inv_intros]:
  assumes code: "tx_binder K x m off s = Some (r, s')" and inv: "driver_inv K s"
  shows "driver_inv K s'"
proof -
  obtain found where f: "binder_get_node s (x_proc x) (fp_handle m off) = Some found"
    using code by (auto simp: tx_binder_def bind_eq_Some_conv)
  let ?get = "case found of
           Some node \<Rightarrow> Some (Some node, s)
         | None \<Rightarrow>
             do {
               (res, s1) \<leftarrow> binder_new_node K (x_proc x) (fp_handle m off) (fp_cookie m off) s;
               (case res of
                  None \<Rightarrow> Some (None, s1)
                | Some node \<Rightarrow>
                    do {
                      n \<leftarrow> nodes s1 node;
                      Some (Some node, set_node node
                        (n\<lparr>n_min_priority := fp_flags m off mod 256,
                           n_accept_fds := (fp_flags m off div 256 mod 2 = 1)\<rparr>) s1)
                    })
             }"
  obtain node s1 where g: "?get = Some (node, s1)"
    using code f unfolding tx_binder_def by (cases ?get) auto
  have i1: "driver_inv K s1"
    using g inv by (auto simp: bind_eq_Some_conv intro: tx_new_node_inv elim: new_node_inv split: option.splits)
  show ?thesis
  proof (cases node)
    case None
    then show ?thesis using code f g i1 unfolding tx_binder_def by simp
  next
    case (Some nd)
    show ?thesis
      using code f g i1 Some unfolding tx_binder_def
      by (auto simp: bind_eq_Some_conv Let_def elim!: get_ref_for_node_inv buf_put_inv inc_ref_inv
          split: if_splits option.splits)
  qed
qed

lemma tx_handle_inv [inv_intros]:
  "tx_handle K x m off s = Some (r, s') \<Longrightarrow> driver_inv K s \<Longrightarrow> driver_inv K s'"
  by (auto simp: tx_handle_def bind_eq_Some_conv Let_def elim!: get_ref_for_node_inv buf_put_inv inc_ref_inv inc_node_inv
      split: if_splits option.splits)

lemma tx_fd_inv [inv_intros]:
  "tx_fd K c x m off s = Some (r, s') \<Longrightarrow> driver_inv K s \<Longrightarrow> driver_inv K s'"
  by (auto simp: tx_fd_def bind_eq_Some_conv elim!: buf_put_inv fd_install_inv get_unused_fd_inv
      split: if_splits option.splits)

lemma tx_object_inv [inv_intros]:
  "tx_object K c x m off s = Some (r, s') \<Longrightarrow> driver_inv K s \<Longrightarrow> driver_inv K s'"
  by (auto simp: tx_object_def Let_def elim!: tx_binder_inv tx_handle_inv tx_fd_inv split: if_splits)

lemma tx_objects_inv: "tx_objects K c x i n s = Some (r, s') \<Longrightarrow> driver_inv K s \<Longrightarrow> driver_inv K s'"
proof (induction n arbitrary: i s)
  case (Suc n)
  then show ?case
    by (auto simp: Let_def bind_eq_Some_conv split: if_splits option.splits dest: tx_object_inv)
qed simp

section \<open>The buffer of a transaction\<close>

lemma buf_data_inv:
  assumes "driver_inv K s" and "buf_get s b = Some h" and "buf_set b (h\<lparr>b_data := d\<rparr>) s = Some s'"
  shows "driver_inv K s'"
  by (rule buf_set_inv [OF assms(1,2) _ assms(3)]) (simp add: same_shape_def)

lemma tx_fill_inv [inv_intros]:
  assumes code: "tx_fill K c x tr s = Some (r, s')" and inv: "driver_inv K s"
  shows "driver_inv K s'"
proof -
  obtain data s1 where 1: "copy_from_user K (td_buffer tr) (td_data_size tr) s = (data, s1)" by fastforce
  have i1: "driver_inv K s1" by (rule user_inv(1) [OF 1 inv])
  show ?thesis
  proof (cases data)
    case None
    then show ?thesis using code 1 i1 by (simp add: tx_fill_def)
  next
    case (Some bs)
    with code 1 obtain h s2 where 2: "buf_get s1 (x_buf x) = Some h"
      "buf_set (x_buf x) (h\<lparr>b_data := put_bytes (b_data h) 0 bs\<rparr>) s1 = Some s2"
      by (auto simp: tx_fill_def bind_eq_Some_conv)
    have i2: "driver_inv K s2" by (rule buf_data_inv [OF i1 2])
    obtain offs s3 where 3: "copy_from_user K (td_offsets tr) (td_offsets_size tr) s2 = (offs, s3)" by fastforce
    have i3: "driver_inv K s3" by (rule user_inv(1) [OF 3 i2])
    show ?thesis
    proof (cases offs)
      case None
      then show ?thesis using code 1 2 3 Some i3 by (simp add: tx_fill_def)
    next
      case (Some os)
      with code 1 2 3 \<open>data = Some bs\<close> obtain h' s4 where 4: "buf_get s3 (x_buf x) = Some h'"
        "buf_set (x_buf x) (h'\<lparr>b_data := put_bytes (b_data h') (offsets_start K (td_data_size tr)) os\<rparr>) s3 = Some s4"
        "(if td_offsets_size tr mod 4 \<noteq> 0 then Some (Some (0, BR_FAILED_REPLY), s4)
          else tx_objects K c x 0 (td_offsets_size tr div 4) s4) = Some (r, s')"
        by (auto simp: tx_fill_def bind_eq_Some_conv)
      have "driver_inv K s4" by (rule buf_data_inv [OF i3 4(1,2)])
      then show ?thesis using 4(3) by (auto elim: tx_objects_inv split: if_splits)
    qed
  qed
qed

lemma tx_undo_inv [inv_intros]:
  "tx_undo_buffer K x i s = Some s' \<Longrightarrow> driver_inv K s \<Longrightarrow> driver_inv K s'"
  by (auto simp: tx_undo_buffer_def bind_eq_Some_conv elim!: buffer_release_inv clear_buffer_inv free_buffer_inv)

text \<open>Queueing: which list, and what changes on the way.\<close>

lemma tx_target_list_inv:
  assumes "tx_target_list thread tg reply t x h s = Some (l, s')" and inv: "driver_inv K s"
    and "transactions s t = Some x"
  shows "driver_inv K s'"
  using assms(1) inv set_transaction_inv [OF inv, of t] assms(3)
  by (auto simp: tx_target_list_def bind_eq_Some_conv Let_def intro!: set_thread_inv set_node_inv elim!: pop_inv
      split: if_splits)

lemma tx_queue_inv [inv_intros]:
  "tx_queue proc thread tg reply t c b s = Some s' \<Longrightarrow> driver_inv K s \<Longrightarrow> driver_inv K s'"
  by (auto simp: tx_queue_def bind_eq_Some_conv elim!: list_inv tx_target_list_inv)

section \<open>The handler\<close>

lemma proc_alloc_inv:
  assumes inv: "driver_inv K s" and p: "procs s q = Some p"
    and code: "binder_alloc_buf K (pr_alloc p) d os async = Some (r, a)"
    and ds: "d < 2 ^ (8 * ptr_bytes K)" "os < 2 ^ (8 * ptr_bytes K)"
  shows "driver_inv K (set_proc q (p\<lparr>pr_alloc := a\<rparr>) s)"
proof -
  have g: "proc_good K p" by (rule driver_invD(4) [OF inv p])
  then have "area_state K a"
    using alloc_state [OF driver_invD(1) [OF inv] _ ds code] by (simp add: proc_good_def)
  then show ?thesis using set_proc_inv [OF inv] p proc_area [OF g] by simp
qed

definition tx_bounds :: "kern \<Rightarrow> tx_data \<Rightarrow> bool" where
  "tx_bounds K tr \<longleftrightarrow> td_data_size tr < 2 ^ (8 * ptr_bytes K) \<and> td_offsets_size tr < 2 ^ (8 * ptr_bytes K)"

lemma tx_alloc_buf_inv [inv_intros]:
  assumes code: "tx_alloc_buf K tg tr reply t s = Some (r, s')" and inv: "driver_inv K s" and v: "tx_bounds K tr"
  shows "driver_inv K s'"
proof -
  obtain p x res a where p: "procs s (tg_proc tg) = Some p" and x: "transactions s t = Some x"
    and al: "binder_alloc_buf K (pr_alloc p) (td_data_size tr) (td_offsets_size tr)
                      (\<not> reply \<and> td_flags tr AND TF_ONE_WAY \<noteq> 0) = Some (res, a)"
    using code by (auto simp: tx_alloc_buf_def bind_eq_Some_conv)
  let ?s1 = "set_proc (tg_proc tg) (p\<lparr>pr_alloc := a\<rparr>) s"
  have i1: "driver_inv K ?s1" using proc_alloc_inv [OF inv p al] v by (simp add: tx_bounds_def)
  show ?thesis
  proof (cases res)
    case None
    then show ?thesis using code p x al i1 by (simp add: tx_alloc_buf_def)
  next
    case (Some buffer)
    let ?b = "(tg_proc tg, buffer)"
    obtain h s2 where h: "buf_get ?s1 ?b = Some h"
      and 2: "buf_set ?b (h\<lparr>b_allow_user_free := False, b_debug_id := t_debug_id x mod 2 ^ 29,
                              b_transaction := Some t, b_target_node := tg_node tg\<rparr>) ?s1 = Some s2"
      and r: "(case tg_node tg of
                       None \<Rightarrow> Some (set_transaction t (x\<lparr>t_buffer := Some ?b\<rparr>) s2)
                     | Some node \<Rightarrow> map_option snd (binder_inc_node node True False None (set_transaction t (x\<lparr>t_buffer := Some ?b\<rparr>) s2)))
              = Some s'"
      using code p x al Some by (auto simp: tx_alloc_buf_def bind_eq_Some_conv Let_def)
    have i2: "driver_inv K s2" by (rule buf_set_inv [OF i1 h _ 2]) (simp add: same_shape_def)
    have "transactions s2 = transactions s" using buf_set_frame(5) [OF 2] by simp
    then have i3: "driver_inv K (set_transaction t y s2)" for y using set_transaction_inv [OF i2] x by simp
    show ?thesis using r i3 by (auto elim: inc_node_inv split: option.splits)
  qed
qed

lemma tx_send_inv [inv_intros]:
  assumes code: "tx_send K c proc thread tg tr reply t cm s = Some (r, s')" and inv: "driver_inv K s" and v: "tx_bounds K tr"
    and t: "transactions s t \<noteq> None"
  shows "driver_inv K s'"
proof -
  let ?s1 = "s\<lparr>binder_last_id := Suc (binder_last_id s)\<rparr>"
  obtain x b s3 where al: "tx_alloc_buf K tg tr reply t (set_transaction t x ?s1) = Some (b, s3)"
    and rest: "(case b of
         None \<Rightarrow>
           do { s4 \<leftarrow> free_complete cm s3; s5 \<leftarrow> free_transaction t s4; Some (Some BR_FAILED_REPLY, s5) }
       | Some b \<Rightarrow>
           do {
             let env = \<lparr>x_proc = proc, x_thread = thread, x_target_proc = tg_proc tg,
                        x_target_node = tg_node tg, x_in_reply_to = tg_in_reply_to tg, x_buf = b\<rparr>;
             (res, s4) \<leftarrow> tx_fill K c env tr s3;
             case res of
               None \<Rightarrow> map_option (Pair None) (tx_queue proc thread tg reply t cm b s4)
             | Some (failed_at, e) \<Rightarrow>
                 do {
                   s5 \<leftarrow> tx_undo_buffer K env failed_at s4;
                   s6 \<leftarrow> free_complete cm s5;
                   s7 \<leftarrow> free_transaction t s6;
                   Some (Some e, s7)
                 }
           }) = Some (r, s')"
    using code unfolding tx_send_def Let_def bind_eq_Some_conv by auto
  have "driver_inv K (set_transaction t x ?s1)" using set_transaction_inv [of K ?s1 t x] inv t by simp
  then have i3: "driver_inv K s3" using tx_alloc_buf_inv [OF al _ v] by blast
  show ?thesis
    using rest i3
    by (auto simp: bind_eq_Some_conv Let_def elim!: free_complete_inv free_transaction_inv tx_fill_inv tx_queue_inv tx_undo_inv
        split: option.splits)
qed

lemma tx_deliver_inv [inv_intros]:
  assumes code: "tx_deliver K c proc thread tg tr reply s = Some (r, s')" and inv: "driver_inv K s" and v: "tx_bounds K tr"
  shows "driver_inv K s'"
proof -
  note K = driver_invD(1) [OF inv]
  obtain ot s1 where 1: "kmalloc K BINDER_STAT_TRANSACTION s = (ot, s1)" by fastforce
  show ?thesis
  proof (cases ot)
    case None
    then show ?thesis using code 1 core_inv [OF kmalloc_none inv] by (auto simp: tx_deliver_def)
  next
    case (Some t)
    note M = kmalloc_some [OF K 1 [unfolded Some]]
    let ?s2 = "binder_stats_created BINDER_STAT_TRANSACTION (set_transaction t blank_transaction s1)"
    have "created K BINDER_STAT_TRANSACTION t s ?s2"
      using M(2) inv by (auto simp: created_def M(1) binder_stats_created_def set_transaction_def driver_inv_def procs_good_def)
    then have i2: "driver_inv K ?s2" using inv by (rule created_inv)
    obtain oc s3 where 3: "kmalloc K BINDER_STAT_TRANSACTION_COMPLETE ?s2 = (oc, s3)" by fastforce
    show ?thesis
    proof (cases oc)
      case None
      have "driver_inv K s3" using core_inv [OF kmalloc_none i2] 3 None by simp
      then show ?thesis using code 1 3 Some None by (auto simp: tx_deliver_def elim: free_transaction_inv)
    next
      case (Some cm)
      note N = kmalloc_some [OF K 3 [unfolded Some]]
      let ?s4 = "binder_stats_created BINDER_STAT_TRANSACTION_COMPLETE s3"
      have "created K BINDER_STAT_TRANSACTION_COMPLETE cm ?s2 ?s4"
        using N(2) i2 by (auto simp: created_def N(1) binder_stats_created_def driver_inv_def procs_good_def)
      then have i4: "driver_inv K ?s4" using i2 by (rule created_inv)
      have "transactions ?s4 t \<noteq> None" by (simp add: N(1) binder_stats_created_def set_transaction_def)
      then show ?thesis
        using code 1 3 Some \<open>ot = Some t\<close> tx_send_inv [OF _ i4 v] by (simp add: tx_deliver_def Let_def)
    qed
  qed
qed

end
