(* ===== verification/Driver_Write.thy ===== *)
theory Driver_Write
  imports Driver_Transaction
begin

text \<open>
  The invariant of the driver survives \<open>binder_transaction\<close> as a whole and every command of
  \<open>binder_thread_write\<close>.
\<close>

section \<open>Transactions\<close>

lemma tx_target_reply_inv:
  assumes code: "tx_target_reply K c thread s = Some (r, s')" and inv: "driver_inv K s"
  shows "driver_inv K s'"
proof -
  obtain th where th: "threads s thread = Some th" using code by (auto simp: tx_target_reply_def bind_eq_Some_conv)
  show ?thesis
  proof (cases "th_transaction_stack th")
    case None
    then show ?thesis using code th inv by (simp add: tx_target_reply_def)
  next
    case (Some irt)
    with code th obtain ir where ir: "transactions s irt = Some ir" by (auto simp: tx_target_reply_def bind_eq_Some_conv)
    let ?s1 = "binder_set_nice K c (t_saved_priority ir) s"
    have i1: "driver_inv K ?s1" using inv by simp
    have t1: "threads ?s1 = threads s" by (simp add: binder_set_nice_def)
    have i2: "driver_inv K (set_thread thread y ?s1)" for y using set_thread_inv [OF i1] t1 th by simp
    have "s' = ?s1 \<or> s' = set_thread thread (th\<lparr>th_transaction_stack := t_to_parent ir\<rparr>) ?s1"
      using code th Some ir by (auto simp: tx_target_reply_def bind_eq_Some_conv Let_def split: option.splits if_splits)
    then show ?thesis using i1 i2 by auto
  qed
qed

lemma tlog_inv: "log_ok l \<Longrightarrow> driver_inv K s \<Longrightarrow> driver_inv K (s\<lparr>tlog := l\<rparr>)"
  by (simp add: driver_inv_def procs_good_def mem_ok_def stats_ok_def)

lemma tlog_failed_inv: "log_ok l \<Longrightarrow> driver_inv K s \<Longrightarrow> driver_inv K (s\<lparr>tlog_failed := l\<rparr>)"
  by (simp add: driver_inv_def procs_good_def mem_ok_def stats_ok_def)

lemma log_add_ok: "binder_transaction_log_add l = (i, l') \<Longrightarrow> log_ok l \<Longrightarrow> log_ok l'"
  by (auto simp: binder_transaction_log_add_def log_ok_def Let_def split: if_splits)

lemma log_put_ok: "log_ok l \<Longrightarrow> log_ok (log_put i e l)"
  by (simp add: log_put_def log_ok_def)

lemma tx_fail_inv: "tx_fail thread irt e s = Some s' \<Longrightarrow> driver_inv K s \<Longrightarrow> driver_inv K s'"
  by (auto simp: tx_fail_def bind_eq_Some_conv intro!: set_thread_inv elim!: send_failed_reply_inv
      split: option.splits if_splits)

lemma tx_find_inv: "tx_find K c proc thread tr reply s = Some (r, s') \<Longrightarrow> driver_inv K s \<Longrightarrow> driver_inv K s'"
  by (auto simp: tx_find_def elim: tx_target_reply_inv split: if_splits)

lemma tx_attempt_inv:
  "tx_attempt K c proc thread tr reply tg e s = Some (r, s') \<Longrightarrow> driver_inv K s \<Longrightarrow> tx_bounds K tr \<Longrightarrow> driver_inv K s'"
  by (auto simp: tx_attempt_def bind_eq_Some_conv Let_def elim: tx_deliver_inv split: sum.splits)

lemma transaction_inv [inv_intros]:
  assumes code: "binder_transaction K c proc thread tr reply s = Some s'" and inv: "driver_inv K s" and v: "tx_bounds K tr"
  shows "driver_inv K s'"
proof -
  obtain slot log where 1: "binder_transaction_log_add (tlog s) = (slot, log)" by fastforce
  have l: "log_ok log" using log_add_ok [OF 1] inv by (simp add: driver_inv_def)
  obtain e tg i s1 fail e2 s2 where
    2: "tx_find K c proc thread tr reply (s\<lparr>tlog := log\<rparr>) = Some ((tg, i), s1)"
    and 3: "tx_attempt K c proc thread tr reply tg (case i of None \<Rightarrow> e | Some i \<Rightarrow> e\<lparr>e_to_node := i\<rparr>) s1 = Some ((fail, e2), s2)"
    and 4: "(case fail of
         None \<Rightarrow> Some (s2\<lparr>tlog := log_put slot e2 (tlog s2)\<rparr>)
       | Some (c, irt) \<Rightarrow> tx_fail thread irt c
           ((s2\<lparr>tlog := log_put slot e2 (tlog s2)\<rparr>)\<lparr>tlog_failed :=
              log_write e2 (tlog_failed (s2\<lparr>tlog := log_put slot e2 (tlog s2)\<rparr>))\<rparr>)) = Some s'"
    using code 1 by (auto simp: binder_transaction_def bind_eq_Some_conv Let_def)
  have "driver_inv K s1" by (rule tx_find_inv [OF 2 tlog_inv [OF l inv]])
  then have i2: "driver_inv K s2" by (rule tx_attempt_inv [OF 3 _ v])
  then have "log_ok (tlog s2)" "log_ok (tlog_failed s2)" by (simp_all add: driver_inv_def)
  then have "driver_inv K (s2\<lparr>tlog := log_put slot e2 (tlog s2)\<rparr>)"
    "driver_inv K ((s2\<lparr>tlog := log_put slot e2 (tlog s2)\<rparr>)\<lparr>tlog_failed := log_write e2 (tlog_failed s2)\<rparr>)"
    using i2 by (auto intro!: tlog_inv tlog_failed_inv log_put_ok log_write_ok(1))
  then show ?thesis using 4 by (auto elim: tx_fail_inv split: option.splits)
qed

section \<open>Commands\<close>

lemma count_target_inv: "count_target K proc cmd t s = Some (r, s') \<Longrightarrow> driver_inv K s \<Longrightarrow> driver_inv K s'"
  by (auto simp: count_target_def bind_eq_Some_conv elim!: get_ref_for_node_inv split: option.splits if_splits)

lemma write_count_inv: "write_count K proc cmd ptr s = Some (r, s') \<Longrightarrow> driver_inv K s \<Longrightarrow> driver_inv K s'"
  by (auto simp: write_count_def bind_eq_Some_conv elim!: inc_ref_inv dec_ref_inv count_target_inv user_inv
      split: prod.splits option.splits if_splits)

lemma node_done_inv: "node_done K proc strong ptr cookie s = Some s' \<Longrightarrow> driver_inv K s \<Longrightarrow> driver_inv K s'"
  by (auto simp: node_done_def bind_eq_Some_conv intro!: set_node_inv elim!: dec_node_inv split: option.splits if_splits)

lemma write_done_inv: "write_done K proc cmd ptr s = Some (r, s') \<Longrightarrow> driver_inv K s \<Longrightarrow> driver_inv K s'"
  by (auto simp: write_done_def elim!: node_done_inv user_inv split: prod.splits option.splits)

lemma next_async_inv:
  assumes code: "next_async thread b s = Some s'" and inv: "driver_inv K s"
  shows "driver_inv K s'"
proof -
  obtain h where h: "buf_get s b = Some h" using code by (auto simp: next_async_def bind_eq_Some_conv)
  show ?thesis
  proof (cases "b_async_transaction h \<and> b_target_node h \<noteq> None")
    case False
    then show ?thesis using code h inv by (auto simp: next_async_def split: option.splits bool.splits)
  next
    case True
    then obtain node n where n: "b_target_node h = Some node" "nodes s node = Some n" "n_has_async_transaction n"
      using code h by (auto simp: next_async_def bind_eq_Some_conv split: if_splits)
    show ?thesis
    proof (cases "items s (L_Async node)")
      case Nil
      then show ?thesis using code h True n inv by (auto simp: next_async_def intro!: set_node_inv)
    next
      case (Cons w ws)
      then show ?thesis using code h True n inv by (auto simp: next_async_def bind_eq_Some_conv elim!: list_inv)
    qed
  qed
qed

lemma release_buffer_inv: "release_buffer K proc thread b s = Some s' \<Longrightarrow> driver_inv K s \<Longrightarrow> driver_inv K s'"
  by (auto simp: release_buffer_def bind_eq_Some_conv
      elim!: detach_transaction_inv next_async_inv buffer_release_inv free_buffer_inv)

lemma write_free_buffer_inv: "write_free_buffer K proc thread ptr s = Some (r, s') \<Longrightarrow> driver_inv K s \<Longrightarrow> driver_inv K s'"
  by (auto simp: write_free_buffer_def bind_eq_Some_conv elim!: release_buffer_inv user_inv
      split: prod.splits option.splits if_splits)

lemma le32_bound: "le32 a b c d < 2 ^ 32"
proof -
  have "unat x < 256" for x :: byte by (rule order_less_le_trans [OF unsigned_less]) simp
  from this [of a] this [of b] this [of c] this [of d] show ?thesis by (simp add: le32_def)
qed

lemma u32_bound: "kern_ok K \<Longrightarrow> get_u32 m off < 2 ^ (8 * ptr_bytes K)"
proof -
  assume "kern_ok K"
  then have "(2 :: nat) ^ 32 \<le> 2 ^ (8 * ptr_bytes K)"
    by (intro power_increasing) (auto dest: kern_ok_ptr)
  moreover have "get_u32 m off < 2 ^ 32" unfolding get_u32_def by (rule le32_bound)
  ultimately show ?thesis by linarith
qed

lemma read_tx_bounds: "kern_ok K \<Longrightarrow> tx_bounds K (read_tx_data bs)"
  by (simp add: tx_bounds_def read_tx_data_def Let_def u32_bound)

lemma write_transaction_inv:
  "write_transaction K c proc thread cmd ptr s = Some (r, s') \<Longrightarrow> driver_inv K s \<Longrightarrow> driver_inv K s'"
  using read_tx_bounds driver_invD(1)
  by (auto simp: write_transaction_def elim!: transaction_inv user_inv split: prod.splits option.splits)

lemma register_looper_inv: "register_looper proc thread s = Some s' \<Longrightarrow> driver_inv K s \<Longrightarrow> driver_inv K s'"
  by (auto simp: register_looper_def bind_eq_Some_conv proc_good_def intro!: set_thread_inv set_proc_inv
      dest: driver_invD(4) split: if_splits)

lemma looper_inv:
  "enter_looper thread s = Some s' \<Longrightarrow> driver_inv K s \<Longrightarrow> driver_inv K s'"
  "exit_looper thread s = Some s' \<Longrightarrow> driver_inv K s \<Longrightarrow> driver_inv K s'"
  by (auto simp: enter_looper_def exit_looper_def bind_eq_Some_conv intro!: set_thread_inv)

lemma request_death_inv:
  assumes code: "request_death K proc thread ref cookie s = Some s'" and inv: "driver_inv K s"
  shows "driver_inv K s'"
proof -
  obtain r th where r: "refs s ref = Some r" and th: "threads s thread = Some th"
    using code by (auto simp: request_death_def bind_eq_Some_conv)
  obtain od s1 where 1: "kmalloc K BINDER_STAT_DEATH s = (od, s1)" by fastforce
  consider "r_death r \<noteq> None" | "r_death r = None" "od = None" | d where "r_death r = None" "od = Some d" by auto
  then show ?thesis
  proof cases
    case 1
    then show ?thesis using code r th inv by (simp add: request_death_def)
  next
    case 2
    have "driver_inv K s1" "threads s1 = threads s"
      using core_inv [OF kmalloc_none inv] same_coreD(2) [OF kmalloc_none] 1 2 by blast+
    then show ?thesis using code r th 1 2 set_thread_inv by (auto simp: request_death_def)
  next
    case 3
    note M = kmalloc_some [OF driver_invD(1) [OF inv] 1 [unfolded 3(2)]]
    let ?s3 = "\<lambda>y. set_death d y (set_link (W_Death d) Unlinked (binder_stats_created BINDER_STAT_DEATH s1))"
    have "created K BINDER_STAT_DEATH d s (?s3 y)" for y
      using M(2) inv by (auto simp: created_def M(1) binder_stats_created_def set_death_def set_link_def driver_inv_def procs_good_def)
    then have i3: "driver_inv K (?s3 y)" for y using created_inv inv by blast
    moreover have "refs (?s3 y) ref \<noteq> None" for y using r by (simp add: M(1) set_link_def)
    ultimately have i4: "driver_inv K (set_ref ref z (?s3 y))" for y z using set_ref_inv by blast
    then have "driver_inv K (set_death d w (set_ref ref z (?s3 y)))" for w y z using set_death_inv [OF i4] by simp
    then show ?thesis
      using code r th 1 3 i4 by (auto simp: request_death_def bind_eq_Some_conv Let_def elim: list_inv split: if_splits)
  qed
qed

lemma clear_death_inv: "clear_death proc thread ref cookie s = Some s' \<Longrightarrow> driver_inv K s \<Longrightarrow> driver_inv K s'"
  by (auto simp: clear_death_def bind_eq_Some_conv Let_def intro!: set_death_inv set_ref_inv elim!: list_inv
      split: option.splits if_splits)

lemma write_death_inv: "write_death K proc thread cmd ptr s = Some (r, s') \<Longrightarrow> driver_inv K s \<Longrightarrow> driver_inv K s'"
  by (auto simp: write_death_def bind_eq_Some_conv elim!: request_death_inv clear_death_inv user_inv
      split: prod.splits option.splits if_splits)

lemma death_done_inv: "death_done proc thread cookie s = Some s' \<Longrightarrow> driver_inv K s \<Longrightarrow> driver_inv K s'"
  by (auto simp: death_done_def bind_eq_Some_conv intro!: set_death_inv elim!: list_inv
      split: option.splits if_splits)

lemma write_death_done_inv: "write_death_done K proc thread ptr s = Some (r, s') \<Longrightarrow> driver_inv K s \<Longrightarrow> driver_inv K s'"
  by (auto simp: write_death_done_def elim!: death_done_inv user_inv split: prod.splits option.splits)

section \<open>The loop\<close>

lemma count_bc_inv: "count_bc proc thread cmd s = Some s' \<Longrightarrow> driver_inv K s \<Longrightarrow> driver_inv K s'"
  by (auto simp: count_bc_def bind_eq_Some_conv Let_def proc_good_def intro!: set_thread_inv set_proc_inv
      dest: driver_invD(4) split: if_splits)

lemma write_command_inv:
  "write_command K c proc thread cmd ptr s = Some (r, s') \<Longrightarrow> driver_inv K s \<Longrightarrow> driver_inv K s'"
  by (auto simp: write_command_def elim: write_count_inv write_done_inv write_free_buffer_inv write_transaction_inv
      register_looper_inv looper_inv write_death_inv write_death_done_inv split: if_splits)

lemma thread_write_loop_inv:
  "thread_write_loop K c proc thread e ptr consumed s = Some (r, p, s') \<Longrightarrow> driver_inv K s \<Longrightarrow> driver_inv K s'"
proof (induction K c proc thread e ptr consumed s rule: thread_write_loop.induct)
  case (1 K c proc thread e ptr consumed s)
  show ?case
  proof (cases "threads s thread")
    case None
    then show ?thesis using 1(2) by (simp add: thread_write_loop.simps)
  next
    case (Some th)
    note u = this
    show ?thesis
    proof (cases "ptr < e \<and> th_return_error th = BR_OK")
      case False
      then show ?thesis using 1(2,3) u by (auto simp: thread_write_loop.simps)
    next
      case True
      obtain ocmd s1 where g: "get_user K ptr s = (ocmd, s1)" by fastforce
      have i1: "driver_inv K s1" by (rule user_inv(2) [OF g 1(3)])
      show ?thesis
      proof (cases ocmd)
        case None
        then show ?thesis using 1(2) u True g i1 by (simp add: thread_write_loop.simps)
      next
        case (Some cmd)
        then obtain s2 r1 s3 where b: "count_bc proc thread cmd s1 = Some s2"
          and w: "write_command K c proc thread cmd (ptr + 4) s2 = Some (r1, s3)"
          using 1(2) u True g
          by (subst (asm) thread_write_loop.simps) (auto split: option.splits)
        have i3: "driver_inv K s3" by (rule write_command_inv [OF w count_bc_inv [OF b i1]])
        show ?thesis
        proof (cases r1)
          case (Inl x)
          then show ?thesis using 1(2) u True g Some b w i3 by (simp add: thread_write_loop.simps)
        next
          case (Inr p')
          have "thread_write_loop K c proc thread e p' p' s3 = Some (r, p, s')"
            using 1(2) u True g Some b w Inr by (subst (asm) thread_write_loop.simps) simp
          then show ?thesis
            using 1(1) [OF u True g [symmetric] Some b w refl Inr] i3 by simp
        qed
      qed
    qed
  qed
qed

lemma thread_write_inv [inv_intros]:
  "binder_thread_write K c proc thread buf sz consumed s = Some (r, n, s') \<Longrightarrow> driver_inv K s \<Longrightarrow> driver_inv K s'"
  by (auto simp: binder_thread_write_def Let_def elim: thread_write_loop_inv)

end
