(* ===== verification/Driver_Read.thy ===== *)
theory Driver_Read
  imports Driver_Write
begin

text \<open>The invariant of the driver survives \<open>binder_thread_read\<close>, up to each sleep and after it.\<close>

lemma stat_br_inv [inv_intros]:
  "binder_stat_br proc thread cmd s = Some s' \<Longrightarrow> driver_inv K s \<Longrightarrow> driver_inv K s'"
  by (auto simp: binder_stat_br_def bind_eq_Some_conv Let_def proc_good_def intro!: set_thread_inv set_proc_inv
      dest: driver_invD(4) split: if_splits)

section \<open>Work items\<close>

lemma read_complete_inv: "read_complete K a c ptr s = Some (r, s') \<Longrightarrow> driver_inv K s \<Longrightarrow> driver_inv K s'"
  by (auto simp: read_complete_def bind_eq_Some_conv elim!: free_complete_inv list_inv stat_br_inv user_inv(4)
      split: prod.split_asm bool.split_asm)

lemma free_unused_node_inv:
  assumes code: "free_unused_node K proc node s = Some s'" and inv: "driver_inv K s"
  shows "driver_inv K s'"
proof -
  obtain p s1 where p: "procs s proc = Some p"
    and 1: "kfree BINDER_STAT_NODE node (set_proc proc (p\<lparr>pr_nodes := rb_erase K node (pr_nodes p)\<rparr>) s) = Some s1"
    and s': "s' = binder_stats_deleted BINDER_STAT_NODE (drop_work (W_Node node) (s1\<lparr>nodes := (nodes s1)(node := None)\<rparr>))"
    using code by (auto simp: free_unused_node_def bind_eq_Some_conv)
  have "driver_inv K (set_proc proc (p\<lparr>pr_nodes := rb_erase K node (pr_nodes p)\<rparr>) s)"
    using set_proc_inv [OF inv] p proc_nodes_good [OF driver_invD(4) [OF inv p]] by simp
  then show ?thesis unfolding s' by (rule free_node_inv [OF 1])
qed

lemma read_node_inv:
  assumes code: "read_node K a node ptr s = Some (r, s')" and inv: "driver_inv K s"
  shows "driver_inv K s'"
proof -
  obtain n where n: "nodes s node = Some n" using code by (auto simp: read_node_def bind_eq_Some_conv)
  obtain cmd n' where c: "node_command n = (cmd, n')" by fastforce
  have i1: "driver_inv K (set_node node n' s)" using set_node_inv [OF inv] n by simp
  show ?thesis
    using code n c i1
    by (auto simp: read_node_def Let_def bind_eq_Some_conv simp del: put_words.simps
        elim!: free_unused_node_inv list_inv stat_br_inv user_inv(5) split: prod.split_asm bool.split_asm if_splits)
qed

lemma read_death_inv:
  assumes code: "read_death K a d ptr s = Some (r, s')" and inv: "driver_inv K s"
  shows "driver_inv K s'"
proof -
  obtain dt where dt: "deaths s d = Some dt" using code by (auto simp: read_death_def bind_eq_Some_conv)
  define clear where "clear = (d_type dt = BINDER_WORK_CLEAR_DEATH_NOTIFICATION)"
  define cmd where "cmd = (if clear then BR_CLEAR_DEATH_NOTIFICATION_DONE else BR_DEAD_BINDER)"
  obtain ok s1 where 1: "put_words K ptr [br_number cmd, d_cookie dt] s = (ok, s1)" by fastforce
  note i1 = user_inv(5) [OF 1 inv]
  show ?thesis
  proof (cases ok)
    case False
    then show ?thesis
      using code dt 1 i1 by (simp add: read_death_def Let_def del: put_words.simps flip: clear_def cmd_def)
  next
    case True
    then have "do {
             s2 \<leftarrow> binder_stat_br (ra_proc a) (ra_thread a) cmd s1;
             s3 \<leftarrow> list_del (W_Death d) s2;
             if clear then map_option (Pair (Item_Next (ptr + 8))) (free_death d s3)
             else map_option (Pair (Item_Done (ptr + 8))) (list_add (W_Death d) (L_Delivered (ra_proc a)) s3)
           } = Some (r, s')"
      using code dt 1 by (simp add: read_death_def Let_def clear_def cmd_def del: put_words.simps)
    then show ?thesis
      using i1 by (auto simp: bind_eq_Some_conv elim!: free_death_inv list_inv stat_br_inv split: if_splits)
  qed
qed

lemma finish_delivery_inv:
  assumes code: "finish_delivery thread t b call s = Some s'" and inv: "driver_inv K s"
  shows "driver_inv K s'"
proof -
  obtain s1 h s2 x where 1: "list_del (W_Transaction t) s = Some s1" and h: "buf_get s1 b = Some h"
    and 2: "buf_set b (h\<lparr>b_allow_user_free := True\<rparr>) s1 = Some s2" and x: "transactions s2 t = Some x"
    using code by (auto simp: finish_delivery_def bind_eq_Some_conv)
  have i1: "driver_inv K s1" by (rule list_inv(1) [OF 1 inv])
  have i2: "driver_inv K s2" by (rule buf_set_inv [OF i1 h _ 2]) (simp add: same_shape_def)
  have i3: "driver_inv K (set_transaction t y s2)" for y using set_transaction_inv [OF i2] x by simp
  show ?thesis
    using code 1 h 2 x i2 i3
    by (auto simp: finish_delivery_def bind_eq_Some_conv intro!: set_thread_inv elim!: clear_buffer_inv free_transaction_inv
        split: if_splits)
qed

lemma serve_priority_inv: "driver_inv K (serve_priority K c x saved m s) = driver_inv K s"
  by (simp add: serve_priority_def)

lemma read_transaction_inv:
  assumes code: "read_transaction K a t ptr s = Some (r, s')" and inv: "driver_inv K s"
  shows "driver_inv K s'"
proof -
  obtain x b h where x: "transactions s t = Some x" "t_buffer x = Some b" "buf_get s b = Some h"
    using code by (auto simp: read_transaction_def bind_eq_Some_conv)
  have i0: "driver_inv K (set_transaction t y s)" for y using set_transaction_inv [OF inv] x by simp
  obtain target cookie s1 pid and p :: binder_proc where i1: "driver_inv K s1" and
    rest: "(case put_user K ptr (br_number (if b_target_node h = None then BR_REPLY else BR_TRANSACTION)) s1 of
         (False, s2) \<Rightarrow> Some (Item_Fault, s2)
       | (True, s2) \<Rightarrow>
           (case copy_to_user K (ptr + 4)
                   (concat (map le_bytes (tx_words K x target cookie pid (pr_alloc p) (snd b) h))) s2 of
              (False, s3) \<Rightarrow> Some (Item_Fault, s3)
            | (True, s3) \<Rightarrow>
                do {
                  s4 \<leftarrow> binder_stat_br (ra_proc a) (ra_thread a) (if b_target_node h = None then BR_REPLY else BR_TRANSACTION) s3;
                  s5 \<leftarrow> finish_delivery (ra_thread a) t b ((if b_target_node h = None then BR_REPLY else BR_TRANSACTION) = BR_TRANSACTION) s4;
                  Some (Item_Done (ptr + 44), s5)
                })) = Some (r, s')"
  proof (cases "b_target_node h")
    case None
    then obtain pid p where "sender_pid K x s = Some pid" "procs s (ra_proc a) = Some p"
      using code x by (auto simp: read_transaction_def Let_def bind_eq_Some_conv)
    then show ?thesis using that [of s 0 0 pid p] code x None inv by (simp add: read_transaction_def Let_def)
  next
    case (Some node)
    then obtain n where n: "nodes s node = Some n"
      using code x by (auto simp: read_transaction_def Let_def bind_eq_Some_conv)
    define s1 where "s1 = serve_priority K (ra_current a) x (nice_of s (ra_current a)) (int (n_min_priority n))
       (set_transaction t (x\<lparr>t_saved_priority := nice_of s (ra_current a)\<rparr>) s)"
    have i1: "driver_inv K s1" using i0 by (simp add: s1_def serve_priority_inv)
    from n Some obtain pid p where "sender_pid K x s1 = Some pid" "procs s1 (ra_proc a) = Some p"
      using code x by (auto simp: read_transaction_def Let_def bind_eq_Some_conv s1_def)
    then show ?thesis
      using that [of s1 "n_ptr n" "n_cookie n" pid p] code x Some n i1 by (simp add: read_transaction_def Let_def s1_def)
  qed
  define cmd where "cmd = (if b_target_node h = None then BR_REPLY else BR_TRANSACTION)"
  define ws where "ws = concat (map le_bytes (tx_words K x target cookie pid (pr_alloc p) (snd b) h))"
  note rest = rest [folded cmd_def ws_def]
  obtain ok s2 where 2: "put_user K ptr (br_number cmd) s1 = (ok, s2)" by fastforce
  note i2 = user_inv(4) [OF 2 i1]
  obtain ok3 s3 where 3: "copy_to_user K (ptr + 4) ws s2 = (ok3, s3)" by fastforce
  note i3 = user_inv(3) [OF 3 i2]
  show ?thesis
  proof (cases "ok \<and> ok3")
    case False
    then show ?thesis using rest 2 3 i2 i3 by (cases ok) auto
  next
    case True
    then show ?thesis
      using rest 2 3 i3 by (auto simp: bind_eq_Some_conv elim!: finish_delivery_inv stat_br_inv)
  qed
qed

lemma read_item_inv: "read_item K a w ptr s = Some (r, s') \<Longrightarrow> driver_inv K s \<Longrightarrow> driver_inv K s'"
  by (cases w) (auto elim: read_transaction_inv read_complete_inv read_node_inv read_death_inv)

section \<open>The loop\<close>

lemma read_loop_inv: "read_loop K a waitp ptr s = Some (r, s') \<Longrightarrow> driver_inv K s \<Longrightarrow> driver_inv K s'"
proof (induction K a waitp ptr s rule: read_loop.induct)
  case (1 K a waitp ptr s)
  show ?case
  proof (cases "next_work a waitp s")
    case None
    then show ?thesis using 1(2) by (simp add: read_loop.simps)
  next
    case (Some ow)
    note nw = this
    show ?thesis
    proof (cases ow)
      case None
      then show ?thesis using 1(2,3) nw by (auto simp: read_loop.simps split: option.split_asm if_splits)
    next
      case (Some w)
      note ow = this
      show ?thesis
      proof (cases "room_left K (ra_end a) ptr < sizeof_tx_data + 4")
        case True
        then show ?thesis using 1(2,3) nw Some by (auto simp: read_loop.simps)
      next
        case False
        then obtain it s1 where it: "read_item K a w ptr s = Some (it, s1)"
          using 1(2) nw Some by (subst (asm) read_loop.simps) (auto split: option.split_asm)
        have i1: "driver_inv K s1" by (rule read_item_inv [OF it 1(3)])
        show ?thesis
        proof (cases it)
          case (Item_Next p)
          then have "read_loop K a waitp p s1 = Some (r, s')"
            using 1(2) nw ow False it by (subst (asm) read_loop.simps) simp
          then show ?thesis using 1(1) [OF nw ow False it refl Item_Next] i1 by simp
        next
          case (Item_Done p)
          then show ?thesis using 1(2) nw ow False it i1 by (simp add: read_loop.simps)
        next
          case Item_Fault
          then show ?thesis using 1(2) nw ow False it i1 by (simp add: read_loop.simps)
        qed
      qed
    qed
  qed
qed

section \<open>The whole call\<close>

lemma read_done_inv: "read_done K a ptr s = Some (r, s') \<Longrightarrow> driver_inv K s \<Longrightarrow> driver_inv K s'"
proof -
  assume code: "read_done K a ptr s = Some (r, s')" and inv: "driver_inv K s"
  obtain p th where p: "procs s (ra_proc a) = Some p" and th: "threads s (ra_thread a) = Some th"
    using code by (auto simp: read_done_def bind_eq_Some_conv)
  have "proc_good K (p\<lparr>pr_requested_threads := pr_requested_threads p + 1\<rparr>)"
    using driver_invD(4) [OF inv p] by (simp add: proc_good_def)
  then have "driver_inv K (set_proc (ra_proc a) (p\<lparr>pr_requested_threads := pr_requested_threads p + 1\<rparr>) s)"
    using set_proc_inv [OF inv] p by simp
  then show ?thesis
    using code p th inv
    by (auto simp: read_done_def Let_def elim!: stat_br_inv user_inv(4) split: prod.split_asm bool.split_asm if_splits)
qed

lemma read_fault_inv: "read_fault a s = Some (r, s') \<Longrightarrow> driver_inv K s \<Longrightarrow> driver_inv K s'"
  by (simp add: read_fault_def)

lemma read_error_last:
  assumes code: "(case put_user K p v s of
              (False, s2) \<Rightarrow> read_fault a s2
            | (True, s2) \<Rightarrow>
                do {
                  s3 \<leftarrow> binder_stat_br (ra_proc a) (ra_thread a) e s2;
                  h \<leftarrow> threads s3 (ra_thread a);
                  read_done K a (p + 4) (set_thread (ra_thread a) (h\<lparr>th_return_error := BR_OK\<rparr>) s3)
                }) = Some (r, s')"
    and inv: "driver_inv K s"
  shows "driver_inv K s'"
proof -
  obtain ok s2 where 2: "put_user K p v s = (ok, s2)" by fastforce
  have i2: "driver_inv K s2" by (rule user_inv(4) [OF 2 inv])
  show ?thesis
  proof (cases ok)
    case False
    then show ?thesis using code 2 i2 by (auto elim: read_fault_inv)
  next
    case True
    then obtain s3 h where 3: "binder_stat_br (ra_proc a) (ra_thread a) e s2 = Some s3"
      "threads s3 (ra_thread a) = Some h"
      "read_done K a (p + 4) (set_thread (ra_thread a) (h\<lparr>th_return_error := BR_OK\<rparr>) s3) = Some (r, s')"
      using code 2 by (auto simp: bind_eq_Some_conv)
    have "driver_inv K (set_thread (ra_thread a) y s3)" for y
      using set_thread_inv [OF stat_br_inv [OF 3(1) i2]] 3(2) by simp
    then show ?thesis using read_done_inv [OF 3(3)] by blast
  qed
qed

lemma read_errors_inv:
  assumes code: "read_errors K a ptr th s = Some (r, s')" and inv: "driver_inv K s"
  shows "driver_inv K s'"
proof -
  obtain res q s1 where 1: "(if th_return_error2 th \<noteq> BR_OK then
            (case put_user K ptr (br_number (th_return_error2 th)) s of
               (False, s1) \<Rightarrow> Some (Item_Fault, ptr, s1)
             | (True, s1) \<Rightarrow>
                 do {
                   s2 \<leftarrow> binder_stat_br (ra_proc a) (ra_thread a) (th_return_error2 th) s1;
                   if ptr + 4 = ra_end a then Some (Item_Done (ptr + 4), ptr + 4, s2)
                   else do {
                     h \<leftarrow> threads s2 (ra_thread a);
                     Some (Item_Next (ptr + 4), ptr + 4, set_thread (ra_thread a) (h\<lparr>th_return_error2 := BR_OK\<rparr>) s2)
                   }
                 })
          else Some (Item_Next ptr, ptr, s)) = Some (res, q, s1)"
    and 2: "(case res of
         Item_Fault \<Rightarrow> read_fault a s1
       | Item_Done p \<Rightarrow> read_done K a p s1
       | Item_Next p \<Rightarrow>
           (case put_user K p (br_number (th_return_error th)) s1 of
              (False, s2) \<Rightarrow> read_fault a s2
            | (True, s2) \<Rightarrow>
                do {
                  s3 \<leftarrow> binder_stat_br (ra_proc a) (ra_thread a) (th_return_error th) s2;
                  h \<leftarrow> threads s3 (ra_thread a);
                  read_done K a (p + 4) (set_thread (ra_thread a) (h\<lparr>th_return_error := BR_OK\<rparr>) s3)
                })) = Some (r, s')"
    using code unfolding read_errors_def by (auto simp: bind_eq_Some_conv [of _ "\<lambda>(res, ptr1, s1). _ res ptr1 s1"])
  have i1: "driver_inv K s1"
    using 1 inv by (auto simp: bind_eq_Some_conv intro!: set_thread_inv elim!: stat_br_inv user_inv(4)
        split: prod.split_asm bool.split_asm if_splits)
  show ?thesis
    using 2 i1 by (cases res) (auto elim: read_fault_inv read_done_inv read_error_last)
qed

lemma read_retry_inv:
  assumes code: "read_retry K a ptr s = Some (r, s')" and inv: "driver_inv K s"
  shows "driver_inv K s'"
proof -
  obtain th p where th: "threads s (ra_thread a) = Some th" and p: "procs s (ra_proc a) = Some p"
    using code by (auto simp: read_retry_def bind_eq_Some_conv)
  have i1: "driver_inv K (set_thread (ra_thread a) y s)" for y using set_thread_inv [OF inv] th by simp
  have "proc_good K (p\<lparr>pr_ready_threads := pr_ready_threads p + 1\<rparr>)"
    using driver_invD(4) [OF inv p] by (simp add: proc_good_def)
  then have "driver_inv K (set_proc (ra_proc a) (p\<lparr>pr_ready_threads := pr_ready_threads p + 1\<rparr>) (set_thread (ra_thread a) y s))" for y
    using set_proc_inv [OF i1] p by simp
  then show ?thesis
    using code th p i1 by (auto simp: read_retry_def Let_def elim: read_errors_inv [OF _ inv] split: if_splits)
qed

lemma thread_read_start_inv [inv_intros]:
  "thread_read_start K a s = Some (r, s') \<Longrightarrow> driver_inv K s \<Longrightarrow> driver_inv K s'"
  by (auto simp: thread_read_start_def Let_def elim!: read_retry_inv read_fault_inv user_inv(4)
      split: prod.split_asm bool.split_asm if_splits)

lemma read_woken_inv: "read_woken a waitp s = Some s' \<Longrightarrow> driver_inv K s \<Longrightarrow> driver_inv K s'"
  by (auto simp: read_woken_def bind_eq_Some_conv Let_def proc_good_def intro!: set_thread_inv set_proc_inv
      dest: driver_invD(4) split: if_splits)

lemma thread_read_resume_inv [inv_intros]:
  assumes code: "thread_read_resume K a ptr waitp ret s = Some (r, s')" and inv: "driver_inv K s"
  shows "driver_inv K s'"
proof -
  obtain s1 where 1: "read_woken a waitp s = Some s1"
    using code by (auto simp: thread_read_resume_def bind_eq_Some_conv)
  note i1 = read_woken_inv [OF 1 inv]
  show ?thesis
  proof (cases "ret = 0")
    case False
    then show ?thesis using code 1 i1 by (simp add: thread_read_resume_def)
  next
    case True
    then obtain res s2 where 2: "read_loop K a waitp ptr s1 = Some (res, s2)"
      using code 1 by (auto simp: thread_read_resume_def bind_eq_Some_conv)
    note i2 = read_loop_inv [OF 2 i1]
    show ?thesis
      using code 1 2 True i2
      by (cases res) (auto simp: thread_read_resume_def elim: read_fault_inv read_retry_inv read_done_inv)
  qed
qed

end
