(* ===== verification/Driver_Ioctl.thy ===== *)
theory Driver_Ioctl
  imports Driver_Read Binder_Ioctl
begin

text \<open>
  The invariant of the driver survives \<open>binder_get_thread\<close>, \<open>binder_free_thread\<close>,
  \<open>binder_poll\<close> and \<open>binder_ioctl\<close>, whether the call returns or sleeps in its read.
\<close>

section \<open>Work nobody will receive\<close>

lemma undelivered_transaction_inv:
  "undelivered_transaction t s = Some s' \<Longrightarrow> driver_inv K s \<Longrightarrow> driver_inv K s'"
  by (auto simp: undelivered_transaction_def bind_eq_Some_conv elim!: send_failed_reply_inv clear_buffer_inv
      free_transaction_inv split: if_splits)

lemma undelivered_inv: "undelivered w s = Some s' \<Longrightarrow> driver_inv K s \<Longrightarrow> driver_inv K s'"
  by (cases w) (auto simp: bind_eq_Some_conv elim: undelivered_transaction_inv free_complete_inv free_death_inv
      split: if_splits)

lemma release_work_inv [inv_intros]:
  "binder_release_work l s = Some s' \<Longrightarrow> driver_inv K s \<Longrightarrow> driver_inv K s'"
proof (induction l s rule: binder_release_work.induct)
  case (1 l s)
  show ?case
  proof (cases "list_first l s")
    case None
    then show ?thesis using 1(2) by (simp add: binder_release_work.simps)
  next
    case (Some ow)
    note first = this
    show ?thesis
    proof (cases ow)
      case None
      then show ?thesis using 1(2,3) first by (simp add: binder_release_work.simps)
    next
      case (Some w)
      note ow = this
      obtain s1 s2 where s1: "list_del_init w s = Some s1" and s2: "undelivered w s1 = Some s2"
        and rest: "binder_release_work l s2 = Some s'"
        using 1(2) first ow by (subst (asm) binder_release_work.simps) (auto split: option.split_asm)
      have "driver_inv K s2" by (rule undelivered_inv [OF s2 list_inv(2) [OF s1 1(3)]])
      then show ?thesis using 1(1) [OF first ow s1 s2 rest] by simp
    qed
  qed
qed

section \<open>Threads\<close>

lemma get_thread_inv [inv_intros]:
  assumes code: "binder_get_thread K current proc s = Some (r, s')" and inv: "driver_inv K s"
  shows "driver_inv K s'"
proof -
  obtain p found where p: "procs s proc = Some p"
    and f: "rb_search (key_dir (thread_key s) (task_pid K current)) (pr_threads p) = Some found"
    using code by (auto simp: binder_get_thread_def bind_eq_Some_conv)
  show ?thesis
  proof (cases found)
    case (Some t)
    then show ?thesis using code p f inv by (simp add: binder_get_thread_def)
  next
    case None
    obtain res s1 where m: "kmalloc K BINDER_STAT_THREAD s = (res, s1)" by fastforce
    show ?thesis
    proof (cases res)
      case None
      then show ?thesis
        using code p f \<open>found = None\<close> m core_inv [OF kmalloc_none inv] by (auto simp: binder_get_thread_def)
    next
      case (Some thread)
      note sm = kmalloc_some [OF driver_invD(1) [OF inv] m [unfolded Some]]
      obtain tr where s': "s' = (set_thread thread (new_thread proc (task_pid K current))
          (set_proc proc (p\<lparr>pr_threads := rb_insert_color K thread tr\<rparr>) (binder_stats_created BINDER_STAT_THREAD s1)))
          \<lparr>items := (items (set_thread thread (new_thread proc (task_pid K current))
          (set_proc proc (p\<lparr>pr_threads := rb_insert_color K thread tr\<rparr>) (binder_stats_created BINDER_STAT_THREAD s1))))
            (L_Thread thread := [])\<rparr>"
        using code p f \<open>found = None\<close> m Some by (auto simp: binder_get_thread_def Let_def bind_eq_Some_conv)
      have "created K BINDER_STAT_THREAD thread s s'"
        using inv p sm
        by (auto simp: s' created_def binder_stats_created_def set_proc_def set_thread_def driver_inv_def
            procs_good_def proc_good_def)
      then show ?thesis using inv by (rule created_inv)
    qed
  qed
qed

lemma detach_stack_inv: "detach_stack n thread t s = Some s' \<Longrightarrow> driver_inv K s \<Longrightarrow> driver_inv K s'"
proof (induction n thread t s rule: detach_stack.induct)
  case (3 n thread t s)
  obtain x where x: "transactions s t = Some x" using 3(3) by (auto simp: bind_eq_Some_conv)
  show ?case
  proof (cases "t_to_thread x = Some thread")
    case True
    then obtain s1 where c: "clear_buffer (t_buffer x) s = Some s1"
      and rest: "detach_stack n thread (t_to_parent x)
         (set_transaction t (x\<lparr>t_to_proc := None, t_to_thread := None, t_buffer := None\<rparr>) s1) = Some s'"
      using 3(3) x by (auto simp: bind_eq_Some_conv)
    have "driver_inv K (set_transaction t (x\<lparr>t_to_proc := None, t_to_thread := None, t_buffer := None\<rparr>) s1)"
      using set_transaction_inv [OF clear_buffer_inv [OF c 3(4)]] clear_buffer_frame(5) [OF c] x by simp
    then show ?thesis using 3(1) [OF x True c rest] by simp
  next
    case False
    then have from_x: "t_from x = Some thread" using 3(3) x by (auto split: if_splits)
    have rest: "detach_stack n thread (t_from_parent x) (set_transaction t (x\<lparr>t_from := None\<rparr>) s) = Some s'"
      using 3(3) x False from_x by simp
    have "driver_inv K (set_transaction t (x\<lparr>t_from := None\<rparr>) s)" using set_transaction_inv [OF 3(4)] x by simp
    then show ?thesis using 3(2) [OF x False from_x rest] by simp
  qed
qed auto

lemma free_thread_inv [inv_intros]:
  assumes code: "binder_free_thread K proc thread s = Some s'" and inv: "driver_inv K s"
  shows "driver_inv K s'"
proof -
  obtain p th s1 send s2 s3 s4 s5 where p: "procs s proc = Some p"
    and th: "threads s thread = Some th"
    and s1: "s1 = set_proc proc (p\<lparr>pr_threads := rb_erase K thread (pr_threads p)\<rparr>) s"
    and s2: "detach_stack (2 * length (live s)) thread (th_transaction_stack th) s1 = Some s2"
    and s3: "(case send of None \<Rightarrow> Some s2 | Some t \<Rightarrow> binder_send_failed_reply t BR_DEAD_REPLY s2) = Some s3"
    and s4: "binder_release_work (L_Thread thread) s3 = Some s4"
    and s5: "kfree BINDER_STAT_THREAD thread s4 = Some s5"
    and s': "s' = binder_stats_deleted BINDER_STAT_THREAD (s5\<lparr>threads := (threads s5)(thread := None)\<rparr>)"
    using code by (auto simp: binder_free_thread_def Let_def bind_eq_Some_conv)
  have "driver_inv K s1"
    using set_proc_inv [OF inv] p driver_invD(4) [OF inv p] by (simp add: s1 proc_good_def)
  then have "driver_inv K s2" by (rule detach_stack_inv [OF s2])
  then have "driver_inv K s3" using s3 by (auto elim: send_failed_reply_inv split: option.split_asm)
  then have i4: "driver_inv K s4" by (rule release_work_inv [OF s4])
  show ?thesis
    by (rule freed_inv [OF _ i4, of BINDER_STAT_THREAD thread])
      (use s5 in \<open>auto simp: s' kfree_def freed_def binder_stats_deleted_def split: if_splits\<close>)
qed

lemma poll_inv [inv_intros]: "binder_poll K current proc s = Some (r, s') \<Longrightarrow> driver_inv K s \<Longrightarrow> driver_inv K s'"
  by (auto simp: binder_poll_def bind_eq_Some_conv elim!: get_thread_inv)

section \<open>The control commands\<close>

lemma ioctl_end_inv: "ioctl_end thread ret s = Some (r, s') \<Longrightarrow> driver_inv K s \<Longrightarrow> driver_inv K s'"
  by (auto simp: ioctl_end_def bind_eq_Some_conv intro!: set_thread_inv split: option.split_asm)

lemma bwr_end_inv:
  assumes "bwr_end K thread ubuf bwr ret s = Some (r, s')" and inv: "driver_inv K s"
  shows "driver_inv K s'"
proof -
  obtain ok s1 where 1: "copy_to_user K ubuf (bytes_of_bwr bwr) s = (ok, s1)" by fastforce
  have "driver_inv K s1" by (rule user_inv(3) [OF 1 inv])
  then show ?thesis using assms(1) 1 by (cases ok) (auto simp: bwr_end_def elim: ioctl_end_inv)
qed

lemma after_read_inv: "after_read K thread ubuf bwr a res s = Some (r, s') \<Longrightarrow> driver_inv K s \<Longrightarrow> driver_inv K s'"
  by (cases res) (auto simp: after_read_def elim: bwr_end_inv)

lemma ioctl_read_inv:
  "ioctl_read K current nb proc thread ubuf bwr s = Some (r, s') \<Longrightarrow> driver_inv K s \<Longrightarrow> driver_inv K s'"
  by (auto simp: ioctl_read_def Let_def bind_eq_Some_conv elim!: after_read_inv thread_read_start_inv bwr_end_inv
      split: if_splits)

lemma ioctl_write_read_inv:
  assumes code: "ioctl_write_read K current nb proc thread ubuf s = Some (r, s')" and inv: "driver_inv K s"
  shows "driver_inv K s'"
proof -
  obtain bs s1 where 1: "copy_from_user K ubuf 24 s = (bs, s1)" by fastforce
  note i1 = user_inv(1) [OF 1 inv]
  show ?thesis
  proof (cases bs)
    case None
    then show ?thesis using code 1 i1 by (auto simp: ioctl_write_read_def elim: ioctl_end_inv)
  next
    case (Some b)
    then show ?thesis
      using code 1 i1
      by (auto simp: ioctl_write_read_def Let_def bind_eq_Some_conv elim!: ioctl_read_inv bwr_end_inv thread_write_inv
          split: if_splits)
  qed
qed

lemma set_max_threads_inv:
  assumes code: "set_max_threads K proc ubuf s = Some (r, s')" and inv: "driver_inv K s"
  shows "driver_inv K s'"
proof -
  obtain v s1 where 1: "get_user K ubuf s = (v, s1)" by fastforce
  note i1 = user_inv(2) [OF 1 inv]
  obtain p where p: "procs s1 proc = Some p" using code 1 by (auto simp: set_max_threads_def bind_eq_Some_conv)
  have "driver_inv K (set_proc proc (p\<lparr>pr_max_threads := n\<rparr>) s1)" for n
    using set_proc_inv [OF i1] p driver_invD(4) [OF i1 p] by (simp add: proc_good_def)
  then show ?thesis using code 1 p by (auto simp: set_max_threads_def split: option.split_asm)
qed

lemma set_context_mgr_inv:
  assumes code: "set_context_mgr K current proc s = Some (r, s')" and inv: "driver_inv K s"
  shows "driver_inv K s'"
proof -
  have i1: "driver_inv K (s\<lparr>binder_context_mgr_uid := u\<rparr>)" for u
    using inv core_inv [OF core_update(10)] by blast
  show ?thesis
  proof (cases "binder_context_mgr_node s \<noteq> None \<or>
      binder_context_mgr_uid s \<noteq> None \<and> binder_context_mgr_uid s \<noteq> Some (task_euid K current)")
    case True
    then show ?thesis using code inv by (auto simp: set_context_mgr_def split: if_splits)
  next
    case False
    then obtain res s2 where 2: "binder_new_node K proc 0 0 (s\<lparr>binder_context_mgr_uid := Some (task_euid K current)\<rparr>) = Some (res, s2)"
      using code by (auto simp: set_context_mgr_def Let_def bind_eq_Some_conv split: if_splits)
    have i3: "driver_inv K (s2\<lparr>binder_context_mgr_node := m\<rparr>)" for m
      using new_node_inv [OF 2 i1] core_inv [OF core_update(9)] by blast
    show ?thesis
    proof (cases res)
      case None
      then show ?thesis using code False 2 i3 by (auto simp: set_context_mgr_def)
    next
      case (Some node)
      then obtain n where n: "nodes s2 node = Some n"
        using code False 2 by (auto simp: set_context_mgr_def bind_eq_Some_conv)
      then show ?thesis
        using code False 2 Some set_node_inv [OF i3] by (auto simp: set_context_mgr_def)
    qed
  qed
qed

lemma ioctl_version_inv:
  assumes code: "ioctl_version K ubuf s = (r, s')" and inv: "driver_inv K s"
  shows "driver_inv K s'"
proof -
  obtain ok s1 where 1: "put_user K ubuf BINDER_CURRENT_PROTOCOL_VERSION s = (ok, s1)" by fastforce
  then show ?thesis using code user_inv(4) [OF 1 inv] by (cases ok) (auto simp: ioctl_version_def)
qed

lemma ioctl_command_inv:
  assumes code: "ioctl_command K current nb proc thread cmd arg s = Some (r, s')" and inv: "driver_inv K s"
  shows "driver_inv K s'"
  using code inv
  by (auto simp: ioctl_command_def Let_def bind_eq_Some_conv split: if_splits prod.split_asm
      elim!: ioctl_end_inv ioctl_write_read_inv set_max_threads_inv set_context_mgr_inv free_thread_inv
      dest!: ioctl_version_inv)

lemma ioctl_inv:
  assumes code: "binder_ioctl K current nb proc cmd arg s = Some (r, s')" and inv: "driver_inv K s"
  shows "driver_inv K s'"
proof -
  obtain res s1 where 1: "binder_get_thread K current proc s = Some (res, s1)"
    using code by (auto simp: binder_ioctl_def bind_eq_Some_conv)
  note i1 = get_thread_inv [OF 1 inv]
  show ?thesis
    using code 1 i1 by (cases res) (auto simp: binder_ioctl_def elim: ioctl_end_inv ioctl_command_inv)
qed

lemma ioctl_resume_inv:
  assumes code: "binder_ioctl_resume K f intr s = Some (r, s')" and inv: "driver_inv K s"
  shows "driver_inv K s'"
proof -
  obtain w where w: "wait_result (if_args f) (if_wait_proc f) intr s = Some w"
    using code by (auto simp: binder_ioctl_resume_def bind_eq_Some_conv)
  show ?thesis
    using code w inv
    by (cases w) (auto simp: binder_ioctl_resume_def bind_eq_Some_conv elim!: after_read_inv thread_read_resume_inv)
qed

end
