(* ===== verification/Driver_Lifecycle.thy ===== *)
theory Driver_Lifecycle
  imports Driver_Ioctl Binder_Lifecycle
begin

text \<open>The invariant of the driver survives opening, mapping, flushing and tearing down a process.\<close>

section \<open>Opening\<close>

lemma blank_proc_good: "proc_good K (blank_proc K current s)"
  by (simp add: proc_good_def blank_proc_def area_state_def fresh_alloc_def unmapped_def)

lemma open_inv:
  assumes code: "binder_open K current s = (r, s')" and inv: "driver_inv K s"
  shows "driver_inv K s'"
proof -
  obtain res s1 where m: "kmalloc K BINDER_STAT_PROC s = (res, s1)" by fastforce
  show ?thesis
  proof (cases res)
    case None
    then show ?thesis using code m core_inv [OF kmalloc_none inv] by (simp add: binder_open_def)
  next
    case (Some proc)
    note sm = kmalloc_some [OF driver_invD(1) [OF inv] m [unfolded Some]]
    have s': "procs s' = (procs s)(proc \<mapsto> blank_proc K current s1)" "threads s' = threads s" "nodes s' = nodes s"
      "refs s' = refs s" "deaths s' = deaths s" "transactions s' = transactions s" "live s' = (BINDER_STAT_PROC, proc) # live s"
      "obj_created s' = (obj_created s)(BINDER_STAT_PROC := obj_created s BINDER_STAT_PROC + 1)"
      "obj_deleted s' = obj_deleted s" "tlog s' = tlog s" "tlog_failed s' = tlog_failed s"
      using code m Some sm(1) by (auto simp: binder_open_def Let_def binder_stats_created_def set_proc_def)
    have "procs_good K s'"
      using inv blank_proc_good by (simp add: procs_good_def s'(1) driver_inv_def)
    then have "created K BINDER_STAT_PROC proc s s'"
      using sm(2) by (simp add: created_def s')
    then show ?thesis using inv by (rule created_inv)
  qed
qed

section \<open>Deferred work\<close>

lemma defer_work_inv [inv_intros]:
  assumes code: "binder_defer_work proc d s = Some s'" and inv: "driver_inv K s"
  shows "driver_inv K s'"
proof -
  obtain p where p: "procs s proc = Some p" using code by (auto simp: binder_defer_work_def bind_eq_Some_conv)
  define s1 where "s1 = set_proc proc (p\<lparr>pr_deferred_work := pr_deferred_work p OR d\<rparr>) s"
  have i1: "driver_inv K s1"
    using set_proc_inv [OF inv] p driver_invD(4) [OF inv p] by (simp add: s1_def proc_good_def)
  have "driver_inv K (s1\<lparr>binder_deferred_list := l\<rparr>)" for l using core_inv [OF core_update(12) i1] .
  then show ?thesis
    using code p i1 by (auto simp: binder_defer_work_def Let_def simp flip: s1_def split: if_splits)
qed

lemma proc_mmap_inv:
  assumes code: "proc_mmap K current proc vma s = Some (r, s')" and inv: "driver_inv K s" and vma: "vma_ok vma"
  shows "driver_inv K s'"
proof -
  obtain p ret vma' a where p: "procs s proc = Some p"
    and m: "binder_mmap K (pr_alloc p) current vma = Some (ret, vma', a)"
    and s': "s' = set_proc proc (p\<lparr>pr_alloc := a\<rparr>) s"
    using code by (auto simp: proc_mmap_def bind_eq_Some_conv)
  have "proc_good K (p\<lparr>pr_alloc := a\<rparr>)"
    using proc_area [OF driver_invD(4) [OF inv p]] mmap_state [OF driver_invD(1) [OF inv] _ vma m]
      driver_invD(4) [OF inv p] by (simp add: proc_good_def)
  then show ?thesis using set_proc_inv [OF inv] p by (simp add: s')
qed

lemma vma_close_inv:
  assumes code: "binder_vma_close proc s = Some s'" and inv: "driver_inv K s"
  shows "driver_inv K s'"
proof -
  obtain p where p: "procs s proc = Some p"
    and d: "binder_defer_work proc BINDER_DEFERRED_PUT_FILES
      (set_proc proc (p\<lparr>pr_alloc := (pr_alloc p)\<lparr>p_vma := False, p_vma_vm_mm := None\<rparr>\<rparr>) s) = Some s'"
    using code by (auto simp: binder_vma_close_def Let_def bind_eq_Some_conv)
  have "area_state K ((pr_alloc p)\<lparr>p_vma := False, p_vma_vm_mm := None\<rparr>)"
    using driver_invD(4) [OF inv p] 
    by (intro owner_frame [OF disjI1 [OF refl]]) (simp_all add: proc_good_def)
  then have "driver_inv K (set_proc proc (p\<lparr>pr_alloc := (pr_alloc p)\<lparr>p_vma := False, p_vma_vm_mm := None\<rparr>\<rparr>) s)"
    using set_proc_inv [OF inv] p proc_area [OF driver_invD(4) [OF inv p]] by simp
  then show ?thesis by (rule defer_work_inv [OF d])
qed

lemma put_files_inv:
  assumes p: "procs s proc = Some p" and inv: "driver_inv K s"
  shows "driver_inv K (set_proc proc (p\<lparr>pr_alloc := (pr_alloc p)\<lparr>p_files := None\<rparr>\<rparr>) s)"
proof -
  have "area_state K ((pr_alloc p)\<lparr>p_files := None\<rparr>)"
    using driver_invD(4) [OF inv p] 
    by (intro owner_frame [OF disjI2 [OF refl], of False]) (simp_all add: proc_good_def)
  then show ?thesis using set_proc_inv [OF inv] p proc_area [OF driver_invD(4) [OF inv p]] by simp
qed

lemma flush_threads_inv: "flush_threads ts s = Some s' \<Longrightarrow> driver_inv K s \<Longrightarrow> driver_inv K s'"
proof (induction ts arbitrary: s)
  case (Cons t ts)
  obtain th where th: "threads s t = Some th"
    and rest: "flush_threads ts (set_thread t (th\<lparr>th_looper := th_looper th OR LOOPER_NEED_RETURN\<rparr>) s) = Some s'"
    using Cons(2) by (auto simp: bind_eq_Some_conv)
  show ?case by (rule Cons(1) [OF rest]) (use set_thread_inv [OF Cons(3)] th in simp)
qed simp

lemma deferred_flush_inv: "binder_deferred_flush proc s = Some s' \<Longrightarrow> driver_inv K s \<Longrightarrow> driver_inv K s'"
  by (auto simp: binder_deferred_flush_def bind_eq_Some_conv elim: flush_threads_inv)

section \<open>A node whose owner is gone\<close>

lemma tell_deaths_inv: "tell_deaths rs s = Some s' \<Longrightarrow> driver_inv K s \<Longrightarrow> driver_inv K s'"
proof (induction rs arbitrary: s)
  case (Cons ref rs)
  obtain r where r: "refs s ref = Some r" using Cons(2) by (auto simp: bind_eq_Some_conv)
  show ?case
  proof (cases "r_death r")
    case None
    then show ?thesis using Cons(2,3) r by simp
  next
    case (Some d)
    then obtain dt s1 where dt: "deaths s d = Some dt"
      and add: "list_add_tail (W_Death d) (L_Proc (r_proc r)) (set_death d (dt\<lparr>d_type := BINDER_WORK_DEAD_BINDER\<rparr>) s) = Some s1"
      and rest: "tell_deaths rs s1 = Some s'"
      using Cons(2) r by (auto simp: bind_eq_Some_conv split: if_splits)
    have "driver_inv K (set_death d (dt\<lparr>d_type := BINDER_WORK_DEAD_BINDER\<rparr>) s)"
      using set_death_inv [OF Cons(3)] dt by simp
    then show ?thesis using Cons(1) [OF rest] list_inv(3) [OF add] by blast
  qed
qed simp

lemma node_release_inv [inv_intros]:
  assumes code: "binder_node_release node s = Some s'" and inv: "driver_inv K s"
  shows "driver_inv K s'"
proof -
  obtain s1 s2 n where s1: "list_del_init (W_Node node) s = Some s1"
    and s2: "binder_release_work (L_Async node) s1 = Some s2" and n: "nodes s2 node = Some n"
    using code by (auto simp: binder_node_release_def bind_eq_Some_conv)
  have i2: "driver_inv K s2" by (rule release_work_inv [OF s2 list_inv(2) [OF s1 inv]])
  show ?thesis
  proof (cases "n_refs n = []")
    case True
    then obtain s3 where s3: "kfree BINDER_STAT_NODE node s2 = Some s3"
      and s': "s' = binder_stats_deleted BINDER_STAT_NODE (drop_work (W_Node node) (s3\<lparr>nodes := (nodes s3)(node := None)\<rparr>))"
      using code s1 s2 n by (auto simp: binder_node_release_def bind_eq_Some_conv)
    show ?thesis unfolding s' by (rule free_node_inv [OF s3 i2])
  next
    case False
    define n' where "n' = n\<lparr>n_proc := None, n_local_strong_refs := 0, n_local_weak_refs := 0\<rparr>"
    have i3: "driver_inv K (set_node node n' s2)" using set_node_inv [OF i2] n by simp
    have "driver_inv K ((set_node node n' s2)\<lparr>binder_dead_nodes := l\<rparr>)" for l
      using core_inv [OF core_update(8) i3] .
    then show ?thesis
      using code s1 s2 n False
      by (auto simp: binder_node_release_def Let_def simp flip: n'_def elim!: tell_deaths_inv)
  qed
qed

section \<open>Tearing a process down\<close>

lemma drain_inv:
  assumes step: "\<And>x s s'. body x s = Some s' \<Longrightarrow> driver_inv K s \<Longrightarrow> driver_inv K s'"
  shows "drain n elems body s = Some s' \<Longrightarrow> driver_inv K s \<Longrightarrow> driver_inv K s'"
proof (induction n arbitrary: s)
  case 0
  then show ?case by (auto split: option.splits list.splits)
next
  case (Suc n)
  then show ?case by (auto split: option.splits list.splits dest: step)
qed

lemma drain_all_inv:
  assumes "drain_all tree proc body s = Some s'" and "driver_inv K s"
    and "\<And>x s s'. body x s = Some s' \<Longrightarrow> driver_inv K s \<Longrightarrow> driver_inv K s'"
  shows "driver_inv K s'"
  using assms by (auto simp: drain_all_def bind_eq_Some_conv elim!: drain_inv [rotated])

lemma release_node_inv: "release_node K proc node s = Some s' \<Longrightarrow> driver_inv K s \<Longrightarrow> driver_inv K s'"
proof -
  assume code: "release_node K proc node s = Some s'" and inv: "driver_inv K s"
  obtain p where p: "procs s proc = Some p" using code by (auto simp: release_node_def bind_eq_Some_conv)
  have "driver_inv K (set_proc proc (p\<lparr>pr_nodes := t\<rparr>) s)" for t
    using set_proc_inv [OF inv] p proc_nodes_good [OF driver_invD(4) [OF inv p]] by simp
  then show ?thesis using code p by (auto simp: release_node_def elim!: node_release_inv)
qed

lemma reclaim_buffer_inv: "reclaim_buffer K proc b s = Some s' \<Longrightarrow> driver_inv K s \<Longrightarrow> driver_inv K s'"
  by (auto simp: reclaim_buffer_def bind_eq_Some_conv elim!: free_buffer_inv detach_transaction_inv)

lemma freed_proc_inv:
  assumes k: "kfree BINDER_STAT_PROC proc (binder_stats_deleted BINDER_STAT_PROC s) = Some s1" and inv: "driver_inv K s"
  shows "driver_inv K (s1\<lparr>procs := (procs s1)(proc := None)\<rparr>)"
  by (rule freed_inv [OF _ inv, of BINDER_STAT_PROC proc])
    (use k in \<open>auto simp: kfree_def freed_def binder_stats_deleted_def split: if_splits\<close>)

lemma deferred_release_inv:
  assumes code: "binder_deferred_release K proc s = Some s'" and inv: "driver_inv K s"
  shows "driver_inv K s'"
proof -
  define s1 where "s1 = s\<lparr>binder_procs := remove1 proc (binder_procs s)\<rparr>"
  have i1: "driver_inv K s1" unfolding s1_def by (rule core_inv [OF core_update(11) inv])
  obtain s2 s3 s4 s5 s6 s7 s8 s9 where
    s2: "(case binder_context_mgr_node s1 of
             None \<Rightarrow> Some s1
           | Some mgr \<Rightarrow>
               do {
                 n \<leftarrow> nodes s1 mgr;
                 Some (if n_proc n = Some proc then s1\<lparr>binder_context_mgr_node := None\<rparr> else s1)
               }) = Some s2"
    and s3: "drain_all pr_threads proc (binder_free_thread K proc) s2 = Some s3"
    and s4: "drain_all pr_nodes proc (release_node K proc) s3 = Some s4"
    and s5: "drain_all pr_refs_by_desc proc (binder_delete_ref K) s4 = Some s5"
    and s6: "binder_release_work (L_Proc proc) s5 = Some s6"
    and s7: "binder_release_work (L_Delivered proc) s6 = Some s7"
    and s8: "drain_all (\<lambda>p. p_allocated_buffers (pr_alloc p)) proc (reclaim_buffer K proc) s7 = Some s8"
    and s9: "kfree BINDER_STAT_PROC proc (binder_stats_deleted BINDER_STAT_PROC s8) = Some s9"
    and s': "s' = s9\<lparr>procs := (procs s9)(proc := None)\<rparr>"
    using code unfolding binder_deferred_release_def Let_def s1_def [symmetric]
    by (auto simp: bind_eq_Some_conv [of "_ :: binder_proc option"] bind_eq_Some_conv [of "_ :: driver option"]
        split: if_splits)
  have "driver_inv K (s1\<lparr>binder_context_mgr_node := m\<rparr>)" for m by (rule core_inv [OF core_update(9) i1])
  then have i2: "driver_inv K s2"
    using s2 i1 by (auto simp: bind_eq_Some_conv split: option.split_asm if_splits)
  note i3 = drain_all_inv [OF s3 i2 free_thread_inv]
  note i4 = drain_all_inv [OF s4 i3 release_node_inv]
  note i5 = drain_all_inv [OF s5 i4 delete_ref_inv]
  note i7 = release_work_inv [OF s7 release_work_inv [OF s6 i5]]
  note i8 = drain_all_inv [OF s8 i7 reclaim_buffer_inv]
  show ?thesis unfolding s' by (rule freed_proc_inv [OF s9 i8])
qed

lemma deferred_work_inv:
  assumes code: "deferred_work K proc d s = Some s'" and inv: "driver_inv K s"
  shows "driver_inv K s'"
proof -
  obtain p where p: "procs s proc = Some p" using code by (auto simp: deferred_work_def bind_eq_Some_conv)
  define s1 where "s1 = (if d AND BINDER_DEFERRED_PUT_FILES \<noteq> 0
                 then set_proc proc (p\<lparr>pr_alloc := (pr_alloc p)\<lparr>p_files := None\<rparr>\<rparr>) s else s)"
  have i1: "driver_inv K s1" using inv put_files_inv [OF p inv] by (simp add: s1_def)
  show ?thesis
    using code p i1
    by (auto simp: deferred_work_def Let_def bind_eq_Some_conv simp flip: s1_def
        elim!: deferred_release_inv deferred_flush_inv split: if_splits)
qed

lemma deferred_func_inv:
  assumes code: "binder_deferred_func K s = Some (r, s')" and inv: "driver_inv K s"
  shows "driver_inv K s'"
proof (cases "binder_deferred_list s")
  case Nil
  then show ?thesis using code inv by (simp add: binder_deferred_func_def)
next
  case (Cons proc ps)
  then obtain p where p: "procs s proc = Some p" using code by (auto simp: binder_deferred_func_def bind_eq_Some_conv)
  have i: "driver_inv K (s\<lparr>binder_deferred_list := ps\<rparr>)" by (rule core_inv [OF core_update(12) inv])
  have "driver_inv K (set_proc proc (p\<lparr>pr_deferred_work := 0\<rparr>) (s\<lparr>binder_deferred_list := ps\<rparr>))"
    using set_proc_inv [OF i] p driver_invD(4) [OF inv p] by (simp add: proc_good_def)
  then show ?thesis
    using code Cons p by (auto simp: binder_deferred_func_def Let_def elim!: deferred_work_inv)
qed

end
