(* ===== verification/Binder_System.thy ===== *)
theory Binder_System
  imports Driver_Lifecycle
begin

text \<open>
  The driver as the kernel runs it: every entry of \<open>binder_fops\<close> and every round of the
  deferred work is one step, because each holds \<open>binder_main_lock\<close> from start to end, but for
  an \<open>ioctl\<close> that sleeps in its read: it gives up the lock, keeps its frame, and goes on in a
  later step. The steps come in any order and number. Every reachable state satisfies the
  invariant of the driver.
\<close>

section \<open>Steps\<close>

text \<open>
  \<open>calls\<close> holds the sleeping call of each task and \<open>files\<close> the processes whose file is open:
  what the kernel guarantees is that a task makes one call at a time, on an open file, that
  a file is released once no call uses it, and that the area of a mapping is page-aligned
  and not empty. A step in which the driver hits a \<open>BUG\<close> has no result.
\<close>

record system =
  drv :: driver
  calls :: "nat \<rightharpoonup> ioctl_frame"
  files :: "addr list"

definition boot :: "(nat \<Rightarrow> nat \<rightharpoonup> nat) \<Rightarrow> (nat \<Rightarrow> int) \<Rightarrow> driver" where
  "boot fds nices = \<lparr>procs = Map.empty, threads = Map.empty, nodes = Map.empty, refs = Map.empty,
     deaths = Map.empty, transactions = Map.empty, live = [], items = (\<lambda>_. []), link_of = (\<lambda>_. Wild),
     binder_last_id = 0, binder_context_mgr_node = None, binder_context_mgr_uid = None, binder_procs = [],
     binder_dead_nodes = [], binder_deferred_list = [], obj_created = (\<lambda>_. 0), obj_deleted = (\<lambda>_. 0),
     st_br = (\<lambda>_. 0), st_bc = (\<lambda>_. 0), tlog = empty_log, tlog_failed = empty_log,
     fd_table = fds, nice_of = nices, user_out = [], ticks = 0\<rparr>"

definition boot_system :: "(nat \<Rightarrow> nat \<rightharpoonup> nat) \<Rightarrow> (nat \<Rightarrow> int) \<Rightarrow> system" where
  "boot_system fds nices = \<lparr>drv = boot fds nices, calls = Map.empty, files = []\<rparr>"

definition settle_call :: "nat \<Rightarrow> ioctl_result \<Rightarrow> driver \<Rightarrow> system \<Rightarrow> system" where
  "settle_call current r d y =
     y\<lparr>drv := d, calls := (calls y)(current := (case r of Ioctl_Return ret \<Rightarrow> None | Ioctl_Sleep f \<Rightarrow> Some f))\<rparr>"

inductive sys_step :: "kern \<Rightarrow> system \<Rightarrow> system \<Rightarrow> bool" for K where
  step_open:
    "binder_open K current (drv y) = ((ret, res), d) \<Longrightarrow>
     sys_step K y (y\<lparr>drv := d, files := (case res of None \<Rightarrow> files y | Some proc \<Rightarrow> proc # files y)\<rparr>)"
| step_mmap:
    "proc \<in> set (files y) \<Longrightarrow> vma_ok vma \<Longrightarrow> proc_mmap K current proc vma (drv y) = Some (r, d) \<Longrightarrow>
     sys_step K y (y\<lparr>drv := d\<rparr>)"
| step_close:
    "binder_vma_close proc (drv y) = Some d \<Longrightarrow> sys_step K y (y\<lparr>drv := d\<rparr>)"
| step_ioctl:
    "proc \<in> set (files y) \<Longrightarrow> calls y current = None \<Longrightarrow>
     binder_ioctl K current non_block proc cmd arg (drv y) = Some (r, d) \<Longrightarrow>
     sys_step K y (settle_call current r d y)"
| step_resume:
    "calls y current = Some f \<Longrightarrow> binder_ioctl_resume K f interrupted (drv y) = Some (r, d) \<Longrightarrow>
     sys_step K y (settle_call current r d y)"
| step_poll:
    "proc \<in> set (files y) \<Longrightarrow> calls y current = None \<Longrightarrow> binder_poll K current proc (drv y) = Some (r, d) \<Longrightarrow>
     sys_step K y (y\<lparr>drv := d\<rparr>)"
| step_flush:
    "proc \<in> set (files y) \<Longrightarrow> binder_flush proc (drv y) = Some d \<Longrightarrow> sys_step K y (y\<lparr>drv := d\<rparr>)"
| step_release:
    "proc \<in> set (files y) \<Longrightarrow> (\<forall>f \<in> ran (calls y). ra_proc (if_args f) \<noteq> proc) \<Longrightarrow>
     binder_release proc (drv y) = Some d \<Longrightarrow>
     sys_step K y (y\<lparr>drv := d, files := remove1 proc (files y)\<rparr>)"
| step_deferred:
    "binder_deferred_func K (drv y) = Some (again, d) \<Longrightarrow> sys_step K y (y\<lparr>drv := d\<rparr>)"

inductive_cases sys_stepE: "sys_step K y y'"

inductive reachable :: "kern \<Rightarrow> system \<Rightarrow> bool" for K where
  reach_boot: "reachable K (boot_system fds nices)"
| reach_step: "reachable K y \<Longrightarrow> sys_step K y y' \<Longrightarrow> reachable K y'"

section \<open>The invariant\<close>

lemma boot_inv: "kern_ok K \<Longrightarrow> driver_inv K (boot fds nices)"
  by (simp add: driver_inv_def procs_good_def mem_ok_def stats_ok_def boot_def empty_log_ok)

lemma step_inv: "sys_step K y y' \<Longrightarrow> driver_inv K (drv y) \<Longrightarrow> driver_inv K (drv y')"
proof (induction rule: sys_step.induct)
  case (step_open current y ret res d)
  then show ?case by (auto intro: open_inv)
next
  case (step_mmap proc y vma current r d)
  then show ?case by (auto intro: proc_mmap_inv)
next
  case (step_close proc y d)
  then show ?case by (auto intro: vma_close_inv)
next
  case (step_ioctl proc y current nb cmd arg r d)
  then show ?case by (auto simp: settle_call_def intro: ioctl_inv)
next
  case (step_resume y current f intr r d)
  then show ?case by (auto simp: settle_call_def intro: ioctl_resume_inv)
next
  case (step_poll proc y current r d)
  then show ?case by (auto intro: poll_inv)
next
  case (step_flush proc y d)
  then show ?case by (auto simp: binder_flush_def intro: defer_work_inv)
next
  case (step_release proc y d)
  then show ?case by (auto simp: binder_release_def intro: defer_work_inv)
next
  case (step_deferred y again d)
  then show ?case by (auto intro: deferred_func_inv)
qed

lemma reachable_inv: "reachable K y \<Longrightarrow> kern_ok K \<Longrightarrow> driver_inv K (drv y)"
proof (induction rule: reachable.induct)
  case (reach_boot fds nices)
  then show ?case by (simp add: boot_system_def boot_inv)
next
  case (reach_step y y')
  then show ?case using step_inv by blast
qed

end
