(* ===== verification/Area_Theorems.thy ===== *)
theory Area_Theorems
  imports Area_Demo
begin

text \<open>
  The properties of the transaction area: what \<open>binder_alloc_buf\<close>, \<open>binder_free_buf\<close>,
  \<open>binder_buffer_lookup\<close> and \<open>binder_mmap\<close> do on a well-formed area, and what every sequence
  of them does. Each is followed by its application to the concrete area.
\<close>

section \<open>Allocating and freeing\<close>

text \<open>
  C1. On a well-formed area \<open>binder_alloc_buf\<close> never crashes, whatever sizes it is given and
  whichever page calls fail. Either the request is refused and buffers, headers and
  asynchronous space are as before, or the answer was a free buffer, is now allocated with
  room for the request, carries the sizes and the flag, is charged, no other allocated
  buffer changed, and no smaller free buffer would have done (best fit). The invariant
  holds again.
\<close>

theorem alloc_buf_correct:
  assumes "kern_ok K" and "binder_inv K a"
    and "d < 2 ^ (8 * ptr_bytes K)" and "os < 2 ^ (8 * ptr_bytes K)"
  shows "\<exists>r a'. binder_alloc_buf K a d os async = Some (r, a') \<and> alloc_post K a d os async r a' \<and>
    (\<forall>x y. r = Some x \<longrightarrow> y \<in> free_set a \<longrightarrow> alloc_size K d os \<le> binder_buffer_size K a y \<longrightarrow>
       binder_buffer_size K a x \<le> binder_buffer_size K a y)"
  using alloc_buf_outcome [OF assms] by metis

theorem alloc_buf_correct_witness:
  "alloc_post demo_kern demo_area 100 0 True (Some 65536) demo_busy_area"
  using alloc_buf_correct [OF demo_kern_ok demo_inv(1), of 100 0 True] by (simp add: demo_alloc)

text \<open>
  C2. \<open>binder_free_buf\<close> of an allocated buffer with no transaction never crashes: exactly that
  buffer leaves the allocated ones, its asynchronous charge is refunded, free neighbours are
  merged, headers whose pages are no longer needed are unmapped, and the invariant holds.
\<close>

theorem free_buf_correct:
  assumes "kern_ok K" and "binder_inv K a" and "x \<in> alloc_set a" and "p_heap a x = Some h"
    and "b_transaction h = None"
  shows "\<exists>a'. binder_free_buf K a x = Some a' \<and> free_post K a x h a'"
  using free_core [OF assms] by metis

theorem free_buf_correct_witness:
  "\<exists>a'. binder_free_buf demo_kern demo_busy_area 65536 = Some a' \<and> alloc_set a' = {}"
  using free_buf_correct [OF demo_kern_ok demo_busy_inv demo_busy_area_sets(2)]
  by (auto simp: demo_busy_header free_post_def demo_busy_alloc_set)

text \<open>
  C23. When the process is alive, pages can be had and the asynchronous space suffices, a
  request for which some free buffer is large enough is granted.
\<close>

theorem alloc_buf_granted:
  assumes "kern_ok K" and "binder_inv K a" and "pages_available K" and "process_alive K a"
    and "d < 2 ^ (8 * ptr_bytes K)" and "os < 2 ^ (8 * ptr_bytes K)"
    and "d \<le> alloc_size K d os" and "os \<le> alloc_size K d os" and "async_room K a (alloc_size K d os) async"
    and "y \<in> free_set a" and "alloc_size K d os \<le> binder_buffer_size K a y"
  shows "\<exists>x a'. binder_alloc_buf K a d os async = Some (Some x, a')"
proof -
  obtain r a' where "binder_alloc_buf K a d os async = Some (r, a')"
    by (rule alloc_buf_outcome [OF assms(1,2,5,6)]) (rule that)
  then show ?thesis using alloc_granted [OF assms(1-4,7-11)] by auto
qed

theorem alloc_buf_granted_witness:
  "\<exists>x a'. binder_alloc_buf demo_kern demo_area 100 0 True = Some (Some x, a')"
  by (rule alloc_buf_granted [OF demo_kern_ok demo_inv(1) demo_available, where y = 65536])
    (simp_all add: demo_alloc_steps async_room_def demo_area_sel demo_busy_area_sets size_eval)

section \<open>Sequences of requests and releases\<close>

text \<open>
  C15. No sequence of requests of any sizes and of releases of allocated idle buffers crashes
  the allocator or breaks its invariant.
\<close>

theorem area_run_safe:
  assumes "kern_ok K" and "binder_inv K a"
    and "admissible (pool_ok (area_valid K) alloc_set area_busy) (pool_step (area_alloc K) (area_free K)) es a"
  shows "\<exists>a'. run (pool_step (area_alloc K) (area_free K)) es a = Some a' \<and> binder_inv K a'"
  using area.run_safe [of K a es] assms by (simp add: area_inv_def)

theorem area_run_safe_witness:
  "\<exists>a'. run (pool_step (area_alloc demo_kern) (area_free demo_kern)) [Request (100, 0, True), Release 65536] demo_area
     = Some a' \<and> binder_inv demo_kern a'"
  by (rule area_run_safe [OF demo_kern_ok demo_inv(1)])
    (simp_all add: demo_alloc demo_busy_area_sets split: option.split)

text \<open>
  C8. While a buffer is out it keeps its place and its room, and no later request is answered
  with it.
\<close>

theorem buffer_stays_out:
  assumes "kern_ok K" and "binder_inv K a"
    and "admissible (pool_ok (area_valid K) alloc_set area_busy) (pool_step (area_alloc K) (area_free K)) es a"
    and "run (pool_step (area_alloc K) (area_free K)) es a = Some a'"
    and "b \<in> alloc_set a" and "Release b \<notin> set es"
  shows "b \<in> alloc_set a' \<and> binder_buffer_size K a' b = binder_buffer_size K a b \<and>
    (\<forall>r c a''. area_valid K r \<longrightarrow> area_alloc K r a' = Some (Some c, a'') \<longrightarrow> c \<noteq> b)"
  using area.run_keeps [of K a es a' b] area.never_twice [of K a es a' b] assms by (simp add: area_inv_def)

theorem buffer_stays_out_witness:
  "\<exists>a'. run (pool_step (area_alloc demo_kern) (area_free demo_kern)) [Request (100, 0, True), Request (8, 8, False)] demo_busy_area
      = Some a' \<and> 65536 \<in> alloc_set a' \<and> binder_buffer_size demo_kern a' 65536 = binder_buffer_size demo_kern demo_busy_area 65536 \<and>
     (\<forall>r c a''. area_valid demo_kern r \<longrightarrow> area_alloc demo_kern r a' = Some (Some c, a'') \<longrightarrow> c \<noteq> 65536)"
proof -
  let ?es = "[Request (100, 0, True), Request (8, 8, False)] :: (nat \<times> nat \<times> bool, addr) pool_event list"
  have ad: "admissible (pool_ok (area_valid demo_kern) alloc_set area_busy) (pool_step (area_alloc demo_kern) (area_free demo_kern))
      ?es demo_busy_area"
    by (simp add: area_valid.simps split: option.split)
  then obtain a' where "run (pool_step (area_alloc demo_kern) (area_free demo_kern)) ?es demo_busy_area = Some a'"
    using area.run_safe [of demo_kern demo_busy_area ?es] demo_kern_ok demo_busy_inv by (auto simp: area_inv_def)
  from this buffer_stays_out [OF demo_kern_ok demo_busy_inv ad this demo_busy_area_sets(2)] show ?thesis by auto
qed

text \<open>
  Two buffers of the area never overlap, and each lies inside the area: the bytes of the
  lower one, header and data, end before the header of the other.
\<close>

theorem buffers_apart:
  assumes "kern_ok K" and "binder_inv K a" and "x \<in> set (p_buffers a)" and "y \<in> set (p_buffers a)" and "x < y"
  shows "p_buffer a \<le> x \<and> x + sizeof_binder_buffer K + binder_buffer_size K a x \<le> y \<and>
    y + sizeof_binder_buffer K + binder_buffer_size K a y \<le> p_buffer a + p_buffer_size a"
  using buffers_disjoint [OF assms] buffer_inside [OF assms(1,2,3)] buffer_inside [OF assms(1,2,4)]
  by (simp add: area_end_def)

text \<open>
  C24. After any sequence of requests and releases, whatever pages \<open>binder_update_page_range\<close>
  had to allocate, map and give back on the way, every byte of every allocated buffer, header
  and data, lies on a page that the driver has allocated and mapped in the kernel.
\<close>

theorem allocated_bytes_mapped:
  assumes "kern_ok K" and "binder_inv K a"
    and "admissible (pool_ok (area_valid K) alloc_set area_busy) (pool_step (area_alloc K) (area_free K)) es a"
  shows "\<exists>a'. run (pool_step (area_alloc K) (area_free K)) es a = Some a' \<and>
    (\<forall>x \<in> alloc_set a'. \<forall>p. x \<le> p \<and> p < x + sizeof_binder_buffer K + binder_buffer_size K a' x \<longrightarrow>
       (\<exists>i. page_index a' p = Some i \<and> pg_page (p_pages a' ! i) \<and> pg_kernel (p_pages a' ! i)))"
proof -
  obtain a' where a': "run (pool_step (area_alloc K) (area_free K)) es a = Some a'" "binder_inv K a'"
    using area.run_safe [of K a es] assms by (auto simp: area_inv_def)
  show ?thesis using a'(1) allocated_page [OF assms(1) a'(2)] by blast
qed

theorem allocated_bytes_mapped_witness:
  "\<exists>i. page_index demo_busy_area 65600 = Some i \<and> pg_page (p_pages demo_busy_area ! i) \<and> pg_kernel (p_pages demo_busy_area ! i)"
proof -
  have ad: "admissible (pool_ok (area_valid demo_kern) alloc_set area_busy) (pool_step (area_alloc demo_kern) (area_free demo_kern))
      [Request (100, 0, True)] demo_area"
    by (simp add: area_valid.simps split: option.split)
  have "run (pool_step (area_alloc demo_kern) (area_free demo_kern)) [Request (100, 0, True)] demo_area = Some demo_busy_area"
    by (simp add: demo_alloc)
  with allocated_bytes_mapped [OF demo_kern_ok demo_inv(1) ad] demo_busy_area_sets(2) show ?thesis
    by (auto simp: demo_busy_size demo_sizes)
qed

text \<open>
  When nothing is allocated, the area is one free buffer and only its first page, which
  holds the header, is mapped: freeing everything gives all other pages back.
\<close>

theorem all_free_returns_pages:
  assumes "kern_ok K" and "binder_inv K a" and "alloc_set a = {}"
  shows "p_buffers a = [p_buffer a] \<and>
    (\<forall>i < length (p_pages a). pg_page (p_pages a ! i) \<longleftrightarrow> i = 0)"
  using all_free_area [OF assms] .

text \<open>
  \<open>binder_buffer_lookup\<close> terminates without a crash for every address the process may pass
  and finds an allocated buffer exactly when that address is the user address of its data;
  anything else, also a pointer into the middle of a buffer or to a free one, is not found.
\<close>

theorem buffer_lookup_exact:
  assumes "kern_ok K" and "binder_inv K a"
  shows "\<exists>r. binder_buffer_lookup K a u = Some r \<and>
    (\<forall>x. r = Some x \<longleftrightarrow> x \<in> alloc_set a \<and>
       int x = (int u - p_user_buffer_offset a - int (sizeof_binder_buffer K)) mod 2 ^ (8 * ptr_bytes K))"
  using lookup_exact [OF assms] by metis

text \<open>
  C25. \<open>binder_mmap\<close> of a process that has no area yet never crashes. On success the area has
  the size of the mapping or 4 MB if that is less, one free buffer, half of the size as
  asynchronous space, and the invariant of the allocator; on an error the process is left
  without an area, so that a later mmap starts afresh.
\<close>

theorem mmap_correct:
  assumes "kern_ok K" and "unmapped a" and "vma_ok vma"
  shows "\<exists>r vma' a'. binder_mmap K a cur vma = Some (r, vma', a') \<and>
    (r = 0 \<and> mmap_done K a (min (vm_end vma - vm_start vma) SZ_4M) a' \<or> r < 0 \<and> unmapped a')"
  using mmap_outcome [OF assms] by metis

theorem mmap_correct_witness: "p_free_async_space demo_area = 8192 \<and> alloc_set demo_area = {}"
  using mmap_correct [OF demo_kern_ok fresh_unmapped demo_vma_ok, of 1 0 1]
  unfolding demo_mmap by (simp add: mmap_done_def demo_vma_length)

section \<open>Asynchronous space\<close>

text \<open>
  C26. On a kernel with 32-bit pointers the asynchronous space is never lost or created: after
  any sequence of requests and releases the free space and what the allocated asynchronous
  buffers hold add up to half of the area.
\<close>

theorem async_space_conserved:
  assumes "kern_ok K" and "binder_inv K a" and "ptr_bytes K = 4" and "async_ok K a"
    and "admissible (pool_ok (area_valid K) alloc_set area_busy) (pool_step (area_alloc K) (area_free K)) es a"
    and "run (pool_step (area_alloc K) (area_free K)) es a = Some a'"
  shows "p_free_async_space a' + async_held K a' = p_buffer_size a' div 2"
  using area32.run_invariant [of K a es a'] assms by (simp add: area32_inv_def area_inv_def async_ok_def)

theorem async_space_conserved_witness:
  "p_free_async_space demo_busy_area + async_held demo_kern demo_busy_area = p_buffer_size demo_busy_area div 2"
  by (rule async_space_conserved [OF demo_kern_ok demo_inv(1), of "[Request (100, 0, True)]"])
    (simp_all add: demo_alloc async_ok_def async_held_def demo_inv demo_area_sel split: option.split)

text \<open>
  C27. On a kernel with 64-bit pointers four bytes are lost by each asynchronous buffer whose
  data size is one to four above a multiple of eight: \<open>binder_free_buf\<close> rounds to
  \<open>sizeof(binder_ptr)\<close>, \<open>binder_alloc_buf\<close> to \<open>sizeof(void *)\<close>.
\<close>

theorem async_space_leak:
  assumes "kern_ok K" and "ptr_bytes K = 8" and "binder_inv K a" and "p_free_async_space a < 2 ^ (8 * ptr_bytes K)"
    and "1 \<le> d mod 8" and "d mod 8 \<le> 4" and "os mod 8 = 0"
    and "d < 2 ^ (8 * ptr_bytes K)" and "os < 2 ^ (8 * ptr_bytes K)"
    and "binder_alloc_buf K a d os True = Some (Some x, a')" and "\<not> area_busy a' x"
  shows "\<exists>a''. binder_free_buf K a' x = Some a'' \<and> p_free_async_space a'' + 4 = p_free_async_space a"
  using alloc_free_leak [OF assms(1-7) _ assms(10,11)] assms(8,9) by auto

theorem async_space_leak_witness:
  "\<exists>a''. binder_free_buf demo_kern64 demo_busy_area64 65536 = Some a'' \<and> p_free_async_space a'' + 4 = 8192"
  using async_space_leak [OF demo_kern64_ok _ demo_inv64, of 100 0 65536 demo_busy_area64]
  by (simp add: demo_alloc64 demo_area_sel) (simp add: area_busy_def demo_busy_area64_def demo_busy_area_def zero_header_def)

end
