(* ===== verification/Driver_Theorems.thy ===== *)
theory Driver_Theorems
  imports Binder_System Area_Theorems
begin

text \<open>
  What holds in every state the driver can reach, whatever processes do, whichever
  allocations fail and in whatever order calls, wake-ups and deferred work come.
\<close>

section \<open>A run on the concrete kernel\<close>

definition demo_boot :: system where
  "demo_boot = boot_system (\<lambda>_. Map.empty) (\<lambda>_. 0)"

definition demo_open :: system where
  "demo_open = demo_boot\<lparr>drv := snd (binder_open demo_kern 1 (drv demo_boot)), files := [1]\<rparr>"

lemma demo_open_result: "binder_open demo_kern 1 (drv demo_boot) = ((0, Some 1), drv demo_open)"
  by (simp add: demo_open_def demo_boot_def boot_system_def boot_def binder_open_def kmalloc_def demo_kern_def Let_def)

lemma demo_open_reachable: "reachable demo_kern demo_open"
proof -
  have "sys_step demo_kern demo_boot (demo_boot\<lparr>drv := drv demo_open, files := 1 # files demo_boot\<rparr>)"
    using step_open [OF demo_open_result] by simp
  then have "reachable demo_kern (demo_boot\<lparr>drv := drv demo_open, files := 1 # files demo_boot\<rparr>)"
    by (rule reach_step [rotated]) (simp add: demo_boot_def reach_boot)
  then show ?thesis by (simp add: demo_open_def demo_boot_def boot_system_def)
qed

lemma demo_open_procs: "dom (procs (drv demo_open)) = {1}"
  by (simp add: demo_open_def demo_boot_def boot_system_def boot_def binder_open_def kmalloc_def demo_kern_def Let_def
      set_proc_def binder_stats_created_def)

lemma demo_open_proc: "\<exists>x. procs (drv demo_open) 1 = Some x"
  using demo_open_procs by blast

section \<open>Every reachable state\<close>

text \<open>
  C5. In every state the driver can reach, the area of every process is either not mapped
  or satisfies the allocator's invariant: its buffers lie in order without gaps, the two
  trees hold exactly the free and the allocated ones, no two neighbours are free, and every
  header and every allocated byte is on a mapped page.
\<close>

theorem reachable_areas:
  assumes "kern_ok K" and "reachable K y" and "procs (drv y) p = Some x"
  shows "unmapped (pr_alloc x) \<or> binder_inv K (pr_alloc x)"
  using driver_invD(4) [OF reachable_inv [OF assms(2,1)] assms(3)] by (simp add: proc_good_def area_state_def)

theorem reachable_areas_witness:
  "\<exists>x. procs (drv demo_open) 1 = Some x \<and> (unmapped (pr_alloc x) \<or> binder_inv demo_kern (pr_alloc x))"
  using demo_open_proc reachable_areas [OF demo_kern_ok demo_open_reachable] by blast

text \<open>The addresses at which there is an object of a kind.\<close>

fun objects :: "driver \<Rightarrow> stat_type \<Rightarrow> addr set" where
  "objects s BINDER_STAT_PROC = dom (procs s)"
| "objects s BINDER_STAT_THREAD = dom (threads s)"
| "objects s BINDER_STAT_NODE = dom (nodes s)"
| "objects s BINDER_STAT_REF = dom (refs s)"
| "objects s BINDER_STAT_DEATH = dom (deaths s)"
| "objects s BINDER_STAT_TRANSACTION = dom (transactions s)"
| "objects s BINDER_STAT_TRANSACTION_COMPLETE = {c. (BINDER_STAT_TRANSACTION_COMPLETE, c) \<in> set (live s)}"

lemma objects_live: "mem_ok s \<Longrightarrow> objects s ty = {a. (ty, a) \<in> set (live s)}"
  by (cases ty) (auto simp: mem_ok_def)

lemma objects_card:
  assumes "mem_ok s" and "distinct (live s)"
  shows "finite (objects s ty)" and "card (objects s ty) = length (filter (\<lambda>x. fst x = ty) (live s))"
proof -
  have eq: "objects s ty = snd ` set (filter (\<lambda>x. fst x = ty) (live s))"
    by (force simp: objects_live [OF assms(1)])
  show "finite (objects s ty)" by (simp add: eq)
  have "inj_on snd (set (filter (\<lambda>x. fst x = ty) (live s)))" by (auto simp: inj_on_def)
  then show "card (objects s ty) = length (filter (\<lambda>x. fst x = ty) (live s))"
    using assms(2) by (simp add: eq card_image distinct_card distinct_filter del: set_filter)
qed

text \<open>
  C16. In every reachable state the statistics the driver keeps are exact up to the width of
  their counters, which are \<open>int\<close>s of 32 bits and wrap: of each kind of object, as many were
  created as were deleted and are still there, modulo \<open>2 ^ 32\<close>. So no object is freed twice and
  none is dropped without being counted.
\<close>

theorem reachable_statistics:
  assumes "kern_ok K" and "reachable K y"
  shows "obj_created (drv y) ty = obj_deleted (drv y) ty + of_nat (card (objects (drv y) ty))"
proof -
  have inv: "driver_inv K (drv y)" by (rule reachable_inv [OF assms(2,1)])
  then have "distinct (live (drv y))" by (simp add: driver_inv_def distinct_map)
  then show ?thesis
    using objects_card(2) [OF driver_invD(2) [OF inv]] driver_invD(3) [OF inv] by (simp add: stats_ok_def)
qed

theorem reachable_statistics_witness:
  "obj_created (drv demo_open) BINDER_STAT_PROC = obj_deleted (drv demo_open) BINDER_STAT_PROC + of_nat (card {1 :: addr})"
  using reachable_statistics [OF demo_kern_ok demo_open_reachable, of BINDER_STAT_PROC] by (simp add: demo_open_procs)

text \<open>
  In every reachable state two objects of different kinds have different addresses: a
  node is never taken for a transaction, nor a work item of one kind for one of another.
\<close>

theorem reachable_apart:
  assumes "kern_ok K" and "reachable K y" and "ty \<noteq> ty'"
  shows "objects (drv y) ty \<inter> objects (drv y) ty' = {}"
proof -
  have inv: "driver_inv K (drv y)" by (rule reachable_inv [OF assms(2,1)])
  then have "inj_on snd (set (live (drv y)))" by (simp add: driver_inv_def distinct_map)
  then show ?thesis
    using assms(3) by (fastforce simp: objects_live [OF driver_invD(2) [OF inv]] inj_on_def)
qed

text \<open>
  In every reachable state no process has a negative count of threads it was asked to
  start or of threads started for it, although the commands that decrease the first come
  from the process itself.
\<close>

theorem reachable_thread_counts:
  assumes "kern_ok K" and "reachable K y" and "procs (drv y) p = Some x"
  shows "0 \<le> pr_requested_threads x \<and> 0 \<le> pr_requested_threads_started x"
  using driver_invD(4) [OF reachable_inv [OF assms(2,1)] assms(3)] by (simp add: proc_good_def)

end
