(* ===== verification/Read_Bounds.thy ===== *)
theory Read_Bounds
  imports Driver_Theorems
begin

text \<open>
  Where \<open>binder_thread_read\<close> writes in the memory of its caller. The lemmas follow the code:
  operations that do not touch user memory, then one word, one work item, the loop and the
  call with its sleeps.
\<close>

definition writes :: "nat \<Rightarrow> nat \<Rightarrow> driver \<Rightarrow> driver \<Rightarrow> bool" where
  "writes lo hi s s' \<longleftrightarrow> (\<exists>out. user_out s' = user_out s @ out \<and> (\<forall>(p, bs) \<in> set out. lo \<le> p \<and> p + length bs \<le> hi))"

lemma writes_none [simp]: "user_out s' = user_out s \<Longrightarrow> writes lo hi s s'"
  by (simp add: writes_def)

lemma writes_trans [trans]:
  assumes "writes lo hi s s1" and "writes lo hi s1 s2"
  shows "writes lo hi s s2"
proof -
  obtain o1 o2 where "user_out s1 = user_out s @ o1" "user_out s2 = user_out s1 @ o2"
    "\<forall>(p, bs) \<in> set o1. lo \<le> p \<and> p + length bs \<le> hi" "\<forall>(p, bs) \<in> set o2. lo \<le> p \<and> p + length bs \<le> hi"
    using assms by (auto simp: writes_def)
  then show ?thesis unfolding writes_def by (intro exI [of _ "o1 @ o2"]) auto
qed

lemma writes_left: "user_out s1 = user_out s \<Longrightarrow> writes lo hi s1 s2 = writes lo hi s s2"
  by (simp add: writes_def)

lemma writes_right: "user_out s2 = user_out s1 \<Longrightarrow> writes lo hi s s2 = writes lo hi s s1"
  by (simp add: writes_def)

section \<open>What does not write\<close>

lemma set_out [simp]:
  "user_out (set_proc p x s) = user_out s" "user_out (set_thread t y s) = user_out s"
  "user_out (set_node n z s) = user_out s" "user_out (set_transaction q v s) = user_out s"
  "user_out (set_link w l s) = user_out s" "user_out (drop_work w s) = user_out s"
  "user_out (binder_stats_deleted ty s) = user_out s"
  by (simp_all add: set_proc_def set_thread_def set_node_def set_transaction_def set_link_def drop_work_def
      binder_stats_deleted_def)

lemma stat_br_out: "binder_stat_br proc th cmd s = Some s' \<Longrightarrow> user_out s' = user_out s"
  by (auto simp: binder_stat_br_def Let_def bind_eq_Some_conv split: if_splits)

lemma list_out:
  "list_del w s = Some s' \<Longrightarrow> user_out s' = user_out s" "list_del_init w s = Some s' \<Longrightarrow> user_out s' = user_out s"
  "list_add w l s = Some s' \<Longrightarrow> user_out s' = user_out s"
  by (auto simp: list_del_def list_del_init_def list_add_def unlink_def set_link_def split: link.splits if_splits)

lemma kfree_out: "kfree ty a s = Some s' \<Longrightarrow> user_out s' = user_out s"
  by (auto simp: kfree_def split: if_splits)

lemma free_out:
  "free_complete c s = Some s' \<Longrightarrow> user_out s' = user_out s" "free_death d s = Some s' \<Longrightarrow> user_out s' = user_out s"
  "free_transaction t s = Some s' \<Longrightarrow> user_out s' = user_out s"
  "free_unused_node K proc node s = Some s' \<Longrightarrow> user_out s' = user_out s"
  by (auto simp: free_complete_def free_death_def free_transaction_def free_unused_node_def bind_eq_Some_conv
      dest: kfree_out)

lemma buf_out: "buf_set b h s = Some s' \<Longrightarrow> user_out s' = user_out s" "clear_buffer bo s = Some s' \<Longrightarrow> user_out s' = user_out s"
  by (auto simp: buf_set_def clear_buffer_def Let_def bind_eq_Some_conv split: option.splits)

lemma nice_out [simp]: "user_out (binder_set_nice K c n s) = user_out s" "user_out (serve_priority K c x sv m s) = user_out s"
  by (simp_all add: binder_set_nice_def serve_priority_def Let_def)

lemma finish_out: "finish_delivery th t b call s = Some s' \<Longrightarrow> user_out s' = user_out s"
  by (auto simp: finish_delivery_def bind_eq_Some_conv list_out buf_out free_out split: if_splits dest!: list_out buf_out free_out)

section \<open>Words\<close>

lemma put_user_writes:
  assumes "put_user K p v s = (r, s')" and "lo \<le> p" and "p + 4 \<le> hi"
  shows "writes lo hi s s'"
  using assms by (auto simp: put_user_def copy_to_user_def writes_def tick_def le_bytes_def split: if_splits)

lemma copy_writes:
  assumes "copy_to_user K p bs s = (r, s')" and "lo \<le> p" and "p + length bs \<le> hi"
  shows "writes lo hi s s'"
  using assms by (auto simp: copy_to_user_def writes_def tick_def split: if_splits)

lemma put_words_writes:
  assumes "put_words K p vs s = (r, s')" and "lo \<le> p" and "p + 4 * length vs \<le> hi"
  shows "writes lo hi s s'"
  using assms
proof (induction vs arbitrary: p s)
  case (Cons v vs)
  obtain ok s1 where 1: "put_user K p v s = (ok, s1)" by fastforce
  have w1: "writes lo hi s s1" by (rule put_user_writes [OF 1]) (use Cons.prems in auto)
  show ?case
  proof (cases ok)
    case False
    then show ?thesis using Cons.prems(1) 1 w1 by simp
  next
    case True
    then have rest: "put_words K (p + 4) vs s1 = (r, s')" using Cons.prems(1) 1 by simp
    have "writes lo hi s1 s'" by (rule Cons.IH [OF rest]) (use Cons.prems in auto)
    with w1 show ?thesis by (rule writes_trans)
  qed
qed simp

section \<open>One work item\<close>

fun item_at :: "nat \<Rightarrow> item_result \<Rightarrow> bool" where
  "item_at ptr (Item_Next p) = (ptr \<le> p \<and> p \<le> ptr + 44 \<and> 4 dvd p - ptr)"
| "item_at ptr (Item_Done p) = (ptr \<le> p \<and> p \<le> ptr + 44 \<and> 4 dvd p - ptr)"
| "item_at ptr Item_Fault = True"

lemma read_complete_writes:
  assumes "read_complete K a c ptr s = Some (r, s')"
  shows "writes ptr (ptr + 44) s s' \<and> item_at ptr r"
proof -
  obtain ok s1 where 1: "put_user K ptr (br_number BR_TRANSACTION_COMPLETE) s = (ok, s1)" by fastforce
  have w1: "writes ptr (ptr + 44) s s1" by (rule put_user_writes [OF 1]) auto
  show ?thesis
  proof (cases ok)
    case False
    then show ?thesis using assms 1 w1 by (simp add: read_complete_def)
  next
    case True
    then obtain s2 s3 where "binder_stat_br (ra_proc a) (ra_thread a) BR_TRANSACTION_COMPLETE s1 = Some s2"
      "list_del (W_Complete c) s2 = Some s3" "free_complete c s3 = Some s'" "r = Item_Next (ptr + 4)"
      using assms 1 by (auto simp: read_complete_def bind_eq_Some_conv)
    moreover from this have "user_out s' = user_out s1"
      using stat_br_out list_out(1) free_out(1) by metis
    ultimately show ?thesis using writes_right [of s' s1] w1 by simp
  qed
qed

lemma read_node_writes:
  assumes "read_node K a node ptr s = Some (r, s')"
  shows "writes ptr (ptr + 44) s s' \<and> item_at ptr r"
proof -
  obtain n where n: "nodes s node = Some n" using assms by (auto simp: read_node_def bind_eq_Some_conv)
  obtain cmd n' where c: "node_command n = (cmd, n')" by fastforce
  obtain ok s2 where 2: "put_words K ptr [br_number cmd, n_ptr n, n_cookie n] (set_node node n' s) = (ok, s2)" by fastforce
  have "writes ptr (ptr + 44) (set_node node n' s) s2" by (rule put_words_writes [OF 2]) auto
  then have w2: "writes ptr (ptr + 44) s s2" using writes_left [of "set_node node n' s" s] by simp
  show ?thesis
  proof (cases "cmd = BR_NOOP")
    case True
    then obtain s3 where s3: "list_del_init (W_Node node) (set_node node n' s) = Some s3"
      "(if \<not> node_weak n \<and> \<not> node_strong n then free_unused_node K (ra_proc a) node s3 else Some s3) = Some s'"
      "r = Item_Next ptr"
      using assms n c by (auto simp: read_node_def bind_eq_Some_conv)
    have "user_out s' = user_out s3" using s3(2) by (auto dest: free_out(4) split: if_splits)
    also have "\<dots> = user_out s" using list_out(2) [OF s3(1)] by simp
    finally show ?thesis using s3(3) by simp
  next
    case False
    show ?thesis
    proof (cases ok)
      case False
      then show ?thesis using assms n c 2 \<open>cmd \<noteq> BR_NOOP\<close> w2 by (simp add: read_node_def del: put_words.simps)
    next
      case True
      then have "binder_stat_br (ra_proc a) (ra_thread a) cmd s2 = Some s'" "r = Item_Next (ptr + 12)"
        using assms n c 2 \<open>cmd \<noteq> BR_NOOP\<close> by (auto simp: read_node_def simp del: put_words.simps)
      then show ?thesis using w2 writes_right [of s' s2] stat_br_out by auto
    qed
  qed
qed

lemma read_death_writes:
  assumes code: "read_death K a d ptr s = Some (r, s')"
  shows "writes ptr (ptr + 44) s s' \<and> item_at ptr r"
proof -
  obtain dt where dt: "deaths s d = Some dt" using code by (auto simp: read_death_def bind_eq_Some_conv)
  define clear where "clear = (d_type dt = BINDER_WORK_CLEAR_DEATH_NOTIFICATION)"
  define cmd where "cmd = (if clear then BR_CLEAR_DEATH_NOTIFICATION_DONE else BR_DEAD_BINDER)"
  obtain ok s1 where 1: "put_words K ptr [br_number cmd, d_cookie dt] s = (ok, s1)" by fastforce
  have w1: "writes ptr (ptr + 44) s s1" by (rule put_words_writes [OF 1]) auto
  show ?thesis
  proof (cases ok)
    case False
    then show ?thesis
      using code dt 1 w1 by (simp add: read_death_def Let_def del: put_words.simps flip: clear_def cmd_def)
  next
    case True
    then obtain s2 s3 where s: "binder_stat_br (ra_proc a) (ra_thread a) cmd s1 = Some s2" "list_del (W_Death d) s2 = Some s3"
      and e: "(if clear then map_option (Pair (Item_Next (ptr + 8))) (free_death d s3)
             else map_option (Pair (Item_Done (ptr + 8))) (list_add (W_Death d) (L_Delivered (ra_proc a)) s3)) = Some (r, s')"
      using code dt 1
      by (auto simp: read_death_def Let_def clear_def cmd_def bind_eq_Some_conv simp del: put_words.simps)
    have "user_out s' = user_out s3" using e by (auto dest: free_out(2) list_out(3) split: if_splits)
    also have "\<dots> = user_out s1" using s stat_br_out list_out(1) by metis
    finally show ?thesis using e w1 writes_right [of s' s1] by (auto split: if_splits)
  qed
qed

lemma concat_words_length [simp]: "length (concat (map le_bytes ws)) = 4 * length ws"
  by (induction ws) (auto simp: le_bytes_def)

lemma tx_words_length [simp]: "length (tx_words K x tg ck pid al b h) = 10"
  by (simp add: tx_words_def Let_def)

lemma read_transaction_writes:
  assumes code: "read_transaction K a t ptr s = Some (r, s')"
  shows "writes ptr (ptr + 44) s s' \<and> item_at ptr r"
proof -
  obtain x b h where x: "transactions s t = Some x" "t_buffer x = Some b" "buf_get s b = Some h"
    using code by (auto simp: read_transaction_def bind_eq_Some_conv)
  define cmd where "cmd = (if b_target_node h = None then BR_REPLY else BR_TRANSACTION)"
  obtain ws s1 where len: "length ws = 10" and o1: "user_out s1 = user_out s" and
    rest: "(case put_user K ptr (br_number cmd) s1 of
         (False, s2) \<Rightarrow> Some (Item_Fault, s2)
       | (True, s2) \<Rightarrow>
           (case copy_to_user K (ptr + 4) (concat (map le_bytes ws)) s2 of
              (False, s3) \<Rightarrow> Some (Item_Fault, s3)
            | (True, s3) \<Rightarrow>
                do {
                  s4 \<leftarrow> binder_stat_br (ra_proc a) (ra_thread a) cmd s3;
                  s5 \<leftarrow> finish_delivery (ra_thread a) t b (cmd = BR_TRANSACTION) s4;
                  Some (Item_Done (ptr + 44), s5)
                })) = Some (r, s')"
  proof -
    obtain target cookie s1 where s1: "(case b_target_node h of
            None \<Rightarrow> Some (0, 0, s)
          | Some node \<Rightarrow>
              do {
                n \<leftarrow> nodes s node;
                let saved = nice_of s (ra_current a);
                let s0 = set_transaction t (x\<lparr>t_saved_priority := saved\<rparr>) s;
                Some (n_ptr n, n_cookie n, serve_priority K (ra_current a) x saved (int (n_min_priority n)) s0)
              }) = Some (target, cookie, s1)"
      using code x by (auto simp: read_transaction_def Let_def bind_eq_Some_conv split: option.split_asm)
    have "user_out s1 = user_out s" using s1 by (auto simp: Let_def bind_eq_Some_conv split: option.split_asm)
    moreover obtain pid and p :: binder_proc where p: "sender_pid K x s1 = Some pid" "procs s1 (ra_proc a) = Some p"
      using code x s1 by (auto simp: read_transaction_def Let_def bind_eq_Some_conv)
    ultimately show thesis
      using code x s1 that [of "tx_words K x target cookie pid (pr_alloc p) (snd b) h" s1]
      unfolding read_transaction_def cmd_def Let_def by simp
  qed
  obtain ok s2 where 2: "put_user K ptr (br_number cmd) s1 = (ok, s2)" by fastforce
  obtain ok3 s3 where 3: "copy_to_user K (ptr + 4) (concat (map le_bytes ws)) s2 = (ok3, s3)" by fastforce
  have "writes ptr (ptr + 44) s1 s2" by (rule put_user_writes [OF 2]) auto
  then have w2: "writes ptr (ptr + 44) s s2" using writes_left [OF o1] by simp
  have "writes ptr (ptr + 44) s2 s3" by (rule copy_writes [OF 3]) (auto simp: len)
  with w2 have w3: "writes ptr (ptr + 44) s s3" by (rule writes_trans)
  show ?thesis
  proof (cases "ok \<and> ok3")
    case False
    then show ?thesis using rest 2 3 w2 w3 by (cases ok) auto
  next
    case True
    then obtain s4 where "binder_stat_br (ra_proc a) (ra_thread a) cmd s3 = Some s4"
      "finish_delivery (ra_thread a) t b (cmd = BR_TRANSACTION) s4 = Some s'" "r = Item_Done (ptr + 44)"
      using rest 2 3 by (auto simp: bind_eq_Some_conv)
    then show ?thesis using w3 writes_right [of s' s3] stat_br_out finish_out by auto
  qed
qed

lemma read_item_writes: "read_item K a w ptr s = Some (r, s') \<Longrightarrow> writes ptr (ptr + 44) s s' \<and> item_at ptr r"
  by (cases w) (auto dest: read_transaction_writes read_complete_writes read_node_writes read_death_writes)

section \<open>The loop\<close>

text \<open>The buffer of the call: it does not wrap, and its size is a positive multiple of four.\<close>

definition word_buffer :: "kern \<Rightarrow> read_args \<Rightarrow> bool" where
  "word_buffer K a \<longleftrightarrow> ra_buffer a + 4 \<le> ra_end a \<and> ra_end a < 2 ^ (8 * ptr_bytes K) \<and> 4 dvd ra_end a - ra_buffer a"

definition at_word :: "read_args \<Rightarrow> nat \<Rightarrow> bool" where
  "at_word a ptr \<longleftrightarrow> ra_buffer a + 4 \<le> ptr \<and> ptr \<le> ra_end a \<and> 4 dvd ptr - ra_buffer a"

lemma at_word_step:
  assumes "at_word a ptr" and "item_at ptr (Item_Next p)" and "ptr + 44 \<le> ra_end a"
  shows "at_word a p"
proof -
  have split: "p - ra_buffer a = (p - ptr) + (ptr - ra_buffer a)" using assms by (auto simp: at_word_def)
  have "4 dvd p - ra_buffer a" unfolding split by (rule dvd_add) (use assms in \<open>auto simp: at_word_def\<close>)
  then show ?thesis using assms by (auto simp: at_word_def)
qed

lemma int_less_pow: "(m::nat) < 2 ^ n \<Longrightarrow> int m < 2 ^ n"
  by (metis of_nat_less_iff of_nat_numeral of_nat_power)

lemma room_exact:
  assumes "word_buffer K a" and "at_word a ptr"
  shows "room_left K (ra_end a) ptr = ra_end a - ptr"
proof -
  have "int (ra_end a) < 2 ^ (8 * ptr_bytes K)"
    by (rule int_less_pow) (use assms(1) in \<open>simp add: word_buffer_def\<close>)
  then have "int (ra_end a) - int ptr < 2 ^ (8 * ptr_bytes K)" by linarith
  then show ?thesis using assms by (simp add: room_left_def at_word_def nat_diff_distrib')
qed

lemma writes_mono: "writes lo hi s s' \<Longrightarrow> lo' \<le> lo \<Longrightarrow> hi \<le> hi' \<Longrightarrow> writes lo' hi' s s'"
  by (fastforce simp: writes_def)

fun loop_at :: "read_args \<Rightarrow> loop_result \<Rightarrow> bool" where
  "loop_at a (Loop_Done p) = at_word a p"
| "loop_at a (Loop_Retry p) = at_word a p"
| "loop_at a Loop_Fault = True"

lemma read_loop_writes:
  assumes "word_buffer K a" and "at_word a ptr" and "read_loop K a waitp ptr s = Some (r, s')"
  shows "writes (ra_buffer a) (ra_end a) s s' \<and> loop_at a r"
  using assms
proof (induction K a waitp ptr s rule: read_loop.induct)
  case (1 K a waitp ptr s)
  show ?case
  proof (cases "next_work a waitp s")
    case None
    then show ?thesis using 1(4) by (simp add: read_loop.simps)
  next
    case (Some ow)
    note nw = this
    show ?thesis
    proof (cases ow)
      case None
      then show ?thesis using 1(3,4) nw by (auto simp: read_loop.simps split: option.split_asm if_splits)
    next
      case (Some w)
      note ow = this
      show ?thesis
      proof (cases "room_left K (ra_end a) ptr < sizeof_tx_data + 4")
        case True
        then show ?thesis using 1(3,4) nw Some by (auto simp: read_loop.simps)
      next
        case False
        then have fits: "ptr + 44 \<le> ra_end a"
          using room_exact [OF 1(2,3)] 1(3) by (auto simp: sizeof_tx_data_def at_word_def)
        obtain it s1 where it: "read_item K a w ptr s = Some (it, s1)"
          using 1(4) nw Some False by (subst (asm) read_loop.simps) (auto split: option.split_asm)
        have iw: "writes ptr (ptr + 44) s s1" "item_at ptr it" using read_item_writes [OF it] by simp_all
        then have w1: "writes (ra_buffer a) (ra_end a) s s1"
          using fits 1(3) by (auto simp: at_word_def intro: writes_mono)
        show ?thesis
        proof (cases it)
          case (Item_Next p)
          then have rest: "read_loop K a waitp p s1 = Some (r, s')"
            using 1(4) nw ow False it by (subst (asm) read_loop.simps) simp
          have "at_word a p" using at_word_step [OF 1(3) _ fits] iw(2) Item_Next by simp
          then have "writes (ra_buffer a) (ra_end a) s1 s' \<and> loop_at a r"
            using 1(1) [OF nw ow False it refl Item_Next 1(2) _ rest] by simp
          then show ?thesis using w1 writes_trans by blast
        next
          case (Item_Done p)
          then have "r = Loop_Done p" "s' = s1" using 1(4) nw ow False it by (simp_all add: read_loop.simps)
          then show ?thesis using w1 at_word_step [OF 1(3) _ fits] iw(2) Item_Done by simp
        next
          case Item_Fault
          then show ?thesis using 1(4) nw ow False it w1 by (simp add: read_loop.simps)
        qed
      qed
    qed
  qed
qed

section \<open>The call\<close>

fun result_at :: "read_args \<Rightarrow> read_result \<Rightarrow> bool" where
  "result_at a (Read_Sleep ptr waitp) = at_word a ptr"
| "result_at a (Read_Return ret consumed) = (0 \<le> consumed \<and> consumed \<le> int (ra_end a - ra_buffer a))"

lemma ptr_diff_exact:
  assumes "at_word a ptr" and "word_buffer K a" and "ra_end a - ra_buffer a < 2 ^ (8 * ptr_bytes K - 1)"
  shows "ptr_diff K ptr (ra_buffer a) = int (ptr - ra_buffer a)"
proof -
  obtain d where d: "ptr = ra_buffer a + d" using assms(1) by (auto simp: at_word_def le_iff_add)
  have "d < 2 ^ (8 * ptr_bytes K - 1)" using assms d by (auto simp: at_word_def)
  then have i: "int d < 2 ^ (8 * ptr_bytes K - 1)" by (rule int_less_pow)
  also have "(2::int) ^ (8 * ptr_bytes K - 1) \<le> 2 ^ (8 * ptr_bytes K)" by (rule power_increasing) auto
  finally have "int d mod 2 ^ (8 * ptr_bytes K) = int d" by simp
  then show ?thesis using i by (simp add: d ptr_diff_def Let_def)
qed

lemma read_done_writes:
  assumes "read_done K a ptr s = Some (r, s')" and "word_buffer K a" and "at_word a ptr"
    and "ra_end a - ra_buffer a < 2 ^ (8 * ptr_bytes K - 1)"
  shows "writes (ra_buffer a) (ra_end a) s s' \<and> result_at a r"
proof -
  obtain p th where p: "procs s (ra_proc a) = Some p" "threads s (ra_thread a) = Some th"
    using assms(1) by (auto simp: read_done_def bind_eq_Some_conv)
  define c where "c = ptr_diff K ptr (ra_buffer a)"
  have at: "result_at a (Read_Return e c)" for e
    using diff_le_mono [of ptr "ra_end a" "ra_buffer a"] assms(3)
    by (simp add: c_def ptr_diff_exact [OF assms(3,2,4)] at_word_def)
  note [simp del] = result_at.simps
  show ?thesis
  proof (cases "spawn_looper p th")
    case False
    then have "s' = s" "r = Read_Return 0 c" using assms(1) p by (simp_all add: read_done_def c_def)
    then show ?thesis using at by simp
  next
    case True
    let ?s = "set_proc (ra_proc a) (p\<lparr>pr_requested_threads := pr_requested_threads p + 1\<rparr>) s"
    obtain ok s1 where 1: "put_user K (ra_buffer a) (br_number BR_SPAWN_LOOPER) ?s = (ok, s1)" by fastforce
    have "writes (ra_buffer a) (ra_end a) ?s s1"
      by (rule put_user_writes [OF 1]) (use assms(2) in \<open>auto simp: word_buffer_def\<close>)
    then have w1: "writes (ra_buffer a) (ra_end a) s s1" using writes_left [of ?s s] by simp
    show ?thesis
    proof (cases ok)
      case False
      then have "s' = s1" "r = Read_Return (- EFAULT) c" using assms(1) p True 1 by (simp_all add: read_done_def c_def)
      then show ?thesis using at w1 by simp
    next
      case True
      then have "binder_stat_br (ra_proc a) (ra_thread a) BR_SPAWN_LOOPER s1 = Some s'" "r = Read_Return 0 c"
        using assms(1) p \<open>spawn_looper p th\<close> 1 by (auto simp: read_done_def c_def)
      then show ?thesis using w1 writes_right [of s' s1] stat_br_out at by simp
    qed
  qed
qed

lemma read_fault_writes:
  "read_fault a s = Some (r, s') \<Longrightarrow> ra_consumed a = 0 \<Longrightarrow> writes (ra_buffer a) (ra_end a) s s' \<and> result_at a r"
  by (auto simp: read_fault_def)

lemma read_errors_writes:
  assumes code: "read_errors K a ptr th s = Some (r, s')" and wb: "word_buffer K a" and at: "at_word a ptr"
    and lt: "ptr < ra_end a" and small: "ra_end a - ra_buffer a < 2 ^ (8 * ptr_bytes K - 1)" and c0: "ra_consumed a = 0"
  shows "writes (ra_buffer a) (ra_end a) s s' \<and> result_at a r"
proof -
  have step: "at_word a (q + 4)" "q + 4 \<le> ra_end a" if "at_word a q" "q < ra_end a" for q
  proof -
    have "q - ra_buffer a < ra_end a - ra_buffer a" using that by (auto simp: at_word_def)
    then have le: "q - ra_buffer a + 4 \<le> ra_end a - ra_buffer a"
      using that wb by (auto simp: at_word_def word_buffer_def elim!: dvdE)
    then show "q + 4 \<le> ra_end a" using that by (auto simp: at_word_def)
    have split: "q + 4 - ra_buffer a = (q - ra_buffer a) + 4" using that by (simp add: at_word_def)
    have "4 dvd q + 4 - ra_buffer a" unfolding split by (rule dvd_add) (use that in \<open>simp_all add: at_word_def\<close>)
    with \<open>q + 4 \<le> ra_end a\<close> show "at_word a (q + 4)" using that by (simp add: at_word_def)
  qed
  have last: "writes (ra_buffer a) (ra_end a) s1 s' \<and> result_at a r"
    if q: "at_word a q" "q < ra_end a" and code: "(case put_user K q (br_number (th_return_error th)) s1 of
              (False, s2) \<Rightarrow> read_fault a s2
            | (True, s2) \<Rightarrow>
                do {
                  s3 \<leftarrow> binder_stat_br (ra_proc a) (ra_thread a) (th_return_error th) s2;
                  h \<leftarrow> threads s3 (ra_thread a);
                  read_done K a (q + 4) (set_thread (ra_thread a) (h\<lparr>th_return_error := BR_OK\<rparr>) s3)
                }) = Some (r, s')" for q s1
  proof -
    obtain ok s2 where 2: "put_user K q (br_number (th_return_error th)) s1 = (ok, s2)" by fastforce
    have w2: "writes (ra_buffer a) (ra_end a) s1 s2"
      by (rule put_user_writes [OF 2]) (use step(2) [OF q] q in \<open>auto simp: at_word_def\<close>)
    show ?thesis
    proof (cases ok)
      case False
      then show ?thesis using code 2 w2 read_fault_writes [of a s2 r s'] c0 writes_trans by simp
    next
      case True
      then obtain s3 h where 3: "binder_stat_br (ra_proc a) (ra_thread a) (th_return_error th) s2 = Some s3"
        "threads s3 (ra_thread a) = Some h"
        "read_done K a (q + 4) (set_thread (ra_thread a) (h\<lparr>th_return_error := BR_OK\<rparr>) s3) = Some (r, s')"
        using code 2 by (auto simp: bind_eq_Some_conv)
      have "user_out (set_thread (ra_thread a) (h\<lparr>th_return_error := BR_OK\<rparr>) s3) = user_out s2"
        using stat_br_out [OF 3(1)] by simp
      then have "writes (ra_buffer a) (ra_end a) s2 s'" "result_at a r"
        using read_done_writes [OF 3(3) wb step(1) [OF q] small] writes_left by blast+
      then show ?thesis using w2 writes_trans by blast
    qed
  qed
  show ?thesis
  proof (cases "th_return_error2 th = BR_OK")
    case True
    then show ?thesis using code last [OF at lt] by (simp add: read_errors_def)
  next
    case False
    obtain ok s1 where 1: "put_user K ptr (br_number (th_return_error2 th)) s = (ok, s1)" by fastforce
    have w1: "writes (ra_buffer a) (ra_end a) s s1"
      by (rule put_user_writes [OF 1]) (use step(2) [OF at lt] at in \<open>auto simp: at_word_def\<close>)
    show ?thesis
    proof (cases ok)
      case False
      then have "read_fault a s1 = Some (r, s')" using code 1 \<open>th_return_error2 th \<noteq> BR_OK\<close> by (simp add: read_errors_def)
      then show ?thesis using w1 read_fault_writes [of a s1 r s'] c0 writes_trans by blast
    next
      case True
      then obtain s2 where 2: "binder_stat_br (ra_proc a) (ra_thread a) (th_return_error2 th) s1 = Some s2"
        using code 1 False by (auto simp: read_errors_def bind_eq_Some_conv)
      have w2: "writes (ra_buffer a) (ra_end a) s s2" using w1 writes_right [OF stat_br_out [OF 2]] by simp
      show ?thesis
      proof (cases "ptr + 4 = ra_end a")
        case eq: True
        then have "read_done K a (ptr + 4) s2 = Some (r, s')" using code 1 False True 2 by (simp add: read_errors_def)
        then show ?thesis using read_done_writes [OF _ wb step(1) [OF at lt] small] w2 writes_trans by blast
      next
        case ne: False
        then obtain h where h: "threads s2 (ra_thread a) = Some h"
          using code 1 False True 2 by (auto simp: read_errors_def bind_eq_Some_conv)
        let ?s = "set_thread (ra_thread a) (h\<lparr>th_return_error2 := BR_OK\<rparr>) s2"
        have w: "writes (ra_buffer a) (ra_end a) s ?s" using w2 writes_right [of ?s s2] by simp
        have "ptr + 4 < ra_end a" using ne step(2) [OF at lt] by simp
        then have "writes (ra_buffer a) (ra_end a) ?s s' \<and> result_at a r"
          by (intro last [OF step(1) [OF at lt]]) (use code 1 False True 2 h ne in \<open>simp_all add: read_errors_def\<close>)
        then show ?thesis using w writes_trans by blast
      qed
    qed
  qed
qed

lemma read_retry_writes:
  assumes code: "read_retry K a ptr s = Some (r, s')" and wb: "word_buffer K a" and at: "at_word a ptr"
    and small: "ra_end a - ra_buffer a < 2 ^ (8 * ptr_bytes K - 1)" and c0: "ra_consumed a = 0"
  shows "writes (ra_buffer a) (ra_end a) s s' \<and> result_at a r"
proof -
  obtain th p where th: "threads s (ra_thread a) = Some th" "procs s (ra_proc a) = Some p"
    using code by (auto simp: read_retry_def bind_eq_Some_conv)
  show ?thesis
  proof (cases "th_return_error th \<noteq> BR_OK \<and> ptr < ra_end a")
    case True
    then have "read_errors K a ptr th s = Some (r, s')" using code th by (simp add: read_retry_def)
    then show ?thesis using read_errors_writes wb at True small c0 by blast
  next
    case False
    then show ?thesis using code th at by (auto simp: read_retry_def Let_def)
  qed
qed

lemma read_start_writes:
  assumes code: "thread_read_start K a s = Some (r, s')" and wb: "word_buffer K a"
    and small: "ra_end a - ra_buffer a < 2 ^ (8 * ptr_bytes K - 1)" and c0: "ra_consumed a = 0"
  shows "writes (ra_buffer a) (ra_end a) s s' \<and> result_at a r"
proof -
  have "int (ra_buffer a) < 2 ^ (8 * ptr_bytes K)"
    by (rule int_less_pow) (use wb in \<open>simp add: word_buffer_def\<close>)
  then have p: "ptr_add K (ra_buffer a) (ra_consumed a) = ra_buffer a" by (simp add: ptr_add_def c0)
  obtain ok s1 where 1: "put_user K (ra_buffer a) (br_number BR_NOOP) s = (ok, s1)" by fastforce
  have w1: "writes (ra_buffer a) (ra_end a) s s1"
    by (rule put_user_writes [OF 1]) (use wb in \<open>auto simp: word_buffer_def\<close>)
  show ?thesis
  proof (cases ok)
    case False
    then have "read_fault a s1 = Some (r, s')" using code 1 p c0 by (simp add: thread_read_start_def)
    then show ?thesis using w1 read_fault_writes [of a s1 r s'] c0 writes_trans by blast
  next
    case True
    then have "read_retry K a (ra_buffer a + 4) s1 = Some (r, s')"
      using code 1 p c0 by (simp add: thread_read_start_def)
    moreover have "at_word a (ra_buffer a + 4)" using wb by (simp add: at_word_def word_buffer_def)
    ultimately show ?thesis using w1 read_retry_writes wb small c0 writes_trans by blast
  qed
qed

lemma read_resume_writes:
  assumes code: "thread_read_resume K a ptr waitp ret s = Some (r, s')" and wb: "word_buffer K a" and at: "at_word a ptr"
    and small: "ra_end a - ra_buffer a < 2 ^ (8 * ptr_bytes K - 1)" and c0: "ra_consumed a = 0"
  shows "writes (ra_buffer a) (ra_end a) s s' \<and> result_at a r"
proof -
  obtain s1 where 1: "read_woken a waitp s = Some s1"
    using code by (auto simp: thread_read_resume_def bind_eq_Some_conv)
  have o1: "user_out s1 = user_out s" using 1 by (auto simp: read_woken_def Let_def bind_eq_Some_conv)
  show ?thesis
  proof (cases "ret = 0")
    case False
    then have "s' = s1" "r = Read_Return (if ret = - ERESTARTSYS then 0 else ret) 0"
      using code 1 c0 by (simp_all add: thread_read_resume_def)
    then show ?thesis using o1 by simp
  next
    case True
    then obtain res s2 where 2: "read_loop K a waitp ptr s1 = Some (res, s2)"
      using code 1 by (auto simp: thread_read_resume_def bind_eq_Some_conv)
    have w2: "writes (ra_buffer a) (ra_end a) s s2" "loop_at a res"
      using read_loop_writes [OF wb at 2] writes_left [OF o1] by simp_all
    have "writes (ra_buffer a) (ra_end a) s2 s' \<and> result_at a r"
      using code 1 2 True w2(2) wb small c0
      by (cases res) (auto simp: thread_read_resume_def simp del: result_at.simps
          dest: read_fault_writes read_retry_writes read_done_writes)
    then show ?thesis using w2(1) writes_trans by blast
  qed
qed

text \<open>
  One call of \<open>binder_thread_read\<close> with its sleeps: the stretches during which the thread
  holds the lock, each with the driver before and after it. Between two stretches the driver
  changes in any way.
\<close>

inductive read_call :: "kern \<Rightarrow> read_args \<Rightarrow> (driver \<times> driver) list \<Rightarrow> read_result \<Rightarrow> bool" for K a where
  call_start: "thread_read_start K a s = Some (r, s') \<Longrightarrow> read_call K a [(s, s')] r"
| call_resume:
    "read_call K a tr (Read_Sleep ptr waitp) \<Longrightarrow> thread_read_resume K a ptr waitp ret s = Some (r, s') \<Longrightarrow>
     read_call K a (tr @ [(s, s')]) r"

text \<open>
  C9. A read into a buffer whose size is a positive multiple of four never writes outside
  that buffer, whatever work arrives, however often the call sleeps and is woken and
  whatever other threads do meanwhile; and what it reports as consumed never exceeds the
  size of the buffer.
\<close>

theorem read_stays_in_buffer:
  assumes "read_call K a tr r" and "word_buffer K a" and "ra_end a - ra_buffer a < 2 ^ (8 * ptr_bytes K - 1)"
    and "ra_consumed a = 0"
  shows "(\<forall>(s, s') \<in> set tr. writes (ra_buffer a) (ra_end a) s s') \<and> result_at a r"
  using assms
proof (induction rule: read_call.induct)
  case (call_start s r s')
  then show ?case using read_start_writes by simp
next
  case (call_resume tr ptr waitp ret s r s')
  then show ?case using read_resume_writes [of K a ptr waitp ret s r s'] by simp
qed

definition demo_read :: read_args where
  "demo_read = \<lparr>ra_current = 1, ra_proc = 1, ra_thread = 2, ra_buffer = 4096, ra_end = 4352, ra_consumed = 0,
     ra_non_block = True\<rparr>"

definition demo_thread :: driver where
  "demo_thread = snd (the (binder_get_thread demo_kern 1 1 (drv demo_open)))"

lemmas demo_driver_eval = demo_open_def demo_boot_def boot_system_def boot_def binder_open_def kmalloc_def demo_kern_def
  Let_def set_proc_def set_thread_def binder_stats_created_def blank_proc_def

lemma demo_thread_eval:
  "\<exists>p th. procs demo_thread 1 = Some p \<and> threads demo_thread 2 = Some th \<and> th_return_error th = BR_OK \<and>
     th_transaction_stack th = None \<and> items demo_thread (L_Thread 2) = [] \<and> user_out demo_thread = []"
  by (simp add: demo_thread_def binder_get_thread_def demo_driver_eval key_dir_def cmp_dir_def new_thread_def)

lemma demo_read_start: "\<exists>ptr waitp s'. thread_read_start demo_kern demo_read demo_thread = Some (Read_Sleep ptr waitp, s')"
proof -
  obtain ok s1 where 1: "put_user demo_kern 4096 (br_number BR_NOOP) demo_thread = (ok, s1)" by fastforce
  then have ok: "ok" "procs s1 = procs demo_thread" "threads s1 = threads demo_thread"
    by (auto simp: put_user_def copy_to_user_def le_bytes_def tick_def demo_kern_def)
  then show ?thesis
    using demo_thread_eval 1
    by (auto simp: thread_read_start_def demo_read_def ptr_add_def read_retry_def Let_def)
qed

theorem read_stays_in_buffer_witness:
  "\<exists>s' ptr waitp. read_call demo_kern demo_read [(demo_thread, s')] (Read_Sleep ptr waitp) \<and>
     writes 4096 4352 demo_thread s' \<and> ptr \<le> 4352"
proof -
  obtain ptr waitp s' where "thread_read_start demo_kern demo_read demo_thread = Some (Read_Sleep ptr waitp, s')"
    using demo_read_start by blast
  then have c: "read_call demo_kern demo_read [(demo_thread, s')] (Read_Sleep ptr waitp)" by (rule call_start)
  have "word_buffer demo_kern demo_read" by (simp add: word_buffer_def demo_read_def)
  with read_stays_in_buffer [OF c] have "writes 4096 4352 demo_thread s' \<and> ptr \<le> 4352"
    by (simp add: demo_read_def at_word_def)
  with c show ?thesis by blast
qed

lemma room_wraps:
  assumes "e < ptr" and "ptr \<le> e + 44" and "ptr_bytes K = 4 \<or> ptr_bytes K = 8"
  shows "\<not> room_left K e ptr < sizeof_tx_data + 4"
proof -
  define m where "m = 2 ^ (8 * ptr_bytes K) - (44::int)"
  have m: "44 \<le> m" using assms(3) by (auto simp: m_def)
  have "(int e - int ptr) mod 2 ^ (8 * ptr_bytes K) = int e - int ptr + 2 ^ (8 * ptr_bytes K)"
  proof -
    have "(int e - int ptr + 2 ^ (8 * ptr_bytes K)) mod 2 ^ (8 * ptr_bytes K) =
      int e - int ptr + 2 ^ (8 * ptr_bytes K)"
      by (rule mod_pos_pos_trivial) (use assms m in \<open>auto simp: m_def\<close>)
    then show ?thesis by simp
  qed
  then show ?thesis using m assms by (simp add: room_left_def sizeof_tx_data_def m_def)
qed

lemma put_user_out: "put_user K p v s = (True, s') \<Longrightarrow> user_out s' = user_out s @ [(p, le_bytes v)]"
  by (auto simp: put_user_def copy_to_user_def tick_def split: if_splits)

lemma copy_out: "copy_to_user K p bs s = (r, s') \<Longrightarrow> \<exists>out. user_out s' = user_out s @ out"
  by (auto simp: copy_to_user_def tick_def split: if_splits)

lemma put_words_out:
  assumes "put_words K p (v # vs) s = (True, s')"
  shows "\<exists>out. user_out s' = user_out s @ (p, le_bytes v) # out"
proof -
  have app: "\<exists>out. user_out t' = user_out t @ out" if "put_words K q us t = (r, t')" for q us t r t'
    using that
  proof (induction us arbitrary: q t)
    case (Cons u us)
    obtain ok t1 where 1: "put_user K q u t = (ok, t1)" by fastforce
    then obtain o1 where "user_out t1 = user_out t @ o1" using copy_out [of K q "le_bytes u" t ok t1] by (auto simp: put_user_def)
    then show ?case using Cons 1 by (cases ok) fastforce+
  qed simp
  obtain s1 where "put_user K p v s = (True, s1)" "put_words K (p + 4) vs s1 = (True, s')"
    using assms by (auto split: prod.splits bool.splits)
  then show ?thesis using put_user_out app by fastforce
qed

text \<open>An item that moves the pointer has written, and the first thing it writes is a word at the pointer.\<close>

lemma read_item_out:
  assumes code: "read_item K a w ptr s = Some (it, s')" and it: "it \<noteq> Item_Fault" "it \<noteq> Item_Next ptr"
  shows "\<exists>v out. user_out s' = user_out s @ (ptr, le_bytes v) # out"
proof (cases w)
  case (W_Complete c)
  with code it obtain s1 where s1: "put_user K ptr (br_number BR_TRANSACTION_COMPLETE) s = (True, s1)"
    and r: "do { s2 \<leftarrow> binder_stat_br (ra_proc a) (ra_thread a) BR_TRANSACTION_COMPLETE s1; s3 \<leftarrow> list_del (W_Complete c) s2;
            s4 \<leftarrow> free_complete c s3; Some (Item_Next (ptr + 4), s4) } = Some (it, s')"
    by (auto simp: read_complete_def split: prod.splits bool.splits)
  have "user_out s' = user_out s1" using r by (auto simp: bind_eq_Some_conv dest!: stat_br_out list_out free_out)
  then show ?thesis using put_user_out [OF s1] by auto
next
  case (W_Node node)
  obtain n where n: "nodes s node = Some n" using code W_Node by (auto simp: read_node_def bind_eq_Some_conv)
  obtain cmd n' where c: "node_command n = (cmd, n')" by fastforce
  have no: "cmd \<noteq> BR_NOOP" using code W_Node n c it(2) by (auto simp: read_node_def bind_eq_Some_conv)
  then obtain s2 where s2: "put_words K ptr [br_number cmd, n_ptr n, n_cookie n] (set_node node n' s) = (True, s2)"
    and r: "map_option (Pair (Item_Next (ptr + 12))) (binder_stat_br (ra_proc a) (ra_thread a) cmd s2) = Some (it, s')"
    using code W_Node n c it(1) by (auto simp: read_node_def simp del: put_words.simps split: prod.splits bool.splits)
  have "user_out s' = user_out s2" using r by (auto dest: stat_br_out)
  then show ?thesis using put_words_out [OF s2] by auto
next
  case (W_Death d)
  obtain dt where dt: "deaths s d = Some dt" using code W_Death by (auto simp: read_death_def bind_eq_Some_conv)
  define clear where "clear = (d_type dt = BINDER_WORK_CLEAR_DEATH_NOTIFICATION)"
  define cmd where "cmd = (if clear then BR_CLEAR_DEATH_NOTIFICATION_DONE else BR_DEAD_BINDER)"
  obtain s1 where s1: "put_words K ptr [br_number cmd, d_cookie dt] s = (True, s1)"
    and r: "do { s2 \<leftarrow> binder_stat_br (ra_proc a) (ra_thread a) cmd s1; s3 \<leftarrow> list_del (W_Death d) s2;
             if clear then map_option (Pair (Item_Next (ptr + 8))) (free_death d s3)
             else map_option (Pair (Item_Done (ptr + 8))) (list_add (W_Death d) (L_Delivered (ra_proc a)) s3) } = Some (it, s')"
    using code W_Death dt it(1)
    by (auto simp: read_death_def Let_def simp del: put_words.simps split: prod.splits bool.splits simp flip: clear_def cmd_def)
  have "user_out s' = user_out s1"
    using r by (auto simp: bind_eq_Some_conv dest!: stat_br_out list_out free_out split: if_splits)
  then show ?thesis using put_words_out [OF s1] by auto
next
  case (W_Transaction t)
  have code': "read_transaction K a t ptr s = Some (it, s')" using code W_Transaction by simp
  obtain x b h where x: "transactions s t = Some x" "t_buffer x = Some b" "buf_get s b = Some h"
    using code' by (auto simp: read_transaction_def bind_eq_Some_conv)
  obtain target cookie s1 where s1: "(case b_target_node h of
            None \<Rightarrow> Some (0, 0, s)
          | Some node \<Rightarrow>
              do {
                n \<leftarrow> nodes s node;
                let saved = nice_of s (ra_current a);
                let s0 = set_transaction t (x\<lparr>t_saved_priority := saved\<rparr>) s;
                Some (n_ptr n, n_cookie n, serve_priority K (ra_current a) x saved (int (n_min_priority n)) s0)
              }) = Some (target, cookie, s1)"
    using code' x by (auto simp: read_transaction_def Let_def bind_eq_Some_conv split: option.split_asm)
  have o1: "user_out s1 = user_out s" using s1 by (auto simp: Let_def bind_eq_Some_conv split: option.split_asm)
  obtain pid and p :: binder_proc where p: "sender_pid K x s1 = Some pid" "procs s1 (ra_proc a) = Some p"
    using code' x s1 by (auto simp: read_transaction_def Let_def bind_eq_Some_conv)
  define cmd where "cmd = (if b_target_node h = None then BR_REPLY else BR_TRANSACTION)"
  obtain s2 where s2: "put_user K ptr (br_number cmd) s1 = (True, s2)"
    using code' x s1 p it(1) unfolding read_transaction_def cmd_def Let_def
    by (cases "put_user K ptr (br_number (if b_target_node h = None then BR_REPLY else BR_TRANSACTION)) s1")
      (auto split: bool.splits)
  define bs where "bs = concat (map le_bytes (tx_words K x target cookie pid (pr_alloc p) (snd b) h))"
  obtain ok s3 where s3: "copy_to_user K (ptr + 4) bs s2 = (ok, s3)" by fastforce
  have "ok" and r: "do { s4 \<leftarrow> binder_stat_br (ra_proc a) (ra_thread a) cmd s3;
                  s5 \<leftarrow> finish_delivery (ra_thread a) t b (cmd = BR_TRANSACTION) s4; Some (Item_Done (ptr + 44), s5) } = Some (it, s')"
    using code' x s1 p s2 s3 it(1) unfolding read_transaction_def cmd_def bs_def Let_def by (cases ok; simp)+
  then have "user_out s' = user_out s3" by (auto simp: bind_eq_Some_conv dest!: stat_br_out finish_out)
  then show ?thesis using put_user_out [OF s2] copy_out [OF s3] o1 by auto
qed

text \<open>
  C28. A buffer whose size is not a multiple of four can be overrun. A read always begins with
  a word, however small the buffer is. Once the pointer is past the end, by up to 44 bytes, the
  room that is left, an unsigned difference, is taken for nearly the whole address space, and
  the loop delivers whatever work is next, a transaction of 44 bytes included: it never stops
  for lack of room, it goes on or ends as the item says, and what the item writes begins with a
  word at the pointer, all of it past the end of the buffer.
\<close>

theorem read_overrun:
  assumes "ra_end a < ptr" and "ptr \<le> ra_end a + 44" and "ptr_bytes K = 4 \<or> ptr_bytes K = 8"
    and "next_work a waitp s = Some (Some w)" and "read_item K a w ptr s = Some (it, s1)"
  shows "read_loop K a waitp ptr s =
      (case it of Item_Done p \<Rightarrow> Some (Loop_Done p, s1) | Item_Next p \<Rightarrow> read_loop K a waitp p s1 | Item_Fault \<Rightarrow> Some (Loop_Fault, s1)) \<and>
    (\<exists>out. user_out s1 = user_out s @ out \<and> (\<forall>(q, bs) \<in> set out. ra_end a < q) \<and>
       (it \<noteq> Item_Fault \<and> it \<noteq> Item_Next ptr \<longrightarrow> (\<exists>v rest. out = (ptr, le_bytes v) # rest)))"
proof -
  have "\<not> room_left K (ra_end a) ptr < sizeof_tx_data + 4" by (rule room_wraps [OF assms(1-3)])
  then have "read_loop K a waitp ptr s =
      (case it of Item_Done p \<Rightarrow> Some (Loop_Done p, s1) | Item_Next p \<Rightarrow> read_loop K a waitp p s1 | Item_Fault \<Rightarrow> Some (Loop_Fault, s1))"
    using assms(4,5) by (subst read_loop.simps) (simp split: item_result.split)
  moreover obtain out where out: "user_out s1 = user_out s @ out" "\<forall>(q, bs) \<in> set out. ptr \<le> q"
    using read_item_writes [OF assms(5)] by (auto simp: writes_def)
  moreover have "\<forall>(q, bs) \<in> set out. ra_end a < q" using out(2) assms(1) by fastforce
  moreover have "\<exists>v rest. out = (ptr, le_bytes v) # rest" if "it \<noteq> Item_Fault \<and> it \<noteq> Item_Next ptr"
    using read_item_out [OF assms(5)] that out(1) by auto
  ultimately show ?thesis by blast
qed

definition demo_small :: read_args where
  "demo_small = demo_read\<lparr>ra_end := 4098\<rparr>"

definition demo_late :: driver where
  "demo_late = demo_thread\<lparr>items := (items demo_thread)(L_Thread 2 := [W_Complete 7]),
     link_of := (link_of demo_thread)(W_Complete 7 := Linked (L_Thread 2)), live := (BINDER_STAT_TRANSACTION_COMPLETE, 7) # live demo_thread\<rparr>"

lemma demo_small_start:
  "\<exists>s'. thread_read_start demo_kern demo_small demo_thread = Some (Read_Sleep 4100 True, s') \<and>
     user_out s' = [(4096, le_bytes (br_number BR_NOOP))]"
proof -
  obtain ok s1 where 1: "put_user demo_kern 4096 (br_number BR_NOOP) demo_thread = (ok, s1)" by fastforce
  then have "ok" "procs s1 = procs demo_thread" "threads s1 = threads demo_thread" "items s1 = items demo_thread"
    "user_out s1 = user_out demo_thread @ [(4096, le_bytes (br_number BR_NOOP))]"
    by (auto simp: put_user_def copy_to_user_def le_bytes_def tick_def demo_kern_def)
  then show ?thesis
    using demo_thread_eval 1
    by (auto simp: thread_read_start_def demo_small_def demo_read_def ptr_add_def read_retry_def Let_def)
qed

lemma demo_late_item: "\<exists>s1. read_item demo_kern demo_small (W_Complete 7) 4100 demo_late = Some (Item_Next 4104, s1)"
proof -
  obtain ok s1 where 1: "put_user demo_kern 4100 (br_number BR_TRANSACTION_COMPLETE) demo_late = (ok, s1)" by fastforce
  then have "ok" "procs s1 = procs demo_late" "threads s1 = threads demo_late" "items s1 = items demo_late"
    "link_of s1 = link_of demo_late" "live s1 = live demo_late"
    by (auto simp: put_user_def copy_to_user_def le_bytes_def tick_def demo_kern_def)
  then show ?thesis
    using demo_thread_eval 1
    by (auto simp: read_complete_def demo_small_def demo_read_def binder_stat_br_def Let_def demo_late_def list_del_def unlink_def
        free_complete_def kfree_def set_thread_def set_proc_def set_link_def)
qed

theorem read_overrun_witness:
  "\<exists>s0 s1 v rest. thread_read_start demo_kern demo_small demo_thread = Some (Read_Sleep 4100 True, s0) \<and>
     read_loop demo_kern demo_small True 4100 demo_late = read_loop demo_kern demo_small True 4104 s1 \<and>
     user_out s1 = (4100, le_bytes v) # rest \<and> ra_end demo_small = 4098"
proof -
  obtain s0 where s0: "thread_read_start demo_kern demo_small demo_thread = Some (Read_Sleep 4100 True, s0)"
    using demo_small_start by blast
  obtain s1 where s1: "read_item demo_kern demo_small (W_Complete 7) 4100 demo_late = Some (Item_Next 4104, s1)"
    using demo_late_item by blast
  have e: "ra_end demo_small = 4098" "ptr_bytes demo_kern = 4" "user_out demo_late = []"
    using demo_thread_eval by (auto simp: demo_small_def demo_late_def demo_kern_def)
  have w: "next_work demo_small True demo_late = Some (Some (W_Complete 7))"
    by (simp add: next_work_def list_first_def demo_small_def demo_read_def demo_late_def)
  from read_overrun [OF _ _ _ w s1] e have
    "read_loop demo_kern demo_small True 4100 demo_late = read_loop demo_kern demo_small True 4104 s1"
    "\<exists>v rest. user_out s1 = (4100, le_bytes v) # rest" by auto
  with s0 e show ?thesis by blast
qed

end
