(* ===== verification/Binder_Counts.thy ===== *)
theory Binder_Counts
  imports Binder_Links
begin

text \<open>
  The invariant of nodes and references, and its preservation by the updates the operations
  are made of. It is stated with two parameters that are trivial between operations: \<open>dl\<close>
  says by how much the internal count of a node differs from its references while one of them
  is being changed, and \<open>X\<close> holds the reference that is being destroyed.
\<close>

declare set_inorder [simp del]

definition strong_ref :: "driver \<Rightarrow> addr \<Rightarrow> bool" where
  "strong_ref s r = (case refs s r of None \<Rightarrow> False | Some x \<Rightarrow> r_strong x \<noteq> 0)"

definition count_strong :: "driver \<Rightarrow> addr list \<Rightarrow> nat" where
  "count_strong s rs = length (filter (strong_ref s) rs)"

lemma count_strong_cong: "refs s' = refs s \<Longrightarrow> count_strong s' = count_strong s"
proof -
  assume "refs s' = refs s"
  then have "strong_ref s' = strong_ref s" by (simp add: strong_ref_def fun_eq_iff)
  then show ?thesis by (intro ext) (simp add: count_strong_def)
qed

definition owner_ok :: "driver \<Rightarrow> addr \<Rightarrow> addr option \<Rightarrow> bool" where
  "owner_ok s na po = (case po of
     Some pa \<Rightarrow> \<exists>p. procs s pa = Some p \<and> na \<in> set (inorder (pr_nodes p))
   | None \<Rightarrow> na \<in> set (binder_dead_nodes s))"

lemma owner_cong:
  "procs s' = procs s \<Longrightarrow> binder_dead_nodes s' = binder_dead_nodes s \<Longrightarrow> owner_ok s' = owner_ok s"
  by (simp add: owner_ok_def fun_eq_iff split: option.split)

definition node_ok :: "(addr \<Rightarrow> 32 word) \<Rightarrow> driver \<Rightarrow> addr \<Rightarrow> binder_node \<Rightarrow> bool" where
  "node_ok dl s na n \<longleftrightarrow> distinct (n_refs n) \<and>
     (\<forall>r \<in> set (n_refs n). \<exists>x. refs s r = Some x \<and> r_node x = na) \<and>
     n_internal_strong_refs n = of_nat (count_strong s (n_refs n)) + dl na \<and>
     link_of s (W_Node na) \<noteq> Wild \<and>
     (items s (L_Async na) \<noteq> [] \<longrightarrow> n_local_strong_refs n \<noteq> 0) \<and>
     owner_ok s na (n_proc n)"

definition ref_ok :: "driver \<Rightarrow> addr \<Rightarrow> binder_ref \<Rightarrow> bool" where
  "ref_ok s r x \<longleftrightarrow> r_desc x < 2 ^ 32 \<and>
     (\<exists>n. nodes s (r_node x) = Some n \<and> r \<in> set (n_refs n)) \<and>
     (\<exists>p. procs s (r_proc x) = Some p \<and> r \<in> set (inorder (pr_refs_by_desc p)) \<and>
          r \<in> set (inorder (pr_refs_by_node p)))"

definition proc_ok :: "driver \<Rightarrow> addr \<Rightarrow> binder_proc \<Rightarrow> bool" where
  "proc_ok s pa p \<longleftrightarrow> keyed (desc_key s) (pr_refs_by_desc p) \<and>
     keyed (ref_node_key s) (pr_refs_by_node p) \<and> keyed (node_key s) (pr_nodes p) \<and>
     (\<forall>r \<in> set (inorder (pr_refs_by_desc p)) \<union> set (inorder (pr_refs_by_node p)).
        \<exists>x. refs s r = Some x \<and> r_proc x = pa) \<and>
     (\<forall>na \<in> set (inorder (pr_nodes p)). \<exists>n. nodes s na = Some n \<and> n_proc n = Some pa)"

definition dead_ok :: "driver \<Rightarrow> bool" where
  "dead_ok s \<longleftrightarrow> distinct (binder_dead_nodes s) \<and>
     (\<forall>na \<in> set (binder_dead_nodes s). \<exists>n. nodes s na = Some n \<and> n_proc n = None)"

definition deaths_ok :: "driver \<Rightarrow> bool" where
  "deaths_ok s \<longleftrightarrow>
     (\<forall>r x d. refs s r = Some x \<longrightarrow> r_death x = Some d \<longrightarrow> deaths s d \<noteq> None \<and> link_of s (W_Death d) \<noteq> Wild) \<and>
     (\<forall>r x r' x' d. refs s r = Some x \<longrightarrow> refs s r' = Some x' \<longrightarrow>
     r_death x = Some d \<longrightarrow> r_death x' = Some d \<longrightarrow> r = r')"

lemma deaths_cong:
  assumes "deaths_ok s" and "refs s' = refs s" and "deaths s' = deaths s"
    and "\<And>d. link_of s (W_Death d) \<noteq> Wild \<Longrightarrow> link_of s' (W_Death d) \<noteq> Wild"
  shows "deaths_ok s'"
  using assms unfolding deaths_ok_def by auto

definition base_ok :: "driver \<Rightarrow> bool" where
  "base_ok s \<longleftrightarrow> mem_ok s \<and> stats_ok s \<and> links_ok s"

definition node_inv :: "(addr \<Rightarrow> 32 word) \<Rightarrow> addr set \<Rightarrow> driver \<Rightarrow> bool" where
  "node_inv dl X s \<longleftrightarrow> base_ok s \<and> (\<forall>na n. nodes s na = Some n \<longrightarrow> node_ok dl s na n) \<and>
     (\<forall>r x. refs s r = Some x \<and> r \<notin> X \<longrightarrow> ref_ok s r x) \<and>
     (\<forall>pa p. procs s pa = Some p \<longrightarrow> proc_ok s pa p) \<and> dead_ok s \<and> deaths_ok s"

definition refs_inv :: "driver \<Rightarrow> bool" where
  "refs_inv s \<longleftrightarrow> node_inv (\<lambda>_. 0) {} s"

lemma node_invD:
  assumes "node_inv dl X s"
  shows "base_ok s" and "nodes s na = Some n \<Longrightarrow> node_ok dl s na n"
    and "refs s r = Some x \<Longrightarrow> r \<notin> X \<Longrightarrow> ref_ok s r x"
    and "procs s pa = Some p \<Longrightarrow> proc_ok s pa p" and "dead_ok s" and "deaths_ok s"
  using assms by (auto simp: node_inv_def)

lemma node_invI:
  assumes "base_ok s" and "\<And>na n. nodes s na = Some n \<Longrightarrow> node_ok dl s na n"
    and "\<And>r x. refs s r = Some x \<Longrightarrow> r \<notin> X \<Longrightarrow> ref_ok s r x"
    and "\<And>pa p. procs s pa = Some p \<Longrightarrow> proc_ok s pa p" and "dead_ok s" and "deaths_ok s"
  shows "node_inv dl X s"
  using assms by (auto simp: node_inv_def)

text \<open>Two states that agree on the objects, up to the order of the work.\<close>

definition same_objects :: "driver \<Rightarrow> driver \<Rightarrow> bool" where
  "same_objects s s' \<longleftrightarrow> procs s' = procs s \<and> refs s' = refs s \<and> deaths s' = deaths s \<and>
     threads s' = threads s \<and> transactions s' = transactions s \<and> live s' = live s \<and>
     obj_created s' = obj_created s \<and> obj_deleted s' = obj_deleted s \<and>
     binder_dead_nodes s' = binder_dead_nodes s"

section \<open>Changing the fields of a node\<close>

lemma mem_update:
  assumes "mem_ok s" and "same_objects s s'" and "\<And>a. (nodes s' a = None) = (nodes s a = None)"
  shows "mem_ok s'"
  using assms by (simp add: mem_ok_def same_objects_def)

lemma node_inv_update:
  assumes inv: "node_inv dl X s" and n: "nodes s na = Some n" and so: "same_objects s s'"
    and nd: "nodes s' = (nodes s)(na \<mapsto> n')" and n': "n_refs n' = n_refs n" "n_proc n' = n_proc n" "n_ptr n' = n_ptr n"
    and cnt: "n_internal_strong_refs n' = n_internal_strong_refs n + k"
    and links: "links_ok s'" "\<And>w. link_of s w \<noteq> Wild \<Longrightarrow> link_of s' w \<noteq> Wild"
    and async: "\<And>m. items s' (L_Async m) \<noteq> [] \<Longrightarrow> items s (L_Async m) \<noteq> []"
      "items s' (L_Async na) \<noteq> [] \<Longrightarrow> n_local_strong_refs n' \<noteq> 0"
  shows "node_inv (dl(na := dl na + k)) X s'"
proof (rule node_invI)
  have eq: "procs s' = procs s" "refs s' = refs s" "deaths s' = deaths s" "binder_dead_nodes s' = binder_dead_nodes s"
    "live s' = live s" "obj_created s' = obj_created s" "obj_deleted s' = obj_deleted s"
    using so by (simp_all add: same_objects_def)
  have "mem_ok s'" by (rule mem_update [OF _ so]) (use inv n nd in \<open>auto simp: node_inv_def base_ok_def\<close>)
  then show "base_ok s'" using inv links stats_cong [OF eq(5-7)] by (simp add: node_inv_def base_ok_def)
  have cs: "count_strong s' = count_strong s" by (rule count_strong_cong) (simp add: eq)
  show "node_ok (dl(na := dl na + k)) s' m x" if m: "nodes s' m = Some x" for m x
  proof (cases "m = na")
    case True
    then show ?thesis
      using node_invD(2) [OF inv n] m nd n' cnt links(2) async(2)
      by (simp add: node_ok_def cs eq owner_cong [OF eq(1,4)])
  next
    case False
    then show ?thesis
      using node_invD(2) [OF inv, of m x] m nd links(2) async(1) [of m]
      by (simp add: node_ok_def cs eq owner_cong [OF eq(1,4)])
  qed
  show "ref_ok s' r x" if "refs s' r = Some x" "r \<notin> X" for r x
    using node_invD(3) [OF inv, of r x] that n nd n' links(2) by (auto simp: ref_ok_def eq)
  show "proc_ok s' pa p" if "procs s' pa = Some p" for pa p
  proof -
    have "node_key s' = node_key s" using n nd n' by (auto simp: node_key_def fun_eq_iff)
    moreover have "desc_key s' = desc_key s" "ref_node_key s' = ref_node_key s"
      by (simp_all add: desc_key_def ref_node_key_def eq fun_eq_iff)
    ultimately show ?thesis using node_invD(4) [OF inv, of pa p] that n nd n' by (auto simp: proc_ok_def eq)
  qed
  show "dead_ok s'" using node_invD(5) [OF inv] n nd n' by (auto simp: dead_ok_def eq)
  show "deaths_ok s'" by (rule deaths_cong [OF node_invD(6) [OF inv] eq(2,3)]) (rule links(2))
qed

text \<open>The same for updates that only move work around.\<close>

lemma node_inv_links:
  assumes inv: "node_inv dl X s" and so: "same_objects s s'" and nd: "nodes s' = nodes s"
    and links: "links_ok s'" "\<And>w. link_of s w \<noteq> Wild \<Longrightarrow> link_of s' w \<noteq> Wild"
    and async: "\<And>m. items s' (L_Async m) \<noteq> [] \<Longrightarrow> items s (L_Async m) \<noteq> []"
  shows "node_inv dl X s'"
proof (rule node_invI)
  have eq: "procs s' = procs s" "refs s' = refs s" "deaths s' = deaths s" "binder_dead_nodes s' = binder_dead_nodes s"
    "live s' = live s" "obj_created s' = obj_created s" "obj_deleted s' = obj_deleted s"
    using so by (simp_all add: same_objects_def)
  have "mem_ok s'" by (rule mem_update [OF _ so]) (use inv nd in \<open>auto simp: node_inv_def base_ok_def\<close>)
  then show "base_ok s'" using inv links stats_cong [OF eq(5-7)] by (simp add: node_inv_def base_ok_def)
  have cs: "count_strong s' = count_strong s" by (rule count_strong_cong) (simp add: eq)
  have keys: "node_key s' = node_key s" "desc_key s' = desc_key s" "ref_node_key s' = ref_node_key s"
    by (simp_all add: node_key_def desc_key_def ref_node_key_def nd eq fun_eq_iff)
  show "node_ok dl s' m x" if m: "nodes s' m = Some x" for m x
    using node_invD(2) [OF inv, of m x] m nd links(2) async [of m] by (simp add: node_ok_def cs eq owner_cong [OF eq(1,4)])
  show "ref_ok s' r x" if "refs s' r = Some x" "r \<notin> X" for r x
    using node_invD(3) [OF inv, of r x] that nd links(2) by (simp add: ref_ok_def eq)
  show "proc_ok s' pa p" if "procs s' pa = Some p" for pa p
    using node_invD(4) [OF inv, of pa p] that by (simp add: proc_ok_def eq nd keys)
  show "dead_ok s'" using node_invD(5) [OF inv] by (simp add: dead_ok_def eq nd)
  show "deaths_ok s'" by (rule deaths_cong [OF node_invD(6) [OF inv] eq(2,3)]) (rule links(2))
qed

section \<open>Destroying a node\<close>

text \<open>A node without references and without local counts can be freed.\<close>

lemma node_inv_free:
  assumes K: "kern_ok K" and inv: "node_inv dl X s" and n: "nodes s na = Some n" and empty: "n_refs n = []"
    and links: "links_ok s'" "\<And>w. w \<noteq> W_Node na \<Longrightarrow> link_of s w \<noteq> Wild \<Longrightarrow> link_of s' w \<noteq> Wild"
    and async: "\<And>m. items s' (L_Async m) \<noteq> [] \<Longrightarrow> items s (L_Async m) \<noteq> []"
    and nd: "nodes s' = (nodes s)(na := None)"
    and eq: "refs s' = refs s" "deaths s' = deaths s" "threads s' = threads s" "transactions s' = transactions s"
    and lv: "live s' = remove1 (BINDER_STAT_NODE, na) (live s)"
    and st: "obj_created s' = obj_created s"
      "obj_deleted s' = (obj_deleted s)(BINDER_STAT_NODE := obj_deleted s BINDER_STAT_NODE + 1)"
    and own: "case n_proc n of
        Some pa \<Rightarrow> \<exists>p. procs s pa = Some p \<and> procs s' = (procs s)(pa \<mapsto> p\<lparr>pr_nodes := rb_erase K na (pr_nodes p)\<rparr>)
                     \<and> binder_dead_nodes s' = binder_dead_nodes s
      | None \<Rightarrow> procs s' = procs s \<and> binder_dead_nodes s' = remove1 na (binder_dead_nodes s)"
  shows "node_inv dl X s'"
proof (rule node_invI)
  have mem: "mem_ok s" and sto: "stats_ok s" using inv by (simp_all add: node_inv_def base_ok_def)
  have dead: "dead_ok s" by (rule node_invD(5) [OF inv])
  have procs: "\<exists>p. procs s pa = Some p \<and> inorder (pr_refs_by_desc p') = inorder (pr_refs_by_desc p)
        \<and> inorder (pr_refs_by_node p') = inorder (pr_refs_by_node p)
        \<and> (inorder (pr_nodes p') = remove1 na (inorder (pr_nodes p))) \<and> distinct (inorder (pr_nodes p))"
    if p': "procs s' pa = Some p'" for pa p'
  proof -
    obtain p where p: "procs s pa = Some p"
      using p' own by (cases "n_proc n") (auto split: if_splits)
    have "keyed (node_key s) (pr_nodes p)" using node_invD(4) [OF inv p] by (simp add: proc_ok_def)
    then have dist: "distinct (inorder (pr_nodes p))"
      by (simp add: keyed_def keys_of_def strict_sorted_iff distinct_map)
    show ?thesis
    proof (cases "n_proc n = Some pa")
      case True
      then show ?thesis using own p p' dist K by auto
    next
      case False
      then have "na \<notin> set (inorder (pr_nodes p))"
        using node_invD(4) [OF inv p] n by (auto simp: proc_ok_def)
      moreover have "p' = p" using own p p' False by (cases "n_proc n") (auto split: if_splits)
      ultimately show ?thesis using p dist by (simp add: remove1_idem)
    qed
  qed
  have pdom: "(procs s' pa = None) = (procs s pa = None)" for pa
    using own by (cases "n_proc n") (auto split: if_splits)
  have in_live: "(BINDER_STAT_NODE, na) \<in> set (live s)" using mem n by (simp add: mem_ok_def)
  have "mem_ok s'"
  proof -
    have "(ty, a) \<in> set (live s') \<longleftrightarrow> (ty, a) \<in> set (live s) \<and> (ty, a) \<noteq> (BINDER_STAT_NODE, na)" for ty a
      using mem by (simp add: lv mem_ok_def)
    then show ?thesis using mem pdom by (simp add: mem_ok_def eq nd) (simp add: lv)
  qed
  moreover have "stats_ok s'" by (rule stats_delete [OF sto in_live lv st])
  ultimately show "base_ok s'" using links by (simp add: base_ok_def)
  have cs: "count_strong s' = count_strong s" by (rule count_strong_cong) (simp add: eq)
  show "node_ok dl s' m x" if m: "nodes s' m = Some x" for m x
  proof -
    have m': "m \<noteq> na" "nodes s m = Some x" using m nd by (auto split: if_splits)
    have ok: "node_ok dl s m x" by (rule node_invD(2) [OF inv m'(2)])
    have "owner_ok s' m (n_proc x)"
    proof (cases "n_proc x")
      case None
      then show ?thesis using ok own m'(1) by (cases "n_proc n") (auto simp: node_ok_def owner_ok_def)
    next
      case (Some pa)
      then obtain p where p: "procs s pa = Some p" "m \<in> set (inorder (pr_nodes p))"
        using ok by (auto simp: node_ok_def owner_ok_def)
      then obtain p' where "procs s' pa = Some p'" using pdom [of pa] by (cases "procs s' pa") auto
      moreover from this have "set (inorder (pr_nodes p')) = set (inorder (pr_nodes p)) - {na}"
        using procs [of pa p'] p(1) by auto
      ultimately show ?thesis using p m'(1) Some by (simp add: owner_ok_def)
    qed
    then show ?thesis using ok m'(1) links(2) async [of m] by (simp add: node_ok_def cs eq)
  qed
  show "ref_ok s' r x" if r: "refs s' r = Some x" "r \<notin> X" for r x
  proof -
    have ok: "ref_ok s r x" using node_invD(3) [OF inv] r eq by simp
    then obtain m where m: "nodes s (r_node x) = Some m" "r \<in> set (n_refs m)" by (auto simp: ref_ok_def)
    then have "r_node x \<noteq> na" using n empty by auto
    moreover obtain p where p: "procs s (r_proc x) = Some p" using ok by (auto simp: ref_ok_def)
    moreover obtain p' where p': "procs s' (r_proc x) = Some p'" using pdom [of "r_proc x"] p by (cases "procs s' (r_proc x)") auto
    ultimately show ?thesis using ok procs [OF p'] m links(2) by (auto simp: ref_ok_def eq nd)
  qed
  show "proc_ok s' pa p'" if p': "procs s' pa = Some p'" for pa p'
  proof -
    obtain p where p: "procs s pa = Some p" "inorder (pr_refs_by_desc p') = inorder (pr_refs_by_desc p)"
      "inorder (pr_refs_by_node p') = inorder (pr_refs_by_node p)"
      "inorder (pr_nodes p') = remove1 na (inorder (pr_nodes p))" "distinct (inorder (pr_nodes p))"
      using procs [OF p'] by blast
    have ok: "proc_ok s pa p" by (rule node_invD(4) [OF inv p(1)])
    have k: "desc_key s' = desc_key s" "ref_node_key s' = ref_node_key s"
      by (simp_all add: desc_key_def ref_node_key_def eq fun_eq_iff)
    have "keyed (node_key s) (pr_nodes p')"
      by (rule keyed_remove1 [OF _ p(4)]) (use ok in \<open>simp add: proc_ok_def\<close>)
    moreover have "keyed (node_key s') (pr_nodes p') = keyed (node_key s) (pr_nodes p')"
      by (rule keyed_cong) (use p(4,5) in \<open>auto simp: node_key_def nd\<close>)
    moreover have "keyed (desc_key s) (pr_refs_by_desc p')" "keyed (ref_node_key s) (pr_refs_by_node p')"
      using ok p(2,3) keyed_inorder_cong by (auto simp: proc_ok_def)
    ultimately show ?thesis using ok p by (auto simp: proc_ok_def k eq nd)
  qed
  show "dead_ok s'"
  proof (cases "n_proc n")
    case None
    then show ?thesis using own dead by (auto simp: dead_ok_def nd dest: notin_set_remove1)
  next
    case (Some pa)
    then have "na \<notin> set (binder_dead_nodes s)" using dead n by (auto simp: dead_ok_def)
    then show ?thesis using own dead Some by (auto simp: dead_ok_def nd)
  qed
  show "deaths_ok s'" by (rule deaths_cong [OF node_invD(6) [OF inv] eq(1,2)]) (use links(2) in blast)
qed

text \<open>
  \<open>binder_inc_node\<close> and \<open>binder_dec_node\<close>: neither crashes on a well-formed state, and the
  internal count of the node moves by exactly what the caller accounts for.
\<close>

definition delta :: "bool \<Rightarrow> bool \<Rightarrow> 32 word" where
  "delta strong internal = (if strong \<and> internal then 1 else 0)"

lemma delta_simps [simp]:
  "delta False i = 0" "delta st False = 0" "delta True True = 1"
  by (simp_all add: delta_def)

text \<open>A target list is the work list of a thread or of a process.\<close>

definition work_target :: "driver \<Rightarrow> list_id option \<Rightarrow> bool" where
  "work_target s target \<longleftrightarrow> (\<forall>l. target = Some l \<longrightarrow> list_live l s \<and> (\<forall>m. l \<noteq> L_Async m))"

definition node_changed :: "driver \<Rightarrow> addr \<Rightarrow> binder_node \<Rightarrow> driver \<Rightarrow> bool" where
  "node_changed s na n s' \<longleftrightarrow> same_objects s s' \<and> binder_context_mgr_node s' = binder_context_mgr_node s \<and>
     (\<exists>n'. nodes s' = (nodes s)(na \<mapsto> n') \<and> n_refs n' = n_refs n \<and> n_proc n' = n_proc n \<and>
           n_ptr n' = n_ptr n \<and> n_cookie n' = n_cookie n)"

lemma node_update_plain:
  assumes inv: "node_inv dl X s" and n: "nodes s na = Some n"
    and n': "n_refs n' = n_refs n" "n_proc n' = n_proc n" "n_ptr n' = n_ptr n"
    and cnt: "n_internal_strong_refs n' = n_internal_strong_refs n + k"
    and async: "items s (L_Async na) \<noteq> [] \<Longrightarrow> n_local_strong_refs n' \<noteq> 0"
  shows "node_inv (dl(na := dl na + k)) X (set_node na n' s)"
proof (rule node_inv_update [OF inv n _ _ n' cnt])
  have "links_ok s" using inv by (simp add: node_inv_def base_ok_def)
  moreover have "list_live l (set_node na n' s) \<longleftrightarrow> list_live l s" for l
    using n by (cases l) (auto simp: set_node_def)
  ultimately show "links_ok (set_node na n' s)" by (simp add: links_ok_def set_node_def)
qed (use async in \<open>simp_all add: set_node_def same_objects_def\<close>)

lemma node_link:
  assumes "node_inv dl X s" and "nodes s na = Some n"
  shows "link_of s (W_Node na) \<noteq> Wild"
  using node_invD(2) [OF assms] by (simp add: node_ok_def)

text \<open>Moving the work item of a node to the end of a list.\<close>

lemma node_to_list:
  assumes inv: "node_inv dl X s" and n: "nodes s na = Some n" and l: "list_live l s" "\<And>m. l \<noteq> L_Async m"
  obtains s2 s3 where "list_del_init (W_Node na) s = Some s2" and "list_add_tail (W_Node na) l s2 = Some s3"
    and "node_inv dl X s3" and "same_objects s s3" and "nodes s3 = nodes s"
    and "binder_context_mgr_node s3 = binder_context_mgr_node s"
proof -
  have lk: "links_ok s" using inv by (simp add: node_inv_def base_ok_def)
  obtain it where u: "list_del_init (W_Node na) s = Some (s\<lparr>items := it, link_of := (link_of s)(W_Node na := Unlinked)\<rparr>)"
    "links_ok (s\<lparr>items := it, link_of := (link_of s)(W_Node na := Unlinked)\<rparr>)"
    "\<And>l. it l = remove1 (W_Node na) (items s l)"
    by (rule unlink_ok [OF lk node_link [OF inv n], of Unlinked]) (use that in \<open>auto simp: list_del_init_def\<close>)
  let ?s2 = "s\<lparr>items := it, link_of := (link_of s)(W_Node na := Unlinked)\<rparr>"
  have l2: "list_live l ?s2" using l(1) by (cases l) simp_all
  note a = add_tail_ok [OF u(2) _ l2, of "W_Node na"]
  let ?s3 = "?s2\<lparr>items := it(l := it l @ [W_Node na]), link_of := (link_of s)(W_Node na := Linked l)\<rparr>"
  have s3: "list_add_tail (W_Node na) l ?s2 = Some ?s3" "links_ok ?s3" using a by simp_all
  have so: "same_objects s ?s3" by (simp add: same_objects_def)
  have "node_inv dl X ?s3"
  proof (rule node_inv_links [OF inv so _ s3(2)])
    show "items s (L_Async m) \<noteq> []" if "items ?s3 (L_Async m) \<noteq> []" for m
      using that u(3) [of "L_Async m"] l(2) by (auto split: if_splits)
  qed auto
  then show thesis using that u(1) s3(1) so by simp
qed

text \<open>
  The counters of a node are the bits of an \<open>int\<close>: a caller that adds a local strong reference
  must not make the counter wrap to \<open>0\<close>, as \<open>2 ^ 32\<close> of them would.
\<close>

definition may_inc :: "binder_node \<Rightarrow> bool \<Rightarrow> bool \<Rightarrow> bool" where
  "may_inc n strong internal \<longleftrightarrow> (strong \<and> \<not> internal \<longrightarrow> n_local_strong_refs n + 1 \<noteq> 0)"

lemma inc_node_ok:
  assumes inv: "node_inv dl X s" and n: "nodes s node = Some n" and tg: "work_target s target"
    and may: "may_inc n strong internal"
  obtains ret s' where "binder_inc_node node strong internal target s = Some (ret, s')"
    and "ret = 0 \<or> ret = - EINVAL"
    and "node_inv (dl(node := dl node + (if ret = 0 then delta strong internal else 0))) X s'"
    and "node_changed s node n s'"
    and "target \<noteq> None \<Longrightarrow> ret = 0"
proof -
  have cn: "items s (L_Async node) \<noteq> [] \<Longrightarrow> n_local_strong_refs n \<noteq> 0"
    using node_invD(2) [OF inv n] by (simp_all add: node_ok_def)
  have same: "node_changed s node n s" using n by (auto simp: node_changed_def same_objects_def intro!: exI [of _ n])
  have lk: "links_ok s" using inv by (simp add: node_inv_def base_ok_def)
  show thesis
  proof (cases strong)
    case True
    let ?n' = "if internal then n\<lparr>n_internal_strong_refs := n_internal_strong_refs n + 1\<rparr>
                     else n\<lparr>n_local_strong_refs := n_local_strong_refs n + 1\<rparr>"
    let ?s1 = "set_node node ?n' s"
    have i1: "node_inv (dl(node := dl node + delta True internal)) X ?s1"
      by (rule node_update_plain [OF inv n]) (use cn may in \<open>auto simp: delta_def may_inc_def True\<close>)
    have c1: "node_changed s node n ?s1"
      by (auto simp: node_changed_def same_objects_def set_node_def)
    consider (bad) "internal" "target = None" "n_internal_strong_refs n = 0"
        "\<not> (binder_context_mgr_node s = Some node \<and> n_has_strong_ref n)"
      | (plain) "\<not> (internal \<and> target = None \<and> n_internal_strong_refs n = 0
          \<and> \<not> (binder_context_mgr_node s = Some node \<and> n_has_strong_ref n))" "target = None \<or> n_has_strong_ref n"
      | (list) l where "target = Some l" "\<not> n_has_strong_ref n" by (cases target) auto
    then show thesis
    proof cases
      case bad
      then have "binder_inc_node node strong internal target s = Some (- EINVAL, s)"
        using True n by (simp add: binder_inc_node_def)
      then show thesis by (rule that) (use inv same bad in \<open>simp_all add: EINVAL_def\<close>)
    next
      case plain
      then have "binder_inc_node node strong internal target s = Some (0, ?s1)"
        using True n by (auto simp: binder_inc_node_def Let_def split: option.split)
      then show thesis by (rule that) (use True i1 c1 in simp_all)
    next
      case list
      have n1: "nodes ?s1 node = Some ?n'" by (simp add: set_node_def)
      have ll: "list_live l ?s1" "\<And>m. l \<noteq> L_Async m"
        using tg list n by (cases l; auto simp: work_target_def set_node_def)+
      obtain s2 s3 where m: "list_del_init (W_Node node) ?s1 = Some s2" "list_add_tail (W_Node node) l s2 = Some s3"
        "node_inv (dl(node := dl node + delta True internal)) X s3" "same_objects ?s1 s3" "nodes s3 = nodes ?s1"
        "binder_context_mgr_node s3 = binder_context_mgr_node ?s1"
        by (rule node_to_list [OF i1 n1 ll]) (rule that)
      have "binder_inc_node node strong internal target s = Some (0, s3)"
        using True n list m(1,2) by (simp add: binder_inc_node_def Let_def)
      moreover have "node_changed s node n s3"
        using c1 m(4-6) by (simp add: node_changed_def same_objects_def)
      ultimately show thesis using m(3) True by (intro that [of 0 s3]) simp_all
    qed
  next
    case False
    let ?n' = "if internal then n else n\<lparr>n_local_weak_refs := n_local_weak_refs n + 1\<rparr>"
    let ?s1 = "set_node node ?n' s"
    have i1: "node_inv (dl(node := dl node + 0)) X ?s1"
      by (rule node_update_plain [OF inv n]) (use cn in auto)
    then have i1: "node_inv dl X ?s1" by simp
    have c1: "node_changed s node n ?s1"
      by (auto simp: node_changed_def same_objects_def set_node_def)
    have n1: "nodes ?s1 node = Some ?n'" by (simp add: set_node_def)
    show thesis
    proof (cases "\<not> n_has_weak_ref n \<and> link_empty (W_Node node) ?s1")
      case plain: False
      then have "binder_inc_node node strong internal target s = Some (0, ?s1)"
        using \<open>\<not> strong\<close> n by (auto simp: binder_inc_node_def Let_def)
      then show thesis by (rule that) (use \<open>\<not> strong\<close> i1 c1 in simp_all)
    next
      case True
      show thesis
      proof (cases target)
        case None
        then have "binder_inc_node node strong internal target s = Some (- EINVAL, ?s1)"
          using True \<open>\<not> strong\<close> n by (simp add: binder_inc_node_def Let_def)
        then show thesis by (rule that) (use \<open>\<not> strong\<close> i1 c1 None in \<open>simp_all add: EINVAL_def\<close>)
      next
        case (Some l)
        have ll: "list_live l ?s1" "\<And>m. l \<noteq> L_Async m"
          using tg Some n by (cases l; auto simp: work_target_def set_node_def)+
        obtain s2 s3 where m: "list_del_init (W_Node node) ?s1 = Some s2" "list_add_tail (W_Node node) l s2 = Some s3"
          "node_inv dl X s3" "same_objects ?s1 s3" "nodes s3 = nodes ?s1"
          "binder_context_mgr_node s3 = binder_context_mgr_node ?s1"
          by (rule node_to_list [OF i1 n1 ll]) (rule that)
        have "s2 = ?s1"
          using m(1) True by (simp add: list_del_init_def unlink_def link_empty_def set_link_def set_node_def fun_upd_idem)
        then have "binder_inc_node node strong internal target s = Some (0, s3)"
          using True \<open>\<not> strong\<close> n Some m(2) by (simp add: binder_inc_node_def Let_def)
        moreover have "node_changed s node n s3"
          using c1 m(4-6) by (simp add: node_changed_def same_objects_def)
        ultimately show thesis using m(3) \<open>\<not> strong\<close> by (intro that [of 0 s3]) simp_all
      qed
    qed
  qed
qed

section \<open>Decrementing\<close>

text \<open>What settling a node leaves alone, and when the node is gone afterwards.\<close>

definition procs_kept :: "driver \<Rightarrow> driver \<Rightarrow> bool" where
  "procs_kept s s' \<longleftrightarrow> (\<forall>pa. (procs s' pa = None) = (procs s pa = None)) \<and>
     (\<forall>pa p'. procs s' pa = Some p' \<longrightarrow> (\<exists>p. procs s pa = Some p \<and> p' = p\<lparr>pr_nodes := pr_nodes p'\<rparr>))"

lemma procs_kept_refl [simp]: "procs s' = procs s \<Longrightarrow> procs_kept s s'"
  by (simp add: procs_kept_def)

lemma procs_keptD:
  "procs_kept s s' \<Longrightarrow> procs s' pa = Some p' \<Longrightarrow> \<exists>p. procs s pa = Some p \<and> p' = p\<lparr>pr_nodes := pr_nodes p'\<rparr>"
  unfolding procs_kept_def by blast

lemma procs_kept_refs:
  assumes "procs_kept s s'" and "procs s' pa = Some p'"
  obtains p where "procs s pa = Some p" and "pr_refs_by_desc p' = pr_refs_by_desc p"
    and "pr_refs_by_node p' = pr_refs_by_node p"
proof -
  obtain p where p: "procs s pa = Some p" "p' = p\<lparr>pr_nodes := pr_nodes p'\<rparr>"
    using procs_keptD [OF assms] by blast
  have "pr_refs_by_desc p' = pr_refs_by_desc p" "pr_refs_by_node p' = pr_refs_by_node p"
    by (subst p(2), simp)+
  with p(1) show thesis by (rule that)
qed

lemma procs_kept_trans: "procs_kept s t \<Longrightarrow> procs_kept t u \<Longrightarrow> procs_kept s u"
proof -
  assume a: "procs_kept s t" "procs_kept t u"
  have "\<exists>p. procs s pa = Some p \<and> p'' = p\<lparr>pr_nodes := pr_nodes p''\<rparr>" if p'': "procs u pa = Some p''" for pa p''
  proof -
    obtain p' where p': "procs t pa = Some p'" "p'' = p'\<lparr>pr_nodes := pr_nodes p''\<rparr>"
      using procs_keptD [OF a(2) p''] by blast
    obtain p where p: "procs s pa = Some p" "p' = p\<lparr>pr_nodes := pr_nodes p'\<rparr>"
      using procs_keptD [OF a(1) p'(1)] by blast
    have "p'' = p\<lparr>pr_nodes := pr_nodes p', pr_nodes := pr_nodes p''\<rparr>" using p(2) p'(2) by metis
    then show ?thesis using p(1) by simp
  qed
  moreover have "(procs u pa = None) = (procs s pa = None)" for pa
    using a unfolding procs_kept_def by blast
  ultimately show ?thesis unfolding procs_kept_def by blast
qed

definition settled :: "driver \<Rightarrow> addr \<Rightarrow> binder_node \<Rightarrow> driver \<Rightarrow> bool" where
  "settled s na n s' \<longleftrightarrow> refs s' = refs s \<and> deaths s' = deaths s \<and> threads s' = threads s \<and>
     transactions s' = transactions s \<and> binder_context_mgr_node s' = binder_context_mgr_node s \<and>
     (\<forall>m. m \<noteq> na \<longrightarrow> nodes s' m = nodes s m) \<and> procs_kept s s' \<and>
     (case nodes s' na of
        None \<Rightarrow> n_refs n = []
      | Some n' \<Rightarrow> n_refs n' = n_refs n \<and> n_proc n' = n_proc n \<and> n_ptr n' = n_ptr n \<and> n_cookie n' = n_cookie n)"

lemma settle_free:
  assumes K: "kern_ok K" and inv: "node_inv dl X s" and n: "nodes s node = Some n"
    and empty: "n_refs n = []" "n_local_strong_refs n = 0"
  obtains s' where
    "do {
       s1 \<leftarrow> list_del_init (W_Node node) s;
       s2 \<leftarrow> (case n_proc n of
                 Some proc \<Rightarrow>
                   do {
                     p \<leftarrow> procs s1 proc;
                     Some (set_proc proc (p\<lparr>pr_nodes := rb_erase K node (pr_nodes p)\<rparr>) s1)
                   }
               | None \<Rightarrow> Some (s1\<lparr>binder_dead_nodes := remove1 node (binder_dead_nodes s1)\<rparr>));
       s3 \<leftarrow> kfree BINDER_STAT_NODE node s2;
       Some (binder_stats_deleted BINDER_STAT_NODE
               (drop_work (W_Node node) (s3\<lparr>nodes := (nodes s3)(node := None)\<rparr>)))
     } = Some s'"
    and "node_inv dl X s'" and "settled s node n s'"
proof -
  have lk: "links_ok s" and mem: "mem_ok s" using inv by (simp_all add: node_inv_def base_ok_def)
  have ok: "node_ok dl s node n" by (rule node_invD(2) [OF inv n])
  obtain it where u: "list_del_init (W_Node node) s = Some (s\<lparr>items := it, link_of := (link_of s)(W_Node node := Unlinked)\<rparr>)"
    "links_ok (s\<lparr>items := it, link_of := (link_of s)(W_Node node := Unlinked)\<rparr>)"
    "\<And>l. it l = remove1 (W_Node node) (items s l)"
    by (rule unlink_ok [OF lk node_link [OF inv n], of Unlinked]) (use that in \<open>auto simp: list_del_init_def\<close>)
  have in_live: "(BINDER_STAT_NODE, node) \<in> set (live s)" using mem n by (simp add: mem_ok_def)
  have noasync: "items s (L_Async node) = []" using ok empty by (auto simp: node_ok_def)
  obtain pm dn where own: "case n_proc n of
        Some pa \<Rightarrow> \<exists>p. procs s pa = Some p \<and> pm = (procs s)(pa \<mapsto> p\<lparr>pr_nodes := rb_erase K node (pr_nodes p)\<rparr>) \<and> dn = binder_dead_nodes s
      | None \<Rightarrow> pm = procs s \<and> dn = remove1 node (binder_dead_nodes s)"
    using ok by (cases "n_proc n") (auto simp: node_ok_def owner_ok_def)
  let ?s1 = "s\<lparr>items := it, link_of := (link_of s)(W_Node node := Unlinked)\<rparr>"
  let ?s2 = "?s1\<lparr>procs := pm, binder_dead_nodes := dn\<rparr>"
  let ?s' = "?s2\<lparr>live := remove1 (BINDER_STAT_NODE, node) (live s), nodes := (nodes s)(node := None),
       link_of := (link_of s)(W_Node node := Wild),
       obj_deleted := (obj_deleted s)(BINDER_STAT_NODE := obj_deleted s BINDER_STAT_NODE + 1)\<rparr>"
  have c2: "(case n_proc n of
                 Some proc \<Rightarrow> (do { p \<leftarrow> procs ?s1 proc; Some (set_proc proc (p\<lparr>pr_nodes := rb_erase K node (pr_nodes p)\<rparr>) ?s1) })
               | None \<Rightarrow> Some (?s1\<lparr>binder_dead_nodes := remove1 node (binder_dead_nodes ?s1)\<rparr>)) = Some ?s2"
    using own by (cases "n_proc n") (auto simp: set_proc_def)
  show thesis
  proof (rule that)
    show "(do {
       s1 \<leftarrow> list_del_init (W_Node node) s;
       s2 \<leftarrow> (case n_proc n of
                 Some proc \<Rightarrow>
                   do {
                     p \<leftarrow> procs s1 proc;
                     Some (set_proc proc (p\<lparr>pr_nodes := rb_erase K node (pr_nodes p)\<rparr>) s1)
                   }
               | None \<Rightarrow> Some (s1\<lparr>binder_dead_nodes := remove1 node (binder_dead_nodes s1)\<rparr>));
       s3 \<leftarrow> kfree BINDER_STAT_NODE node s2;
       Some (binder_stats_deleted BINDER_STAT_NODE
               (drop_work (W_Node node) (s3\<lparr>nodes := (nodes s3)(node := None)\<rparr>)))
     }) = Some ?s'"
      unfolding u(1) bind.bind_lunit c2
      using in_live by (simp add: kfree_def binder_stats_deleted_def drop_work_def set_link_def)
    have pdom: "(pm pa = None) = (procs s pa = None)" for pa
      using own by (cases "n_proc n") (auto split: if_splits)
    have "links_ok ?s'"
    proof -
      have "list_live l ?s'" if "it l \<noteq> []" for l
      proof -
        have "list_live l ?s1" using u(2) that by (simp add: links_ok_def)
        moreover have "l \<noteq> L_Async node" using that u(3) [of l] noasync by auto
        ultimately show ?thesis using pdom by (cases l) simp_all
      qed
      moreover have "((link_of s)(W_Node node := Wild)) w = Linked l \<longleftrightarrow> w \<in> set (it l)" for w l
        using u(2) by (auto simp: links_ok_def split: if_splits)
      ultimately show ?thesis using u(2) by (simp add: links_ok_def)
    qed
    then show "node_inv dl X ?s'"
    proof (rule node_inv_free [OF K inv n empty(1)])
      show "items s (L_Async m) \<noteq> []" if "items ?s' (L_Async m) \<noteq> []" for m
        using that u(3) [of "L_Async m"] by auto
      show "case n_proc n of
        Some pa \<Rightarrow> \<exists>p. procs s pa = Some p \<and> procs ?s' = (procs s)(pa \<mapsto> p\<lparr>pr_nodes := rb_erase K node (pr_nodes p)\<rparr>)
                     \<and> binder_dead_nodes ?s' = binder_dead_nodes s
      | None \<Rightarrow> procs ?s' = procs s \<and> binder_dead_nodes ?s' = remove1 node (binder_dead_nodes s)"
        using own by (cases "n_proc n") auto
    qed auto
    have "\<exists>p. procs s pa = Some p \<and> p' = p\<lparr>pr_nodes := pr_nodes p'\<rparr>" if "pm pa = Some p'" for pa p'
      using own that by (cases "n_proc n") (auto split: if_splits)
    then show "settled s node n ?s'" using pdom empty by (simp add: settled_def procs_kept_def)
  qed
qed

lemma settle_ok:
  assumes K: "kern_ok K" and inv: "node_inv dl X s" and n: "nodes s node = Some n"
  obtains s' where "dec_node_settle K node s = Some s'" and "node_inv dl X s'" and "settled s node n s'"
proof -
  have ok: "node_ok dl s node n" by (rule node_invD(2) [OF inv n])
  have lk: "links_ok s" using inv by (simp add: node_inv_def base_ok_def)
  have same: "settled s node n s" using n by (simp add: settled_def)
  consider (tell) pa where "n_proc n = Some pa" "n_has_strong_ref n \<or> n_has_weak_ref n" "link_empty (W_Node node) s"
    | (told) pa where "n_proc n = Some pa" "n_has_strong_ref n \<or> n_has_weak_ref n" "\<not> link_empty (W_Node node) s"
    | (free) "\<not> (n_proc n \<noteq> None \<and> (n_has_strong_ref n \<or> n_has_weak_ref n))"
        "n_refs n = [] \<and> n_local_strong_refs n = 0 \<and> n_local_weak_refs n = 0"
    | (keep) "\<not> (n_proc n \<noteq> None \<and> (n_has_strong_ref n \<or> n_has_weak_ref n))"
        "\<not> (n_refs n = [] \<and> n_local_strong_refs n = 0 \<and> n_local_weak_refs n = 0)"
    by fastforce
  then show thesis
  proof cases
    case tell
    then obtain p where p: "procs s pa = Some p" using ok by (auto simp: node_ok_def owner_ok_def)
    obtain s2 s3 where m: "list_del_init (W_Node node) s = Some s2" "list_add_tail (W_Node node) (L_Proc pa) s2 = Some s3"
        "node_inv dl X s3" "same_objects s s3" "nodes s3 = nodes s" "binder_context_mgr_node s3 = binder_context_mgr_node s"
      by (rule node_to_list [OF inv n, of "L_Proc pa"]) (use p that in auto)
    have "s2 = s"
      using m(1) tell by (simp add: list_del_init_def unlink_def link_empty_def set_link_def fun_upd_idem)
    then have "dec_node_settle K node s = Some s3"
      using n tell m(2) by (simp add: dec_node_settle_def)
    moreover have "settled s node n s3" using m(4-6) n by (simp add: settled_def same_objects_def)
    ultimately show thesis using m(3) that by simp
  next
    case told
    then have "dec_node_settle K node s = Some s" using n by (simp add: dec_node_settle_def)
    then show thesis using inv same that by simp
  next
    case free
    obtain s' where s': "(do {
       s1 \<leftarrow> list_del_init (W_Node node) s;
       s2 \<leftarrow> (case n_proc n of
                 Some proc \<Rightarrow>
                   do {
                     p \<leftarrow> procs s1 proc;
                     Some (set_proc proc (p\<lparr>pr_nodes := rb_erase K node (pr_nodes p)\<rparr>) s1)
                   }
               | None \<Rightarrow> Some (s1\<lparr>binder_dead_nodes := remove1 node (binder_dead_nodes s1)\<rparr>));
       s3 \<leftarrow> kfree BINDER_STAT_NODE node s2;
       Some (binder_stats_deleted BINDER_STAT_NODE
               (drop_work (W_Node node) (s3\<lparr>nodes := (nodes s3)(node := None)\<rparr>)))
     }) = Some s'" "node_inv dl X s'" "settled s node n s'"
      by (rule settle_free [OF K inv n]) (use free that in auto)
    then have "dec_node_settle K node s = Some s'"
      by (simp only: dec_node_settle_def n bind.bind_lunit if_not_P [OF free(1)] if_P [OF free(2)])
    then show thesis using s'(2,3) that by simp
  next
    case keep
    then have "dec_node_settle K node s = Some s" using n by (auto simp: dec_node_settle_def)
    then show thesis using inv same that by simp
  qed
qed

text \<open>A caller that gives back a local reference must hold one.\<close>

definition may_dec :: "driver \<Rightarrow> addr \<Rightarrow> binder_node \<Rightarrow> bool \<Rightarrow> bool \<Rightarrow> bool" where
  "may_dec s na n strong internal \<longleftrightarrow> (if internal then True
     else if strong then n_local_strong_refs n \<noteq> 0 \<and> (items s (L_Async na) \<noteq> [] \<longrightarrow> n_local_strong_refs n \<noteq> 1)
     else n_local_weak_refs n \<noteq> 0)"

lemma dec_node_ok:
  assumes K: "kern_ok K" and inv: "node_inv dl X s" and n: "nodes s node = Some n"
    and may: "may_dec s node n strong internal"
  obtains s' where "binder_dec_node K node strong internal s = Some (0, s')"
    and "node_inv (dl(node := dl node - delta strong internal)) X s'" and "settled s node n s'"
    and "strong \<Longrightarrow> internal \<Longrightarrow> n_refs n \<noteq> [] \<Longrightarrow> nodes s' node \<noteq> None"
proof -
  have cn: "items s (L_Async node) \<noteq> [] \<Longrightarrow> n_local_strong_refs n \<noteq> 0"
    using node_invD(2) [OF inv n] by (simp_all add: node_ok_def)
  define n' where "n' = (if strong then
                   if internal then n\<lparr>n_internal_strong_refs := n_internal_strong_refs n - 1\<rparr>
                   else n\<lparr>n_local_strong_refs := n_local_strong_refs n - 1\<rparr>
                 else if internal then n
                 else n\<lparr>n_local_weak_refs := n_local_weak_refs n - 1\<rparr>)"
  let ?s1 = "set_node node n' s" and ?dl = "dl(node := dl node + - delta strong internal)"
  have f: "n_refs n' = n_refs n" "n_proc n' = n_proc n" "n_ptr n' = n_ptr n" "n_cookie n' = n_cookie n"
    by (simp_all add: n'_def)
  have i1: "node_inv ?dl X ?s1"
    by (rule node_update_plain [OF inv n f(1-3)])
      (use cn may in \<open>auto simp: n'_def delta_def may_dec_def split: if_splits\<close>)
  have n1: "nodes ?s1 node = Some n'" by (simp add: set_node_def)
  have code: "binder_dec_node K node strong internal s =
    (if (if strong then n_local_strong_refs n' \<noteq> 0 \<or> n_internal_strong_refs n' \<noteq> 0
           else n_local_weak_refs n' \<noteq> 0 \<or> n_refs n' \<noteq> [])
     then Some (0, ?s1) else map_option (Pair 0) (dec_node_settle K node ?s1))"
    using n by (simp add: binder_dec_node_def n'_def [symmetric])
  have st: "settled s node n s'" if "settled ?s1 node n' s'" for s'
    using that f by (simp add: settled_def set_node_def procs_kept_def split: option.splits)
  show thesis
  proof (cases "if strong then n_local_strong_refs n' \<noteq> 0 \<or> n_internal_strong_refs n' \<noteq> 0
           else n_local_weak_refs n' \<noteq> 0 \<or> n_refs n' \<noteq> []")
    case True
    have "settled ?s1 node n' ?s1" using n1 by (simp add: settled_def)
    from st [OF this] show thesis using code [unfolded if_P [OF True]] i1 n1 by (intro that [of ?s1]) simp_all
  next
    case False
    obtain s' where s': "dec_node_settle K node ?s1 = Some s'" "node_inv ?dl X s'" "settled ?s1 node n' s'"
      by (rule settle_ok [OF K i1 n1]) (rule that)
    have "nodes s' node \<noteq> None" if "n_refs n \<noteq> []"
      using s'(3) f that by (cases "nodes s' node") (simp_all add: settled_def)
    then show thesis using code [unfolded if_not_P [OF False]] s'(1,2) st [OF s'(3)]
      by (intro that [of s']) simp_all
  qed
qed

end
