(* ===== verification/Binder_Ref_Ops.thy ===== *)
theory Binder_Ref_Ops
  imports Binder_Counts
begin

text \<open>
  The operations on references: counting up and down, and the destruction of a reference,
  keep the invariant of nodes and references and never crash on a well-formed state.
\<close>

section \<open>Changing the counts of a reference\<close>

definition strongly :: "binder_ref \<Rightarrow> 32 word" where
  "strongly x = (if r_strong x \<noteq> 0 then 1 else 0)"

lemma count_strong_Cons:
  "count_strong s (r # rs) = (if strong_ref s r then Suc (count_strong s rs) else count_strong s rs)"
  by (simp add: count_strong_def)

lemma count_strong_update:
  assumes "refs s' = (refs s)(r \<mapsto> x')" and "refs s r = Some x"
  shows "distinct rs \<Longrightarrow> (of_nat (count_strong s' rs) :: 32 word) = of_nat (count_strong s rs) + (if r \<in> set rs then strongly x' - strongly x else 0)"
proof (induction rs)
  case Nil
  then show ?case by (simp add: count_strong_def)
next
  case (Cons a rs)
  then show ?case
    using assms by (cases "a = r") (auto simp: count_strong_Cons strong_ref_def strongly_def)
qed

lemma node_inv_set_ref:
  assumes inv: "node_inv dl X s" and r: "refs s r = Some x" and n: "nodes s (r_node x) = Some n" "r \<in> set (n_refs n)"
    and x': "r_proc x' = r_proc x" "r_node x' = r_node x" "r_desc x' = r_desc x" "r_death x' = r_death x"
  shows "node_inv (dl(r_node x := dl (r_node x) + strongly x - strongly x')) X (set_ref r x' s)"
    (is "node_inv ?dl X ?s")
proof (rule node_invI)
  have eq: "procs ?s = procs s" "nodes ?s = nodes s" "deaths ?s = deaths s" "live ?s = live s" "items ?s = items s"
    "link_of ?s = link_of s" "binder_dead_nodes ?s = binder_dead_nodes s" "threads ?s = threads s"
    "transactions ?s = transactions s" "obj_created ?s = obj_created s" "obj_deleted ?s = obj_deleted s"
    "refs ?s = (refs s)(r \<mapsto> x')"
    by (simp_all add: set_ref_def)
  have ll: "list_live l ?s = list_live l s" for l by (cases l) (simp_all add: eq)
  have "mem_ok ?s" using inv r by (simp add: node_inv_def base_ok_def mem_ok_def eq)
  then show "base_ok ?s" using inv by (simp add: node_inv_def base_ok_def stats_ok_def links_ok_def eq ll)
  show "node_ok ?dl ?s m y" if m: "nodes ?s m = Some y" for m y
  proof -
    have ok: "node_ok dl s m y" using node_invD(2) [OF inv] m eq by simp
    then have d: "distinct (n_refs y)" by (simp add: node_ok_def)
    have "r \<in> set (n_refs y) \<longleftrightarrow> m = r_node x"
      using ok n m r eq(2) by (auto simp: node_ok_def)
    then have "(of_nat (count_strong ?s (n_refs y)) :: 32 word) = of_nat (count_strong s (n_refs y)) + (if m = r_node x then strongly x' - strongly x else 0)"
      using count_strong_update [OF eq(12) r d] by simp
    then show ?thesis using ok x'(2) r by (auto simp: node_ok_def eq owner_cong [OF eq(1,7)])
  qed
  show "ref_ok ?s a y" if "refs ?s a = Some y" "a \<notin> X" for a y
    using that node_invD(3) [OF inv, of a] r x' by (auto simp: ref_ok_def eq split: if_splits)
  show "proc_ok ?s pa p" if "procs ?s pa = Some p" for pa p
  proof -
    have "desc_key ?s = desc_key s" "ref_node_key ?s = ref_node_key s" "node_key ?s = node_key s"
      using r x' by (auto simp: desc_key_def ref_node_key_def node_key_def eq fun_eq_iff)
    then show ?thesis using node_invD(4) [OF inv, of pa p] that r x' by (auto simp: proc_ok_def eq ball_Un)
  qed
  show "dead_ok ?s" using node_invD(5) [OF inv] by (simp add: dead_ok_def eq)
  show "deaths_ok ?s" using node_invD(6) [OF inv] r x' by (auto simp: deaths_ok_def eq)
qed

lemma ref_okE:
  assumes "node_inv dl X s" and "refs s r = Some x" and "r \<notin> X"
  obtains n p where "nodes s (r_node x) = Some n" and "r \<in> set (n_refs n)" and "procs s (r_proc x) = Some p"
    and "r \<in> set (inorder (pr_refs_by_desc p))" and "r \<in> set (inorder (pr_refs_by_node p))"
    and "r_desc x < 2 ^ 32"
  using node_invD(3) [OF assms] by (auto simp: ref_ok_def)

lemma zero_delta: "(\<lambda>_. 0 :: 32 word)(a := 0) = (\<lambda>_. 0)" "(f(a := (c :: 32 word)))(a := f a) = f"
  by (simp_all add: fun_eq_iff)

text \<open>What happens to the counts of a reference.\<close>

definition counted :: "addr \<Rightarrow> bool \<Rightarrow> 32 word \<Rightarrow> binder_ref \<Rightarrow> driver \<Rightarrow> driver \<Rightarrow> bool" where
  "counted ref strong k r s s' \<longleftrightarrow>
     refs s' = (refs s)(ref \<mapsto> (if strong then r\<lparr>r_strong := r_strong r + k\<rparr> else r\<lparr>r_weak := r_weak r + k\<rparr>))"

text \<open>The strong count of a reference must not wrap to \<open>0\<close> either.\<close>

definition may_count :: "binder_ref \<Rightarrow> bool \<Rightarrow> bool" where
  "may_count r strong \<longleftrightarrow> (strong \<longrightarrow> r_strong r + 1 \<noteq> 0)"

lemma inc_ref_ok:
  assumes inv: "refs_inv s" and r: "refs s ref = Some r" and tg: "work_target s target" and may: "may_count r strong"
  obtains ret s' where "binder_inc_ref ref strong target s = Some (ret, s')" and "refs_inv s'"
    and "ret = 0 \<and> counted ref strong 1 r s s' \<or> ret = - EINVAL \<and> refs s' = refs s"
    and "target \<noteq> None \<Longrightarrow> ret = 0" and "procs s' = procs s" and "threads s' = threads s"
proof -
  have ni: "node_inv (\<lambda>_. 0) {} s" using inv by (simp add: refs_inv_def)
  obtain n p where n: "nodes s (r_node r) = Some n" "ref \<in> set (n_refs n)"
    by (rule ref_okE [OF ni r]) auto
  define r' where "r' = (if strong then r\<lparr>r_strong := r_strong r + 1\<rparr> else r\<lparr>r_weak := r_weak r + 1\<rparr>)"
  have f: "r_proc r' = r_proc r" "r_node r' = r_node r" "r_desc r' = r_desc r" "r_death r' = r_death r"
    by (simp_all add: r'_def)
  show thesis
  proof (cases "if strong then r_strong r = 0 else r_weak r = 0")
    case False
    have code: "binder_inc_ref ref strong target s = Some (0, set_ref ref r' s)"
      using r False by (simp add: binder_inc_ref_def r'_def)
    have "strongly r - strongly r' = 0" using False may by (auto simp: strongly_def r'_def may_count_def)
    then have "refs_inv (set_ref ref r' s)"
      using node_inv_set_ref [OF ni r n f] by (simp add: refs_inv_def zero_delta)
    then show thesis using code by (intro that [of 0 "set_ref ref r' s"]) (simp_all add: counted_def set_ref_def r'_def)
  next
    case True
    obtain ret s1 where i: "binder_inc_node (r_node r) strong True target s = Some (ret, s1)"
      "ret = 0 \<or> ret = - EINVAL"
      "node_inv ((\<lambda>_. 0)(r_node r := 0 + (if ret = 0 then delta strong True else 0))) {} s1"
      "node_changed s (r_node r) n s1" "target \<noteq> None \<Longrightarrow> ret = 0"
      by (rule inc_node_ok [OF ni n(1) tg, of strong True]) (auto simp: may_inc_def intro: that)
    have keep: "refs s1 = refs s" "procs s1 = procs s" "threads s1 = threads s"
      using i(4) by (simp_all add: node_changed_def same_objects_def)
    obtain n1 where n1: "nodes s1 (r_node r) = Some n1" "n_refs n1 = n_refs n"
      using i(4) by (auto simp: node_changed_def)
    show thesis
    proof (cases "ret = 0")
      case False
      then have "binder_inc_ref ref strong target s = Some (ret, s1)"
        using r \<open>if strong then _ else _\<close> i(1) by (simp add: binder_inc_ref_def)
      moreover have "refs_inv s1" using i(3) False by (simp add: refs_inv_def zero_delta)
      ultimately show thesis using that False i(2,5) keep by auto
    next
      case ret: True
      have code: "binder_inc_ref ref strong target s = Some (0, set_ref ref r' s1)"
        using r True i(1) ret by (simp add: binder_inc_ref_def r'_def)
      have r1: "refs s1 ref = Some r" using r keep by simp
      have st: "delta strong True + strongly r - strongly r' = 0"
        using True by (auto simp: strongly_def delta_def r'_def)
      have "node_inv (\<lambda>_. 0) {} (set_ref ref r' s1)"
        using node_inv_set_ref [OF i(3) r1 n1(1) _ f] n n1 st ret by (simp add: zero_delta)
      then show thesis using code keep by (intro that [of 0 "set_ref ref r' s1"]) (simp_all add: refs_inv_def counted_def set_ref_def r'_def)
    qed
  qed
qed

section \<open>Destroying a reference\<close>

text \<open>Erasing a reference from the trees of its process.\<close>

lemma node_inv_unlink_ref:
  assumes K: "kern_ok K" and inv: "node_inv dl {} s" and r: "refs s ref = Some x" and p: "procs s (r_proc x) = Some p"
    and s1: "s1 = set_proc (r_proc x) (p\<lparr>pr_refs_by_desc := rb_erase K ref (pr_refs_by_desc p),
                                       pr_refs_by_node := rb_erase K ref (pr_refs_by_node p)\<rparr>) s"
  shows "node_inv dl {ref} s1"
    and "\<And>pa q. procs s1 pa = Some q \<Longrightarrow> ref \<notin> set (inorder (pr_refs_by_desc q)) \<and> ref \<notin> set (inorder (pr_refs_by_node q))"
proof -
  let ?p' = "p\<lparr>pr_refs_by_desc := rb_erase K ref (pr_refs_by_desc p), pr_refs_by_node := rb_erase K ref (pr_refs_by_node p)\<rparr>"
  have eq: "refs s1 = refs s" "nodes s1 = nodes s" "deaths s1 = deaths s" "live s1 = live s" "items s1 = items s"
    "link_of s1 = link_of s" "binder_dead_nodes s1 = binder_dead_nodes s" "threads s1 = threads s"
    "transactions s1 = transactions s" "obj_created s1 = obj_created s" "obj_deleted s1 = obj_deleted s"
    "procs s1 = (procs s)(r_proc x \<mapsto> ?p')"
    by (simp_all add: s1 set_proc_def)
  have pok: "proc_ok s (r_proc x) p" by (rule node_invD(4) [OF inv p])
  have dist: "distinct (inorder (pr_refs_by_desc p))" "distinct (inorder (pr_refs_by_node p))"
    using pok by (simp_all add: proc_ok_def keyed_def keys_of_def strict_sorted_iff distinct_map)
  have ino: "inorder (pr_refs_by_desc ?p') = remove1 ref (inorder (pr_refs_by_desc p))"
    "inorder (pr_refs_by_node ?p') = remove1 ref (inorder (pr_refs_by_node p))"
    using K dist by simp_all
  have keys: "desc_key s1 = desc_key s" "ref_node_key s1 = ref_node_key s" "node_key s1 = node_key s"
    by (simp_all add: desc_key_def ref_node_key_def node_key_def eq fun_eq_iff)
  have ll: "list_live l s1 = list_live l s" for l using p by (cases l) (simp_all add: eq)
  show "node_inv dl {ref} s1"
  proof (rule node_invI)
    have "mem_ok s1" using inv p by (simp add: node_inv_def base_ok_def mem_ok_def eq)
    then show "base_ok s1" using inv by (simp add: node_inv_def base_ok_def stats_ok_def links_ok_def eq ll)
    have ow: "owner_ok s1 m po = owner_ok s m po" for m po
      using p by (auto simp: owner_ok_def eq split: option.split)
    show "node_ok dl s1 m y" if m: "nodes s1 m = Some y" for m y
      using node_invD(2) [OF inv, of m y] m count_strong_cong [OF eq(1)] by (simp add: node_ok_def eq ow)
    show "ref_ok s1 a y" if "refs s1 a = Some y" "a \<notin> {ref}" for a y
    proof -
      have "ref_ok s a y" using node_invD(3) [OF inv, of a y] that eq by simp
      then show ?thesis using that p dist ino by (auto simp: ref_ok_def eq)
    qed
    show "proc_ok s1 pa q" if q: "procs s1 pa = Some q" for pa q
    proof (cases "pa = r_proc x")
      case True
      then have q': "q = ?p'" using q by (simp add: eq)
      have "keyed (desc_key s) (pr_refs_by_desc ?p')" "keyed (ref_node_key s) (pr_refs_by_node ?p')"
        by (rule keyed_remove1 [OF _ ino(1)], use pok in \<open>simp add: proc_ok_def\<close>)
          (rule keyed_remove1 [OF _ ino(2)], use pok in \<open>simp add: proc_ok_def\<close>)
      then show ?thesis unfolding q' True using pok dist ino by (auto simp: proc_ok_def eq keys)
    next
      case False
      then show ?thesis using q node_invD(4) [OF inv, of pa q] by (simp add: proc_ok_def eq keys)
    qed
    show "dead_ok s1" using node_invD(5) [OF inv] by (simp add: dead_ok_def eq)
    show "deaths_ok s1" using node_invD(6) [OF inv] by (simp add: deaths_ok_def eq)
  qed
  fix pa q assume q: "procs s1 pa = Some q"
  show "ref \<notin> set (inorder (pr_refs_by_desc q)) \<and> ref \<notin> set (inorder (pr_refs_by_node q))"
  proof (cases "pa = r_proc x")
    case True
    then show ?thesis using q dist ino by (simp add: eq)
  next
    case False
    then show ?thesis using q node_invD(4) [OF inv, of pa q] r by (auto simp: proc_ok_def eq ball_Un)
  qed
qed

text \<open>Taking it off the list of its node.\<close>

lemma node_inv_hlist_del:
  assumes inv: "node_inv dl {ref} s" and r: "refs s ref = Some x" and n: "nodes s (r_node x) = Some n" "ref \<in> set (n_refs n)"
  shows "node_inv (dl(r_node x := dl (r_node x) + strongly x)) {ref} (set_node (r_node x) (n\<lparr>n_refs := remove1 ref (n_refs n)\<rparr>) s)"
    (is "node_inv ?dl _ ?s")
proof (rule node_invI)
  let ?n' = "n\<lparr>n_refs := remove1 ref (n_refs n)\<rparr>"
  have eq: "refs ?s = refs s" "procs ?s = procs s" "deaths ?s = deaths s" "live ?s = live s" "items ?s = items s"
    "link_of ?s = link_of s" "binder_dead_nodes ?s = binder_dead_nodes s" "threads ?s = threads s"
    "transactions ?s = transactions s" "obj_created ?s = obj_created s" "obj_deleted ?s = obj_deleted s"
    "nodes ?s = (nodes s)(r_node x \<mapsto> ?n')"
    by (simp_all add: set_node_def)
  have nok: "node_ok dl s (r_node x) n" by (rule node_invD(2) [OF inv n(1)])
  have keys: "desc_key ?s = desc_key s" "ref_node_key ?s = ref_node_key s" "node_key ?s = node_key s"
    using n(1) by (auto simp: desc_key_def ref_node_key_def node_key_def eq fun_eq_iff)
  have ll: "list_live l ?s = list_live l s" for l using n(1) by (cases l) (auto simp: eq)
  have "mem_ok ?s" using inv n(1) by (simp add: node_inv_def base_ok_def mem_ok_def eq)
  then show "base_ok ?s" using inv by (simp add: node_inv_def base_ok_def stats_ok_def links_ok_def eq ll)
  have cs: "count_strong ?s = count_strong s" by (rule count_strong_cong) (simp add: eq)
  have "strong_ref s ref \<longleftrightarrow> strongly x = 1" using r by (simp add: strong_ref_def strongly_def)
  then have cnt: "(of_nat (count_strong s (n_refs n)) :: 32 word) = of_nat (count_strong s (remove1 ref (n_refs n))) + strongly x"
    using n(2) count_remove1 [of ref "n_refs n" "strong_ref s", symmetric] count_remove1_other [of "strong_ref s" ref "n_refs n"]
    by (cases "strong_ref s ref") (auto simp: count_strong_def strongly_def split: if_splits)
  show "node_ok ?dl ?s m y" if m: "nodes ?s m = Some y" for m y
  proof (cases "m = r_node x")
    case True
    then show ?thesis using m nok cnt
      by (auto simp: node_ok_def eq cs owner_cong [OF eq(2,7)] dest: notin_set_remove1)
  next
    case False
    then show ?thesis using m node_invD(2) [OF inv, of m y] by (simp add: node_ok_def eq cs owner_cong [OF eq(2,7)])
  qed
  show "ref_ok ?s a y" if "refs ?s a = Some y" "a \<notin> {ref}" for a y
    using node_invD(3) [OF inv, of a y] that n by (auto simp: ref_ok_def eq)
  show "proc_ok ?s pa q" if q: "procs ?s pa = Some q" for pa q
    using node_invD(4) [OF inv, of pa q] q n(1) by (auto simp: proc_ok_def eq keys)
  show "dead_ok ?s" using node_invD(5) [OF inv] n(1) by (auto simp: dead_ok_def eq)
  show "deaths_ok ?s" using node_invD(6) [OF inv] by (simp add: deaths_ok_def eq)
qed

text \<open>
  The end of \<open>binder_delete_ref\<close>: the reference is in no tree and on no list any more, and it
  is freed together with its death notification.
\<close>

definition free_ref_tail :: "addr \<Rightarrow> addr option \<Rightarrow> driver \<Rightarrow> driver option" where
  "free_ref_tail ref death s =
     do {
       s5 \<leftarrow> free_ref_death death s;
       s6 \<leftarrow> kfree BINDER_STAT_REF ref s5;
       Some (binder_stats_deleted BINDER_STAT_REF (s6\<lparr>refs := (refs s6)(ref := None)\<rparr>))
     }"

definition gone :: "driver \<Rightarrow> addr \<Rightarrow> driver \<Rightarrow> bool" where
  "gone s ref s' \<longleftrightarrow> refs s' = (refs s)(ref := None) \<and> nodes s' = nodes s \<and> procs s' = procs s \<and>
     threads s' = threads s \<and> transactions s' = transactions s \<and>
     binder_context_mgr_node s' = binder_context_mgr_node s"

lemma node_inv_drop_ref:
  assumes inv: "node_inv dl {ref} s" and r: "refs s ref = Some x"
    and trees: "\<And>pa q. procs s pa = Some q \<Longrightarrow> ref \<notin> set (inorder (pr_refs_by_desc q)) \<and> ref \<notin> set (inorder (pr_refs_by_node q))"
    and lists: "\<And>na n. nodes s na = Some n \<Longrightarrow> ref \<notin> set (n_refs n)"
    and g: "gone s ref s'" "binder_dead_nodes s' = binder_dead_nodes s" and base: "base_ok s'"
    and de: "deaths s' = (\<lambda>d. if r_death x = Some d then None else deaths s d)"
    and lk: "\<And>w. link_of s w \<noteq> Wild \<Longrightarrow> (\<And>d. r_death x = Some d \<Longrightarrow> w \<noteq> W_Death d) \<Longrightarrow> link_of s' w \<noteq> Wild"
    and async: "\<And>m. items s' (L_Async m) \<noteq> [] \<Longrightarrow> items s (L_Async m) \<noteq> []"
  shows "node_inv dl {} s'"
proof (rule node_invI)
  have eq: "refs s' = (refs s)(ref := None)" "nodes s' = nodes s" "procs s' = procs s"
    using g by (simp_all add: gone_def)
  show "base_ok s'" by (rule base)
  show "node_ok dl s' m y" if m: "nodes s' m = Some y" for m y
  proof -
    have "ref \<notin> set (n_refs y)" using lists m eq by simp
    then have "count_strong s' (n_refs y) = count_strong s (n_refs y)"
      unfolding count_strong_def by (intro arg_cong [where f = length] filter_cong) (auto simp: strong_ref_def eq)
    then show ?thesis
      using node_invD(2) [OF inv, of m y] m \<open>ref \<notin> set (n_refs y)\<close> lk [of "W_Node m"] async [of m]
      by (auto simp: node_ok_def eq owner_cong [OF eq(3) g(2)])
  qed
  show "ref_ok s' a y" if "refs s' a = Some y" "a \<notin> {}" for a y
    using node_invD(3) [OF inv, of a y] that by (simp add: ref_ok_def eq split: if_splits)
  show "proc_ok s' pa q" if q: "procs s' pa = Some q" for pa q
  proof -
    have no: "ref \<notin> set (inorder (pr_refs_by_desc q))" "ref \<notin> set (inorder (pr_refs_by_node q))"
      using trees [of pa q] q eq by simp_all
    have "keyed (desc_key s') (pr_refs_by_desc q) = keyed (desc_key s) (pr_refs_by_desc q)"
      by (rule keyed_cong) (use no in \<open>auto simp: desc_key_def eq\<close>)
    moreover have "keyed (ref_node_key s') (pr_refs_by_node q) = keyed (ref_node_key s) (pr_refs_by_node q)"
      by (rule keyed_cong) (use no in \<open>auto simp: ref_node_key_def eq\<close>)
    moreover have "node_key s' = node_key s" by (simp add: node_key_def eq fun_eq_iff)
    ultimately show ?thesis using node_invD(4) [OF inv, of pa q] q no by (auto simp: proc_ok_def eq)
  qed
  show "dead_ok s'" using node_invD(5) [OF inv] by (simp add: dead_ok_def eq g)
  have dk: "deaths_ok s" by (rule node_invD(6) [OF inv])
  show "deaths_ok s'"
    unfolding deaths_ok_def
  proof (intro conjI allI impI)
    fix a y d assume a: "refs s' a = Some y" "r_death y = Some d"
    then have s: "refs s a = Some y" "a \<noteq> ref" by (auto simp: eq split: if_splits)
    then have "r_death x \<noteq> Some d" using dk a r unfolding deaths_ok_def by blast
    then show "deaths s' d \<noteq> None" "link_of s' (W_Death d) \<noteq> Wild"
      using dk s a lk [of "W_Death d"] by (auto simp: deaths_ok_def de)
  next
    fix a y a' y' d assume "refs s' a = Some y" "refs s' a' = Some y'" "r_death y = Some d" "r_death y' = Some d"
    then show "a = a'" using dk by (auto simp: deaths_ok_def eq split: if_splits)
  qed
qed

lemma free_ref_tail_ok:
  assumes inv: "node_inv dl {ref} s" and r: "refs s ref = Some x"
    and trees: "\<And>pa q. procs s pa = Some q \<Longrightarrow> ref \<notin> set (inorder (pr_refs_by_desc q)) \<and> ref \<notin> set (inorder (pr_refs_by_node q))"
    and lists: "\<And>na n. nodes s na = Some n \<Longrightarrow> ref \<notin> set (n_refs n)"
  obtains s' where "free_ref_tail ref (r_death x) s = Some s'" and "node_inv dl {} s'" and "gone s ref s'"
proof -
  have mem: "mem_ok s" and sto: "stats_ok s" and lko: "links_ok s" using inv by (simp_all add: node_inv_def base_ok_def)
  have rl: "(BINDER_STAT_REF, ref) \<in> set (live s)" using mem r by (simp add: mem_ok_def)
  show thesis
  proof (cases "r_death x")
    case None
    let ?s' = "binder_stats_deleted BINDER_STAT_REF (s\<lparr>live := remove1 (BINDER_STAT_REF, ref) (live s), refs := (refs s)(ref := None)\<rparr>)"
    have code: "free_ref_tail ref (r_death x) s = Some ?s'"
      using None rl by (simp add: free_ref_tail_def free_ref_death_def kfree_def)
    have g: "gone s ref ?s'" by (simp add: gone_def binder_stats_deleted_def)
    have "stats_ok ?s'" by (rule stats_delete [OF sto rl]) (simp_all add: binder_stats_deleted_def)
    moreover have "mem_ok ?s'" using mem by (simp add: mem_ok_def binder_stats_deleted_def)
    moreover have "links_ok ?s'"
      by (rule links_cong [OF _ _ _ lko]) (simp_all add: binder_stats_deleted_def, case_tac l, simp_all)
    ultimately have "base_ok ?s'" by (simp add: base_ok_def)
    from node_inv_drop_ref [OF inv r trees lists g _ this] have "node_inv dl {} ?s'"
      using None by (simp add: binder_stats_deleted_def)
    then show thesis using code g that by simp
  next
    case (Some d)
    have d: "deaths s d \<noteq> None" "link_of s (W_Death d) \<noteq> Wild"
      using node_invD(6) [OF inv] r Some by (auto simp: deaths_ok_def)
    have dl: "(BINDER_STAT_DEATH, d) \<in> set (live s)" using mem d by (simp add: mem_ok_def)
    obtain it where u: "list_del (W_Death d) s = Some (s\<lparr>items := it, link_of := (link_of s)(W_Death d := Wild)\<rparr>)"
      "links_ok (s\<lparr>items := it, link_of := (link_of s)(W_Death d := Wild)\<rparr>)"
      "\<And>l. it l = remove1 (W_Death d) (items s l)"
      by (rule unlink_ok [OF lko d(2), of Wild]) (use that in \<open>auto simp: list_del_def\<close>)
    let ?s1 = "s\<lparr>items := it, link_of := (link_of s)(W_Death d := Wild)\<rparr>"
    let ?s2 = "binder_stats_deleted BINDER_STAT_DEATH (?s1\<lparr>live := remove1 (BINDER_STAT_DEATH, d) (live s), deaths := (deaths s)(d := None)\<rparr>)"
    let ?s' = "binder_stats_deleted BINDER_STAT_REF (?s2\<lparr>live := remove1 (BINDER_STAT_REF, ref) (live ?s2), refs := (refs s)(ref := None)\<rparr>)"
    have c1: "free_ref_death (Some d) s = Some ?s2"
      using u(1) dl by (simp add: free_ref_death_def kfree_def)
    have rl2: "(BINDER_STAT_REF, ref) \<in> set (live ?s2)" using rl by (simp add: binder_stats_deleted_def)
    have code: "free_ref_tail ref (r_death x) s = Some ?s'"
      unfolding free_ref_tail_def Some c1 bind.bind_lunit using rl2 by (simp add: kfree_def binder_stats_deleted_def)
    have g: "gone s ref ?s'" by (simp add: gone_def binder_stats_deleted_def)
    have "stats_ok ?s2"
      by (rule stats_delete [OF sto dl]) (simp_all add: binder_stats_deleted_def)
    then have "stats_ok ?s'" by (rule stats_delete [OF _ rl2]) (simp_all add: binder_stats_deleted_def)
    moreover have "mem_ok ?s'" using mem by (simp add: mem_ok_def binder_stats_deleted_def)
    moreover have "links_ok ?s'"
      by (rule links_cong [OF _ _ _ u(2)]) (simp_all add: binder_stats_deleted_def, case_tac l, simp_all)
    ultimately have base: "base_ok ?s'" by (simp add: base_ok_def)
    have "node_inv dl {} ?s'"
    proof (rule node_inv_drop_ref [OF inv r trees lists g _ base])
      show "items s (L_Async m) \<noteq> []" if "items ?s' (L_Async m) \<noteq> []" for m
        using that u(3) [of "L_Async m"] by (auto simp: binder_stats_deleted_def)
    qed (auto simp: binder_stats_deleted_def Some fun_eq_iff)
    then show thesis using code g that by simp
  qed
qed

text \<open>Which fields of the processes and which other objects a destroyed reference touches.\<close>

lemma delete_ref_ok:
  assumes K: "kern_ok K" and inv: "node_inv dl {} s" and r: "refs s ref = Some x"
    and dl: "dl (r_node x) = 0"
  obtains s' where "binder_delete_ref K ref s = Some s'" and "node_inv dl {} s'"
    and "refs s' = (refs s)(ref := None)" and "threads s' = threads s"
    and "\<And>m. m \<noteq> r_node x \<Longrightarrow> nodes s' m = nodes s m"
proof -
  obtain n p where n: "nodes s (r_node x) = Some n" "ref \<in> set (n_refs n)" and p: "procs s (r_proc x) = Some p"
    by (rule ref_okE [OF inv r]) auto
  define s1 where "s1 = set_proc (r_proc x) (p\<lparr>pr_refs_by_desc := rb_erase K ref (pr_refs_by_desc p),
                                       pr_refs_by_node := rb_erase K ref (pr_refs_by_node p)\<rparr>) s"
  note U = node_inv_unlink_ref [OF K inv r p s1_def]
  have k1: "refs s1 = refs s" "nodes s1 = nodes s" "threads s1 = threads s" by (simp_all add: s1_def set_proc_def)
  have n1: "nodes s1 (r_node x) = Some n" using n k1 by simp
  obtain s2 n2 where s2: "(if r_strong x \<noteq> 0 then map_option snd (binder_dec_node K (r_node x) True True s1) else Some s1) = Some s2"
    and i2: "node_inv (dl(r_node x := dl (r_node x) - strongly x)) {ref} s2" and k2: "settled s1 (r_node x) n s2"
    and n2: "nodes s2 (r_node x) = Some n2" "n_refs n2 = n_refs n"
  proof (cases "r_strong x \<noteq> 0")
    case True
    obtain t where t: "binder_dec_node K (r_node x) True True s1 = Some (0, t)"
      "node_inv (dl(r_node x := dl (r_node x) - delta True True)) {ref} t" "settled s1 (r_node x) n t"
      "n_refs n \<noteq> [] \<Longrightarrow> nodes t (r_node x) \<noteq> None"
      by (rule dec_node_ok [OF K U(1) n1, of True True]) (auto simp: may_dec_def intro: that)
    have "n_refs n \<noteq> []" using n(2) by auto
    then obtain n2 where "nodes t (r_node x) = Some n2" using t(4) by auto
    then show thesis using that [of t n2] t True by (simp add: strongly_def settled_def)
  next
    case False
    then have "settled s1 (r_node x) n s1" using n1 by (simp add: settled_def)
    then show thesis using that [of s1 n] False U(1) n1 by (simp add: strongly_def zero_delta)
  qed
  have r2: "refs s2 ref = Some x" using k2 k1 r by (simp add: settled_def)
  let ?s3 = "set_node (r_node x) (n2\<lparr>n_refs := remove1 ref (n_refs n2)\<rparr>) s2"
  have i3: "node_inv dl {ref} ?s3"
    using node_inv_hlist_del [OF i2 r2 n2(1)] n2(2) n(2) by (simp add: fun_upd_idem)
  have n3: "nodes ?s3 (r_node x) = Some (n2\<lparr>n_refs := remove1 ref (n_refs n2)\<rparr>)" by (simp add: set_node_def)
  obtain s4 where s4: "binder_dec_node K (r_node x) False True ?s3 = Some (0, s4)"
    "node_inv (dl(r_node x := dl (r_node x) - delta False True)) {ref} s4"
    "settled ?s3 (r_node x) (n2\<lparr>n_refs := remove1 ref (n_refs n2)\<rparr>) s4"
    by (rule dec_node_ok [OF K i3 n3, of False True]) (auto simp: may_dec_def intro: that)
  have i4: "node_inv dl {ref} s4" using s4(2) by (simp add: zero_delta)
  have r4: "refs s4 ref = Some x" using s4(3) r2 by (simp add: settled_def set_node_def)
  have "procs_kept s1 s2" "procs_kept ?s3 s4" using k2 s4(3) by (simp_all add: settled_def)
  moreover have "procs_kept s2 ?s3" by (rule procs_kept_refl) (simp add: set_node_def)
  ultimately have pk: "procs_kept s1 s4" using procs_kept_trans by blast
  show thesis
  proof (rule free_ref_tail_ok [OF i4 r4])
    show "ref \<notin> set (inorder (pr_refs_by_desc q)) \<and> ref \<notin> set (inorder (pr_refs_by_node q))"
      if q: "procs s4 pa = Some q" for pa q
      by (rule procs_kept_refs [OF pk q]) (use U(2) in auto)
    show "ref \<notin> set (n_refs y)" if y: "nodes s4 m = Some y" for m y
    proof (cases "m = r_node x")
      case True
      have "n_refs y = remove1 ref (n_refs n2)" using s4(3) y True by (simp add: settled_def)
      moreover have "distinct (n_refs n2)" using node_invD(2) [OF i2 n2(1)] by (simp add: node_ok_def)
      ultimately show ?thesis by simp
    next
      case False
      then show ?thesis using node_invD(2) [OF i4 y] r4 by (auto simp: node_ok_def)
    qed
    fix s' assume t: "free_ref_tail ref (r_death x) s4 = Some s'" "node_inv dl {} s'" "gone s4 ref s'"
    have "binder_delete_ref K ref s = free_ref_tail ref (r_death x) s4"
      unfolding binder_delete_ref_def r bind.bind_lunit n p Let_def s1_def [symmetric] s2 n2(1) s4(1)
      by (simp add: free_ref_tail_def s4(1))
    then show thesis
      using that [of s'] t s4(3) k2 k1 by (simp add: gone_def settled_def set_node_def)
  qed
qed

text \<open>
  The creation of references: a descriptor is the smallest number that no reference of the
  process has, and the insertion loops never meet a descriptor twice.
\<close>

section \<open>Descriptors\<close>

lemma next_desc_ge: "\<forall>x \<in> set xs. x < 2 ^ 32 \<Longrightarrow> sorted_wrt (<) xs \<Longrightarrow> d + length xs < 2 ^ 32 \<Longrightarrow>
    (\<forall>x \<in> set xs. d \<le> Suc x) \<Longrightarrow> d \<le> next_desc d xs"
proof (induction xs arbitrary: d)
  case (Cons x xs)
  show ?case
  proof (cases "d < x")
    case False
    then have x: "(x + 1) mod 2 ^ 32 = Suc x" using Cons.prems(3) by simp
    have "Suc x \<le> next_desc (Suc x) xs"
      by (rule Cons.IH) (use Cons.prems False in auto)
    then show ?thesis using False x Cons.prems(4) by simp
  qed simp
qed simp

text \<open>The loop finds the smallest free number that is not below its start value.\<close>

lemma next_desc_least:
  "\<forall>x \<in> set xs. x < 2 ^ 32 \<Longrightarrow> sorted_wrt (<) xs \<Longrightarrow> d + length xs < 2 ^ 32 \<Longrightarrow>
     (\<forall>x \<in> set xs. d \<le> Suc x) \<Longrightarrow>
     next_desc d xs \<notin> set xs \<and> next_desc d xs < 2 ^ 32 \<and> (\<forall>e. d \<le> e \<and> e < next_desc d xs \<longrightarrow> e \<in> set xs)"
proof (induction xs arbitrary: d)
  case (Cons x xs)
  show ?case
  proof (cases "d < x")
    case True
    then show ?thesis using Cons.prems by auto
  next
    case False
    then have x: "(x + 1) mod 2 ^ 32 = Suc x" using Cons.prems(3) by simp
    have p: "\<forall>y \<in> set xs. y < 2 ^ 32" "sorted_wrt (<) xs" "Suc x + length xs < 2 ^ 32" "\<forall>y \<in> set xs. Suc x \<le> Suc y"
      using Cons.prems False by auto
    note ih = Cons.IH [OF p] and ge = next_desc_ge [OF p]
    have "e \<in> set (x # xs)" if "d \<le> e" "e < next_desc (Suc x) xs" for e
      using ih that False by (cases "e = x") auto
    then show ?thesis using ih ge False x by auto
  qed
qed simp

definition descs_of :: "driver \<Rightarrow> binder_proc \<Rightarrow> nat list" where
  "descs_of s p = map (\<lambda>r. the (desc_key s r)) (inorder (pr_refs_by_desc p))"

lemma descs_of_ok:
  assumes inv: "node_inv dl {} s" and p: "procs s pa = Some p"
  shows "sorted_wrt (<) (descs_of s p)" and "\<forall>x \<in> set (descs_of s p). x < 2 ^ 32"
    and "\<And>r x. r \<in> set (inorder (pr_refs_by_desc p)) \<Longrightarrow> refs s r = Some x \<Longrightarrow> r_desc x \<in> set (descs_of s p)"
proof -
  have pok: "proc_ok s pa p" by (rule node_invD(4) [OF inv p])
  then show "sorted_wrt (<) (descs_of s p)" by (simp add: proc_ok_def keyed_def keys_of_def descs_of_def)
  show "\<forall>x \<in> set (descs_of s p). x < 2 ^ 32"
  proof
    fix d assume "d \<in> set (descs_of s p)"
    then obtain r where r: "r \<in> set (inorder (pr_refs_by_desc p))" "d = the (desc_key s r)" by (auto simp: descs_of_def)
    then obtain x where "refs s r = Some x" using pok by (auto simp: proc_ok_def ball_Un)
    then show "d < 2 ^ 32" using node_invD(3) [OF inv, of r x] r by (simp add: ref_ok_def desc_key_def)
  qed
  show "r_desc x \<in> set (descs_of s p)" if "r \<in> set (inorder (pr_refs_by_desc p))" "refs s r = Some x" for r x
    using that by (force simp: descs_of_def desc_key_def)
qed

section \<open>A new reference\<close>

text \<open>The state after a reference with the address \<open>new\<close> was created and linked.\<close>

lemma node_inv_new_ref:
  assumes inv: "node_inv dl {} s" and p: "procs s proc = Some p" and n: "nodes s node = Some n"
    and fresh: "\<And>ty. (ty, new) \<notin> set (live s)"
    and x: "r_proc x = proc" "r_node x = node" "r_strong x = 0" "r_weak x = 0" "r_death x = None" "r_desc x < 2 ^ 32"
    and td: "inorder (pr_refs_by_desc p) = us @ vs" "inorder td = us @ new # vs"
      "\<forall>a \<in> set us. the (desc_key s a) < r_desc x" "\<forall>a \<in> set vs. r_desc x < the (desc_key s a)"
    and tn: "inorder (pr_refs_by_node p) = us' @ vs'" "inorder tn = us' @ new # vs'"
      "\<forall>a \<in> set us'. the (ref_node_key s a) < node" "\<forall>a \<in> set vs'. node < the (ref_node_key s a)"
    and s': "procs s' = (procs s)(proc \<mapsto> p\<lparr>pr_refs_by_node := tn, pr_refs_by_desc := td\<rparr>)"
      "refs s' = (refs s)(new \<mapsto> x)" "nodes s' = (nodes s)(node \<mapsto> n\<lparr>n_refs := new # n_refs n\<rparr>)"
      "live s' = (BINDER_STAT_REF, new) # live s" "obj_created s' = (obj_created s)(BINDER_STAT_REF := obj_created s BINDER_STAT_REF + 1)"
      "obj_deleted s' = obj_deleted s" "deaths s' = deaths s" "threads s' = threads s" "transactions s' = transactions s"
      "items s' = items s" "link_of s' = link_of s" "binder_dead_nodes s' = binder_dead_nodes s"
  shows "node_inv dl {} s'"
proof (rule node_invI)
  have mem: "mem_ok s" using inv by (simp add: node_inv_def base_ok_def)
  have none: "refs s new = None" using mem fresh [of BINDER_STAT_REF] by (simp add: mem_ok_def)
  have pok: "proc_ok s proc p" by (rule node_invD(4) [OF inv p])
  have nt: "new \<notin> set (inorder (pr_refs_by_desc q))" "new \<notin> set (inorder (pr_refs_by_node q))" if "procs s pa = Some q" for pa q
    using node_invD(4) [OF inv that] none by (auto simp: proc_ok_def ball_Un)
  have nl: "new \<notin> set (n_refs y)" if "nodes s m = Some y" for m y
    using node_invD(2) [OF inv that] none by (auto simp: node_ok_def)
  have "mem_ok s'" using mem fresh p n by (simp add: mem_ok_def s')
  moreover have "stats_ok s'" using inv by (intro stats_create [OF _ s'(4,5,6)]) (simp add: node_inv_def base_ok_def)
  moreover have "list_live l s' = list_live l s" for l using p n by (cases l) (auto simp: s')
  then have "links_ok s'" using inv by (simp add: node_inv_def base_ok_def links_ok_def s')
  ultimately show "base_ok s'" by (simp add: base_ok_def)
  have cs: "count_strong s' rs = count_strong s rs" if "new \<notin> set rs" for rs
    unfolding count_strong_def by (intro arg_cong [where f = length] filter_cong) (use that in \<open>auto simp: strong_ref_def s'\<close>)
  have ow: "owner_ok s' m po = owner_ok s m po" for m po
    using p by (auto simp: owner_ok_def s' split: option.split)
  show "node_ok dl s' m y" if m: "nodes s' m = Some y" for m y
  proof (cases "m = node")
    case True
    have "node_ok dl s node n" by (rule node_invD(2) [OF inv n])
    moreover have "y = n\<lparr>n_refs := new # n_refs n\<rparr>" using m True by (simp add: s')
    moreover have "count_strong s' (new # n_refs n) = count_strong s (n_refs n)"
      using cs [OF nl [OF n]] x by (simp add: count_strong_Cons strong_ref_def s')
    ultimately show ?thesis using nl [OF n] x True by (auto simp: node_ok_def ow s')
  next
    case False
    then have y: "nodes s m = Some y" using m by (simp add: s')
    then show ?thesis using node_invD(2) [OF inv y] nl [OF y] cs [OF nl [OF y]] by (auto simp: node_ok_def ow s')
  qed
  show "ref_ok s' a y" if a: "refs s' a = Some y" "a \<notin> {}" for a y
  proof (cases "a = new")
    case True
    then show ?thesis using a x td tn by (auto simp: ref_ok_def s')
  next
    case False
    then have "ref_ok s a y" using a node_invD(3) [OF inv, of a y] by (simp add: s')
    then show ?thesis using n p td tn by (auto simp: ref_ok_def s')
  qed
  show "proc_ok s' pa q" if q: "procs s' pa = Some q" for pa q
  proof (cases "pa = proc")
    case False
    then have q': "procs s pa = Some q" using q by (simp add: s')
    have "keyed (desc_key s') (pr_refs_by_desc q) = keyed (desc_key s) (pr_refs_by_desc q)"
      by (rule keyed_cong) (use nt [OF q'] in \<open>auto simp: desc_key_def s'\<close>)
    moreover have "keyed (ref_node_key s') (pr_refs_by_node q) = keyed (ref_node_key s) (pr_refs_by_node q)"
      by (rule keyed_cong) (use nt [OF q'] in \<open>auto simp: ref_node_key_def s'\<close>)
    moreover have "node_key s' = node_key s" using n by (auto simp: node_key_def s' fun_eq_iff)
    ultimately show ?thesis using node_invD(4) [OF inv q'] nt [OF q'] n by (auto simp: proc_ok_def ball_Un s')
  next
    case True
    then have q': "q = p\<lparr>pr_refs_by_node := tn, pr_refs_by_desc := td\<rparr>" using q by (simp add: s')
    have kd: "desc_key s' = (desc_key s)(new \<mapsto> r_desc x)" by (auto simp: desc_key_def s' fun_eq_iff)
    have kn: "ref_node_key s' = (ref_node_key s)(new \<mapsto> node)" using x by (auto simp: ref_node_key_def s' fun_eq_iff)
    have nk: "node_key s' = node_key s" using n by (auto simp: node_key_def s' fun_eq_iff)
    have "keyed (desc_key s') (pr_refs_by_desc p) = keyed (desc_key s) (pr_refs_by_desc p)"
      by (rule keyed_cong) (use nt [OF p] in \<open>auto simp: kd\<close>)
    then have "keyed (desc_key s') td"
      using pok nt [OF p] td by (intro keyed_insert [OF _ td(1,2), of _ "r_desc x"]) (auto simp: proc_ok_def kd)
    moreover have "keyed (ref_node_key s') (pr_refs_by_node p) = keyed (ref_node_key s) (pr_refs_by_node p)"
      by (rule keyed_cong) (use nt [OF p] in \<open>auto simp: kn\<close>)
    then have "keyed (ref_node_key s') tn"
      using pok nt [OF p] tn by (intro keyed_insert [OF _ tn(1,2), of _ node]) (auto simp: proc_ok_def kn)
    ultimately show ?thesis using pok x n td tn True by (auto simp: proc_ok_def ball_Un q' nk s')
  qed
  show "dead_ok s'" using node_invD(5) [OF inv] n by (auto simp: dead_ok_def s')
  show "deaths_ok s'" using node_invD(6) [OF inv] x by (auto simp: deaths_ok_def s')
qed

text \<open>What \<open>binder_get_ref_for_node\<close> may return.\<close>

definition ref_result :: "kern \<Rightarrow> driver \<Rightarrow> addr \<Rightarrow> binder_proc \<Rightarrow> addr \<Rightarrow> addr option \<Rightarrow> driver \<Rightarrow> bool" where
  "ref_result K s proc p node res s' \<longleftrightarrow>
     (case res of
        None \<Rightarrow> s' = s\<lparr>ticks := Suc (ticks s)\<rparr> \<and> kzalloc K (ticks s) (map snd (live s)) = None
      | Some ref \<Rightarrow> \<exists>x. refs s' ref = Some x \<and> r_proc x = proc \<and> r_node x = node \<and>
          (if refs s ref = None
           then refs s' = (refs s)(ref \<mapsto> x) \<and> r_desc x = next_desc (first_desc s node) (descs_of s p)
                \<and> r_strong x = 0 \<and> r_weak x = 0
           else s' = s))"

lemma get_ref_for_node_ok:
  assumes K: "kern_ok K" and inv: "refs_inv s" and p: "procs s proc = Some p" and n: "nodes s node = Some n"
    and few: "length (inorder (pr_refs_by_desc p)) + 1 < 2 ^ 32"
  obtains res s' where "binder_get_ref_for_node K proc node s = Some (res, s')" and "refs_inv s'"
    and "ref_result K s proc p node res s'"
proof -
  have ni: "node_inv (\<lambda>_. 0) {} s" using inv by (simp add: refs_inv_def)
  have pok: "proc_ok s proc p" by (rule node_invD(4) [OF ni p])
  have kn: "keyed (ref_node_key s) (pr_refs_by_node p)" and kd: "keyed (desc_key s) (pr_refs_by_desc p)"
    using pok by (simp_all add: proc_ok_def)
  obtain found where f: "rb_search (key_dir (ref_node_key s) node) (pr_refs_by_node p) = Some found"
    using rb_search_total [OF kn] by blast
  show thesis
  proof (cases found)
    case (Some ref)
    then have ref: "ref \<in> set (inorder (pr_refs_by_node p))" "ref_node_key s ref = Some node"
      using rb_search_sound [of "ref_node_key s" node "pr_refs_by_node p" ref] f Some by simp_all
    then obtain x where x: "refs s ref = Some x" "r_proc x = proc" "r_node x = node"
      using pok by (auto simp: proc_ok_def ball_Un ref_node_key_def)
    have "binder_get_ref_for_node K proc node s = Some (Some ref, s)"
      using p f Some by (simp add: binder_get_ref_for_node_def)
    then show thesis by (rule that) (use inv x in \<open>simp_all add: ref_result_def\<close>)
  next
    case None
    then have no: "\<forall>a \<in> set (inorder (pr_refs_by_node p)). ref_node_key s a \<noteq> Some node"
      using rb_search_found [OF kn] f by auto
    show thesis
    proof (rule kmalloc_cases [OF K, of BINDER_STAT_REF s])
      assume k: "kmalloc K BINDER_STAT_REF s = (None, s\<lparr>ticks := Suc (ticks s)\<rparr>)"
      have "binder_get_ref_for_node K proc node s = Some (None, s\<lparr>ticks := Suc (ticks s)\<rparr>)"
        using p f None k by (simp add: binder_get_ref_for_node_def)
      moreover have "refs_inv (s\<lparr>ticks := Suc (ticks s)\<rparr>)"
      proof -
        have "list_live l (s\<lparr>ticks := Suc (ticks s)\<rparr>) = list_live l s" for l by (cases l) simp_all
        then have "links_ok (s\<lparr>ticks := Suc (ticks s)\<rparr>)"
          using ni by (simp add: node_inv_def base_ok_def links_ok_def)
        then show ?thesis
          unfolding refs_inv_def by (intro node_inv_links [OF ni]) (simp_all add: same_objects_def)
      qed
      moreover have "kzalloc K (ticks s) (map snd (live s)) = None"
        using k by (simp add: kmalloc_def split: option.splits)
      ultimately show thesis
        by (intro that [of None "s\<lparr>ticks := Suc (ticks s)\<rparr>"]) (simp_all add: ref_result_def)
    next
      fix new
      assume k: "kmalloc K BINDER_STAT_REF s = (Some new, s\<lparr>ticks := Suc (ticks s), live := (BINDER_STAT_REF, new) # live s\<rparr>)"
        and fresh: "\<And>ty'. (ty', new) \<notin> set (live s)"
      let ?s2 = "binder_stats_created BINDER_STAT_REF (s\<lparr>ticks := Suc (ticks s), live := (BINDER_STAT_REF, new) # live s\<rparr>)"
      let ?s3 = "?s2\<lparr>binder_last_id := Suc (binder_last_id ?s2)\<rparr>"
      let ?d = "next_desc (first_desc s node) (descs_of s p)"
      note D = descs_of_ok [OF ni p]
      have fd: "first_desc s node + length (descs_of s p) < 2 ^ 32" "\<forall>x \<in> set (descs_of s p). first_desc s node \<le> Suc x"
        using few by (auto simp: first_desc_def descs_of_def)
      have d: "?d \<notin> set (descs_of s p)" "?d < 2 ^ 32" using next_desc_least [OF D(2,1) fd] by auto
      have nod: "\<forall>a \<in> set (inorder (pr_refs_by_desc p)). desc_key s a \<noteq> Some ?d"
      proof
        fix a assume a: "a \<in> set (inorder (pr_refs_by_desc p))"
        then show "desc_key s a \<noteq> Some ?d" using D(3) [OF a] d(1) by (auto simp: desc_key_def)
      qed
      obtain tn us' vs' where tn: "rb_link (key_dir (ref_node_key s) node) new (pr_refs_by_node p) = Some (Some tn)"
        "inorder (pr_refs_by_node p) = us' @ vs'" "inorder tn = us' @ new # vs'"
        "\<forall>a \<in> set us'. the (ref_node_key s a) < node" "\<forall>a \<in> set vs'. node < the (ref_node_key s a)"
        by (rule rb_link_new [OF kn no])
      obtain td us vs where td: "rb_link (key_dir (desc_key s) ?d) new (pr_refs_by_desc p) = Some (Some td)"
        "inorder (pr_refs_by_desc p) = us @ vs" "inorder td = us @ new # vs"
        "\<forall>a \<in> set us. the (desc_key s a) < ?d" "\<forall>a \<in> set vs. ?d < the (desc_key s a)"
        by (rule rb_link_new [OF kd nod])
      let ?s4 = "set_proc proc (p\<lparr>pr_refs_by_node := rb_insert_color K new tn, pr_refs_by_desc := rb_insert_color K new td\<rparr>) ?s3"
      let ?x = "\<lparr>r_debug_id = binder_last_id ?s4, r_proc = proc, r_node = node, r_desc = ?d, r_strong = 0, r_weak = 0, r_death = None\<rparr>"
      let ?s' = "set_node node (n\<lparr>n_refs := new # n_refs n\<rparr>) (set_ref new ?x ?s4)"
      have code: "binder_get_ref_for_node K proc node s = Some (Some new, ?s')"
        using p f None k tn(1) td(1) n unfolding descs_of_def
        by (simp add: binder_get_ref_for_node_def binder_stats_created_def Let_def)
      have "node_inv (\<lambda>_. 0) {} ?s'"
        by (rule node_inv_new_ref [OF ni p n fresh, where x = ?x and us = us and vs = vs and us' = us' and vs' = vs'
              and td = "rb_insert_color K new td" and tn = "rb_insert_color K new tn"])
          (use td tn d K in \<open>simp_all add: set_node_def set_ref_def set_proc_def binder_stats_created_def\<close>)
      moreover have "refs s new = None"
        using ni fresh [of BINDER_STAT_REF] by (simp add: node_inv_def base_ok_def mem_ok_def)
      ultimately show thesis
        by (intro that [OF code])
          (simp_all add: refs_inv_def ref_result_def set_node_def set_ref_def set_proc_def binder_stats_created_def)
    qed
  qed
qed

text \<open>
  Lookups of nodes and references through the trees of a process, and the creation of a node.
\<close>

section \<open>Lookups\<close>

lemma get_ref_exact:
  assumes inv: "refs_inv s" and p: "procs s proc = Some p"
  obtains res where "binder_get_ref s proc desc = Some res"
    and "\<And>ref. res = Some ref \<longleftrightarrow> (\<exists>x. refs s ref = Some x \<and> r_proc x = proc \<and> r_desc x = desc)"
proof -
  have ni: "node_inv (\<lambda>_. 0) {} s" using inv by (simp add: refs_inv_def)
  have pok: "proc_ok s proc p" by (rule node_invD(4) [OF ni p])
  then have kd: "keyed (desc_key s) (pr_refs_by_desc p)" by (simp add: proc_ok_def)
  obtain res where f: "rb_search (key_dir (desc_key s) desc) (pr_refs_by_desc p) = Some res"
    using rb_search_total [OF kd] by blast
  have "res = Some ref \<longleftrightarrow> (\<exists>x. refs s ref = Some x \<and> r_proc x = proc \<and> r_desc x = desc)" for ref
  proof -
    have "res = Some ref \<longleftrightarrow> ref \<in> set (inorder (pr_refs_by_desc p)) \<and> desc_key s ref = Some desc"
      using rb_search_iff [OF kd, of desc ref] f by simp
    also have "\<dots> \<longleftrightarrow> (\<exists>x. refs s ref = Some x \<and> r_proc x = proc \<and> r_desc x = desc)"
      using pok node_invD(3) [OF ni, of ref] p by (auto simp: proc_ok_def ball_Un desc_key_def ref_ok_def)
    finally show ?thesis .
  qed
  then show thesis using that f p by (simp add: binder_get_ref_def)
qed

lemma get_node_exact:
  assumes inv: "refs_inv s" and p: "procs s proc = Some p"
  obtains res where "binder_get_node s proc ptr = Some res"
    and "\<And>node. res = Some node \<longleftrightarrow> (\<exists>n. nodes s node = Some n \<and> n_proc n = Some proc \<and> n_ptr n = ptr)"
proof -
  have ni: "node_inv (\<lambda>_. 0) {} s" using inv by (simp add: refs_inv_def)
  have pok: "proc_ok s proc p" by (rule node_invD(4) [OF ni p])
  then have kd: "keyed (node_key s) (pr_nodes p)" by (simp add: proc_ok_def)
  obtain res where f: "rb_search (key_dir (node_key s) ptr) (pr_nodes p) = Some res"
    using rb_search_total [OF kd] by blast
  have "res = Some node \<longleftrightarrow> (\<exists>n. nodes s node = Some n \<and> n_proc n = Some proc \<and> n_ptr n = ptr)" for node
  proof -
    have "res = Some node \<longleftrightarrow> node \<in> set (inorder (pr_nodes p)) \<and> node_key s node = Some ptr"
      using rb_search_iff [OF kd, of ptr node] f by simp
    also have "\<dots> \<longleftrightarrow> (\<exists>n. nodes s node = Some n \<and> n_proc n = Some proc \<and> n_ptr n = ptr)"
      using pok node_invD(2) [OF ni, of node] p by (auto simp: proc_ok_def node_key_def node_ok_def owner_ok_def)
    finally show ?thesis .
  qed
  then show thesis using that f p by (simp add: binder_get_node_def)
qed

section \<open>A new node\<close>

lemma node_inv_new_node:
  assumes inv: "node_inv (\<lambda>_. 0) {} s" and p: "procs s proc = Some p"
    and fresh: "\<And>ty. (ty, new) \<notin> set (live s)" and noitems: "items s (L_Async new) = []"
      "\<And>l. link_of s (W_Node new) \<noteq> Linked l"
    and x: "n_proc x = Some proc" "n_refs x = []" "n_internal_strong_refs x = 0" "n_local_strong_refs x = 0" "n_local_weak_refs x = 0"
    and t: "inorder (pr_nodes p) = us @ vs" "inorder t = us @ new # vs"
      "\<forall>a \<in> set us. the (node_key s a) < n_ptr x" "\<forall>a \<in> set vs. n_ptr x < the (node_key s a)"
    and s': "procs s' = (procs s)(proc \<mapsto> p\<lparr>pr_nodes := t\<rparr>)" "nodes s' = (nodes s)(new \<mapsto> x)" "refs s' = refs s"
      "live s' = (BINDER_STAT_NODE, new) # live s" "obj_created s' = (obj_created s)(BINDER_STAT_NODE := obj_created s BINDER_STAT_NODE + 1)"
      "obj_deleted s' = obj_deleted s" "deaths s' = deaths s" "threads s' = threads s" "transactions s' = transactions s"
      "items s' = (items s)(L_Async new := [])" "link_of s' = (link_of s)(W_Node new := Unlinked)" "binder_dead_nodes s' = binder_dead_nodes s"
  shows "node_inv (\<lambda>_. 0) {} s'"
proof (rule node_invI)
  have mem: "mem_ok s" and lk: "links_ok s" using inv by (simp_all add: node_inv_def base_ok_def)
  have none: "nodes s new = None" using mem fresh [of BINDER_STAT_NODE] by (simp add: mem_ok_def)
  have pok: "proc_ok s proc p" by (rule node_invD(4) [OF inv p])
  have nt: "new \<notin> set (inorder (pr_nodes q))" if "procs s pa = Some q" for pa q
    using node_invD(4) [OF inv that] none by (auto simp: proc_ok_def)
  have it: "items s' = items s" using noitems s' by (simp add: fun_eq_iff)
  have "mem_ok s'" using mem fresh p by (simp add: mem_ok_def s')
  moreover have "stats_ok s'" using inv by (intro stats_create [OF _ s'(4,5,6)]) (simp add: node_inv_def base_ok_def)
  moreover have "list_live l s \<Longrightarrow> list_live l s'" for l using p by (cases l) (auto simp: s')
  then have "links_ok s'" using lk noitems(2) by (auto simp: links_ok_def it s'(11))
  ultimately show "base_ok s'" by (simp add: base_ok_def)
  have cs: "count_strong s' = count_strong s" by (rule count_strong_cong) (simp add: s')
  have ow: "owner_ok s' m po" if "owner_ok s m po" for m po
    using p that t by (auto simp: owner_ok_def s' split: option.splits)
  show "node_ok (\<lambda>_. 0) s' m y" if m: "nodes s' m = Some y" for m y
  proof (cases "m = new")
    case True
    then have "y = x" using m by (simp add: s')
    then show ?thesis using x t True noitems by (simp add: node_ok_def owner_ok_def s' count_strong_def)
  next
    case False
    then have "node_ok (\<lambda>_. 0) s m y" using node_invD(2) [OF inv, of m y] m by (simp add: s')
    then show ?thesis using False ow by (simp add: node_ok_def cs s')
  qed
  show "ref_ok s' a y" if a: "refs s' a = Some y" "a \<notin> {}" for a y
  proof -
    have "ref_ok s a y" using a node_invD(3) [OF inv, of a y] by (simp add: s')
    then show ?thesis using p none by (auto simp: ref_ok_def s')
  qed
  show "proc_ok s' pa q" if q: "procs s' pa = Some q" for pa q
  proof -
    have keys: "desc_key s' = desc_key s" "ref_node_key s' = ref_node_key s" "node_key s' = (node_key s)(new \<mapsto> n_ptr x)"
      by (simp_all add: desc_key_def ref_node_key_def node_key_def s' fun_eq_iff)
    show ?thesis
    proof (cases "pa = proc")
      case False
      then have q': "procs s pa = Some q" using q by (simp add: s')
      have "keyed (node_key s') (pr_nodes q) = keyed (node_key s) (pr_nodes q)"
        by (rule keyed_cong) (use nt [OF q'] in \<open>auto simp: keys\<close>)
      then show ?thesis using node_invD(4) [OF inv q'] nt [OF q'] by (auto simp: proc_ok_def ball_Un keys(1,2) s')
    next
      case True
      then have q': "q = p\<lparr>pr_nodes := t\<rparr>" using q by (simp add: s')
      have "keyed (node_key s') (pr_nodes p) = keyed (node_key s) (pr_nodes p)"
        by (rule keyed_cong) (use nt [OF p] in \<open>auto simp: keys\<close>)
      then have "keyed (node_key s') t"
        using pok nt [OF p] t by (intro keyed_insert [OF _ t(1,2), of _ "n_ptr x"]) (auto simp: proc_ok_def keys(3))
      then show ?thesis using pok x t True none by (auto simp: proc_ok_def ball_Un q' keys(1,2) s')
    qed
  qed
  show "dead_ok s'" using node_invD(5) [OF inv] none by (auto simp: dead_ok_def s')
  show "deaths_ok s'" using node_invD(6) [OF inv] by (auto simp: deaths_ok_def s')
qed

text \<open>Memory that is not in use is not linked into a list either.\<close>

definition fresh_links :: "driver \<Rightarrow> bool" where
  "fresh_links s \<longleftrightarrow> (\<forall>w l. link_of s w = Linked l \<longrightarrow>
     (case w of W_Node a \<Rightarrow> nodes s a \<noteq> None | _ \<Rightarrow> True))"

lemma new_node_ok:
  assumes K: "kern_ok K" and inv: "refs_inv s" and fl: "fresh_links s" and p: "procs s proc = Some p"
  obtains res s' where "binder_new_node K proc ptr cookie s = Some (res, s')" and "refs_inv s'"
    and "case res of
        None \<Rightarrow> nodes s' = nodes s \<and> ((\<exists>a n. nodes s a = Some n \<and> n_proc n = Some proc \<and> n_ptr n = ptr)
                  \<or> kzalloc K (ticks s) (map snd (live s)) = None)
      | Some node \<Rightarrow> \<exists>n. nodes s node = None \<and> nodes s' = (nodes s)(node \<mapsto> n) \<and> n_proc n = Some proc
                  \<and> n_ptr n = ptr \<and> n_cookie n = cookie \<and> n_refs n = []"
    and "refs s' = refs s"
proof -
  have ni: "node_inv (\<lambda>_. 0) {} s" using inv by (simp add: refs_inv_def)
  have pok: "proc_ok s proc p" by (rule node_invD(4) [OF ni p])
  have kn: "keyed (node_key s) (pr_nodes p)" using pok by (simp add: proc_ok_def)
  obtain found where f: "rb_search (key_dir (node_key s) ptr) (pr_nodes p) = Some found"
    using rb_search_total [OF kn] by blast
  show thesis
  proof (cases found)
    case (Some a)
    then have "a \<in> set (inorder (pr_nodes p))" "node_key s a = Some ptr"
      using rb_search_sound [of "node_key s" ptr "pr_nodes p" a] f by simp_all
    then have ex: "\<exists>a n. nodes s a = Some n \<and> n_proc n = Some proc \<and> n_ptr n = ptr"
      using pok by (fastforce simp: proc_ok_def node_key_def)
    have "binder_new_node K proc ptr cookie s = Some (None, s)"
      using p f Some by (simp add: binder_new_node_def)
    then show thesis by (rule that) (use inv ex in simp_all)
  next
    case None
    then have no: "\<forall>a \<in> set (inorder (pr_nodes p)). node_key s a \<noteq> Some ptr"
      using rb_search_found [OF kn] f by auto
    show thesis
    proof (rule kmalloc_cases [OF K, of BINDER_STAT_NODE s])
      assume k: "kmalloc K BINDER_STAT_NODE s = (None, s\<lparr>ticks := Suc (ticks s)\<rparr>)"
      let ?s' = "s\<lparr>ticks := Suc (ticks s)\<rparr>"
      have "binder_new_node K proc ptr cookie s = Some (None, ?s')"
        using p f None k by (simp add: binder_new_node_def)
      moreover have "refs_inv ?s'"
      proof -
        have "list_live l ?s' = list_live l s" for l by (cases l) simp_all
        then have "links_ok ?s'" using ni by (simp add: node_inv_def base_ok_def links_ok_def)
        then show ?thesis unfolding refs_inv_def by (intro node_inv_links [OF ni]) (simp_all add: same_objects_def)
      qed
      moreover have "kzalloc K (ticks s) (map snd (live s)) = None"
        using k by (simp add: kmalloc_def split: option.splits)
      ultimately show thesis by (intro that [of None ?s']) simp_all
    next
      fix new
      assume k: "kmalloc K BINDER_STAT_NODE s = (Some new, s\<lparr>ticks := Suc (ticks s), live := (BINDER_STAT_NODE, new) # live s\<rparr>)"
        and fresh: "\<And>ty'. (ty', new) \<notin> set (live s)"
      have none: "nodes s new = None" using ni fresh [of BINDER_STAT_NODE] by (simp add: node_inv_def base_ok_def mem_ok_def)
      have lk: "links_ok s" using ni by (simp add: node_inv_def base_ok_def)
      have noitems: "items s (L_Async new) = []" "\<And>l. link_of s (W_Node new) \<noteq> Linked l"
        using linksD(3) [OF lk, of "L_Async new"] none fl by (auto simp: fresh_links_def split: work.splits)
      obtain t us vs where t: "rb_link (key_dir (node_key s) ptr) new (pr_nodes p) = Some (Some t)"
        "inorder (pr_nodes p) = us @ vs" "inorder t = us @ new # vs"
        "\<forall>a \<in> set us. the (node_key s a) < ptr" "\<forall>a \<in> set vs. ptr < the (node_key s a)"
        by (rule rb_link_new [OF kn no])
      let ?x = "blank_node\<lparr>n_debug_id := Suc (binder_last_id s), n_proc := Some proc, n_ptr := ptr, n_cookie := cookie\<rparr>"
      let ?s1 = "binder_stats_created BINDER_STAT_NODE (s\<lparr>ticks := Suc (ticks s), live := (BINDER_STAT_NODE, new) # live s\<rparr>)"
      let ?s6 = "set_link (W_Node new) Unlinked (set_node new ?x
         ((set_proc proc (p\<lparr>pr_nodes := rb_insert_color K new t\<rparr>) ?s1)\<lparr>binder_last_id := Suc (binder_last_id s)\<rparr>))"
      let ?s' = "?s6\<lparr>items := (items ?s6)(L_Async new := [])\<rparr>"
      have code: "binder_new_node K proc ptr cookie s = Some (Some new, ?s')"
        using p f None k t(1) by (simp add: binder_new_node_def Let_def binder_stats_created_def set_proc_def)
      have "node_inv (\<lambda>_. 0) {} ?s'"
        by (rule node_inv_new_node [OF ni p fresh noitems, where x = ?x and us = us and vs = vs and t = "rb_insert_color K new t"])
          (use t K in \<open>simp_all add: blank_node_def set_node_def set_link_def set_proc_def binder_stats_created_def\<close>)
      moreover have "\<exists>n. nodes s new = None \<and> nodes ?s' = (nodes s)(new \<mapsto> n) \<and> n_proc n = Some proc
                  \<and> n_ptr n = ptr \<and> n_cookie n = cookie \<and> n_refs n = []"
        by (intro exI [of _ ?x]) (simp add: none blank_node_def set_node_def set_link_def set_proc_def binder_stats_created_def)
      ultimately show thesis
        by (intro that [OF code])
          (simp_all add: none refs_inv_def blank_node_def set_node_def set_link_def set_proc_def binder_stats_created_def)
    qed
  qed
qed

end
