(* ===== verification/Binder_Ref_Run.thy ===== *)
theory Binder_Ref_Run
  imports Binder_Ref_Ops Trace
begin

text \<open>
  Dropping a count of a reference, and sequences of the operations on nodes and references:
  the interpretation of \<open>guarded\<close> on them.
\<close>

section \<open>Dropping a count\<close>

definition dropped :: "addr \<Rightarrow> bool \<Rightarrow> binder_ref \<Rightarrow> driver \<Rightarrow> driver \<Rightarrow> bool" where
  "dropped ref strong r s s' \<longleftrightarrow>
     (let r' = (if strong then r\<lparr>r_strong := r_strong r - 1\<rparr> else r\<lparr>r_weak := r_weak r - 1\<rparr>)
      in refs s' = (if r_strong r' = 0 \<and> r_weak r' = 0 then (refs s)(ref := None) else (refs s)(ref \<mapsto> r')))"

lemma dec_ref_drops:
  assumes K: "kern_ok K" and inv: "refs_inv s" and r: "refs s ref = Some r"
  obtains ret s' where "binder_dec_ref K ref strong s = Some (ret, s')" and "refs_inv s'" and "threads s' = threads s"
    and "if (if strong then r_strong r = 0 else r_weak r = 0) then ret = - EINVAL \<and> s' = s
         else ret = 0 \<and> dropped ref strong r s s'"
proof (cases "if strong then r_strong r = 0 else r_weak r = 0")
  case True
  then have "binder_dec_ref K ref strong s = Some (- EINVAL, s)" using r by (simp add: binder_dec_ref_def)
  then show thesis using that inv True by simp
next
  case False
  have ni: "node_inv (\<lambda>_. 0) {} s" using inv by (simp add: refs_inv_def)
  obtain n p where n: "nodes s (r_node r) = Some n" "ref \<in> set (n_refs n)"
    by (rule ref_okE [OF ni r]) auto
  define r' where "r' = (if strong then r\<lparr>r_strong := r_strong r - 1\<rparr> else r\<lparr>r_weak := r_weak r - 1\<rparr>)"
  define dl where "dl = (\<lambda>_. 0 :: 32 word)(r_node r := strongly r - strongly r')"
  have f: "r_proc r' = r_proc r" "r_node r' = r_node r" "r_desc r' = r_desc r" "r_death r' = r_death r"
    by (simp_all add: r'_def)
  have i1: "node_inv dl {} (set_ref ref r' s)"
    using node_inv_set_ref [OF ni r n f] by (simp add: dl_def)
  have n1: "nodes (set_ref ref r' s) (r_node r) = Some n" using n by (simp add: set_ref_def)
  obtain s2 where s2: "(if strong \<and> r_strong r' = 0 then binder_dec_node K (r_node r) True True (set_ref ref r' s)
                       else Some (0, set_ref ref r' s)) = Some (0, s2)"
    and i2: "node_inv (\<lambda>_. 0) {} s2" and k2: "refs s2 = (refs s)(ref \<mapsto> r')" "threads s2 = threads s"
  proof (cases "strong \<and> r_strong r' = 0")
    case True
    have d: "strongly r - strongly r' = 1" using True False by (auto simp: strongly_def r'_def)
    obtain t where t: "binder_dec_node K (r_node r) True True (set_ref ref r' s) = Some (0, t)"
      "node_inv (dl(r_node r := dl (r_node r) - delta True True)) {} t" "settled (set_ref ref r' s) (r_node r) n t"
      by (rule dec_node_ok [OF K i1 n1, of True True]) (auto simp: may_dec_def intro: that)
    have "node_inv (\<lambda>_. 0) {} t" using t(2) d by (simp add: dl_def zero_delta)
    then show thesis using that [of t] t True by (simp add: settled_def set_ref_def)
  next
    case no: False
    then have "strongly r - strongly r' = 0" using False by (auto simp: strongly_def r'_def split: if_splits)
    then have "node_inv (\<lambda>_. 0) {} (set_ref ref r' s)" using i1 by (simp add: dl_def zero_delta)
    then show thesis using that [of "set_ref ref r' s"] no by (auto simp: set_ref_def)
  qed
  have code: "binder_dec_ref K ref strong s =
    (if r_strong r' = 0 \<and> r_weak r' = 0 then map_option (Pair 0) (binder_delete_ref K ref s2) else Some (0, s2))"
    unfolding binder_dec_ref_def r bind.bind_lunit Let_def r'_def [symmetric] if_not_P [OF False] s2 by simp
  show thesis
  proof (cases "r_strong r' = 0 \<and> r_weak r' = 0")
    case True
    have r2: "refs s2 ref = Some r'" using k2 by simp
    obtain s' where "binder_delete_ref K ref s2 = Some s'" "node_inv (\<lambda>_. 0) {} s'" "refs s' = (refs s2)(ref := None)"
      "threads s' = threads s2"
      by (rule delete_ref_ok [OF K i2 r2]) (auto intro: that)
    then show thesis using that [of 0 s'] code True False k2
      by (simp add: refs_inv_def dropped_def Let_def r'_def [symmetric])
  next
    case no: False
    have "dropped ref strong r s s2"
      unfolding dropped_def Let_def r'_def [symmetric] if_not_P [OF no] by (rule k2(1))
    moreover have "binder_dec_ref K ref strong s = Some (0, s2)" unfolding code if_not_P [OF no] ..
    ultimately show thesis using that [of 0 s2] False i2 k2(2) by (simp add: refs_inv_def)
  qed
qed

section \<open>Only existing nodes are queued\<close>

lemma fresh_iff: "fresh_links s \<longleftrightarrow> (\<forall>a l. link_of s (W_Node a) = Linked l \<longrightarrow> nodes s a \<noteq> None)"
  by (auto simp: fresh_links_def split: work.splits)

lemma fresh_mono:
  assumes "fresh_links s" and "nodes s' = nodes s"
    and "\<And>a l. link_of s' (W_Node a) = Linked l \<Longrightarrow> link_of s (W_Node a) = Linked l \<or> nodes s a \<noteq> None"
  shows "fresh_links s'"
  using assms unfolding fresh_iff by metis

lemma fresh_unlink:
  assumes "unlink w l s = Some s'" and "\<And>l'. l \<noteq> Linked l'" and "fresh_links s"
  shows "fresh_links s'" and "nodes s' = nodes s"
proof -
  show n: "nodes s' = nodes s" using assms(1) by (auto simp: unlink_def set_link_def split: link.splits if_splits)
  have "link_of s' = (link_of s)(w := l)"
    using assms(1) by (auto simp: unlink_def set_link_def split: link.splits if_splits)
  then show "fresh_links s'" using assms(2) by (intro fresh_mono [OF assms(3) n]) (auto split: if_splits)
qed

lemma fresh_lists:
  "list_del w s = Some s' \<Longrightarrow> fresh_links s \<Longrightarrow> fresh_links s' \<and> nodes s' = nodes s"
  "list_del_init w s = Some s' \<Longrightarrow> fresh_links s \<Longrightarrow> fresh_links s' \<and> nodes s' = nodes s"
  by (auto simp: list_del_def list_del_init_def dest: fresh_unlink)

lemma fresh_add:
  assumes "list_add_tail (W_Node n) l s = Some s'" and "nodes s n \<noteq> None" and "fresh_links s"
  shows "fresh_links s'"
proof (rule fresh_mono [OF assms(3)])
  show "nodes s' = nodes s" using assms(1) by (auto simp: list_add_tail_def set_link_def split: if_splits)
  fix a m assume "link_of s' (W_Node a) = Linked m"
  then show "link_of s (W_Node a) = Linked m \<or> nodes s a \<noteq> None"
    using assms(1,2) by (auto simp: list_add_tail_def set_link_def split: if_splits)
qed

lemma fresh_set_node: "fresh_links s \<Longrightarrow> nodes s n \<noteq> None \<Longrightarrow> fresh_links (set_node n x s)"
  by (auto simp: fresh_iff set_node_def)

lemma fresh_drop:
  "fresh_links s \<Longrightarrow> fresh_links (drop_work (W_Node n) (s\<lparr>nodes := (nodes s)(n := None)\<rparr>))"
  by (auto simp: fresh_iff drop_work_def set_link_def)

lemma fresh_frame [simp]:
  "fresh_links (set_ref r x s) = fresh_links s" "fresh_links (set_proc p y s) = fresh_links s"
  "fresh_links (binder_stats_deleted ty s) = fresh_links s" "fresh_links (s\<lparr>live := lv\<rparr>) = fresh_links s"
  "fresh_links (s\<lparr>binder_dead_nodes := dn\<rparr>) = fresh_links s" "fresh_links (s\<lparr>ticks := n\<rparr>) = fresh_links s"
  "fresh_links (s\<lparr>deaths := ds\<rparr>) = fresh_links s" "fresh_links (s\<lparr>refs := rs\<rparr>) = fresh_links s"
  "fresh_links (binder_stats_created ty s) = fresh_links s" "fresh_links (s\<lparr>binder_last_id := i\<rparr>) = fresh_links s"
  by (simp_all add: fresh_iff set_ref_def set_proc_def binder_stats_deleted_def binder_stats_created_def)

lemma fresh_kfree: "kfree ty a s = Some s' \<Longrightarrow> fresh_links s \<Longrightarrow> fresh_links s'"
  by (auto simp: kfree_def split: if_splits)

lemma fresh_inc_node:
  assumes "binder_inc_node node strong internal l s = Some (r, s')" and "fresh_links s"
  shows "fresh_links s'"
proof -
  obtain n where n: "nodes s node = Some n" using assms(1) by (auto simp: binder_inc_node_def bind_eq_Some_conv)
  have i1: "fresh_links (set_node node x s)" for x using fresh_set_node assms(2) n by simp
  have n1: "nodes (set_node node x s) node \<noteq> None" for x by (simp add: set_node_def)
  have add: "fresh_links u"
    if "list_del_init (W_Node node) (set_node node x s) = Some t" "list_add_tail (W_Node node) m t = Some u" for x t u m
    using fresh_add [OF that(2)] fresh_lists(2) [OF that(1) i1] by (simp add: set_node_def)
  show ?thesis
    using assms n i1
    by (auto simp: binder_inc_node_def Let_def bind_eq_Some_conv intro: fresh_add [OF _ n1 i1] dest: add
        split: if_splits option.splits)
qed

lemma fresh_settle:
  assumes code: "dec_node_settle K node s = Some s'" and fl: "fresh_links s"
  shows "fresh_links s'"
proof -
  obtain n where n: "nodes s node = Some n" using code by (auto simp: dec_node_settle_def bind_eq_Some_conv)
  have add: "fresh_links t" if "list_add_tail (W_Node node) l s = Some t" for l t
    using fresh_add [OF that] n fl by simp
  have drop: "fresh_links (binder_stats_deleted ty (drop_work (W_Node node) (t\<lparr>nodes := (nodes t)(node := None)\<rparr>)))"
    if "fresh_links t" for ty t
    using fresh_drop [OF that] by simp
  show ?thesis
    using code n fl
    by (auto simp: dec_node_settle_def bind_eq_Some_conv split: if_splits option.splits intro!: drop
        dest!: fresh_lists(2) add fresh_kfree)
qed

lemma fresh_dec_node:
  assumes code: "binder_dec_node K node strong internal s = Some (r, s')" and fl: "fresh_links s"
  shows "fresh_links s'"
proof -
  obtain n where n: "nodes s node = Some n" using code by (auto simp: binder_dec_node_def bind_eq_Some_conv)
  have i1: "fresh_links (set_node node x s)" for x using fresh_set_node fl n by simp
  show ?thesis
    using code n i1 by (auto simp: binder_dec_node_def Let_def intro: fresh_settle split: if_splits)
qed

lemma fresh_new_node:
  assumes "binder_new_node K proc ptr cookie s = Some (r, s')" and fl: "fresh_links s"
  shows "fresh_links s'"
proof -
  have new: "fresh_links (s1\<lparr>nodes := (nodes s1)(a \<mapsto> x), link_of := (link_of s1)(W_Node a := Unlinked)\<rparr>)"
    if "fresh_links s1" for s1 a x
    using that by (auto simp: fresh_iff)
  show ?thesis
    using assms
    by (auto simp: binder_new_node_def Let_def bind_eq_Some_conv fresh_iff set_node_def set_proc_def set_link_def
        kmalloc_def binder_stats_created_def split: option.splits if_splits)
qed

lemma fresh_ref_for_node:
  assumes "binder_get_ref_for_node K proc node s = Some (r, s')" and fl: "fresh_links s"
  shows "fresh_links s'"
  using assms
  by (auto simp: binder_get_ref_for_node_def Let_def bind_eq_Some_conv fresh_iff set_node_def set_proc_def set_ref_def
      kmalloc_def binder_stats_created_def split: option.splits if_splits)

lemma fresh_inc_ref: "binder_inc_ref ref strong l s = Some (r, s') \<Longrightarrow> fresh_links s \<Longrightarrow> fresh_links s'"
  by (auto simp: binder_inc_ref_def bind_eq_Some_conv dest: fresh_inc_node split: if_splits)

lemma fresh_free_ref_death: "free_ref_death d s = Some s' \<Longrightarrow> fresh_links s \<Longrightarrow> fresh_links s'"
  by (auto simp: free_ref_death_def bind_eq_Some_conv split: option.splits dest!: fresh_lists(1) fresh_kfree)

lemma fresh_delete_ref:
  assumes code: "binder_delete_ref K ref s = Some s'" and fl: "fresh_links s"
  shows "fresh_links s'"
proof -
  have set_n: "fresh_links (set_node a x t)" if "nodes t a = Some y" "fresh_links t" for a x t y
    using fresh_set_node that by simp
  show ?thesis
    using assms
    by (auto simp: binder_delete_ref_def Let_def bind_eq_Some_conv split: if_splits
        dest!: fresh_free_ref_death fresh_kfree fresh_dec_node intro: set_n)
qed

lemma fresh_dec_ref: "binder_dec_ref K ref strong s = Some (r, s') \<Longrightarrow> fresh_links s \<Longrightarrow> fresh_links s'"
  by (auto simp: binder_dec_ref_def Let_def bind_eq_Some_conv dest: fresh_dec_node fresh_delete_ref split: if_splits)

section \<open>Sequences of operations\<close>

text \<open>
  What the rest of the driver asks of nodes and references, with what it has to see to: the
  objects exist, a process has fewer than \<open>2 ^ 32 - 1\<close> references, a target list is the list of a
  thread or a process, only counts that are held on a node are given back, and no strong
  count, 32 bits wide like every counter here, is raised from all ones to \<open>0\<close>.
\<close>

datatype ref_event =
    Ev_New_Node addr nat nat
  | Ev_Get_Ref addr addr
  | Ev_Inc_Ref addr bool "list_id option"
  | Ev_Dec_Ref addr bool
  | Ev_Delete_Ref addr
  | Ev_Inc_Node addr bool "list_id option"
  | Ev_Dec_Node addr bool

fun ref_step :: "kern \<Rightarrow> ref_event \<Rightarrow> driver \<Rightarrow> driver option" where
  "ref_step K (Ev_New_Node proc ptr cookie) s = map_option snd (binder_new_node K proc ptr cookie s)"
| "ref_step K (Ev_Get_Ref proc node) s = map_option snd (binder_get_ref_for_node K proc node s)"
| "ref_step K (Ev_Inc_Ref ref strong target) s = map_option snd (binder_inc_ref ref strong target s)"
| "ref_step K (Ev_Dec_Ref ref strong) s = map_option snd (binder_dec_ref K ref strong s)"
| "ref_step K (Ev_Delete_Ref ref) s = binder_delete_ref K ref s"
| "ref_step K (Ev_Inc_Node node strong target) s = map_option snd (binder_inc_node node strong False target s)"
| "ref_step K (Ev_Dec_Node node strong) s = map_option snd (binder_dec_node K node strong False s)"

fun ref_event_ok :: "ref_event \<Rightarrow> driver \<Rightarrow> bool" where
  "ref_event_ok (Ev_New_Node proc ptr cookie) s = (procs s proc \<noteq> None)"
| "ref_event_ok (Ev_Get_Ref proc node) s = (nodes s node \<noteq> None \<and>
     (case procs s proc of None \<Rightarrow> False | Some p \<Rightarrow> length (inorder (pr_refs_by_desc p)) + 1 < 2 ^ 32))"
| "ref_event_ok (Ev_Inc_Ref ref strong target) s = (work_target s target \<and>
     (case refs s ref of None \<Rightarrow> False | Some r \<Rightarrow> may_count r strong))"
| "ref_event_ok (Ev_Dec_Ref ref strong) s = (refs s ref \<noteq> None)"
| "ref_event_ok (Ev_Delete_Ref ref) s = (refs s ref \<noteq> None)"
| "ref_event_ok (Ev_Inc_Node node strong target) s = (work_target s target \<and>
     (case nodes s node of None \<Rightarrow> False | Some n \<Rightarrow> may_inc n strong False))"
| "ref_event_ok (Ev_Dec_Node node strong) s =
     (case nodes s node of None \<Rightarrow> False | Some n \<Rightarrow> may_dec s node n strong False)"

definition ref_state :: "kern \<Rightarrow> driver \<Rightarrow> bool" where
  "ref_state K s \<longleftrightarrow> kern_ok K \<and> refs_inv s \<and> fresh_links s"

lemma ref_step_safe:
  assumes st: "ref_state K s" and ok: "ref_event_ok e s"
  shows "\<exists>s'. ref_step K e s = Some s' \<and> ref_state K s'"
proof -
  have K: "kern_ok K" and inv: "refs_inv s" and fl: "fresh_links s" using st by (simp_all add: ref_state_def)
  have ni: "node_inv (\<lambda>_. 0) {} s" using inv by (simp add: refs_inv_def)
  have fin: "\<exists>s'. ref_step K e s = Some s' \<and> ref_state K s'" if "ref_step K e s = Some t" "refs_inv t" "fresh_links t" for t
    using that K by (simp add: ref_state_def)
  show ?thesis
  proof (cases e)
    case (Ev_New_Node proc ptr cookie)
    then obtain p where "procs s proc = Some p" using ok by auto
    from new_node_ok [OF K inv fl this, of ptr cookie] obtain res t
      where t: "binder_new_node K proc ptr cookie s = Some (res, t)" "refs_inv t" by blast
    then show ?thesis using fin [of t] fresh_new_node [OF t(1) fl] Ev_New_Node by simp
  next
    case (Ev_Get_Ref proc node)
    then obtain p n where p: "procs s proc = Some p" "nodes s node = Some n"
      "length (inorder (pr_refs_by_desc p)) + 1 < 2 ^ 32"
      using ok by (auto split: option.splits)
    from get_ref_for_node_ok [OF K inv p] obtain res t
      where t: "binder_get_ref_for_node K proc node s = Some (res, t)" "refs_inv t" by blast
    then show ?thesis using fin [of t] fresh_ref_for_node [OF t(1) fl] Ev_Get_Ref by simp
  next
    case (Ev_Inc_Ref ref strong target)
    then obtain r where r: "refs s ref = Some r" "work_target s target" "may_count r strong" using ok by (auto split: option.splits)
    from inc_ref_ok [OF inv r] obtain ret t
      where t: "binder_inc_ref ref strong target s = Some (ret, t)" "refs_inv t" by blast
    then show ?thesis using fin [of t] fresh_inc_ref [OF t(1) fl] Ev_Inc_Ref by simp
  next
    case (Ev_Dec_Ref ref strong)
    then obtain r where r: "refs s ref = Some r" using ok by auto
    from dec_ref_drops [OF K inv r, of strong] obtain ret t
      where t: "binder_dec_ref K ref strong s = Some (ret, t)" "refs_inv t" by blast
    then show ?thesis using fin [of t] fresh_dec_ref [OF t(1) fl] Ev_Dec_Ref by simp
  next
    case (Ev_Delete_Ref ref)
    then obtain r where r: "refs s ref = Some r" using ok by auto
    from delete_ref_ok [OF K ni r] obtain t where t: "binder_delete_ref K ref s = Some t" "node_inv (\<lambda>_. 0) {} t" by blast
    then show ?thesis using fin [of t] fresh_delete_ref [OF t(1) fl] Ev_Delete_Ref by (simp add: refs_inv_def)
  next
    case (Ev_Inc_Node node strong target)
    then obtain n where n: "nodes s node = Some n" "work_target s target" "may_inc n strong False" using ok by (auto split: option.splits)
    from inc_node_ok [OF ni n] obtain ret t
      where t: "binder_inc_node node strong False target s = Some (ret, t)"
        "node_inv ((\<lambda>_. 0)(node := 0 + (if ret = 0 then delta strong False else 0))) {} t" by metis
    then have "refs_inv t" by (simp add: refs_inv_def zero_delta split: if_splits)
    then show ?thesis using fin [of t] fresh_inc_node [OF t(1) fl] t(1) Ev_Inc_Node by simp
  next
    case (Ev_Dec_Node node strong)
    then obtain n where n: "nodes s node = Some n" "may_dec s node n strong False" using ok by (auto split: option.splits)
    from dec_node_ok [OF K ni n] obtain t
      where t: "binder_dec_node K node strong False s = Some (0, t)"
        "node_inv ((\<lambda>_. 0)(node := 0 - delta strong False)) {} t" by metis
    then have "refs_inv t" by (simp add: refs_inv_def zero_delta)
    then show ?thesis using fin [of t] fresh_dec_node [OF t(1) fl] t(1) Ev_Dec_Node by simp
  qed
qed

interpretation ref_ops: guarded "ref_state K" ref_event_ok "ref_step K" for K
  by unfold_locales (rule ref_step_safe)

end
