(* ===== verification/Ref_Theorems.thy ===== *)
theory Ref_Theorems
  imports Binder_Ref_Run Driver_Theorems
begin

text \<open>
  The properties of nodes and references: what lookups find, which descriptor a new reference
  gets, what each count does, and that no sequence of operations goes wrong.
\<close>

section \<open>A concrete state\<close>

lemma demo_open_eval:
  "threads (drv demo_open) = Map.empty" "nodes (drv demo_open) = Map.empty" "refs (drv demo_open) = Map.empty"
  "deaths (drv demo_open) = Map.empty" "transactions (drv demo_open) = Map.empty"
  "live (drv demo_open) = [(BINDER_STAT_PROC, 1)]" "binder_dead_nodes (drv demo_open) = []"
  "\<And>w. link_of (drv demo_open) w = Wild" "\<And>l. items (drv demo_open) l = []"
  "procs (drv demo_open) = [1 \<mapsto> blank_proc demo_kern 1 (boot (\<lambda>_. Map.empty) (\<lambda>_. 0)\<lparr>ticks := 1, live := [(BINDER_STAT_PROC, 1)]\<rparr>)]"
  "obj_created (drv demo_open) = (\<lambda>_. 0)(BINDER_STAT_PROC := 1)" "obj_deleted (drv demo_open) = (\<lambda>_. 0)"
  by (simp_all add: demo_open_def demo_boot_def boot_system_def boot_def binder_open_def kmalloc_def demo_kern_def Let_def
      set_proc_def binder_stats_created_def)

lemma blank_proc_trees [simp]:
  "pr_nodes (blank_proc K c s) = Leaf" "pr_refs_by_desc (blank_proc K c s) = Leaf" "pr_refs_by_node (blank_proc K c s) = Leaf"
  by (simp_all add: blank_proc_def)

lemma demo_refs_inv: "refs_inv (drv demo_open)" and demo_fresh: "fresh_links (drv demo_open)"
proof -
  show "fresh_links (drv demo_open)" by (simp add: fresh_iff demo_open_eval)
  show "refs_inv (drv demo_open)"
    by (auto simp: refs_inv_def node_inv_def base_ok_def mem_ok_def stats_ok_def links_ok_def demo_open_eval proc_ok_def
        dead_ok_def deaths_ok_def keyed_def keys_of_def)
qed

text \<open>The same state with a node of the process, and with a reference of the process to it.\<close>

definition demo_node :: driver where
  "demo_node = snd (the (binder_new_node demo_kern 1 7 9 (drv demo_open)))"

definition demo_ref :: driver where
  "demo_ref = snd (the (binder_get_ref_for_node demo_kern 1 2 demo_node))"

lemma demo_kzalloc [simp]: "kzalloc demo_kern = (\<lambda>n used. Some (Suc (fold max used 0)))"
  by (simp add: demo_kern_def)

lemma demo_node_kmalloc:
  "kmalloc demo_kern BINDER_STAT_NODE (drv demo_open) = (Some 2, (drv demo_open)\<lparr>ticks := Suc (ticks (drv demo_open)),
     live := [(BINDER_STAT_NODE, 2), (BINDER_STAT_PROC, 1)]\<rparr>)"
  by (simp add: kmalloc_def demo_open_eval numeral_2_eq_2)

lemma demo_node_result: "binder_new_node demo_kern 1 7 9 (drv demo_open) = Some (Some 2, demo_node)"
proof -
  obtain p where p: "procs (drv demo_open) 1 = Some p" "pr_nodes p = Leaf" by (simp add: demo_open_eval)
  have "\<exists>t. binder_new_node demo_kern 1 7 9 (drv demo_open) = Some (Some 2, t)"
    by (simp add: binder_new_node_def p demo_node_kmalloc Let_def del: One_nat_def)
  then show ?thesis by (auto simp: demo_node_def)
qed

lemma demo_node_eval:
  "\<exists>p. procs demo_node 1 = Some p \<and> pr_refs_by_desc p = Leaf \<and> pr_refs_by_node p = Leaf"
  "live demo_node = [(BINDER_STAT_NODE, 2), (BINDER_STAT_PROC, 1)]" "nodes demo_node 2 \<noteq> None"
  "\<And>a. a \<noteq> 2 \<Longrightarrow> nodes demo_node a = None"
proof -
  obtain p where p: "procs (drv demo_open) 1 = Some p" "pr_nodes p = Leaf" "pr_refs_by_desc p = Leaf" "pr_refs_by_node p = Leaf"
    by (simp add: demo_open_eval)
  have t: "demo_node = t" if "binder_new_node demo_kern 1 7 9 (drv demo_open) = Some (Some 2, t)" for t
    using demo_node_result that by simp
  show "\<exists>p. procs demo_node 1 = Some p \<and> pr_refs_by_desc p = Leaf \<and> pr_refs_by_node p = Leaf"
    "live demo_node = [(BINDER_STAT_NODE, 2), (BINDER_STAT_PROC, 1)]" "nodes demo_node 2 \<noteq> None"
    "\<And>a. a \<noteq> 2 \<Longrightarrow> nodes demo_node a = None"
    by (simp_all add: demo_node_def binder_new_node_def p demo_node_kmalloc Let_def set_link_def set_node_def set_proc_def
        binder_stats_created_def demo_open_eval(2) del: One_nat_def)
qed

lemma demo_node_state: "refs_inv demo_node" "fresh_links demo_node"
proof -
  obtain p where p: "procs (drv demo_open) 1 = Some p" using demo_open_proc by blast
  obtain res t where t: "binder_new_node demo_kern 1 7 9 (drv demo_open) = Some (res, t)" "refs_inv t"
    by (rule new_node_ok [OF demo_kern_ok demo_refs_inv demo_fresh p])
  then show "refs_inv demo_node" using demo_node_result by simp
  show "fresh_links demo_node" by (rule fresh_new_node [OF demo_node_result demo_fresh])
qed

lemma demo_ref_kmalloc:
  "kmalloc demo_kern BINDER_STAT_REF demo_node = (Some 3, demo_node\<lparr>ticks := Suc (ticks demo_node),
     live := [(BINDER_STAT_REF, 3), (BINDER_STAT_NODE, 2), (BINDER_STAT_PROC, 1)]\<rparr>)"
  by (simp add: kmalloc_def demo_node_eval)

lemma demo_ref_result: "binder_get_ref_for_node demo_kern 1 2 demo_node = Some (Some 3, demo_ref)"
proof -
  obtain p where p: "procs demo_node 1 = Some p" "pr_refs_by_desc p = Leaf" "pr_refs_by_node p = Leaf"
    using demo_node_eval(1) by blast
  obtain n where n: "nodes demo_node 2 = Some n" using demo_node_eval(3) by blast
  have "\<exists>t. binder_get_ref_for_node demo_kern 1 2 demo_node = Some (Some 3, t)"
    by (simp add: binder_get_ref_for_node_def p n demo_ref_kmalloc Let_def binder_stats_created_def del: One_nat_def)
  then show ?thesis by (auto simp: demo_ref_def)
qed

lemma demo_ref_state: "refs_inv demo_ref" "fresh_links demo_ref"
  "\<exists>x. refs demo_ref 3 = Some x \<and> r_proc x = 1 \<and> r_node x = 2 \<and> r_strong x = 0 \<and> r_weak x = 0"
proof -
  obtain p where p: "procs demo_node 1 = Some p" "pr_refs_by_desc p = Leaf" using demo_node_eval(1) by blast
  obtain n where n: "nodes demo_node 2 = Some n" using demo_node_eval(3) by blast
  obtain res t where t: "binder_get_ref_for_node demo_kern 1 2 demo_node = Some (res, t)" "refs_inv t"
    "ref_result demo_kern demo_node 1 p 2 res t"
    by (rule get_ref_for_node_ok [OF demo_kern_ok demo_node_state(1) p(1) n]) (simp add: p)
  then have eq: "res = Some 3" "t = demo_ref" using demo_ref_result by simp_all
  then show "refs_inv demo_ref" using t by simp
  show "fresh_links demo_ref" by (rule fresh_ref_for_node [OF demo_ref_result demo_node_state(2)])
  have "refs demo_node 3 = None"
    using demo_node_state(1) demo_node_eval(2) by (simp add: refs_inv_def node_inv_def base_ok_def mem_ok_def)
  then show "\<exists>x. refs demo_ref 3 = Some x \<and> r_proc x = 1 \<and> r_node x = 2 \<and> r_strong x = 0 \<and> r_weak x = 0"
    using t(3) eq by (auto simp: ref_result_def)
qed

section \<open>Lookups\<close>

text \<open>
  The lookups through the trees are exact: \<open>binder_get_node\<close> finds the node of the
  process with the given pointer, and \<open>binder_get_ref\<close> the reference of the process with the
  given descriptor, exactly when there is one, and neither can crash or run on.
\<close>

theorem lookups_exact:
  assumes "refs_inv s" and "procs s proc = Some p"
  shows "(\<exists>res. binder_get_node s proc ptr = Some res \<and>
      (\<forall>node. res = Some node \<longleftrightarrow> (\<exists>n. nodes s node = Some n \<and> n_proc n = Some proc \<and> n_ptr n = ptr))) \<and>
    (\<exists>res. binder_get_ref s proc desc = Some res \<and>
      (\<forall>ref. res = Some ref \<longleftrightarrow> (\<exists>x. refs s ref = Some x \<and> r_proc x = proc \<and> r_desc x = desc)))"
proof (intro conjI)
  show "\<exists>res. binder_get_node s proc ptr = Some res \<and>
      (\<forall>node. res = Some node \<longleftrightarrow> (\<exists>n. nodes s node = Some n \<and> n_proc n = Some proc \<and> n_ptr n = ptr))"
    by (rule get_node_exact [OF assms, of ptr]) blast
  show "\<exists>res. binder_get_ref s proc desc = Some res \<and>
      (\<forall>ref. res = Some ref \<longleftrightarrow> (\<exists>x. refs s ref = Some x \<and> r_proc x = proc \<and> r_desc x = desc))"
    by (rule get_ref_exact [OF assms, of desc]) blast
qed

section \<open>New nodes and new references\<close>

text \<open>
  \<open>binder_new_node\<close> adds exactly one node, unreferenced, with the given pointer and
  cookie, and it refuses only when the process already has a node with that pointer or memory
  is exhausted; references are untouched and the invariant holds again.
\<close>

theorem new_node_correct:
  assumes "kern_ok K" and "refs_inv s" and "fresh_links s" and "procs s proc \<noteq> None"
  shows "\<exists>res s'. binder_new_node K proc ptr cookie s = Some (res, s') \<and> refs_inv s' \<and> refs s' = refs s \<and>
    (case res of
       None \<Rightarrow> nodes s' = nodes s \<and> ((\<exists>a n. nodes s a = Some n \<and> n_proc n = Some proc \<and> n_ptr n = ptr)
                  \<or> kzalloc K (ticks s) (map snd (live s)) = None)
     | Some node \<Rightarrow> \<exists>n. nodes s node = None \<and> nodes s' = (nodes s)(node \<mapsto> n) \<and> n_proc n = Some proc
                  \<and> n_ptr n = ptr \<and> n_cookie n = cookie \<and> n_refs n = [])"
proof -
  obtain p where p: "procs s proc = Some p" using assms(4) by blast
  show ?thesis by (rule new_node_ok [OF assms(1-3) p, of ptr cookie]) (rule exI, rule exI, simp)
qed

text \<open>
  \<open>binder_get_ref_for_node\<close> answers with the one reference the process has to the node. If
  there was none it makes one, unused so far, whose descriptor is the least number the process
  does not use: 0 is kept for the context manager, every other node gets 1 or more.
\<close>

theorem ref_for_node_correct:
  assumes "kern_ok K" and "refs_inv s" and "procs s proc = Some p" and "nodes s node = Some n"
    and "length (inorder (pr_refs_by_desc p)) + 1 < 2 ^ 32"
  shows "\<exists>res s'. binder_get_ref_for_node K proc node s = Some (res, s') \<and> refs_inv s' \<and>
    (case res of
       None \<Rightarrow> refs s' = refs s \<and> kzalloc K (ticks s) (map snd (live s)) = None
     | Some ref \<Rightarrow> \<exists>x. refs s' ref = Some x \<and> r_proc x = proc \<and> r_node x = node \<and>
         (s' = s \<or> refs s ref = None \<and> refs s' = (refs s)(ref \<mapsto> x) \<and> r_strong x = 0 \<and> r_weak x = 0 \<and>
           r_desc x \<notin> set (descs_of s p) \<and> r_desc x < 2 ^ 32 \<and>
           (\<forall>d. first_desc s node \<le> d \<longrightarrow> d < r_desc x \<longrightarrow> d \<in> set (descs_of s p))))"
proof (rule get_ref_for_node_ok [OF assms])
  fix res s' assume c: "binder_get_ref_for_node K proc node s = Some (res, s')" and i: "refs_inv s'"
    and r: "ref_result K s proc p node res s'"
  have ni: "node_inv (\<lambda>_. 0) {} s" using assms(2) by (simp add: refs_inv_def)
  note D = descs_of_ok [OF ni assms(3)]
  have fd: "first_desc s node + length (descs_of s p) < 2 ^ 32" "\<forall>x \<in> set (descs_of s p). first_desc s node \<le> Suc x"
    using assms(5) by (auto simp: first_desc_def descs_of_def)
  note least = next_desc_least [OF D(2,1) fd]
  show ?thesis
  proof (cases res)
    case None
    then show ?thesis using c i r by (simp add: ref_result_def)
  next
    case (Some ref)
    then obtain x where x: "refs s' ref = Some x" "r_proc x = proc" "r_node x = node"
      "if refs s ref = None
           then refs s' = (refs s)(ref \<mapsto> x) \<and> r_desc x = next_desc (first_desc s node) (descs_of s p)
                \<and> r_strong x = 0 \<and> r_weak x = 0
           else s' = s"
      using r by (auto simp: ref_result_def)
    have "s' = s \<or> refs s ref = None \<and> refs s' = (refs s)(ref \<mapsto> x) \<and> r_strong x = 0 \<and> r_weak x = 0 \<and>
           r_desc x \<notin> set (descs_of s p) \<and> r_desc x < 2 ^ 32 \<and>
           (\<forall>d. first_desc s node \<le> d \<longrightarrow> d < r_desc x \<longrightarrow> d \<in> set (descs_of s p))"
      using x(4) least by (auto split: if_splits)
    then show ?thesis using c i x(1-3) Some by auto
  qed
qed

section \<open>Counts\<close>

text \<open>
  \<open>binder_inc_ref\<close> raises exactly the count it is asked to raise, of exactly that reference,
  or fails with \<open>EINVAL\<close> and leaves every reference as it was; with a list to queue the node
  on it never fails. A strong count must not wrap to \<open>0\<close>. The internal count of the node keeps agreeing with its references.
\<close>

theorem inc_ref_correct:
  assumes "refs_inv s" and "refs s ref = Some r" and "work_target s target" and "may_count r strong"
  shows "\<exists>ret s'. binder_inc_ref ref strong target s = Some (ret, s') \<and> refs_inv s' \<and>
    (ret = 0 \<and> counted ref strong 1 r s s' \<or> ret = - EINVAL \<and> refs s' = refs s) \<and> (target \<noteq> None \<longrightarrow> ret = 0)"
  by (rule inc_ref_ok [OF assms]) blast

text \<open>
  C10. \<open>binder_dec_ref\<close> refuses with \<open>EINVAL\<close> and without any effect to lower a count that is 0,
  whatever user space asks for. Otherwise it lowers that count, and when both counts have
  reached 0 the reference is destroyed, and only then.
\<close>

theorem dec_ref_correct:
  assumes "kern_ok K" and "refs_inv s" and "refs s ref = Some r"
  shows "\<exists>ret s'. binder_dec_ref K ref strong s = Some (ret, s') \<and> refs_inv s' \<and>
    (if (if strong then r_strong r = 0 else r_weak r = 0) then ret = - EINVAL \<and> s' = s
     else ret = 0 \<and> dropped ref strong r s s')"
  by (rule dec_ref_drops [OF assms, of strong]) blast

theorem dec_ref_correct_witness:
  "\<exists>ret s'. binder_dec_ref demo_kern 3 True demo_ref = Some (ret, s') \<and> ret = - EINVAL \<and> s' = demo_ref"
proof -
  obtain x where x: "refs demo_ref 3 = Some x" "r_strong x = 0" using demo_ref_state(3) by blast
  from dec_ref_correct [OF demo_kern_ok demo_ref_state(1) x(1), of True] x(2) show ?thesis by simp
qed

text \<open>
  C4. Any sequence of the operations on nodes and references, on objects that exist, giving
  back only counts that are held and never raising a strong count from \<open>2 ^ 32 - 1\<close> to \<open>0\<close>, runs
  without a crash. After it every node's internal count, an \<open>int\<close> of 32 bits, is the number of
  its references that are strong, modulo \<open>2 ^ 32\<close>; the trees and lists agree with the objects, and
  no reference is left to a node that is gone. The counters wrap as the code's do: without the
  restriction \<open>2 ^ 32\<close> acquires would bring the strong count of a reference back to \<open>0\<close> while its
  node still counts it.
\<close>

theorem ref_run_safe:
  assumes "ref_state K s" and "admissible ref_event_ok (ref_step K) es s"
  shows "\<exists>s'. run (ref_step K) es s = Some s' \<and> ref_state K s'"
  by (rule ref_ops.run_safe [OF assms])

theorem ref_run_safe_witness:
  "\<exists>s'. run (ref_step demo_kern) [Ev_Get_Ref 1 2, Ev_Dec_Ref 3 True, Ev_Delete_Ref 3] demo_node = Some s' \<and> ref_state demo_kern s'"
proof (rule ref_run_safe)
  show "ref_state demo_kern demo_node" using demo_node_state by (simp add: ref_state_def)
  obtain p where p: "procs demo_node 1 = Some p" "pr_refs_by_desc p = Leaf" using demo_node_eval(1) by blast
  obtain x where x: "refs demo_ref 3 = Some x" "r_strong x = 0" using demo_ref_state(3) by blast
  have "binder_dec_ref demo_kern 3 True demo_ref = Some (- EINVAL, demo_ref)" using x by (simp add: binder_dec_ref_def)
  then show "admissible ref_event_ok (ref_step demo_kern) [Ev_Get_Ref 1 2, Ev_Dec_Ref 3 True, Ev_Delete_Ref 3] demo_node"
    using p x demo_node_eval(3) demo_ref_result by (simp del: One_nat_def split: option.split)
qed

end
