(* ===== verification/Protocol_Theorems.thy ===== *)
theory Protocol_Theorems
  imports Read_Bounds Words Ref_Theorems
begin

text \<open>
  The protocol between the driver and the threads of a process: how commands are consumed,
  what the owner of a node is told, what the control commands refuse, and how lists of work
  and logs behave.
\<close>

section \<open>Consuming commands\<close>

lemma write_command_result:
  assumes "write_command K current proc thread cmd ptr s = Some (r, s')"
  shows "(\<forall>p. r = Inr p \<longrightarrow> ptr \<le> p \<and> p \<le> ptr + 40) \<and> (\<forall>e. r = Inl e \<longrightarrow> e = - EFAULT \<or> e = - EINVAL)"
  using assms
  by (auto simp: write_command_def write_count_def write_done_def write_free_buffer_def write_transaction_def
      write_death_def write_death_done_def sizeof_tx_data_def split: if_splits option.splits prod.splits bind_splits)

definition error_pending :: "addr \<Rightarrow> driver \<Rightarrow> bool" where
  "error_pending thread s \<longleftrightarrow> (\<exists>th. threads s thread = Some th \<and> th_return_error th \<noteq> BR_OK)"

lemma write_loop_result:
  assumes "thread_write_loop K current proc thread e ptr c s = Some (ret, p, s')"
  shows "ret \<in> {0, - EFAULT, - EINVAL} \<and> (p = c \<or> ptr \<le> p \<and> p < e + 44) \<and>
    (ret = 0 \<longrightarrow> p = c \<and> e \<le> ptr \<or> e \<le> p \<or> error_pending thread s')"
  using assms
proof (induction K current proc thread e ptr c s rule: thread_write_loop.induct)
  case (1 K current proc thread e ptr c s)
  obtain th where th: "threads s thread = Some th"
    using 1(2) by (subst (asm) thread_write_loop.simps) (auto split: option.split_asm)
  show ?case
  proof (cases "ptr < e \<and> th_return_error th = BR_OK")
    case False
    then have eq: "ret = 0" "p = c" "s' = s"
      using 1(2) th by (subst (asm) thread_write_loop.simps, auto)+
    then show ?thesis using False th by (auto simp: error_pending_def)
  next
    case True
    obtain v s1 where g: "get_user K ptr s = (v, s1)" by fastforce
    show ?thesis
    proof (cases v)
      case None
      then have "ret = - EFAULT" "p = c"
        using 1(2) th True g by (subst (asm) thread_write_loop.simps, simp)+
      then show ?thesis by (simp add: EFAULT_def)
    next
      case (Some cmd)
      obtain s2 where s2: "count_bc proc thread cmd s1 = Some s2"
        using 1(2) th True g Some by (subst (asm) thread_write_loop.simps) (auto split: option.split_asm)
      obtain r s3 where s3: "write_command K current proc thread cmd (ptr + 4) s2 = Some (r, s3)"
        using 1(2) th True g Some s2 by (subst (asm) thread_write_loop.simps) (auto split: option.split_asm)
      note res = write_command_result [OF s3]
      show ?thesis
      proof (cases r)
        case (Inl err)
        then have "ret = err" "p = c"
          using 1(2) th True g Some s2 s3 by (subst (asm) thread_write_loop.simps, simp)+
        then show ?thesis using res Inl by (auto simp: EFAULT_def EINVAL_def)
      next
        case (Inr q)
        then have rest: "thread_write_loop K current proc thread e q q s3 = Some (ret, p, s')"
          using 1(2) th True g Some s2 s3 by (subst (asm) thread_write_loop.simps) simp
        have q: "ptr + 4 \<le> q" "q \<le> ptr + 44" using res Inr by auto
        have "ret \<in> {0, - EFAULT, - EINVAL} \<and> (p = q \<or> q \<le> p \<and> p < e + 44) \<and>
          (ret = 0 \<longrightarrow> p = q \<and> e \<le> q \<or> e \<le> p \<or> error_pending thread s')"
          using 1(1) [OF th True g [symmetric] Some s2 s3 refl Inr rest] by simp
        then show ?thesis using q True by auto
      qed
    qed
  qed
qed

text \<open>
  \<open>binder_thread_write\<close>, when it returns, returns 0, \<open>-EFAULT\<close> or \<open>-EINVAL\<close>, and reports how far it got: it
  returns 0 only when the whole buffer was consumed or an error is waiting for the thread,
  and what it reports is never negative and passes the end of the buffer by less than 44
  bytes, the size of the longest command.
\<close>

theorem write_consumes:
  assumes "binder_thread_write K current proc thread buffer sz 0 s = Some (ret, consumed, s')"
    and "0 \<le> sz" and "int buffer + sz + 44 < 2 ^ (8 * ptr_bytes K)" and "sz + 44 < 2 ^ (8 * ptr_bytes K - 1)"
  shows "ret \<in> {0, - EFAULT, - EINVAL} \<and> 0 \<le> consumed \<and> consumed < sz + 44 \<and>
    (ret = 0 \<longrightarrow> sz \<le> consumed \<or> error_pending thread s')"
proof -
  let ?M = "2 ^ (8 * ptr_bytes K) :: int"
  have b: "ptr_add K buffer 0 = buffer" "ptr_add K buffer sz = nat (int buffer + sz)"
  proof -
    have "int buffer < ?M" "int buffer + sz < ?M" using assms(2,3) by linarith+
    then show "ptr_add K buffer 0 = buffer" "ptr_add K buffer sz = nat (int buffer + sz)"
      using assms(2) by (simp_all add: ptr_add_def)
  qed
  obtain p where p: "thread_write_loop K current proc thread (nat (int buffer + sz)) buffer buffer s = Some (ret, p, s')"
    and c: "consumed = ptr_diff K p buffer"
    using assms(1) by (auto simp: binder_thread_write_def Let_def b)
  note res = write_loop_result [OF p]
  then obtain d where d: "p = buffer + d" by (auto simp: le_iff_add)
  have lt: "int d < sz + 44" using res d assms(2) by auto
  have "(2::int) ^ (8 * ptr_bytes K - 1) \<le> ?M" by (rule power_increasing) auto
  then have "int d mod ?M = int d" using assms(4) lt by (intro mod_pos_pos_trivial) linarith+
  moreover have "int d < 2 ^ (8 * ptr_bytes K - 1)" using assms(4) lt by linarith
  ultimately have "consumed = int d" by (simp add: c d ptr_diff_def Let_def)
  then show ?thesis using res d lt by auto
qed

lemma demo_u_read: "u_read demo_kern = (\<lambda>n a len. Some (replicate len 0))"
  by (simp add: demo_kern_def)

lemma demo_get_user: "a + 4 < 2 ^ 32 \<Longrightarrow> get_user demo_kern a s = (Some 0, tick s)"
  by (simp add: get_user_def copy_from_user_def demo_u_read get_u32_def le32_def)

lemmas BC_eval = BC_INCREFS_def BC_ACQUIRE_def BC_RELEASE_def BC_DECREFS_def BC_INCREFS_DONE_def BC_ACQUIRE_DONE_def
  BC_ATTEMPT_ACQUIRE_def BC_ACQUIRE_RESULT_def BC_FREE_BUFFER_def BC_TRANSACTION_def BC_REPLY_def BC_REGISTER_LOOPER_def
  BC_ENTER_LOOPER_def BC_EXIT_LOOPER_def BC_REQUEST_DEATH_NOTIFICATION_def BC_CLEAR_DEATH_NOTIFICATION_def
  BC_DEAD_BINDER_DONE_def BC_code_def IOC_def IOC_WRITE_def IOC_READ_def

lemma demo_write:
  "\<exists>s'. binder_thread_write demo_kern 1 1 2 4096 8 0 demo_thread = Some (- EINVAL, 0, s')"
proof -
  obtain p th where p: "procs demo_thread 1 = Some p" "threads demo_thread 2 = Some th" "th_return_error th = BR_OK"
    using demo_thread_eval by blast
  obtain s2 where s2: "count_bc 1 2 0 (tick demo_thread) = Some s2" using p by (auto simp: count_bc_def tick_def Let_def simp del: One_nat_def)
  have "write_command demo_kern 1 1 2 0 4100 s2 = Some (Inl (- EINVAL), s2)"
    by (simp add: write_command_def BC_eval)
  then have "thread_write_loop demo_kern 1 1 2 4104 4096 4096 demo_thread = Some (- EINVAL, 4096, s2)"
    using p s2 by (subst thread_write_loop.simps) (simp add: demo_get_user)
  then show ?thesis by (simp add: binder_thread_write_def ptr_add_def ptr_diff_def)
qed

theorem write_consumes_witness:
  "\<exists>ret consumed s'. binder_thread_write demo_kern 1 1 2 4096 8 0 demo_thread = Some (ret, consumed, s') \<and>
     ret = - EINVAL \<and> 0 \<le> consumed \<and> consumed < 52"
proof -
  obtain s' where w: "binder_thread_write demo_kern 1 1 2 4096 8 0 demo_thread = Some (- EINVAL, 0, s')"
    using demo_write by blast
  from write_consumes [OF w] w show ?thesis by simp
qed

section \<open>The search through the transaction stack\<close>

text \<open>The transactions from \<open>t\<close> on, each the parent of the one before: the list that the loop walks.\<close>

fun stack_is :: "driver \<Rightarrow> addr option \<Rightarrow> addr list \<Rightarrow> bool" where
  "stack_is s t [] \<longleftrightarrow> t = None"
| "stack_is s t (a # as) \<longleftrightarrow> t = Some a \<and> (\<exists>x. transactions s a = Some x \<and> stack_is s (t_from_parent x) as)"

definition sender_of :: "driver \<Rightarrow> addr \<Rightarrow> addr option" where
  "sender_of s a = (case transactions s a of None \<Rightarrow> None | Some x \<Rightarrow> t_from x)"

definition sent_by :: "driver \<Rightarrow> addr \<Rightarrow> addr \<Rightarrow> bool" where
  "sent_by s proc a \<longleftrightarrow> (\<exists>f h. sender_of s a = Some f \<and> threads s f = Some h \<and> th_proc h = proc)"

lemma stack_unique: "stack_is s t as \<Longrightarrow> stack_is s t bs \<Longrightarrow> as = bs"
proof (induction as arbitrary: t bs)
  case (Cons a as)
  then show ?case by (cases bs) auto
qed (case_tac bs, auto)

lemma stack_suffix: "stack_is s t (us @ a # vs) \<Longrightarrow> stack_is s (Some a) (a # vs)"
  by (induction us arbitrary: t) auto

lemma stack_distinct: "stack_is s t as \<Longrightarrow> distinct as"
proof (induction as arbitrary: t)
  case (Cons a as)
  have "a \<notin> set as"
  proof
    assume "a \<in> set as"
    then obtain us vs where as: "as = us @ a # vs" by (auto dest: split_list)
    then have "stack_is s (Some a) (a # vs)" using Cons.prems stack_suffix [of s t "a # us" a vs] by simp
    moreover have "stack_is s (Some a) (a # as)" using Cons.prems by auto
    ultimately have "vs = as" using stack_unique by blast
    then show False using as by (metis append_eq_append_conv append_self_conv2 append_Cons append_Nil list.distinct(1) not_Cons_self2 append.assoc)
  qed
  then show ?case using Cons by auto
qed simp

lemma stack_short:
  assumes "mem_ok s" and "stack_is s t as"
  shows "length as \<le> length (live s)"
proof -
  have "a \<in> set as \<Longrightarrow> transactions s a \<noteq> None" for a
    using assms(2) by (induction as arbitrary: t) auto
  then have "Pair BINDER_STAT_TRANSACTION ` set as \<subseteq> set (live s)" using assms(1) by (auto simp: mem_ok_def)
  then have "card (Pair BINDER_STAT_TRANSACTION ` set as) \<le> card (set (live s))" by (rule card_mono [rotated]) simp
  also have "card (Pair BINDER_STAT_TRANSACTION ` set as) = length as"
    using stack_distinct [OF assms(2)] by (simp add: card_image inj_on_def distinct_card)
  finally show ?thesis using card_length [of "live s"] by linarith
qed

lemma stack_search_finds:
  assumes "\<forall>a x f. transactions s a = Some x \<longrightarrow> t_from x = Some f \<longrightarrow> threads s f \<noteq> None"
  shows "stack_is s t as \<Longrightarrow> length as \<le> n \<Longrightarrow>
    stack_search n s proc t best = Some (last (best # map (sender_of s) (filter (sent_by s proc) as)))"
proof (induction as arbitrary: t n best)
  case (Cons a as)
  then obtain x m where x: "t = Some a" "transactions s a = Some x" "stack_is s (t_from_parent x) as" "n = Suc m" "length as \<le> m"
    by (cases n) auto
  have best: "(case t_from x of None \<Rightarrow> Some best
                 | Some f \<Rightarrow> do { h \<leftarrow> threads s f; Some (if th_proc h = proc then Some f else best) }) =
      Some (if sent_by s proc a then sender_of s a else best)"
  proof (cases "t_from x")
    case (Some f)
    then obtain h where "threads s f = Some h" using assms x(2) by blast
    then show ?thesis using Some x(2) by (simp add: sent_by_def sender_of_def)
  qed (use x(2) in \<open>simp add: sent_by_def sender_of_def\<close>)
  show ?case using x(1,2,4) best Cons.IH [OF x(3,5)] by simp
qed simp

lemma stack_search_walked: "stack_search n s proc t best = Some r \<Longrightarrow> \<exists>as. stack_is s t as"
proof (induction n s proc t best rule: stack_search.induct)
  case (1 n s proc best)
  then show ?case by (intro exI [of _ "[]"]) simp
next
  case (3 n s proc a best)
  then obtain x b where "transactions s a = Some x" "stack_search n s proc (t_from_parent x) b = Some r"
    by (auto simp: bind_eq_Some_conv)
  moreover from this 3 obtain as where "stack_is s (t_from_parent x) as" by (auto simp: bind_eq_Some_conv)
  ultimately show ?case by (intro exI [of _ "a # as"]) auto
qed simp

text \<open>
  C29. The search of \<open>binder_transaction\<close> through the caller's stack for a thread of the target
  process that waits for an answer ends, whatever the stack looks like, whenever following the
  parents ends: as many steps as there are live objects are enough, since no transaction occurs
  twice. It answers with the sender of the last transaction on the stack that the target
  process sent, and if there is none with what it was given. Only for a stack that runs in a
  circle or into freed memory does the model's loop give up, where the code's does not end or
  reads freed memory.
\<close>

theorem stack_search_ends:
  assumes "mem_ok s" and "\<forall>a x f. transactions s a = Some x \<longrightarrow> t_from x = Some f \<longrightarrow> threads s f \<noteq> None"
  shows "(\<forall>as. stack_is s t as \<longrightarrow> stack_search (length (live s)) s proc t best =
        Some (last (best # map (sender_of s) (filter (sent_by s proc) as)))) \<and>
    ((\<nexists>as. stack_is s t as) \<longrightarrow> stack_search (length (live s)) s proc t best = None)"
  using stack_search_finds [OF assms(2)] stack_short [OF assms(1)] stack_search_walked
  by (metis (no_types, lifting) option.exhaust)

definition demo_tx :: "addr option \<Rightarrow> addr option \<Rightarrow> binder_transaction" where
  "demo_tx from parent = \<lparr>t_debug_id = 1, t_from = from, t_from_parent = parent, t_to_proc = None, t_to_thread = None,
     t_to_parent = None, t_need_reply = True, t_buffer = None, t_code = 0, t_flags = 0, t_priority = 0,
     t_saved_priority = 0, t_sender_euid = 0\<rparr>"

definition demo_stack :: driver where
  "demo_stack = (boot (\<lambda>_. Map.empty) (\<lambda>_. 0))\<lparr>threads := [2 \<mapsto> new_thread 9 1, 3 \<mapsto> new_thread 8 1],
     transactions := [5 \<mapsto> demo_tx (Some 3) (Some 6), 6 \<mapsto> demo_tx (Some 2) (Some 7), 7 \<mapsto> demo_tx None None],
     live := [(BINDER_STAT_THREAD, 2), (BINDER_STAT_THREAD, 3), (BINDER_STAT_TRANSACTION, 5), (BINDER_STAT_TRANSACTION, 6),
       (BINDER_STAT_TRANSACTION, 7)]\<rparr>"

theorem stack_search_ends_witness: "stack_search 5 demo_stack 9 (Some 5) None = Some (Some 2)"
proof -
  have m: "mem_ok demo_stack" by (auto simp: mem_ok_def demo_stack_def boot_def)
  have t: "\<forall>a x f. transactions demo_stack a = Some x \<longrightarrow> t_from x = Some f \<longrightarrow> threads demo_stack f \<noteq> None"
    by (auto simp: demo_stack_def demo_tx_def split: if_splits)
  have st: "stack_is demo_stack (Some 5) [5, 6, 7]" by (simp add: demo_stack_def demo_tx_def)
  have "filter (sent_by demo_stack 9) [5, 6, 7] = [6]" "sender_of demo_stack 6 = Some 2" "length (live demo_stack) = 5"
    by (simp_all add: sent_by_def sender_of_def demo_stack_def demo_tx_def new_thread_def)
  with stack_search_ends [OF m t, THEN conjunct1, rule_format, OF st, of 9 None] show ?thesis by (simp del: filter.simps)
qed

section \<open>What the owner of a node is told\<close>

text \<open>The commands the owner reads, one after the other, while nobody else changes the node.\<close>

fun announcements :: "nat \<Rightarrow> binder_node \<Rightarrow> br_code list \<times> binder_node" where
  "announcements 0 n = ([], n)"
| "announcements (Suc k) n =
     (case node_command n of (cmd, n') \<Rightarrow>
        if cmd = BR_NOOP then ([], n)
        else (case announcements k n' of (cs, m) \<Rightarrow> (cmd # cs, m)))"

fun flag_command :: "bool \<Rightarrow> bool \<Rightarrow> bool \<times> bool \<Rightarrow> br_code \<times> bool \<times> bool" where
  "flag_command weak strong (hw, hs) =
     (if weak \<and> \<not> hw then (BR_INCREFS, True, hs) else if strong \<and> \<not> hs then (BR_ACQUIRE, hw, True)
      else if \<not> strong \<and> hs then (BR_RELEASE, hw, False) else if \<not> weak \<and> hw then (BR_DECREFS, False, hs)
      else (BR_NOOP, hw, hs))"

fun flag_run :: "nat \<Rightarrow> bool \<Rightarrow> bool \<Rightarrow> bool \<times> bool \<Rightarrow> br_code list \<times> bool \<times> bool" where
  "flag_run 0 weak strong h = ([], h)"
| "flag_run (Suc k) weak strong h =
     (case flag_command weak strong h of (cmd, h') \<Rightarrow>
        if cmd = BR_NOOP then ([], h) else (case flag_run k weak strong h' of (cs, g) \<Rightarrow> (cmd # cs, g)))"

definition flags :: "binder_node \<Rightarrow> bool \<times> bool" where
  "flags n = (n_has_weak_ref n, n_has_strong_ref n)"

definition counts_ok :: "binder_node \<Rightarrow> bool" where
  "counts_ok n \<longleftrightarrow> (n_has_strong_ref n \<or> n_local_strong_refs n + 1 \<noteq> 0) \<and>
     (n_has_weak_ref n \<or> n_local_weak_refs n + 1 \<noteq> 0)"

lemma node_command_flags:
  assumes "node_command n = (cmd, n')" and "counts_ok n"
  shows "node_weak n' = node_weak n" and "node_strong n' = node_strong n" and "counts_ok n'"
    and "flag_command (node_weak n) (node_strong n) (flags n) = (cmd, flags n')"
  using assms by (auto simp: node_command_def counts_ok_def node_weak_def node_strong_def flags_def split: if_splits)

lemma announcements_flags:
  "announcements k n = (cs, m) \<Longrightarrow> counts_ok n \<Longrightarrow>
     flag_run k (node_weak n) (node_strong n) (flags n) = (cs, flags m) \<and> node_weak m = node_weak n \<and> node_strong m = node_strong n"
proof (induction k arbitrary: n cs m)
  case (Suc k)
  obtain cmd n' where c: "node_command n = (cmd, n')" by fastforce
  note f = node_command_flags [OF c Suc.prems(2)]
  obtain cs' m' where a: "announcements k n' = (cs', m')" by fastforce
  show ?case
  proof (cases "cmd = BR_NOOP")
    case True
    then have "cs = []" "m = n" using Suc.prems(1) c by simp_all
    then show ?thesis using f(4) True by simp
  next
    case False
    then have "cs = cmd # cs'" "m = m'" using Suc.prems(1) c a by simp_all
    then show ?thesis using Suc.IH [OF a f(3)] f False by simp
  qed
qed simp

lemma flag_run_3:
  assumes "strong \<Longrightarrow> weak" and "hs \<Longrightarrow> hw"
  shows "fst (flag_run (Suc (Suc (Suc k))) weak strong (hw, hs)) \<in>
      {[], [BR_INCREFS], [BR_INCREFS, BR_ACQUIRE], [BR_ACQUIRE], [BR_RELEASE], [BR_DECREFS], [BR_RELEASE, BR_DECREFS]}"
    and "snd (flag_run (Suc (Suc (Suc k))) weak strong (hw, hs)) = (weak, strong)"
  using assms by (cases weak; cases strong; cases hw; cases hs; simp)+

text \<open>
  C30. The owner of a node is told what changed in at most two commands, in an order that never
  leaves it with a strong reference it has no weak reference for: \<open>BR_INCREFS\<close> before
  \<open>BR_ACQUIRE\<close> and \<open>BR_RELEASE\<close> before \<open>BR_DECREFS\<close>. Afterwards what the owner holds is exactly
  what is wanted, and the next command is \<open>BR_NOOP\<close>.
\<close>

theorem node_announcements:
  assumes "n_has_strong_ref n \<longrightarrow> n_has_weak_ref n"
    and "n_local_strong_refs n + 1 \<noteq> 0" and "n_local_weak_refs n + 1 \<noteq> 0"
    and "announcements (Suc (Suc (Suc k))) n = (cs, m)"
  shows "cs \<in> {[], [BR_INCREFS], [BR_INCREFS, BR_ACQUIRE], [BR_ACQUIRE], [BR_RELEASE], [BR_DECREFS], [BR_RELEASE, BR_DECREFS]} \<and>
    n_has_weak_ref m = node_weak n \<and> n_has_strong_ref m = node_strong n \<and> node_command m = (BR_NOOP, m)"
proof -
  have ok: "counts_ok n" using assms(2,3) by (simp add: counts_ok_def)
  note f = announcements_flags [OF assms(4) ok]
  have sw: "node_strong n \<Longrightarrow> node_weak n" by (simp add: node_weak_def)
  have hsw: "n_has_strong_ref n \<Longrightarrow> n_has_weak_ref n" using assms(1) by simp
  note r = flag_run_3 [where strong = "node_strong n" and weak = "node_weak n" and hs = "n_has_strong_ref n"
      and hw = "n_has_weak_ref n" and k = k, OF sw hsw]
  have fm: "flags m = (node_weak n, node_strong n)" using f r(2) assms(1) by (simp add: flags_def del: flag_run.simps)
  then have "node_command m = (BR_NOOP, m)" using f by (simp add: flags_def node_command_def)
  then show ?thesis using f r(1) assms(1) fm by (simp add: flags_def del: flag_run.simps)
qed

theorem node_announcements_witness:
  "\<exists>m. announcements 3 (blank_node\<lparr>n_internal_strong_refs := 1\<rparr>) = ([BR_INCREFS, BR_ACQUIRE], m) \<and>
     n_has_weak_ref m \<and> n_has_strong_ref m \<and> node_command m = (BR_NOOP, m)"
proof -
  let ?n = "blank_node\<lparr>n_internal_strong_refs := 1\<rparr>"
  obtain cs m where a: "announcements (Suc (Suc (Suc 0))) ?n = (cs, m)" by fastforce
  then have "cs = [BR_INCREFS, BR_ACQUIRE]"
    by (auto simp: node_command_def node_weak_def node_strong_def blank_node_def split: prod.splits)
  moreover have "n_has_weak_ref m \<and> n_has_strong_ref m \<and> node_command m = (BR_NOOP, m)"
    using node_announcements [OF _ _ _ a] by (simp add: blank_node_def node_weak_def node_strong_def)
  ultimately show ?thesis using a by (simp add: numeral_3_eq_3)
qed

section \<open>The transaction log\<close>

text \<open>
  The ring of \<open>binder_transaction_log\<close> refines a list that keeps the newest 32 entries:
  after any number of transactions what is shown are the last entries written, in order, and
  as many of them as there were, up to 32.
\<close>

theorem log_keeps_newest:
  assumes "log_ok log"
  shows "\<exists>k. log_contents (fold log_write es log) = drop k (log_contents log @ es) \<and>
    length (log_contents (fold log_write es log)) = min LOG_SIZE (length (log_contents log) + length es)"
  by (rule log_writes(2) [OF assms])

section \<open>The structure of an ioctl\<close>

lemma s32_u32: "- (2 ^ 31) \<le> v \<Longrightarrow> v < 2 ^ 31 \<Longrightarrow> s32 (u32_of v) = v"
proof -
  assume v: "- (2 ^ 31) \<le> v" "v < 2 ^ 31"
  have "(word_of_int (v mod 2 ^ 32) :: 32 word) = word_of_int v"
    by (simp add: word_of_int_eq_iff take_bit_eq_mod)
  then show ?thesis using v by (simp add: s32_def u32_of_def signed_of_int signed_take_bit_int_eq_self)
qed

lemma u32_less: "u32_of v < 2 ^ 32"
  by (simp add: u32_of_def nat_less_iff)

text \<open>
  \<open>struct binder_write_read\<close> survives the way out and back in: what the driver copies to
  the caller at the end of an \<open>ioctl\<close> reads back as the same structure, so a caller that
  passes it again continues where it was.
\<close>

theorem bwr_roundtrip:
  assumes "\<forall>v \<in> {write_size b, write_consumed b, read_size b, read_consumed b}. - (2 ^ 31) \<le> v \<and> v < 2 ^ 31"
    and "write_buffer b < 2 ^ 32" and "read_buffer b < 2 ^ 32"
  shows "length (bytes_of_bwr b) = 24 \<and> bwr_of_bytes (bytes_of_bwr b) = b"
proof -
  let ?ws = "[u32_of (write_size b), u32_of (write_consumed b), write_buffer b,
              u32_of (read_size b), u32_of (read_consumed b), read_buffer b]"
  have w: "get_u32 (\<lambda>i. bytes_of_bwr b ! i) (4 * i) = ?ws ! i mod 2 ^ 32" if "i < 6" for i
    using get_word [of i ?ws] that by (simp add: bytes_of_bwr_def)
  have lt: "u32_of v mod 4294967296 = u32_of v" for v using u32_less [of v] by simp
  have g: "get_u32 (\<lambda>i. bytes_of_bwr b ! i) 0 = u32_of (write_size b)" "get_u32 (\<lambda>i. bytes_of_bwr b ! i) 4 = u32_of (write_consumed b)"
    "get_u32 (\<lambda>i. bytes_of_bwr b ! i) 8 = write_buffer b" "get_u32 (\<lambda>i. bytes_of_bwr b ! i) 12 = u32_of (read_size b)"
    "get_u32 (\<lambda>i. bytes_of_bwr b ! i) 16 = u32_of (read_consumed b)" "get_u32 (\<lambda>i. bytes_of_bwr b ! i) 20 = read_buffer b"
    using w [of 0] w [of 1] w [of 2] w [of 3] w [of 4] w [of 5] assms(2,3) by (simp_all add: lt)
  have s: "s32 (u32_of (write_size b)) = write_size b" "s32 (u32_of (write_consumed b)) = write_consumed b"
    "s32 (u32_of (read_size b)) = read_size b" "s32 (u32_of (read_consumed b)) = read_consumed b"
    using assms(1) by (simp_all add: s32_u32)
  have "bwr_of_bytes (bytes_of_bwr b) = b" unfolding bwr_of_bytes_def Let_def g s by simp
  then show ?thesis by (simp add: bytes_of_bwr_def)
qed

section \<open>Becoming the context manager\<close>

lemma uid_frame [simp]:
  "binder_context_mgr_uid (set_proc p x s) = binder_context_mgr_uid s" "binder_context_mgr_uid (set_node n y s) = binder_context_mgr_uid s"
  "binder_context_mgr_uid (set_link w l s) = binder_context_mgr_uid s"
  "binder_context_mgr_uid (binder_stats_created ty s) = binder_context_mgr_uid s"
  by (simp_all add: set_proc_def set_node_def set_link_def binder_stats_created_def)

lemma kmalloc_uid: "kmalloc K ty s = (r, s') \<Longrightarrow> binder_context_mgr_uid s' = binder_context_mgr_uid s"
  by (auto simp: kmalloc_def split: option.splits)

lemma new_node_uid:
  assumes "binder_new_node K proc ptr cookie s = Some (r, s')"
  shows "binder_context_mgr_uid s' = binder_context_mgr_uid s"
proof -
  obtain p found where p: "procs s proc = Some p" "rb_search (key_dir (node_key s) ptr) (pr_nodes p) = Some found"
    using assms by (auto simp: binder_new_node_def bind_eq_Some_conv)
  obtain m s1 where m: "kmalloc K BINDER_STAT_NODE s = (m, s1)" by fastforce
  show ?thesis
    using assms p m kmalloc_uid [OF m]
    by (cases found; cases m) (auto simp: binder_new_node_def Let_def bind_eq_Some_conv)
qed

lemma uid_inv: "refs_inv (s\<lparr>binder_context_mgr_uid := u\<rparr>) = refs_inv s"
  "fresh_links (s\<lparr>binder_context_mgr_uid := u\<rparr>) = fresh_links s"
proof -
  let ?t = "s\<lparr>binder_context_mgr_uid := u\<rparr>"
  have k: "desc_key ?t = desc_key s" "ref_node_key ?t = ref_node_key s" "node_key ?t = node_key s"
    by (simp_all add: fun_eq_iff desc_key_def ref_node_key_def node_key_def)
  have cs: "count_strong ?t = count_strong s" by (rule count_strong_cong) simp
  have l: "list_live l ?t = list_live l s" for l by (cases l) simp_all
  have e: "base_ok ?t = base_ok s" "dead_ok ?t = dead_ok s" "deaths_ok ?t = deaths_ok s"
    "node_ok dl ?t = node_ok dl s" "ref_ok ?t = ref_ok s" "proc_ok ?t = proc_ok s" for dl
    by (simp_all add: fun_eq_iff base_ok_def mem_ok_def stats_ok_def links_ok_def dead_ok_def deaths_ok_def
        node_ok_def owner_ok_def ref_ok_def proc_ok_def k cs l split: option.split)
  show "refs_inv (s\<lparr>binder_context_mgr_uid := u\<rparr>) = refs_inv s" by (simp add: refs_inv_def node_inv_def e)
  show "fresh_links (s\<lparr>binder_context_mgr_uid := u\<rparr>) = fresh_links s"
    by (simp add: fresh_links_def split: work.split)
qed

text \<open>
  There is at most one context manager, and the name is tied to a user: while there is one,
  a process that wants to become it gets \<open>-EBUSY\<close> and nothing changes; once a process of some
  user has been it, a process of another user gets \<open>-EPERM\<close>; otherwise the caller's new node
  becomes the context manager with one strong and one weak count and nothing else refers to
  it, or the answer is \<open>-ENOMEM\<close>: memory is exhausted, or the process has a node at address 0.
\<close>

theorem context_manager_rules:
  assumes "kern_ok K" and "refs_inv s" and "fresh_links s" and "procs s proc \<noteq> None"
  shows "\<exists>ret s'. set_context_mgr K current proc s = Some (ret, s') \<and>
    (if binder_context_mgr_node s \<noteq> None then ret = - EBUSY \<and> s' = s
     else if binder_context_mgr_uid s \<notin> {None, Some (task_euid K current)} then ret = - EPERM \<and> s' = s
     else binder_context_mgr_uid s' = Some (task_euid K current) \<and>
       (if ret = 0
        then \<exists>node n. binder_context_mgr_node s' = Some node \<and> nodes s node = None \<and> nodes s' node = Some n \<and>
          n_proc n = Some proc \<and> n_has_strong_ref n \<and> n_has_weak_ref n \<and> n_refs n = []
        else ret = - ENOMEM \<and> binder_context_mgr_node s' = None \<and>
          ((\<exists>a n. nodes s a = Some n \<and> n_proc n = Some proc \<and> n_ptr n = 0) \<or>
           kzalloc K (ticks s) (map snd (live s)) = None)))"
proof (cases "binder_context_mgr_node s \<noteq> None \<or>
    binder_context_mgr_uid s \<noteq> None \<and> binder_context_mgr_uid s \<noteq> Some (task_euid K current)")
  case True
  then show ?thesis by (auto simp: set_context_mgr_def)
next
  case False
  define s1 where "s1 = s\<lparr>binder_context_mgr_uid := Some (task_euid K current)\<rparr>"
  obtain p where p: "procs s1 proc = Some p" using assms(4) by (auto simp: s1_def)
  have i: "refs_inv s1" "fresh_links s1" using assms(2,3) by (simp_all add: s1_def uid_inv)
  obtain res s2 where n: "binder_new_node K proc 0 0 s1 = Some (res, s2)"
    and r: "case res of
        None \<Rightarrow> nodes s2 = nodes s1 \<and> ((\<exists>a n. nodes s1 a = Some n \<and> n_proc n = Some proc \<and> n_ptr n = 0)
                  \<or> kzalloc K (ticks s1) (map snd (live s1)) = None)
      | Some node \<Rightarrow> \<exists>n. nodes s1 node = None \<and> nodes s2 = (nodes s1)(node \<mapsto> n) \<and> n_proc n = Some proc
                  \<and> n_ptr n = 0 \<and> n_cookie n = 0 \<and> n_refs n = []"
    by (rule new_node_ok [OF assms(1) i p, of 0 0])
  have u: "binder_context_mgr_uid s2 = Some (task_euid K current)"
    using new_node_uid [OF n] by (simp add: s1_def)
  have c: "set_context_mgr K current proc s =
     (case res of
        None \<Rightarrow> Some (- ENOMEM, s2\<lparr>binder_context_mgr_node := None\<rparr>)
      | Some node \<Rightarrow> do { n \<leftarrow> nodes s2 node;
          Some (0, set_node node (n\<lparr>n_local_weak_refs := n_local_weak_refs n + 1,
                                    n_local_strong_refs := n_local_strong_refs n + 1,
                                    n_has_strong_ref := True, n_has_weak_ref := True\<rparr>)
                  (s2\<lparr>binder_context_mgr_node := Some node\<rparr>)) })"
    using False n by (auto simp: set_context_mgr_def s1_def [symmetric] split: option.split)
  show ?thesis
  proof (cases res)
    case None
    then show ?thesis using False r u by (simp add: c s1_def ENOMEM_def)
  next
    case (Some node)
    then show ?thesis using False r u by (auto simp: c s1_def set_node_def)
  qed
qed

section \<open>Work that is thrown away\<close>

text \<open>
  Whenever \<open>binder_release_work\<close> returns, the list it was given is empty: a thread or
  process is never freed with work still queued on it. (It is a total function here: every
  round takes the first item off the list, so \<open>None\<close> is only an item that is not there.)
\<close>

theorem release_work_empties:
  assumes "binder_release_work l s = Some s'"
  shows "items s' l = []"
  using assms
proof (induction l s rule: binder_release_work.induct)
  case (1 l s)
  show ?case
  proof (cases "list_first l s")
    case None
    then show ?thesis using 1(2) by (simp add: binder_release_work.simps)
  next
    case (Some ow)
    note first = this
    show ?thesis
    proof (cases ow)
      case None
      then show ?thesis
        using 1(2) first by (auto simp: binder_release_work.simps list_first_def split: list.split_asm if_splits)
    next
      case (Some w)
      note ow = this
      obtain s1 s2 where s1: "list_del_init w s = Some s1" and s2: "undelivered w s1 = Some s2"
        and rest: "binder_release_work l s2 = Some s'"
        using 1(2) first ow by (subst (asm) binder_release_work.simps) (auto split: option.split_asm)
      show ?thesis by (rule 1(1) [OF first ow s1 s2 rest])
    qed
  qed
qed

section \<open>Who hears of a death\<close>

definition has_death :: "driver \<Rightarrow> addr \<Rightarrow> bool" where
  "has_death s ref \<longleftrightarrow> (\<exists>x. refs s ref = Some x \<and> r_death x \<noteq> None)"

definition death_of :: "driver \<Rightarrow> addr \<Rightarrow> addr set" where
  "death_of s ref = {d. \<exists>x. refs s ref = Some x \<and> r_death x = Some d}"

lemma tell_deaths_other:
  "tell_deaths rs s = Some s' \<Longrightarrow> d \<notin> (\<Union>ref \<in> set (takeWhile (has_death s) rs). death_of s ref) \<Longrightarrow>
     deaths s' d = deaths s d \<and> link_of s' (W_Death d) = link_of s (W_Death d)"
proof (induction rs arbitrary: s)
  case (Cons ref rs)
  obtain r where r: "refs s ref = Some r" using Cons(2) by (auto simp: bind_eq_Some_conv)
  show ?case
  proof (cases "r_death r")
    case None
    then show ?thesis using Cons(2) r by simp
  next
    case (Some e)
    then obtain dt s1 where
      add: "list_add_tail (W_Death e) (L_Proc (r_proc r)) (set_death e (dt\<lparr>d_type := BINDER_WORK_DEAD_BINDER\<rparr>) s) = Some s1"
      and rest: "tell_deaths rs s1 = Some s'"
      using Cons(2) r by (auto simp: bind_eq_Some_conv split: if_splits)
    have s1: "refs s1 = refs s" "deaths s1 = (deaths s)(e \<mapsto> dt\<lparr>d_type := BINDER_WORK_DEAD_BINDER\<rparr>)"
      "link_of s1 = (link_of s)(W_Death e := Linked (L_Proc (r_proc r)))"
      using add by (auto simp: list_add_tail_def set_link_def set_death_def split: if_splits)
    then have hd: "has_death s1 = has_death s" "death_of s1 = death_of s"
      by (simp_all add: has_death_def death_of_def fun_eq_iff)
    have hr: "has_death s ref" "e \<in> death_of s ref" using r Some by (simp_all add: has_death_def death_of_def)
    then have "d \<noteq> e" "d \<notin> (\<Union>ref \<in> set (takeWhile (has_death s1) rs). death_of s1 ref)"
      using Cons(3) by (auto simp: hd)
    then show ?thesis using Cons(1) [OF rest] s1 by simp
  qed
qed simp

lemma tell_deaths_told:
  assumes "tell_deaths rs s = Some s'" and "ref \<in> set (takeWhile (has_death s) rs)"
    and "refs s ref = Some x" and "r_death x = Some d"
    and "\<forall>q \<in> set rs. \<forall>q' \<in> set rs. q \<noteq> q' \<longrightarrow> death_of s q \<inter> death_of s q' = {}" and "distinct rs"
  shows "(\<exists>dt. deaths s' d = Some dt \<and> d_type dt = BINDER_WORK_DEAD_BINDER) \<and>
    link_of s' (W_Death d) = Linked (L_Proc (r_proc x))"
  using assms
proof (induction rs arbitrary: s)
  case (Cons ref' rs)
  obtain r where r: "refs s ref' = Some r" using Cons(2) by (auto simp: bind_eq_Some_conv)
  then obtain e where e: "r_death r = Some e" using Cons(3) by (auto simp: has_death_def split: if_splits)
  then obtain dt s1 where
    add: "list_add_tail (W_Death e) (L_Proc (r_proc r)) (set_death e (dt\<lparr>d_type := BINDER_WORK_DEAD_BINDER\<rparr>) s) = Some s1"
    and rest: "tell_deaths rs s1 = Some s'"
    using Cons(2) r by (auto simp: bind_eq_Some_conv split: if_splits)
  have s1: "refs s1 = refs s" "deaths s1 = (deaths s)(e \<mapsto> dt\<lparr>d_type := BINDER_WORK_DEAD_BINDER\<rparr>)"
    "link_of s1 = (link_of s)(W_Death e := Linked (L_Proc (r_proc r)))"
    using add by (auto simp: list_add_tail_def set_link_def set_death_def split: if_splits)
  then have hd: "has_death s1 = has_death s" "death_of s1 = death_of s"
    by (simp_all add: has_death_def death_of_def fun_eq_iff)
  show ?case
  proof (cases "ref = ref'")
    case True
    have "d \<notin> (\<Union>q \<in> set (takeWhile (has_death s1) rs). death_of s1 q)"
    proof
      assume "d \<in> (\<Union>q \<in> set (takeWhile (has_death s1) rs). death_of s1 q)"
      then obtain q where q: "q \<in> set rs" "d \<in> death_of s q" by (auto simp: hd dest: set_takeWhileD)
      moreover have "d \<in> death_of s ref'" using Cons(4,5) True by (simp add: death_of_def)
      ultimately show False using Cons(6,7) by (metis disjoint_iff distinct.simps(2) list.set_intros)
    qed
    then have "deaths s' d = deaths s1 d \<and> link_of s' (W_Death d) = link_of s1 (W_Death d)"
      by (rule tell_deaths_other [OF rest])
    then show ?thesis using s1 r e True Cons(4,5) by simp
  next
    case False
    then have "ref \<in> set (takeWhile (has_death s1) rs)" using Cons(3) by (auto simp: hd split: if_splits)
    then show ?thesis using Cons(1) [OF rest] Cons(4-7) s1 hd by simp
  qed
qed simp

text \<open>
  C31. When the owner of a node dies, exactly the references before the first one without a
  death notification are told: their notifications become \<open>BINDER_WORK_DEAD_BINDER\<close> on the
  list of their process, and every other notification stays as it was, those of references
  behind that one in the list included. (So one client that did not ask for a notification
  keeps the clients behind it from getting theirs.)
\<close>

theorem tell_deaths_prefix:
  assumes "tell_deaths rs s = Some s'" and "distinct rs"
    and "\<forall>q \<in> set rs. \<forall>q' \<in> set rs. q \<noteq> q' \<longrightarrow> death_of s q \<inter> death_of s q' = {}"
  shows "(\<forall>ref x d. ref \<in> set (takeWhile (has_death s) rs) \<longrightarrow> refs s ref = Some x \<longrightarrow> r_death x = Some d \<longrightarrow>
      (\<exists>dt. deaths s' d = Some dt \<and> d_type dt = BINDER_WORK_DEAD_BINDER) \<and>
      link_of s' (W_Death d) = Linked (L_Proc (r_proc x))) \<and>
    (\<forall>d. d \<notin> (\<Union>ref \<in> set (takeWhile (has_death s) rs). death_of s ref) \<longrightarrow>
      deaths s' d = deaths s d \<and> link_of s' (W_Death d) = link_of s (W_Death d))"
  using tell_deaths_told [OF assms(1) _ _ _ assms(3,2)] tell_deaths_other [OF assms(1)] by blast

definition demo_deaf :: driver where
  "demo_deaf = (drv demo_open)\<lparr>
     refs := [3 \<mapsto> \<lparr>r_debug_id = 1, r_proc = 1, r_node = 2, r_desc = 1, r_strong = 1, r_weak = 0, r_death = None\<rparr>,
              4 \<mapsto> \<lparr>r_debug_id = 2, r_proc = 1, r_node = 2, r_desc = 2, r_strong = 1, r_weak = 0, r_death = Some 5\<rparr>],
     deaths := [5 \<mapsto> \<lparr>d_type = Work_Type_Zero, d_cookie = 6\<rparr>]\<rparr>"

theorem tell_deaths_prefix_witness:
  "\<exists>s'. tell_deaths [3, 4] demo_deaf = Some s' \<and> deaths s' 5 = Some \<lparr>d_type = Work_Type_Zero, d_cookie = 6\<rparr>"
proof -
  have t: "tell_deaths [3, 4] demo_deaf = Some demo_deaf" by (simp add: demo_deaf_def)
  have w: "takeWhile (has_death demo_deaf) [3, 4] = []" by (simp add: has_death_def demo_deaf_def)
  have "deaths demo_deaf 5 = deaths demo_deaf 5"
    using tell_deaths_prefix [OF t] by (simp add: w death_of_def demo_deaf_def)
  with t show ?thesis by (simp add: demo_deaf_def)
qed

section \<open>The thread pool\<close>

definition looper_ok :: "32 word \<Rightarrow> bool" where
  "looper_ok l \<longleftrightarrow> (bit l 0 \<and> bit l 1 \<longrightarrow> bit l 3)"

lemma looper_masks:
  "(l AND LOOPER_REGISTERED \<noteq> 0) = bit l 0" "(l AND LOOPER_ENTERED \<noteq> 0) = bit l 1" for l :: "32 word"
  using and_exp_eq_0_iff_not_bit [of l 0] and_exp_eq_0_iff_not_bit [of l 1]
  by (simp_all add: LOOPER_REGISTERED_def LOOPER_ENTERED_def)

lemma looper_bits:
  "bit LOOPER_REGISTERED n = (n = 0)" "bit LOOPER_ENTERED n = (n = 1)" "bit LOOPER_INVALID n = (n = 3)"
proof -
  have e: "LOOPER_REGISTERED = 2 ^ 0" "LOOPER_ENTERED = 2 ^ 1" "LOOPER_INVALID = 2 ^ 3"
    by (simp_all add: LOOPER_REGISTERED_def LOOPER_ENTERED_def LOOPER_INVALID_def)
  show "bit LOOPER_REGISTERED n = (n = 0)" "bit LOOPER_ENTERED n = (n = 1)" "bit LOOPER_INVALID n = (n = 3)"
    unfolding e bit_exp_iff by (auto simp: possible_bit_word)
qed

text \<open>
  \<open>BC_REGISTER_LOOPER\<close> turns one requested thread of the process into a started one, or
  marks the caller invalid: exactly the threads that were asked for and did not enter by
  themselves are counted, requested and started threads together stay the same number, and no
  thread is ever both registered and entered without being marked invalid.
\<close>

theorem register_counts:
  assumes "procs s proc = Some p" and "threads s thread = Some th" and "0 \<le> pr_requested_threads p"
  shows "\<exists>s' p' th'. register_looper proc thread s = Some s' \<and> procs s' proc = Some p' \<and> threads s' thread = Some th' \<and>
    pr_requested_threads p' + pr_requested_threads_started p' = pr_requested_threads p + pr_requested_threads_started p \<and>
    0 \<le> pr_requested_threads p' \<and> bit (th_looper th') 0 \<and> (looper_ok (th_looper th) \<longrightarrow> looper_ok (th_looper th')) \<and>
    (if pr_requested_threads p = 0 \<or> bit (th_looper th) 1
     then p' = p \<and> bit (th_looper th') 3
     else pr_requested_threads_started p' = pr_requested_threads_started p + 1 \<and>
       bit (th_looper th') 3 = bit (th_looper th) 3)"
  using assms
  by (auto simp: register_looper_def Let_def looper_masks looper_ok_def bit_or_iff looper_bits)

definition demo_asked :: driver where
  "demo_asked = demo_thread\<lparr>procs := map_option (pr_requested_threads_update (\<lambda>_. 1)) \<circ> procs demo_thread\<rparr>"

end
