(* ===== verification/Bio.thy ===== *)
theory Bio
  imports User_Memory
begin

text \<open>
  \<^verbatim>\<open>struct binder_io\<close> of \<^verbatim>\<open>src/cmds/servicemanager/binder.c\<close>: the cursor with which the service
  manager reads a message and builds a reply. Every operation is a function of the memory
  and of the cursor; a pointer is a number, \<open>0\<close> the null pointer, and \<open>None\<close> is a fault.
\<close>

unbundle bit_operations_syntax

definition MAX_BIO_SIZE :: nat where "MAX_BIO_SIZE = 2 ^ 30"

definition BIO_F_SHARED :: "32 word" where "BIO_F_SHARED = 0x01"
definition BIO_F_OVERFLOW :: "32 word" where "BIO_F_OVERFLOW = 0x02"
definition BIO_F_IOERROR :: "32 word" where "BIO_F_IOERROR = 0x04"

record binder_io =
  io_data :: addr
  io_offs :: addr
  io_data_avail :: nat
  io_offs_avail :: nat
  io_data0 :: addr
  io_offs0 :: addr
  io_flags :: "32 word"

record binder_txn =
  bt_target :: nat
  bt_cookie :: nat
  bt_code :: nat
  bt_flags :: nat
  bt_sender_pid :: nat
  bt_sender_euid :: nat
  bt_data_size :: nat
  bt_offs_size :: nat
  bt_data :: addr
  bt_offs :: addr

text \<open>\<^verbatim>\<open>uint32_t\<close> arithmetic, and the number of bytes from one pointer to another.\<close>

definition u32 :: "nat \<Rightarrow> nat" where
  "u32 n = n mod 2 ^ 32"

definition bytes_to :: "addr \<Rightarrow> addr \<Rightarrow> nat" where
  "bytes_to a b = nat ((int b - int a) mod 2 ^ 32)"

definition align4 :: "nat \<Rightarrow> nat" where
  "align4 n = u32 (n + 3) div 4 * 4"

definition set_overflow :: "binder_io \<Rightarrow> binder_io" where
  "set_overflow io = io\<lparr>io_flags := io_flags io OR BIO_F_OVERFLOW\<rparr>"

section \<open>Starting\<close>

definition bio_init_from_txn :: "binder_txn \<Rightarrow> binder_io" where
  "bio_init_from_txn txn =
     \<lparr>io_data = bt_data txn, io_offs = bt_offs txn, io_data_avail = bt_data_size txn,
      io_offs_avail = bt_offs_size txn div 4, io_data0 = bt_data txn, io_offs0 = bt_offs txn,
      io_flags = BIO_F_SHARED\<rparr>"

text \<open>Without room for the offsets the pointers of the cursor stay what they were.\<close>

definition bio_init :: "binder_io \<Rightarrow> addr \<Rightarrow> nat \<Rightarrow> nat \<Rightarrow> binder_io" where
  "bio_init io data maxdata maxoffs =
     (let n = u32 (maxoffs * 4) in
      if maxdata < n then io\<lparr>io_flags := BIO_F_OVERFLOW, io_data_avail := 0, io_offs_avail := 0\<rparr>
      else \<lparr>io_data = data + n, io_offs = data, io_data_avail = maxdata - n, io_offs_avail = maxoffs,
            io_data0 = data + n, io_offs0 = data, io_flags = 0\<rparr>)"

section \<open>Writing\<close>

definition bio_alloc :: "binder_io \<Rightarrow> nat \<Rightarrow> addr \<times> binder_io" where
  "bio_alloc io bytes =
     (let n = align4 bytes in
      if io_data_avail io < n then (0, set_overflow io)
      else (io_data io, io\<lparr>io_data := io_data io + n, io_data_avail := io_data_avail io - n\<rparr>))"

definition bio_alloc_obj :: "binder_io \<Rightarrow> umem \<Rightarrow> (addr \<times> binder_io \<times> umem) option" where
  "bio_alloc_obj io m =
     (let (obj, io1) = bio_alloc io 16 in
      if obj \<noteq> 0 \<and> io_offs_avail io1 \<noteq> 0 then
        do {
          m1 \<leftarrow> store32 m (io_offs io1) (bytes_to (io_data0 io1) obj);
          Some (obj, io1\<lparr>io_offs_avail := io_offs_avail io1 - 1, io_offs := io_offs io1 + 4\<rparr>, m1)
        }
      else Some (0, set_overflow io1, m))"

definition bio_put_uint32 :: "binder_io \<Rightarrow> nat \<Rightarrow> umem \<Rightarrow> (binder_io \<times> umem) option" where
  "bio_put_uint32 io n m =
     (let (ptr, io1) = bio_alloc io 4 in
      if ptr \<noteq> 0 then do { m1 \<leftarrow> store32 m ptr n; Some (io1, m1) } else Some (io1, m))"

definition OBJ_FLAGS :: nat where "OBJ_FLAGS = 0x7f + 0x100"

text \<open>The four fields of \<^verbatim>\<open>struct binder_object\<close>, in the order the code sets them.\<close>

definition put_object :: "addr \<Rightarrow> nat \<Rightarrow> addr \<Rightarrow> umem \<Rightarrow> umem option" where
  "put_object obj ty ptr m =
     do {
       m1 \<leftarrow> store32 m (obj + 4) OBJ_FLAGS;
       m2 \<leftarrow> store32 m1 obj ty;
       m3 \<leftarrow> store32 m2 (obj + 8) ptr;
       store32 m3 (obj + 12) 0
     }"

definition bio_put_obj :: "binder_io \<Rightarrow> addr \<Rightarrow> umem \<Rightarrow> (binder_io \<times> umem) option" where
  "bio_put_obj io ptr m =
     do {
       (obj, io1, m1) \<leftarrow> bio_alloc_obj io m;
       if obj = 0 then Some (io1, m1)
       else do { m2 \<leftarrow> put_object obj BINDER_TYPE_BINDER ptr m1; Some (io1, m2) }
     }"

definition bio_put_ref :: "binder_io \<Rightarrow> addr \<Rightarrow> umem \<Rightarrow> (binder_io \<times> umem) option" where
  "bio_put_ref io ptr m =
     do {
       (obj, io1, m1) \<leftarrow>
         (if ptr \<noteq> 0 then bio_alloc_obj io m else Some (let (obj, io1) = bio_alloc io 16 in (obj, io1, m)));
       if obj = 0 then Some (io1, m1)
       else do { m2 \<leftarrow> put_object obj BINDER_TYPE_HANDLE ptr m1; Some (io1, m2) }
     }"

text \<open>
  A string argument is the array from the pointer to the end of its object, \<open>None\<close> the null
  pointer: \<open>c_length\<close> counts up to the terminating 0 and faults without one.
\<close>

definition c_length :: "nat list \<Rightarrow> nat option" where
  "c_length str = (let n = length (takeWhile (\<lambda>c. c \<noteq> 0) str) in if n < length str then Some n else None)"

definition bio_put_string16 :: "binder_io \<Rightarrow> nat list option \<Rightarrow> umem \<Rightarrow> (binder_io \<times> umem) option" where
  "bio_put_string16 io str m =
     (case str of
        None \<Rightarrow> bio_put_uint32 io 0xffffffff m
      | Some cs \<Rightarrow>
          do {
            len \<leftarrow> c_length cs;
            if MAX_BIO_SIZE div 2 \<le> len then bio_put_uint32 io 0xffffffff m
            else do {
              (io1, m1) \<leftarrow> bio_put_uint32 io len m;
              let (ptr, io2) = bio_alloc io1 ((len + 1) * 2);
              if ptr \<noteq> 0 then do { m2 \<leftarrow> store_u16s m1 ptr (take (len + 1) cs); Some (io2, m2) }
              else Some (io2, m1)
            }
          })"

text \<open>The loop of \<^verbatim>\<open>bio_put_string16_x\<close> widens the characters of an 8-bit string one by one.\<close>

definition bio_put_string16_x :: "binder_io \<Rightarrow> byte list option \<Rightarrow> umem \<Rightarrow> (binder_io \<times> umem) option" where
  "bio_put_string16_x io str m =
     (case str of
        None \<Rightarrow> bio_put_uint32 io 0xffffffff m
      | Some cs \<Rightarrow>
          do {
            len \<leftarrow> c_length (map unat cs);
            if MAX_BIO_SIZE div 2 \<le> len then bio_put_uint32 io 0xffffffff m
            else do {
              (io1, m1) \<leftarrow> bio_put_uint32 io len m;
              let (ptr, io2) = bio_alloc io1 ((len + 1) * 2);
              if ptr = 0 then Some (io2, m1)
              else do { m2 \<leftarrow> store_u16s m1 ptr (map unat (take len cs) @ [0]); Some (io2, m2) }
            }
          })"

section \<open>Reading\<close>

definition bio_get :: "binder_io \<Rightarrow> nat \<Rightarrow> addr \<times> binder_io" where
  "bio_get io bytes =
     (let n = align4 bytes in
      if io_data_avail io < n then (0, set_overflow (io\<lparr>io_data_avail := 0\<rparr>))
      else (io_data io, io\<lparr>io_data := io_data io + n, io_data_avail := io_data_avail io - n\<rparr>))"

definition bio_get_uint32 :: "binder_io \<Rightarrow> umem \<Rightarrow> (nat \<times> binder_io) option" where
  "bio_get_uint32 io m =
     (let (ptr, io1) = bio_get io 4 in
      if ptr \<noteq> 0 then do { v \<leftarrow> load32 m ptr; Some (v, io1) } else Some (0, io1))"

definition bio_get_string16 :: "binder_io \<Rightarrow> umem \<Rightarrow> (addr \<times> nat \<times> binder_io) option" where
  "bio_get_string16 io m =
     do {
       (len, io1) \<leftarrow> bio_get_uint32 io m;
       let (ptr, io2) = bio_get io1 (u32 (u32 (len + 1) * 2));
       Some (ptr, len, io2)
     }"

fun offs_has :: "umem \<Rightarrow> addr \<Rightarrow> nat \<Rightarrow> nat \<Rightarrow> bool option" where
  "offs_has m offs 0 off = Some False"
| "offs_has m offs (Suc n) off =
     do { v \<leftarrow> load32 m offs; if v = off then Some True else offs_has m (offs + 4) n off }"

definition bio_get_obj :: "binder_io \<Rightarrow> umem \<Rightarrow> (addr \<times> binder_io) option" where
  "bio_get_obj io m =
     do {
       found \<leftarrow> offs_has m (io_offs io) (io_offs_avail io) (bytes_to (io_data0 io) (io_data io));
       Some (if found then bio_get io 16 else (0, set_overflow (io\<lparr>io_data_avail := 0\<rparr>)))
     }"

definition bio_get_ref :: "binder_io \<Rightarrow> umem \<Rightarrow> (nat \<times> binder_io) option" where
  "bio_get_ref io m =
     do {
       (obj, io1) \<leftarrow> bio_get_obj io m;
       if obj = 0 then Some (0, io1)
       else do {
         ty \<leftarrow> load32 m obj;
         if ty = BINDER_TYPE_HANDLE then do { ptr \<leftarrow> load32 m (obj + 8); Some (ptr, io1) } else Some (0, io1)
       }
     }"

end
