(* ===== verification/Svc_Binder.thy ===== *)
theory Svc_Binder
  imports Bio Binder_Read
begin

text \<open>
  How the service manager talks to the driver: the commands it writes, the parser of what it
  reads, a call, and its loop (\<^verbatim>\<open>src/cmds/servicemanager/binder.c\<close>). The state is the memory
  of the process, the list of registered services, and the log of everything handed to the
  driver: each entry is the words of one write together with the memory of the process at that
  moment, because the driver reads the data of a transaction from there. What the driver
  does is an argument: \<open>svc_env\<close> gives the results of system calls by the number of calls made so
  far, and the list of \<open>read_back\<close> what each read of the loop brings. The locals of the
  functions that are passed by address have fixed places on the stack.
\<close>

record svcinfo =
  si_ptr :: nat
  si_death :: addr
  si_allow_isolated :: nat
  si_len :: nat
  si_name :: "nat list"

record wire =
  w_words :: "nat list"
  w_mem :: umem

record svcmgr =
  sv_mem :: umem
  sv_sent :: "wire list"
  sv_calls :: nat
  svclist :: "(addr \<times> svcinfo) list"

record svc_env =
  wr_result :: "nat \<Rightarrow> int"
  heap_alloc :: "nat \<Rightarrow> nat \<Rightarrow> addr"
  open_result :: "nat \<Rightarrow> int"
  map_result :: "nat \<Rightarrow> nat \<Rightarrow> addr option"
  become_result :: "nat \<Rightarrow> int"
  rdata_at :: addr
  status_at :: addr
  stale_io :: binder_io
  stale_words :: "nat list"

definition svc_tick :: "svcmgr \<Rightarrow> svcmgr" where
  "svc_tick s = s\<lparr>sv_calls := Suc (sv_calls s)\<rparr>"

definition heap_malloc :: "svc_env \<Rightarrow> nat \<Rightarrow> svcmgr \<Rightarrow> addr \<times> svcmgr" where
  "heap_malloc E n s = (heap_alloc E (sv_calls s) n, svc_tick s)"

section \<open>Opening the device\<close>

record binder_state =
  bs_fd :: int
  bs_mapped :: addr
  bs_mapsize :: nat

definition binder_open :: "svc_env \<Rightarrow> nat \<Rightarrow> svcmgr \<Rightarrow> binder_state option \<times> svcmgr" where
  "binder_open E mapsize s =
     (let (bs, s1) = heap_malloc E 12 s in
      if bs = 0 then (None, s1)
      else
        let fd = open_result E (sv_calls s1); s2 = svc_tick s1 in
        if fd < 0 then (None, s2)
        else
          let mapped = map_result E (sv_calls s2) mapsize; s3 = svc_tick s2 in
          case mapped of
            None \<Rightarrow> (None, s3)
          | Some a \<Rightarrow> (Some \<lparr>bs_fd = fd, bs_mapped = a, bs_mapsize = mapsize\<rparr>, s3))"

text \<open>The null pointer for \<^verbatim>\<open>bs\<close> is dereferenced for its descriptor.\<close>

definition binder_become_context_manager :: "svc_env \<Rightarrow> binder_state option \<Rightarrow> svcmgr \<Rightarrow> (int \<times> svcmgr) option" where
  "binder_become_context_manager E bs s =
     (case bs of None \<Rightarrow> None | Some b \<Rightarrow> Some (become_result E (sv_calls s), svc_tick s))"

section \<open>Commands to the driver\<close>

definition binder_write :: "svc_env \<Rightarrow> nat list \<Rightarrow> svcmgr \<Rightarrow> int \<times> svcmgr" where
  "binder_write E ws s =
     (wr_result E (sv_calls s),
      svc_tick (s\<lparr>sv_sent := sv_sent s @ [\<lparr>w_words = ws, w_mem = sv_mem s\<rparr>]\<rparr>))"

definition binder_acquire :: "svc_env \<Rightarrow> nat \<Rightarrow> svcmgr \<Rightarrow> svcmgr" where
  "binder_acquire E ptr s = snd (binder_write E [BC_ACQUIRE, ptr] s)"

definition binder_release :: "svc_env \<Rightarrow> nat \<Rightarrow> svcmgr \<Rightarrow> svcmgr" where
  "binder_release E ptr s = snd (binder_write E [BC_RELEASE, ptr] s)"

definition binder_link_to_death :: "svc_env \<Rightarrow> nat \<Rightarrow> addr \<Rightarrow> svcmgr \<Rightarrow> svcmgr" where
  "binder_link_to_death E ptr death s = snd (binder_write E [BC_REQUEST_DEATH_NOTIFICATION, ptr, death] s)"

definition TF_STATUS_CODE :: nat where "TF_STATUS_CODE = 0x08"

text \<open>The words of \<^verbatim>\<open>struct binder_txn\<close>; the sender is left to the driver.\<close>

definition txn_words :: "binder_txn \<Rightarrow> nat list" where
  "txn_words t = [bt_target t, bt_cookie t, bt_code t, bt_flags t, bt_sender_pid t, bt_sender_euid t,
     bt_data_size t, bt_offs_size t, bt_data t, bt_offs t]"

definition stale_txn :: "svc_env \<Rightarrow> binder_txn" where
  "stale_txn E =
     (let w = (\<lambda>i. if i < length (stale_words E) then stale_words E ! i else 0) in
      \<lparr>bt_target = w 0, bt_cookie = w 1, bt_code = w 2, bt_flags = w 3, bt_sender_pid = w 4,
       bt_sender_euid = w 5, bt_data_size = w 6, bt_offs_size = w 7, bt_data = w 8, bt_offs = w 9\<rparr>)"

definition binder_send_reply :: "svc_env \<Rightarrow> binder_io \<Rightarrow> addr \<Rightarrow> int \<Rightarrow> svcmgr \<Rightarrow> svcmgr option" where
  "binder_send_reply E reply buffer_to_free status s =
     do {
       m \<leftarrow> store32 (sv_mem s) (status_at E) (nat (status mod 2 ^ 32));
       let txn = (stale_txn E)\<lparr>bt_target := 0, bt_cookie := 0, bt_code := 0\<rparr>;
       let txn = (if status \<noteq> 0
          then txn\<lparr>bt_flags := TF_STATUS_CODE, bt_data_size := 4, bt_offs_size := 0,
                   bt_data := status_at E, bt_offs := 0\<rparr>
          else txn\<lparr>bt_flags := 0, bt_data_size := bytes_to (io_data0 reply) (io_data reply),
                   bt_offs_size := bytes_to (io_offs0 reply) (io_offs reply),
                   bt_data := io_data0 reply, bt_offs := io_offs0 reply\<rparr>);
       Some (snd (binder_write E ([BC_FREE_BUFFER, buffer_to_free, BC_REPLY] @ txn_words txn) (s\<lparr>sv_mem := m\<rparr>)))
     }"

definition binder_done :: "svc_env \<Rightarrow> binder_io \<Rightarrow> svcmgr \<Rightarrow> binder_io \<times> svcmgr" where
  "binder_done E reply s =
     (if io_flags reply AND BIO_F_SHARED \<noteq> 0
      then (reply\<lparr>io_flags := 0\<rparr>, snd (binder_write E [BC_FREE_BUFFER, io_data0 reply] s))
      else (reply, s))"

section \<open>Parsing what was read\<close>

type_synonym handler = "svcmgr \<Rightarrow> binder_txn \<Rightarrow> binder_io \<Rightarrow> binder_io \<Rightarrow> (int \<times> binder_io \<times> svcmgr) option"
type_synonym death_handler = "addr \<Rightarrow> svcmgr \<Rightarrow> svcmgr option"

definition word_at :: "nat list \<Rightarrow> nat \<Rightarrow> nat option" where
  "word_at ws i = (if i < length ws then Some (ws ! i) else None)"

definition txn_at :: "nat list \<Rightarrow> nat \<Rightarrow> binder_txn option" where
  "txn_at ws i =
     (if i + 10 \<le> length ws then
        Some \<lparr>bt_target = ws ! i, bt_cookie = ws ! (i + 1), bt_code = ws ! (i + 2), bt_flags = ws ! (i + 3),
              bt_sender_pid = ws ! (i + 4), bt_sender_euid = ws ! (i + 5), bt_data_size = ws ! (i + 6),
              bt_offs_size = ws ! (i + 7), bt_data = ws ! (i + 8), bt_offs = ws ! (i + 9)\<rparr>
      else None)"

text \<open>\<open>ps_bio\<close> says whether the pointer \<^verbatim>\<open>bio\<close> is still set, \<open>ps_reply\<close> what was stored through it.\<close>

record parser =
  ps_at :: nat
  ps_ret :: int
  ps_bio :: bool
  ps_reply :: "binder_io option"

definition parse_transaction :: "svc_env \<Rightarrow> handler option \<Rightarrow> binder_txn \<Rightarrow> svcmgr \<Rightarrow> svcmgr option" where
  "parse_transaction E func txn s =
     (case func of
        None \<Rightarrow> Some s
      | Some f \<Rightarrow>
          do {
            (res, reply, s1) \<leftarrow> f s txn (bio_init_from_txn txn) (bio_init (stale_io E) (rdata_at E) 256 4);
            binder_send_reply E reply (bt_data txn) res s1
          })"

definition parse_command ::
  "svc_env \<Rightarrow> handler option \<Rightarrow> death_handler \<Rightarrow> nat list \<Rightarrow> nat \<Rightarrow> parser \<Rightarrow> svcmgr \<Rightarrow> (bool \<times> parser \<times> svcmgr) option" where
  "parse_command E func death ws e p s =
     do {
       cmd \<leftarrow> word_at ws (ps_at p);
       let i = ps_at p + 1;
       let p = p\<lparr>ps_at := i\<rparr>;
       if cmd = br_number BR_NOOP \<or> cmd = br_number BR_TRANSACTION_COMPLETE then Some (True, p, s)
       else if cmd = br_number BR_INCREFS \<or> cmd = br_number BR_ACQUIRE \<or> cmd = br_number BR_RELEASE \<or>
               cmd = br_number BR_DECREFS then Some (True, p\<lparr>ps_at := i + 2\<rparr>, s)
       else if cmd = br_number BR_TRANSACTION then
         if (e - i) * 4 < 40 then Some (False, p\<lparr>ps_ret := - 1\<rparr>, s)
         else do {
           txn \<leftarrow> txn_at ws i;
           s1 \<leftarrow> parse_transaction E func txn s;
           Some (True, p\<lparr>ps_at := i + 10\<rparr>, s1)
         }
       else if cmd = br_number BR_REPLY then
         if (e - i) * 4 < 40 then Some (False, p\<lparr>ps_ret := - 1\<rparr>, s)
         else do {
           txn \<leftarrow> txn_at ws i;
           Some (True, p\<lparr>ps_at := i + 10, ps_ret := 0, ps_bio := False,
             ps_reply := (if ps_bio p then Some (bio_init_from_txn txn) else ps_reply p)\<rparr>, s)
         }
       else if cmd = br_number BR_DEAD_BINDER then
         do {
           cookie \<leftarrow> word_at ws i;
           s1 \<leftarrow> death cookie s;
           Some (True, p\<lparr>ps_at := i + 1\<rparr>, s1)
         }
       else if cmd = br_number BR_FAILED_REPLY \<or> cmd = br_number BR_DEAD_REPLY then Some (True, p\<lparr>ps_ret := - 1\<rparr>, s)
       else Some (False, p\<lparr>ps_ret := - 1\<rparr>, s)
     }"

lemma parse_command_moves: "parse_command E func death ws e p s = Some (True, p', s') \<Longrightarrow> ps_at p < ps_at p'"
  by (auto simp: parse_command_def Let_def bind_eq_Some_conv split: if_splits)

text \<open>The loop over the words up to the end \<open>e\<close>; its result is \<open>ps_ret\<close> of the parser.\<close>

function parse_words ::
  "svc_env \<Rightarrow> handler option \<Rightarrow> death_handler \<Rightarrow> nat list \<Rightarrow> nat \<Rightarrow> parser \<Rightarrow> svcmgr \<Rightarrow> (parser \<times> svcmgr) option" where
  "parse_words E func death ws e p s =
     (if ps_at p < e then
        (case parse_command E func death ws e p s of
           None \<Rightarrow> None
         | Some (go, p1, s1) \<Rightarrow> (if go then parse_words E func death ws e p1 s1 else Some (p1, s1)))
      else Some (p, s))"
  by pat_completeness auto
termination
  by (relation "measure (\<lambda>(E, func, death, ws, e, p, s). e - ps_at p)") (auto dest!: parse_command_moves)

declare parse_words.simps [simp del]

definition binder_parse ::
  "svc_env \<Rightarrow> bool \<Rightarrow> nat list \<Rightarrow> nat \<Rightarrow> handler option \<Rightarrow> death_handler \<Rightarrow> svcmgr \<Rightarrow> (int \<times> binder_io option \<times> svcmgr) option" where
  "binder_parse E bio ws bytes func death s =
     map_option (\<lambda>(p, s'). (ps_ret p, ps_reply p, s'))
       (parse_words E func death ws (bytes div 4) \<lparr>ps_at = 0, ps_ret = 1, ps_bio = bio, ps_reply = None\<rparr> s)"

section \<open>Reading from the driver\<close>

record read_back =
  rb_res :: int
  rb_words :: "nat list"
  rb_consumed :: nat
  rb_mem :: "(addr \<times> byte) list"

definition fill_buffer :: "read_back \<Rightarrow> nat list \<Rightarrow> nat list" where
  "fill_buffer r buf = rb_words r @ drop (length (rb_words r)) buf"

definition deliver :: "read_back \<Rightarrow> svcmgr \<Rightarrow> svcmgr" where
  "deliver r s = s\<lparr>sv_mem := fold (\<lambda>(a, b) m. m(a \<mapsto> b)) (rb_mem r) (sv_mem s)\<rparr>"

datatype loop_end = Loop_Waiting | Loop_Ended

fun loop_reads :: "svc_env \<Rightarrow> handler \<Rightarrow> death_handler \<Rightarrow> read_back list \<Rightarrow> nat list \<Rightarrow> svcmgr \<Rightarrow> (loop_end \<times> svcmgr) option" where
  "loop_reads E func death [] buf s = Some (Loop_Waiting, s)"
| "loop_reads E func death (r # rs) buf s =
     (if rb_res r < 0 then Some (Loop_Ended, s)
      else do {
        (res, reply, s1) \<leftarrow> binder_parse E False (fill_buffer r buf) (rb_consumed r) (Some func) death (deliver r s);
        if res \<le> 0 then Some (Loop_Ended, s1) else loop_reads E func death rs (fill_buffer r buf) s1
      })"

definition binder_loop :: "svc_env \<Rightarrow> handler \<Rightarrow> death_handler \<Rightarrow> read_back list \<Rightarrow> svcmgr \<Rightarrow> (loop_end \<times> svcmgr) option" where
  "binder_loop E func death rs s =
     loop_reads E func death rs ((stale_words E)[0 := BC_ENTER_LOOPER]) (snd (binder_write E [BC_ENTER_LOOPER] s))"

text \<open>
  A call fails with a cursor that is all zero but for its error flag. The request goes out with
  the first read; the driver keeps count of what it has consumed, so later reads send nothing.
\<close>

definition failed_io :: binder_io where
  "failed_io = \<lparr>io_data = 0, io_offs = 0, io_data_avail = 0, io_offs_avail = 0, io_data0 = 0, io_offs0 = 0,
     io_flags = BIO_F_IOERROR\<rparr>"

fun call_reads ::
  "svc_env \<Rightarrow> death_handler \<Rightarrow> read_back list \<Rightarrow> nat list \<Rightarrow> binder_io \<Rightarrow> svcmgr \<Rightarrow> (int option \<times> binder_io \<times> svcmgr) option" where
  "call_reads E death [] buf reply s = Some (None, reply, s)"
| "call_reads E death (r # rs) buf reply s =
     (if rb_res r < 0 then Some (Some (- 1), failed_io, s)
      else do {
        (res, rep, s1) \<leftarrow> binder_parse E True (fill_buffer r buf) (rb_consumed r) None death (deliver r s);
        let reply1 = (case rep of None \<Rightarrow> reply | Some io \<Rightarrow> io);
        if res = 0 then Some (Some 0, reply1, s1)
        else if res < 0 then Some (Some (- 1), failed_io, s1)
        else call_reads E death rs (fill_buffer r buf) reply1 s1
      })"

definition binder_call ::
  "svc_env \<Rightarrow> death_handler \<Rightarrow> binder_io \<Rightarrow> binder_io \<Rightarrow> nat \<Rightarrow> nat \<Rightarrow> read_back list \<Rightarrow> svcmgr \<Rightarrow>
   (int option \<times> binder_io \<times> svcmgr) option" where
  "binder_call E death msg reply target code rs s =
     (if io_flags msg AND BIO_F_OVERFLOW \<noteq> 0 then Some (Some (- 1), failed_io, s)
      else
        let txn = (stale_txn E)\<lparr>bt_target := target, bt_code := code, bt_flags := 0,
                     bt_data_size := bytes_to (io_data0 msg) (io_data msg),
                     bt_offs_size := bytes_to (io_offs0 msg) (io_offs msg),
                     bt_data := io_data0 msg, bt_offs := io_offs0 msg\<rparr>;
            s1 = snd (binder_write E (BC_TRANSACTION # txn_words txn) s)
        in call_reads E death rs (stale_words E) reply s1)"

end
