(* ===== verification/Service_Manager.thy ===== *)
theory Service_Manager
  imports Svc_Binder
begin

text \<open>
  \<^verbatim>\<open>src/cmds/servicemanager/service_manager.c\<close>: who may register a name, the list of
  registered services, and the handler of the transactions sent to handle 0. The links
  \<^verbatim>\<open>next\<close> of \<^verbatim>\<open>struct svcinfo\<close> are the order of the list \<open>svclist\<close>, whose entries carry
  their addresses. Strings for the log are read as the code reads them, because reading can
  fault; their text is not kept.
\<close>

section \<open>Who may register\<close>

definition AID_SYSTEM :: nat where "AID_SYSTEM = 1000"
definition AID_RADIO :: nat where "AID_RADIO = 1001"
definition AID_BLUETOOTH :: nat where "AID_BLUETOOTH = 1002"
definition AID_MEDIA :: nat where "AID_MEDIA = 1013"
definition AID_KEYSTORE :: nat where "AID_KEYSTORE = 1017"
definition AID_DRM :: nat where "AID_DRM = 1019"
definition AID_NFC :: nat where "AID_NFC = 1027"
definition AID_ISOLATED_START :: nat where "AID_ISOLATED_START = 99000"
definition AID_ISOLATED_END :: nat where "AID_ISOLATED_END = 99999"
definition AID_USER :: nat where "AID_USER = 100000"

definition codes :: "string \<Rightarrow> nat list" where
  "codes = map (\<lambda>c. of_char c)"

definition allowed :: "(nat \<times> string) list" where
  "allowed =
     [(AID_MEDIA, ''media.audio_flinger''),
      (AID_MEDIA, ''media.log''),
      (AID_MEDIA, ''media.player''),
      (AID_MEDIA, ''media.camera''),
      (AID_MEDIA, ''media.audio_policy''),
      (AID_DRM, ''drm.drmManager''),
      (AID_NFC, ''nfc''),
      (AID_BLUETOOTH, ''bluetooth''),
      (AID_RADIO, ''radio.phone''),
      (AID_RADIO, ''radio.sms''),
      (AID_RADIO, ''radio.phonesubinfo''),
      (AID_RADIO, ''radio.simphonebook''),
      (AID_RADIO, ''phone''),
      (AID_RADIO, ''sip''),
      (AID_RADIO, ''isms''),
      (AID_RADIO, ''iphonesubinfo''),
      (AID_RADIO, ''simphonebook''),
      (AID_MEDIA, ''common_time.clock''),
      (AID_MEDIA, ''common_time.config''),
      (AID_KEYSTORE, ''android.security.keystore'')]"

definition svcmgr_handle :: nat where
  "svcmgr_handle = 0"

text \<open>
  \<^verbatim>\<open>while (*x && max--)\<close>: a character is read before the count is tested. The characters are
  cut to 8 bits.
\<close>

fun str8_chars :: "umem \<Rightarrow> addr \<Rightarrow> nat \<Rightarrow> byte list option" where
  "str8_chars m x 0 = do { c \<leftarrow> load16 m x; Some [] }"
| "str8_chars m x (Suc n) =
     do {
       c \<leftarrow> load16 m x;
       if c = 0 then Some [] else do { bs \<leftarrow> str8_chars m (x + 2) n; Some (word_of_nat c # bs) }
     }"

definition str8 :: "umem \<Rightarrow> addr \<Rightarrow> byte list option" where
  "str8 m x = (if x = 0 then Some [] else str8_chars m x 127)"

text \<open>The characters of \<open>b\<close> are those before its terminating 0.\<close>

fun str16eq :: "umem \<Rightarrow> addr \<Rightarrow> nat list \<Rightarrow> bool option" where
  "str16eq m a [] = do { c \<leftarrow> load16 m a; Some (c = 0) }"
| "str16eq m a (b # bs) =
     do { c \<leftarrow> load16 m a; if c = 0 \<or> c \<noteq> b then Some False else str16eq m (a + 2) bs }"

fun in_table :: "umem \<Rightarrow> nat \<Rightarrow> addr \<Rightarrow> (nat \<times> string) list \<Rightarrow> bool option" where
  "in_table m uid name [] = Some False"
| "in_table m uid name ((u, n) # rest) =
     (if uid = u then do { eq \<leftarrow> str16eq m name (codes n); if eq then Some True else in_table m uid name rest }
      else in_table m uid name rest)"

definition svc_can_register :: "umem \<Rightarrow> nat \<Rightarrow> addr \<Rightarrow> bool option" where
  "svc_can_register m uid name = (if uid = 0 \<or> uid = AID_SYSTEM then Some True else in_table m uid name allowed)"

section \<open>The list of services\<close>

text \<open>\<^verbatim>\<open>memcmp\<close> needs all its bytes: with a matching length it faults where the name does.\<close>

fun find_in :: "umem \<Rightarrow> addr \<Rightarrow> nat \<Rightarrow> (addr \<times> svcinfo) list \<Rightarrow> (addr \<times> svcinfo) option option" where
  "find_in m s16 len [] = Some None"
| "find_in m s16 len ((a, si) # rest) =
     (if len = si_len si then
        do {
          cs \<leftarrow> load_u16s m s16 len;
          if cs = take len (si_name si) then Some (Some (a, si)) else find_in m s16 len rest
        }
      else find_in m s16 len rest)"

definition find_svc :: "addr \<Rightarrow> nat \<Rightarrow> svcmgr \<Rightarrow> (addr \<times> svcinfo) option option" where
  "find_svc s16 len s = find_in (sv_mem s) s16 len (svclist s)"

definition set_svc :: "addr \<Rightarrow> svcinfo \<Rightarrow> svcmgr \<Rightarrow> svcmgr" where
  "set_svc a si s = s\<lparr>svclist := map (\<lambda>(b, x). if b = a then (b, si) else (b, x)) (svclist s)\<rparr>"

definition svcinfo_death :: "svc_env \<Rightarrow> addr \<Rightarrow> svcmgr \<Rightarrow> svcmgr option" where
  "svcinfo_death E ptr s =
     do {
       si \<leftarrow> map_of (svclist s) ptr;
       if si_ptr si \<noteq> 0 then Some (set_svc ptr (si\<lparr>si_ptr := 0\<rparr>) (binder_release E (si_ptr si) s)) else Some s
     }"

text \<open>
  The cookie of \<^verbatim>\<open>BR_DEAD_BINDER\<close> is the address of the member \<^verbatim>\<open>death\<close> at offset 8 of a
  \<^verbatim>\<open>struct svcinfo\<close>; its function is \<^verbatim>\<open>svcinfo_death\<close>. Any other cookie calls through garbage.
\<close>

definition death_offset :: nat where "death_offset = 8"

definition run_death :: "svc_env \<Rightarrow> addr \<Rightarrow> svcmgr \<Rightarrow> svcmgr option" where
  "run_death E cookie s =
     do {
       (a, si) \<leftarrow> find (\<lambda>(a, si). a + death_offset = cookie) (svclist s);
       svcinfo_death E (si_death si) s
     }"

definition svcmgr_id :: "nat list" where
  "svcmgr_id = codes ''android.os.IServiceManager''"

definition do_find_service :: "addr \<Rightarrow> nat \<Rightarrow> nat \<Rightarrow> svcmgr \<Rightarrow> nat option" where
  "do_find_service s16 len uid s =
     do {
       found \<leftarrow> find_svc s16 len s;
       case found of
         None \<Rightarrow> Some 0
       | Some (a, si) \<Rightarrow>
           if si_ptr si = 0 then Some 0
           else if si_allow_isolated si = 0 \<and>
                   AID_ISOLATED_START \<le> uid mod AID_USER \<and> uid mod AID_USER \<le> AID_ISOLATED_END then Some 0
           else Some (si_ptr si)
     }"

definition sizeof_svcinfo :: nat where "sizeof_svcinfo = 24"

text \<open>A new entry, at the head of the list: its name is the \<open>len\<close> characters and a 0.\<close>

definition new_svc :: "svc_env \<Rightarrow> addr \<Rightarrow> nat \<Rightarrow> nat \<Rightarrow> nat \<Rightarrow> svcmgr \<Rightarrow> (addr \<times> svcmgr) option" where
  "new_svc E s16 len ptr allow s =
     (let (si, s1) = heap_malloc E (sizeof_svcinfo + (len + 1) * 2) s in
      if si = 0 then do { _ \<leftarrow> str8 (sv_mem s1) s16; Some (0, s1) }
      else do {
        cs \<leftarrow> load_u16s (sv_mem s1) s16 (len + 1);
        let new = \<lparr>si_ptr = ptr, si_death = si, si_allow_isolated = allow, si_len = len, si_name = cs[len := 0]\<rparr>;
        Some (si, s1\<lparr>svclist := (si, new) # svclist s1\<rparr>)
      })"

definition announce :: "svc_env \<Rightarrow> nat \<Rightarrow> addr \<Rightarrow> svcmgr \<Rightarrow> svcmgr" where
  "announce E ptr si s = binder_link_to_death E ptr (si + death_offset) (binder_acquire E ptr s)"

definition do_add_service ::
  "svc_env \<Rightarrow> addr \<Rightarrow> nat \<Rightarrow> nat \<Rightarrow> nat \<Rightarrow> nat \<Rightarrow> svcmgr \<Rightarrow> (int \<times> svcmgr) option" where
  "do_add_service E s16 len ptr uid allow s =
     (if ptr = 0 \<or> len = 0 \<or> 127 < len then Some (- 1, s)
      else do {
        may \<leftarrow> svc_can_register (sv_mem s) uid s16;
        if \<not> may then do { _ \<leftarrow> str8 (sv_mem s) s16; Some (- 1, s) }
        else do {
          found \<leftarrow> find_svc s16 len s;
          case found of
            Some (a, si) \<Rightarrow>
              do {
                s1 \<leftarrow> (if si_ptr si \<noteq> 0 then do { _ \<leftarrow> str8 (sv_mem s) s16; svcinfo_death E a s } else Some s);
                si1 \<leftarrow> map_of (svclist s1) a;
                Some (0, announce E ptr a (set_svc a (si1\<lparr>si_ptr := ptr\<rparr>) s1))
              }
          | None \<Rightarrow>
              do {
                (si, s1) \<leftarrow> new_svc E s16 len ptr allow s;
                if si = 0 then Some (- 1, s1) else Some (0, announce E ptr si s1)
              }
        }
      })"

section \<open>The handler\<close>

definition SVC_MGR_GET_SERVICE :: nat where "SVC_MGR_GET_SERVICE = 1"
definition SVC_MGR_CHECK_SERVICE :: nat where "SVC_MGR_CHECK_SERVICE = 2"
definition SVC_MGR_ADD_SERVICE :: nat where "SVC_MGR_ADD_SERVICE = 3"
definition SVC_MGR_LIST_SERVICES :: nat where "SVC_MGR_LIST_SERVICES = 4"

definition put_zero :: "binder_io \<Rightarrow> svcmgr \<Rightarrow> (int \<times> binder_io \<times> svcmgr) option" where
  "put_zero reply s = do { (reply1, m) \<leftarrow> bio_put_uint32 reply 0 (sv_mem s); Some (0, reply1, s\<lparr>sv_mem := m\<rparr>) }"

definition handle_find :: "binder_txn \<Rightarrow> binder_io \<Rightarrow> binder_io \<Rightarrow> svcmgr \<Rightarrow> (int \<times> binder_io \<times> svcmgr) option" where
  "handle_find txn msg reply s =
     do {
       (s16, len, msg1) \<leftarrow> bio_get_string16 msg (sv_mem s);
       ptr \<leftarrow> do_find_service s16 len (bt_sender_euid txn) s;
       if ptr = 0 then put_zero reply s
       else do { (reply1, m) \<leftarrow> bio_put_ref reply ptr (sv_mem s); Some (0, reply1, s\<lparr>sv_mem := m\<rparr>) }
     }"

definition handle_add :: "svc_env \<Rightarrow> binder_txn \<Rightarrow> binder_io \<Rightarrow> binder_io \<Rightarrow> svcmgr \<Rightarrow> (int \<times> binder_io \<times> svcmgr) option" where
  "handle_add E txn msg reply s =
     do {
       (s16, len, msg1) \<leftarrow> bio_get_string16 msg (sv_mem s);
       (ptr, msg2) \<leftarrow> bio_get_ref msg1 (sv_mem s);
       (isolated, msg3) \<leftarrow> bio_get_uint32 msg2 (sv_mem s);
       (ret, s1) \<leftarrow> do_add_service E s16 len ptr (bt_sender_euid txn) (if isolated = 0 then 0 else 1) s;
       if ret \<noteq> 0 then Some (- 1, reply, s1) else put_zero reply s1
     }"

definition handle_list :: "binder_io \<Rightarrow> binder_io \<Rightarrow> svcmgr \<Rightarrow> (int \<times> binder_io \<times> svcmgr) option" where
  "handle_list msg reply s =
     do {
       (n, msg1) \<leftarrow> bio_get_uint32 msg (sv_mem s);
       if n < length (svclist s)
       then do {
         (reply1, m) \<leftarrow> bio_put_string16 reply (Some (si_name (snd (svclist s ! n)))) (sv_mem s);
         Some (0, reply1, s\<lparr>sv_mem := m\<rparr>)
       }
       else Some (- 1, reply, s)
     }"

definition svcmgr_handler :: "svc_env \<Rightarrow> handler" where
  "svcmgr_handler E s txn msg reply =
     (if bt_target txn \<noteq> svcmgr_handle then Some (- 1, reply, s)
      else do {
        (strict_policy, msg1) \<leftarrow> bio_get_uint32 msg (sv_mem s);
        (s16, len, msg2) \<leftarrow> bio_get_string16 msg1 (sv_mem s);
        good \<leftarrow> (if len \<noteq> 26 then Some False
                 else do { cs \<leftarrow> load_u16s (sv_mem s) s16 26; Some (cs = svcmgr_id) });
        if \<not> good then do { _ \<leftarrow> str8 (sv_mem s) s16; Some (- 1, reply, s) }
        else if bt_code txn = SVC_MGR_GET_SERVICE \<or> bt_code txn = SVC_MGR_CHECK_SERVICE then
          handle_find txn msg2 reply s
        else if bt_code txn = SVC_MGR_ADD_SERVICE then handle_add E txn msg2 reply s
        else if bt_code txn = SVC_MGR_LIST_SERVICES then handle_list msg2 reply s
        else Some (- 1, reply, s)
      })"

section \<open>The program\<close>

text \<open>\<open>main\<close> returns \<open>-1\<close>, or runs the loop: \<open>Inr\<close> says whether it still waits for the driver.\<close>

definition main :: "svc_env \<Rightarrow> read_back list \<Rightarrow> svcmgr \<Rightarrow> ((int + loop_end) \<times> svcmgr) option" where
  "main E rs s =
     do {
       let (bs, s1) = binder_open E (128 * 1024) s;
       (ret, s2) \<leftarrow> binder_become_context_manager E bs s1;
       if ret \<noteq> 0 then Some (Inl (- 1), s2)
       else do {
         (le, s3) \<leftarrow> binder_loop E (svcmgr_handler E) (run_death E) rs s2;
         Some (Inr le, s3)
       }
     }"

end
