(* ===== verification/Refine.thy ===== *)
theory Refine
  imports Trace
begin

text \<open>
  Components with an abstract specification: \<open>refined\<close> extends \<open>guarded\<close> by a view of the
  state and a relation on views that every step obeys. Its theorem is that a run of the
  component is a run of the specification.
\<close>

fun spec_run :: "('e \<Rightarrow> 'a \<Rightarrow> 'a \<Rightarrow> bool) \<Rightarrow> 'e list \<Rightarrow> 'a \<Rightarrow> 'a \<Rightarrow> bool" where
  "spec_run spec [] a b = (a = b)"
| "spec_run spec (e # es) a b = (\<exists>c. spec e a c \<and> spec_run spec es c b)"

locale refined = guarded inv ok step
  for inv :: "'s \<Rightarrow> bool" and ok :: "'e \<Rightarrow> 's \<Rightarrow> bool" and step :: "'e \<Rightarrow> 's \<Rightarrow> 's option" +
  fixes view :: "'s \<Rightarrow> 'a" and spec :: "'e \<Rightarrow> 'a \<Rightarrow> 'a \<Rightarrow> bool"
  assumes step_refines: "inv s \<Longrightarrow> ok e s \<Longrightarrow> step e s = Some s' \<Longrightarrow> spec e (view s) (view s')"
begin

lemma run_refines:
  assumes "inv s" and "admissible ok step es s"
  shows "\<exists>s'. run step es s = Some s' \<and> inv s' \<and> spec_run spec es (view s) (view s')"
  using assms
proof (induction es arbitrary: s)
  case (Cons e es)
  from Cons.prems obtain s1 where s1: "step e s = Some s1" "inv s1" using step_safe [of s e] by auto
  have "spec e (view s) (view s1)" using step_refines [OF Cons.prems(1) _ s1(1)] Cons.prems(2) by simp
  with Cons.IH [OF s1(2)] Cons.prems(2) s1(1) show ?case by auto
qed simp

end

end
