(* ===== verification/Svc_Registry.thy ===== *)
theory Svc_Registry
  imports Service_Manager Refine
begin

text \<open>
  The registry of the service manager as a map from names to a handle and a flag: names that
  end in a 0 in memory, the lookups and the permission check on such names, the invariant of
  the list of services, and what registering a name and the death of a service do to the map
  and to the strong references held.
\<close>

section \<open>Names in memory\<close>

text \<open>The \<open>length cs\<close> characters at \<open>a\<close>, with the 0 that \<^verbatim>\<open>Parcel\<close> writes behind them.\<close>

definition name_at :: "umem \<Rightarrow> addr \<Rightarrow> nat list \<Rightarrow> bool" where
  "name_at m a cs \<longleftrightarrow> load_u16s m a (Suc (length cs)) = Some (cs @ [0])"

lemma name_at_Nil: "name_at m a [] \<longleftrightarrow> load16 m a = Some 0"
  by (auto simp: name_at_def bind_eq_Some_conv)

lemma name_at_Cons: "name_at m a (c # cs) \<longleftrightarrow> load16 m a = Some c \<and> name_at m (a + 2) cs"
  by (auto simp: name_at_def bind_eq_Some_conv simp del: load_u16s.simps)
    (auto simp: bind_eq_Some_conv)

lemma load_u16s_append:
  "load_u16s m a (i + j) = do { xs \<leftarrow> load_u16s m a i; ys \<leftarrow> load_u16s m (a + 2 * i) j; Some (xs @ ys) }"
  by (induction i arbitrary: a) (auto split: bind_split)

lemma name_at_prefix: "name_at m a cs \<Longrightarrow> load_u16s m a (length cs) = Some cs"
proof -
  assume "name_at m a cs"
  then have "load_u16s m a (length cs + 1) = Some (cs @ [0])" by (simp add: name_at_def)
  then obtain xs ys where "load_u16s m a (length cs) = Some xs" "length ys = 1" "xs @ ys = cs @ [0]"
    by (auto simp only: load_u16s_append bind_eq_Some_conv option.inject dest: load_u16s_length)
  then show ?thesis by (auto dest: load_u16s_length)
qed

text \<open>The characters a message announces may stop before the terminating 0.\<close>

lemma name_at_take:
  assumes "name_at m a ts" and "k \<le> length ts"
  shows "\<exists>c. load_u16s m a (Suc k) = Some (take k ts @ [c])" and "load_u16s m a k = Some (take k ts)"
proof -
  have e: "Suc (length ts) = Suc k + (length ts - k)" using assms(2) by simp
  have "load_u16s m a (Suc k + (length ts - k)) = Some (ts @ [0])" using assms(1) unfolding name_at_def e .
  then obtain xs ys where x: "load_u16s m a (Suc k) = Some xs" "xs @ ys = ts @ [0]"
    by (auto simp only: load_u16s_append bind_eq_Some_conv option.inject)
  have l: "length xs = Suc k" using x(1) by (rule load_u16s_length)
  have "take k xs = take k (xs @ ys)" using l by simp
  then have "take k xs = take k ts" unfolding x(2) using assms(2) by simp
  then have xs: "xs = take k ts @ [last xs]"
    using l by (metis append_butlast_last_id butlast_conv_take diff_Suc_1 length_greater_0_conv zero_less_Suc)
  then show "\<exists>c. load_u16s m a (Suc k) = Some (take k ts @ [c])" using x(1) by metis
  have "load_u16s m a (k + 1) = Some (take k ts @ [last xs])" using x(1) xs by simp
  then obtain us vs where u: "load_u16s m a k = Some us" "us @ vs = take k ts @ [last xs]"
    by (auto simp only: load_u16s_append bind_eq_Some_conv option.inject)
  have "length us = length (take k ts)" using load_u16s_length [OF u(1)] assms(2) by simp
  then show "load_u16s m a k = Some (take k ts)" using u by simp
qed

lemma load_u16s_less: "load_u16s m a n = Some xs \<Longrightarrow> \<forall>c \<in> set xs. c < 2 ^ 16"
proof (induction n arbitrary: a xs)
  case (Suc n)
  then obtain y ys where y: "load16 m a = Some y" "load_u16s m (a + 2) n = Some ys" "xs = y # ys"
    by (auto simp: bind_eq_Some_conv)
  then show ?case using Suc.IH [OF y(2)] load16_less [OF y(1)] by simp
qed simp

lemma name_at_less: "name_at m a cs \<Longrightarrow> \<forall>c \<in> set cs. c < 2 ^ 16"
  by (induction cs arbitrary: a) (auto simp: name_at_Cons dest: load16_less)

definition c_string :: "nat list \<Rightarrow> nat list" where
  "c_string cs = takeWhile (\<lambda>c. c \<noteq> 0) cs"

lemma str16eq_at: "name_at m a cs \<Longrightarrow> 0 \<notin> set bs \<Longrightarrow> str16eq m a bs = Some (c_string cs = bs)"
proof (induction bs arbitrary: a cs)
  case Nil
  then show ?case by (cases cs) (auto simp: name_at_Nil name_at_Cons c_string_def)
next
  case (Cons b bs)
  show ?case
  proof (cases cs)
    case Nil
    then show ?thesis using Cons.prems by (simp add: name_at_Nil c_string_def)
  next
    case (Cons c cs')
    then have "str16eq m (a + 2) bs = Some (c_string cs' = bs)"
      using Cons.IH [of "a + 2" cs'] Cons.prems by (simp add: name_at_Cons)
    then show ?thesis using Cons Cons.prems by (auto simp: name_at_Cons c_string_def)
  qed
qed

lemma str8_at: "name_at m a cs \<Longrightarrow> \<exists>bs. str8 m a = Some bs"
proof -
  have "name_at m a cs \<Longrightarrow> \<exists>bs. str8_chars m a n = Some bs" for n
  proof (induction n arbitrary: a cs)
    case 0
    then show ?case by (cases cs) (auto simp: name_at_Nil name_at_Cons)
  next
    case (Suc n)
    then show ?case by (cases cs) (fastforce simp: name_at_Nil name_at_Cons)+
  qed
  moreover assume "name_at m a cs"
  ultimately show ?thesis by (simp add: str8_def)
qed

section \<open>Permission\<close>

definition permitted :: "nat \<Rightarrow> nat list \<Rightarrow> bool" where
  "permitted uid cs \<longleftrightarrow> uid = 0 \<or> uid = AID_SYSTEM \<or> (\<exists>n. (uid, n) \<in> set allowed \<and> codes n = c_string cs)"

lemma allowed_names: "(u, n) \<in> set allowed \<Longrightarrow> 0 \<notin> set (codes n)"
  by (simp add: allowed_def codes_def) (elim disjE; simp)

lemma in_table_at:
  "name_at m a cs \<Longrightarrow> \<forall>(u, n) \<in> set tbl. 0 \<notin> set (codes n) \<Longrightarrow>
   in_table m uid a tbl = Some (\<exists>n. (uid, n) \<in> set tbl \<and> codes n = c_string cs)"
proof (induction tbl)
  case (Cons e tbl)
  obtain u n where e: "e = (u, n)" by (cases e)
  show ?case using Cons by (cases "uid = u"; cases "codes n = c_string cs") (auto simp: e str16eq_at)
qed simp

lemma can_register_at: "name_at m a cs \<Longrightarrow> svc_can_register m uid a = Some (permitted uid cs)"
  using in_table_at [of m a cs allowed uid] allowed_names by (auto simp: svc_can_register_def permitted_def)

section \<open>The list of services\<close>

definition svc_key :: "svcinfo \<Rightarrow> nat list" where
  "svc_key si = take (si_len si) (si_name si)"

definition entry_of :: "nat list \<Rightarrow> svcmgr \<Rightarrow> (addr \<times> svcinfo) option" where
  "entry_of cs s = find (\<lambda>(a, si). svc_key si = cs) (svclist s)"

definition registry :: "svcmgr \<Rightarrow> nat list \<Rightarrow> (nat \<times> nat) option" where
  "registry s cs = map_option (\<lambda>(a, si). (si_ptr si, si_allow_isolated si)) (entry_of cs s)"

definition count_words :: "nat list \<Rightarrow> svcmgr \<Rightarrow> nat" where
  "count_words ws s = length (filter (\<lambda>w. w_words w = ws) (sv_sent s))"

text \<open>The strong references to a handle that the service manager has asked for and not given back.\<close>

definition held :: "nat \<Rightarrow> svcmgr \<Rightarrow> int" where
  "held h s = int (count_words [BC_ACQUIRE, h] s) - int (count_words [BC_RELEASE, h] s)"

definition registered :: "nat \<Rightarrow> svcmgr \<Rightarrow> nat" where
  "registered h s = length (filter (\<lambda>(a, si). si_ptr si = h) (svclist s))"

definition entry_ok :: "svc_env \<Rightarrow> nat \<Rightarrow> addr \<times> svcinfo \<Rightarrow> bool" where
  "entry_ok E n e \<longleftrightarrow> fst e \<noteq> 0 \<and> (\<exists>i < n. \<exists>k. fst e = heap_alloc E i k) \<and> si_death (snd e) = fst e \<and>
     0 < si_len (snd e) \<and> si_len (snd e) \<le> 127 \<and> length (si_name (snd e)) = Suc (si_len (snd e)) \<and>
     si_name (snd e) ! si_len (snd e) = 0 \<and> si_ptr (snd e) < 2 ^ 32 \<and>
     (\<forall>c \<in> set (si_name (snd e)). c < 2 ^ 16)"

definition svc_inv :: "svc_env \<Rightarrow> svcmgr \<Rightarrow> bool" where
  "svc_inv E s \<longleftrightarrow> distinct (map fst (svclist s)) \<and> distinct (map (svc_key \<circ> snd) (svclist s)) \<and>
     (\<forall>e \<in> set (svclist s). entry_ok E (sv_calls s) e) \<and> (\<forall>h. h \<noteq> 0 \<longrightarrow> held h s = int (registered h s))"

text \<open>\<^verbatim>\<open>malloc\<close> returns memory that is not in use; entries are never freed.\<close>

definition env_ok :: "svc_env \<Rightarrow> bool" where
  "env_ok E \<longleftrightarrow> (\<forall>i j n k. heap_alloc E i n = heap_alloc E j k \<longrightarrow> heap_alloc E i n \<noteq> 0 \<longrightarrow> i = j)"

lemma key_length: "entry_ok E n e \<Longrightarrow> length (svc_key (snd e)) = si_len (snd e)"
  by (simp add: entry_ok_def svc_key_def)

lemma find_in_exact:
  "load_u16s m a (length cs) = Some cs \<Longrightarrow> \<forall>e \<in> set l. entry_ok E n e \<Longrightarrow>
   find_in m a (length cs) l = Some (find (\<lambda>(a, si). svc_key si = cs) l)"
proof (induction l)
  case (Cons e l)
  obtain b si where e: "e = (b, si)" by (cases e)
  have "length (svc_key si) = si_len si" using Cons.prems(2) key_length [of E n e] by (simp add: e)
  then have "svc_key si \<noteq> cs" if "length cs \<noteq> si_len si" using that by auto
  then show ?case using Cons by (auto simp: e svc_key_def)
qed simp

lemma find_svc_exact:
  "svc_inv E s \<Longrightarrow> load_u16s (sv_mem s) a (length cs) = Some cs \<Longrightarrow> find_svc a (length cs) s = Some (entry_of cs s)"
  unfolding find_svc_def entry_of_def by (rule find_in_exact [of _ _ _ _ E "sv_calls s"]) (simp_all add: svc_inv_def)

lemma entry_of_Some:
  assumes "entry_of cs s = Some (a, si)"
  shows "(a, si) \<in> set (svclist s)" and "svc_key si = cs"
  using assms by (auto simp: entry_of_def find_Some_iff in_set_conv_nth)

lemma map_of_entry: "svc_inv E s \<Longrightarrow> (a, si) \<in> set (svclist s) \<Longrightarrow> map_of (svclist s) a = Some si"
  by (simp add: svc_inv_def)

lemma entry_of_key:
  assumes "svc_inv E s" and "(a, si) \<in> set (svclist s)"
  shows "entry_of (svc_key si) s = Some (a, si)"
proof -
  have "\<exists>e. entry_of (svc_key si) s = Some e"
    using assms(2) by (cases "entry_of (svc_key si) s") (auto simp: entry_of_def find_None_iff)
  then obtain b sj where e: "entry_of (svc_key si) s = Some (b, sj)" by auto
  then have "(b, sj) \<in> set (svclist s)" "svc_key sj = svc_key si" by (rule entry_of_Some)+
  then have "(b, sj) = (a, si)"
    using assms inj_onD [of "svc_key \<circ> snd" "set (svclist s)" "(b, sj)" "(a, si)"]
    by (simp add: svc_inv_def distinct_map)
  then show ?thesis using e by simp
qed

end
