(* ===== verification/Svc_Register.thy ===== *)
theory Svc_Register
  imports Svc_Registry
begin

text \<open>
  What the operations on the registry do to it: writing to the driver, changing the handle of
  an entry, adding an entry, the death of a service and \<open>do_add_service\<close> as a whole.
\<close>

section \<open>Writing to the driver\<close>

lemma write_fields [simp]:
  "sv_mem (snd (binder_write E ws s)) = sv_mem s" "svclist (snd (binder_write E ws s)) = svclist s"
  "sv_calls (snd (binder_write E ws s)) = Suc (sv_calls s)"
  by (simp_all add: binder_write_def svc_tick_def)

lemma count_write: "count_words vs (snd (binder_write E ws s)) = count_words vs s + (if ws = vs then 1 else 0)"
  by (simp add: count_words_def binder_write_def svc_tick_def)

lemma held_write:
  "held h (snd (binder_write E ws s)) =
     held h s + (if ws = [BC_ACQUIRE, h] then 1 else 0) - (if ws = [BC_RELEASE, h] then 1 else 0)"
  by (simp add: held_def count_write)

lemma acquire_not_release: "BC_ACQUIRE \<noteq> BC_RELEASE"
  by (simp add: BC_ACQUIRE_def BC_RELEASE_def BC_code_def IOC_def IOC_WRITE_def)

lemma command_fields [simp]:
  "sv_mem (binder_acquire E p s) = sv_mem s" "svclist (binder_acquire E p s) = svclist s"
  "sv_calls (binder_acquire E p s) = Suc (sv_calls s)"
  "sv_mem (binder_release E p s) = sv_mem s" "svclist (binder_release E p s) = svclist s"
  "sv_calls (binder_release E p s) = Suc (sv_calls s)"
  "sv_mem (binder_link_to_death E p d s) = sv_mem s" "svclist (binder_link_to_death E p d s) = svclist s"
  "sv_calls (binder_link_to_death E p d s) = Suc (sv_calls s)"
  "held h (binder_acquire E p s) = held h s + (if p = h then 1 else 0)"
  "held h (binder_release E p s) = held h s - (if p = h then 1 else 0)"
  "held h (binder_link_to_death E p d s) = held h s"
  using acquire_not_release acquire_not_release [symmetric]
  by (simp_all add: binder_acquire_def binder_release_def binder_link_to_death_def held_write)

lemma announce_fields [simp]:
  "sv_mem (announce E p a s) = sv_mem s" "svclist (announce E p a s) = svclist s"
  "sv_calls (announce E p a s) = sv_calls s + 2"
  "held h (announce E p a s) = held h s + (if p = h then 1 else 0)"
  by (simp_all add: announce_def)

lemma entry_ok_later: "entry_ok E n e \<Longrightarrow> n \<le> k \<Longrightarrow> entry_ok E k e"
  by (auto simp: entry_ok_def intro: less_le_trans)

lemma held_list [simp]: "held h (s\<lparr>svclist := l\<rparr>) = held h s" "held h (s\<lparr>sv_mem := m\<rparr>) = held h s"
  by (simp_all add: held_def count_words_def)

section \<open>Changing an entry\<close>

lemma set_svc_fields [simp]:
  "sv_mem (set_svc a x s) = sv_mem s" "sv_calls (set_svc a x s) = sv_calls s" "held h (set_svc a x s) = held h s"
  by (simp_all add: set_svc_def held_def count_words_def)

lemma find_map: "(\<And>e. e \<in> set l \<Longrightarrow> P (f e) = P e) \<Longrightarrow> find P (map f l) = map_option f (find P l)"
  by (induction l) auto

definition with_ptr :: "addr \<Rightarrow> nat \<Rightarrow> addr \<times> svcinfo \<Rightarrow> addr \<times> svcinfo" where
  "with_ptr a p e = (if fst e = a then (a, (snd e)\<lparr>si_ptr := p\<rparr>) else e)"

lemma with_ptr_simps [simp]:
  "fst (with_ptr a p e) = fst e" "svc_key (snd (with_ptr a p e)) = svc_key (snd e)"
  by (auto simp: with_ptr_def svc_key_def)

lemma with_ptr_ok: "entry_ok E n e \<Longrightarrow> p < 2 ^ 32 \<Longrightarrow> entry_ok E n (with_ptr a p e)"
  by (auto simp: with_ptr_def entry_ok_def)

lemma set_svc_list:
  assumes "svc_inv E s" and "(a, si) \<in> set (svclist s)"
  shows "svclist (set_svc a (si\<lparr>si_ptr := p\<rparr>) s) = map (with_ptr a p) (svclist s)"
  using assms map_of_entry [OF assms(1)]
  by (fastforce simp: set_svc_def with_ptr_def dest: map_of_entry)

lemma entry_of_with_ptr:
  "svclist s' = map (with_ptr a p) (svclist s) \<Longrightarrow> entry_of cs s' = map_option (with_ptr a p) (entry_of cs s)"
  unfolding entry_of_def by (simp add: find_map case_prod_beta)

lemma registry_with_ptr:
  assumes inv: "svc_inv E s" and e: "(a, si) \<in> set (svclist s)" and l: "svclist s' = map (with_ptr a p) (svclist s)"
  shows "registry s' = (registry s)(svc_key si \<mapsto> (p, si_allow_isolated si))"
proof (rule ext)
  fix cs
  show "registry s' cs = ((registry s)(svc_key si \<mapsto> (p, si_allow_isolated si))) cs"
  proof (cases "cs = svc_key si")
    case True
    then show ?thesis using entry_of_key [OF inv e] by (simp add: registry_def entry_of_with_ptr [OF l] with_ptr_def)
  next
    case False
    show ?thesis
    proof (cases "entry_of cs s")
      case None
      then show ?thesis using False by (simp add: registry_def entry_of_with_ptr [OF l])
    next
      case (Some x)
      obtain b sj where x: "x = (b, sj)" by (cases x)
      have b: "(b, sj) \<in> set (svclist s)" "svc_key sj = cs" by (rule entry_of_Some, use Some x in simp)+
      have "b \<noteq> a" using map_of_entry [OF inv b(1)] map_of_entry [OF inv e] b(2) False by auto
      then show ?thesis using False Some x by (simp add: registry_def entry_of_with_ptr [OF l] with_ptr_def)
    qed
  qed
qed

lemma registered_split:
  "svclist s = us @ (a, si) # vs \<Longrightarrow>
   registered h s = length (filter (\<lambda>(a, si). si_ptr si = h) (us @ vs)) + (if si_ptr si = h then 1 else 0)"
  by (simp add: registered_def)

lemma registered_with_ptr:
  assumes inv: "svc_inv E s" and e: "(a, si) \<in> set (svclist s)" and l: "svclist s' = map (with_ptr a p) (svclist s)"
  shows "int (registered h s') = int (registered h s) - (if si_ptr si = h then 1 else 0) + (if p = h then 1 else 0)"
proof -
  obtain us vs where sp: "svclist s = us @ (a, si) # vs" using e by (metis split_list)
  have d: "a \<notin> fst ` set us" "a \<notin> fst ` set vs" using inv by (auto simp: svc_inv_def sp)
  have "map (with_ptr a p) xs = xs" if "a \<notin> fst ` set xs" for xs
    using that by (induction xs) (auto simp: with_ptr_def)
  then have sp': "svclist s' = us @ (a, si\<lparr>si_ptr := p\<rparr>) # vs" using d by (simp add: l sp with_ptr_def)
  show ?thesis by (simp add: registered_split [OF sp] registered_split [OF sp'])
qed

text \<open>An entry's handle may change when the references held change with it.\<close>

lemma with_ptr_inv:
  assumes inv: "svc_inv E s" and e: "(a, si) \<in> set (svclist s)" and l: "svclist s' = map (with_ptr a p) (svclist s)"
    and p: "p < 2 ^ 32" and c: "sv_calls s \<le> sv_calls s'"
    and h: "\<And>h. h \<noteq> 0 \<Longrightarrow> held h s' = held h s - (if si_ptr si = h then 1 else 0) + (if p = h then 1 else 0)"
  shows "svc_inv E s'"
proof -
  have "map fst (svclist s') = map fst (svclist s)" "map (svc_key \<circ> snd) (svclist s') = map (svc_key \<circ> snd) (svclist s)"
    by (simp_all add: l)
  moreover have "\<forall>e \<in> set (svclist s'). entry_ok E (sv_calls s') e"
    using inv c p by (auto simp: l svc_inv_def intro!: with_ptr_ok [OF entry_ok_later])
  ultimately show ?thesis
    using inv registered_with_ptr [OF inv e l] h unfolding svc_inv_def by simp
qed

section \<open>The death of a service\<close>

lemma svcinfo_death_ok:
  assumes inv: "svc_inv E s" and e: "(a, si) \<in> set (svclist s)"
  obtains s' where "svcinfo_death E a s = Some s'" and "svc_inv E s'" and "sv_mem s' = sv_mem s"
    and "registry s' = (registry s)(svc_key si \<mapsto> (0, si_allow_isolated si))"
    and "(a, si\<lparr>si_ptr := 0\<rparr>) \<in> set (svclist s')"
proof -
  have m: "map_of (svclist s) a = Some si" by (rule map_of_entry [OF inv e])
  show thesis
  proof (cases "si_ptr si = 0")
    case True
    then have "svcinfo_death E a s = Some s" "si\<lparr>si_ptr := 0\<rparr> = si" by (simp_all add: svcinfo_death_def m)
    moreover have "registry s (svc_key si) = Some (0, si_allow_isolated si)"
      using entry_of_key [OF inv e] True by (simp add: registry_def)
    ultimately show thesis using that [of s] inv e by (simp add: fun_upd_idem)
  next
    case False
    define s' where "s' = set_svc a (si\<lparr>si_ptr := 0\<rparr>) (binder_release E (si_ptr si) s)"
    have l: "svclist s' = map (with_ptr a 0) (svclist s)"
      using set_svc_list [OF inv e, of 0] by (simp add: s'_def set_svc_def)
    have "svc_inv E s'" by (rule with_ptr_inv [OF inv e l]) (auto simp: s'_def)
    moreover have "(a, si\<lparr>si_ptr := 0\<rparr>) \<in> set (svclist s')"
      using e by (force simp: l with_ptr_def)
    moreover have "svcinfo_death E a s = Some s'" using False by (simp add: svcinfo_death_def m s'_def)
    ultimately show thesis using that registry_with_ptr [OF inv e l] by (simp add: s'_def)
  qed
qed

section \<open>Registering\<close>

lemma add_entry:
  assumes E: "env_ok E" and inv: "svc_inv E s" and n: "name_at (sv_mem s) a ts"
    and ld: "load_u16s (sv_mem s) a (Suc (length cs)) = Some (cs @ [c])" and l: "cs \<noteq> []" "length cs \<le> 127"
    and new: "entry_of cs s = None" and p: "p < 2 ^ 32"
  obtains "new_svc E a (length cs) p al s = Some (0, svc_tick s)"
  | x si where "new_svc E a (length cs) p al s = Some (x, (svc_tick s)\<lparr>svclist := (x, si) # svclist s\<rparr>)" and "x \<noteq> 0"
      and "svc_key si = cs" and "si_ptr si = p" and "si_allow_isolated si = al"
      and "entry_ok E (Suc (sv_calls s)) (x, si)" and "x \<notin> fst ` set (svclist s)"
proof (cases "heap_alloc E (sv_calls s) (sizeof_svcinfo + (length cs + 1) * 2) = 0")
  case True
  obtain bs where "str8 (sv_mem s) a = Some bs" using str8_at [OF n] by blast
  then show thesis using that(1) True by (simp add: new_svc_def heap_malloc_def svc_tick_def)
next
  case False
  define x where "x = heap_alloc E (sv_calls s) (sizeof_svcinfo + (length cs + 1) * 2)"
  define si where "si = \<lparr>si_ptr = p, si_death = x, si_allow_isolated = al, si_len = length cs, si_name = cs @ [0]\<rparr>"
  have "(cs @ [c])[length cs := 0] = cs @ [0]" by simp
  then have c: "new_svc E a (length cs) p al s = Some (x, (svc_tick s)\<lparr>svclist := (x, si) # svclist s\<rparr>)"
    using ld False by (simp add: new_svc_def heap_malloc_def x_def si_def svc_tick_def del: load_u16s.simps)
  have fresh: "x \<notin> fst ` set (svclist s)"
  proof
    assume "x \<in> fst ` set (svclist s)"
    then obtain i k where "i < sv_calls s" "x = heap_alloc E i k"
      using inv by (fastforce simp: svc_inv_def entry_ok_def)
    then show False using E False by (metis env_ok_def nat_neq_iff x_def)
  qed
  have "entry_ok E (Suc (sv_calls s)) (x, si)"
    using False l p load_u16s_less [OF ld] by (auto simp: entry_ok_def si_def x_def)
  then show thesis using that(2) [OF c] False fresh by (simp add: x_def si_def svc_key_def)
qed

lemma registry_cons:
  "svclist s' = (x, si) # svclist s \<Longrightarrow> registry s' = (registry s)(svc_key si \<mapsto> (si_ptr si, si_allow_isolated si))"
  by (rule ext) (simp add: registry_def entry_of_def)

lemma cons_inv:
  assumes inv: "svc_inv E s" and l: "svclist s' = (x, si) # svclist s" and c: "sv_calls s \<le> sv_calls s'"
    and ok: "entry_ok E (sv_calls s') (x, si)" and fresh: "x \<notin> fst ` set (svclist s)" and new: "entry_of (svc_key si) s = None"
    and h: "\<And>h. h \<noteq> 0 \<Longrightarrow> held h s' = held h s + (if si_ptr si = h then 1 else 0)"
  shows "svc_inv E s'"
proof -
  have "svc_key si \<notin> (svc_key \<circ> snd) ` set (svclist s)" using new by (fastforce simp: entry_of_def find_None_iff)
  then show ?thesis
    using inv c ok fresh h
    by (auto simp: svc_inv_def l registered_def intro: entry_ok_later split: if_splits)
qed

lemma svc_tick_fields [simp]:
  "sv_mem (svc_tick s) = sv_mem s" "svclist (svc_tick s) = svclist s" "sv_calls (svc_tick s) = Suc (sv_calls s)"
  "held h (svc_tick s) = held h s" "registry (svc_tick s) = registry s"
  by (simp_all add: svc_tick_def held_def count_words_def fun_eq_iff registry_def entry_of_def)

lemma tick_inv: "svc_inv E s \<Longrightarrow> svc_inv E (svc_tick s)"
  by (auto simp: svc_inv_def registered_def intro: entry_ok_later)

end
