(* ===== verification/Bio_Items.thy ===== *)
theory Bio_Items
  imports Svc_Registry Svc_Binder
begin

text \<open>
  Messages as lists of items: writing a list of items with the \<open>bio_put\<close> functions stays inside
  the buffer the cursor was started on and never faults, and reading the result with the
  \<open>bio_get\<close> functions gives the items back, as long as the cursor did not run out of room.
\<close>

unbundle bit_operations_syntax

section \<open>Which bytes change\<close>

definition changed :: "umem \<Rightarrow> umem \<Rightarrow> addr set \<Rightarrow> bool" where
  "changed m m' A \<longleftrightarrow> dom m' = dom m \<and> (\<forall>a. a \<notin> A \<longrightarrow> m' a = m a)"

lemma changed_refl [simp]: "changed m m A"
  by (simp add: changed_def)

lemma changed_trans: "changed m m1 A \<Longrightarrow> changed m1 m2 B \<Longrightarrow> changed m m2 (A \<union> B)"
  by (simp add: changed_def)

lemma changed_mono: "changed m m' A \<Longrightarrow> A \<subseteq> B \<Longrightarrow> changed m m' B"
  by (auto simp: changed_def)

lemma changed_mapped: "changed m m' A \<Longrightarrow> mapped m' = mapped m"
  by (simp add: changed_def mapped_def fun_eq_iff)

lemma patch_changed: "mapped m a (length bs) \<Longrightarrow> changed m (patch m a bs) {a ..< a + length bs}"
proof -
  assume mp: "mapped m a (length bs)"
  then have "patch m a bs i \<noteq> None \<longleftrightarrow> m i \<noteq> None" for i
    by (auto simp: patch_def mapped_def dom_def subset_iff)
  then have "dom (patch m a bs) = dom m" unfolding dom_def by blast
  then show ?thesis by (auto simp: changed_def patch_def)
qed

lemma load_bytes_same: "(\<And>b. a \<le> b \<Longrightarrow> b < a + n \<Longrightarrow> m' b = m b) \<Longrightarrow> load_bytes m' a n = load_bytes m a n"
proof (induction n arbitrary: a)
  case (Suc n)
  have "load_bytes m' (Suc a) n = load_bytes m (Suc a) n" by (rule Suc.IH) (rule Suc.prems; simp)
  moreover have "m' a = m a" by (rule Suc.prems) simp_all
  ultimately show ?case by simp
qed simp

lemma load32_same: "changed m m' A \<Longrightarrow> {a ..< a + 4} \<inter> A = {} \<Longrightarrow> load32 m' a = load32 m a"
  unfolding load32_def by (subst load_bytes_same [of a 4 m' m]) (auto simp: changed_def)

lemma load16_same: "changed m m' A \<Longrightarrow> {a ..< a + 2} \<inter> A = {} \<Longrightarrow> load16 m' a = load16 m a"
  unfolding load16_def by (subst load_bytes_same [of a 2 m' m]) (auto simp: changed_def)

lemma load_u16s_same: "changed m m' A \<Longrightarrow> {a ..< a + 2 * n} \<inter> A = {} \<Longrightarrow> load_u16s m' a n = load_u16s m a n"
proof (induction n arbitrary: a)
  case (Suc n)
  have "{a + 2 ..< a + 2 + 2 * n} \<subseteq> {a ..< a + 2 * Suc n}" "{a ..< a + 2} \<subseteq> {a ..< a + 2 * Suc n}" by auto
  then have "load_u16s m' (a + 2) n = load_u16s m (a + 2) n" "load16 m' a = load16 m a"
    using Suc.IH [OF Suc.prems(1), of "a + 2"] load16_same [OF Suc.prems(1), of a] Suc.prems(2) by blast+
  then show ?case by simp
qed simp

lemma name_at_same:
  "changed m m' A \<Longrightarrow> {a ..< a + 2 * Suc (length cs)} \<inter> A = {} \<Longrightarrow> name_at m a cs \<Longrightarrow> name_at m' a cs"
  unfolding name_at_def by (simp only: load_u16s_same)

section \<open>Items\<close>

datatype item = I_Word nat | I_String "nat list" | I_Ref nat

fun put_item :: "binder_io \<Rightarrow> item \<Rightarrow> umem \<Rightarrow> (binder_io \<times> umem) option" where
  "put_item io (I_Word v) m = bio_put_uint32 io v m"
| "put_item io (I_String cs) m = bio_put_string16 io (Some (cs @ [0])) m"
| "put_item io (I_Ref h) m = bio_put_ref io h m"

fun put_items :: "binder_io \<Rightarrow> item list \<Rightarrow> umem \<Rightarrow> (binder_io \<times> umem) option" where
  "put_items io [] m = Some (io, m)"
| "put_items io (it # its) m = do { (io1, m1) \<leftarrow> put_item io it m; put_items io1 its m1 }"

fun item_ok :: "item \<Rightarrow> bool" where
  "item_ok (I_Word v) = (v < 2 ^ 32)"
| "item_ok (I_String cs) = (0 \<notin> set cs \<and> (\<forall>c \<in> set cs. c < 2 ^ 16) \<and> length cs < 2 ^ 29)"
| "item_ok (I_Ref h) = (h \<noteq> 0 \<and> h < 2 ^ 32)"

text \<open>Reading an item from a cursor leaves another cursor.\<close>

fun item_in :: "umem \<Rightarrow> binder_io \<Rightarrow> item \<Rightarrow> binder_io \<Rightarrow> bool" where
  "item_in m io (I_Word v) io' = (bio_get_uint32 io m = Some (v, io'))"
| "item_in m io (I_String cs) io' = (\<exists>a. bio_get_string16 io m = Some (a, length cs, io') \<and> name_at m a cs)"
| "item_in m io (I_Ref h) io' = (bio_get_ref io m = Some (h, io'))"

fun items_in :: "umem \<Rightarrow> binder_io \<Rightarrow> item list \<Rightarrow> binder_io \<Rightarrow> bool" where
  "items_in m io [] io' = (io' = io)"
| "items_in m io (it # its) io' = (\<exists>io1. item_in m io it io1 \<and> items_in m io1 its io')"

section \<open>The cursor for writing\<close>

definition limit :: "binder_io \<Rightarrow> addr" where
  "limit io = io_data io + io_data_avail io"

definition offs_limit :: "binder_io \<Rightarrow> addr" where
  "offs_limit io = io_offs io + 4 * io_offs_avail io"

definition writable :: "umem \<Rightarrow> binder_io \<Rightarrow> bool" where
  "writable m io \<longleftrightarrow> 0 < io_offs0 io \<and> io_offs0 io \<le> io_offs io \<and> 4 dvd io_offs io - io_offs0 io \<and>
     offs_limit io \<le> io_data0 io \<and> io_data0 io \<le> io_data io \<and> limit io < 2 ^ 32 \<and>
     mapped m (io_offs0 io) (limit io - io_offs0 io)"

definition overflowed :: "binder_io \<Rightarrow> bool" where
  "overflowed io \<longleftrightarrow> io_flags io AND BIO_F_OVERFLOW \<noteq> 0"

lemma overflowed_set [simp]: "overflowed (set_overflow io)"
proof -
  have "bit (io_flags (set_overflow io) AND BIO_F_OVERFLOW) 1"
    by (simp add: set_overflow_def BIO_F_OVERFLOW_def bit_simps)
  then show ?thesis unfolding overflowed_def by (metis bit_0_eq bot_apply bot_bool_def)
qed

text \<open>One cursor follows another: same buffer, no less used, and overflow is not forgotten.\<close>

definition follows :: "binder_io \<Rightarrow> binder_io \<Rightarrow> bool" where
  "follows io io' \<longleftrightarrow> io_data0 io' = io_data0 io \<and> io_offs0 io' = io_offs0 io \<and> limit io' = limit io \<and>
     offs_limit io' = offs_limit io \<and> io_data io \<le> io_data io' \<and> io_offs io \<le> io_offs io' \<and>
     4 dvd io_offs io' - io_offs io \<and> (overflowed io \<longrightarrow> overflowed io')"

lemma dvd_step: "a \<le> b \<Longrightarrow> b \<le> c \<Longrightarrow> 4 dvd b - a \<Longrightarrow> 4 dvd c - b \<Longrightarrow> 4 dvd c - a" for a b c :: nat
  using dvd_add [of 4 "b - a" "c - b"] by simp

lemma follows_refl [simp]: "follows io io"
  by (simp add: follows_def)

lemma follows_trans: "follows io io1 \<Longrightarrow> follows io1 io2 \<Longrightarrow> follows io io2"
  by (simp add: follows_def dvd_step [of "io_offs io" "io_offs io1" "io_offs io2"])

lemma align4_bound: "n \<le> 2 ^ 31 \<Longrightarrow> n \<le> align4 n \<and> align4 n < n + 4 \<and> 4 dvd align4 n"
  unfolding align4_def u32_def by simp presburger

lemma writable_follows:
  assumes "writable m io" and "follows io io'" and "changed m m' A"
  shows "writable m' io'"
  using assms dvd_step [of "io_offs0 io" "io_offs io" "io_offs io'"]
  by (auto simp: writable_def follows_def changed_mapped)

lemma bio_alloc_cases:
  assumes "n \<le> 2 ^ 31" and "writable m io"
  obtains "bio_alloc io n = (0, set_overflow io)" and "io_data_avail io < align4 n"
  | io1 where "bio_alloc io n = (io_data io, io1)" and "io_data io \<noteq> 0" and "follows io io1"
      and "io1 = io\<lparr>io_data := io_data io + align4 n, io_data_avail := io_data_avail io - align4 n\<rparr>"
      and "n \<le> align4 n" and "align4 n \<le> io_data_avail io"
proof (cases "io_data_avail io < align4 n")
  case True
  then show thesis using that(1) by (simp add: bio_alloc_def)
next
  case False
  have "io_data io \<noteq> 0" using assms(2) by (auto simp: writable_def offs_limit_def)
  then show thesis using that(2) False align4_bound [OF assms(1)]
    by (simp add: bio_alloc_def Let_def follows_def limit_def offs_limit_def overflowed_def)
qed

lemma follows_set_overflow [simp]: "follows io (set_overflow io)"
  using overflowed_set [of io] by (simp add: follows_def limit_def offs_limit_def set_overflow_def)

text \<open>The bytes a step from one cursor to the next may write.\<close>

definition span :: "binder_io \<Rightarrow> binder_io \<Rightarrow> addr set" where
  "span io io' = {io_data io ..< io_data io'} \<union> {io_offs io ..< io_offs io'}"

definition step_ok :: "binder_io \<Rightarrow> umem \<Rightarrow> binder_io \<Rightarrow> umem \<Rightarrow> bool" where
  "step_ok io m io' m' \<longleftrightarrow> follows io io' \<and> changed m m' (span io io')"

lemma step_refl [simp]: "step_ok io m io m"
  by (simp add: step_ok_def)

lemma step_overflow [simp]: "step_ok io m (set_overflow io) m"
  by (simp add: step_ok_def)

lemma span_sub: "follows io io1 \<Longrightarrow> follows io1 io2 \<Longrightarrow> span io io1 \<union> span io1 io2 \<subseteq> span io io2"
  by (auto simp: span_def follows_def)

lemma step_trans: "step_ok io m io1 m1 \<Longrightarrow> step_ok io1 m1 io2 m2 \<Longrightarrow> step_ok io m io2 m2"
  unfolding step_ok_def by (blast intro: follows_trans changed_mono [OF changed_trans span_sub])

lemma step_writable: "step_ok io m io' m' \<Longrightarrow> writable m io \<Longrightarrow> writable m' io'"
  unfolding step_ok_def by (blast intro: writable_follows)

lemma mapped_in:
  "writable m io \<Longrightarrow> io_offs0 io \<le> a \<Longrightarrow> a + n \<le> limit io \<Longrightarrow> mapped m a n"
  unfolding writable_def by (elim conjE, erule mapped_sub) auto

text \<open>Each \<open>bio_put\<close> function on a cursor that may write: what it stores, or that it overflows.\<close>

lemma store32_ok:
  assumes "mapped m a 4"
  obtains m' where "store32 m a v = Some m'" and "changed m m' {a ..< a + 4}" and "load32 m' a = Some (v mod 2 ^ 32)"
  using assms patch_changed [of m a "le_bytes v"] load32_patch_same [of m a v] by (auto simp: store32_iff)

section \<open>Words\<close>

lemma put_word_ok:
  assumes w: "writable m io"
  obtains io1 m1 where "bio_put_uint32 io v m = Some (io1, m1)" and "step_ok io m io1 m1"
    and "\<not> overflowed io1 \<Longrightarrow> io_data io1 = io_data io + 4 \<and> io_offs io1 = io_offs io \<and>
           load32 m1 (io_data io) = Some (v mod 2 ^ 32)"
proof (rule bio_alloc_cases [of 4, OF _ w])
  assume "bio_alloc io 4 = (0, set_overflow io)"
  then show thesis using that [of "set_overflow io" m] by (simp add: bio_put_uint32_def)
next
  fix io1 assume a: "bio_alloc io 4 = (io_data io, io1)" "io_data io \<noteq> 0" and f: "follows io io1"
    and io1: "io1 = io\<lparr>io_data := io_data io + align4 4, io_data_avail := io_data_avail io - align4 4\<rparr>"
    and le: "align4 4 \<le> io_data_avail io"
  have n: "align4 4 = 4" by (simp add: align4_def u32_def)
  have "mapped m (io_data io) 4"
    by (rule mapped_in [OF w]) (use w le in \<open>auto simp: writable_def limit_def offs_limit_def n\<close>)
  then obtain m1 where m1: "store32 m (io_data io) v = Some m1" and c: "changed m m1 {io_data io ..< io_data io + 4}"
    and l: "load32 m1 (io_data io) = Some (v mod 2 ^ 32)" by (rule store32_ok)
  have "step_ok io m io1 m1"
    unfolding step_ok_def using f changed_mono [OF c] by (simp add: io1 n span_def)
  then show thesis using that [of io1 m1] a m1 l by (simp add: bio_put_uint32_def io1 n)
qed simp

section \<open>Strings\<close>

lemma c_length_end: "0 \<notin> set cs \<Longrightarrow> c_length (cs @ [0]) = Some (length cs)"
proof -
  assume "0 \<notin> set cs"
  then have "takeWhile (\<lambda>c. c \<noteq> 0) (cs @ [0]) = cs" by (subst takeWhile_append2) (metis, simp)
  then show ?thesis by (simp add: c_length_def)
qed

lemma put_chars_ok:
  assumes w: "writable m io" and ok: "\<forall>c \<in> set cs. c < 2 ^ 16" and len: "length cs < 2 ^ 29"
  obtains io1 m1 where "(let (ptr, io2) = bio_alloc io ((length cs + 1) * 2) in
       if ptr \<noteq> 0 then do { m2 \<leftarrow> store_u16s m ptr (cs @ [0]); Some (io2, m2) } else Some (io2, m)) = Some (io1, m1)"
    and "step_ok io m io1 m1"
    and "\<not> overflowed io1 \<Longrightarrow> io_data io1 = io_data io + align4 ((length cs + 1) * 2) \<and> io_offs io1 = io_offs io \<and>
           name_at m1 (io_data io) cs"
proof -
  define k where "k = (length cs + 1) * 2"
  have "k \<le> 2 ^ 31" using len by (simp add: k_def)
  then show thesis
  proof (rule bio_alloc_cases [OF _ w])
    assume "bio_alloc io k = (0, set_overflow io)"
    then show thesis by (intro that [unfolded k_def [symmetric], of "set_overflow io" m]) simp_all
  next
    fix io1 assume a: "bio_alloc io k = (io_data io, io1)" "io_data io \<noteq> 0" and f: "follows io io1"
      and io1: "io1 = io\<lparr>io_data := io_data io + align4 k, io_data_avail := io_data_avail io - align4 k\<rparr>"
      and kn: "k \<le> align4 k" and le: "align4 k \<le> io_data_avail io"
    define bs where "bs = concat (map le_bytes16 (cs @ [0]))"
    have lb: "length bs = k" unfolding bs_def length_le16s by (simp add: k_def)
    have "mapped m (io_data io) k"
      by (rule mapped_in [OF w]) (use w le kn in \<open>auto simp: writable_def limit_def offs_limit_def\<close>)
    then have mp: "mapped m (io_data io) (length bs)" by (simp add: lb)
    have m1: "store_u16s m (io_data io) (cs @ [0]) = Some (patch m (io_data io) bs)"
      using mp unfolding store_u16s_def store_bytes_iff bs_def [symmetric] by simp
    have c: "changed m (patch m (io_data io) bs) {io_data io ..< io_data io + k}"
      using patch_changed [OF mp] by (simp add: lb)
    have "load_u16s (patch m (io_data io) bs) (io_data io) (length (cs @ [0])) = Some (cs @ [0])"
      unfolding bs_def by (rule load_u16s_patch_same) (use ok in auto)
    then have "name_at (patch m (io_data io) bs) (io_data io) cs" by (simp add: name_at_def del: load_u16s.simps)
    moreover have "step_ok io m io1 (patch m (io_data io) bs)"
      unfolding step_ok_def using f kn changed_mono [OF c] by (auto simp: io1 span_def)
    ultimately show thesis
      by (intro that [unfolded k_def [symmetric], of io1 "patch m (io_data io) bs"]) (use a m1 in \<open>simp_all add: io1\<close>)
  qed
qed

lemma put_string_ok:
  assumes w: "writable m io" and ok: "item_ok (I_String cs)"
  obtains io1 m1 where "bio_put_string16 io (Some (cs @ [0])) m = Some (io1, m1)" and "step_ok io m io1 m1"
    and "\<not> overflowed io1 \<Longrightarrow> io_data io1 = io_data io + 4 + align4 ((length cs + 1) * 2) \<and> io_offs io1 = io_offs io \<and>
           load32 m1 (io_data io) = Some (length cs) \<and> name_at m1 (io_data io + 4) cs"
proof -
  have len: "length cs < 2 ^ 29" using ok by simp
  obtain io1 m1 where p: "bio_put_uint32 io (length cs) m = Some (io1, m1)" and s1: "step_ok io m io1 m1"
    and v1: "\<not> overflowed io1 \<Longrightarrow> io_data io1 = io_data io + 4 \<and> io_offs io1 = io_offs io \<and>
           load32 m1 (io_data io) = Some (length cs mod 2 ^ 32)" by (rule put_word_ok [OF w, of "length cs"]) blast
  obtain io2 m2 where q: "(let (ptr, io2) = bio_alloc io1 ((length cs + 1) * 2) in
       if ptr \<noteq> 0 then do { m2 \<leftarrow> store_u16s m1 ptr (cs @ [0]); Some (io2, m2) } else Some (io2, m1)) = Some (io2, m2)"
    and s2: "step_ok io1 m1 io2 m2"
    and v2: "\<not> overflowed io2 \<Longrightarrow> io_data io2 = io_data io1 + align4 ((length cs + 1) * 2) \<and> io_offs io2 = io_offs io1 \<and>
           name_at m2 (io_data io1) cs"
    by (rule put_chars_ok [OF step_writable [OF s1 w], of cs]) (use ok in auto)
  have "bio_put_string16 io (Some (cs @ [0])) m = Some (io2, m2)"
    using ok len p q by (simp add: bio_put_string16_def c_length_end MAX_BIO_SIZE_def cong: if_cong)
  moreover have "load32 m2 (io_data io) = Some (length cs)" if "\<not> overflowed io2"
  proof -
    have o1: "\<not> overflowed io1" using that s2 by (auto simp: step_ok_def follows_def)
    have "span io1 io2 = {io_data io1 ..< io_data io2}" using v2 [OF that] by (simp add: span_def)
    then have "load32 m2 (io_data io) = load32 m1 (io_data io)"
      using s2 v1 [OF o1] load32_same [of m1 m2 "span io1 io2" "io_data io"] by (auto simp: step_ok_def)
    then show ?thesis using v1 [OF o1] len by simp
  qed
  moreover have "\<not> overflowed io1" if "\<not> overflowed io2" using that s2 by (auto simp: step_ok_def follows_def)
  ultimately show thesis using that [of io2 m2] step_trans [OF s1 s2] v1 v2 by simp
qed

section \<open>References\<close>

lemma put_object_ok:
  assumes "mapped m obj 16" and "ty < 2 ^ 32" and "ptr < 2 ^ 32"
  obtains m' where "put_object obj ty ptr m = Some m'" and "changed m m' {obj ..< obj + 16}"
    and "load32 m' obj = Some ty" and "load32 m' (obj + 8) = Some ptr"
proof -
  have s: "mapped m (obj + 4) 4" "mapped m obj 4" "mapped m (obj + 8) 4" "mapped m (obj + 12) 4"
    by (rule mapped_sub [OF assms(1)]; simp)+
  obtain m1 where m1: "store32 m (obj + 4) OBJ_FLAGS = Some m1" "changed m m1 {obj + 4 ..< obj + 4 + 4}"
    by (rule store32_ok [OF s(1)])
  obtain m2 where m2: "store32 m1 obj ty = Some m2" "changed m1 m2 {obj ..< obj + 4}" "load32 m2 obj = Some ty"
    by (rule store32_ok [of m1 obj ty]) (use s(2) assms(2) changed_mapped [OF m1(2)] in auto)
  note c2 = changed_trans [OF m1(2) m2(2)]
  obtain m3 where m3: "store32 m2 (obj + 8) ptr = Some m3" "changed m2 m3 {obj + 8 ..< obj + 8 + 4}"
    "load32 m3 (obj + 8) = Some ptr"
    by (rule store32_ok [of m2 "obj + 8" ptr]) (use s(3) assms(3) changed_mapped [OF c2] in auto)
  note c3 = changed_trans [OF c2 m3(2)]
  obtain m4 where m4: "store32 m3 (obj + 12) 0 = Some m4" "changed m3 m4 {obj + 12 ..< obj + 12 + 4}"
    by (rule store32_ok [of m3 "obj + 12" 0]) (use s(4) changed_mapped [OF c3] in auto)
  have "load32 m4 obj = Some ty"
    using load32_same [OF changed_trans [OF m3(2) m4(2)], of obj] m2(3) by (simp add: Int_Un_distrib)
  moreover have "load32 m4 (obj + 8) = Some ptr" using load32_same [OF m4(2), of "obj + 8"] m3(3) by simp
  moreover have "changed m m4 {obj ..< obj + 16}" by (rule changed_mono [OF changed_trans [OF c3 m4(2)]]) auto
  ultimately show thesis using that m1(1) m2(1) m3(1) m4(1) by (simp add: put_object_def)
qed

lemma handle_type: "BINDER_TYPE_HANDLE < 2 ^ 32"
  by (simp add: BINDER_TYPE_HANDLE_def B_PACK_CHARS_def)

lemma bytes_to_le: "a \<le> b \<Longrightarrow> b < 2 ^ 32 \<Longrightarrow> bytes_to a b = b - a"
  unfolding bytes_to_def by (simp flip: of_nat_diff)

lemma alloc_obj_ok:
  assumes w: "writable m io"
  obtains io1 m1 where "bio_alloc_obj io m = Some (0, io1, m1)" and "step_ok io m io1 m1" and "overflowed io1"
  | io1 m1 where "bio_alloc_obj io m = Some (io_data io, io1, m1)" and "io_data io \<noteq> 0" and "step_ok io m io1 m1"
      and "io_data io1 = io_data io + 16" and "io_offs io1 = io_offs io + 4"
      and "changed m m1 {io_offs io ..< io_offs io + 4}" and "mapped m (io_data io) 16"
      and "load32 m1 (io_offs io) = Some (io_data io - io_data0 io)"
proof (rule bio_alloc_cases [of 16, OF _ w])
  assume "bio_alloc io 16 = (0, set_overflow io)"
  then have "bio_alloc_obj io m = Some (0, set_overflow (set_overflow io), m)" by (simp add: bio_alloc_obj_def)
  then show thesis using that(1) step_trans [OF step_overflow step_overflow] overflowed_set by blast
next
  fix io1 assume a: "bio_alloc io 16 = (io_data io, io1)" "io_data io \<noteq> 0" and f: "follows io io1"
    and io1: "io1 = io\<lparr>io_data := io_data io + align4 16, io_data_avail := io_data_avail io - align4 16\<rparr>"
    and le: "align4 16 \<le> io_data_avail io"
  have n: "align4 16 = 16" by (simp add: align4_def u32_def)
  have st: "step_ok io m io1 m" using f by (simp add: step_ok_def)
  show thesis
  proof (cases "io_offs_avail io = 0")
    case True
    then have "bio_alloc_obj io m = Some (0, set_overflow io1, m)" using a by (simp add: bio_alloc_obj_def io1)
    then show thesis using that(1) step_trans [OF st step_overflow] overflowed_set by blast
  next
    case False
    define io2 where "io2 = io1\<lparr>io_offs_avail := io_offs_avail io1 - 1, io_offs := io_offs io1 + 4\<rparr>"
    have d: "bytes_to (io_data0 io) (io_data io) = io_data io - io_data0 io"
      by (rule bytes_to_le) (use w in \<open>auto simp: writable_def limit_def\<close>)
    have "mapped m (io_offs io) 4"
      by (rule mapped_in [OF w]) (use w False in \<open>auto simp: writable_def limit_def offs_limit_def\<close>)
    then obtain m1 where m1: "store32 m (io_offs io) (io_data io - io_data0 io) = Some m1"
      "changed m m1 {io_offs io ..< io_offs io + 4}"
      "load32 m1 (io_offs io) = Some ((io_data io - io_data0 io) mod 2 ^ 32)" by (rule store32_ok)
    have "io_data io - io_data0 io < 2 ^ 32" using w by (auto simp: writable_def limit_def)
    then have l: "load32 m1 (io_offs io) = Some (io_data io - io_data0 io)" using m1(3) by simp
    have "follows io io2" using f False
      by (simp add: io2_def io1 follows_def offs_limit_def limit_def overflowed_def)
    moreover have "changed m m1 (span io io2)" by (rule changed_mono [OF m1(2)]) (simp add: io2_def io1 span_def)
    moreover have "mapped m (io_data io) 16"
      by (rule mapped_in [OF w]) (use w le in \<open>auto simp: writable_def limit_def offs_limit_def n\<close>)
    moreover have "bio_alloc_obj io m = Some (io_data io, io2, m1)"
      using a False m1(1) d by (simp add: bio_alloc_obj_def io1 io2_def)
    ultimately show thesis using that(2) [of io2 m1] a(2) m1(2) l
      by (simp add: step_ok_def io2_def io1 n)
  qed
qed simp

lemma put_ref_ok:
  assumes w: "writable m io" and h: "h \<noteq> 0" "h < 2 ^ 32"
  obtains io1 m1 where "bio_put_ref io h m = Some (io1, m1)" and "step_ok io m io1 m1"
    and "\<not> overflowed io1 \<Longrightarrow> io_data io1 = io_data io + 16 \<and> io_offs io1 = io_offs io + 4 \<and>
           load32 m1 (io_offs io) = Some (io_data io - io_data0 io) \<and>
           load32 m1 (io_data io) = Some BINDER_TYPE_HANDLE \<and> load32 m1 (io_data io + 8) = Some h"
proof (rule alloc_obj_ok [OF w])
  fix io1 m1 assume "bio_alloc_obj io m = Some (0, io1, m1)" "step_ok io m io1 m1" "overflowed io1"
  then show thesis using that [of io1 m1] h by (simp add: bio_put_ref_def)
next
  fix io1 m1 assume a: "bio_alloc_obj io m = Some (io_data io, io1, m1)" "io_data io \<noteq> 0" and s: "step_ok io m io1 m1"
    and e: "io_data io1 = io_data io + 16" "io_offs io1 = io_offs io + 4"
    and c: "changed m m1 {io_offs io ..< io_offs io + 4}" and mp: "mapped m (io_data io) 16"
    and l: "load32 m1 (io_offs io) = Some (io_data io - io_data0 io)"
  have "mapped m1 (io_data io) 16" using mp changed_mapped [OF c] by simp
  then obtain m2 where m2: "put_object (io_data io) BINDER_TYPE_HANDLE h m1 = Some m2"
    "changed m1 m2 {io_data io ..< io_data io + 16}" "load32 m2 (io_data io) = Some BINDER_TYPE_HANDLE"
    "load32 m2 (io_data io + 8) = Some h"
    by (rule put_object_ok [OF _ handle_type h(2)])
  have o: "io_offs io + 4 \<le> io_data io"
    using step_writable [OF s w] w s e by (auto simp: writable_def offs_limit_def step_ok_def follows_def)
  have "load32 m2 (io_offs io) = Some (io_data io - io_data0 io)"
    using load32_same [OF m2(2), of "io_offs io"] o l by simp
  moreover have "step_ok io m io1 m2"
    using s changed_mono [OF changed_trans [OF c m2(2)], of "span io io1"] by (simp add: step_ok_def span_def e)
  ultimately show thesis using that [of io1 m2] a h m2 e by (simp add: bio_put_ref_def)
qed

text \<open>
  Reading back what was written: a message that was built without overflow, sent as a
  transaction, yields its items in order, and nothing is left.
\<close>

section \<open>One item\<close>

fun stored :: "item \<Rightarrow> binder_io \<Rightarrow> binder_io \<Rightarrow> umem \<Rightarrow> bool" where
  "stored (I_Word v) io io' m =
     (io_data io' = io_data io + 4 \<and> io_offs io' = io_offs io \<and> load32 m (io_data io) = Some v)"
| "stored (I_String cs) io io' m =
     (io_data io' = io_data io + 4 + align4 ((length cs + 1) * 2) \<and> io_offs io' = io_offs io \<and>
      load32 m (io_data io) = Some (length cs) \<and> name_at m (io_data io + 4) cs)"
| "stored (I_Ref h) io io' m =
     (io_data io' = io_data io + 16 \<and> io_offs io' = io_offs io + 4 \<and>
      load32 m (io_offs io) = Some (io_data io - io_data0 io) \<and>
      load32 m (io_data io) = Some BINDER_TYPE_HANDLE \<and> load32 m (io_data io + 8) = Some h)"

lemma put_item_ok:
  assumes w: "writable m io" and ok: "item_ok it"
  obtains io1 m1 where "put_item io it m = Some (io1, m1)" and "step_ok io m io1 m1"
    and "\<not> overflowed io1 \<Longrightarrow> stored it io io1 m1"
proof (cases it)
  case (I_Word v)
  show thesis by (rule put_word_ok [OF w, of v], rule that) (use I_Word ok in auto)
next
  case (I_String cs)
  have "item_ok (I_String cs)" using ok I_String by simp
  show thesis by (rule put_string_ok [OF w \<open>item_ok (I_String cs)\<close>], rule that) (use I_String in auto)
next
  case (I_Ref h)
  have h: "h \<noteq> 0" "h < 2 ^ 32" using ok I_Ref by simp_all
  show thesis by (rule put_ref_ok [OF w h], rule that) (use I_Ref in auto)
qed

definition reader :: "binder_io \<Rightarrow> addr \<Rightarrow> binder_io" where
  "reader io p =
     \<lparr>io_data = p, io_offs = io_offs0 io, io_data_avail = io_data io - p,
      io_offs_avail = (io_offs io - io_offs0 io) div 4, io_data0 = io_data0 io, io_offs0 = io_offs0 io,
      io_flags = BIO_F_SHARED\<rparr>"

lemma bio_get_reader:
  "p \<noteq> 0 \<Longrightarrow> p + align4 n \<le> io_data io \<Longrightarrow> bio_get (reader io p) n = (p, reader io (p + align4 n))"
  by (auto simp: bio_get_def reader_def Let_def)

lemma align4_words [simp]: "align4 4 = 4" "align4 16 = 16"
  by (simp_all add: align4_def u32_def)

lemma offs_has_true:
  "mapped m a (4 * n) \<Longrightarrow> k < n \<Longrightarrow> load32 m (a + 4 * k) = Some off \<Longrightarrow> offs_has m a n off = Some True"
proof (induction n arbitrary: a k)
  case (Suc n)
  have mp: "mapped m a 4" "mapped m (a + 4) (4 * n)"
    using Suc.prems(1) mapped_add [of m a 4 "4 * n"] by auto
  obtain v where v: "load32 m a = Some v" using mp(1) load32_mapped [of m a] by blast
  show ?case
  proof (cases k)
    case 0
    then show ?thesis using Suc.prems(3) by simp
  next
    case (Suc j)
    then have "offs_has m (a + 4) n off = Some True"
      using Suc.IH [OF mp(2), of j] Suc.prems by (simp add: algebra_simps)
    then show ?thesis using v by simp
  qed
qed simp

lemma item_read_in:
  assumes st: "stored it io io1 m1" and ok: "item_ok it" and w': "writable m' io'"
    and f0: "follows io io1" and f: "follows io1 io'" and w0: "writable m1 io" and ch: "changed m1 m' A"
    and dj: "A \<inter> ({io_offs0 io ..< io_offs io1} \<union> {io_data io ..< io_data io1}) = {}"
  shows "item_in m' (reader io' (io_data io)) it (reader io' (io_data io1))"
proof -
  have ord: "io_offs0 io' \<le> io_offs io" "io_offs io \<le> io_offs io1" "io_offs io1 \<le> io_offs io'" "io_offs io' \<le> io_data0 io'"
    "io_data0 io' \<le> io_data io" "io_data io \<le> io_data io1" "io_data io1 \<le> io_data io'" "io_data io' < 2 ^ 32"
    "0 < io_offs0 io'" "io_data0 io = io_data0 io'" "4 dvd io_offs io - io_offs0 io'" "io_offs0 io = io_offs0 io'"
    using w' w0 f f0 by (auto simp: writable_def follows_def offs_limit_def limit_def)
  have p: "io_data io \<noteq> 0" using ord by linarith
  have keep: "{a ..< a + n} \<inter> A = {}" if "io_data io \<le> a" "a + n \<le> io_data io1" for a n
  proof -
    have "{a ..< a + n} \<subseteq> {io_data io ..< io_data io1}" using that by auto
    then show ?thesis using dj by blast
  qed
  show ?thesis
  proof (cases it)
    case (I_Word v)
    have "load32 m' (io_data io) = Some v"
      using load32_same [OF ch keep, of "io_data io"] st I_Word by simp
    then show ?thesis
      using p st ord bio_get_reader [of "io_data io" 4 io'] by (simp add: I_Word bio_get_uint32_def)
  next
    case (I_String cs)
    define k where "k = (length cs + 1) * 2"
    have len: "length cs < 2 ^ 29" using ok I_String by simp
    have d: "io_data io1 = io_data io + 4 + align4 k" and l: "load32 m1 (io_data io) = Some (length cs)"
      and n: "name_at m1 (io_data io + 4) cs" using st by (simp_all add: I_String k_def)
    have kb: "k \<le> align4 k" using align4_bound [of k] len by (simp add: k_def)
    have "load32 m' (io_data io) = Some (length cs)"
      using load32_same [OF ch keep, of "io_data io"] l d by simp
    then have "bio_get_uint32 (reader io' (io_data io)) m' = Some (length cs, reader io' (io_data io + 4))"
      using p d ord bio_get_reader [of "io_data io" 4 io'] by (simp add: bio_get_uint32_def)
    moreover have "u32 (u32 (length cs + 1) * 2) = k" using len by (simp add: u32_def k_def)
    moreover have "name_at m' (io_data io + 4) cs"
      by (rule name_at_same [OF ch keep n]) (use d kb in \<open>auto simp: k_def\<close>)
    ultimately show ?thesis
      using d ord bio_get_reader [of "io_data io + 4" k io'] by (simp add: I_String bio_get_string16_def add.assoc)
  next
    case (I_Ref h)
    have d: "io_data io1 = io_data io + 16" and o: "io_offs io1 = io_offs io + 4"
      and l: "load32 m1 (io_offs io) = Some (io_data io - io_data0 io')" "load32 m1 (io_data io) = Some BINDER_TYPE_HANDLE"
        "load32 m1 (io_data io + 8) = Some h"
      using st ord by (simp_all add: I_Ref)
    define k where "k = (io_offs io - io_offs0 io') div 4"
    have k: "io_offs0 io' + 4 * k = io_offs io" using ord by (simp add: k_def)
    have "{io_offs io ..< io_offs io + 4} \<subseteq> {io_offs0 io ..< io_offs io1}" using ord o by auto
    then have "{io_offs io ..< io_offs io + 4} \<inter> A = {}" using dj by blast
    then have "load32 m' (io_offs io) = Some (io_data io - io_data0 io')"
      using load32_same [OF ch, of "io_offs io"] l by simp
    moreover have "mapped m' (io_offs0 io') (4 * ((io_offs io' - io_offs0 io') div 4))"
      by (rule mapped_in [OF w']) (use w' in \<open>auto simp: writable_def limit_def offs_limit_def\<close>)
    moreover have "k < (io_offs io' - io_offs0 io') div 4"
      using div_le_mono [of "4 * Suc k" "io_offs io' - io_offs0 io'" 4] ord o k by simp
    ultimately have "offs_has m' (io_offs0 io') ((io_offs io' - io_offs0 io') div 4) (io_data io - io_data0 io') = Some True"
      using offs_has_true [of m' "io_offs0 io'" "(io_offs io' - io_offs0 io') div 4" k] k by simp
    moreover have "bytes_to (io_data0 io') (io_data io) = io_data io - io_data0 io'"
      by (rule bytes_to_le) (use ord in linarith)+
    moreover have "load32 m' (io_data io) = Some BINDER_TYPE_HANDLE" "load32 m' (io_data io + 8) = Some h"
      using load32_same [OF ch keep, of "io_data io"] load32_same [OF ch keep, of "io_data io + 8"] l d by simp_all
    moreover have "bio_get (reader io' (io_data io)) 16 = (io_data io, reader io' (io_data io1))"
      using bio_get_reader [of "io_data io" 16 io'] p d ord by simp
    ultimately show ?thesis using p by (simp add: I_Ref bio_get_ref_def bio_get_obj_def) (simp add: reader_def)
  qed
qed

lemma item_read:
  assumes st: "stored it io io1 m1" and ok: "item_ok it" and w: "writable m1 io1" and w0: "writable m1 io"
    and f0: "follows io io1" and s: "step_ok io1 m1 io' m'"
  shows "item_in m' (reader io' (io_data io)) it (reader io' (io_data io1))"
proof (rule item_read_in [OF st ok step_writable [OF s w] f0 _ w0])
  show "follows io1 io'" and "changed m1 m' (span io1 io')" using s by (simp_all add: step_ok_def)
  have "io_offs io1 \<le> io_offs io'" "io_offs io' \<le> io_data io" "io_offs0 io \<le> io_offs io1" "io_data io \<le> io_data io1"
    using step_writable [OF s w] w w0 f0 s by (auto simp: writable_def follows_def step_ok_def offs_limit_def)
  then show "span io1 io' \<inter> ({io_offs0 io ..< io_offs io1} \<union> {io_data io ..< io_data io1}) = {}"
    by (auto simp: span_def)
qed

section \<open>Lists of items\<close>

lemma put_items_ok:
  assumes "writable m io" and "\<forall>it \<in> set its. item_ok it"
  shows "\<exists>io' m'. put_items io its m = Some (io', m') \<and> step_ok io m io' m' \<and>
    (\<not> overflowed io' \<longrightarrow> items_in m' (reader io' (io_data io)) its (reader io' (io_data io')))"
  using assms
proof (induction its arbitrary: io m)
  case (Cons it its)
  have w: "writable m io" and it: "item_ok it" using Cons.prems by simp_all
  obtain io1 m1 where p: "put_item io it m = Some (io1, m1)" and s1: "step_ok io m io1 m1"
    and st: "\<not> overflowed io1 \<Longrightarrow> stored it io io1 m1" by (rule put_item_ok [OF w it]) blast
  have w1: "writable m1 io1" by (rule step_writable [OF s1 w])
  obtain io' m' where r: "put_items io1 its m1 = Some (io', m')" and s2: "step_ok io1 m1 io' m'"
    and i: "\<not> overflowed io' \<longrightarrow> items_in m' (reader io' (io_data io1)) its (reader io' (io_data io'))"
    using Cons.IH [OF w1] Cons.prems by auto
  have "items_in m' (reader io' (io_data io)) (it # its) (reader io' (io_data io'))" if no: "\<not> overflowed io'"
  proof -
    have o: "\<not> overflowed io1" using no s2 by (auto simp: step_ok_def follows_def)
    have "writable m1 io" using w s1 by (auto simp: step_ok_def writable_def changed_mapped)
    then have "item_in m' (reader io' (io_data io)) it (reader io' (io_data io1))"
      using item_read [OF st [OF o] it w1 _ _ s2] s1 by (simp add: step_ok_def)
    then show ?thesis using i no by auto
  qed
  then show ?case using p r step_trans [OF s1 s2] by simp
qed simp

text \<open>The message a finished cursor stands for, as \<open>binder_send_reply\<close> and \<open>binder_call\<close> send it.\<close>

definition message_of :: "binder_io \<Rightarrow> binder_txn \<Rightarrow> binder_txn" where
  "message_of io txn = txn\<lparr>bt_data_size := bytes_to (io_data0 io) (io_data io),
     bt_offs_size := bytes_to (io_offs0 io) (io_offs io), bt_data := io_data0 io, bt_offs := io_offs0 io\<rparr>"

lemma message_reader: "writable m io \<Longrightarrow> bio_init_from_txn (message_of io txn) = reader io (io_data0 io)"
  using bytes_to_le [of "io_data0 io" "io_data io"] bytes_to_le [of "io_offs0 io" "io_offs io"]
  by (auto simp: bio_init_from_txn_def message_of_def reader_def writable_def limit_def offs_limit_def)

lemma bio_init_writable:
  "0 < data \<Longrightarrow> data + maxdata < 2 ^ 32 \<Longrightarrow> maxoffs * 4 \<le> maxdata \<Longrightarrow> mapped m data maxdata \<Longrightarrow>
   writable m (bio_init io data maxdata maxoffs) \<and> \<not> overflowed (bio_init io data maxdata maxoffs)"
  by (simp add: bio_init_def u32_def Let_def writable_def limit_def offs_limit_def overflowed_def)

end
