(* ===== verification/Svc_Handler.thy ===== *)
theory Svc_Handler
  imports Svc_Register Bio_Items
begin

text \<open>
  Requests to the service manager: what \<open>do_add_service\<close> and \<open>do_find_service\<close> do to the registry
  and answer, what it means that a message holds a request, and the handler as a whole.
\<close>

section \<open>Adding and finding\<close>

text \<open>A refusal changes nothing; an entry that is there keeps its flag and gets the new handle.\<close>

definition add_spec ::
  "nat list \<Rightarrow> nat \<Rightarrow> nat \<Rightarrow> nat \<Rightarrow> (nat list \<Rightarrow> (nat \<times> nat) option) \<Rightarrow> int \<Rightarrow> (nat list \<Rightarrow> (nat \<times> nat) option) \<Rightarrow> bool" where
  "add_spec cs p uid al R ret R' \<longleftrightarrow>
     (if p = 0 \<or> cs = [] \<or> 127 < length cs \<or> \<not> permitted uid cs then ret = - 1 \<and> R' = R
      else case R cs of
        Some (q, al0) \<Rightarrow> ret = 0 \<and> R' = R(cs \<mapsto> (p, al0))
      | None \<Rightarrow> ret = 0 \<and> R' = R(cs \<mapsto> (p, al)) \<or> ret = - 1 \<and> R' = R)"

lemma add_present:
  assumes inv: "svc_inv E s" and n: "name_at (sv_mem s) a ts" and e: "entry_of cs s = Some (x, si)" and p: "p \<noteq> 0" "p < 2 ^ 32"
  obtains s1 si1 s' where "(if si_ptr si \<noteq> 0 then do { _ \<leftarrow> str8 (sv_mem s) a; svcinfo_death E x s } else Some s) = Some s1"
    and "map_of (svclist s1) x = Some si1" and "s' = announce E p x (set_svc x (si1\<lparr>si_ptr := p\<rparr>) s1)"
    and "svc_inv E s'" and "sv_mem s' = sv_mem s" and "registry s' = (registry s)(cs \<mapsto> (p, si_allow_isolated si))"
proof -
  note el = entry_of_Some [OF e]
  obtain bs where bs: "str8 (sv_mem s) a = Some bs" using str8_at [OF n] by blast
  obtain s1 where s1: "svcinfo_death E x s = Some s1" and i1: "svc_inv E s1" and m1: "sv_mem s1 = sv_mem s"
    and r1: "registry s1 = (registry s)(svc_key si \<mapsto> (0, si_allow_isolated si))"
    and l1: "(x, si\<lparr>si_ptr := 0\<rparr>) \<in> set (svclist s1)"
    by (rule svcinfo_death_ok [OF inv el(1)])
  have same: "si\<lparr>si_ptr := 0\<rparr> = si" "s1 = s" if "si_ptr si = 0"
    using that s1 map_of_entry [OF inv el(1)] by (simp_all add: svcinfo_death_def)
  define s' where "s' = announce E p x (set_svc x (si\<lparr>si_ptr := p\<rparr>) s1)"
  have l: "svclist s' = map (with_ptr x p) (svclist s1)"
    using set_svc_list [OF i1 l1, of p] by (simp add: s'_def)
  have "svc_inv E s'"
    by (rule with_ptr_inv [OF i1 l1 l p(2)]) (auto simp: s'_def)
  moreover have "registry s' = (registry s1)(svc_key si \<mapsto> (p, si_allow_isolated si))"
    using registry_with_ptr [OF i1 l1 l] by (simp add: svc_key_def)
  moreover have "map_of (svclist s1) x = Some (si\<lparr>si_ptr := 0\<rparr>)" by (rule map_of_entry [OF i1 l1])
  ultimately show thesis
    using that [of s1 "si\<lparr>si_ptr := 0\<rparr>" s'] s1 bs same el(2) m1 r1 by (auto simp: s'_def)
qed

text \<open>
  The name registered is as long as the message says; permission is asked for the text up to
  its terminating 0, which may lie behind it.
\<close>

lemma add_service_text:
  assumes E: "env_ok E" and inv: "svc_inv E s" and n: "name_at (sv_mem s) a ts" and k: "k \<le> length ts" and p: "p < 2 ^ 32"
  obtains ret s' where "do_add_service E a k p uid al s = Some (ret, s')" and "svc_inv E s'" and "sv_mem s' = sv_mem s"
    and "if p = 0 \<or> k = 0 \<or> 127 < k \<or> \<not> permitted uid ts then ret = - 1 \<and> s' = s
      else case registry s (take k ts) of
        Some (q, al0) \<Rightarrow> ret = 0 \<and> registry s' = (registry s)(take k ts \<mapsto> (p, al0))
      | None \<Rightarrow> ret = 0 \<and> registry s' = (registry s)(take k ts \<mapsto> (p, al)) \<or> ret = - 1 \<and> registry s' = registry s"
proof (cases "p = 0 \<or> k = 0 \<or> 127 < k")
  case True
  then have "do_add_service E a k p uid al s = Some (- 1, s)" by (auto simp: do_add_service_def)
  then show thesis using that inv True by auto
next
  case False
  define cs where "cs = take k ts"
  have len: "length cs = k" using k by (simp add: cs_def)
  note c = can_register_at [OF n, of uid]
  show thesis
  proof (cases "permitted uid ts")
    case no: False
    obtain bs where "str8 (sv_mem s) a = Some bs" using str8_at [OF n] by blast
    then have "do_add_service E a k p uid al s = Some (- 1, s)"
      using False c no by (simp add: do_add_service_def)
    then show thesis using that inv no by auto
  next
    case may: True
    have f: "find_svc a k s = Some (entry_of cs s)"
      using find_svc_exact [OF inv, of a cs] name_at_take(2) [OF n k] len by (simp add: cs_def)
    show thesis
    proof (cases "entry_of cs s")
      case (Some e)
      obtain x si where e: "entry_of cs s = Some (x, si)" using Some by (cases e) auto
      obtain s1 si1 s' where "(if si_ptr si \<noteq> 0 then do { _ \<leftarrow> str8 (sv_mem s) a; svcinfo_death E x s } else Some s) = Some s1"
        "map_of (svclist s1) x = Some si1" "s' = announce E p x (set_svc x (si1\<lparr>si_ptr := p\<rparr>) s1)"
        and r: "svc_inv E s'" "sv_mem s' = sv_mem s" "registry s' = (registry s)(cs \<mapsto> (p, si_allow_isolated si))"
        by (rule add_present [OF inv n e _ p]) (use False in simp)
      then have "do_add_service E a k p uid al s = Some (0, s')"
        using False c may f e by (simp add: do_add_service_def)
      then show thesis using that r False may e by (auto simp: registry_def cs_def [symmetric])
    next
      case None
      have R: "registry s cs = None" by (simp add: registry_def None)
      have cl: "cs \<noteq> []" "length cs \<le> 127" using False len by auto
      obtain c0 where ld: "load_u16s (sv_mem s) a (Suc (length cs)) = Some (cs @ [c0])"
        using name_at_take(1) [OF n k] len cs_def by auto
      show thesis
      proof (rule add_entry [OF E inv n ld cl None p, of al])
        assume "new_svc E a (length cs) p al s = Some (0, svc_tick s)"
        then have "do_add_service E a k p uid al s = Some (- 1, svc_tick s)"
          using False c may f None len by (simp add: do_add_service_def)
        then show thesis using that tick_inv [OF inv] False may R by (auto simp: cs_def [symmetric])
      next
        fix x si
        assume ns: "new_svc E a (length cs) p al s = Some (x, (svc_tick s)\<lparr>svclist := (x, si) # svclist s\<rparr>)" and x: "x \<noteq> 0"
          and si: "svc_key si = cs" "si_ptr si = p" "si_allow_isolated si = al"
          and ok: "entry_ok E (Suc (sv_calls s)) (x, si)" and fresh: "x \<notin> fst ` set (svclist s)"
        define s' where "s' = announce E p x ((svc_tick s)\<lparr>svclist := (x, si) # svclist s\<rparr>)"
        have l: "svclist s' = (x, si) # svclist s" by (simp add: s'_def)
        have h: "held h s' = held h s + (if si_ptr si = h then 1 else 0)" for h
          by (simp add: s'_def si)
        have "svc_inv E s'"
          by (rule cons_inv [OF inv l]) (use ok fresh None si h in \<open>auto simp: s'_def intro: entry_ok_later\<close>)
        moreover have "do_add_service E a k p uid al s = Some (0, s')"
          using False c may f None ns x len by (simp add: do_add_service_def s'_def)
        moreover have "registry s' = (registry s)(cs \<mapsto> (p, al))" using registry_cons [OF l] si by simp
        ultimately show thesis using that False may R by (auto simp: cs_def [symmetric] s'_def)
      qed
    qed
  qed
qed

lemma add_service_ok:
  assumes E: "env_ok E" and inv: "svc_inv E s" and n: "name_at (sv_mem s) a cs" and p: "p < 2 ^ 32"
  obtains ret s' where "do_add_service E a (length cs) p uid al s = Some (ret, s')" and "svc_inv E s'"
    and "sv_mem s' = sv_mem s" and "add_spec cs p uid al (registry s) ret (registry s')"
    and "p = 0 \<or> cs = [] \<or> 127 < length cs \<or> \<not> permitted uid cs \<Longrightarrow> s' = s"
proof (rule add_service_text [OF E inv n order_refl p, of uid al])
  fix ret s'
  assume "do_add_service E a (length cs) p uid al s = Some (ret, s')" "svc_inv E s'" "sv_mem s' = sv_mem s"
    "if p = 0 \<or> length cs = 0 \<or> 127 < length cs \<or> \<not> permitted uid cs then ret = - 1 \<and> s' = s
      else case registry s (take (length cs) cs) of
        Some (q, al0) \<Rightarrow> ret = 0 \<and> registry s' = (registry s)(take (length cs) cs \<mapsto> (p, al0))
      | None \<Rightarrow> ret = 0 \<and> registry s' = (registry s)(take (length cs) cs \<mapsto> (p, al)) \<or> ret = - 1 \<and> registry s' = registry s"
  then show thesis
    by (intro that [of ret s']) (auto simp: add_spec_def split: if_splits option.splits)
qed

definition isolated :: "nat \<Rightarrow> bool" where
  "isolated uid \<longleftrightarrow> AID_ISOLATED_START \<le> uid mod AID_USER \<and> uid mod AID_USER \<le> AID_ISOLATED_END"

definition answer_of :: "(nat list \<Rightarrow> (nat \<times> nat) option) \<Rightarrow> nat list \<Rightarrow> nat \<Rightarrow> nat" where
  "answer_of R cs uid = (case R cs of None \<Rightarrow> 0 | Some (p, al) \<Rightarrow> if al = 0 \<and> isolated uid then 0 else p)"

lemma find_service_ok:
  assumes "svc_inv E s" and "name_at (sv_mem s) a cs"
  shows "do_find_service a (length cs) uid s = Some (answer_of (registry s) cs uid)"
  using find_svc_exact [OF assms(1) name_at_prefix [OF assms(2)]]
  by (auto simp: do_find_service_def answer_of_def registry_def isolated_def split: option.splits)

text \<open>
  The handler on messages that hold a request: it does not fault, it writes only into the
  reply, it answers with the item the request asks for, and the registry changes as
  \<open>add_spec\<close> says and in no other way.
\<close>

datatype request = Get "nat list" | Add "nat list" nat nat | List_Nth nat | Unknown

definition request_in :: "umem \<Rightarrow> binder_io \<Rightarrow> nat \<Rightarrow> request \<Rightarrow> bool" where
  "request_in m msg code req \<longleftrightarrow>
     (\<exists>policy io1 io2. bio_get_uint32 msg m = Some (policy, io1) \<and> item_in m io1 (I_String svcmgr_id) io2 \<and>
       (case req of
          Get cs \<Rightarrow> (code = SVC_MGR_GET_SERVICE \<or> code = SVC_MGR_CHECK_SERVICE) \<and> (\<exists>io3. item_in m io2 (I_String cs) io3)
        | Add cs h flag \<Rightarrow> code = SVC_MGR_ADD_SERVICE \<and>
            (\<exists>io3 io4 io5. item_in m io2 (I_String cs) io3 \<and> item_in m io3 (I_Ref h) io4 \<and> item_in m io4 (I_Word flag) io5)
        | List_Nth n \<Rightarrow> code = SVC_MGR_LIST_SERVICES \<and> (\<exists>io3. item_in m io2 (I_Word n) io3)
        | Unknown \<Rightarrow> code \<notin> {SVC_MGR_GET_SERVICE, SVC_MGR_CHECK_SERVICE, SVC_MGR_ADD_SERVICE, SVC_MGR_LIST_SERVICES}))"

lemma get_ref_less: "bio_get_ref io m = Some (h, io') \<Longrightarrow> h < 2 ^ 32"
  by (auto simp: bio_get_ref_def bind_eq_Some_conv dest: load32_less split: if_splits prod.splits)

lemma service_manager_id: "length svcmgr_id = 26"
  by (simp add: svcmgr_id_def codes_def)

lemma header_ok:
  assumes "bio_get_uint32 msg m = Some (policy, io1)" and "item_in m io1 (I_String svcmgr_id) io2"
  obtains a where "bio_get_string16 io1 m = Some (a, 26, io2)" and "load_u16s m a 26 = Some svcmgr_id"
  using assms name_at_prefix by (force simp: service_manager_id)

text \<open>What was put into the reply: \<open>None\<close> stands for a reply that stays empty.\<close>

definition replied :: "binder_io \<Rightarrow> umem \<Rightarrow> binder_io \<Rightarrow> umem \<Rightarrow> item option \<Rightarrow> bool" where
  "replied reply m reply' m' it \<longleftrightarrow>
     (case it of None \<Rightarrow> reply' = reply | Some i \<Rightarrow> item_ok i \<and> put_item reply i m = Some (reply', m'))"

definition find_item :: "(nat list \<Rightarrow> (nat \<times> nat) option) \<Rightarrow> nat list \<Rightarrow> nat \<Rightarrow> item" where
  "find_item R cs uid = (if answer_of R cs uid = 0 then I_Word 0 else I_Ref (answer_of R cs uid))"

definition handled :: "request \<Rightarrow> nat \<Rightarrow> svcmgr \<Rightarrow> int \<Rightarrow> svcmgr \<Rightarrow> item option \<Rightarrow> bool" where
  "handled req uid s ret s' it \<longleftrightarrow>
     (case req of
        Get cs \<Rightarrow> ret = 0 \<and> svclist s' = svclist s \<and> it = Some (find_item (registry s) cs uid)
      | Add cs h flag \<Rightarrow> add_spec cs h uid (if flag = 0 then 0 else 1) (registry s) ret (registry s') \<and>
          it = (if ret = 0 then Some (I_Word 0) else None)
      | List_Nth n \<Rightarrow> svclist s' = svclist s \<and>
          (if n < length (svclist s)
           then ret = 0 \<and> it = Some (I_String (c_string (svc_key (snd (svclist s ! n)))))
           else ret = - 1 \<and> it = None)
      | Unknown \<Rightarrow> ret = - 1 \<and> s' = s \<and> it = None)"

definition good_reply :: "svc_env \<Rightarrow> request \<Rightarrow> nat \<Rightarrow> binder_io \<Rightarrow> svcmgr \<Rightarrow> int \<Rightarrow> binder_io \<Rightarrow> svcmgr \<Rightarrow> bool" where
  "good_reply E req uid reply s ret reply' s' \<longleftrightarrow> svc_inv E s' \<and> step_ok reply (sv_mem s) reply' (sv_mem s') \<and>
     (\<exists>it. handled req uid s ret s' it \<and> replied reply (sv_mem s) reply' (sv_mem s') it)"

lemma mem_inv [simp]: "svc_inv E (s\<lparr>sv_mem := m\<rparr>) = svc_inv E s" "registry (s\<lparr>sv_mem := m\<rparr>) = registry s"
  by (simp_all add: svc_inv_def registered_def fun_eq_iff registry_def entry_of_def)

lemma put_zero_ok:
  assumes "writable (sv_mem s) reply"
  obtains reply' m where "put_zero reply s = Some (0, reply', s\<lparr>sv_mem := m\<rparr>)"
    and "step_ok reply (sv_mem s) reply' m" and "replied reply (sv_mem s) reply' m (Some (I_Word 0))"
  by (rule put_item_ok [OF assms, of "I_Word 0"]) (auto simp: put_zero_def replied_def)

section \<open>The four requests\<close>

lemma answer_less:
  assumes inv: "svc_inv E s"
  shows "answer_of (registry s) cs uid < 2 ^ 32"
proof (cases "entry_of cs s")
  case (Some e)
  then obtain a si where e: "entry_of cs s = Some (a, si)" by (cases e) auto
  then have "entry_ok E (sv_calls s) (a, si)" using inv entry_of_Some(1) [OF e] by (simp add: svc_inv_def)
  then show ?thesis using e by (simp add: answer_of_def registry_def entry_ok_def)
qed (simp add: answer_of_def registry_def)

lemma handle_find_ok:
  assumes inv: "svc_inv E s" and w: "writable (sv_mem s) reply" and i: "item_in (sv_mem s) msg (I_String cs) io"
  shows "\<exists>reply' s'. handle_find txn msg reply s = Some (0, reply', s') \<and>
    good_reply E (Get cs) (bt_sender_euid txn) reply s 0 reply' s'"
proof -
  obtain a where a: "bio_get_string16 msg (sv_mem s) = Some (a, length cs, io)" "name_at (sv_mem s) a cs"
    using i by auto
  define h where "h = answer_of (registry s) cs (bt_sender_euid txn)"
  have f: "do_find_service a (length cs) (bt_sender_euid txn) s = Some h"
    using find_service_ok [OF inv a(2)] by (simp add: h_def)
  show ?thesis
  proof (cases "h = 0")
    case True
    obtain reply' m where "put_zero reply s = Some (0, reply', s\<lparr>sv_mem := m\<rparr>)"
      "step_ok reply (sv_mem s) reply' m" "replied reply (sv_mem s) reply' m (Some (I_Word 0))" by (rule put_zero_ok [OF w])
    then show ?thesis using a f True inv
      by (auto simp: handle_find_def good_reply_def handled_def find_item_def h_def)
  next
    case False
    have hi: "item_ok (I_Ref h)" using False answer_less [OF inv] by (simp add: h_def)
    obtain reply' m where "bio_put_ref reply h (sv_mem s) = Some (reply', m)"
      "step_ok reply (sv_mem s) reply' m" "replied reply (sv_mem s) reply' m (Some (I_Ref h))"
      by (rule put_item_ok [OF w hi]) (use hi in \<open>auto simp: replied_def\<close>)
    then show ?thesis using a f False inv
      by (auto simp: handle_find_def good_reply_def handled_def find_item_def h_def)
  qed
qed

lemma handle_add_ok:
  assumes E: "env_ok E" and inv: "svc_inv E s" and w: "writable (sv_mem s) reply"
    and i: "item_in (sv_mem s) msg (I_String cs) io1" "item_in (sv_mem s) io1 (I_Ref h) io2"
      "item_in (sv_mem s) io2 (I_Word flag) io3"
  shows "\<exists>ret reply' s'. handle_add E txn msg reply s = Some (ret, reply', s') \<and>
    good_reply E (Add cs h flag) (bt_sender_euid txn) reply s ret reply' s'"
proof -
  obtain a where a: "bio_get_string16 msg (sv_mem s) = Some (a, length cs, io1)" and n: "name_at (sv_mem s) a cs"
    using i by auto
  have h: "h < 2 ^ 32" using i get_ref_less by auto
  obtain ret s1 where d: "do_add_service E a (length cs) h (bt_sender_euid txn) (if flag = 0 then 0 else 1) s = Some (ret, s1)"
    and i1: "svc_inv E s1" and m1: "sv_mem s1 = sv_mem s"
    and sp: "add_spec cs h (bt_sender_euid txn) (if flag = 0 then 0 else 1) (registry s) ret (registry s1)"
    by (rule add_service_ok [OF E inv n h])
  show ?thesis
  proof (cases "ret = 0")
    case False
    then have "ret = - 1" using sp by (auto simp: add_spec_def split: if_splits option.splits)
    then show ?thesis using a i d i1 m1 sp
      by (auto simp: handle_add_def good_reply_def handled_def replied_def)
  next
    case True
    obtain reply' m where "put_zero reply s1 = Some (0, reply', s1\<lparr>sv_mem := m\<rparr>)"
      "step_ok reply (sv_mem s1) reply' m" "replied reply (sv_mem s1) reply' m (Some (I_Word 0))"
      by (rule put_zero_ok [of s1 reply]) (use w m1 in simp)
    then show ?thesis using a i d i1 m1 sp True
      by (auto simp: handle_add_def good_reply_def handled_def)
  qed
qed

lemma takeWhile_end: "0 \<in> set cs \<Longrightarrow> take (Suc (length (c_string cs))) cs = c_string cs @ [0]" for cs :: "nat list"
proof (induction cs)
  case (Cons c cs)
  then show ?case by (cases "c = 0") (auto simp: c_string_def)
qed simp

lemma c_string_facts: "0 \<notin> set (c_string cs)" "set (c_string cs) \<subseteq> set cs" "length (c_string cs) \<le> length cs"
  "0 \<in> set cs \<Longrightarrow> length (c_string cs) < length cs"
proof -
  show "0 \<in> set cs \<Longrightarrow> length (c_string cs) < length cs"
    using takeWhile_end [of cs] by (metis c_string_def length_append_singleton length_take lessI less_le_trans min.cobounded1)
qed (auto simp: c_string_def length_takeWhile_le dest: set_takeWhileD)

lemma put_string_prefix:
  assumes "0 \<in> set cs"
  shows "bio_put_string16 io (Some cs) m = bio_put_string16 io (Some (c_string cs @ [0])) m"
proof -
  have "c_length cs = Some (length (c_string cs))"
    using c_string_facts(4) [OF assms] by (simp add: c_length_def c_string_def)
  moreover have "c_length (c_string cs @ [0]) = Some (length (c_string cs))" by (rule c_length_end) (rule c_string_facts)
  ultimately show ?thesis using takeWhile_end [OF assms] by (simp add: bio_put_string16_def cong: if_cong)
qed

lemma entry_name:
  assumes "entry_ok E n (a, si)"
  shows "c_string (si_name si) = c_string (svc_key si)" and "0 \<in> set (si_name si)"
    and "item_ok (I_String (c_string (si_name si)))"
proof -
  have e: "length (si_name si) = Suc (si_len si)" "si_name si ! si_len si = 0" using assms by (simp_all add: entry_ok_def)
  then have sp: "si_name si = svc_key si @ [0]"
    using take_Suc_conv_app_nth [of "si_len si" "si_name si"] by (simp add: svc_key_def)
  then show "c_string (si_name si) = c_string (svc_key si)"
    by (simp add: c_string_def takeWhile_append) (metis takeWhile_eq_all_conv)
  show z: "0 \<in> set (si_name si)" by (simp add: sp)
  have "length (si_name si) \<le> 128" "\<forall>c \<in> set (si_name si). c < 2 ^ 16" using assms by (simp_all add: entry_ok_def)
  then show "item_ok (I_String (c_string (si_name si)))"
    using c_string_facts [of "si_name si"] by (simp add: subset_iff)
qed

lemma handle_list_ok:
  assumes inv: "svc_inv E s" and w: "writable (sv_mem s) reply" and i: "item_in (sv_mem s) msg (I_Word n) io"
  shows "\<exists>ret reply' s'. handle_list msg reply s = Some (ret, reply', s') \<and>
    good_reply E (List_Nth n) uid reply s ret reply' s'"
proof (cases "n < length (svclist s)")
  case False
  then show ?thesis using i inv by (simp add: handle_list_def good_reply_def handled_def replied_def)
next
  case True
  obtain a si where e: "svclist s ! n = (a, si)" by (cases "svclist s ! n")
  then have "(a, si) \<in> set (svclist s)" using True by (metis nth_mem)
  then have ok: "entry_ok E (sv_calls s) (a, si)" using inv by (simp add: svc_inv_def)
  note en = entry_name [OF ok]
  obtain reply' m where "bio_put_string16 reply (Some (c_string (si_name si) @ [0])) (sv_mem s) = Some (reply', m)"
    "step_ok reply (sv_mem s) reply' m" "replied reply (sv_mem s) reply' m (Some (I_String (c_string (svc_key si))))"
    by (rule put_item_ok [OF w en(3)]) (use en(1,3) in \<open>auto simp: replied_def\<close>)
  then show ?thesis using i e True inv put_string_prefix [OF en(2), of reply "sv_mem s"]
    by (simp add: handle_list_def good_reply_def handled_def)
qed

section \<open>The handler\<close>

lemma handler_ok:
  assumes E: "env_ok E" and inv: "svc_inv E s" and w: "writable (sv_mem s) reply" and t: "bt_target txn = svcmgr_handle"
    and req: "request_in (sv_mem s) msg (bt_code txn) req"
  shows "\<exists>ret reply' s'. svcmgr_handler E s txn msg reply = Some (ret, reply', s') \<and>
    good_reply E req (bt_sender_euid txn) reply s ret reply' s'"
proof -
  obtain policy io1 io2 where p: "bio_get_uint32 msg (sv_mem s) = Some (policy, io1)"
    and h: "item_in (sv_mem s) io1 (I_String svcmgr_id) io2"
    and r: "case req of
          Get cs \<Rightarrow> (bt_code txn = SVC_MGR_GET_SERVICE \<or> bt_code txn = SVC_MGR_CHECK_SERVICE) \<and>
            (\<exists>io3. item_in (sv_mem s) io2 (I_String cs) io3)
        | Add cs h flag \<Rightarrow> bt_code txn = SVC_MGR_ADD_SERVICE \<and>
            (\<exists>io3 io4 io5. item_in (sv_mem s) io2 (I_String cs) io3 \<and> item_in (sv_mem s) io3 (I_Ref h) io4 \<and>
               item_in (sv_mem s) io4 (I_Word flag) io5)
        | List_Nth n \<Rightarrow> bt_code txn = SVC_MGR_LIST_SERVICES \<and> (\<exists>io3. item_in (sv_mem s) io2 (I_Word n) io3)
        | Unknown \<Rightarrow> bt_code txn \<notin> {SVC_MGR_GET_SERVICE, SVC_MGR_CHECK_SERVICE, SVC_MGR_ADD_SERVICE, SVC_MGR_LIST_SERVICES}"
    using req unfolding request_in_def by blast
  obtain a where a: "bio_get_string16 io1 (sv_mem s) = Some (a, 26, io2)" "load_u16s (sv_mem s) a 26 = Some svcmgr_id"
    by (rule header_ok [OF p h])
  note c = svcmgr_handler_def SVC_MGR_GET_SERVICE_def SVC_MGR_CHECK_SERVICE_def SVC_MGR_ADD_SERVICE_def SVC_MGR_LIST_SERVICES_def
  show ?thesis
  proof (cases req)
    case (Get cs)
    with r obtain io3 where "item_in (sv_mem s) io2 (I_String cs) io3" by auto
    from handle_find_ok [OF inv w this, of txn] show ?thesis using p a t r Get
      by (auto simp: c simp del: load_u16s.simps item_in.simps)
  next
    case (Add cs h flag)
    with r obtain io3 io4 io5 where "item_in (sv_mem s) io2 (I_String cs) io3" "item_in (sv_mem s) io3 (I_Ref h) io4"
      "item_in (sv_mem s) io4 (I_Word flag) io5" by (auto simp del: item_in.simps)
    from handle_add_ok [OF E inv w this, of txn] show ?thesis using p a t r Add
      by (auto simp: c simp del: load_u16s.simps item_in.simps)
  next
    case (List_Nth n)
    with r obtain io3 where "item_in (sv_mem s) io2 (I_Word n) io3" by auto
    from handle_list_ok [OF inv w this, of "bt_sender_euid txn"] show ?thesis using p a t r List_Nth
      by (auto simp: c simp del: load_u16s.simps item_in.simps)
  next
    case Unknown
    then show ?thesis using p a t r inv
      by (auto simp: c good_reply_def handled_def replied_def simp del: load_u16s.simps)
  qed
qed

end
