(* ===== verification/Svc_Loop.thy ===== *)
theory Svc_Loop
  imports Svc_Handler
begin

text \<open>
  The loop of the service manager on what the driver delivers: one request or one death
  notification at a time. Its runs are runs of the abstract registry, by the interpretation
  of \<open>refined\<close>.
\<close>

section \<open>What the driver delivers\<close>

definition request_words :: "binder_txn \<Rightarrow> nat list" where
  "request_words txn = [br_number BR_NOOP, br_number BR_TRANSACTION] @ txn_words txn"

definition death_words :: "addr \<Rightarrow> nat list" where
  "death_words cookie = [br_number BR_NOOP, br_number BR_DEAD_BINDER, cookie]"

lemma txn_at_words: "txn_at (xs @ txn_words t @ ys) (length xs) = Some t"
  by (simp add: txn_at_def txn_words_def nth_append)

lemma br_codes:
  "br_number BR_NOOP = 0x720c" "br_number BR_TRANSACTION_COMPLETE = 0x7206" "br_number BR_INCREFS = 0x80087207"
  "br_number BR_ACQUIRE = 0x80087208" "br_number BR_RELEASE = 0x80087209" "br_number BR_DECREFS = 0x8008720a"
  "br_number BR_TRANSACTION = 0x80287202" "br_number BR_REPLY = 0x80287203" "br_number BR_DEAD_BINDER = 0x8004720f"
  by (simp_all add: BR_number_def IOC_def IOC_READ_def)

declare br_number.simps [simp del]

lemma parse_noop:
  "word_at ws (ps_at p) = Some (br_number BR_NOOP) \<Longrightarrow>
   parse_command E f d ws e p s = Some (True, p\<lparr>ps_at := Suc (ps_at p)\<rparr>, s)"
  by (simp add: parse_command_def Let_def)

lemma parse_tx:
  assumes "word_at ws (ps_at p) = Some (br_number BR_TRANSACTION)" and "ps_at p + 11 \<le> e"
    and "txn_at ws (Suc (ps_at p)) = Some txn"
  shows "parse_command E f d ws e p s =
    map_option (\<lambda>s'. (True, p\<lparr>ps_at := ps_at p + 11\<rparr>, s')) (parse_transaction E f txn s)"
proof -
  have "\<not> e - Suc (ps_at p) < 10" "10 + Suc (ps_at p) = ps_at p + 11" using assms(2) by linarith+
  then show ?thesis using assms by (simp add: parse_command_def Let_def br_codes map_conv_bind_option comp_def add.commute)
qed

lemma parse_dead:
  assumes "word_at ws (ps_at p) = Some (br_number BR_DEAD_BINDER)" and "word_at ws (Suc (ps_at p)) = Some cookie"
  shows "parse_command E f d ws e p s = map_option (\<lambda>s'. (True, p\<lparr>ps_at := ps_at p + 2\<rparr>, s')) (d cookie s)"
  using assms by (simp add: parse_command_def Let_def br_codes map_conv_bind_option comp_def)

lemma parse_done: "\<not> ps_at p < e \<Longrightarrow> parse_words E f d ws e p s = Some (p, s)"
  by (simp add: parse_words.simps)

lemma parse_on:
  assumes "ps_at p < e" and "parse_command E f d ws e p s = map_option (\<lambda>s'. (True, q, s')) r" and "\<not> ps_at q < e"
  shows "parse_words E f d ws e p s = map_option (Pair q) r"
  using assms by (cases r) (simp_all add: parse_words.simps [of _ _ _ _ _ p] parse_done)

lemma parse_request:
  "binder_parse E False (request_words txn @ tail) 48 (Some f) d s =
     map_option (\<lambda>s'. (1, None, s')) (parse_transaction E (Some f) txn s)"
proof -
  let ?ws = "request_words txn @ tail" and ?p = "\<lparr>ps_at = 0, ps_ret = 1, ps_bio = False, ps_reply = None\<rparr>"
  have t: "txn_at ?ws 2 = Some txn"
    using txn_at_words [of "[br_number BR_NOOP, br_number BR_TRANSACTION]" txn tail]
    by (simp add: request_words_def numeral_2_eq_2)
  have w: "word_at ?ws 0 = Some (br_number BR_NOOP)" "word_at ?ws 1 = Some (br_number BR_TRANSACTION)"
    by (simp_all add: word_at_def request_words_def)
  have "parse_words E (Some f) d ?ws 12 (?p\<lparr>ps_at := 1\<rparr>) s =
      map_option (Pair (?p\<lparr>ps_at := 12\<rparr>)) (parse_transaction E (Some f) txn s)"
    by (rule parse_on) (use parse_tx [of ?ws "?p\<lparr>ps_at := 1\<rparr>" 12 txn] w t in \<open>simp_all add: numeral_2_eq_2\<close>)
  then have "parse_words E (Some f) d ?ws 12 ?p s =
      map_option (Pair (?p\<lparr>ps_at := 12\<rparr>)) (parse_transaction E (Some f) txn s)"
    using parse_noop [of ?ws ?p] w by (simp add: parse_words.simps [of _ _ _ _ _ ?p])
  then show ?thesis by (simp add: binder_parse_def option.map_comp comp_def)
qed

lemma parse_death:
  "binder_parse E False (death_words cookie @ tail) 12 f d s = map_option (\<lambda>s'. (1, None, s')) (d cookie s)"
proof -
  let ?ws = "death_words cookie @ tail" and ?p = "\<lparr>ps_at = 0, ps_ret = 1, ps_bio = False, ps_reply = None\<rparr>"
  have w: "word_at ?ws 0 = Some (br_number BR_NOOP)" "word_at ?ws 1 = Some (br_number BR_DEAD_BINDER)"
    "word_at ?ws 2 = Some cookie"
    by (simp_all add: word_at_def death_words_def numeral_2_eq_2)
  have "parse_words E f d ?ws 3 (?p\<lparr>ps_at := 1\<rparr>) s = map_option (Pair (?p\<lparr>ps_at := 3\<rparr>)) (d cookie s)"
    by (rule parse_on) (use parse_dead [of ?ws "?p\<lparr>ps_at := 1\<rparr>" cookie] w in \<open>simp_all add: numeral_2_eq_2 numeral_3_eq_3\<close>)
  then have "parse_words E f d ?ws 3 ?p s = map_option (Pair (?p\<lparr>ps_at := 3\<rparr>)) (d cookie s)"
    using parse_noop [of ?ws ?p] w by (simp add: parse_words.simps [of _ _ _ _ _ ?p])
  then show ?thesis by (simp add: binder_parse_def option.map_comp comp_def)
qed

section \<open>The answer\<close>

definition stack_ok :: "svc_env \<Rightarrow> umem \<Rightarrow> bool" where
  "stack_ok E m \<longleftrightarrow> 0 < rdata_at E \<and> rdata_at E + 256 < 2 ^ 32 \<and> mapped m (rdata_at E) 256 \<and> mapped m (status_at E) 4 \<and>
     {status_at E ..< status_at E + 4} \<inter> {rdata_at E ..< rdata_at E + 256} = {}"

definition first_reply :: "svc_env \<Rightarrow> binder_io" where
  "first_reply E = bio_init (stale_io E) (rdata_at E) 256 4"

lemma first_reply_ok:
  assumes "stack_ok E m"
  shows "writable m (first_reply E)" and "\<not> overflowed (first_reply E)"
    and "io_offs0 (first_reply E) = rdata_at E" and "limit (first_reply E) = rdata_at E + 256"
    and "io_data (first_reply E) = io_data0 (first_reply E)" and "io_offs (first_reply E) = io_offs0 (first_reply E)"
  using assms bio_init_writable [of "rdata_at E" 256 4 m "stale_io E"]
  by (simp_all add: stack_ok_def first_reply_def) (simp_all add: bio_init_def u32_def limit_def)

text \<open>An item that fits into the data of the reply is written without overflow.\<close>

fun item_size :: "item \<Rightarrow> nat" where
  "item_size (I_Word v) = 4"
| "item_size (I_String cs) = 4 + align4 ((length cs + 1) * 2)"
| "item_size (I_Ref h) = 16"

lemma alloc_fits: "align4 n \<le> io_data_avail io \<Longrightarrow> io_flags (snd (bio_alloc io n)) = io_flags io \<and>
    io_data_avail (snd (bio_alloc io n)) = io_data_avail io - align4 n \<and> io_offs_avail (snd (bio_alloc io n)) = io_offs_avail io"
  by (simp add: bio_alloc_def Let_def)

lemma word_fits:
  assumes "bio_put_uint32 io v m = Some (io1, m1)" and "4 \<le> io_data_avail io"
  shows "io_flags io1 = io_flags io" and "io_data_avail io1 = io_data_avail io - 4"
  using assms alloc_fits [of 4 io]
  by (auto simp: bio_put_uint32_def bind_eq_Some_conv split: prod.splits if_splits)

lemma item_fits:
  assumes "put_item io it m = Some (io1, m1)" and "item_ok it" and "item_size it \<le> io_data_avail io"
    and "0 < io_offs_avail io" and "io_data io \<noteq> 0"
  shows "io_flags io1 = io_flags io"
proof (cases it)
  case (I_Word v)
  then show ?thesis using assms word_fits [of io v m io1 m1] by simp
next
  case (I_String cs)
  have c: "c_length (cs @ [0]) = Some (length cs)" "length cs < 2 ^ 29"
    using c_length_end assms(2) I_String by auto
  obtain io2 m2 where p: "bio_put_uint32 io (length cs) m = Some (io2, m2)"
    and r: "(let (ptr, io3) = bio_alloc io2 ((length cs + 1) * 2) in
       if ptr \<noteq> 0 then do { m3 \<leftarrow> store_u16s m2 ptr (take (length cs + 1) (cs @ [0])); Some (io3, m3) }
       else Some (io3, m2)) = Some (io1, m1)"
    using assms(1) c I_String by (auto simp: bio_put_string16_def MAX_BIO_SIZE_def bind_eq_Some_conv)
  have "io1 = snd (bio_alloc io2 ((length cs + 1) * 2))"
    using r by (auto simp: bind_eq_Some_conv split: prod.splits if_splits)
  then show ?thesis
    using word_fits [OF p] alloc_fits [of "(length cs + 1) * 2" io2] assms(3) I_String by simp
next
  case (I_Ref h)
  have "bio_alloc io 16 = (io_data io, io\<lparr>io_data := io_data io + 16, io_data_avail := io_data_avail io - 16\<rparr>)"
    using assms(3) I_Ref by (simp add: bio_alloc_def)
  then show ?thesis using assms I_Ref
    by (auto simp: bio_put_ref_def bio_alloc_obj_def bind_eq_Some_conv)
qed

text \<open>
  Commands about references and deaths, as the operations on the registry write them: each
  write is one such command, so none of them frees a buffer or replies.
\<close>

definition no_answer :: "wire \<Rightarrow> bool" where
  "no_answer w \<longleftrightarrow> (\<exists>c args. w_words w = c # args \<and>
     (c, length args) \<in> {(BC_ACQUIRE, 1), (BC_RELEASE, 1), (BC_REQUEST_DEATH_NOTIFICATION, 2)})"

definition quiet :: "svcmgr \<Rightarrow> svcmgr \<Rightarrow> bool" where
  "quiet s s' \<longleftrightarrow> (\<exists>ws. sv_sent s' = sv_sent s @ ws \<and> (\<forall>w \<in> set ws. no_answer w))"

text \<open>
  From \<open>s\<close> to \<open>s'\<close> the transaction is answered once: of the writes in between only the last one
  frees a buffer, that of the transaction, and sends a status or a message.
\<close>

definition answered :: "svc_env \<Rightarrow> binder_txn \<Rightarrow> int \<Rightarrow> item option \<Rightarrow> svcmgr \<Rightarrow> svcmgr \<Rightarrow> bool" where
  "answered E txn ret it s s' \<longleftrightarrow>
     (\<exists>ws rest t. sv_sent s' = sv_sent s @ rest @ [ws] \<and> (\<forall>w \<in> set rest. no_answer w) \<and>
        w_words ws = [BC_FREE_BUFFER, bt_data txn, BC_REPLY] @ txn_words t \<and>
        (if ret \<noteq> 0 then bt_flags t = TF_STATUS_CODE \<and> bt_data_size t = 4 \<and> bt_offs_size t = 0 \<and>
            load32 (w_mem ws) (bt_data t) = Some (nat (ret mod 2 ^ 32))
         else bt_flags t = 0 \<and>
            (case it of None \<Rightarrow> bt_data_size t = 0
             | Some i \<Rightarrow> (item_size i \<le> 240 \<longrightarrow> (\<exists>io. item_in (w_mem ws) (bio_init_from_txn t) i io \<and> io_data_avail io = 0)))))"

lemma quiet_refl [simp]: "sv_sent s' = sv_sent s \<Longrightarrow> quiet s s'"
  by (simp add: quiet_def)

lemma quiet_trans: "quiet s t \<Longrightarrow> quiet t u \<Longrightarrow> quiet s u"
  unfolding quiet_def by (metis (no_types, lifting) Un_iff append.assoc set_append)

lemma quiet_commands [simp]:
  "quiet s (binder_acquire E p s)" "quiet s (binder_release E p s)" "quiet s (binder_link_to_death E p a s)"
  by (auto simp: quiet_def no_answer_def binder_acquire_def binder_release_def binder_link_to_death_def binder_write_def svc_tick_def)

lemma quiet_announce [simp]: "quiet s (announce E p a s)"
  unfolding announce_def by (rule quiet_trans [OF quiet_commands(1) quiet_commands(3)])

lemma quiet_death: "svcinfo_death E a s = Some s' \<Longrightarrow> quiet s s'"
  by (auto simp: svcinfo_death_def bind_eq_Some_conv set_svc_def quiet_def no_answer_def binder_release_def binder_write_def svc_tick_def
      split: if_splits)

lemma quiet_new: "new_svc E a k p al s = Some (x, s') \<Longrightarrow> quiet s s'"
  by (auto simp: new_svc_def heap_malloc_def svc_tick_def Let_def bind_eq_Some_conv split: if_splits)

lemma quiet_add:
  assumes code: "do_add_service E a k p uid al s = Some (ret, s')"
  shows "quiet s s'"
proof (cases "p = 0 \<or> k = 0 \<or> 127 < k")
  case True
  then show ?thesis using code by (simp add: do_add_service_def)
next
  case args: False
  have ann: "quiet s (announce E p x t)" if "quiet s t" for x t
    by (rule quiet_trans [OF that quiet_announce])
  obtain may where may: "svc_can_register (sv_mem s) uid a = Some may"
    using code args by (auto simp: do_add_service_def bind_eq_Some_conv)
  show ?thesis
  proof (cases may)
    case False
    then show ?thesis using code args may by (auto simp: do_add_service_def bind_eq_Some_conv)
  next
    case True
    obtain found where f: "find_svc a k s = Some found"
      using code args may True by (auto simp: do_add_service_def bind_eq_Some_conv)
    show ?thesis
    proof (cases found)
      case None
      then obtain x s1 where n: "new_svc E a k p al s = Some (x, s1)"
        "(if x = 0 then Some (- 1, s1) else Some (0, announce E p x s1)) = Some (ret, s')"
        using code args may True f by (auto simp: do_add_service_def bind_eq_Some_conv)
      then show ?thesis using quiet_new [OF n(1)] ann by (auto split: if_splits)
    next
      case (Some e)
      obtain x si where e: "e = (x, si)" by (cases e)
      obtain s1 si1 where 1: "(if si_ptr si \<noteq> 0 then do { _ \<leftarrow> str8 (sv_mem s) a; svcinfo_death E x s } else Some s) = Some s1"
        "s' = announce E p x (set_svc x (si1\<lparr>si_ptr := p\<rparr>) s1)"
        using code args may True f Some e by (auto simp: do_add_service_def bind_eq_Some_conv split: if_splits)
      have "quiet s s1" using 1(1) by (auto simp: bind_eq_Some_conv split: if_splits dest: quiet_death)
      then have "quiet s (set_svc x (si1\<lparr>si_ptr := p\<rparr>) s1)" by (simp add: quiet_def set_svc_def)
      then show ?thesis using 1(2) ann by simp
    qed
  qed
qed

lemma quiet_handlers:
  "put_zero reply s = Some (ret, r, s') \<Longrightarrow> quiet s s'"
  "handle_find txn msg reply s = Some (ret, r, s') \<Longrightarrow> quiet s s'"
  "handle_list msg reply s = Some (ret, r, s') \<Longrightarrow> quiet s s'"
  by (auto simp: put_zero_def handle_find_def handle_list_def bind_eq_Some_conv split: if_splits)

lemma quiet_handle_add:
  assumes "handle_add E txn msg reply s = Some (ret, r, s')"
  shows "quiet s s'"
proof -
  obtain a k p f res s1 where a: "do_add_service E a k p (bt_sender_euid txn) f s = Some (res, s1)"
    and r: "(if res \<noteq> 0 then Some (- 1, reply, s1) else put_zero reply s1) = Some (ret, r, s')"
    using assms by (auto simp: handle_add_def bind_eq_Some_conv simp del: split_paired_Ex)
  have "quiet s1 s'" using r quiet_handlers(1) by (auto split: if_splits)
  with quiet_add [OF a] show ?thesis by (rule quiet_trans)
qed

lemma bind_someE: "m \<bind> f = Some y \<Longrightarrow> (\<And>x. f x = Some y \<Longrightarrow> P) \<Longrightarrow> P"
  by (auto simp: bind_eq_Some_conv)

lemma bind_pairE: "m \<bind> (\<lambda>(a, b). f a b) = Some y \<Longrightarrow> (\<And>a b. f a b = Some y \<Longrightarrow> P) \<Longrightarrow> P"
  by (auto simp: bind_eq_Some_conv)

lemma bind_tripleE: "m \<bind> (\<lambda>(a, b, c). f a b c) = Some y \<Longrightarrow> (\<And>a b c. f a b c = Some y \<Longrightarrow> P) \<Longrightarrow> P"
  by (auto simp: bind_eq_Some_conv)

lemma quiet_handler:
  assumes "svcmgr_handler E s txn msg reply = Some (ret, r, s')"
  shows "quiet s s'"
proof (cases "bt_target txn = svcmgr_handle")
  case False
  then show ?thesis using assms by (simp add: svcmgr_handler_def)
next
  case True
  then have h: "do {
        (strict_policy, msg1) \<leftarrow> bio_get_uint32 msg (sv_mem s);
        (s16, len, msg2) \<leftarrow> bio_get_string16 msg1 (sv_mem s);
        good \<leftarrow> (if len \<noteq> 26 then Some False else do { cs \<leftarrow> load_u16s (sv_mem s) s16 26; Some (cs = svcmgr_id) });
        if \<not> good then do { _ \<leftarrow> str8 (sv_mem s) s16; Some (- 1, reply, s) }
        else if bt_code txn = SVC_MGR_GET_SERVICE \<or> bt_code txn = SVC_MGR_CHECK_SERVICE then
          handle_find txn msg2 reply s
        else if bt_code txn = SVC_MGR_ADD_SERVICE then handle_add E txn msg2 reply s
        else if bt_code txn = SVC_MGR_LIST_SERVICES then handle_list msg2 reply s
        else Some (- 1, reply, s) } = Some (ret, r, s')"
    using assms unfolding svcmgr_handler_def by simp
  show ?thesis
  proof (rule bind_pairE [OF h], erule bind_tripleE, erule bind_someE)
    fix msg2 good s16
    assume "(if \<not> good then do { _ \<leftarrow> str8 (sv_mem s) s16; Some (- 1, reply, s) }
        else if bt_code txn = SVC_MGR_GET_SERVICE \<or> bt_code txn = SVC_MGR_CHECK_SERVICE then
          handle_find txn msg2 reply s
        else if bt_code txn = SVC_MGR_ADD_SERVICE then handle_add E txn msg2 reply s
        else if bt_code txn = SVC_MGR_LIST_SERVICES then handle_list msg2 reply s
        else Some (- 1, reply, s)) = Some (ret, r, s')"
    then show "quiet s s'"
      using quiet_handlers(2,3) quiet_handle_add by (auto simp: bind_eq_Some_conv split: if_splits)
  qed
qed

lemma send_reply_ok:
  assumes st: "stack_ok E m0" and ch: "step_ok (first_reply E) m0 reply (sv_mem s)" and q: "quiet s0 s"
    and it: "replied (first_reply E) m0 reply (sv_mem s) it"
  obtains s' where "binder_send_reply E reply (bt_data txn) ret s = Some s'" and "svclist s' = svclist s"
    and "\<And>h. held h s' = held h s" and "sv_calls s' = Suc (sv_calls s)" and "answered E txn ret it s0 s'"
    and "mapped (sv_mem s') = mapped m0"
proof -
  note fr = first_reply_ok [OF st]
  have cm: "changed m0 (sv_mem s) (span (first_reply E) reply)" and fo: "follows (first_reply E) reply"
    using ch by (simp_all add: step_ok_def)
  note mp = changed_mapped [OF cm]
  define m where "m = patch (sv_mem s) (status_at E) (le_bytes (nat (ret mod 2 ^ 32)))"
  have ms: "mapped (sv_mem s) (status_at E) 4" using st by (simp add: mp stack_ok_def)
  then have store: "store32 (sv_mem s) (status_at E) (nat (ret mod 2 ^ 32)) = Some m"
    by (simp add: store32_iff m_def)
  have c2: "changed (sv_mem s) m {status_at E ..< status_at E + 4}"
    using patch_changed [of "sv_mem s" "status_at E" "le_bytes (nat (ret mod 2 ^ 32))"] ms by (simp add: m_def)
  define t where "t = (if ret \<noteq> 0
     then (stale_txn E)\<lparr>bt_target := 0, bt_cookie := 0, bt_code := 0, bt_flags := TF_STATUS_CODE, bt_data_size := 4,
            bt_offs_size := 0, bt_data := status_at E, bt_offs := 0\<rparr>
     else message_of reply ((stale_txn E)\<lparr>bt_target := 0, bt_cookie := 0, bt_code := 0, bt_flags := 0\<rparr>))"
  define s' where "s' = snd (binder_write E ([BC_FREE_BUFFER, bt_data txn, BC_REPLY] @ txn_words t) (s\<lparr>sv_mem := m\<rparr>))"
  have code: "binder_send_reply E reply (bt_data txn) ret s = Some s'"
    using store by (simp add: binder_send_reply_def s'_def t_def message_of_def Let_def)
  have sent: "sv_sent s' = sv_sent s @ [\<lparr>w_words = [BC_FREE_BUFFER, bt_data txn, BC_REPLY] @ txn_words t, w_mem = m\<rparr>]"
    by (simp add: s'_def binder_write_def svc_tick_def)
  have held: "held h s' = held h s" for h by (simp add: s'_def held_write txn_words_def)
  have status: "load32 m (status_at E) = Some (nat (ret mod 2 ^ 32))"
    using load32_patch_same [of "sv_mem s" "status_at E" "nat (ret mod 2 ^ 32)"] by (simp add: m_def)
  have item: "\<exists>io. item_in m (bio_init_from_txn t) i io \<and> io_data_avail io = 0"
    if "ret = 0" "it = Some i" "item_size i \<le> 240" for i
  proof -
    have ok: "item_ok i" and p: "put_item (first_reply E) i m0 = Some (reply, sv_mem s)"
      using it that(2) by (simp_all add: replied_def)
    have "io_data_avail (first_reply E) = 240" "0 < io_offs_avail (first_reply E)" "io_data (first_reply E) \<noteq> 0"
      "io_flags (first_reply E) = 0"
      using st by (simp_all add: first_reply_def bio_init_def u32_def stack_ok_def)
    then have "io_flags reply = 0" using item_fits [OF p ok] that(3) by simp
    then have no: "\<not> overflowed reply" by (simp add: overflowed_def)
    have sd: "stored i (first_reply E) reply (sv_mem s)"
      by (rule put_item_ok [OF fr(1) ok]) (use p no in auto)
    have w: "writable (sv_mem s) reply" by (rule step_writable [OF ch fr(1)])
    have w2: "writable m reply" by (rule writable_follows [OF w follows_refl c2])
    have w3: "writable (sv_mem s) (first_reply E)" by (rule writable_follows [OF fr(1) follows_refl cm])
    have "{io_offs0 (first_reply E) ..< io_offs reply} \<union> {io_data (first_reply E) ..< io_data reply} \<subseteq>
        {rdata_at E ..< rdata_at E + 256}"
      using w fo fr(1,3,4,5) by (auto simp: writable_def follows_def offs_limit_def limit_def)
    then have "{status_at E ..< status_at E + 4} \<inter> ({io_offs0 (first_reply E) ..< io_offs reply} \<union>
        {io_data (first_reply E) ..< io_data reply}) = {}"
      using st unfolding stack_ok_def by blast
    from item_read_in [OF sd ok w2 fo follows_refl w3 c2 this]
    have "item_in m (reader reply (io_data0 reply)) i (reader reply (io_data reply))"
      using fr(5) fo by (simp add: follows_def)
    then show ?thesis using message_reader [OF w2] that(1) by (auto simp: t_def) (auto simp: reader_def)
  qed
  obtain rest where rest: "sv_sent s = sv_sent s0 @ rest" "\<forall>w \<in> set rest. no_answer w" using q by (auto simp: quiet_def)
  have "answered E txn ret it s0 s'"
    unfolding answered_def
  proof (intro exI conjI)
    show "sv_sent s' = sv_sent s0 @ rest @ [\<lparr>w_words = [BC_FREE_BUFFER, bt_data txn, BC_REPLY] @ txn_words t, w_mem = m\<rparr>]"
      using sent rest(1) by simp
    show "\<forall>w \<in> set rest. no_answer w" by (rule rest(2))
    show "if ret \<noteq> 0 then bt_flags t = TF_STATUS_CODE \<and> bt_data_size t = 4 \<and> bt_offs_size t = 0 \<and>
            load32 (w_mem \<lparr>w_words = [BC_FREE_BUFFER, bt_data txn, BC_REPLY] @ txn_words t, w_mem = m\<rparr>) (bt_data t) =
              Some (nat (ret mod 2 ^ 32))
         else bt_flags t = 0 \<and>
            (case it of None \<Rightarrow> bt_data_size t = 0
             | Some i \<Rightarrow> item_size i \<le> 240 \<longrightarrow>
                (\<exists>io. item_in (w_mem \<lparr>w_words = [BC_FREE_BUFFER, bt_data txn, BC_REPLY] @ txn_words t, w_mem = m\<rparr>)
                   (bio_init_from_txn t) i io \<and> io_data_avail io = 0))"
      using item status it fr(5)
      by (auto simp: t_def message_of_def replied_def bytes_to_def split: option.split)
  qed simp
  then show thesis using that [OF code] held changed_mapped [OF c2] mp by (simp add: s'_def)
qed

end
