(* ===== verification/Svc_Run.thy ===== *)
theory Svc_Run
  imports Svc_Loop
begin

text \<open>
  Runs of the service manager: the events the driver delivers, one step of the loop for each,
  the interpretation of \<open>refined\<close> on them, and the loop itself as a run.
\<close>

datatype svc_event =
  Request binder_txn request "(addr \<times> byte) list"
| Died "nat list" addr "(addr \<times> byte) list"

fun event_read :: "svc_event \<Rightarrow> read_back" where
  "event_read (Request txn req m) = \<lparr>rb_res = 0, rb_words = request_words txn, rb_consumed = 48, rb_mem = m\<rparr>"
| "event_read (Died cs cookie m) = \<lparr>rb_res = 0, rb_words = death_words cookie, rb_consumed = 12, rb_mem = m\<rparr>"

definition svc_step :: "svc_env \<Rightarrow> svc_event \<Rightarrow> svcmgr \<Rightarrow> svcmgr option" where
  "svc_step E e s =
     map_option (\<lambda>(res, reply, s'). s')
       (binder_parse E False (rb_words (event_read e)) (rb_consumed (event_read e)) (Some (svcmgr_handler E)) (run_death E)
          (deliver (event_read e) s))"

text \<open>
  A request is in the memory the driver has filled; a death carries the cookie that was
  registered for a name. The driver delivers nothing else.
\<close>

fun svc_event_ok :: "svc_event \<Rightarrow> svcmgr \<Rightarrow> bool" where
  "svc_event_ok (Request txn req m) s \<longleftrightarrow> bt_target txn = svcmgr_handle \<and>
     request_in (sv_mem (deliver (event_read (Request txn req m)) s)) (bio_init_from_txn txn) (bt_code txn) req"
| "svc_event_ok (Died cs cookie m) s \<longleftrightarrow> (\<exists>a si. entry_of cs s = Some (a, si) \<and> cookie = a + death_offset)"

definition svc_state :: "svc_env \<Rightarrow> svcmgr \<Rightarrow> bool" where
  "svc_state E s \<longleftrightarrow> env_ok E \<and> svc_inv E s \<and> stack_ok E (sv_mem s)"

fun svc_spec :: "svc_event \<Rightarrow> (nat list \<Rightarrow> (nat \<times> nat) option) \<Rightarrow> (nat list \<Rightarrow> (nat \<times> nat) option) \<Rightarrow> bool" where
  "svc_spec (Request txn req m) R R' =
     (case req of
        Add cs h flag \<Rightarrow> \<exists>ret. add_spec cs h (bt_sender_euid txn) (if flag = 0 then 0 else 1) R ret R'
      | _ \<Rightarrow> R' = R)"
| "svc_spec (Died cs cookie m) R R' = (\<exists>p al. R cs = Some (p, al) \<and> R' = R(cs \<mapsto> (0, al)))"

section \<open>Delivery\<close>

lemma mapped_mono: "mapped m a n \<Longrightarrow> dom m \<subseteq> dom m' \<Longrightarrow> mapped m' a n"
  by (auto simp: mapped_def)

lemma fold_dom: "dom m \<subseteq> dom (fold (\<lambda>(a, b) m. m(a \<mapsto> b)) ws m)"
proof (induction ws arbitrary: m)
  case (Cons w ws)
  obtain a b where w: "w = (a, b)" by (cases w)
  have "dom m \<subseteq> dom (m(a \<mapsto> b))" by auto
  also have "\<dots> \<subseteq> dom (fold (\<lambda>(a, b) m. m(a \<mapsto> b)) ws (m(a \<mapsto> b)))" by (rule Cons.IH)
  finally show ?case unfolding w by (simp only: fold_simps prod.case)
qed simp

lemma deliver_fields [simp]: "svclist (deliver r s) = svclist s" "sv_calls (deliver r s) = sv_calls s"
  "sv_sent (deliver r s) = sv_sent s" "svc_inv E (deliver r s) = svc_inv E s" "registry (deliver r s) = registry s"
  by (simp_all add: deliver_def)

lemma deliver_stack: "stack_ok E (sv_mem s) \<Longrightarrow> stack_ok E (sv_mem (deliver r s))"
  using mapped_mono [OF _ fold_dom [of "sv_mem s" "rb_mem r"]] by (simp add: stack_ok_def deliver_def)

section \<open>One request, one death\<close>

lemma same_list:
  "svclist s' = svclist s \<Longrightarrow> registry s' = registry s"
  by (simp add: fun_eq_iff registry_def entry_of_def)

lemma same_inv:
  assumes "svc_inv E s" and "svclist s' = svclist s" and "sv_calls s \<le> sv_calls s'" and "\<And>h. held h s' = held h s"
  shows "svc_inv E s'"
  using assms by (auto simp: svc_inv_def registered_def intro: entry_ok_later)

lemma serve_request:
  assumes st: "svc_state E s" and ok: "svc_event_ok (Request txn req m) s"
  obtains ret it s1 s' where "svc_step E (Request txn req m) s = Some s'" and "svc_state E s'"
    and "handled req (bt_sender_euid txn) (deliver (event_read (Request txn req m)) s) ret s1 it"
    and "svclist s' = svclist s1" and "answered E txn ret it s s'"
proof -
  define s0 where "s0 = deliver (event_read (Request txn req m)) s"
  have E: "env_ok E" and inv: "svc_inv E s0" and sk: "stack_ok E (sv_mem s0)"
    using st deliver_stack by (simp_all add: svc_state_def s0_def)
  have t: "bt_target txn = svcmgr_handle" and r: "request_in (sv_mem s0) (bio_init_from_txn txn) (bt_code txn) req"
    using ok by (simp_all add: s0_def)
  obtain ret reply s1 where h: "svcmgr_handler E s0 txn (bio_init_from_txn txn) (first_reply E) = Some (ret, reply, s1)"
    and g: "good_reply E req (bt_sender_euid txn) (first_reply E) s0 ret reply s1"
    using handler_ok [OF E inv first_reply_ok(1) [OF sk] t r] by blast
  obtain it where it: "handled req (bt_sender_euid txn) s0 ret s1 it"
    and rp: "replied (first_reply E) (sv_mem s0) reply (sv_mem s1) it"
    and i1: "svc_inv E s1" and so: "step_ok (first_reply E) (sv_mem s0) reply (sv_mem s1)"
    using g by (auto simp: good_reply_def)
  obtain s' where sr: "binder_send_reply E reply (bt_data txn) ret s1 = Some s'" and l: "svclist s' = svclist s1"
    and hd: "\<And>h. held h s' = held h s1" and c: "sv_calls s' = Suc (sv_calls s1)" and an: "answered E txn ret it s0 s'"
    and mp: "mapped (sv_mem s') = mapped (sv_mem s0)"
    by (rule send_reply_ok [OF sk so quiet_handler [OF h] rp]) blast
  have "parse_transaction E (Some (svcmgr_handler E)) txn s0 = Some s'"
    using h sr by (simp add: parse_transaction_def first_reply_def)
  then have "svc_step E (Request txn req m) s = Some s'"
    using parse_request [of E txn "[]"] by (simp add: svc_step_def s0_def)
  moreover have "svc_state E s'"
    using E same_inv [OF i1 l _ hd] c sk by (simp add: svc_state_def stack_ok_def mp)
  moreover have "answered E txn ret it s s'" using an by (simp add: answered_def s0_def deliver_def)
  ultimately show thesis using that it l by (simp add: s0_def)
qed

lemma find_entry:
  assumes "svc_inv E s" and "(a, si) \<in> set (svclist s)"
  shows "find (\<lambda>(b, x). b + death_offset = a + death_offset) (svclist s) = Some (a, si)"
proof -
  have "\<exists>e. find (\<lambda>(b, x). b + death_offset = a + death_offset) (svclist s) = Some e"
    using assms(2) by (cases "find (\<lambda>(b, x). b + death_offset = a + death_offset) (svclist s)") (auto simp: find_None_iff)
  then obtain b x where f: "find (\<lambda>(b, x). b + death_offset = a + death_offset) (svclist s) = Some (b, x)" by auto
  then have b: "(b, x) \<in> set (svclist s)" "b = a" by (auto simp: find_Some_iff in_set_conv_nth)
  have "x = si" using map_of_entry [OF assms(1) b(1)] map_of_entry [OF assms] b(2) by simp
  with f b(2) show ?thesis by simp
qed

lemma serve_death:
  assumes st: "svc_state E s" and ok: "svc_event_ok (Died cs cookie m) s"
  obtains s' p al where "svc_step E (Died cs cookie m) s = Some s'" and "svc_state E s'"
    and "registry s cs = Some (p, al)" and "registry s' = (registry s)(cs \<mapsto> (0, al))"
proof -
  define s0 where "s0 = deliver (event_read (Died cs cookie m)) s"
  have E: "env_ok E" and inv: "svc_inv E s0" and sk: "stack_ok E (sv_mem s0)"
    using st deliver_stack by (simp_all add: svc_state_def s0_def)
  obtain a si where e: "entry_of cs s = Some (a, si)" and ck: "cookie = a + death_offset" using ok by auto
  have l: "(a, si) \<in> set (svclist s0)" "svc_key si = cs" using entry_of_Some [OF e] by (simp_all add: s0_def)
  have d: "si_death si = a" using inv l(1) by (auto simp: svc_inv_def entry_ok_def)
  obtain s' where sd: "svcinfo_death E a s0 = Some s'" and i': "svc_inv E s'" and m': "sv_mem s' = sv_mem s0"
    and r': "registry s' = (registry s0)(svc_key si \<mapsto> (0, si_allow_isolated si))"
    by (rule svcinfo_death_ok [OF inv l(1)])
  have "run_death E cookie s0 = Some s'" using find_entry [OF inv l(1)] sd d by (simp add: run_death_def ck)
  then have "svc_step E (Died cs cookie m) s = Some s'"
    using parse_death [of E cookie "[]"] by (simp add: svc_step_def s0_def)
  moreover have "svc_state E s'" using E i' sk m' by (simp add: svc_state_def)
  ultimately show thesis using that e r' l(2) by (simp add: registry_def s0_def)
qed

section \<open>Runs\<close>

lemma handled_spec:
  "handled req uid s ret s1 it \<Longrightarrow> svclist s' = svclist s1 \<Longrightarrow> uid = bt_sender_euid txn \<Longrightarrow>
   svc_spec (Request txn req m) (registry s) (registry s')"
  using same_list [of s' s1] same_list [of s1 s] by (auto simp: handled_def split: request.splits if_splits)

interpretation svc: refined "svc_state E" svc_event_ok "svc_step E" registry svc_spec for E
proof unfold_locales
  fix s e assume st: "svc_state E s" and ok: "svc_event_ok e s"
  show "\<exists>s'. svc_step E e s = Some s' \<and> svc_state E s'"
  proof (cases e)
    case (Request txn req m)
    show ?thesis by (rule serve_request [OF st ok [unfolded Request]]) (auto simp: Request)
  next
    case (Died cs cookie m)
    show ?thesis by (rule serve_death [OF st ok [unfolded Died]]) (auto simp: Died)
  qed
  fix s' assume s': "svc_step E e s = Some s'"
  show "svc_spec e (registry s) (registry s')"
  proof (cases e)
    case (Request txn req m)
    show ?thesis
      by (rule serve_request [OF st ok [unfolded Request]])
        (use s' Request handled_spec [of req _ "deliver (event_read (Request txn req m)) s"] in force)
  next
    case (Died cs cookie m)
    show ?thesis by (rule serve_death [OF st ok [unfolded Died]]) (use s' Died in auto)
  qed
qed

section \<open>The loop\<close>

lemma parse_event:
  "binder_parse E False (rb_words (event_read e) @ tail) (rb_consumed (event_read e)) (Some (svcmgr_handler E)) (run_death E)
     (deliver (event_read e) s) = map_option (\<lambda>s'. (1, None, s')) (svc_step E e s)"
  using parse_request [of E _ tail "svcmgr_handler E" "run_death E"] parse_request [of E _ "[]" "svcmgr_handler E" "run_death E"]
    parse_death [of E _ tail "Some (svcmgr_handler E)" "run_death E"] parse_death [of E _ "[]" "Some (svcmgr_handler E)" "run_death E"]
  by (cases e) (simp_all add: svc_step_def option.map_comp comp_def option.map_ident)

lemma loop_is_run:
  "run (svc_step E) es s = Some s' \<Longrightarrow>
   loop_reads E (svcmgr_handler E) (run_death E) (map event_read es) buf s = Some (Loop_Waiting, s')"
proof (induction es arbitrary: s buf)
  case (Cons e es)
  obtain s1 where s1: "svc_step E e s = Some s1" "run (svc_step E) es s1 = Some s'"
    using Cons.prems by (auto split: option.splits)
  have "rb_res (event_read e) = 0" by (cases e) simp_all
  then show ?case using Cons.IH [OF s1(2)] s1(1) parse_event [of E e _ s] by (simp add: fill_buffer_def)
qed simp

lemma loop_write_state:
  "svc_state E s \<Longrightarrow> svc_state E (snd (binder_write E [BC_ENTER_LOOPER] s))"
  using same_inv [of E s "snd (binder_write E [BC_ENTER_LOOPER] s)"] by (simp add: svc_state_def held_write)

end
