(* ===== verification/Svc_Theorems.thy ===== *)
theory Svc_Theorems
  imports Svc_Run
begin

text \<open>
  What the service manager promises: messages survive the trip, its loop implements a map
  from names to handles, every request gets its answer, names are protected, references
  balance, and the two sides of the protocol agree on the layout of a transaction.
\<close>

section \<open>A message in memory\<close>

definition demo_ram :: umem where
  "demo_ram a = (if 0 < a \<and> a < 8192 then Some 0 else None)"

lemma demo_ram_mapped: "0 < a \<Longrightarrow> a + n \<le> 8192 \<Longrightarrow> mapped demo_ram a n"
  by (auto simp: mapped_def demo_ram_def dom_def)

definition demo_io :: binder_io where
  "demo_io = bio_init failed_io 2048 1024 8"

lemma demo_io_ok:
  "writable demo_ram demo_io" "\<not> overflowed demo_io" "io_data demo_io = io_data0 demo_io" "io_offs demo_io = io_offs0 demo_io"
  "io_data_avail demo_io = 992" "io_offs_avail demo_io = 8" "io_flags demo_io = 0" "io_data0 demo_io = 2080" "io_offs0 demo_io = 2048"
  "limit demo_io = 3072"
  using bio_init_writable [of 2048 1024 8 demo_ram failed_io] demo_ram_mapped [of 2048 1024]
  by (simp_all add: demo_io_def) (simp_all add: bio_init_def u32_def limit_def)

text \<open>A list of items fits when its data and its references do.\<close>

definition refs_in :: "item list \<Rightarrow> nat" where
  "refs_in its = length (filter (\<lambda>i. case i of I_Ref h \<Rightarrow> True | _ \<Rightarrow> False) its)"

lemma item_advance:
  assumes "stored it io io1 m1" and "follows io io1" and "item_size it \<le> io_data_avail io"
  shows "io_data_avail io1 = io_data_avail io - item_size it" and "io_offs_avail io1 = io_offs_avail io - refs_in [it]"
  using assms by (cases it; auto simp: follows_def limit_def offs_limit_def refs_in_def)+

lemma items_fit:
  assumes "writable m io" and "\<forall>it \<in> set its. item_ok it" and "sum_list (map item_size its) \<le> io_data_avail io"
    and "refs_in its < io_offs_avail io" and "io_flags io = 0" and "put_items io its m = Some (io', m')"
  shows "io_flags io' = 0"
  using assms
proof (induction its arbitrary: io m)
  case (Cons it its)
  have w: "writable m io" and ok: "item_ok it" using Cons.prems by simp_all
  obtain io1 m1 where p: "put_item io it m = Some (io1, m1)" and s: "step_ok io m io1 m1"
    and st: "\<not> overflowed io1 \<Longrightarrow> stored it io io1 m1" by (rule put_item_ok [OF w ok]) blast
  have d: "io_data io \<noteq> 0" using w by (auto simp: writable_def offs_limit_def)
  have sz: "item_size it \<le> io_data_avail io" "0 < io_offs_avail io" using Cons.prems by auto
  have f: "io_flags io1 = 0" using item_fits [OF p ok sz d] Cons.prems by simp
  then have sd: "stored it io io1 m1" using st by (simp add: overflowed_def)
  have fo: "follows io io1" using s by (simp add: step_ok_def)
  note adv = item_advance [OF sd fo sz(1)]
  have rest: "put_items io1 its m1 = Some (io', m')" using Cons.prems p by simp
  have "refs_in (it # its) = refs_in [it] + refs_in its" by (simp add: refs_in_def)
  then show ?case
    using Cons.IH [OF step_writable [OF s w] _ _ _ f rest] Cons.prems adv by simp
qed simp

text \<open>
  C11. Items written with \<open>bio_put_uint32\<close>, \<open>bio_put_string16\<close> and \<open>bio_put_ref\<close> into a fresh buffer
  and sent as a transaction are read back by \<open>bio_get_uint32\<close>, \<open>bio_get_string16\<close> and
  \<open>bio_get_ref\<close> as the same items in the same order, with nothing left over, whenever the
  overflow flag of the writer is not set.
\<close>

theorem bio_roundtrip:
  assumes "writable m io" and "io_data io = io_data0 io" and "\<forall>it \<in> set its. item_ok it"
    and "put_items io its m = Some (io', m')" and "\<not> overflowed io'"
  shows "\<exists>rest. items_in m' (bio_init_from_txn (message_of io' txn)) its rest \<and> io_data_avail rest = 0"
proof -
  have s: "step_ok io m io' m'" and i: "items_in m' (reader io' (io_data io)) its (reader io' (io_data io'))"
    using put_items_ok [OF assms(1,3)] assms(4,5) by auto
  have "io_data io = io_data0 io'" using s assms(2) by (simp add: step_ok_def follows_def)
  moreover have "writable m' io'" by (rule step_writable [OF s assms(1)])
  ultimately show ?thesis using i by (intro exI [of _ "reader io' (io_data io')"]) (simp add: message_reader, simp add: reader_def)
qed

definition demo_items :: "item list" where
  "demo_items = [I_Word 0, I_String svcmgr_id, I_String (codes ''nfc''), I_Ref 1, I_Word 0]"

lemma demo_items_ok: "\<forall>it \<in> set demo_items. item_ok it"
  by (simp add: demo_items_def svcmgr_id_def codes_def)

definition demo_ram2 :: umem where
  "demo_ram2 = snd (the (put_items demo_io demo_items demo_ram))"

definition demo_io2 :: binder_io where
  "demo_io2 = fst (the (put_items demo_io demo_items demo_ram))"

lemma demo_put: "put_items demo_io demo_items demo_ram = Some (demo_io2, demo_ram2)"
  and demo_step: "step_ok demo_io demo_ram demo_io2 demo_ram2"
  using put_items_ok [OF demo_io_ok(1) demo_items_ok] by (auto simp: demo_io2_def demo_ram2_def)

lemma demo_fits: "\<not> overflowed demo_io2"
proof -
  have "io_flags demo_io2 = 0"
    by (rule items_fit [OF demo_io_ok(1) demo_items_ok _ _ _ demo_put])
      (simp_all add: demo_io_ok demo_items_def refs_in_def svcmgr_id_def codes_def align4_def u32_def)
  then show ?thesis by (simp add: overflowed_def)
qed

definition blank_txn :: binder_txn where
  "blank_txn = \<lparr>bt_target = 0, bt_cookie = 0, bt_code = 0, bt_flags = 0, bt_sender_pid = 0, bt_sender_euid = 0,
     bt_data_size = 0, bt_offs_size = 0, bt_data = 0, bt_offs = 0\<rparr>"

theorem bio_roundtrip_witness:
  "\<exists>rest. items_in demo_ram2 (bio_init_from_txn (message_of demo_io2 blank_txn)) demo_items rest \<and> io_data_avail rest = 0"
  by (rule bio_roundtrip [OF demo_io_ok(1,3) demo_items_ok demo_put demo_fits])

text \<open>
  C32. Whatever is put into a buffer, and however much, nothing faults and nothing outside
  the buffer is written: the bytes that change lie in the part of the buffer the cursor had
  not used yet, and the cursor stays inside.
\<close>

theorem bio_writes_inside:
  assumes "writable m io" and "\<forall>it \<in> set its. item_ok it"
  shows "\<exists>io' m'. put_items io its m = Some (io', m') \<and> writable m' io' \<and> limit io' = limit io \<and>
    (\<forall>a. a \<notin> {io_offs io ..< offs_limit io} \<union> {io_data io ..< limit io} \<longrightarrow> m' a = m a)"
proof -
  obtain io' m' where p: "put_items io its m = Some (io', m')" and s: "step_ok io m io' m'"
    using put_items_ok [OF assms] by blast
  have "span io io' \<subseteq> {io_offs io ..< offs_limit io} \<union> {io_data io ..< limit io}"
    using s by (auto simp: step_ok_def span_def follows_def limit_def offs_limit_def)
  then show ?thesis using p s step_writable [OF s assms(1)] by (auto simp: step_ok_def follows_def changed_def)
qed

theorem bio_writes_inside_witness:
  "\<exists>io' m'. put_items demo_io [I_String (codes ''nfc''), I_Ref 1] demo_ram = Some (io', m') \<and> limit io' = 3072"
proof -
  have "\<forall>it \<in> set [I_String (codes ''nfc''), I_Ref 1]. item_ok it" by (simp add: codes_def)
  from bio_writes_inside [OF demo_io_ok(1) this] show ?thesis by (auto simp: demo_io_ok)
qed

section \<open>A small system\<close>

definition demo_env :: svc_env where
  "demo_env = \<lparr>wr_result = (\<lambda>_. 0), heap_alloc = (\<lambda>i n. 4096 * Suc i), open_result = (\<lambda>_. 3), map_result = (\<lambda>_ _. Some 65536),
     become_result = (\<lambda>_. 0), rdata_at = 256, status_at = 1024, stale_io = failed_io, stale_words = replicate 32 0\<rparr>"

lemma demo_env_sel: "rdata_at demo_env = 256" "status_at demo_env = 1024" "heap_alloc demo_env i n = 4096 * Suc i"
  by (simp_all add: demo_env_def)

lemma demo_env_ok: "env_ok demo_env"
  by (simp add: env_ok_def demo_env_sel)

definition demo_svc :: svcmgr where
  "demo_svc = \<lparr>sv_mem = demo_ram2, sv_sent = [], sv_calls = 0, svclist = []\<rparr>"

lemma demo_stack: "stack_ok demo_env demo_ram2"
proof -
  have "mapped demo_ram2 = mapped demo_ram" using demo_step by (auto simp: step_ok_def intro: changed_mapped)
  then show ?thesis using demo_ram_mapped [of 256 256] demo_ram_mapped [of 1024 4]
    by (simp add: stack_ok_def demo_env_sel)
qed

lemma empty_inv: "svclist s = [] \<Longrightarrow> sv_sent s = [] \<Longrightarrow> svc_inv E s"
  by (simp add: svc_inv_def held_def count_words_def registered_def)

lemma demo_state: "svc_state demo_env demo_svc"
  by (simp add: svc_state_def demo_env_ok empty_inv demo_svc_def demo_stack)

definition demo_txn :: binder_txn where
  "demo_txn = message_of demo_io2 ((stale_txn demo_env)\<lparr>bt_target := 0, bt_code := 3, bt_sender_euid := 0\<rparr>)"

definition demo_event :: svc_event where
  "demo_event = Request demo_txn (Add (codes ''nfc'') 1 0) []"

lemma items_request:
  "items_in m msg [I_Word p, I_String svcmgr_id, I_String cs, I_Ref h, I_Word flag] io \<Longrightarrow>
   request_in m msg SVC_MGR_ADD_SERVICE (Add cs h flag)"
  unfolding request_in_def by (simp del: item_in.simps(2,3)) blast

lemma demo_event_ok: "svc_event_ok demo_event s" if "sv_mem s = demo_ram2"
proof -
  obtain rest where i: "items_in demo_ram2 (bio_init_from_txn demo_txn) demo_items rest"
    using put_items_ok [OF demo_io_ok(1) demo_items_ok] demo_put demo_fits demo_step
      message_reader [OF step_writable [OF demo_step demo_io_ok(1)]] demo_io_ok(3)
    by (auto simp: demo_txn_def step_ok_def follows_def)
  have "request_in demo_ram2 (bio_init_from_txn demo_txn) SVC_MGR_ADD_SERVICE (Add (codes ''nfc'') 1 0)"
    by (rule items_request) (use i in \<open>unfold demo_items_def\<close>)
  then show ?thesis
    using that by (simp add: demo_event_def deliver_def demo_txn_def message_of_def svcmgr_handle_def SVC_MGR_ADD_SERVICE_def)
qed

section \<open>The registry\<close>

text \<open>
  C3. The loop of the service manager refines a map from names to a handle and a flag. On
  any sequence of requests and death notifications it keeps waiting for the driver, never
  faults, and the map changes as specified: adding a permitted name gives it the new handle, a
  name that is there keeps its flag, a death takes the handle away, and nothing else changes
  anything.
\<close>

theorem service_manager_refines:
  assumes "svc_state E s"
    and "admissible svc_event_ok (svc_step E) es (snd (binder_write E [BC_ENTER_LOOPER] s))"
  shows "\<exists>s'. binder_loop E (svcmgr_handler E) (run_death E) (map event_read es) s = Some (Loop_Waiting, s') \<and>
    svc_state E s' \<and> spec_run svc_spec es (registry s) (registry s')"
proof -
  obtain s' where r: "run (svc_step E) es (snd (binder_write E [BC_ENTER_LOOPER] s)) = Some s'" "svc_state E s'"
    "spec_run svc_spec es (registry (snd (binder_write E [BC_ENTER_LOOPER] s))) (registry s')"
    using svc.run_refines [OF loop_write_state [OF assms(1)] assms(2)] by blast
  moreover have "registry (snd (binder_write E [BC_ENTER_LOOPER] s)) = registry s" by (rule same_list) simp
  ultimately show ?thesis using loop_is_run [OF r(1)] by (simp add: binder_loop_def)
qed

lemma demo_admissible:
  "admissible svc_event_ok (svc_step demo_env) [demo_event] (snd (binder_write demo_env [BC_ENTER_LOOPER] demo_svc))"
  using demo_event_ok [of "snd (binder_write demo_env [BC_ENTER_LOOPER] demo_svc)"]
  by (simp add: demo_svc_def split: option.split)

theorem service_manager_refines_witness:
  "\<exists>s'. binder_loop demo_env (svcmgr_handler demo_env) (run_death demo_env) [event_read demo_event] demo_svc = Some (Loop_Waiting, s') \<and>
     spec_run svc_spec [demo_event] (\<lambda>_. None) (registry s')"
proof -
  have "registry demo_svc = (\<lambda>_. None)" by (simp add: fun_eq_iff registry_def entry_of_def demo_svc_def)
  then show ?thesis using service_manager_refines [OF demo_state demo_admissible] by auto
qed

text \<open>
  C6. Every well-formed request (one whose message holds the header and the arguments, as
  \<open>svc_event_ok\<close> says) is answered exactly once: of the writes its handling makes only the last
  one gives a buffer back or replies, and it gives back the buffer of the request and replies
  to it in one. A request for a name gets the handle under that name, or the word 0 for a name
  that is not there, whose service has died, or that an isolated process may not see; a
  request to add gets 0 or the status \<open>-1\<close>. What the answer's message holds is what the
  receiver reads from it when it fits into the 240 bytes a reply has room for.
\<close>

theorem requests_answered:
  assumes "svc_state E s" and "svc_event_ok (Request txn req m) s"
  shows "\<exists>ret it s'. svc_step E (Request txn req m) s = Some s' \<and> answered E txn ret it s s' \<and>
    (case req of
       Get cs \<Rightarrow> ret = 0 \<and> it = Some (case registry s cs of
           None \<Rightarrow> I_Word 0
         | Some (p, al) \<Rightarrow> if p = 0 \<or> al = 0 \<and> isolated (bt_sender_euid txn) then I_Word 0 else I_Ref p)
     | Add cs h flag \<Rightarrow> add_spec cs h (bt_sender_euid txn) (if flag = 0 then 0 else 1) (registry s) ret (registry s') \<and>
         it = (if ret = 0 then Some (I_Word 0) else None)
     | List_Nth n \<Rightarrow> if n < length (svclist s) then ret = 0 \<and> it = Some (I_String (c_string (svc_key (snd (svclist s ! n)))))
         else ret = - 1
     | Unknown \<Rightarrow> ret = - 1)"
proof -
  obtain ret it s1 s' where st: "svc_step E (Request txn req m) s = Some s'" "answered E txn ret it s s'"
    and h: "handled req (bt_sender_euid txn) (deliver (event_read (Request txn req m)) s) ret s1 it"
    and l: "svclist s' = svclist s1"
    by (rule serve_request [OF assms])
  have "(case req of
       Get cs \<Rightarrow> ret = 0 \<and> it = Some (case registry s cs of
           None \<Rightarrow> I_Word 0
         | Some (p, al) \<Rightarrow> if p = 0 \<or> al = 0 \<and> isolated (bt_sender_euid txn) then I_Word 0 else I_Ref p)
     | Add cs h flag \<Rightarrow> add_spec cs h (bt_sender_euid txn) (if flag = 0 then 0 else 1) (registry s) ret (registry s') \<and>
         it = (if ret = 0 then Some (I_Word 0) else None)
     | List_Nth n \<Rightarrow> if n < length (svclist s) then ret = 0 \<and> it = Some (I_String (c_string (svc_key (snd (svclist s ! n)))))
         else ret = - 1
     | Unknown \<Rightarrow> ret = - 1)"
    using h same_list [OF l]
    by (auto simp: handled_def find_item_def answer_of_def split: request.splits option.splits if_splits)
  with st show ?thesis by blast
qed

theorem requests_answered_witness:
  "\<exists>ret it s'. svc_step demo_env demo_event demo_svc = Some s' \<and> answered demo_env demo_txn ret it demo_svc s'"
  using requests_answered [OF demo_state, of demo_txn "Add (codes ''nfc'') 1 0" "[]"] demo_event_ok [of demo_svc]
  by (simp add: demo_event_def demo_svc_def) blast

section \<open>Names and references\<close>

text \<open>
  C18. A name is registered only for root, for the system server, or for a user to whom the
  table allows the text found at its place, up to its terminating 0; any other attempt is
  refused with \<open>-1\<close> and has no effect at all. What a successful one registers are the first
  \<open>k\<close> characters of the text, \<open>k\<close> being the length the message announces, which may be less
  than the text has; no other name is touched.
\<close>

theorem registration_protected:
  assumes "env_ok E" and "svc_inv E s" and "name_at (sv_mem s) a cs" and "k \<le> length cs" and "p < 2 ^ 32"
  shows "\<exists>ret s'. do_add_service E a k p uid al s = Some (ret, s') \<and>
    (ret = 0 \<longrightarrow> (uid = 0 \<or> uid = AID_SYSTEM \<or> (\<exists>n. (uid, n) \<in> set allowed \<and> codes n = c_string cs)) \<and>
       (\<exists>al'. registry s' = (registry s)(take k cs \<mapsto> (p, al')))) \<and>
    (ret \<noteq> 0 \<longrightarrow> ret = - 1 \<and> registry s' = registry s) \<and>
    (\<not> permitted uid cs \<longrightarrow> ret = - 1 \<and> s' = s)"
proof (rule add_service_text [OF assms, of uid al])
  fix ret s' assume d: "do_add_service E a k p uid al s = Some (ret, s')"
    and sp: "if p = 0 \<or> k = 0 \<or> 127 < k \<or> \<not> permitted uid cs then ret = - 1 \<and> s' = s
      else case registry s (take k cs) of
        Some (q, al0) \<Rightarrow> ret = 0 \<and> registry s' = (registry s)(take k cs \<mapsto> (p, al0))
      | None \<Rightarrow> ret = 0 \<and> registry s' = (registry s)(take k cs \<mapsto> (p, al)) \<or> ret = - 1 \<and> registry s' = registry s"
  have "(ret = 0 \<longrightarrow> permitted uid cs \<and> (\<exists>al'. registry s' = (registry s)(take k cs \<mapsto> (p, al')))) \<and>
    (ret \<noteq> 0 \<longrightarrow> ret = - 1 \<and> registry s' = registry s) \<and> (\<not> permitted uid cs \<longrightarrow> ret = - 1 \<and> s' = s)"
    using sp by (auto split: if_splits option.splits)
  then show ?thesis using d unfolding permitted_def [symmetric] by blast
qed

definition demo_named :: svcmgr where
  "demo_named = demo_svc\<lparr>sv_mem := patch demo_ram 2048 (concat (map le_bytes16 (codes ''nfc'' @ [0])))\<rparr>"

lemma demo_name: "name_at (sv_mem demo_named) 2048 (codes ''nfc'')"
  using load_u16s_patch_same [of "codes ''nfc'' @ [0]" demo_ram 2048]
  by (simp add: name_at_def demo_named_def codes_def del: load_u16s.simps)

lemma codes_inject: "codes x = codes y \<Longrightarrow> x = y"
proof -
  have "inj (of_char :: char \<Rightarrow> nat)" by (rule inj_of_char)
  then show "codes x = codes y \<Longrightarrow> x = y" unfolding codes_def by (rule map_injective [rotated])
qed

theorem registration_protected_witness:
  "\<exists>ret s'. do_add_service demo_env 2048 3 1 AID_RADIO 0 demo_named = Some (ret, s') \<and> ret = - 1 \<and> s' = demo_named"
proof -
  have i: "svc_inv demo_env demo_named" by (rule empty_inv) (simp_all add: demo_named_def demo_svc_def)
  have "c_string (codes ''nfc'') = codes ''nfc''" by (simp add: c_string_def codes_def)
  then have "\<not> permitted AID_RADIO (codes ''nfc'')"
    by (auto simp: permitted_def AID_RADIO_def AID_SYSTEM_def allowed_def AID_MEDIA_def AID_DRM_def AID_NFC_def
        AID_BLUETOOTH_def AID_KEYSTORE_def dest: codes_inject)
  moreover have "length (codes ''nfc'') = 3" by (simp add: codes_def)
  ultimately show ?thesis
    using registration_protected [OF demo_env_ok i demo_name, of 3 1 AID_RADIO 0] by auto
qed

text \<open>
  C19. From a start with no service, after any sequence of requests and deaths, the strong
  references the service manager has asked the driver for and not given back are, for every
  handle, as many as there are names registered with it: none leaks and none is given back
  twice. No name is in the list twice.
\<close>

theorem references_balanced:
  assumes "env_ok E" and "stack_ok E (sv_mem s)" and "svclist s = []" and "sv_sent s = []"
    and "admissible svc_event_ok (svc_step E) es (snd (binder_write E [BC_ENTER_LOOPER] s))"
  shows "\<exists>s'. binder_loop E (svcmgr_handler E) (run_death E) (map event_read es) s = Some (Loop_Waiting, s') \<and>
    (\<forall>h. h \<noteq> 0 \<longrightarrow> held h s' = int (registered h s')) \<and> distinct (map (svc_key \<circ> snd) (svclist s'))"
proof -
  have "svc_state E s" using assms empty_inv by (simp add: svc_state_def)
  then obtain s' where "run (svc_step E) es (snd (binder_write E [BC_ENTER_LOOPER] s)) = Some s'" "svc_state E s'"
    using svc.run_safe [OF loop_write_state assms(5)] by blast
  then show ?thesis using loop_is_run [of E es _ s'] by (auto simp: binder_loop_def svc_state_def svc_inv_def)
qed

theorem references_balanced_witness:
  "\<exists>s'. binder_loop demo_env (svcmgr_handler demo_env) (run_death demo_env) [event_read demo_event] demo_svc = Some (Loop_Waiting, s') \<and>
     held 1 s' = int (registered 1 s')"
  using references_balanced [OF demo_env_ok _ _ _ demo_admissible] demo_stack by (auto simp: demo_svc_def)

section \<open>Where it fails\<close>

text \<open>
  C33. A message to handle 0 that announces an interface name of the right length but ends
  before the name crashes the service manager, whoever sent it: \<open>bio_get_string16\<close> returns the
  null pointer, and the comparison with the expected name reads through it.
\<close>

theorem short_header_crashes:
  assumes "bt_target txn = svcmgr_handle" and "items_in (sv_mem s) msg [I_Word policy, I_Word 26] rest"
    and "io_data_avail rest < 56" and "sv_mem s 0 = None"
  shows "svcmgr_handler E s txn msg reply = None"
proof -
  obtain io1 where 1: "bio_get_uint32 msg (sv_mem s) = Some (policy, io1)"
    and 2: "bio_get_uint32 io1 (sv_mem s) = Some (26, rest)" using assms(2) by auto
  have "u32 (u32 (26 + 1) * 2) = 54" "align4 54 = 56" by (simp_all add: u32_def align4_def)
  then have "fst (bio_get rest 54) = 0" using assms(3) by (simp add: bio_get_def)
  then obtain io2 where 3: "bio_get_string16 io1 (sv_mem s) = Some (0, 26, io2)"
    using 2 \<open>u32 (u32 (26 + 1) * 2) = 54\<close> by (cases "bio_get rest 54") (simp add: bio_get_string16_def)
  have "load16 (sv_mem s) 0 = None" using assms(4) by (simp add: load16_def numeral_2_eq_2)
  then have "load_u16s (sv_mem s) 0 26 = None" by (simp add: eval_nat_numeral)
  then show ?thesis using assms(1) 1 3 by (simp add: svcmgr_handler_def del: load_u16s.simps)
qed

theorem short_header_crashes_witness:
  "\<exists>s txn msg. sv_mem s \<noteq> Map.empty \<and> svcmgr_handler demo_env s txn msg failed_io = None"
proof -
  have ok: "\<forall>it \<in> set [I_Word 0, I_Word 26]. item_ok it" by simp
  obtain io m where p: "put_items demo_io [I_Word 0, I_Word 26] demo_ram = Some (io, m)" and s: "step_ok demo_io demo_ram io m"
    and i: "\<not> overflowed io \<longrightarrow> items_in m (reader io (io_data demo_io)) [I_Word 0, I_Word 26] (reader io (io_data io))"
    using put_items_ok [OF demo_io_ok(1) ok] by blast
  have "io_flags io = 0"
    by (rule items_fit [OF demo_io_ok(1) ok _ _ _ p]) (simp_all add: demo_io_ok refs_in_def)
  then have it: "items_in m (reader io (io_data demo_io)) [I_Word 0, I_Word 26] (reader io (io_data io))"
    using i by (simp add: overflowed_def)
  have dm: "dom m = dom demo_ram" using s by (simp add: step_ok_def changed_def)
  have "0 \<notin> dom m" "1 \<in> dom m" unfolding dm by (auto simp: demo_ram_def dom_def)
  then have "m 0 = None" "m 1 \<noteq> None" by auto
  then show ?thesis
    using short_header_crashes [of demo_txn "demo_svc\<lparr>sv_mem := m\<rparr>" "reader io (io_data demo_io)" 0 "reader io (io_data io)" demo_env failed_io] it
    by (intro exI [of _ "demo_svc\<lparr>sv_mem := m\<rparr>"] exI [of _ demo_txn] exI [of _ "reader io (io_data demo_io)"])
      (auto simp: demo_txn_def message_of_def svcmgr_handle_def reader_def)
qed

text \<open>
  The permission is checked on the text up to its terminating 0, the entry is made for the
  number of characters the message announces: a user who may register a name may register
  every beginning of it.
\<close>

theorem prefix_registers:
  assumes n: "name_at (sv_mem s) a cs" and may: "permitted uid cs" and k: "0 < k" "k < length cs" "k \<le> 127" and p: "p \<noteq> 0"
    and e: "svclist s = []" and h: "heap_alloc E (sv_calls s) (sizeof_svcinfo + (k + 1) * 2) \<noteq> 0"
  shows "\<exists>s'. do_add_service E a k p uid al s = Some (0, s') \<and> registry s' (take k cs) = Some (p, al)"
proof -
  have "Suc k + (length cs - Suc k) = length cs" using k by linarith
  then have "load_u16s (sv_mem s) a (Suc k + (length cs - Suc k)) = Some cs" using name_at_prefix [OF n] by metis
  then obtain xs ys where x: "load_u16s (sv_mem s) a (Suc k) = Some xs" "xs @ ys = cs"
    by (auto simp only: load_u16s_append bind_eq_Some_conv option.inject)
  have xl: "length xs = Suc k" using x(1) by (rule load_u16s_length)
  then have "take k cs = take k xs" using x(2) by auto
  then have key: "take k (xs[k := 0]) = take k cs" by (simp add: take_update_cancel)
  define si where "si = heap_alloc E (sv_calls s) (sizeof_svcinfo + (k + 1) * 2)"
  define new where "new = \<lparr>si_ptr = p, si_death = si, si_allow_isolated = al, si_len = k, si_name = xs[k := 0]\<rparr>"
  define s' where "s' = announce E p si ((svc_tick s)\<lparr>svclist := (si, new) # svclist s\<rparr>)"
  have "new_svc E a k p al s = Some (si, (svc_tick s)\<lparr>svclist := (si, new) # svclist s\<rparr>)"
    using x(1) h by (simp add: new_svc_def heap_malloc_def si_def new_def svc_tick_def del: load_u16s.simps)
  then have "do_add_service E a k p uid al s = Some (0, s')"
    using can_register_at [OF n, of uid] may k p e h
    by (simp add: do_add_service_def find_svc_def s'_def si_def)
  moreover have "registry s' (take k cs) = Some (p, al)"
    by (simp add: registry_def entry_of_def s'_def svc_key_def new_def key)
  ultimately show ?thesis by blast
qed

text \<open>A name too long for the reply to \<open>SVC_MGR_LIST_SERVICES\<close> is sent as its length alone.\<close>

theorem long_name_lost:
  assumes "writable m io" and "c_length cs = Some (length cs - 1)" and "length cs < 2 ^ 29"
    and "4 \<le> io_data_avail io" and "io_data_avail io < 4 + align4 (length cs * 2)" and "cs \<noteq> []"
  shows "\<exists>io' m'. bio_put_string16 io (Some cs) m = Some (io', m') \<and> overflowed io' \<and> io_data io' = io_data io + 4"
proof -
  have l: "length cs - 1 + 1 = length cs" using assms(6) by (cases cs) simp_all
  obtain io1 m1 where p: "bio_put_uint32 io (length cs - 1) m = Some (io1, m1)"
    by (rule put_word_ok [OF assms(1), of "length cs - 1"])
  have d: "io_data io1 = io_data io + 4"
    using p assms(4) by (auto simp: bio_put_uint32_def bio_alloc_def align4_words bind_eq_Some_conv Let_def split: if_splits)
  have "io_data_avail io1 < align4 (length cs * 2)" using word_fits(2) [OF p assms(4)] assms(4,5) by linarith
  then have "bio_alloc io1 (length cs * 2) = (0, set_overflow io1)" by (simp add: bio_alloc_def)
  then have "bio_put_string16 io (Some cs) m = Some (set_overflow io1, m1)"
    using p assms(2,3) l by (simp add: bio_put_string16_def MAX_BIO_SIZE_def del: One_nat_def)
  moreover have "io_data (set_overflow io1) = io_data io + 4" by (simp add: set_overflow_def d)
  ultimately show ?thesis using overflowed_set by blast
qed

text \<open>Without the device \<open>main\<close> passes the null pointer on and faults.\<close>

theorem main_without_device:
  assumes "open_result E (Suc (sv_calls s)) < 0"
  shows "main E rs s = None"
  using assms
  by (simp add: main_def binder_open_def heap_malloc_def binder_become_context_manager_def svc_tick_def Let_def)

section \<open>Both sides of the protocol\<close>

text \<open>
  C34. The service manager and the driver agree on the layout of a transaction: the ten words
  the service manager writes are read by the driver as the fields they stand for, and the
  ten words the driver delivers are read by the service manager as the target, code, sender
  and buffer of the transaction.
\<close>

theorem wire_layout:
  assumes "\<forall>w \<in> set (txn_words t). w < 2 ^ 32"
  shows "read_tx_data (concat (map le_bytes (txn_words t))) =
      \<lparr>td_target = bt_target t, td_cookie = bt_cookie t, td_code = bt_code t, td_flags = word_of_nat (bt_flags t),
       td_data_size = bt_data_size t, td_offsets_size = bt_offs_size t, td_buffer = bt_data t, td_offsets = bt_offs t\<rparr> \<and>
    (\<exists>r. txn_at (tx_words K x target cookie pid al b h) 0 = Some r \<and> bt_target r = target \<and> bt_cookie r = cookie \<and>
       bt_code r = t_code x \<and> bt_flags r = unat (t_flags x) \<and> bt_sender_pid r = pid \<and> bt_sender_euid r = t_sender_euid x \<and>
       bt_data_size r = b_data_size h \<and> bt_offs_size r = b_offsets_size h \<and>
       bt_data r = nat ((int (buffer_data K b) + p_user_buffer_offset al) mod 2 ^ 32) \<and>
       bt_offs r = (bt_data r + align_up (ptr_bytes K) (b_data_size h) 4) mod 2 ^ 32)"
proof -
  have g: "get_u32 (\<lambda>i. concat (map le_bytes (txn_words t)) ! i) (4 * i) = txn_words t ! i" if "i < 10" for i
  proof -
    have "i < length (txn_words t)" using that by (simp add: txn_words_def)
    then show ?thesis using get_word [of i "txn_words t"] assms nth_mem [of i "txn_words t"] by simp
  qed
  have "read_tx_data (concat (map le_bytes (txn_words t))) =
      \<lparr>td_target = bt_target t, td_cookie = bt_cookie t, td_code = bt_code t, td_flags = word_of_nat (bt_flags t),
       td_data_size = bt_data_size t, td_offsets_size = bt_offs_size t, td_buffer = bt_data t, td_offsets = bt_offs t\<rparr>"
    unfolding read_tx_data_def Let_def
    using g [of 0] g [of 1] g [of 2] g [of 3] g [of 6] g [of 7] g [of 8] g [of 9]
    by (simp only: mult.commute [of 4] mult_0 one_less_numeral_iff) (simp add: txn_words_def)
  then show ?thesis by (auto simp: txn_at_def tx_words_def Let_def)
qed

definition layout_txn :: binder_txn where
  "layout_txn = \<lparr>bt_target = 1, bt_cookie = 2, bt_code = 3, bt_flags = 4, bt_sender_pid = 5, bt_sender_euid = 6,
     bt_data_size = 70000, bt_offs_size = 8, bt_data = 0xFEDCBA98, bt_offs = 10\<rparr>"

theorem wire_layout_witness:
  "read_tx_data (concat (map le_bytes (txn_words layout_txn))) =
     \<lparr>td_target = 1, td_cookie = 2, td_code = 3, td_flags = 4, td_data_size = 70000, td_offsets_size = 8,
      td_buffer = 0xFEDCBA98, td_offsets = 10\<rparr>"
  using wire_layout [of layout_txn] by (simp add: txn_words_def layout_txn_def)

end
