(* ===== verification/Unicode.thy ===== *)
theory Unicode
  imports Arrays
begin

unbundle bit_operations_syntax

text \<open>
  The character conversions of \<^verbatim>\<open>src/src/lib/utils/Unicode.cpp\<close>. An array is a list and a
  pointer into it an index; an access outside the array, whose effect C leaves undefined, is
  \<open>None\<close>. A pointer argument that the code compares with \<open>NULL\<close> is an \<open>option\<close>. Whether the
  type \<open>char\<close> is signed is up to the machine, so the functions that widen a \<open>char\<close> take this
  as their argument \<open>sc\<close>. Results of type \<open>ssize_t\<close> are integers: the strings are so
  short that a length in the other encoding does not overflow.
\<close>

section \<open>Arrays and characters\<close>

type_synonym char16 = "16 word"
type_synonym char32 = "32 word"

definition char_val :: "bool \<Rightarrow> byte \<Rightarrow> char32" where
  "char_val sc b = (if sc then scast b else ucast b)"

definition kByteMask :: char32 where "kByteMask = 0xBF"
definition kByteMark :: char32 where "kByteMark = 0x80"
definition kUnicodeSurrogateStart :: char32 where "kUnicodeSurrogateStart = 0xD800"
definition kUnicodeSurrogateEnd :: char32 where "kUnicodeSurrogateEnd = 0xDFFF"
definition kUnicodeMaxCodepoint :: char32 where "kUnicodeMaxCodepoint = 0x10FFFF"
definition kFirstByteMark :: "char32 list" where "kFirstByteMark = [0, 0, 0xC0, 0xE0, 0xF0]"

section \<open>UTF-32\<close>

definition utf32_codepoint_utf8_length :: "char32 \<Rightarrow> nat" where
  "utf32_codepoint_utf8_length c =
    (if c < 0x80 then 1
     else if c < 0x800 then 2
     else if c < 0x10000 then
       if c < kUnicodeSurrogateStart \<or> kUnicodeSurrogateEnd < c then 3 else 0
     else if c \<le> kUnicodeMaxCodepoint then 4
     else 0)"

definition put_tail_byte :: "byte list \<times> nat \<times> char32 \<Rightarrow> (byte list \<times> nat \<times> char32) option" where
  "put_tail_byte = (\<lambda>(d, q, c). do {
    d \<leftarrow> store_at d (q - 1) (ucast ((c OR kByteMark) AND kByteMask));
    Some (d, q - 1, drop_bit 6 c) })"

definition utf32_codepoint_to_utf8 :: "byte list \<Rightarrow> nat \<Rightarrow> char32 \<Rightarrow> nat \<Rightarrow> byte list option" where
  "utf32_codepoint_to_utf8 d q c bytes = do {
    st \<leftarrow> Some (d, q + bytes, c);
    st \<leftarrow> if bytes = 4 then put_tail_byte st else Some st;
    st \<leftarrow> if bytes \<in> {3, 4} then put_tail_byte st else Some st;
    (d, q, c) \<leftarrow> if bytes \<in> {2, 3, 4} then put_tail_byte st else Some st;
    if bytes \<in> {1, 2, 3, 4} then store_at d (q - 1) (ucast (c OR kFirstByteMark ! bytes)) else Some d }"

function strlen32 :: "char32 list \<Rightarrow> nat \<Rightarrow> nat option" where
  "strlen32 s i = do { c \<leftarrow> load_at s i; if c \<noteq> 0 then strlen32 s (i + 1) else Some i }"
  by pat_completeness auto
termination
  by (relation "measure (\<lambda>(s, i). length s - i)") (auto simp: load_at_def split: if_splits)

declare strlen32.simps [simp del]

fun strnlen32 :: "char32 list \<Rightarrow> nat \<Rightarrow> nat \<Rightarrow> nat option" where
  "strnlen32 s 0 i = Some i"
| "strnlen32 s (Suc maxlen) i = do { c \<leftarrow> load_at s i; if c \<noteq> 0 then strnlen32 s maxlen (i + 1) else Some i }"

lemma shift_decreases: "first AND msk \<noteq> 0 \<Longrightarrow> unat (drop_bit (Suc 0) msk) < unat msk" for msk :: char32
proof -
  assume "first AND msk \<noteq> 0"
  then have "unat msk \<noteq> 0" by (auto simp: unat_eq_zero)
  moreover have "unat (drop_bit (Suc 0) msk) = unat msk div 2"
    by (simp only: unat_drop_bit_eq) (simp add: drop_bit_eq_div)
  ultimately show ?thesis by simp
qed

function at_loop :: "byte list \<Rightarrow> char32 \<Rightarrow> char32 \<Rightarrow> char32 \<Rightarrow> nat \<Rightarrow> char32 \<Rightarrow> nat \<Rightarrow> (nat \<times> char32 \<times> char32 \<times> char32) option" where
  "at_loop s first msk ign n utf32 cur =
    (if first AND msk \<noteq> 0 then do {
       b \<leftarrow> load_at s cur;
       at_loop s first (drop_bit 1 msk) (ign OR msk) (n + 1) (push_bit 6 utf32 + (ucast b AND 0x3F)) (cur + 1) }
     else Some (n, msk, ign, utf32))"
  by pat_completeness auto
termination
  by (relation "measure (\<lambda>(s, first, msk, ign, n, utf32, cur). unat msk)") (auto dest: shift_decreases)

declare at_loop.simps [simp del]

definition utf32_at_internal :: "bool \<Rightarrow> byte list \<Rightarrow> nat \<Rightarrow> (char32 \<times> nat) option" where
  "utf32_at_internal sc s cur = do {
    b \<leftarrow> load_at s cur;
    let first = char_val sc b in
    if first AND 0x80 = 0 then Some (first, 1)
    else do {
      (num_to_read, msk, ign, utf32) \<leftarrow> at_loop s first 0x40 0xFFFFFF80 1 first (cur + 1);
      let ign = ign OR msk in
      if 32 \<le> 6 * (num_to_read - 1) then None
      else Some (utf32 AND NOT (push_bit (6 * (num_to_read - 1)) ign), num_to_read) } }"

definition utf32_from_utf8_at :: "bool \<Rightarrow> byte list \<Rightarrow> nat \<Rightarrow> nat \<Rightarrow> nat option \<Rightarrow> (int \<times> nat option) option" where
  "utf32_from_utf8_at sc s src_len i next_index =
    (if src_len \<le> i then Some (- 1, next_index)
     else do {
       (ret, num_read) \<leftarrow> utf32_at_internal sc s i;
       Some (sint ret, if 0 \<le> sint ret then map_option (\<lambda>_. i + num_read) next_index else next_index) })"

fun utf32_length_loop :: "char32 list \<Rightarrow> nat \<Rightarrow> nat \<Rightarrow> nat \<Rightarrow> nat option" where
  "utf32_length_loop s 0 p ret = Some ret"
| "utf32_length_loop s (Suc k) p ret = do {
    c \<leftarrow> load_at s p;
    utf32_length_loop s k (p + 1) (ret + utf32_codepoint_utf8_length c) }"

definition utf32_to_utf8_length :: "char32 list option \<Rightarrow> nat \<Rightarrow> int option" where
  "utf32_to_utf8_length src src_len = (case src of
      None \<Rightarrow> Some (- 1)
    | Some s \<Rightarrow> if src_len = 0 then Some (- 1) else map_option int (utf32_length_loop s src_len 0 0))"

fun utf32_loop :: "char32 list \<Rightarrow> nat \<Rightarrow> nat \<Rightarrow> byte list \<Rightarrow> nat \<Rightarrow> (byte list \<times> nat) option" where
  "utf32_loop s 0 p d q = Some (d, q)"
| "utf32_loop s (Suc k) p d q = do {
    c \<leftarrow> load_at s p;
    let len = utf32_codepoint_utf8_length c in do {
    d \<leftarrow> utf32_codepoint_to_utf8 d q c len;
    utf32_loop s k (p + 1) d (q + len) } }"

definition utf32_to_utf8 :: "char32 list option \<Rightarrow> nat \<Rightarrow> byte list option \<Rightarrow> byte list option option" where
  "utf32_to_utf8 src src_len dst = (case (src, dst) of
      (Some s, Some d) \<Rightarrow>
        if src_len = 0 then Some dst
        else do { (d, q) \<leftarrow> utf32_loop s src_len 0 d 0; d \<leftarrow> store_at d q 0; Some (Some d) }
    | _ \<Rightarrow> Some dst)"

section \<open>UTF-16\<close>

function strcmp16 :: "char16 list \<Rightarrow> char16 list \<Rightarrow> nat \<Rightarrow> int option" where
  "strcmp16 s1 s2 i = do {
    ch \<leftarrow> load_at s1 i;
    c2 \<leftarrow> load_at s2 i;
    let d = uint ch - uint c2 in
    if d \<noteq> 0 \<or> ch = 0 then Some d else strcmp16 s1 s2 (i + 1) }"
  by pat_completeness auto
termination
  by (relation "measure (\<lambda>(s1, s2, i). length s1 - i)") (auto simp: load_at_def split: if_splits)

declare strcmp16.simps [simp del]

fun strncmp16 :: "char16 list \<Rightarrow> char16 list \<Rightarrow> nat \<Rightarrow> nat \<Rightarrow> int \<Rightarrow> int option" where
  "strncmp16 s1 s2 0 i d = Some d"
| "strncmp16 s1 s2 (Suc n) i d = do {
    ch \<leftarrow> load_at s1 i;
    c2 \<leftarrow> load_at s2 i;
    let d = uint ch - uint c2 in
    if d \<noteq> 0 \<or> ch = 0 then Some d else strncmp16 s1 s2 n (i + 1) d }"

function strcpy16 :: "char16 list \<Rightarrow> char16 list \<Rightarrow> nat \<Rightarrow> char16 list option" where
  "strcpy16 dst src i = do {
    ch \<leftarrow> load_at src i;
    dst \<leftarrow> store_at dst i ch;
    if ch \<noteq> 0 then strcpy16 dst src (i + 1) else Some dst }"
  by pat_completeness auto
termination
  by (relation "measure (\<lambda>(dst, src, i). length src - i)") (auto simp: load_at_def split: if_splits)

declare strcpy16.simps [simp del]

function strlen16 :: "char16 list \<Rightarrow> nat \<Rightarrow> nat option" where
  "strlen16 s i = do { c \<leftarrow> load_at s i; if c \<noteq> 0 then strlen16 s (i + 1) else Some i }"
  by pat_completeness auto
termination
  by (relation "measure (\<lambda>(s, i). length s - i)") (auto simp: load_at_def split: if_splits)

declare strlen16.simps [simp del]

definition as_char :: "bool \<Rightarrow> char16 \<Rightarrow> char16" where
  "as_char sc c = (if sc then scast (ucast c :: byte) else ucast (ucast c :: byte))"

fun strncpy16_loop :: "bool \<Rightarrow> char16 list \<Rightarrow> char16 list \<Rightarrow> nat \<Rightarrow> nat \<Rightarrow> (char16 list \<times> nat) option" where
  "strncpy16_loop sc dst src 0 i = Some (dst, i)"
| "strncpy16_loop sc dst src (Suc n) i = do {
    c \<leftarrow> load_at src i;
    let ch = as_char sc c in do {
    dst \<leftarrow> store_at dst i ch;
    if ch = 0 then Some (dst, i + 1) else strncpy16_loop sc dst src n (i + 1) } }"

definition strncpy16 :: "bool \<Rightarrow> char16 list \<Rightarrow> char16 list \<Rightarrow> nat \<Rightarrow> char16 list option" where
  "strncpy16 sc dst src n = do { (dst, q) \<leftarrow> strncpy16_loop sc dst src n 0; store_at dst q 0 }"

fun strnlen16 :: "char16 list \<Rightarrow> nat \<Rightarrow> nat \<Rightarrow> nat option" where
  "strnlen16 s 0 i = Some i"
| "strnlen16 s (Suc maxlen) i = do { c \<leftarrow> load_at s i; if c \<noteq> 0 then strnlen16 s maxlen (i + 1) else Some i }"

fun strzcmp_loop :: "char16 list \<Rightarrow> char16 list \<Rightarrow> nat \<Rightarrow> nat \<Rightarrow> int option" where
  "strzcmp_loop s1 s2 0 i = Some 0"
| "strzcmp_loop s1 s2 (Suc k) i = do {
    c1 \<leftarrow> load_at s1 i;
    c2 \<leftarrow> load_at s2 i;
    let d = uint c1 - uint c2 in
    if d \<noteq> 0 then Some d else strzcmp_loop s1 s2 k (i + 1) }"

definition strzcmp16 :: "char16 list \<Rightarrow> nat \<Rightarrow> char16 list \<Rightarrow> nat \<Rightarrow> int option" where
  "strzcmp16 s1 n1 s2 n2 = do {
    d \<leftarrow> strzcmp_loop s1 s2 (min n1 n2) 0;
    if d \<noteq> 0 then Some d
    else if n1 < n2 then do { c \<leftarrow> load_at s2 n1; Some (0 - uint c) }
    else if n1 > n2 then do { c \<leftarrow> load_at s1 n2; Some (uint c - 0) }
    else Some 0 }"

definition ntohs16 :: "char16 \<Rightarrow> char16" where
  "ntohs16 c = (push_bit 8 c AND 0xFF00) OR (drop_bit 8 c AND 0xFF)"

fun strzcmp_h_n_loop :: "char16 list \<Rightarrow> char16 list \<Rightarrow> nat \<Rightarrow> nat \<Rightarrow> int option" where
  "strzcmp_h_n_loop s1H s2N 0 i = Some 0"
| "strzcmp_h_n_loop s1H s2N (Suc k) i = do {
    cN \<leftarrow> load_at s2N i;
    let c2 = ntohs16 cN in do {
    c1 \<leftarrow> load_at s1H i;
    let d = uint c1 - uint c2 in
    if d \<noteq> 0 then Some d else strzcmp_h_n_loop s1H s2N k (i + 1) } }"

definition strzcmp16_h_n :: "char16 list \<Rightarrow> nat \<Rightarrow> char16 list \<Rightarrow> nat \<Rightarrow> int option" where
  "strzcmp16_h_n s1H n1 s2N n2 = do {
    d \<leftarrow> strzcmp_h_n_loop s1H s2N (min n1 n2) 0;
    if d \<noteq> 0 then Some d
    else if n1 < n2 then do { c \<leftarrow> load_at s2N n1; Some (0 - uint (ntohs16 c)) }
    else if n1 > n2 then do { c \<leftarrow> load_at s1H n2; Some (uint c - 0) }
    else Some 0 }"

definition utf16_next :: "char16 list \<Rightarrow> nat \<Rightarrow> (char32 \<times> nat) option" where
  "utf16_next src p = do {
    c \<leftarrow> load_at src p;
    if c AND 0xFC00 = 0xD800 then do {
      c2 \<leftarrow> load_at src (p + 1);
      Some ((push_bit 10 (ucast c - 0xD800) OR (ucast c2 - 0xDC00)) + 0x10000, p + 2) }
    else Some (ucast c, p + 1) }"

lemma utf16_next_progress: "utf16_next src p = Some (c, p') \<Longrightarrow> p < p'"
  by (auto simp: utf16_next_def bind_eq_Some_conv split: if_splits)

function utf16_loop :: "char16 list \<Rightarrow> nat \<Rightarrow> byte list \<Rightarrow> nat \<Rightarrow> nat \<Rightarrow> (byte list \<times> nat) option" where
  "utf16_loop src src_len d p q =
    (if p < src_len then do {
       (utf32, p) \<leftarrow> utf16_next src p;
       let len = utf32_codepoint_utf8_length utf32 in do {
       d \<leftarrow> utf32_codepoint_to_utf8 d q utf32 len;
       utf16_loop src src_len d p (q + len) } }
     else Some (d, q))"
  by pat_completeness auto
termination
  by (relation "measure (\<lambda>(src, src_len, d, p, q). src_len - p)") (auto dest!: utf16_next_progress)

declare utf16_loop.simps [simp del]

definition utf16_to_utf8 :: "char16 list option \<Rightarrow> nat \<Rightarrow> byte list option \<Rightarrow> byte list option option" where
  "utf16_to_utf8 src src_len dst = (case (src, dst) of
      (Some s, Some d) \<Rightarrow>
        if src_len = 0 then Some dst
        else do { (d, q) \<leftarrow> utf16_loop s src_len d 0 0; d \<leftarrow> store_at d q 0; Some (Some d) }
    | _ \<Rightarrow> Some dst)"

section \<open>UTF-8\<close>

text \<open>The loop over the bytes of one character; its result is \<open>None\<close> where the code returns \<open>-1\<close>.\<close>

function utf8_length_seq :: "byte list \<Rightarrow> byte \<Rightarrow> char32 \<Rightarrow> char32 \<Rightarrow> nat \<Rightarrow> char32 \<Rightarrow> nat \<Rightarrow>
    (nat \<times> char32 \<times> char32 \<times> char32 \<times> nat) option option" where
  "utf8_length_seq s first msk ign n utf32 cur =
    (if n < 5 \<and> ucast first AND msk \<noteq> 0 then do {
       b \<leftarrow> load_at s cur;
       if b AND 0xC0 \<noteq> 0x80 then Some None
       else utf8_length_seq s first (drop_bit 1 msk) (ign OR msk) (n + 1)
              (push_bit 6 utf32 + (ucast b AND 0x3F)) (cur + 1) }
     else Some (Some (n, msk, ign, utf32, cur)))"
  by pat_completeness auto
termination
  by (relation "measure (\<lambda>(s, first, msk, ign, n, utf32, cur). 5 - n)") auto

declare utf8_length_seq.simps [simp del]

lemma utf8_length_seq_progress:
  "utf8_length_seq s first msk ign n utf32 cur = Some (Some (n', msk', ign', utf32', cur')) \<Longrightarrow> cur \<le> cur'"
proof (induction s first msk ign n utf32 cur rule: utf8_length_seq.induct)
  case (1 s first msk ign n utf32 cur)
  then show ?case
    by (subst (asm) utf8_length_seq.simps) (fastforce simp: bind_eq_Some_conv split: if_splits)
qed

definition utf8_length_char :: "bool \<Rightarrow> byte list \<Rightarrow> byte \<Rightarrow> nat \<Rightarrow> (nat \<times> nat) option option" where
  "utf8_length_char sc s first cur =
    (if first AND 0x80 = 0 then Some (Some (1, cur))
     else if first AND 0x40 = 0 then Some None
     else do {
       r \<leftarrow> utf8_length_seq s first 0x40 0x80 1 0 cur;
       case r of
         None \<Rightarrow> Some None
       | Some (n, msk, ign, utf32, cur) \<Rightarrow>
           if n = 5 then Some None
           else if kUnicodeMaxCodepoint < utf32 OR push_bit (6 * (n - 1)) (NOT (ign OR msk) AND char_val sc first)
           then Some None
           else Some (Some (n, cur)) })"

lemma utf8_length_char_progress:
  assumes "utf8_length_char sc s first cur = Some (Some (n, cur'))"
  shows "cur \<le> cur'"
proof (cases "first AND 0x80 = 0 \<or> first AND 0x40 = 0")
  case True
  then show ?thesis using assms by (auto simp: utf8_length_char_def split: if_splits)
next
  case False
  obtain r where r: "utf8_length_seq s first 0x40 0x80 1 0 cur = Some r"
    using assms False by (cases "utf8_length_seq s first 0x40 0x80 1 0 cur") (auto simp: utf8_length_char_def)
  then show ?thesis using assms False
    by (cases r) (auto simp: utf8_length_char_def dest!: utf8_length_seq_progress split: if_splits)
qed

function utf8_length_loop :: "bool \<Rightarrow> byte list \<Rightarrow> nat \<Rightarrow> nat \<Rightarrow> int option" where
  "utf8_length_loop sc s cur ret = do {
    first \<leftarrow> load_at s cur;
    if first = 0 then Some (int ret)
    else do {
      r \<leftarrow> utf8_length_char sc s first (cur + 1);
      case r of
        None \<Rightarrow> Some (- 1)
      | Some (n, cur') \<Rightarrow> utf8_length_loop sc s cur' (ret + n) } }"
  by pat_completeness auto
termination
  by (relation "measure (\<lambda>(sc, s, cur, ret). length s - cur)")
    (auto simp: load_at_def dest!: utf8_length_char_progress split: if_splits)

declare utf8_length_loop.simps [simp del]

definition utf8_length :: "bool \<Rightarrow> byte list option \<Rightarrow> int option" where
  "utf8_length sc src = do { s \<leftarrow> src; utf8_length_loop sc s 0 0 }"

function utf16_length_loop :: "char16 list \<Rightarrow> nat \<Rightarrow> nat \<Rightarrow> nat \<Rightarrow> nat option" where
  "utf16_length_loop s src_len p ret =
    (if p < src_len then do {
       c \<leftarrow> load_at s p;
       if c AND 0xFC00 = 0xD800 \<and> p + 1 < src_len then do {
         c2 \<leftarrow> load_at s (p + 1);
         if c2 AND 0xFC00 = 0xDC00 then utf16_length_loop s src_len (p + 2) (ret + 4)
         else utf16_length_loop s src_len (p + 2) (ret + utf32_codepoint_utf8_length (ucast c2)) }
       else utf16_length_loop s src_len (p + 1) (ret + utf32_codepoint_utf8_length (ucast c)) }
     else Some ret)"
  by pat_completeness auto
termination
  by (relation "measure (\<lambda>(s, src_len, p, ret). src_len - p)") auto

declare utf16_length_loop.simps [simp del]

definition utf16_to_utf8_length :: "char16 list option \<Rightarrow> nat \<Rightarrow> int option" where
  "utf16_to_utf8_length src src_len = (case src of
      None \<Rightarrow> Some (- 1)
    | Some s \<Rightarrow> if src_len = 0 then Some (- 1) else map_option int (utf16_length_loop s src_len 0 0))"

definition utf8_codepoint_len :: "byte \<Rightarrow> nat" where
  "utf8_codepoint_len ch =
    unat ((drop_bit (unat (drop_bit 3 ch AND 0x1E)) 0xE5000000 AND 3) + 1 :: 32 word)"

definition utf8_shift_and_mask :: "char32 \<Rightarrow> byte \<Rightarrow> char32" where
  "utf8_shift_and_mask codePoint b = push_bit 6 codePoint OR (0x3F AND ucast b)"

function skip_loop :: "byte \<Rightarrow> char32 \<Rightarrow> nat \<Rightarrow> nat" where
  "skip_loop first msk n = (if ucast first AND msk \<noteq> 0 then skip_loop first (drop_bit 1 msk) (n + 1) else n)"
  by pat_completeness auto
termination
  by (relation "measure (\<lambda>(first, msk, n). unat msk)") (auto dest: shift_decreases)

declare skip_loop.simps [simp del]

lemma skip_loop_ge: "n \<le> skip_loop first msk n"
proof (induction first msk n rule: skip_loop.induct)
  case (1 first msk n)
  then show ?case by (subst skip_loop.simps) (auto)
qed

definition num_to_skip :: "byte \<Rightarrow> nat" where
  "num_to_skip first = (if first AND 0x80 = 0 then 1 else skip_loop first 0x40 1)"

lemma num_to_skip_pos [simp]: "0 < num_to_skip first"
  using skip_loop_ge [of 1 first "0x40"] by (auto simp: num_to_skip_def)

function utf8_to_utf32_length_loop :: "byte list \<Rightarrow> nat \<Rightarrow> nat \<Rightarrow> nat \<Rightarrow> nat option" where
  "utf8_to_utf32_length_loop s src_len cur ret =
    (if cur < src_len then do {
       first \<leftarrow> load_at s cur;
       utf8_to_utf32_length_loop s src_len (cur + num_to_skip first) (ret + 1) }
     else Some ret)"
  by pat_completeness auto
termination
  by (relation "measure (\<lambda>(s, src_len, cur, ret). src_len - cur)") (auto intro: diff_less_mono2)

declare utf8_to_utf32_length_loop.simps [simp del]

definition utf8_to_utf32_length :: "byte list option \<Rightarrow> nat \<Rightarrow> nat option" where
  "utf8_to_utf32_length src src_len = (case src of
      None \<Rightarrow> Some 0
    | Some s \<Rightarrow> if src_len = 0 then Some 0 else utf8_to_utf32_length_loop s src_len 0 0)"

lemma at_loop_ge: "at_loop s first msk ign n utf32 cur = Some (n', r) \<Longrightarrow> n \<le> n'"
proof (induction s first msk ign n utf32 cur rule: at_loop.induct)
  case (1 s first msk ign n utf32 cur)
  then show ?case
    by (subst (asm) at_loop.simps) (fastforce simp: bind_eq_Some_conv split: if_splits)
qed

lemma utf32_at_internal_pos: "utf32_at_internal sc s cur = Some (c, n) \<Longrightarrow> 0 < n"
  by (auto simp: utf32_at_internal_def Let_def bind_eq_Some_conv dest!: at_loop_ge split: if_splits)

function utf8_to_utf32_loop :: "bool \<Rightarrow> byte list \<Rightarrow> nat \<Rightarrow> nat \<Rightarrow> char32 list \<Rightarrow> nat \<Rightarrow> (char32 list \<times> nat) option" where
  "utf8_to_utf32_loop sc s src_len cur d q =
    (if cur < src_len then do {
       (c, num_read) \<leftarrow> utf32_at_internal sc s cur;
       d \<leftarrow> store_at d q c;
       utf8_to_utf32_loop sc s src_len (cur + num_read) d (q + 1) }
     else Some (d, q))"
  by pat_completeness auto
termination
  by (relation "measure (\<lambda>(sc, s, src_len, cur, d, q). src_len - cur)")
    (auto dest!: utf32_at_internal_pos intro: diff_less_mono2)

declare utf8_to_utf32_loop.simps [simp del]

definition utf8_to_utf32 :: "bool \<Rightarrow> byte list option \<Rightarrow> nat \<Rightarrow> char32 list option \<Rightarrow> char32 list option option" where
  "utf8_to_utf32 sc src src_len dst = (case (src, dst) of
      (Some s, Some d) \<Rightarrow>
        if src_len = 0 then Some dst
        else do { (d, q) \<leftarrow> utf8_to_utf32_loop sc s src_len 0 d 0; d \<leftarrow> store_at d q 0; Some (Some d) }
    | _ \<Rightarrow> Some dst)"

definition utf8_to_utf32_codepoint :: "byte list \<Rightarrow> nat \<Rightarrow> nat \<Rightarrow> char32 option" where
  "utf8_to_utf32_codepoint s p len =
    (if len = 1 then do { b0 \<leftarrow> load_at s p; Some (ucast b0) }
     else if len = 2 then do {
       b0 \<leftarrow> load_at s p; b1 \<leftarrow> load_at s (p + 1);
       Some (utf8_shift_and_mask (ucast b0 AND 0x1F) b1) }
     else if len = 3 then do {
       b0 \<leftarrow> load_at s p; b1 \<leftarrow> load_at s (p + 1); b2 \<leftarrow> load_at s (p + 2);
       Some (utf8_shift_and_mask (utf8_shift_and_mask (ucast b0 AND 0x0F) b1) b2) }
     else if len = 4 then do {
       b0 \<leftarrow> load_at s p; b1 \<leftarrow> load_at s (p + 1); b2 \<leftarrow> load_at s (p + 2); b3 \<leftarrow> load_at s (p + 3);
       Some (utf8_shift_and_mask (utf8_shift_and_mask (utf8_shift_and_mask (ucast b0 AND 0x07) b1) b2) b3) }
     else Some 0xFFFF)"

lemma utf8_codepoint_len_pos [simp]: "0 < utf8_codepoint_len b"
proof -
  have "(x AND 3) + 1 \<noteq> 0" for x :: char32
  proof
    assume "(x AND 3) + 1 = 0"
    then have "bit ((x AND 3) + 1 + (- 1)) 31" by simp
    then show False by (simp add: bit_simps bit_numeral_rec)
  qed
  then show ?thesis by (simp add: utf8_codepoint_len_def unat_gt_0)
qed

function utf8_to_utf16_length_loop :: "byte list \<Rightarrow> nat \<Rightarrow> nat \<Rightarrow> nat \<Rightarrow> (nat \<times> nat) option" where
  "utf8_to_utf16_length_loop s u8len cur measured =
    (if cur < u8len then do {
       let measured = measured + 1 in do {
       b \<leftarrow> load_at s cur;
       let u8charLen = utf8_codepoint_len b in do {
       codepoint \<leftarrow> utf8_to_utf32_codepoint s cur u8charLen;
       let measured = (if 0xFFFF < codepoint then measured + 1 else measured) in
       utf8_to_utf16_length_loop s u8len (cur + u8charLen) measured } } }
     else Some (cur, measured))"
  by pat_completeness auto
termination
  by (relation "measure (\<lambda>(s, u8len, cur, measured). u8len - cur)") (auto intro: diff_less_mono2)

declare utf8_to_utf16_length_loop.simps [simp del]

definition utf8_to_utf16_length :: "byte list \<Rightarrow> nat \<Rightarrow> int option" where
  "utf8_to_utf16_length s u8len = do {
    (cur, measured) \<leftarrow> utf8_to_utf16_length_loop s u8len 0 0;
    if cur \<noteq> u8len then Some (- 1) else Some (int measured) }"

definition store_utf16 :: "char16 list \<Rightarrow> nat \<Rightarrow> char32 \<Rightarrow> (char16 list \<times> nat) option" where
  "store_utf16 d q codepoint =
    (if codepoint \<le> 0xFFFF then do { d \<leftarrow> store_at d q (ucast codepoint); Some (d, q + 1) }
     else let codepoint = codepoint - 0x10000 in do {
       d \<leftarrow> store_at d q (ucast (drop_bit 10 codepoint + 0xD800));
       d \<leftarrow> store_at d (q + 1) (ucast ((codepoint AND 0x3FF) + 0xDC00));
       Some (d, q + 2) })"

function utf8_to_utf16_loop :: "byte list \<Rightarrow> nat \<Rightarrow> nat \<Rightarrow> char16 list \<Rightarrow> nat \<Rightarrow> (char16 list \<times> nat) option" where
  "utf8_to_utf16_loop s u8len cur d q =
    (if cur < u8len then do {
       b \<leftarrow> load_at s cur;
       let len = utf8_codepoint_len b in do {
       codepoint \<leftarrow> utf8_to_utf32_codepoint s cur len;
       (d, q) \<leftarrow> store_utf16 d q codepoint;
       utf8_to_utf16_loop s u8len (cur + len) d q } }
     else Some (d, q))"
  by pat_completeness auto
termination
  by (relation "measure (\<lambda>(s, u8len, cur, d, q). u8len - cur)") (auto intro: diff_less_mono2)

declare utf8_to_utf16_loop.simps [simp del]

definition utf8_to_utf16_no_null_terminator :: "byte list \<Rightarrow> nat \<Rightarrow> char16 list \<Rightarrow> (char16 list \<times> nat) option" where
  "utf8_to_utf16_no_null_terminator u8str u8len u16str = utf8_to_utf16_loop u8str u8len 0 u16str 0"

definition utf8_to_utf16 :: "byte list \<Rightarrow> nat \<Rightarrow> char16 list \<Rightarrow> char16 list option" where
  "utf8_to_utf16 u8str u8len u16str = do {
    (u16str, q) \<leftarrow> utf8_to_utf16_no_null_terminator u8str u8len u16str;
    store_at u16str q 0 }"

end
