(* ===== verification/Unicode_Chars.thy ===== *)
theory Unicode_Chars
  imports Unicode Words
begin

unbundle bit_operations_syntax

text \<open>
  The Unicode standard's encodings of one code point, stated with division and remainder on
  natural numbers, and the conversions of one character against them.
\<close>

section \<open>The encodings of a code point\<close>

definition scalar :: "char32 \<Rightarrow> bool" where
  "scalar c \<longleftrightarrow> c < 0xD800 \<or> 0xE000 \<le> c \<and> c \<le> 0x10FFFF"

definition utf8_enc :: "char32 \<Rightarrow> byte list" where
  "utf8_enc c = (let n = unat c in
     map word_of_nat
       (if \<not> scalar c then []
        else if n < 0x80 then [n]
        else if n < 0x800 then [0xC0 + n div 64, 0x80 + n mod 64]
        else if n < 0x10000 then [0xE0 + n div 4096, 0x80 + n div 64 mod 64, 0x80 + n mod 64]
        else [0xF0 + n div 262144, 0x80 + n div 4096 mod 64, 0x80 + n div 64 mod 64, 0x80 + n mod 64]))"

definition utf16_enc :: "char32 \<Rightarrow> char16 list" where
  "utf16_enc c = (let n = unat c in
     map word_of_nat
       (if n < 0x10000 then [n]
        else [0xD800 + (n - 0x10000) div 1024, 0xDC00 + (n - 0x10000) mod 1024]))"

section \<open>Words as numbers\<close>

named_theorems word_nat \<open>the number of a word built with the operations of the code\<close>

lemma unat_cast8 [word_nat]: "unat (ucast c :: byte) = unat c mod 256" for c :: char32
  by (simp add: unsigned_ucast_eq take_bit_eq_mod)

lemma unat_cast16 [word_nat]: "unat (ucast c :: char16) = unat c mod 65536" for c :: char32
  by (simp add: unsigned_ucast_eq take_bit_eq_mod)

lemma unat_wide8 [word_nat, simp]: "unat (ucast b :: char32) = unat b" for b :: byte
  using unsigned_less [of b, where ?'a = nat] by (simp add: unsigned_ucast_eq take_bit_nat_eq_self)

lemma unat_wide16 [word_nat]: "unat (ucast b :: char32) = unat b" for b :: char16
  using unsigned_less [of b, where ?'a = nat] by (simp add: unsigned_ucast_eq take_bit_nat_eq_self)

lemma unat_low [word_nat]: "unat (c AND mask k) = unat c mod 2 ^ k" for c :: "'a :: len word"
  by (simp only: take_bit_eq_mask [symmetric] unsigned_take_bit_eq) (simp add: take_bit_eq_mod)

lemma unat_shift [word_nat]: "unat (drop_bit k c) = unat c div 2 ^ k" for c :: "'a :: len word"
  by (simp only: unat_drop_bit_eq) (simp add: drop_bit_eq_div)

lemma unat_or_disjoint: "c AND d = 0 \<Longrightarrow> unat (c OR d) = unat c + unat d" for c d :: "'a :: len word"
  by (metis disjunctive_add_eq_or unsigned_0 unsigned_and_eq unsigned_or_eq)

lemma unat_join:
  fixes c d :: "'a :: len word"
  assumes "unat c * 2 ^ j < 2 ^ LENGTH('a)" and "unat d < 2 ^ j"
  shows "unat (push_bit j c OR d) = unat c * 2 ^ j + unat d"
proof -
  have "push_bit j c AND d = 0"
  proof (rule bit_word_eqI)
    fix i
    have "\<not> bit d i" if "j \<le> i"
    proof -
      have "take_bit j d = d" using assms(2) by (intro word_unat_eq_iff [THEN iffD2]) (simp add: unsigned_take_bit_eq take_bit_nat_eq_self)
      then show ?thesis using that by (metis bit_take_bit_iff not_less)
    qed
    then show "bit (push_bit j c AND d) i \<longleftrightarrow> bit (0 :: 'a word) i"
      by (auto simp: bit_simps)
  qed
  moreover have "unat (push_bit j c) = unat c * 2 ^ j"
    using assms(1) by (simp only: unsigned_push_bit_eq) (simp add: push_bit_eq_mult take_bit_nat_eq_self)
  ultimately show ?thesis by (simp add: unat_or_disjoint)
qed

lemma tail_byte: "(c OR kByteMark) AND kByteMask = 0x80 OR (c AND mask 6)"
proof -
  have m: "kByteMask = push_bit 7 1 OR mask 6" and k: "kByteMark = push_bit 7 1" and e: "(0x80 :: char32) = push_bit 7 1"
    by (simp_all add: kByteMask_def kByteMark_def mask_eq_exp_minus_1)
  show ?thesis unfolding m k e by (rule bit_word_eqI) (auto simp: bit_simps)
qed

lemma unat_tail_byte [word_nat]: "unat ((c OR kByteMark) AND kByteMask) = 0x80 + unat c mod 64"
proof -
  have "unat (push_bit 7 1 OR (c AND mask 6)) = unat (1 :: char32) * 2 ^ 7 + unat (c AND mask 6)"
    by (rule unat_join) (simp_all add: unat_low)
  then show ?thesis by (simp add: tail_byte unat_low)
qed

lemma cast_number: "ucast c = (word_of_nat (unat c) :: byte)" for c :: char32
  by (rule word_unat_eq_iff [THEN iffD2]) (simp add: unsigned_of_nat unsigned_ucast_eq)

lemma lead_byte:
  fixes c :: char32
  assumes "unat c < 2 ^ j" and "m * 2 ^ j < 256"
  shows "ucast (c OR word_of_nat (m * 2 ^ j)) = (word_of_nat (m * 2 ^ j + unat c) :: byte)"
proof -
  have "m \<le> m * 2 ^ j" by simp
  from this assms(2) have "m < 256" by (rule le_less_trans)
  then have m: "unat (word_of_nat m :: char32) = m"
    by (simp add: unsigned_of_nat take_bit_nat_eq_self)
  have "c OR word_of_nat (m * 2 ^ j) = push_bit j (word_of_nat m) OR c"
    by (simp add: push_bit_eq_mult or.commute)
  moreover have "unat (push_bit j (word_of_nat m) OR c) = unat (word_of_nat m :: char32) * 2 ^ j + unat c"
    by (rule unat_join) (use assms m in simp_all)
  ultimately show ?thesis unfolding cast_number m by simp
qed

section \<open>Writing a character\<close>

lemma scalar_bound: "scalar c \<Longrightarrow> unat c < 0x110000"
  by (auto simp: scalar_def word_less_nat_alt word_le_nat_alt)

lemma codepoint_length: "utf32_codepoint_utf8_length c = length (utf8_enc c)"
  by (auto simp: utf32_codepoint_utf8_length_def utf8_enc_def scalar_def Let_def word_less_nat_alt word_le_nat_alt
      kUnicodeSurrogateStart_def kUnicodeSurrogateEnd_def kUnicodeMaxCodepoint_def)

lemma put_tail: "0 < q \<Longrightarrow> put_tail_byte (d, q, c) =
    put_at d (q - 1) [word_of_nat (0x80 + unat c mod 64)] \<bind> (\<lambda>d. Some (d, q - 1, drop_bit 6 c))"
  by (simp add: put_tail_byte_def store_at_put cast_number unat_tail_byte)

lemma put_before: "put_at d (Suc q) ys \<bind> (\<lambda>d. put_at d q [x]) = put_at d q (x # ys)"
  using put_at_prepend [of d q "[x]" ys] by simp

lemma put_before2: "put_at d (Suc (Suc q)) ys \<bind> (\<lambda>d. put_at d q [x, y]) = put_at d q (x # y # ys)"
  using put_at_prepend [of d q "[x, y]" ys] by simp

lemma put_before3: "put_at d (Suc (Suc (Suc q))) ys \<bind> (\<lambda>d. put_at d q [x, y, z]) = put_at d q (x # y # z # ys)"
  using put_at_prepend [of d q "[x, y, z]" ys] by simp

lemma put_before_then: "put_at d (Suc q) ys \<bind> (\<lambda>d. put_at d q [x] \<bind> f) = put_at d q (x # ys) \<bind> f"
  by (simp only: put_before [of d q ys x, symmetric] Option.bind_assoc)

lemma marks: "kFirstByteMark ! 2 = word_of_nat (6 * 2 ^ 5)" "kFirstByteMark ! 3 = word_of_nat (14 * 2 ^ 4)"
    "kFirstByteMark ! 4 = word_of_nat (30 * 2 ^ 3)" "kFirstByteMark ! Suc 0 = 0"
  by (simp_all add: kFirstByteMark_def)

lemma codepoint_split:
  obtains "unat c < 0x80" | "0x80 \<le> unat c" "unat c < 0x800" | "0x800 \<le> unat c" "unat c < 0x10000" "scalar c"
    | "0x10000 \<le> unat c" "scalar c" | "\<not> scalar c" "0x800 \<le> unat c"
  by (meson not_le)

lemma enc1: "unat c < 0x80 \<Longrightarrow> utf8_enc c = [word_of_nat (unat c)]"
  by (simp add: utf8_enc_def scalar_def word_less_nat_alt Let_def)

lemma enc2: "0x80 \<le> unat c \<Longrightarrow> unat c < 0x800 \<Longrightarrow>
    utf8_enc c = map word_of_nat [0xC0 + unat c div 64, 0x80 + unat c mod 64]"
  by (simp add: utf8_enc_def scalar_def word_less_nat_alt Let_def)

lemma enc3: "0x800 \<le> unat c \<Longrightarrow> unat c < 0x10000 \<Longrightarrow> scalar c \<Longrightarrow>
    utf8_enc c = map word_of_nat [0xE0 + unat c div 4096, 0x80 + unat c div 64 mod 64, 0x80 + unat c mod 64]"
  by (simp add: utf8_enc_def Let_def)

lemma enc4: "0x10000 \<le> unat c \<Longrightarrow> scalar c \<Longrightarrow>
    utf8_enc c = map word_of_nat [0xF0 + unat c div 262144, 0x80 + unat c div 4096 mod 64,
        0x80 + unat c div 64 mod 64, 0x80 + unat c mod 64]"
  by (simp add: utf8_enc_def Let_def)

lemma write1: "utf32_codepoint_to_utf8 d q c 1 = put_at d q [ucast c]"
  by (simp add: utf32_codepoint_to_utf8_def store_at_put marks)

lemma write2: "utf32_codepoint_to_utf8 d q c 2 =
    put_at d q [ucast (drop_bit 6 c OR kFirstByteMark ! 2), word_of_nat (0x80 + unat c mod 64)]"
  by (simp add: utf32_codepoint_to_utf8_def store_at_put put_tail put_before)

lemma write3: "utf32_codepoint_to_utf8 d q c 3 =
    put_at d q [ucast (drop_bit 12 c OR kFirstByteMark ! 3), word_of_nat (0x80 + unat c div 64 mod 64),
      word_of_nat (0x80 + unat c mod 64)]"
  by (simp add: utf32_codepoint_to_utf8_def store_at_put put_tail put_before put_before2 put_before_then unat_shift)

lemma write4: "utf32_codepoint_to_utf8 d q c 4 =
    put_at d q [ucast (drop_bit 18 c OR kFirstByteMark ! 4), word_of_nat (0x80 + unat c div 4096 mod 64),
      word_of_nat (0x80 + unat c div 64 mod 64), word_of_nat (0x80 + unat c mod 64)]"
  by (simp add: utf32_codepoint_to_utf8_def store_at_put put_tail put_before put_before2 put_before3 put_before_then unat_shift
      numeral_3_eq_3 div_mult2_eq [symmetric])

lemma lead2:
  assumes "unat c < 0x800"
  shows "ucast (drop_bit 6 c OR kFirstByteMark ! 2) = (word_of_nat (0xC0 + unat c div 64) :: byte)"
proof -
  have "unat (drop_bit 6 c) < 2 ^ 5" using assms by (simp add: unat_shift)
  then have "ucast (drop_bit 6 c OR word_of_nat (6 * 2 ^ 5)) = (word_of_nat (6 * 2 ^ 5 + unat (drop_bit 6 c)) :: byte)"
    by (rule lead_byte) simp
  moreover have "(6 * 2 ^ 5 :: nat) = 0xC0" "unat (drop_bit 6 c) = unat c div 64" by (simp_all add: unat_shift)
  ultimately show ?thesis by (simp only: marks)
qed

lemma lead3:
  assumes "unat c < 0x10000"
  shows "ucast (drop_bit 12 c OR kFirstByteMark ! 3) = (word_of_nat (0xE0 + unat c div 4096) :: byte)"
proof -
  have "unat (drop_bit 12 c) < 2 ^ 4" using assms by (simp add: unat_shift)
  then have "ucast (drop_bit 12 c OR word_of_nat (14 * 2 ^ 4)) = (word_of_nat (14 * 2 ^ 4 + unat (drop_bit 12 c)) :: byte)"
    by (rule lead_byte) simp
  moreover have "(14 * 2 ^ 4 :: nat) = 0xE0" "unat (drop_bit 12 c) = unat c div 4096" by (simp_all add: unat_shift)
  ultimately show ?thesis by (simp only: marks)
qed

lemma lead4:
  assumes "unat c < 0x200000"
  shows "ucast (drop_bit 18 c OR kFirstByteMark ! 4) = (word_of_nat (0xF0 + unat c div 262144) :: byte)"
proof -
  have "unat (drop_bit 18 c) < 2 ^ 3" using assms by (simp add: unat_shift)
  then have "ucast (drop_bit 18 c OR word_of_nat (30 * 2 ^ 3)) = (word_of_nat (30 * 2 ^ 3 + unat (drop_bit 18 c)) :: byte)"
    by (rule lead_byte) simp
  moreover have "(30 * 2 ^ 3 :: nat) = 0xF0" "unat (drop_bit 18 c) = unat c div 262144" by (simp_all add: unat_shift)
  ultimately show ?thesis by (simp only: marks)
qed

text \<open>Writing a character stores exactly its encoding, and nothing for an invalid one.\<close>

lemma codepoint_to_utf8:
  assumes "q \<le> length d"
  shows "utf32_codepoint_to_utf8 d q c (utf32_codepoint_utf8_length c) = put_at d q (utf8_enc c)"
proof (rule codepoint_split [of c])
  assume c: "unat c < 0x80"
  then have "utf32_codepoint_utf8_length c = 1" by (simp add: codepoint_length enc1)
  then show ?thesis using c by (simp only: write1 enc1 cast_number)
next
  assume c: "0x80 \<le> unat c" "unat c < 0x800"
  then have "utf32_codepoint_utf8_length c = 2" by (simp add: codepoint_length enc2)
  then show ?thesis by (simp only: write2 enc2 [OF c] lead2 [OF c(2)] list.map)
next
  assume c: "0x800 \<le> unat c" "unat c < 0x10000" "scalar c"
  then have "utf32_codepoint_utf8_length c = 3" by (simp add: codepoint_length enc3)
  then show ?thesis by (simp only: write3 enc3 [OF c] lead3 [OF c(2)] list.map)
next
  assume c: "0x10000 \<le> unat c" "scalar c"
  then have "utf32_codepoint_utf8_length c = 4" by (simp add: codepoint_length enc4)
  moreover have "unat c < 0x200000" using scalar_bound [OF c(2)] by simp
  ultimately show ?thesis by (simp only: write4 enc4 [OF c] lead4 list.map)
next
  assume "\<not> scalar c"
  then have "utf8_enc c = []" by (simp add: utf8_enc_def)
  then show ?thesis using assms by (simp add: codepoint_length utf32_codepoint_to_utf8_def put_at_Nil)
qed

unbundle bit_operations_syntax

text \<open>Reading back one encoded character, with each of the readers of the file.\<close>

section \<open>Length of a character from its first byte\<close>

lemma table_index: "unat (drop_bit 3 b AND 0x1E) = 2 * (unat b div 16)" for b :: byte
proof -
  have m: "(0x1E :: byte) = push_bit 1 (mask 4)" by (simp add: mask_eq_exp_minus_1)
  have "drop_bit 3 b AND 0x1E = push_bit 1 (drop_bit 4 b)"
    unfolding m
    by (rule bit_word_eqI, simp only: bit_and_iff bit_drop_bit_eq bit_push_bit_iff bit_mask_iff o_apply)
      (auto simp: Suc_diff_Suc dest: bit_imp_le_length)
  moreover have "unat (push_bit 1 (drop_bit 4 b)) = 2 * (unat b div 16)"
  proof -
    have "unat b div 16 < 16" using unsigned_less [of b, where ?'a = nat] by simp
    then show ?thesis
      by (simp only: unsigned_push_bit_eq unat_shift) (simp add: push_bit_eq_mult take_bit_nat_eq_self)
  qed
  ultimately show ?thesis by simp
qed

lemma codepoint_len_table: "utf8_codepoint_len b =
  (if unat b < 0xC0 then 1 else if unat b < 0xE0 then 2 else if unat b < 0xF0 then 3 else 4)"
proof -
  define k where "k = unat b div 16"
  have "k < 16" using unsigned_less [of b, where ?'a = nat] by (simp add: k_def)
  then have k: "k \<in> {0, 1, 2, 3, 4, 5, 6, 7, 8, 9, 10, 11, 12, 13, 14, 15}" by (simp add: numeral_eq_Suc less_Suc_eq)
  have "unat b < 0xC0 \<longleftrightarrow> k < 12" "unat b < 0xE0 \<longleftrightarrow> k < 14" "unat b < 0xF0 \<longleftrightarrow> k < 15"
    by (simp_all add: k_def div_less_iff_less_mult)
  moreover have "utf8_codepoint_len b = unat ((drop_bit (2 * k) 0xE5000000 AND 3) + 1 :: 32 word)"
    by (simp add: utf8_codepoint_len_def table_index k_def)
  ultimately show ?thesis using k by (elim insertE emptyE) simp_all
qed

section \<open>\<open>utf8_to_utf32_codepoint\<close>\<close>

lemma unat_shift_and_mask:
  assumes "unat u < 2 ^ 26"
  shows "unat (utf8_shift_and_mask u b) = unat u * 64 + unat b mod 64"
proof -
  have m: "(0x3F :: char32) = mask 6" by (simp add: mask_eq_exp_minus_1)
  have b: "unat (ucast b AND mask 6 :: char32) = unat b mod 64" by (simp add: unat_low)
  have "unat (push_bit 6 u OR (ucast b AND mask 6)) = unat u * 2 ^ 6 + unat (ucast b AND mask 6 :: char32)"
    by (rule unat_join) (use assms b in simp_all)
  then show ?thesis unfolding utf8_shift_and_mask_def m b by (simp add: and.commute)
qed

lemma unat_lead_bits: "unat (ucast b AND 0x1F :: char32) = unat b mod 32" "unat (ucast b AND 0xF :: char32) = unat b mod 16"
  "unat (ucast b AND 7 :: char32) = unat b mod 8" for b :: byte
proof -
  have "(0x1F :: char32) = mask 5" "(0xF :: char32) = mask 4" "(7 :: char32) = mask 3"
    by (simp_all add: mask_eq_exp_minus_1)
  then show "unat (ucast b AND 0x1F :: char32) = unat b mod 32" "unat (ucast b AND 0xF :: char32) = unat b mod 16"
    "unat (ucast b AND 7 :: char32) = unat b mod 8"
    by (simp_all only: unat_low unat_wide8) simp_all
qed

lemma codepoint_at_drop: "utf8_to_utf32_codepoint s p len = utf8_to_utf32_codepoint (drop p s) 0 len"
  by (simp add: utf8_to_utf32_codepoint_def load_at_0 [of s p] load_at_drop [of s p 1, simplified]
      load_at_drop [of s p 2, simplified] load_at_drop [of s p 3] numeral_2_eq_2)

lemma digits2: "n div 64 * 64 + n mod 64 = n" for n :: nat
  by (rule div_mult_mod_eq)

lemma digits3: "n div 4096 * 4096 + n div 64 mod 64 * 64 + n mod 64 = n" for n :: nat
proof -
  have "n div 64 div 64 * 64 + n div 64 mod 64 = n div 64" by (rule digits2)
  then have "n div 4096 * 64 + n div 64 mod 64 = n div 64" by (simp add: div_mult2_eq [symmetric])
  with digits2 [of n] show ?thesis by linarith
qed

lemma digits_four: "n div 262144 * 262144 + n div 4096 mod 64 * 4096 + n div 64 mod 64 * 64 + n mod 64 = n" for n :: nat
proof -
  have "n div 64 div 4096 * 4096 + n div 64 div 64 mod 64 * 64 + n div 64 mod 64 = n div 64" by (rule digits3)
  then have "n div 262144 * 4096 + n div 4096 mod 64 * 64 + n div 64 mod 64 = n div 64"
    by (simp add: div_mult2_eq [symmetric])
  with digits2 [of n] show ?thesis by linarith
qed

lemma codepoint_value2: "unat (utf8_shift_and_mask (ucast b0 AND 0x1F) b1) = unat b0 mod 32 * 64 + unat b1 mod 64"
  for b0 :: byte
proof -
  have "unat (ucast b0 AND 0x1F :: char32) < 2 ^ 26"
    unfolding unat_lead_bits by (rule less_trans [OF mod_less_divisor]) simp_all
  then show ?thesis by (simp only: unat_shift_and_mask unat_lead_bits)
qed

lemma codepoint_value3: "unat (utf8_shift_and_mask (utf8_shift_and_mask (ucast b0 AND 0xF) b1) b2) =
    unat b0 mod 16 * 4096 + unat b1 mod 64 * 64 + unat b2 mod 64"
  for b0 :: byte
proof -
  have m: "unat b0 mod 16 < 16" "unat b1 mod 64 < 64" by simp_all
  have "unat (ucast b0 AND 0xF :: char32) < 2 ^ 26" unfolding unat_lead_bits using m by simp
  then have "unat (utf8_shift_and_mask (ucast b0 AND 0xF) b1) = unat b0 mod 16 * 64 + unat b1 mod 64"
    by (simp only: unat_shift_and_mask unat_lead_bits)
  moreover from this have "unat (utf8_shift_and_mask (ucast b0 AND 0xF) b1) < 2 ^ 26" using m by simp
  ultimately show ?thesis by (simp only: unat_shift_and_mask) simp
qed

lemma codepoint_value4:
  "unat (utf8_shift_and_mask (utf8_shift_and_mask (utf8_shift_and_mask (ucast b0 AND 7) b1) b2) b3) =
    unat b0 mod 8 * 262144 + unat b1 mod 64 * 4096 + unat b2 mod 64 * 64 + unat b3 mod 64"
  for b0 :: byte
proof -
  have m: "unat b0 mod 8 < 8" "unat b1 mod 64 < 64" "unat b2 mod 64 < 64" by simp_all
  have "unat (ucast b0 AND 7 :: char32) < 2 ^ 26" unfolding unat_lead_bits using m by simp
  then have "unat (utf8_shift_and_mask (ucast b0 AND 7) b1) = unat b0 mod 8 * 64 + unat b1 mod 64"
    by (simp only: unat_shift_and_mask unat_lead_bits)
  moreover from this have "unat (utf8_shift_and_mask (ucast b0 AND 7) b1) < 2 ^ 26" using m by simp
  ultimately have "unat (utf8_shift_and_mask (utf8_shift_and_mask (ucast b0 AND 7) b1) b2) =
      unat b0 mod 8 * 4096 + unat b1 mod 64 * 64 + unat b2 mod 64"
    by (simp only: unat_shift_and_mask) simp
  moreover from this have "unat (utf8_shift_and_mask (utf8_shift_and_mask (ucast b0 AND 7) b1) b2) < 2 ^ 26"
    using m by simp
  ultimately show ?thesis by (simp only: unat_shift_and_mask) simp
qed

lemma tail_number: "unat (word_of_nat (0x80 + n mod 64) :: byte) mod 64 = n mod 64"
proof -
  have lt: "n mod 64 < 64" by simp
  have "unat (word_of_nat (0x80 + n mod 64) :: byte) = 0x80 + n mod 64"
    unfolding unat_byte by (rule mod_less) (use lt in linarith)
  also have "\<dots> = n mod 64 + 2 * 64" by simp
  finally show ?thesis by (simp only: mod_mult_self1 mod_mod_trivial)
qed

lemma lead_number:
  "n < 32 \<Longrightarrow> unat (word_of_nat (0xC0 + n) :: byte) = 0xC0 + n"
  "n < 16 \<Longrightarrow> unat (word_of_nat (0xE0 + n) :: byte) = 0xE0 + n"
  "n < 8 \<Longrightarrow> unat (word_of_nat (0xF0 + n) :: byte) = 0xF0 + n"
  by (simp_all only: unat_byte) simp_all

lemma lead_digit:
  "n < 32 \<Longrightarrow> unat (word_of_nat (0xC0 + n) :: byte) mod 32 = n"
  "n < 16 \<Longrightarrow> unat (word_of_nat (0xE0 + n) :: byte) mod 16 = n"
  "n < 8 \<Longrightarrow> unat (word_of_nat (0xF0 + n) :: byte) mod 8 = n"
  using mod_mult_self1 [of n 6 32] mod_mult_self1 [of n 14 16] mod_mult_self1 [of n 30 8]
  by (simp_all only: lead_number) (simp_all add: add.commute)

lemma decode_codepoint:
  assumes "scalar c" and "drop p s = utf8_enc c @ r"
  shows "utf8_to_utf32_codepoint s p (length (utf8_enc c)) = Some c"
proof -
  have "utf8_to_utf32_codepoint (utf8_enc c @ r) 0 (length (utf8_enc c)) = Some c"
  proof (rule codepoint_split [of c])
    assume c: "unat c < 0x80"
    then show ?thesis
      by (simp add: enc1 utf8_to_utf32_codepoint_def word_unat_eq_iff unat_cast8)
  next
    assume c: "0x80 \<le> unat c" "unat c < 0x800"
    then have "unat c div 64 < 32" by simp
    then have "utf8_shift_and_mask (ucast (word_of_nat (0xC0 + unat c div 64) :: byte) AND 0x1F)
        (word_of_nat (0x80 + unat c mod 64)) = c"
      by (simp only: word_unat_eq_iff codepoint_value2 lead_digit tail_number digits2)
    then show ?thesis
      by (simp add: enc2 [OF c] utf8_to_utf32_codepoint_def del: of_nat_add)
  next
    assume c: "0x800 \<le> unat c" "unat c < 0x10000" "scalar c"
    then have "unat c div 4096 < 16" by simp
    then have "utf8_shift_and_mask (utf8_shift_and_mask (ucast (word_of_nat (0xE0 + unat c div 4096) :: byte) AND 0xF)
        (word_of_nat (0x80 + unat c div 64 mod 64))) (word_of_nat (0x80 + unat c mod 64)) = c"
      by (simp only: word_unat_eq_iff codepoint_value3 lead_digit tail_number digits3)
    then show ?thesis
      by (simp add: enc3 [OF c] utf8_to_utf32_codepoint_def del: of_nat_add)
  next
    assume c: "0x10000 \<le> unat c" "scalar c"
    then have "unat c div 262144 < 8" using scalar_bound [OF c(2)] by simp
    then have "utf8_shift_and_mask (utf8_shift_and_mask (utf8_shift_and_mask
        (ucast (word_of_nat (0xF0 + unat c div 262144) :: byte) AND 7)
        (word_of_nat (0x80 + unat c div 4096 mod 64))) (word_of_nat (0x80 + unat c div 64 mod 64)))
        (word_of_nat (0x80 + unat c mod 64)) = c"
      by (simp only: word_unat_eq_iff codepoint_value4 lead_digit tail_number digits_four)
    then show ?thesis
      by (simp add: enc4 [OF c] utf8_to_utf32_codepoint_def del: of_nat_add)
  next
    assume "\<not> scalar c" then show ?thesis using assms(1) by simp
  qed
  then show ?thesis by (simp add: codepoint_at_drop [of s] assms(2))
qed

unbundle bit_operations_syntax

text \<open>
  The readers that walk the leading ones of the first byte: \<^verbatim>\<open>utf32_at_internal\<close>,
  \<^verbatim>\<open>utf8_length\<close> and \<^verbatim>\<open>utf8_to_utf32_length\<close> on an encoded character.
\<close>

section \<open>The bits of the first byte\<close>

lemma single_bit: "w AND 2 ^ i \<noteq> 0 \<longleftrightarrow> odd (unat w div 2 ^ i)" if "i < LENGTH('a)" for w :: "'a :: len word"
proof -
  have "w AND 2 ^ i \<noteq> 0 \<longleftrightarrow> bit w i"
    using that by (auto simp: and_exp_eq_0_iff_not_bit)
  also have "\<dots> \<longleftrightarrow> bit (unat w) i"
    using that by (simp add: bit_unsigned_iff)
  finally show ?thesis by (simp add: bit_iff_odd)
qed

lemma char_val_bits: "i < 8 \<Longrightarrow> bit (char_val sc b) i \<longleftrightarrow> bit b i"
  by (cases "i = 7") (auto simp: char_val_def bit_simps min_def)

lemma char_val_mod: "k \<le> 8 \<Longrightarrow> unat (char_val sc b) mod 2 ^ k = unat b mod 2 ^ k"
proof -
  assume "k \<le> 8"
  then have "take_bit k (char_val sc b) = take_bit k (ucast b)"
    by (intro bit_word_eqI) (auto simp: bit_take_bit_iff char_val_bits, auto simp: bit_simps)
  then have "unat (take_bit k (char_val sc b)) = unat (take_bit k (ucast b :: char32))" by simp
  then show ?thesis by (simp only: unsigned_take_bit_eq unat_wide8) (simp add: take_bit_eq_mod)
qed

lemma char_val_bit: "i < 8 \<Longrightarrow> char_val sc b AND 2 ^ i \<noteq> 0 \<longleftrightarrow> odd (unat b div 2 ^ i)"
proof -
  assume i: "i < 8"
  have "char_val sc b AND 2 ^ i \<noteq> 0 \<longleftrightarrow> bit (char_val sc b) i"
    using i by (auto simp: and_exp_eq_0_iff_not_bit)
  also have "\<dots> \<longleftrightarrow> bit b i" using i by (rule char_val_bits)
  also have "\<dots> \<longleftrightarrow> b AND 2 ^ i \<noteq> 0" using i by (auto simp: and_exp_eq_0_iff_not_bit)
  finally show ?thesis using i by (simp add: single_bit)
qed

lemma shift_add_mod:
  fixes b :: byte
  assumes "k + 6 \<le> 32"
  shows "unat (push_bit 6 u + (ucast b AND 0x3F) :: char32) mod 2 ^ (k + 6) = (unat u mod 2 ^ k) * 64 + unat b mod 64"
    (is "?l mod _ = _")
proof -
  have "(0x3F :: char32) = mask 6" by (simp add: mask_eq_exp_minus_1)
  then have b: "unat (ucast b AND 0x3F :: char32) = unat b mod 64" by (simp only: unat_low unat_wide8) simp
  have "?l = (unat u * 64 + unat b mod 64) mod 2 ^ 32"
    by (simp only: unat_word_ariths(1) unsigned_push_bit_eq b) (simp add: push_bit_eq_mult take_bit_eq_mod mod_add_left_eq)
  then have "?l mod 2 ^ (k + 6) = (unat u * 64 + unat b mod 64) mod 2 ^ (k + 6)"
    using le_imp_power_dvd [OF assms, of "2 :: nat"] by (simp only: mod_mod_cancel)
  also have "unat u * 64 + unat b mod 64 = (unat u mod 2 ^ k * 64 + unat b mod 64) + unat u div 2 ^ k * 2 ^ (k + 6)"
    using arg_cong [OF div_mult_mod_eq [of "unat u" "2 ^ k", symmetric], of "\<lambda>x. x * 64"]
    by (simp add: power_add add_mult_distrib)
  also have "\<dots> mod 2 ^ (k + 6) = unat u mod 2 ^ k * 64 + unat b mod 64"
  proof -
    have "unat u mod 2 ^ k < 2 ^ k" "unat b mod 64 < 64" by simp_all
    then have "unat u mod 2 ^ k * 64 + unat b mod 64 < 2 ^ k * 64" by linarith
    then show ?thesis by (simp only: mod_mult_self1) (simp add: power_add)
  qed
  finally show ?thesis .
qed

section \<open>\<open>utf32_at_internal\<close>\<close>

lemma at_loop_more: "first AND msk \<noteq> 0 \<Longrightarrow> load_at s cur = Some b \<Longrightarrow>
    at_loop s first msk ign n utf32 cur =
    at_loop s first (drop_bit 1 msk) (ign OR msk) (n + 1) (push_bit 6 utf32 + (ucast b AND 0x3F)) (cur + 1)"
  by (subst at_loop.simps) simp

lemma at_loop_done: "first AND msk = 0 \<Longrightarrow> at_loop s first msk ign n utf32 cur = Some (n, msk, ign, utf32)"
  by (subst at_loop.simps) simp

lemma payload_masks:
  "NOT (push_bit 6 (0xFFFFFFE0 :: char32)) = mask 11"
  "NOT (push_bit 12 (0xFFFFFFF0 :: char32)) = mask 16"
  "NOT (push_bit 18 (0xFFFFFFF8 :: char32)) = mask 21"
  by code_simp+

lemma char_bit_range:
  assumes "i < 8" and "k * 2 ^ i \<le> unat b" and "unat b < (k + 1) * 2 ^ i"
  shows "char_val sc b AND 2 ^ i = 0 \<longleftrightarrow> even k"
proof -
  have "unat b div 2 ^ i = k" using assms(2,3) by (intro div_nat_eqI) (auto simp: mult.commute)
  then show ?thesis using char_val_bit [OF assms(1), of sc b] by auto
qed

lemma char_val_set:
  "0xC0 \<le> unat b \<Longrightarrow> char_val sc b AND 0x80 \<noteq> 0"
  "0xC0 \<le> unat b \<Longrightarrow> char_val sc b AND 0x40 \<noteq> 0"
  "0xE0 \<le> unat b \<Longrightarrow> char_val sc b AND 0x20 \<noteq> 0"
  "0xF0 \<le> unat b \<Longrightarrow> char_val sc b AND 0x10 \<noteq> 0"
  using unsigned_less [of b, where ?'a = nat] char_bit_range [of 7 1 b sc] char_bit_range [of 6 3 b sc]
    char_bit_range [of 5 7 b sc] char_bit_range [of 4 15 b sc]
  by auto

lemma char_val_clear:
  "unat b < 0x80 \<Longrightarrow> char_val sc b AND 0x80 = 0"
  "0xC0 \<le> unat b \<Longrightarrow> unat b < 0xE0 \<Longrightarrow> char_val sc b AND 0x20 = 0"
  "0xE0 \<le> unat b \<Longrightarrow> unat b < 0xF0 \<Longrightarrow> char_val sc b AND 0x10 = 0"
  "0xF0 \<le> unat b \<Longrightarrow> unat b < 0xF8 \<Longrightarrow> char_val sc b AND 0x08 = 0"
  using char_bit_range [of 7 0 b sc] char_bit_range [of 5 6 b sc] char_bit_range [of 4 14 b sc]
    char_bit_range [of 3 30 b sc]
  by auto

lemmas char_bits = char_val_set char_val_clear

lemma unfold_at:
  assumes "load_at s p = Some b" and "0xC0 \<le> unat b"
  shows "utf32_at_internal sc s p = do {
    (n, msk, ign, utf32) \<leftarrow> at_loop s (char_val sc b) 0x40 0xFFFFFF80 1 (char_val sc b) (p + 1);
    if 32 \<le> 6 * (n - 1) then None else Some (utf32 AND NOT (push_bit (6 * (n - 1)) (ign OR msk)), n) }"
  using assms by (simp add: utf32_at_internal_def char_val_set Let_def split_def)

lemma at_two:
  assumes "drop p s = b # b1 # r" and "0xC0 \<le> unat b" and "unat b < 0xE0"
  shows "\<exists>x. utf32_at_internal sc s p = Some (x, 2) \<and> unat x = unat b mod 32 * 64 + unat b1 mod 64"
proof -
  have l: "load_at s p = Some b" "load_at s (p + 1) = Some b1"
    using assms(1) by (simp_all only: load_at_0 [of s p] load_at_drop) simp_all
  let ?u = "push_bit 6 (char_val sc b) + (ucast b1 AND 0x3F)"
  have "utf32_at_internal sc s p = Some (?u AND NOT (push_bit 6 0xFFFFFFE0), 2)"
    using assms(2,3) l(2) by (simp add: unfold_at [OF l(1) assms(2)] at_loop_more at_loop_done char_bits)
  then have "utf32_at_internal sc s p = Some (?u AND mask 11, 2)" by (simp only: payload_masks)
  moreover have "unat (?u AND mask 11) = unat b mod 32 * 64 + unat b1 mod 64"
    using shift_add_mod [of 5 "char_val sc b" b1] char_val_mod [of 5 sc b] by (simp add: unat_low)
  ultimately show ?thesis by blast
qed

lemma at_three:
  assumes "drop p s = b # b1 # b2 # r" and "0xE0 \<le> unat b" and "unat b < 0xF0"
  shows "\<exists>x. utf32_at_internal sc s p = Some (x, 3) \<and>
    unat x = unat b mod 16 * 4096 + unat b1 mod 64 * 64 + unat b2 mod 64"
proof -
  have l: "load_at s p = Some b" "load_at s (p + 1) = Some b1" "load_at s (p + 2) = Some b2"
    using assms(1) by (simp_all only: load_at_0 [of s p] load_at_drop) simp_all
  have b: "0xC0 \<le> unat b" using assms(2) by simp
  let ?u = "push_bit 6 (char_val sc b) + (ucast b1 AND 0x3F)"
  let ?v = "push_bit 6 ?u + (ucast b2 AND 0x3F)"
  have "utf32_at_internal sc s p = Some (?v AND NOT (push_bit 12 0xFFFFFFF0), 3)"
    using assms(2,3) l(2,3) by (simp add: unfold_at [OF l(1) b] at_loop_more at_loop_done char_bits)
  then have "utf32_at_internal sc s p = Some (?v AND mask 16, 3)" by (simp only: payload_masks)
  moreover have "unat (?v AND mask 16) = unat b mod 16 * 4096 + unat b1 mod 64 * 64 + unat b2 mod 64"
    using shift_add_mod [of 10 ?u b2] shift_add_mod [of 4 "char_val sc b" b1] char_val_mod [of 4 sc b]
    by (simp add: unat_low)
  ultimately show ?thesis by blast
qed

lemma at_four:
  assumes "drop p s = b # b1 # b2 # b3 # r" and "0xF0 \<le> unat b" and "unat b < 0xF8"
  shows "\<exists>x. utf32_at_internal sc s p = Some (x, 4) \<and>
    unat x = unat b mod 8 * 262144 + unat b1 mod 64 * 4096 + unat b2 mod 64 * 64 + unat b3 mod 64"
proof -
  have l: "load_at s p = Some b" "load_at s (p + 1) = Some b1" "load_at s (p + 2) = Some b2" "load_at s (p + 3) = Some b3"
    using assms(1) by (simp_all only: load_at_0 [of s p] load_at_drop) simp_all
  have b: "0xC0 \<le> unat b" using assms(2) by simp
  let ?u = "push_bit 6 (char_val sc b) + (ucast b1 AND 0x3F)"
  let ?v = "push_bit 6 ?u + (ucast b2 AND 0x3F)"
  let ?w = "push_bit 6 ?v + (ucast b3 AND 0x3F)"
  have "utf32_at_internal sc s p = Some (?w AND NOT (push_bit 18 0xFFFFFFF8), 4)"
    using assms(2,3) l(2,3) l(4) [unfolded numeral_3_eq_3]
    by (simp add: unfold_at [OF l(1) b] at_loop_more at_loop_done char_bits)
  then have "utf32_at_internal sc s p = Some (?w AND mask 21, 4)" by (simp only: payload_masks)
  moreover have "unat (?w AND mask 21) =
      unat b mod 8 * 262144 + unat b1 mod 64 * 4096 + unat b2 mod 64 * 64 + unat b3 mod 64"
    using shift_add_mod [of 15 ?v b3] shift_add_mod [of 9 ?u b2] shift_add_mod [of 3 "char_val sc b" b1] char_val_mod [of 3 sc b]
    by (simp add: unat_low)
  ultimately show ?thesis by blast
qed

lemma at_one: "load_at s p = Some b \<Longrightarrow> unat b < 0x80 \<Longrightarrow> utf32_at_internal sc s p = Some (ucast b, 1)"
proof -
  assume l: "load_at s p = Some b" and b: "unat b < 0x80"
  have "char_val sc b = ucast b"
  proof (rule bit_word_eqI)
    fix i
    have "b AND 2 ^ 7 = 0" using b single_bit [of 7 b] by auto
    then have "\<not> bit b 7" by (simp only: and_exp_eq_0_iff_not_bit simp_thms)
    moreover have "bit b i \<Longrightarrow> i < 8" by (drule bit_imp_le_length) simp
    ultimately show "bit (char_val sc b) i \<longleftrightarrow> bit (ucast b :: char32) i"
      by (cases i "7 :: nat" rule: linorder_cases) (auto simp: char_val_def bit_simps min_def)
  qed
  then show ?thesis using l b char_bits(5) [of b sc] by (simp add: utf32_at_internal_def)
qed

lemma at_encoded1:
  assumes c: "unat c < 0x80" and d: "drop p s = utf8_enc c @ r"
  shows "utf32_at_internal sc s p = Some (c, length (utf8_enc c))"
proof -
  from c have "load_at s p = Some (ucast c)" using d by (simp add: load_at_0 [of s p] enc1)
  then have "utf32_at_internal sc s p = Some (ucast (ucast c :: byte), 1)"
    by (rule at_one) (use c in \<open>simp add: unat_cast8\<close>)
  moreover have "ucast (ucast c :: byte) = c" using c by (simp add: word_unat_eq_iff unat_cast8)
  ultimately show ?thesis using c by (simp add: enc1)
qed

lemma at_encoded2:
  assumes c: "0x80 \<le> unat c" "unat c < 0x800" and d: "drop p s = utf8_enc c @ r"
  shows "utf32_at_internal sc s p = Some (c, length (utf8_enc c))"
proof -
  from c have n: "unat c div 64 < 32" by simp
  have b: "0xC0 \<le> unat (word_of_nat (0xC0 + unat c div 64) :: byte)" "unat (word_of_nat (0xC0 + unat c div 64) :: byte) < 0xE0"
    using n by (simp_all only: lead_number)
  have "drop p s = word_of_nat (0xC0 + unat c div 64) # word_of_nat (0x80 + unat c mod 64) # r"
    using d by (simp add: enc2 [OF c] del: of_nat_add)
  from at_two [OF this b, of sc] obtain x where "utf32_at_internal sc s p = Some (x, 2)"
      and "unat x = unat (word_of_nat (0xC0 + unat c div 64) :: byte) mod 32 * 64 +
        unat (word_of_nat (0x80 + unat c mod 64) :: byte) mod 64"
    by blast
  moreover from this have "x = c" by (simp only: word_unat_eq_iff lead_digit(1) [OF n] tail_number digits2)
  ultimately show ?thesis by (simp add: enc2 [OF c])
qed

lemma at_encoded3:
  assumes c: "0x800 \<le> unat c" "unat c < 0x10000" "scalar c" and d: "drop p s = utf8_enc c @ r"
  shows "utf32_at_internal sc s p = Some (c, length (utf8_enc c))"
proof -
  from c have n: "unat c div 4096 < 16" by simp
  have b: "0xE0 \<le> unat (word_of_nat (0xE0 + unat c div 4096) :: byte)" "unat (word_of_nat (0xE0 + unat c div 4096) :: byte) < 0xF0"
    using n by (simp_all only: lead_number)
  have "drop p s = word_of_nat (0xE0 + unat c div 4096) # word_of_nat (0x80 + unat c div 64 mod 64) #
      word_of_nat (0x80 + unat c mod 64) # r"
    using d by (simp add: enc3 [OF c] del: of_nat_add)
  from at_three [OF this b, of sc] obtain x where "utf32_at_internal sc s p = Some (x, 3)"
      and "unat x = unat (word_of_nat (0xE0 + unat c div 4096) :: byte) mod 16 * 4096 +
        unat (word_of_nat (0x80 + unat c div 64 mod 64) :: byte) mod 64 * 64 +
        unat (word_of_nat (0x80 + unat c mod 64) :: byte) mod 64"
    by blast
  moreover from this have "x = c" by (simp only: word_unat_eq_iff lead_digit(2) [OF n] tail_number digits3)
  ultimately show ?thesis by (simp add: enc3 [OF c])
qed

lemma at_encoded4:
  assumes c: "0x10000 \<le> unat c" "scalar c" and d: "drop p s = utf8_enc c @ r"
  shows "utf32_at_internal sc s p = Some (c, length (utf8_enc c))"
proof -
  from c have n: "unat c div 262144 < 8" using scalar_bound [OF c(2)] by simp
  have b: "0xF0 \<le> unat (word_of_nat (0xF0 + unat c div 262144) :: byte)" "unat (word_of_nat (0xF0 + unat c div 262144) :: byte) < 0xF8"
    using n by (simp_all only: lead_number)
  have "drop p s = word_of_nat (0xF0 + unat c div 262144) # word_of_nat (0x80 + unat c div 4096 mod 64) #
      word_of_nat (0x80 + unat c div 64 mod 64) # word_of_nat (0x80 + unat c mod 64) # r"
    using d by (simp add: enc4 [OF c] del: of_nat_add)
  from at_four [OF this b, of sc] obtain x where "utf32_at_internal sc s p = Some (x, 4)"
      and "unat x = unat (word_of_nat (0xF0 + unat c div 262144) :: byte) mod 8 * 262144 +
        unat (word_of_nat (0x80 + unat c div 4096 mod 64) :: byte) mod 64 * 4096 +
        unat (word_of_nat (0x80 + unat c div 64 mod 64) :: byte) mod 64 * 64 +
        unat (word_of_nat (0x80 + unat c mod 64) :: byte) mod 64"
    by blast
  moreover from this have "x = c" by (simp only: word_unat_eq_iff lead_digit(3) [OF n] tail_number digits_four)
  ultimately show ?thesis by (simp add: enc4 [OF c])
qed

lemma at_encoded:
  assumes "scalar c" and "drop p s = utf8_enc c @ r"
  shows "utf32_at_internal sc s p = Some (c, length (utf8_enc c))"
  by (rule codepoint_split [of c]) (use assms in \<open>blast intro: at_encoded1 at_encoded2 at_encoded3 at_encoded4\<close>)+

end
