(* ===== verification/Unicode_Strings.thy ===== *)
theory Unicode_Strings
  imports Unicode_Chars
begin

unbundle bit_operations_syntax

text \<open>UTF-16: surrogates, and reading and writing one character as one or two elements.\<close>

definition high_surrogate :: "char16 \<Rightarrow> bool" where
  "high_surrogate c \<longleftrightarrow> 0xD800 \<le> unat c \<and> unat c < 0xDC00"

definition low_surrogate :: "char16 \<Rightarrow> bool" where
  "low_surrogate c \<longleftrightarrow> 0xDC00 \<le> unat c \<and> unat c < 0xE000"

lemma surrogate_bits: "unat (c AND 0xFC00) = unat c div 1024 * 1024" for c :: char16
proof -
  have m: "(0xFC00 :: char16) = push_bit 10 (mask 6)" by (simp add: mask_eq_exp_minus_1)
  have "c AND 0xFC00 = push_bit 10 (drop_bit 10 c)"
    unfolding m by (rule bit_word_eqI) (auto simp: bit_simps dest: bit_imp_le_length)
  moreover have "unat (push_bit 10 (drop_bit 10 c)) = unat c div 1024 * 1024"
  proof -
    have "unat c div 1024 < 64" using unsigned_less [of c, where ?'a = nat] by simp
    then show ?thesis
      by (simp only: unsigned_push_bit_eq unat_shift) (simp add: push_bit_eq_mult take_bit_nat_eq_self)
  qed
  ultimately show ?thesis by simp
qed

lemma quotient_range: "n div 1024 = k \<longleftrightarrow> k * 1024 \<le> n \<and> n < (k + 1) * 1024" for n :: nat
proof
  assume "n div 1024 = k"
  moreover have "n mod 1024 < 1024" by simp
  ultimately show "k * 1024 \<le> n \<and> n < (k + 1) * 1024" using div_mult_mod_eq [of n 1024] by simp
next
  assume "k * 1024 \<le> n \<and> n < (k + 1) * 1024"
  then show "n div 1024 = k" by (intro div_nat_eqI) auto
qed

lemma high_bits: "c AND 0xFC00 = 0xD800 \<longleftrightarrow> high_surrogate c" for c :: char16
  using quotient_range [of "unat c" 54] by (auto simp: word_unat_eq_iff surrogate_bits high_surrogate_def)

lemma low_bits: "c AND 0xFC00 = 0xDC00 \<longleftrightarrow> low_surrogate c" for c :: char16
  using quotient_range [of "unat c" 55] by (auto simp: word_unat_eq_iff surrogate_bits low_surrogate_def)

lemma not_high: "scalar c \<Longrightarrow> unat c < 0x10000 \<Longrightarrow> \<not> high_surrogate (ucast c)"
  by (auto simp: high_surrogate_def unat_cast16 scalar_def word_less_nat_alt word_le_nat_alt)

lemma enc16_one: "unat c < 0x10000 \<Longrightarrow> utf16_enc c = [ucast c]"
  by (simp add: utf16_enc_def Let_def)

lemma enc16_two: "0x10000 \<le> unat c \<Longrightarrow> utf16_enc c =
    [word_of_nat (0xD800 + (unat c - 0x10000) div 1024), word_of_nat (0xDC00 + (unat c - 0x10000) mod 1024)]"
  by (simp add: utf16_enc_def Let_def)

lemma pair_numbers:
  assumes "m < 0x100000"
  shows "unat (word_of_nat (0xD800 + m div 1024) :: char16) = 0xD800 + m div 1024"
    and "unat (word_of_nat (0xDC00 + m mod 1024) :: char16) = 0xDC00 + m mod 1024"
proof -
  have "m div 1024 < 1024" "m mod 1024 < 1024" using assms by simp_all
  then have "0xD800 + m div 1024 < 2 ^ 16" "0xDC00 + m mod 1024 < 2 ^ 16" by simp_all
  then show "unat (word_of_nat (0xD800 + m div 1024) :: char16) = 0xD800 + m div 1024"
    and "unat (word_of_nat (0xDC00 + m mod 1024) :: char16) = 0xDC00 + m mod 1024"
    by (simp_all only: unsigned_of_nat) (simp_all add: take_bit_nat_eq_self)
qed

lemma pair_surrogates:
  assumes "m < 0x100000"
  shows "high_surrogate (word_of_nat (0xD800 + m div 1024))" and "low_surrogate (word_of_nat (0xDC00 + m mod 1024))"
proof -
  have "m div 1024 < 1024" "m mod 1024 < 1024" using assms by simp_all
  then show "high_surrogate (word_of_nat (0xD800 + m div 1024))" and "low_surrogate (word_of_nat (0xDC00 + m mod 1024))"
    by (simp_all only: high_surrogate_def low_surrogate_def pair_numbers [OF assms]) simp_all
qed

lemma unat_sub_exact: "unat b \<le> unat a \<Longrightarrow> unat (a - b) = unat a - unat b" for a b :: "'a :: len word"
  by (simp add: unat_sub_if')

lemma join_pair:
  assumes "m < 0x100000"
  shows "unat ((push_bit 10 (ucast (word_of_nat (0xD800 + m div 1024) :: char16) - 0xD800)
      OR (ucast (word_of_nat (0xDC00 + m mod 1024) :: char16) - 0xDC00)) + 0x10000 :: char32) = m + 0x10000"
proof -
  let ?h = "ucast (word_of_nat (0xD800 + m div 1024) :: char16) - 0xD800 :: char32"
  let ?l = "ucast (word_of_nat (0xDC00 + m mod 1024) :: char16) - 0xDC00 :: char32"
  have lt: "m div 1024 < 1024" "m mod 1024 < 1024" using assms by simp_all
  have h: "unat ?h = m div 1024"
    by (subst unat_sub_exact) (simp_all only: unat_wide16 pair_numbers [OF assms], simp_all)
  have l: "unat ?l = m mod 1024"
    by (subst unat_sub_exact) (simp_all only: unat_wide16 pair_numbers [OF assms], simp_all)
  have "unat (push_bit 10 ?h OR ?l) = unat ?h * 2 ^ 10 + unat ?l"
    by (rule unat_join) (use lt in \<open>simp_all only: h l\<close>, simp_all)
  also have "\<dots> = m" by (simp only: h l) simp
  finally show ?thesis using assms by (simp add: unat_word_ariths(1))
qed

lemma utf16_next_encoded:
  assumes "scalar c" and "drop p s = utf16_enc c @ r"
  shows "utf16_next s p = Some (c, p + length (utf16_enc c))"
proof (cases "unat c < 0x10000")
  case True
  then have "load_at s p = Some (ucast c)" using assms(2) by (simp add: load_at_0 [of s p] enc16_one)
  moreover have "ucast (ucast c :: char16) = c" using True by (simp add: word_unat_eq_iff unat_wide16 unat_cast16)
  ultimately show ?thesis using True not_high [OF assms(1) True]
    by (simp add: utf16_next_def high_bits enc16_one)
next
  case False
  define m where "m = unat c - 0x10000"
  have m: "m < 0x100000" and c: "unat c = m + 0x10000" using False scalar_bound [OF assms(1)] by (simp_all add: m_def)
  have e: "utf16_enc c = [word_of_nat (0xD800 + m div 1024), word_of_nat (0xDC00 + m mod 1024)]"
    using False by (simp add: enc16_two m_def)
  have "load_at s p = Some (word_of_nat (0xD800 + m div 1024))"
    "load_at s (p + 1) = Some (word_of_nat (0xDC00 + m mod 1024))"
    using assms(2) by (simp_all only: load_at_0 [of s p] load_at_drop) (simp_all add: e)
  moreover have "(push_bit 10 (ucast (word_of_nat (0xD800 + m div 1024) :: char16) - 0xD800)
      OR (ucast (word_of_nat (0xDC00 + m mod 1024) :: char16) - 0xDC00)) + 0x10000 = c"
    by (simp only: word_unat_eq_iff join_pair [OF m] c)
  ultimately show ?thesis using pair_surrogates [OF m]
    by (simp add: utf16_next_def high_bits e del: of_nat_add)
qed

lemma store_utf16_put:
  assumes "unat c < 0x110000"
  shows "store_utf16 d q c = put_at d q (utf16_enc c) \<bind> (\<lambda>d. Some (d, q + length (utf16_enc c)))"
proof (cases "unat c < 0x10000")
  case True
  then show ?thesis by (simp add: store_utf16_def store_at_put enc16_one word_le_nat_alt)
next
  case False
  define m where "m = unat c - 0x10000"
  have m: "m < 0x100000" and c: "unat c = m + 0x10000" using False assms by (simp_all add: m_def)
  have d: "unat (c - 0x10000) = m" using c by (simp add: unat_sub_if')
  have lt: "m div 1024 < 1024" "m mod 1024 < 1024" using m by simp_all
  have low: "(0x3FF :: char32) = mask 10" by (simp add: mask_eq_exp_minus_1)
  have h: "unat (drop_bit 10 (c - 0x10000)) = m div 1024" by (simp only: unat_shift d) simp
  have l: "unat ((c - 0x10000) AND 0x3FF) = m mod 1024" by (simp only: low unat_low d) simp
  have "unat (drop_bit 10 (c - 0x10000) + 0xD800) = 0xD800 + m div 1024"
    by (simp only: unat_word_ariths(1) h) (use lt in simp)
  then have "ucast (drop_bit 10 (c - 0x10000) + 0xD800) = (word_of_nat (0xD800 + m div 1024) :: char16)"
    using lt by (simp only: word_unat_eq_iff unat_cast16 pair_numbers [OF m]) simp
  note hi = this
  have "unat (((c - 0x10000) AND 0x3FF) + 0xDC00) = 0xDC00 + m mod 1024"
    by (simp only: unat_word_ariths(1) l) (use lt in simp)
  then have "ucast (((c - 0x10000) AND 0x3FF) + 0xDC00) = (word_of_nat (0xDC00 + m mod 1024) :: char16)"
    using lt by (simp only: word_unat_eq_iff unat_cast16 pair_numbers [OF m]) simp
  note lo = this
  have "\<not> c \<le> 0xFFFF" using False by (simp add: word_le_nat_alt)
  then have "store_utf16 d q c = put_at d q [word_of_nat (0xD800 + m div 1024)] \<bind>
      (\<lambda>d. put_at d (q + 1) [word_of_nat (0xDC00 + m mod 1024)]) \<bind> (\<lambda>d. Some (d, q + 2))"
    by (simp only: store_utf16_def Let_def store_at_put hi lo if_False Option.bind_assoc)
  also have "put_at d q [word_of_nat (0xD800 + m div 1024)] \<bind>
      (\<lambda>d. put_at d (q + 1) [word_of_nat (0xDC00 + m mod 1024)]) = put_at d q (utf16_enc c)"
    using put_at_append [of d q "[word_of_nat (0xD800 + m div 1024)]" "[word_of_nat (0xDC00 + m mod 1024)]"] False
    by (simp add: enc16_two m_def del: of_nat_add)
  finally show ?thesis using False by (simp add: enc16_two)
qed

unbundle bit_operations_syntax

text \<open>The loops over whole strings: what they read, and what they write where.\<close>

abbreviation utf8s :: "char32 list \<Rightarrow> byte list" where
  "utf8s cs \<equiv> concat (map utf8_enc cs)"

abbreviation utf16s :: "char32 list \<Rightarrow> char16 list" where
  "utf16s cs \<equiv> concat (map utf16_enc cs)"

section \<open>Continuing after a run\<close>

definition written :: "'a list \<Rightarrow> nat \<Rightarrow> 'a list \<Rightarrow> ('a list \<times> nat) option" where
  "written d q xs = put_at d q xs \<bind> (\<lambda>d. Some (d, q + length xs))"

lemma written_Nil: "q \<le> length d \<Longrightarrow> written d q [] = Some (d, q)"
  by (simp add: written_def put_at_Nil)

lemma written_append: "put_at d q xs \<bind> (\<lambda>d. written d (q + length xs) ys) = written d q (xs @ ys)"
  by (simp add: written_def put_at_append [symmetric] add.assoc)

lemma written_step:
  assumes "\<And>d'. length d' = length d \<Longrightarrow> q + length xs \<le> length d \<Longrightarrow> f d' = written d' (q + length xs) ys"
  shows "put_at d q xs \<bind> f = written d q (xs @ ys)"
proof -
  have "put_at d q xs \<bind> f = put_at d q xs \<bind> (\<lambda>d'. written d' (q + length xs) ys)"
    by (rule Option.bind_cong) (use assms put_at_room [of d q xs] in auto)
  then show ?thesis by (simp only: written_append)
qed

lemma written_end: "written d q xs \<bind> (\<lambda>(d, q). store_at d q v) = put_at d q (xs @ [v])"
  by (simp add: written_def store_at_put put_at_append)

lemma put_at_start: "put_at d 0 xs = (if length xs \<le> length d then Some (xs @ drop (length xs) d) else None)"
  by (simp add: put_at_def)

lemma bind_Some_map: "m \<bind> (\<lambda>d. Some (f d)) = map_option f m"
  by (cases m) simp_all

lemma drop_next: "drop p s = xs @ ys \<Longrightarrow> drop (p + length xs) s = ys"
  by (metis add.commute append_eq_conv_conj drop_drop)

lemma drop_room: "drop p s = xs @ ys \<Longrightarrow> p \<le> length s \<Longrightarrow> p + length xs \<le> length s"
  by (drule arg_cong [of _ _ length]) simp

lemma drop_inside: "drop p s = xs @ ys \<Longrightarrow> xs \<noteq> [] \<Longrightarrow> p < length s"
  by (rule ccontr) simp

section \<open>UTF-32 to UTF-8\<close>

lemma utf32_length_loop_sum:
  "p + k \<le> length s \<Longrightarrow> utf32_length_loop s k p ret = Some (ret + length (utf8s (take k (drop p s))))"
proof (induction k arbitrary: p ret)
  case (Suc k)
  then have "drop p s = s ! p # drop (Suc p) s" by (simp add: Cons_nth_drop_Suc)
  then show ?case using Suc by (simp add: load_at_def codepoint_length)
qed simp

lemma utf32_loop_writes:
  "p + k \<le> length s \<Longrightarrow> q \<le> length d \<Longrightarrow> utf32_loop s k p d q = written d q (utf8s (take k (drop p s)))"
proof (induction k arbitrary: p d q)
  case 0
  then show ?case by (simp add: written_Nil)
next
  case (Suc k)
  then have "drop p s = s ! p # drop (Suc p) s" by (simp add: Cons_nth_drop_Suc)
  moreover have "put_at d q (utf8_enc (s ! p)) \<bind> (\<lambda>d. utf32_loop s k (p + 1) d (q + length (utf8_enc (s ! p))))
      = written d q (utf8_enc (s ! p) @ utf8s (take k (drop (p + 1) s)))"
    by (rule written_step) (use Suc in simp)
  ultimately show ?case using Suc.prems
    by (simp add: load_at_def codepoint_to_utf8) (simp add: codepoint_length)
qed

lemma terminated:
  assumes "res = written d 0 xs"
  shows "(res \<bind> (\<lambda>(d, q). store_at d q v \<bind> (\<lambda>d. Some (Some d)))) = map_option Some (put_at d 0 (xs @ [v]))"
proof -
  have "map_option Some (put_at d 0 (xs @ [v])) = map_option Some (res \<bind> (\<lambda>(d, q). store_at d q v))"
    by (simp only: assms written_end)
  then show ?thesis by (cases res) (auto simp: bind_Some_map)
qed

lemma utf32_to_utf8_writes:
  assumes "s \<noteq> []"
  shows "utf32_to_utf8 (Some s) (length s) (Some d) = map_option Some (put_at d 0 (utf8s s @ [0]))"
proof -
  have "utf32_loop s (length s) 0 d 0 = written d 0 (utf8s s)" by (simp add: utf32_loop_writes)
  from terminated [OF this, of 0] show ?thesis using assms by (simp add: utf32_to_utf8_def)
qed

section \<open>UTF-16 to UTF-8\<close>

lemma utf16_enc_nonempty [simp]: "utf16_enc c \<noteq> []"
  by (simp add: utf16_enc_def Let_def)

lemma utf16_loop_writes:
  "list_all scalar cs \<Longrightarrow> drop p s = utf16s cs \<Longrightarrow> p \<le> length s \<Longrightarrow> q \<le> length d \<Longrightarrow>
    utf16_loop s (length s) d p q = written d q (utf8s cs)"
proof (induction cs arbitrary: p d q)
  case Nil
  then show ?case by (subst utf16_loop.simps) (simp add: written_Nil)
next
  case (Cons c cs)
  let ?p = "p + length (utf16_enc c)"
  have s: "drop p s = utf16_enc c @ utf16s cs" using Cons.prems(2) by simp
  have n: "utf16_next s p = Some (c, ?p)" by (rule utf16_next_encoded [OF _ s]) (use Cons.prems(1) in simp)
  have "put_at d q (utf8_enc c) \<bind> (\<lambda>d. utf16_loop s (length s) d ?p (q + length (utf8_enc c)))
      = written d q (utf8_enc c @ utf8s cs)"
    by (rule written_step, rule Cons.IH) (use Cons.prems(1) drop_next [OF s] drop_room [OF s Cons.prems(3)] in simp_all)
  then show ?case using drop_inside [OF s utf16_enc_nonempty] n
    by (subst utf16_loop.simps) (simp add: Let_def codepoint_to_utf8 [OF Cons.prems(4), unfolded codepoint_length] codepoint_length)
qed

lemma utf16_to_utf8_writes:
  assumes "list_all scalar cs" and "cs \<noteq> []"
  shows "utf16_to_utf8 (Some (utf16s cs)) (length (utf16s cs)) (Some d) = map_option Some (put_at d 0 (utf8s cs @ [0]))"
proof -
  have "utf16_loop (utf16s cs) (length (utf16s cs)) d 0 0 = written d 0 (utf8s cs)"
    by (rule utf16_loop_writes) (simp_all add: assms(1))
  moreover have "length (utf16s cs) \<noteq> 0" using assms(2) by (cases cs) simp_all
  ultimately show ?thesis using terminated [of _ d "utf8s cs" 0] by (simp add: utf16_to_utf8_def del: length_concat)
qed

lemma enc8_long: "scalar c \<Longrightarrow> 0x10000 \<le> unat c \<Longrightarrow> length (utf8_enc c) = 4"
  by (simp add: enc4)

lemma utf16_length_loop_sum:
  "list_all scalar cs \<Longrightarrow> drop p s = utf16s cs \<Longrightarrow> p \<le> length s \<Longrightarrow>
    utf16_length_loop s (length s) p ret = Some (ret + length (utf8s cs))"
proof (induction cs arbitrary: p ret)
  case Nil
  then show ?case by (subst utf16_length_loop.simps) (simp)
next
  case (Cons c cs)
  have s: "drop p s = utf16_enc c @ utf16s cs" using Cons.prems(2) by simp
  have p: "p < length s" by (rule drop_inside [OF s utf16_enc_nonempty])
  have sc: "scalar c" using Cons.prems(1) by simp
  note IH = Cons.IH [OF _ drop_next [OF s] drop_room [OF s Cons.prems(3)]]
  show ?case
  proof (cases "unat c < 0x10000")
    case True
    then have "load_at s p = Some (ucast c)" using s by (simp add: load_at_0 [of s p] enc16_one)
    moreover have "ucast (ucast c :: char16) = c" using True by (simp add: word_unat_eq_iff unat_wide16 unat_cast16)
    ultimately show ?thesis using p True not_high [OF sc True] IH Cons.prems(1)
      by (subst utf16_length_loop.simps) (simp add: high_bits enc16_one codepoint_length)
  next
    case False
    define m where "m = unat c - 0x10000"
    have m: "m < 0x100000" using False scalar_bound [OF sc] by (simp add: m_def)
    have e: "utf16_enc c = [word_of_nat (0xD800 + m div 1024), word_of_nat (0xDC00 + m mod 1024)]"
      using False by (simp add: enc16_two m_def)
    have "load_at s p = Some (word_of_nat (0xD800 + m div 1024))"
      "load_at s (p + 1) = Some (word_of_nat (0xDC00 + m mod 1024))"
      using s by (simp_all only: load_at_0 [of s p] load_at_drop) (simp_all add: e)
    moreover have "p + 1 < length s" using drop_room [OF s Cons.prems(3)] by (simp add: e)
    ultimately show ?thesis using p IH Cons.prems(1) False pair_surrogates [OF m] enc8_long [OF sc]
      by (subst utf16_length_loop.simps) (simp add: high_bits low_bits e add.assoc del: of_nat_add)
  qed
qed

unbundle bit_operations_syntax

text \<open>The loops that read UTF-8: on encoded strings, and within bounds on any bytes.\<close>

lemma utf8_enc_nonempty: "scalar c \<Longrightarrow> utf8_enc c \<noteq> []"
  by (auto simp: utf8_enc_def Let_def)

definition lead_of :: "byte \<Rightarrow> nat \<Rightarrow> bool" where
  "lead_of b n \<longleftrightarrow> n = 1 \<and> unat b < 0x80 \<or> n = 2 \<and> 0xC0 \<le> unat b \<and> unat b < 0xE0 \<or>
    n = 3 \<and> 0xE0 \<le> unat b \<and> unat b < 0xF0 \<or> n = 4 \<and> 0xF0 \<le> unat b \<and> unat b < 0xF8"

lemma encoded_lead:
  assumes "scalar c" and "drop p s = utf8_enc c @ r"
  obtains b where "load_at s p = Some b" and "lead_of b (length (utf8_enc c))"
proof (rule codepoint_split [of c])
  assume c: "unat c < 0x80"
  then show thesis
    using assms(2) by (intro that [of "word_of_nat (unat c)"]) (auto simp: load_at_0 [of s p] enc1 lead_of_def unat_cast8)
next
  assume c: "0x80 \<le> unat c" "unat c < 0x800"
  then have l: "unat c div 64 < 32" by simp
  show thesis
    by (rule that [of "word_of_nat (0xC0 + unat c div 64)"])
      (use assms(2) l lead_number(1) [OF l] in \<open>simp_all add: load_at_0 [of s p] lead_of_def enc2 [OF c] del: of_nat_add\<close>)
next
  assume c: "0x800 \<le> unat c" "unat c < 0x10000" "scalar c"
  then have l: "unat c div 4096 < 16" by simp
  show thesis
    by (rule that [of "word_of_nat (0xE0 + unat c div 4096)"])
      (use assms(2) l lead_number(2) [OF l] in \<open>simp_all add: load_at_0 [of s p] lead_of_def enc3 [OF c] del: of_nat_add\<close>)
next
  assume c: "0x10000 \<le> unat c" "scalar c"
  then have l: "unat c div 262144 < 8" using scalar_bound [OF c(2)] by simp
  show thesis
    by (rule that [of "word_of_nat (0xF0 + unat c div 262144)"])
      (use assms(2) l lead_number(3) [OF l] in \<open>simp_all add: load_at_0 [of s p] lead_of_def enc4 [OF c] del: of_nat_add\<close>)
next
  assume "\<not> scalar c" then show thesis using assms(1) by simp
qed

lemma encoded_length:
  assumes "scalar c" and "drop p s = utf8_enc c @ r"
  obtains b where "load_at s p = Some b" and "utf8_codepoint_len b = length (utf8_enc c)"
proof (rule encoded_lead [OF assms])
  fix b assume "load_at s p = Some b" "lead_of b (length (utf8_enc c))"
  then show thesis using that by (auto simp: lead_of_def codepoint_len_table)
qed

section \<open>UTF-8 to UTF-16\<close>

lemma utf8_to_utf16_length_loop_sum:
  "list_all scalar cs \<Longrightarrow> drop p s = utf8s cs \<Longrightarrow> p \<le> length s \<Longrightarrow>
    utf8_to_utf16_length_loop s (length s) p m = Some (length s, m + length (utf16s cs))"
proof (induction cs arbitrary: p m)
  case Nil
  then show ?case by (subst utf8_to_utf16_length_loop.simps) (simp)
next
  case (Cons c cs)
  have s: "drop p s = utf8_enc c @ utf8s cs" using Cons.prems(2) by simp
  have sc: "scalar c" using Cons.prems(1) by simp
  obtain b where b: "load_at s p = Some b" "utf8_codepoint_len b = length (utf8_enc c)" by (rule encoded_length [OF sc s])
  have "length (utf16_enc c) = (if 0xFFFF < c then 2 else 1)"
    by (simp add: utf16_enc_def Let_def word_less_nat_alt)
  then show ?case
    using drop_inside [OF s utf8_enc_nonempty [OF sc]] Cons.IH [OF _ drop_next [OF s] drop_room [OF s Cons.prems(3)]] Cons.prems(1)
    by (subst utf8_to_utf16_length_loop.simps)
      (simp add: b decode_codepoint [OF sc s] Let_def)
qed

lemma utf8_to_utf16_loop_writes:
  "list_all scalar cs \<Longrightarrow> drop p s = utf8s cs \<Longrightarrow> p \<le> length s \<Longrightarrow> q \<le> length d \<Longrightarrow>
    utf8_to_utf16_loop s (length s) p d q = written d q (utf16s cs)"
proof (induction cs arbitrary: p d q)
  case Nil
  then show ?case by (subst utf8_to_utf16_loop.simps) (simp add: written_Nil)
next
  case (Cons c cs)
  have s: "drop p s = utf8_enc c @ utf8s cs" using Cons.prems(2) by simp
  have sc: "scalar c" using Cons.prems(1) by simp
  obtain b where b: "load_at s p = Some b" "utf8_codepoint_len b = length (utf8_enc c)" by (rule encoded_length [OF sc s])
  have "put_at d q (utf16_enc c) \<bind> (\<lambda>d. utf8_to_utf16_loop s (length s) (p + length (utf8_enc c)) d (q + length (utf16_enc c)))
      = written d q (utf16_enc c @ utf16s cs)"
    by (rule written_step, rule Cons.IH) (use Cons.prems(1) drop_next [OF s] drop_room [OF s Cons.prems(3)] in simp_all)
  then show ?case using drop_inside [OF s utf8_enc_nonempty [OF sc]]
    by (subst utf8_to_utf16_loop.simps)
      (simp add: b decode_codepoint [OF sc s] Let_def store_utf16_put [OF scalar_bound [OF sc]])
qed

lemma store_utf16_fits:
  assumes "q + (if 0xFFFF < c then 2 else 1) \<le> length d"
  shows "\<exists>xs. length xs = (if 0xFFFF < c then 2 else 1) \<and> store_utf16 d q c = written d q xs"
proof (cases "0xFFFF < c")
  case True
  let ?h = "ucast (drop_bit 10 (c - 0x10000) + 0xD800) :: char16" and ?l = "ucast (((c - 0x10000) AND 0x3FF) + 0xDC00) :: char16"
  have "\<not> c \<le> 0xFFFF" using True by simp
  then have "store_utf16 d q c = put_at d q [?h] \<bind> (\<lambda>d. put_at d (q + 1) [?l]) \<bind> (\<lambda>d. Some (d, q + 2))"
    by (simp only: store_utf16_def Let_def store_at_put if_False Option.bind_assoc)
  also have "put_at d q [?h] \<bind> (\<lambda>d. put_at d (q + 1) [?l]) = put_at d q [?h, ?l]"
    using put_at_append [of d q "[?h]" "[?l]"] by simp
  finally have "store_utf16 d q c = written d q [?h, ?l]" by (simp add: written_def)
  then show ?thesis using True by (intro exI [of _ "[?h, ?l]"]) simp
next
  case False
  then show ?thesis by (intro exI [of _ "[ucast c]"]) (simp add: not_less store_utf16_def store_at_put written_def)
qed

lemma put_at_some:
  assumes "q + length xs \<le> length d"
  obtains d1 where "put_at d q xs = Some d1" and "length d1 = length d"
  using assms by (auto simp: put_at_def)

lemma length_loop_step:
  assumes "utf8_to_utf16_length_loop s n p m = Some r" and "p < n"
  obtains b c where "load_at s p = Some b" "utf8_to_utf32_codepoint s p (utf8_codepoint_len b) = Some c"
    "utf8_to_utf16_length_loop s n (p + utf8_codepoint_len b) (if 0xFFFF < c then m + 1 + 1 else m + 1) = Some r"
  using assms(1) [unfolded utf8_to_utf16_length_loop.simps [of s n p m]] assms(2)
  by (simp only: if_True Let_def bind_eq_Some_conv) blast

lemma length_loop_mono: "utf8_to_utf16_length_loop s n p m = Some (p', m') \<Longrightarrow> m \<le> m'"
proof (induction s n p m rule: utf8_to_utf16_length_loop.induct)
  case (1 s n p m)
  show ?case
  proof (cases "p < n")
    case True
    obtain b c where l: "load_at s p = Some b" "utf8_to_utf32_codepoint s p (utf8_codepoint_len b) = Some c"
      "utf8_to_utf16_length_loop s n (p + utf8_codepoint_len b) (if 0xFFFF < c then m + 1 + 1 else m + 1) = Some (p', m')"
      by (rule length_loop_step [OF "1.prems" True])
    from "1.IH" [OF True refl l(1) refl l(2) refl l(3)] show ?thesis by (simp split: if_splits)
  next
    case False
    then show ?thesis using "1.prems" by (subst (asm) utf8_to_utf16_length_loop.simps) simp
  qed
qed

lemma utf8_to_utf16_loop_fits:
  "utf8_to_utf16_length_loop s n p m = Some (p', m') \<Longrightarrow> q + (m' - m) \<le> length d \<Longrightarrow>
    \<exists>xs. length xs = m' - m \<and> utf8_to_utf16_loop s n p d q = written d q xs"
proof (induction s n p m arbitrary: d q rule: utf8_to_utf16_length_loop.induct)
  case (1 s n p m)
  show ?case
  proof (cases "p < n")
    case True
    obtain b c where l: "load_at s p = Some b" "utf8_to_utf32_codepoint s p (utf8_codepoint_len b) = Some c"
      "utf8_to_utf16_length_loop s n (p + utf8_codepoint_len b) (if 0xFFFF < c then m + 1 + 1 else m + 1) = Some (p', m')"
      by (rule length_loop_step [OF "1.prems"(1) True])
    let ?k = "if 0xFFFF < c then 2 else 1 :: nat"
    have m: "m + ?k \<le> m'" using length_loop_mono [OF l(3)] by (simp split: if_splits)
    then have "q + ?k \<le> length d" using "1.prems"(2) by linarith
    from store_utf16_fits [OF this] obtain xs where xs: "length xs = ?k" "store_utf16 d q c = written d q xs" by blast
    have room: "q + ?k + (m' - (m + ?k)) \<le> length d" using "1.prems"(2) m by linarith
    have "q + length xs \<le> length d" using xs(1) \<open>q + ?k \<le> length d\<close> by simp
    then obtain d1 where d1: "put_at d q xs = Some d1" "length d1 = length d" by (rule put_at_some)
    have "q + ?k + (m' - (if 0xFFFF < c then m + 1 + 1 else m + 1)) \<le> length d1"
      using room d1(2) by (cases "0xFFFF < c") simp_all
    from "1.IH" [OF True refl l(1) refl l(2) refl l(3) this] obtain ys where
      ys: "length ys = m' - (m + ?k)" "utf8_to_utf16_loop s n (p + utf8_codepoint_len b) d1 (q + ?k) = written d1 (q + ?k) ys"
      by (cases "0xFFFF < c") auto
    have "utf8_to_utf16_loop s n p d q = written d1 (q + length xs) ys"
      using True l(1,2) xs d1(1) ys(2)
      by (subst utf8_to_utf16_loop.simps) (simp add: Let_def written_def)
    also have "\<dots> = written d q (xs @ ys)" using d1(1) written_append [of d q xs ys] by simp
    finally show ?thesis using xs(1) ys(1) m by (intro exI [of _ "xs @ ys"]) simp
  next
    case False
    then show ?thesis using "1.prems"
      by (subst (asm) utf8_to_utf16_length_loop.simps, subst utf8_to_utf16_loop.simps)
        (auto simp: written_Nil)
  qed
qed

section \<open>UTF-8 to UTF-32\<close>

lemma utf8_to_utf32_loop_writes:
  "list_all scalar cs \<Longrightarrow> drop p s = utf8s cs \<Longrightarrow> p \<le> length s \<Longrightarrow> q \<le> length d \<Longrightarrow>
    utf8_to_utf32_loop sc s (length s) p d q = written d q cs"
proof (induction cs arbitrary: p d q)
  case Nil
  then show ?case by (subst utf8_to_utf32_loop.simps) (simp add: written_Nil)
next
  case (Cons c cs)
  have s: "drop p s = utf8_enc c @ utf8s cs" using Cons.prems(2) by simp
  have c: "scalar c" using Cons.prems(1) by simp
  have "put_at d q [c] \<bind> (\<lambda>d. utf8_to_utf32_loop sc s (length s) (p + length (utf8_enc c)) d (q + length [c]))
      = written d q ([c] @ cs)"
    by (rule written_step, rule Cons.IH) (use Cons.prems(1) drop_next [OF s] drop_room [OF s Cons.prems(3)] in simp_all)
  then show ?case using drop_inside [OF s utf8_enc_nonempty [OF c]]
    by (subst utf8_to_utf32_loop.simps) (simp add: at_encoded [OF c s] store_at_put)
qed

end
