(* ===== verification/Unicode_Length.thy ===== *)
theory Unicode_Length
  imports Unicode_Strings
begin

unbundle bit_operations_syntax

text \<open>
  \<^verbatim>\<open>utf8_length\<close> on a terminated string: it stops at the terminator, it measures encoded
  strings where \<^verbatim>\<open>char\<close> is unsigned, and it refuses everything but ASCII where \<^verbatim>\<open>char\<close> is
  signed.
\<close>

section \<open>It stops at the terminator\<close>

definition terminated_at :: "byte list \<Rightarrow> nat \<Rightarrow> bool" where
  "terminated_at s k \<longleftrightarrow> k < length s \<and> s ! k = 0 \<and> (\<forall>i < k. s ! i \<noteq> 0)"

lemma zero_not_tail: "(0 :: byte) AND 0xC0 \<noteq> 0x80"
  by simp

lemma seq_stops:
  "terminated_at s k \<Longrightarrow> cur \<le> k \<Longrightarrow> n \<le> 5 \<Longrightarrow> \<exists>r. utf8_length_seq s first msk ign n u cur = Some r \<and>
    (case r of None \<Rightarrow> True | Some (n', msk', ign', u', cur') \<Rightarrow> n \<le> n' \<and> n' \<le> 5 \<and> cur' = cur + (n' - n) \<and> cur' \<le> k)"
proof (induction s first msk ign n u cur rule: utf8_length_seq.induct)
  case (1 s first msk ign n u cur)
  show ?case
  proof (cases "n < 5 \<and> ucast first AND msk \<noteq> 0")
    case True
    have l: "load_at s cur = Some (s ! cur)" using "1.prems" by (simp add: terminated_at_def load_at_def)
    show ?thesis
    proof (cases "s ! cur AND 0xC0 = 0x80")
      case tail: True
      have "s ! cur \<noteq> 0" using tail by auto
      then have "cur + 1 \<le> k" using "1.prems"(1,2) by (cases "cur = k") (auto simp: terminated_at_def)
      moreover have "n + 1 \<le> 5" using True by simp
      ultimately obtain r where "utf8_length_seq s first (drop_bit 1 msk) (ign OR msk) (n + 1)
            (push_bit 6 u + (ucast (s ! cur) AND 0x3F)) (cur + 1) = Some r"
        "case r of None \<Rightarrow> True | Some (n', msk', ign', u', cur') \<Rightarrow>
          n + 1 \<le> n' \<and> n' \<le> 5 \<and> cur' = cur + 1 + (n' - (n + 1)) \<and> cur' \<le> k"
        using "1.IH" [OF True l _ "1.prems"(1)] tail by blast
      then show ?thesis using True l tail
        by (subst utf8_length_seq.simps) (auto split: option.splits)
    next
      case False
      then show ?thesis using True l by (subst utf8_length_seq.simps) simp
    qed
  next
    case False
    then show ?thesis using "1.prems" by (subst utf8_length_seq.simps) auto
  qed
qed

lemma char_stops:
  assumes "terminated_at s k" and "cur < k"
  obtains "utf8_length_char sc s (s ! cur) (cur + 1) = Some None"
  | n where "utf8_length_char sc s (s ! cur) (cur + 1) = Some (Some (n, cur + n))" "0 < n" "cur + n \<le> k"
proof -
  obtain r where r: "utf8_length_seq s (s ! cur) 0x40 0x80 1 0 (cur + 1) = Some r"
    "case r of None \<Rightarrow> True | Some (n', msk', ign', u', cur') \<Rightarrow> 1 \<le> n' \<and> n' \<le> 5 \<and> cur' = cur + 1 + (n' - 1) \<and> cur' \<le> k"
    using seq_stops [OF assms(1), of "cur + 1" 1 "s ! cur" "0x40" "0x80" 0] assms(2) by auto
  show thesis
  proof (cases r)
    case None
    then have "utf8_length_char sc s (s ! cur) (cur + 1) = Some (Some (1, cur + 1)) \<or>
        utf8_length_char sc s (s ! cur) (cur + 1) = Some None"
      using r(1) by (simp add: utf8_length_char_def)
    then show thesis using that assms(2) by (metis Suc_eq_plus1 Suc_leI zero_less_one)
  next
    case (Some t)
    obtain n' msk' ign' u' cur' where t: "t = (n', msk', ign', u', cur')" by (cases t) auto
    then have c: "1 \<le> n'" "cur' = cur + n'" "cur' \<le> k" using r(2) Some by auto
    have "utf8_length_char sc s (s ! cur) (cur + 1) = Some (Some (1, cur + 1)) \<or>
        utf8_length_char sc s (s ! cur) (cur + 1) = Some None \<or>
        utf8_length_char sc s (s ! cur) (cur + 1) = Some (Some (n', cur + n'))"
      using r(1) by (simp add: utf8_length_char_def Some t c(2))
    then show thesis using that assms(2) c by (metis Suc_eq_plus1 Suc_leI zero_less_one less_le_trans)
  qed
qed

lemma loop_stops:
  "terminated_at s k \<Longrightarrow> cur \<le> k \<Longrightarrow> utf8_length_loop sc s cur cur \<in> {Some (- 1), Some (int k)}"
proof (induction "k - cur" arbitrary: cur rule: less_induct)
  case less
  show ?case
  proof (cases "cur = k")
    case True
    then show ?thesis using less.prems by (subst utf8_length_loop.simps) (simp add: load_at_def terminated_at_def)
  next
    case False
    then have cur: "cur < k" using less.prems by simp
    then have l: "load_at s cur = Some (s ! cur)" "s ! cur \<noteq> 0"
      using less.prems(1) by (simp_all add: terminated_at_def load_at_def)
    show ?thesis
    proof (rule char_stops [OF less.prems(1) cur, of sc])
      assume "utf8_length_char sc s (s ! cur) (cur + 1) = Some None"
      then show ?thesis using l by (subst utf8_length_loop.simps) simp
    next
      fix n
      assume n: "utf8_length_char sc s (s ! cur) (cur + 1) = Some (Some (n, cur + n))" "0 < n" "cur + n \<le> k"
      then have "utf8_length_loop sc s cur cur = utf8_length_loop sc s (cur + n) (cur + n)"
        using l by (subst utf8_length_loop.simps) simp
      also have "\<dots> \<in> {Some (- 1), Some (int k)}"
        using less.hyps [of "cur + n"] less.prems(1) cur n by simp
      finally show ?thesis .
    qed
  qed
qed

section \<open>A signed \<open>char\<close> makes it refuse what is not ASCII\<close>

definition byte_mask :: "char32 \<Rightarrow> bool" where
  "byte_mask m \<longleftrightarrow> (\<forall>i \<ge> 8. \<not> bit m i)"

lemma byte_maskI: "take_bit 8 m = m \<Longrightarrow> byte_mask m"
  by (metis bit_take_bit_iff byte_mask_def not_le)

lemma byte_mask_start: "byte_mask 0x40" "byte_mask 0x80"
  by (rule byte_maskI, simp)+

lemma byte_mask_step: "byte_mask m \<Longrightarrow> byte_mask i \<Longrightarrow> byte_mask (drop_bit 1 m) \<and> byte_mask (i OR m)"
  by (auto simp: byte_mask_def bit_simps)

lemma seq_masks:
  "utf8_length_seq s first msk ign n u cur = Some (Some (n', msk', ign', u', cur')) \<Longrightarrow>
    byte_mask msk \<Longrightarrow> byte_mask ign \<Longrightarrow> byte_mask msk' \<and> byte_mask ign' \<and> n' \<le> max n 5"
proof (induction s first msk ign n u cur rule: utf8_length_seq.induct)
  case (1 s first msk ign n u cur)
  show ?case
  proof (cases "n < 5 \<and> ucast first AND msk \<noteq> 0")
    case True
    with "1.prems"(1) obtain b where b: "load_at s cur = Some b" "b AND 0xC0 = 0x80"
      and rec: "utf8_length_seq s first (drop_bit 1 msk) (ign OR msk) (n + 1) (push_bit 6 u + (ucast b AND 0x3F)) (cur + 1)
        = Some (Some (n', msk', ign', u', cur'))"
      unfolding utf8_length_seq.simps [of s first msk ign n u cur] by (auto simp: bind_eq_Some_conv split: if_splits)
    show ?thesis
      using "1.IH" [OF True b(1) _ rec] b(2) byte_mask_step [OF "1.prems"(2,3)] True by auto
  next
    case False
    then show ?thesis using "1.prems" unfolding utf8_length_seq.simps [of s first msk ign n u cur] by auto
  qed
qed

lemma high_bit_large: "bit x 31 \<Longrightarrow> kUnicodeMaxCodepoint < x" for x :: char32
proof -
  assume "bit x 31"
  then have "odd (unat x div 2 ^ 31)" using single_bit [of 31 x] and_exp_eq_0_iff_not_bit [of x 31] by simp
  then have "2 ^ 31 \<le> unat x" by (metis div_less even_zero not_le)
  then show ?thesis by (simp add: kUnicodeMaxCodepoint_def word_less_nat_alt)
qed

lemma signed_char_refused:
  assumes "terminated_at s k" and "cur < k" and "0x80 \<le> unat (s ! cur)"
  shows "utf8_length_char True s (s ! cur) (cur + 1) = Some None"
proof -
  have seven: "bit (s ! cur) 7"
  proof -
    have "unat (s ! cur) < 256" using unsigned_less [of "s ! cur", where ?'a = nat] by simp
    then have "unat (s ! cur) div 2 ^ 7 = 1" using assms(3) by (intro div_nat_eqI) auto
    then have "s ! cur AND 2 ^ 7 \<noteq> 0" using single_bit [of 7 "s ! cur"] by simp
    then show ?thesis by (simp only: and_exp_eq_0_iff_not_bit simp_thms)
  qed
  have big: "kUnicodeMaxCodepoint < u OR push_bit (6 * (n - 1)) (NOT (i OR m) AND char_val True (s ! cur))"
    if "byte_mask i" "byte_mask m" "n \<le> 4" for n u and i m :: char32
  proof (rule high_bit_large)
    define k where "k = 6 * (n - 1)"
    have "k \<le> 18" using that(3) by (simp add: k_def)
    then have "8 \<le> 31 - k" "31 - k < 32" by simp_all
    then show "bit (u OR push_bit (6 * (n - 1)) (NOT (i OR m) AND char_val True (s ! cur))) 31"
      unfolding k_def [symmetric] using \<open>k \<le> 18\<close> that(1,2) seven by (simp add: byte_mask_def char_val_def bit_simps min_def)
  qed
  have not_ascii: "s ! cur AND 0x80 \<noteq> 0"
    using seven and_exp_eq_0_iff_not_bit [of "s ! cur" 7] by simp
  obtain r where r: "utf8_length_seq s (s ! cur) 0x40 0x80 1 0 (cur + 1) = Some r"
    "case r of None \<Rightarrow> True | Some (n', msk', ign', u', cur') \<Rightarrow> 1 \<le> n' \<and> n' \<le> 5 \<and> cur' = cur + 1 + (n' - 1) \<and> cur' \<le> k"
    using seq_stops [OF assms(1), of "cur + 1" 1 "s ! cur" "0x40" "0x80" 0] assms(2) by auto
  show ?thesis
  proof (cases r)
    case None
    then show ?thesis using r not_ascii by (simp add: utf8_length_char_def)
  next
    case (Some t)
    obtain n' msk' ign' u' cur' where t: "t = (n', msk', ign', u', cur')" by (cases t) auto
    have "byte_mask msk' \<and> byte_mask ign' \<and> n' \<le> max 1 5"
      by (rule seq_masks [OF r(1) [unfolded Some t] byte_mask_start])
    then show ?thesis using r(1) not_ascii big [of ign' msk' n' u'] Some t
      by (auto simp: utf8_length_char_def)
  qed
qed

lemma loop_signed:
  "terminated_at s k \<Longrightarrow> cur \<le> k \<Longrightarrow> utf8_length_loop True s cur cur =
    (if \<forall>i. cur \<le> i \<and> i < k \<longrightarrow> unat (s ! i) < 0x80 then Some (int k) else Some (- 1))"
proof (induction "k - cur" arbitrary: cur rule: less_induct)
  case less
  show ?case
  proof (cases "cur = k")
    case True
    then show ?thesis using less.prems by (subst utf8_length_loop.simps) (simp add: load_at_def terminated_at_def)
  next
    case False
    then have cur: "cur < k" using less.prems by simp
    then have l: "load_at s cur = Some (s ! cur)" "s ! cur \<noteq> 0"
      using less.prems(1) by (simp_all add: terminated_at_def load_at_def)
    show ?thesis
    proof (cases "unat (s ! cur) < 0x80")
      case True
      have "s ! cur AND 2 ^ 7 = 0" using single_bit [of 7 "s ! cur"] True by auto
      then have "utf8_length_char True s (s ! cur) (cur + 1) = Some (Some (1, cur + 1))"
        by (simp add: utf8_length_char_def)
      then have "utf8_length_loop True s cur cur = utf8_length_loop True s (cur + 1) (cur + 1)"
        using l by (subst utf8_length_loop.simps) simp
      also have "\<dots> = (if \<forall>i. cur + 1 \<le> i \<and> i < k \<longrightarrow> unat (s ! i) < 0x80 then Some (int k) else Some (- 1))"
        by (rule less.hyps) (use cur less.prems(1) in simp_all)
      also have "(\<forall>i. cur + 1 \<le> i \<and> i < k \<longrightarrow> unat (s ! i) < 0x80) \<longleftrightarrow> (\<forall>i. cur \<le> i \<and> i < k \<longrightarrow> unat (s ! i) < 0x80)"
      proof (intro iffI allI impI)
        fix i assume "\<forall>i. cur + 1 \<le> i \<and> i < k \<longrightarrow> unat (s ! i) < 0x80" "cur \<le> i \<and> i < k"
        then show "unat (s ! i) < 0x80" using True by (cases "i = cur") simp_all
      qed simp
      finally show ?thesis .
    next
      case False
      then have "utf8_length_char True s (s ! cur) (cur + 1) = Some None"
        by (intro signed_char_refused [OF less.prems(1) cur]) simp
      then have "utf8_length_loop True s cur cur = Some (- 1)"
        using l by (subst utf8_length_loop.simps) simp
      then show ?thesis using False cur by auto
    qed
  qed
qed

section \<open>An unsigned \<open>char\<close> measures encoded strings\<close>

lemma tail_bits: "b AND 0xC0 = 0x80" if "b = word_of_nat (0x80 + n mod 64)" for b :: byte
proof -
  have m: "(0xC0 :: byte) = push_bit 6 (mask 2)" by (simp add: mask_eq_exp_minus_1)
  have u: "unat b = 0x80 + n mod 64"
  proof -
    have "0x80 + n mod 64 < 256" by (rule less_trans [OF add_strict_left_mono [OF mod_less_divisor]]) simp_all
    then show ?thesis by (simp only: that unat_byte mod_less)
  qed
  have "b AND 0xC0 = push_bit 6 (drop_bit 6 b)"
    unfolding m by (rule bit_word_eqI) (auto simp: bit_simps dest: bit_imp_le_length)
  moreover have "unat (drop_bit 6 b) = 2"
  proof -
    have "(0x80 + n mod 64) div 64 = 2" by (rule div_nat_eqI) simp_all
    then show ?thesis by (simp only: unat_shift u) simp
  qed
  then have "drop_bit 6 b = 2" by (simp add: word_unat_eq_iff)
  ultimately show ?thesis by simp
qed

lemma shift_add:
  "unat u < 2 ^ 26 \<Longrightarrow> unat (push_bit 6 u + (ucast b AND 0x3F) :: char32) = unat u * 64 + unat b mod 64" for b :: byte
  using shift_add_mod [of 26 u b] unsigned_less [of "push_bit 6 u + (ucast b AND 0x3F) :: char32", where ?'a = nat] by simp

lemma seq_more: "n < 5 \<Longrightarrow> ucast first AND msk \<noteq> 0 \<Longrightarrow> load_at s cur = Some b \<Longrightarrow> b AND 0xC0 = 0x80 \<Longrightarrow>
    utf8_length_seq s first msk ign n u cur =
    utf8_length_seq s first (drop_bit 1 msk) (ign OR msk) (n + 1) (push_bit 6 u + (ucast b AND 0x3F)) (cur + 1)"
  by (subst utf8_length_seq.simps) simp

lemma seq_done: "ucast first AND msk = 0 \<Longrightarrow> utf8_length_seq s first msk ign n u cur = Some (Some (n, msk, ign, u, cur))"
  by (subst utf8_length_seq.simps) simp

lemmas first_bits = char_val_set [of _ False, unfolded char_val_def if_False] char_val_clear [of _ False, unfolded char_val_def if_False]

lemma byte_bits: "0xC0 \<le> unat b \<Longrightarrow> b AND 0x80 \<noteq> 0" "0xC0 \<le> unat b \<Longrightarrow> b AND 0x40 \<noteq> 0"
  for b :: byte
proof -
  assume b: "0xC0 \<le> unat b"
  moreover have "unat b < 256" using unsigned_less [of b, where ?'a = nat] by simp
  ultimately have "unat b div 2 ^ 7 = 1" "unat b div 2 ^ 6 = 3" by (auto intro!: div_nat_eqI)
  then show "b AND 0x80 \<noteq> 0" "b AND 0x40 \<noteq> 0" using single_bit [of 7 b] single_bit [of 6 b] by simp_all
qed

lemma payload_bits:
  "NOT (0xE0 :: char32) AND ucast b = ucast b AND mask 5" "NOT (0xF0 :: char32) AND ucast b = ucast b AND mask 4"
  "NOT (0xF8 :: char32) AND ucast b = ucast b AND mask 3" for b :: byte
proof -
  have "(0xE0 :: char32) = push_bit 5 (mask 3)" "(0xF0 :: char32) = push_bit 4 (mask 4)" "(0xF8 :: char32) = push_bit 3 (mask 5)"
    by (simp_all add: mask_eq_exp_minus_1)
  note m = this
  show "NOT (0xE0 :: char32) AND ucast b = ucast b AND mask 5" 
    unfolding m by (rule bit_word_eqI) (auto simp: bit_simps dest: bit_imp_le_length)
  show "NOT (0xF0 :: char32) AND ucast b = ucast b AND mask 4"
    unfolding m by (rule bit_word_eqI) (auto simp: bit_simps dest: bit_imp_le_length)
  show "NOT (0xF8 :: char32) AND ucast b = ucast b AND mask 3"
    unfolding m by (rule bit_word_eqI) (auto simp: bit_simps dest: bit_imp_le_length)
qed

lemma max_codepoint: "scalar c \<Longrightarrow> \<not> kUnicodeMaxCodepoint < c"
  by (auto simp: scalar_def kUnicodeMaxCodepoint_def word_less_nat_alt word_le_nat_alt)

lemma unfold_length_char:
  assumes "0xC0 \<le> unat b" and "utf8_length_seq s b 0x40 0x80 1 0 cur = Some (Some (n, msk, ign, u, cur'))"
    and "n \<noteq> 5" and "u OR push_bit (6 * (n - 1)) (NOT (ign OR msk) AND ucast b) = c" and "scalar c"
  shows "utf8_length_char False s b cur = Some (Some (n, cur'))"
  using assms byte_bits [of b] max_codepoint [of c] by (simp add: utf8_length_char_def char_val_def)

lemma join_value:
  fixes c :: char32
  assumes "unat y * 2 ^ j < 2 ^ 32" and "unat u < 2 ^ j" and "unat y * 2 ^ j + unat u = unat c"
  shows "u OR push_bit j y = c"
  using unat_join [of y j u] assms by (simp add: word_unat_eq_iff or.commute)

lemma length_char_encoded2:
  assumes c: "0x80 \<le> unat c" "unat c < 0x800" and d: "drop p s = b # rest @ r" and e: "utf8_enc c = b # rest"
  shows "utf8_length_char False s b (p + 1) = Some (Some (2, p + 2))"
proof -
  define b1 :: byte where "b1 = word_of_nat (0x80 + unat c mod 64)"
  have b: "b = word_of_nat (0xC0 + unat c div 64)" and r: "rest = [b1]"
    using e by (simp_all add: enc2 [OF c] b1_def del: of_nat_add)
  have l: "load_at s (p + 1) = Some b1" using d r by (simp only: load_at_drop) simp
  have n: "unat c div 64 < 32" using c by simp
  have "unat b = 0xC0 + unat c div 64" unfolding b by (rule lead_number(1) [OF n])
  then have lo: "0xC0 \<le> unat b" and hi: "unat b < 0xE0" using n by simp_all
  have t: "b1 AND 0xC0 = 0x80" by (rule tail_bits [OF b1_def])
  let ?u = "push_bit 6 0 + (ucast b1 AND 0x3F) :: char32"
  have u: "unat ?u = unat c mod 64"
    using shift_add [of 0 b1] tail_number [of "unat c"] by (simp only: b1_def) simp
  have y: "unat (ucast b AND mask 5 :: char32) = unat c div 64"
    using lead_digit(1) [OF n] by (simp only: unat_low unat_wide8 b) simp
  have "?u OR push_bit 6 (ucast b AND mask 5) = c"
    by (rule join_value) (use digits2 [of "unat c"] n in \<open>simp_all only: u y\<close>, simp_all)
  moreover have "(0xC0 OR 0x20 :: char32) = 0xE0" "6 * (2 - 1) = (6 :: nat)" by simp_all
  ultimately have v: "?u OR push_bit (6 * (2 - 1)) (NOT (0xC0 OR 0x20) AND ucast b) = c"
    by (simp only: payload_bits)
  have "utf8_length_seq s b 0x40 0x80 1 0 (p + 1) = Some (Some (2, 0x20, 0xC0, ?u, p + 2))"
    using lo hi t l by (simp add: seq_more seq_done first_bits)
  then show ?thesis
    by (rule unfold_length_char [OF lo _ _ v]) (use c in \<open>simp_all add: scalar_def word_less_nat_alt\<close>)
qed

lemma length_char_encoded3:
  assumes c: "0x800 \<le> unat c" "unat c < 0x10000" "scalar c"
    and d: "drop p s = b # rest @ r" and e: "utf8_enc c = b # rest"
  shows "utf8_length_char False s b (p + 1) = Some (Some (3, p + 3))"
proof -
  define b1 :: byte where "b1 = word_of_nat (0x80 + unat c div 64 mod 64)"
  define b2 :: byte where "b2 = word_of_nat (0x80 + unat c mod 64)"
  have b: "b = word_of_nat (0xE0 + unat c div 4096)" and r: "rest = [b1, b2]"
    using e by (simp_all add: enc3 [OF c] b1_def b2_def del: of_nat_add)
  have l: "load_at s (p + 1) = Some b1" "load_at s (p + 2) = Some b2"
    using d r by (simp_all only: load_at_drop) simp_all
  have n: "unat c div 4096 < 16" using c by simp
  have "unat b = 0xE0 + unat c div 4096" unfolding b by (rule lead_number(2) [OF n])
  then have lo: "0xE0 \<le> unat b" and hi: "unat b < 0xF0" using n by simp_all
  then have lo': "0xC0 \<le> unat b" by simp
  have t: "b1 AND 0xC0 = 0x80" "b2 AND 0xC0 = 0x80" by (rule tail_bits [OF b1_def], rule tail_bits [OF b2_def])
  let ?u = "push_bit 6 0 + (ucast b1 AND 0x3F) :: char32"
  let ?v = "push_bit 6 ?u + (ucast b2 AND 0x3F)"
  have tail: "unat b1 mod 64 = unat c div 64 mod 64" "unat b2 mod 64 = unat c mod 64"
    by (simp_all only: b1_def b2_def tail_number)
  have small: "unat c div 64 mod 64 < 64" "unat c mod 64 < 64" by simp_all
  have u: "unat ?u = unat c div 64 mod 64" using shift_add [of 0 b1] tail(1) by simp
  have v: "unat ?v = unat c div 64 mod 64 * 64 + unat c mod 64"
    using shift_add [of ?u b2] u tail(2) small(1) by (simp only: u) simp
  have y: "unat (ucast b AND mask 4 :: char32) = unat c div 4096"
    using lead_digit(2) [OF n] by (simp only: unat_low unat_wide8 b) simp
  have "?v OR push_bit 12 (ucast b AND mask 4) = c"
    by (rule join_value) (use digits3 [of "unat c"] n small in \<open>simp_all only: v y\<close>, simp_all)
  moreover have "(0xE0 OR 0x10 :: char32) = 0xF0" "6 * (3 - 1) = (12 :: nat)" by simp_all
  ultimately have w: "?v OR push_bit (6 * (3 - 1)) (NOT (0xE0 OR 0x10) AND ucast b) = c"
    by (simp only: payload_bits)
  have "utf8_length_seq s b 0x40 0x80 1 0 (p + 1) = Some (Some (3, 0x10, 0xE0, ?v, p + 3))"
    using lo' lo hi t l by (simp add: seq_more seq_done first_bits)
  then show ?thesis by (rule unfold_length_char [OF lo' _ _ w c(3)]) simp
qed

lemma length_char_encoded4:
  assumes c: "0x10000 \<le> unat c" "scalar c"
    and d: "drop p s = b # rest @ r" and e: "utf8_enc c = b # rest"
  shows "utf8_length_char False s b (p + 1) = Some (Some (4, p + 4))"
proof -
  define b1 :: byte where "b1 = word_of_nat (0x80 + unat c div 4096 mod 64)"
  define b2 :: byte where "b2 = word_of_nat (0x80 + unat c div 64 mod 64)"
  define b3 :: byte where "b3 = word_of_nat (0x80 + unat c mod 64)"
  have b: "b = word_of_nat (0xF0 + unat c div 262144)" and r: "rest = [b1, b2, b3]"
    using e by (simp_all add: enc4 [OF c] b1_def b2_def b3_def del: of_nat_add)
  have l: "load_at s (p + 1) = Some b1" "load_at s (p + 2) = Some b2" "load_at s (p + 3) = Some b3"
    using d r by (simp_all only: load_at_drop) simp_all
  have n: "unat c div 262144 < 8" using scalar_bound [OF c(2)] by simp
  have "unat b = 0xF0 + unat c div 262144" unfolding b by (rule lead_number(3) [OF n])
  then have lo: "0xF0 \<le> unat b" and hi: "unat b < 0xF8" using n by simp_all
  then have lo': "0xE0 \<le> unat b" "0xC0 \<le> unat b" by simp_all
  have t: "b1 AND 0xC0 = 0x80" "b2 AND 0xC0 = 0x80" "b3 AND 0xC0 = 0x80"
    by (rule tail_bits [OF b1_def], rule tail_bits [OF b2_def], rule tail_bits [OF b3_def])
  let ?u = "push_bit 6 0 + (ucast b1 AND 0x3F) :: char32"
  let ?v = "push_bit 6 ?u + (ucast b2 AND 0x3F)"
  let ?w = "push_bit 6 ?v + (ucast b3 AND 0x3F)"
  have tail: "unat b1 mod 64 = unat c div 4096 mod 64" "unat b2 mod 64 = unat c div 64 mod 64"
    "unat b3 mod 64 = unat c mod 64"
    by (simp_all only: b1_def b2_def b3_def tail_number)
  have small: "unat c div 4096 mod 64 < 64" "unat c div 64 mod 64 < 64" "unat c mod 64 < 64" by simp_all
  have u: "unat ?u = unat c div 4096 mod 64" using shift_add [of 0 b1] tail(1) by simp
  have v: "unat ?v = unat c div 4096 mod 64 * 64 + unat c div 64 mod 64"
    using shift_add [of ?u b2] u tail(2) small(1) by (simp only: u) simp
  have w: "unat ?w = unat c div 4096 mod 64 * 4096 + unat c div 64 mod 64 * 64 + unat c mod 64"
    using shift_add [of ?v b3] tail(3) small by (simp only: v) simp
  have y: "unat (ucast b AND mask 3 :: char32) = unat c div 262144"
    using lead_digit(3) [OF n] by (simp only: unat_low unat_wide8 b) simp
  have "unat c div 4096 mod 64 * 4096 + unat c div 64 mod 64 * 64 + unat c mod 64 < 262144" using small by linarith
  then have "?w OR push_bit 18 (ucast b AND mask 3) = c"
    by (intro join_value) (use digits_four [of "unat c"] n in \<open>simp_all only: w y\<close>, simp_all)
  moreover have "(0xF0 OR 0x08 :: char32) = 0xF8" "6 * (4 - 1) = (18 :: nat)" by simp_all
  ultimately have x: "?w OR push_bit (6 * (4 - 1)) (NOT (0xF0 OR 0x08) AND ucast b) = c"
    by (simp only: payload_bits)
  have "utf8_length_seq s b 0x40 0x80 1 0 (p + 1) = Some (Some (4, 0x08, 0xF0, ?w, p + 4))"
    using lo' lo hi t l(1,2) l(3) [unfolded numeral_3_eq_3] by (simp add: seq_more seq_done first_bits)
  then show ?thesis by (rule unfold_length_char [OF lo'(2) _ _ x c(2)]) simp
qed

lemma length_char_encoded1: "unat b < 0x80 \<Longrightarrow> utf8_length_char sc s b p = Some (Some (1, p))"
proof -
  assume b: "unat b < 0x80"
  have "b AND 2 ^ 7 = 0" using single_bit [of 7 b] b by auto
  then show ?thesis by (simp add: utf8_length_char_def)
qed

lemma length_char_encoded:
  assumes "scalar c" and "drop p s = utf8_enc c @ r" and "load_at s p = Some b"
  shows "utf8_length_char False s b (p + 1) = Some (Some (length (utf8_enc c), p + length (utf8_enc c)))"
proof -
  obtain rest where e: "utf8_enc c = b # rest"
    using assms utf8_enc_nonempty [OF assms(1)] by (cases "utf8_enc c") (auto simp: load_at_0 [of s p])
  have d: "drop p s = b # rest @ r" using assms(2) e by simp
  show ?thesis
  proof (rule codepoint_split [of c])
    assume c: "unat c < 0x80"
    then have "b = word_of_nat (unat c)" "rest = []" using e by (simp_all add: enc1)
    then have "unat b < 0x80" using c by (simp add: unat_cast8)
    then show ?thesis using c by (simp add: length_char_encoded1 enc1)
  qed (use assms(1) length_char_encoded2 [OF _ _ d e] length_char_encoded3 [OF _ _ _ d e]
      length_char_encoded4 [OF _ _ d e] in \<open>simp_all add: enc2 enc3 enc4\<close>)
qed

lemma loop_encoded:
  "list_all scalar cs \<Longrightarrow> 0 \<notin> set (utf8s cs) \<Longrightarrow> drop p s = utf8s cs @ 0 # r \<Longrightarrow>
    utf8_length_loop False s p ret = Some (int (ret + length (utf8s cs)))"
proof (induction cs arbitrary: p ret)
  case Nil
  then show ?case by (subst utf8_length_loop.simps) (simp add: load_at_0 [of s p])
next
  case (Cons c cs)
  have s: "drop p s = utf8_enc c @ utf8s cs @ 0 # r" using Cons.prems(3) by simp
  have c: "scalar c" using Cons.prems(1) by simp
  obtain b rest where e: "utf8_enc c = b # rest" using utf8_enc_nonempty [OF c] by (cases "utf8_enc c") auto
  have l: "load_at s p = Some b" using s e by (simp add: load_at_0 [of s p])
  have "b \<noteq> 0" using Cons.prems(2) e by auto
  then show ?case
    using l length_char_encoded [OF c s l] Cons.IH [OF _ _ drop_next [OF s]] Cons.prems(1,2)
    by (subst utf8_length_loop.simps) (simp add: add.assoc)
qed

section \<open>Counting characters\<close>

lemma skip_more: "ucast first AND msk \<noteq> 0 \<Longrightarrow> skip_loop first msk n = skip_loop first (drop_bit 1 msk) (n + 1)"
  by (subst skip_loop.simps) simp

lemma skip_done: "ucast first AND msk = 0 \<Longrightarrow> skip_loop first msk n = n"
  by (subst skip_loop.simps) simp

lemma num_to_skip_table:
  "unat b < 0x80 \<Longrightarrow> num_to_skip b = 1"
  "0xC0 \<le> unat b \<Longrightarrow> unat b < 0xE0 \<Longrightarrow> num_to_skip b = 2"
  "0xE0 \<le> unat b \<Longrightarrow> unat b < 0xF0 \<Longrightarrow> num_to_skip b = 3"
  "0xF0 \<le> unat b \<Longrightarrow> unat b < 0xF8 \<Longrightarrow> num_to_skip b = 4"
proof -
  assume b: "unat b < 0x80"
  have "b AND 2 ^ 7 = 0" using single_bit [of 7 b] b by auto
  then show "num_to_skip b = 1" by (simp add: num_to_skip_def)
qed (use byte_bits [of b] first_bits [of b] in \<open>simp_all add: num_to_skip_def skip_more skip_done\<close>)

lemma utf32_length_encoded:
  "list_all scalar cs \<Longrightarrow> drop p s = utf8s cs \<Longrightarrow> p \<le> length s \<Longrightarrow>
    utf8_to_utf32_length_loop s (length s) p ret = Some (ret + length cs)"
proof (induction cs arbitrary: p ret)
  case Nil
  then show ?case by (subst utf8_to_utf32_length_loop.simps) simp
next
  case (Cons c cs)
  have s: "drop p s = utf8_enc c @ utf8s cs" using Cons.prems(2) by simp
  have c: "scalar c" using Cons.prems(1) by simp
  obtain b where b: "load_at s p = Some b" "lead_of b (length (utf8_enc c))" by (rule encoded_lead [OF c s])
  then have "num_to_skip b = length (utf8_enc c)" by (auto simp: lead_of_def num_to_skip_table)
  then show ?case
    using b(1) drop_inside [OF s utf8_enc_nonempty [OF c]] Cons.IH [OF _ drop_next [OF s] drop_room [OF s Cons.prems(3)]] Cons.prems(1)
    by (subst utf8_to_utf32_length_loop.simps) simp
qed

end
