(* ===== verification/Unicode_Compare.thy ===== *)
theory Unicode_Compare
  imports Unicode_Chars
begin

unbundle bit_operations_syntax

text \<open>The comparisons of UTF-16 strings against one reference, and the bounded copy.\<close>

section \<open>Comparison\<close>

fun compare16 :: "char16 list \<Rightarrow> char16 list \<Rightarrow> int" where
  "compare16 [] [] = 0"
| "compare16 [] (b # bs) = - uint b"
| "compare16 (a # as) [] = uint a"
| "compare16 (a # as) (b # bs) = (if a = b then compare16 as bs else uint a - uint b)"

lemma uint_diff: "uint a - uint b = 0 \<longleftrightarrow> a = b" for a b :: char16
  by (simp add: word_uint_eq_iff)

definition tail16 :: "char16 list \<Rightarrow> nat \<Rightarrow> char16 list \<Rightarrow> nat \<Rightarrow> int option" where
  "tail16 s1 n1 s2 n2 =
    (if n1 < n2 then do { c \<leftarrow> load_at s2 n1; Some (0 - uint c) }
     else if n1 > n2 then do { c \<leftarrow> load_at s1 n2; Some (uint c - 0) }
     else Some 0)"

lemma strzcmp_loop_compare:
  "i + k = min n1 n2 \<Longrightarrow> n1 \<le> length s1 \<Longrightarrow> n2 \<le> length s2 \<Longrightarrow>
    (strzcmp_loop s1 s2 k i \<bind> (\<lambda>d. if d \<noteq> 0 then Some d else tail16 s1 n1 s2 n2)) =
    Some (compare16 (drop i (take n1 s1)) (drop i (take n2 s2)))"
proof (induction k arbitrary: i)
  case 0
  then consider "i = n1" "n1 < n2" | "i = n2" "n2 < n1" | "i = n1" "i = n2" by fastforce
  then show ?case
  proof cases
    case 1
    then have "drop i (take n2 s2) = s2 ! n1 # drop (Suc n1) (take n2 s2)"
      using 0 by (simp add: Cons_nth_drop_Suc [symmetric])
    then show ?thesis using 0 1 by (simp add: tail16_def load_at_def)
  next
    case 2
    then have "drop i (take n1 s1) = s1 ! n2 # drop (Suc n2) (take n1 s1)"
      using 0 by (simp add: Cons_nth_drop_Suc [symmetric])
    then show ?thesis using 0 2 by (simp add: tail16_def load_at_def)
  qed (simp add: tail16_def)
next
  case (Suc k)
  then have lt: "i < n1" "i < n2" by simp_all
  then have "drop i (take n1 s1) = s1 ! i # drop (Suc i) (take n1 s1)" "drop i (take n2 s2) = s2 ! i # drop (Suc i) (take n2 s2)"
    using Suc.prems by (simp_all add: Cons_nth_drop_Suc [symmetric])
  then show ?case using Suc.IH [of "i + 1"] Suc.prems lt uint_diff [of "s1 ! i" "s2 ! i"]
    by (auto simp: load_at_def Let_def)
qed

lemma strzcmp16_compare:
  assumes "n1 \<le> length s1" and "n2 \<le> length s2"
  shows "strzcmp16 s1 n1 s2 n2 = Some (compare16 (take n1 s1) (take n2 s2))"
  using strzcmp_loop_compare [of 0 "min n1 n2" n1 n2 s1 s2] assms
  by (simp add: strzcmp16_def tail16_def cong: if_cong)

lemma load_at_map: "load_at (map f s) i = map_option f (load_at s i)"
  by (simp add: load_at_def)

lemma h_n_loop: "strzcmp_h_n_loop s1 s2 k i = strzcmp_loop s1 (map ntohs16 s2) k i"
proof (induction k arbitrary: i)
  case (Suc k)
  then show ?case by (cases "load_at s1 i"; cases "load_at s2 i") (simp_all add: load_at_map)
qed simp

lemma load_at_map_bind: "load_at (map f s) i \<bind> g = load_at s i \<bind> (\<lambda>c. g (f c))"
  by (cases "load_at s i") (simp_all add: load_at_map)

lemma h_n_compare: "strzcmp16_h_n s1 n1 s2 n2 = strzcmp16 s1 n1 (map ntohs16 s2) n2"
  unfolding strzcmp16_h_n_def strzcmp16_def h_n_loop load_at_map_bind ..

lemma ntohs16_bit: "i < 16 \<Longrightarrow> bit (ntohs16 c) i \<longleftrightarrow> bit c (if i < 8 then i + 8 else i - 8)"
proof -
  assume i: "i < 16"
  have m: "(0xFF00 :: char16) = push_bit 8 (mask 8)" "(0xFF :: char16) = mask 8" by (simp_all add: mask_eq_exp_minus_1)
  have "bit (ntohs16 c) i \<longleftrightarrow> (8 \<le> i \<and> bit c (i - 8) \<and> i - 8 < 8) \<or> (bit c (i + 8) \<and> i < 8)"
    unfolding ntohs16_def m using i
    by (simp only: bit_or_iff bit_and_iff bit_push_bit_iff bit_drop_bit_eq bit_mask_iff o_apply) (auto simp: add.commute)
  then show ?thesis using i by auto
qed

lemma ntohs16_twice: "ntohs16 (ntohs16 c) = c"
proof (rule bit_word_eqI)
  fix i assume "i < LENGTH(16)"
  then show "bit (ntohs16 (ntohs16 c)) i \<longleftrightarrow> bit c i" by (cases "i < 8") (auto simp: ntohs16_bit)
qed

lemma compare16_zero: "compare16 a b = 0 \<longleftrightarrow> a = b \<or> (\<exists>r. b = a @ 0 # r) \<or> (\<exists>r. a = b @ 0 # r)"
proof (induction a b rule: compare16.induct)
  case (4 a as b bs)
  then show ?case using uint_diff [of a b] by auto
qed (auto simp: uint_0_iff)

lemma compare16_swap: "compare16 b a = - compare16 a b"
  by (induction a b rule: compare16.induct) auto

lemma strcmp16_compare:
  "drop i s1 = a @ 0 # r1 \<Longrightarrow> drop i s2 = b @ 0 # r2 \<Longrightarrow> 0 \<notin> set a \<Longrightarrow> 0 \<notin> set b \<Longrightarrow>
    strcmp16 s1 s2 i = Some (compare16 a b)"
proof (induction a b arbitrary: i rule: compare16.induct)
  case 1
  then show ?case by (subst strcmp16.simps) (simp add: load_at_0 [of s1 i] load_at_0 [of s2 i] uint_0_iff)
next
  case (2 b bs)
  then show ?case by (subst strcmp16.simps) (simp add: load_at_0 [of s1 i] load_at_0 [of s2 i] uint_0_iff)
next
  case (3 a as)
  then show ?case using uint_diff [of a 0] by (subst strcmp16.simps) (auto simp: load_at_0 [of s1 i] load_at_0 [of s2 i])
next
  case (4 a as b bs)
  have "drop (i + 1) s1 = as @ 0 # r1" "drop (i + 1) s2 = bs @ 0 # r2"
    using "4.prems"(1,2) by (simp_all add: drop_Suc drop_tl)
  then have "a = b \<Longrightarrow> strcmp16 s1 s2 (i + 1) = Some (compare16 as bs)" using "4.IH" [of "i + 1"] "4.prems"(3,4) by simp
  moreover have "load_at s1 i = Some a" "load_at s2 i = Some b"
    using "4.prems"(1,2) by (simp_all add: load_at_0 [of s1 i] load_at_0 [of s2 i])
  moreover have "a \<noteq> 0" using "4.prems"(3) by auto
  ultimately show ?case using uint_diff [of a b]
    by (subst strcmp16.simps) (auto simp: Let_def)
qed

section \<open>The bounded copy\<close>

lemma as_char_id: "unat c < 0x80 \<Longrightarrow> as_char sc c = c"
proof (rule bit_word_eqI)
  assume c: "unat c < 0x80"
  then have t: "take_bit 7 c = c" by (simp add: word_unat_eq_iff unsigned_take_bit_eq take_bit_nat_eq_self)
  have b: "bit c i \<Longrightarrow> i < 7" for i using t by (metis bit_take_bit_iff)
  fix i :: nat
  assume "i < LENGTH(16)"
  then show "bit (as_char sc c) i \<longleftrightarrow> bit c i"
    using b [of i] b [of 7] by (auto simp: as_char_def bit_simps min_def)
qed

lemma as_char_byte: "as_char sc c = 0 \<longleftrightarrow> unat c mod 256 = 0"
proof -
  have "as_char sc c = 0 \<longleftrightarrow> (ucast c :: byte) = 0"
  proof
    assume zero: "as_char sc c = 0"
    have "bit (as_char sc c) i \<longleftrightarrow> bit (ucast c :: byte) i" if "i < 8" for i
      using that by (cases "i = 7") (auto simp: as_char_def bit_simps min_def)
    then have "\<not> bit (ucast c :: byte) i" if "i < 8" for i using that zero by simp
    then show "(ucast c :: byte) = 0" by (intro bit_word_eqI) simp
  qed (simp add: as_char_def)
  also have "\<dots> \<longleftrightarrow> unat c mod 256 = 0"
    by (simp add: word_unat_eq_iff unsigned_ucast_eq take_bit_eq_mod)
  finally show ?thesis .
qed

lemma strncpy16_loop_copies:
  "n \<le> length src - i \<Longrightarrow> i + n \<le> length src \<Longrightarrow> \<forall>c \<in> set (take n (drop i src)). as_char sc c \<noteq> 0 \<Longrightarrow> i + n \<le> length dst \<Longrightarrow>
    strncpy16_loop sc dst src n i = put_at dst i (map (as_char sc) (take n (drop i src))) \<bind> (\<lambda>d. Some (d, i + n))"
proof (induction n arbitrary: i dst)
  case 0
  then show ?case by (simp add: put_at_Nil)
next
  case (Suc n)
  then have d: "drop i src = src ! i # drop (Suc i) src" by (simp add: Cons_nth_drop_Suc)
  let ?x = "as_char sc (src ! i)"
  have x: "?x \<noteq> 0" using Suc.prems(3) d by simp
  have st: "store_at dst i ?x = Some (dst[i := ?x])" using Suc.prems by (simp add: store_at_def)
  have "strncpy16_loop sc dst src (Suc n) i = strncpy16_loop sc (dst[i := ?x]) src n (i + 1)"
    using Suc.prems x st by (simp add: load_at_def Let_def)
  also have "\<dots> = put_at (dst[i := ?x]) (i + 1) (map (as_char sc) (take n (drop (i + 1) src))) \<bind> (\<lambda>d. Some (d, i + 1 + n))"
    by (rule Suc.IH) (use Suc.prems d in auto)
  also have "\<dots> = (put_at dst i [?x] \<bind> (\<lambda>d. put_at d (i + 1) (map (as_char sc) (take n (drop (i + 1) src))))) \<bind> (\<lambda>d. Some (d, i + Suc n))"
    using st by (simp flip: store_at_put)
  also have "\<dots> = put_at dst i (map (as_char sc) (take (Suc n) (drop i src))) \<bind> (\<lambda>d. Some (d, i + Suc n))"
    using put_at_append [of dst i "[?x]" "map (as_char sc) (take n (drop (i + 1) src))"] d by simp
  finally show ?case .
qed

lemma strncpy16_copies:
  assumes "n \<le> length src" and "n \<le> length dst" and "\<forall>c \<in> set (take n src). as_char sc c \<noteq> 0"
  shows "strncpy16 sc dst src n = put_at dst 0 (map (as_char sc) (take n src) @ [0])"
proof -
  have "strncpy16_loop sc dst src n 0 = put_at dst 0 (map (as_char sc) (take n src)) \<bind> (\<lambda>d. Some (d, n))"
    using strncpy16_loop_copies [of n src 0 sc dst] assms by simp
  then show ?thesis
    using put_at_append [of dst 0 "map (as_char sc) (take n src)" "[0]"] min_absorb2 [OF assms(1)]
    by (simp add: strncpy16_def store_at_put)
qed

end
