(* ===== verification/Unicode_Theorems.thy ===== *)
theory Unicode_Theorems
  imports Unicode_Length Unicode_Compare
begin

unbundle bit_operations_syntax

text \<open>The properties of the character conversions.\<close>

section \<open>Round trips\<close>

text \<open>
  C13. A string of Unicode characters in UTF-16 is measured exactly, converted to the UTF-8 that
  the standard prescribes with a terminator, and converted back to itself: each conversion
  writes exactly what the measuring function announced and leaves the rest of the
  destination alone.
\<close>

theorem utf16_utf8_roundtrip:
  assumes "list_all scalar cs" and "cs \<noteq> []" and "s = concat (map utf16_enc cs)" and "u = concat (map utf8_enc cs)"
    and "length u < length d" and "length s < length d'"
  shows "utf16_to_utf8_length (Some s) (length s) = Some (int (length u)) \<and>
    utf16_to_utf8 (Some s) (length s) (Some d) = Some (Some (u @ 0 # drop (length u + 1) d)) \<and>
    utf8_to_utf16_length u (length u) = Some (int (length s)) \<and>
    utf8_to_utf16 u (length u) d' = Some (s @ 0 # drop (length s + 1) d')"
proof -
  have n: "length s \<noteq> 0" using assms(2,3) by (cases cs) simp_all
  have "utf16_length_loop s (length s) 0 0 = Some (length u)"
    using utf16_length_loop_sum [OF assms(1), of 0 s 0] assms(3,4) by simp
  then have "utf16_to_utf8_length (Some s) (length s) = Some (int (length u))"
    using n by (simp add: utf16_to_utf8_length_def)
  moreover have "utf16_to_utf8 (Some s) (length s) (Some d) = Some (Some (u @ 0 # drop (length u + 1) d))"
    using utf16_to_utf8_writes [OF assms(1,2), of d] assms(5) unfolding assms(3,4) by (simp add: put_at_start del: length_concat)
  moreover have "utf8_to_utf16_length u (length u) = Some (int (length s))"
    using utf8_to_utf16_length_loop_sum [OF assms(1), of 0 u 0] assms(3,4) by (simp add: utf8_to_utf16_length_def)
  moreover have "utf8_to_utf16_loop u (length u) 0 d' 0 = written d' 0 s"
    using utf8_to_utf16_loop_writes [OF assms(1), of 0 u 0 d'] assms(3,4) by simp
  then have "utf8_to_utf16 u (length u) d' = put_at d' 0 (s @ [0])"
    by (simp only: utf8_to_utf16_def utf8_to_utf16_no_null_terminator_def written_end)
  then have "utf8_to_utf16 u (length u) d' = Some (s @ 0 # drop (length s + 1) d')"
    using assms(6) by (simp add: put_at_start)
  ultimately show ?thesis by blast
qed

theorem utf16_utf8_roundtrip_witness:
  "utf16_to_utf8_length (Some [0x30, 0x2323, 0xD800, 0xDC00]) 4 = Some 8 \<and>
   utf8_to_utf16_length [0x30, 0xE2, 0x8C, 0xA3, 0xF0, 0x90, 0x80, 0x80] 8 = Some 4"
proof -
  have e: "concat (map utf16_enc [0x30, 0x2323, 0x10000]) = [0x30, 0x2323, 0xD800, 0xDC00]"
    "concat (map utf8_enc [0x30, 0x2323, 0x10000]) = [0x30, 0xE2, 0x8C, 0xA3, 0xF0, 0x90, 0x80, 0x80]"
    by (simp_all add: utf16_enc_def utf8_enc_def scalar_def)
  have l: "length [0x30, 0x2323, 0xD800, 0xDC00 :: char16] = 4" "length [0x30, 0xE2, 0x8C, 0xA3, 0xF0, 0x90, 0x80, 0x80 :: byte] = 8"
    by simp_all
  have "list_all scalar [0x30, 0x2323, 0x10000]" by (simp add: scalar_def)
  from utf16_utf8_roundtrip [OF this _ refl refl, of "replicate 9 0" "replicate 5 0", unfolded e l] show ?thesis by simp
qed

text \<open>
  A string of Unicode characters in UTF-32 is measured exactly and converted to the UTF-8
  that the standard prescribes; that has as many characters as the original, is converted back
  to it, and is read character by character with \<^verbatim>\<open>utf32_from_utf8_at\<close>, whether \<^verbatim>\<open>char\<close> is
  signed or not.
\<close>

theorem utf32_utf8_roundtrip:
  assumes "list_all scalar cs" and "cs \<noteq> []" and "u = concat (map utf8_enc cs)"
    and "length u < length d" and "length cs < length d'"
  shows "utf32_to_utf8_length (Some cs) (length cs) = Some (int (length u)) \<and>
    utf32_to_utf8 (Some cs) (length cs) (Some d) = Some (Some (u @ 0 # drop (length u + 1) d)) \<and>
    utf8_to_utf32_length (Some u) (length u) = Some (length cs) \<and>
    utf8_to_utf32 sc (Some u) (length u) (Some d') = Some (Some (cs @ 0 # drop (length cs + 1) d')) \<and>
    (\<forall>i < length cs. utf32_from_utf8_at sc u (length u) (length (concat (map utf8_enc (take i cs)))) (Some k) =
       Some (uint (cs ! i), Some (length (concat (map utf8_enc (take (i + 1) cs))))))"
proof -
  have n: "length u \<noteq> 0" using assms(1-3) utf8_enc_nonempty by (cases cs) auto
  have "utf32_length_loop cs (length cs) 0 0 = Some (length u)"
    using utf32_length_loop_sum [of 0 "length cs" cs 0] assms(3) by simp
  then have "utf32_to_utf8_length (Some cs) (length cs) = Some (int (length u))"
    using assms(2) by (simp add: utf32_to_utf8_length_def)
  moreover have "utf32_to_utf8 (Some cs) (length cs) (Some d) = Some (Some (u @ 0 # drop (length u + 1) d))"
    using utf32_to_utf8_writes [OF assms(2), of d] assms(4) unfolding assms(3) by (simp add: put_at_start del: length_concat)
  moreover have "utf8_to_utf32_length_loop u (length u) 0 0 = Some (length cs)"
    using utf32_length_encoded [OF assms(1), of 0 u 0] assms(3) by simp
  then have "utf8_to_utf32_length (Some u) (length u) = Some (length cs)"
    using n by (simp add: utf8_to_utf32_length_def)
  moreover have "utf8_to_utf32_loop sc u (length u) 0 d' 0 = written d' 0 cs"
    using utf8_to_utf32_loop_writes [OF assms(1), of 0 u 0 d' sc] assms(3) by simp
  then have "utf8_to_utf32 sc (Some u) (length u) (Some d') = Some (Some (cs @ 0 # drop (length cs + 1) d'))"
    using terminated [of _ d' cs 0] n assms(5) by (simp add: utf8_to_utf32_def put_at_start)
  moreover have "utf32_from_utf8_at sc u (length u) (length (utf8s (take i cs))) (Some k) =
       Some (uint (cs ! i), Some (length (utf8s (take (i + 1) cs))))" if i: "i < length cs" for i
  proof -
    let ?p = "length (utf8s (take i cs))"
    have c: "scalar (cs ! i)" using assms(1) i by (simp add: list_all_length)
    have t: "take (i + 1) cs = take i cs @ [cs ! i]" using i by (simp add: take_Suc_conv_app_nth)
    have "cs = take i cs @ cs ! i # drop (Suc i) cs" using i by (rule id_take_nth_drop)
    then have u: "u = utf8s (take i cs) @ utf8_enc (cs ! i) @ utf8s (drop (Suc i) cs)"
      unfolding assms(3) by (metis concat.simps(2) concat_append list.simps(9) map_append)
    then have d: "drop ?p u = utf8_enc (cs ! i) @ utf8s (drop (Suc i) cs)" by (simp del: length_concat)
    have "?p < length u" by (rule drop_inside [OF d utf8_enc_nonempty [OF c]])
    moreover have "int (unat (cs ! i)) < int 0x110000" using scalar_bound [OF c] by (simp only: of_nat_less_iff)
    then have "uint (cs ! i) < 0x110000" by simp
    then have "sint (cs ! i) = uint (cs ! i)"
      by (simp add: sint_uint signed_take_bit_int_eq_self_iff order_trans [OF _ uint_ge_0])
    ultimately show ?thesis
      using at_encoded [OF c d, of sc] unfolding t by (simp add: utf32_from_utf8_at_def)
  qed
  ultimately show ?thesis by blast
qed

section \<open>Bounds\<close>

text \<open>
  C14. Whatever bytes it is given: when \<^verbatim>\<open>utf8_to_utf16_length\<close> measures a length, \<^verbatim>\<open>utf8_to_utf16\<close>
  reads no byte the measuring did not read and writes exactly that many elements and the
  terminator, so a destination of the measured size plus one is never overrun.
\<close>

theorem utf8_to_utf16_fits:
  assumes "utf8_to_utf16_length s n = Some (int m)" and "m < length d"
  shows "\<exists>xs. length xs = m \<and> utf8_to_utf16 s n d = Some (xs @ 0 # drop (m + 1) d)"
proof -
  obtain p where "utf8_to_utf16_length_loop s n 0 0 = Some (p, m)"
    using assms(1) by (auto simp: utf8_to_utf16_length_def bind_eq_Some_conv split: if_splits)
  from utf8_to_utf16_loop_fits [OF this, of 0 d] obtain xs where
    xs: "length xs = m" "utf8_to_utf16_loop s n 0 d 0 = written d 0 xs"
    using assms(2) by auto
  have "utf8_to_utf16 s n d = put_at d 0 (xs @ [0])"
    by (simp only: utf8_to_utf16_def utf8_to_utf16_no_null_terminator_def xs(2) written_end)
  then show ?thesis using xs(1) assms(2) by (intro exI [of _ xs]) (simp add: put_at_start)
qed

theorem utf8_to_utf16_fits_witness:
  "\<exists>xs. length xs = 2 \<and> utf8_to_utf16 [0xF7, 0xFF, 0x01, 0x02] 4 [7, 7, 7, 7] = Some (xs @ [0, 7])"
proof -
  have "utf8_to_utf16_length [0xF7, 0xFF, 0x01, 0x02] 4 = Some (int 2)" by code_simp
  from utf8_to_utf16_fits [OF this, of "[7, 7, 7, 7]"] show ?thesis by (simp add: numeral_3_eq_3)
qed

text \<open>
  C35. A high surrogate that is not followed by a low one. At the end of the string it makes
  \<^verbatim>\<open>utf16_to_utf8\<close> read past the end. Followed by an ASCII character it is measured as one byte
  and converted to three, so the destination of the documented size, the measured length
  plus one, is overrun.
\<close>

theorem utf16_to_utf8_unpaired:
  assumes "high_surrogate h" and "unat c < 0x80" and "length d = 2"
  shows "utf16_to_utf8 (Some [h]) 1 (Some e) = None \<and>
    utf16_to_utf8_length (Some [0xD800, c]) 2 = Some 1 \<and> utf16_to_utf8 (Some [0xD800, c]) 2 (Some d) = None"
proof -
  have h: "h AND 0xFC00 = 0xD800" using assms(1) by (simp add: high_bits)
  have "utf16_loop [h] 1 e 0 0 = None" by (subst utf16_loop.simps) (simp add: utf16_next_def h)
  then have 1: "utf16_to_utf8 (Some [h]) 1 (Some e) = None" by (simp add: utf16_to_utf8_def)
  have c: "\<not> low_surrogate c" using assms(2) by (simp add: low_surrogate_def)
  have w: "unat (ucast c :: char32) < 0x80" using assms(2) by (simp add: unat_wide16)
  then have "utf32_codepoint_utf8_length (ucast c) = 1" by (simp add: codepoint_length enc1)
  then have "utf16_length_loop [0xD800, c] 2 0 0 = Some 1"
    using c by (subst utf16_length_loop.simps, simp add: low_bits) (subst utf16_length_loop.simps, simp)
  then have 2: "utf16_to_utf8_length (Some [0xD800, c]) 2 = Some 1" by (simp add: utf16_to_utf8_length_def)
  let ?u = "(push_bit 10 (ucast (0xD800 :: char16) - 0xD800) OR (ucast c - 0xDC00)) + 0x10000 :: char32"
  have n: "utf16_next [0xD800, c] 0 = Some (?u, 2)" by (simp add: utf16_next_def)
  have "?u = ucast c + 0x2400" by simp
  then have u: "unat ?u = unat c + 0x2400" using w by (simp add: unat_word_ariths(1) unat_wide16)
  then have e: "length (utf8_enc ?u) = 3"
    using assms(2) by (subst enc3) (simp_all add: scalar_def word_less_nat_alt)
  have "utf16_loop [0xD800, c] 2 d 0 0 = None"
    using assms(3) e codepoint_to_utf8 [of 0 d ?u]
    by (subst utf16_loop.simps) (simp only: n Let_def, simp add: put_at_def)
  then have 3: "utf16_to_utf8 (Some [0xD800, c]) 2 (Some d) = None" by (simp add: utf16_to_utf8_def)
  show ?thesis using 1 2 3 by blast
qed

theorem utf16_to_utf8_unpaired_witness:
  "utf16_to_utf8_length (Some [0xD800, 0x41]) 2 = Some 1 \<and> utf16_to_utf8 (Some [0xD800, 0x41]) 2 (Some [0, 0]) = None"
  using utf16_to_utf8_unpaired [of "0xDBFF" "0x41" "[0, 0]" "[]"] by (simp add: high_surrogate_def)

section \<open>Checking\<close>

text \<open>
  C36. \<^verbatim>\<open>utf8_length\<close> of a terminated string never reads past the terminator and answers with
  the length of the string or \<open>-1\<close>. Where \<^verbatim>\<open>char\<close> is unsigned it accepts every encoded string;
  where it is signed it accepts exactly the strings of ASCII characters, because the sign
  extension of the first byte makes every other character too large.
\<close>

theorem utf8_length_correct:
  assumes "s = t @ 0 # r" and "0 \<notin> set t"
  shows "utf8_length sc (Some s) \<in> {Some (- 1), Some (int (length t))} \<and>
    (list_all scalar cs \<and> t = concat (map utf8_enc cs) \<longrightarrow> utf8_length False (Some s) = Some (int (length t))) \<and>
    utf8_length True (Some s) = (if \<forall>b \<in> set t. unat b < 0x80 then Some (int (length t)) else Some (- 1))"
proof -
  have k: "terminated_at s (length t)"
    using assms by (auto simp: terminated_at_def nth_append in_set_conv_nth)
  have "utf8_length sc (Some s) \<in> {Some (- 1), Some (int (length t))}"
    using loop_stops [OF k, of 0 sc] by (simp add: utf8_length_def)
  moreover have "utf8_length False (Some s) = Some (int (length t))"
    if "list_all scalar cs" "t = concat (map utf8_enc cs)"
    using loop_encoded [OF that(1), of 0 s r 0] assms that(2) by (simp add: utf8_length_def)
  moreover have "(\<forall>i < length t. unat (s ! i) < 0x80) \<longleftrightarrow> (\<forall>b \<in> set t. unat b < 0x80)"
    by (simp add: assms(1) all_set_conv_all_nth nth_append)
  then have "utf8_length True (Some s) = (if \<forall>b \<in> set t. unat b < 0x80 then Some (int (length t)) else Some (- 1))"
    using loop_signed [OF k, of 0] by (simp add: utf8_length_def)
  ultimately show ?thesis by blast
qed

theorem utf8_length_correct_witness:
  "utf8_length False (Some [0xC4, 0x80, 0]) = Some 2 \<and> utf8_length True (Some [0xC4, 0x80, 0]) = Some (- 1)"
  using utf8_length_correct [of "[0xC4, 0x80, 0]" "[0xC4, 0x80]" "[]" True "[0x100]"]
  by (simp add: utf8_enc_def scalar_def)

section \<open>Comparing and copying\<close>

text \<open>
  C37. \<^verbatim>\<open>strzcmp16\<close> is one comparison of the two strings, and \<^verbatim>\<open>strzcmp16_h_n\<close> the same on the string
  in network order; on terminated strings \<^verbatim>\<open>strcmp16\<close> agrees with it. The comparison is
  antisymmetric, and it answers 0 for equal strings and also for strings one of which
  continues the other with a NUL.
\<close>

theorem strzcmp16_correct:
  assumes "n1 \<le> length s1" and "n2 \<le> length s2"
  shows "strzcmp16 s1 n1 s2 n2 = Some (compare16 (take n1 s1) (take n2 s2)) \<and>
    strzcmp16_h_n s1 n1 (map ntohs16 s2) n2 = Some (compare16 (take n1 s1) (take n2 s2)) \<and>
    strzcmp16 s2 n2 s1 n1 = Some (- compare16 (take n1 s1) (take n2 s2)) \<and>
    (strzcmp16 s1 n1 s2 n2 = Some 0 \<longleftrightarrow> take n1 s1 = take n2 s2 \<or>
       (\<exists>r. take n2 s2 = take n1 s1 @ 0 # r) \<or> (\<exists>r. take n1 s1 = take n2 s2 @ 0 # r)) \<and>
    (0 \<notin> set (take n1 s1) \<and> 0 \<notin> set (take n2 s2) \<longrightarrow>
       strcmp16 (take n1 s1 @ [0]) (take n2 s2 @ [0]) 0 = strzcmp16 s1 n1 s2 n2)"
proof -
  have e: "strzcmp16 s1 n1 s2 n2 = Some (compare16 (take n1 s1) (take n2 s2))" by (rule strzcmp16_compare [OF assms])
  moreover have "strzcmp16_h_n s1 n1 (map ntohs16 s2) n2 = Some (compare16 (take n1 s1) (take n2 s2))"
    by (simp add: h_n_compare o_def ntohs16_twice e)
  moreover have "strzcmp16 s2 n2 s1 n1 = Some (- compare16 (take n1 s1) (take n2 s2))"
    unfolding strzcmp16_compare [OF assms(2,1)] by (rule arg_cong [OF compare16_swap])
  moreover have "0 \<notin> set (take n1 s1) \<and> 0 \<notin> set (take n2 s2) \<longrightarrow>
      strcmp16 (take n1 s1 @ [0]) (take n2 s2 @ [0]) 0 = strzcmp16 s1 n1 s2 n2"
    using strcmp16_compare [of 0 "take n1 s1 @ [0]" "take n1 s1" "[]" "take n2 s2 @ [0]" "take n2 s2" "[]"] e by simp
  ultimately show ?thesis by (simp only: option.inject compare16_zero)
qed

theorem strzcmp16_correct_witness: "strzcmp16 [0x41] 1 [0x41, 0, 0x42] 3 = Some 0"
  using strzcmp16_correct [of 1 "[0x41]" 3 "[0x41, 0, 0x42]"] by (simp add: numeral_3_eq_3)

text \<open>
  \<^verbatim>\<open>strncpy16\<close> copies through a variable of type \<^verbatim>\<open>char\<close>: what arrives is the low byte of each
  character, ASCII unharmed; and it writes a terminator behind the \<open>n\<close> elements, so a
  destination of \<open>n\<close> elements is overrun. A character whose low byte is 0 ends the copy.
\<close>

theorem strncpy16_correct:
  assumes "n \<le> length src" and "\<forall>c \<in> set (take n src). unat c mod 256 \<noteq> 0" and "n \<le> length dst"
  shows "strncpy16 sc dst src n =
      (if n < length dst then Some (map (as_char sc) (take n src) @ 0 # drop (n + 1) dst) else None) \<and>
    (list_all (\<lambda>c. unat c < 0x80) (take n src) \<longrightarrow> map (as_char sc) (take n src) = take n src) \<and>
    (unat c mod 256 = 0 \<and> 2 \<le> length dst \<longrightarrow> strncpy16 sc dst (c # src) (n + 1) = Some (0 # 0 # drop 2 dst))"
proof -
  have "strncpy16 sc dst src n = put_at dst 0 (map (as_char sc) (take n src) @ [0])"
    by (rule strncpy16_copies) (use assms in \<open>simp_all add: as_char_byte\<close>)
  then have "strncpy16 sc dst src n =
      (if n < length dst then Some (map (as_char sc) (take n src) @ 0 # drop (n + 1) dst) else None)"
    using assms(1) by (simp add: put_at_start min_absorb2)
  moreover have "map (as_char sc) (take n src) = take n src" if "list_all (\<lambda>c. unat c < 0x80) (take n src)"
    using that by (intro map_idI) (simp add: list_all_iff as_char_id)
  moreover have "strncpy16 sc dst (c # src) (n + 1) = Some (0 # 0 # drop 2 dst)" if low: "unat c mod 256 = 0" and room: "2 \<le> length dst"
  proof -
    obtain x y d where "dst = x # y # d" using room by (cases dst; cases "tl dst") auto
    then show ?thesis using low as_char_byte [of sc c] by (simp add: strncpy16_def load_at_def store_at_def numeral_2_eq_2)
  qed
  ultimately show ?thesis by (intro conjI impI) simp_all
qed

section \<open>Documented behaviour the code does not have\<close>

text \<open>An invalid character adds nothing to the measured length, instead of making it \<open>-1\<close>.\<close>

theorem utf32_length_ignores_invalid:
  assumes "\<not> scalar c"
  shows "utf32_to_utf8_length (Some [c]) 1 = Some 0"
  using assms by (simp add: utf32_to_utf8_length_def load_at_def codepoint_length utf8_enc_def)

text \<open>A truncated character is read to its announced length, beyond the string.\<close>

theorem truncated_read: "utf8_to_utf16_length [0xE2, 0x8C] 2 = None"
  by code_simp

end
