(* ===== verification/Spec2Isabelle.thy ===== *)
theory Spec2Isabelle
  imports Parcel_Theorems Protocol_Theorems Svc_Theorems Unicode_Theorems
begin

text \<open>
  This library is a model of the binder system of this repository, with proofs: the binder
  driver, \<^verbatim>\<open>driver/binder.c\<close> and \<^verbatim>\<open>driver/binder.h\<close>, the service manager,
  \<^verbatim>\<open>src/cmds/servicemanager\<close>, the process every other one asks for handles to services, the
  parcels in which clients marshal what transactions carry, \<^verbatim>\<open>src/lib/binder/Parcel.cpp\<close>, and
  the character conversions every client uses for its names, \<^verbatim>\<open>src/lib/utils/Unicode.cpp\<close>.
  (Paths are relative to the root of the repository.)

  \<^bold>\<open>The program.\<close> A process opens the device, maps an area into which the driver
  copies the data of transactions, and issues \<open>ioctl\<close>s that carry a buffer of commands and
  ask for a buffer of return commands. The driver keeps, for each process, its threads, the
  nodes (objects) it owns, its references to nodes of others, and the buffers of its area;
  a transaction moves data, references and file descriptors from one process to another,
  and work items queued on threads, processes and nodes tell them of it. When a process
  dies, deferred work takes all this apart and tells those who asked to be told. The service
  manager owns the node behind handle 0 and maps names to handles.

  \<^bold>\<open>Conventions.\<close> A C function is a HOL function on an explicit state and returns an \<open>option\<close>:
  \<open>None\<close> is a \<open>BUG()\<close>, a null pointer, a dangling pointer or a fault, so that \<open>None\<close> never means
  an error the code handles; those are return values. Kernel objects are records in maps
  from addresses, \<^verbatim>\<open>list_head\<close>s are lists with the state of each link, red-black trees are binary
  trees descended by the hand-written loops. Sizes and pointers are numbers with the
  truncation of their C type written out; flags and the counters of nodes, references and statistics, which
  are \<^verbatim>\<open>int\<close>s of 32 bits, are words and wrap. What is not in the repository (the
  rebalancing of trees, page tables, memory and file tables of the kernel, the memory of a
  calling process) is the record \<open>kern\<close>, with \<open>kern_ok\<close> for its documented behaviour; failures
  are functions of the number of calls so far, so a property covers every pattern of them. The
  same holds of \<open>svc_env\<close> for the service manager. Pointers of the driver have 4 or 8
  bytes; the words on the wire have 4, as \<^verbatim>\<open>CONFIG_ANDROID_BINDER_IPC_COMPAT_32\<close> fixes.

  \<^bold>\<open>The transaction area\<close> (\<^verbatim>\<open>binder_buffer_size\<close> to \<^verbatim>\<open>binder_free_buf\<close>, \<^verbatim>\<open>binder_mmap\<close>). \<open>Kernel\<close>,
  \<open>Rbtree\<close> and \<open>Binder_Alloc\<close> hold the definitions and \<open>Binder_Mmap\<close> the mapping; \<open>Binder_Layout\<close>, \<open>Binder_Trees\<close>,
  and \<open>Binder_Pages\<close> the invariant of the area and the loop over pages; \<open>Binder_Claim\<close>,
  \<open>Binder_Alloc_Buf\<close> and \<open>Binder_Free\<close> the two operations; \<open>Buffer_Pool\<close> states the contract of an allocator as a locale, and \<open>Binder_Area\<close>
  interprets it; \<open>Binder_Async\<close> follows the space for asynchronous transactions,
  \<open>Area_Progress\<close> the requests that cannot be refused. \<open>Area_Theorems\<close> has the properties.

  \<^bold>\<open>Nodes and references\<close> (\<^verbatim>\<open>binder_get_node\<close> to \<^verbatim>\<open>binder_dec_ref\<close>). \<open>Binder_State\<close> is the state of the
  driver, \<open>Binder_Refs\<close> the operations; \<open>Binder_Links\<close>, \<open>Binder_Counts\<close>,
  \<open>Binder_Ref_Ops\<close> and \<open>Binder_Ref_Run\<close> show that they keep
  counts, trees and lists in agreement, the last by an interpretation of the locale \<open>guarded\<close>
  of \<open>Trace\<close>, for runs that never raise a strong count from \<open>2 ^ 32 - 1\<close> to \<open>0\<close>. \<open>Ref_Theorems\<close> has the properties.

  \<^bold>\<open>The driver\<close>. \<open>Binder_Object\<close> is what buffers hold and what releasing them does, \<open>Binder_Transaction\<close>
  \<^verbatim>\<open>binder_transaction\<close>, \<open>Binder_Write\<close> and \<open>Binder_Read\<close> the two halves of an exchange,
  \<open>Binder_Ioctl\<close> the calls of a thread, \<open>Binder_Lifecycle\<close> open, flush, release and the deferred
  work, \<open>Binder_Log\<close> the ring of \<^verbatim>\<open>binder_transaction_log_add\<close>, and \<open>Binder_System\<close> the whole as a
  transition system: each step is one stretch of code that holds the driver's lock, and
  a read that sleeps is cut into two steps there. \<open>Area_State\<close> and \<open>Driver_Inv\<close> to \<open>Driver_Lifecycle\<close>
  show that every step that does not crash keeps the invariant; \<open>Driver_Theorems\<close> draws the conclusions for
  all reachable states. \<open>Read_Bounds\<close> shows where reads write in the caller's memory, and where it does not, \<open>Protocol_Theorems\<close> how
  commands are consumed, a waiting thread is found, nodes and deaths announced, logs and lists kept.

  \<^bold>\<open>The service manager\<close>. \<open>User_Memory\<close> is the memory of a process; \<open>Bio\<close> the messages (\<^verbatim>\<open>bio_*\<close> of
  \<^verbatim>\<open>servicemanager/binder.c\<close>), \<open>Svc_Binder\<close> the rest of that file, \<open>Service_Manager\<close> the file
  \<^verbatim>\<open>service_manager.c\<close>. \<open>Bio_Items\<close> shows that messages survive the trip and
  stay in their buffers; \<open>Svc_Registry\<close>, \<open>Svc_Register\<close>, \<open>Svc_Handler\<close>, \<open>Svc_Loop\<close> and
  \<open>Svc_Run\<close> that the handler and the loop implement a map from names to handles, by an
  interpretation of the locale \<open>refined\<close> of \<open>Refine\<close>. \<open>Svc_Theorems\<close> has the properties, among
  them the agreement of both programs on the layout of a transaction, and where it fails.

  \<^bold>\<open>Parcels.\<close> \<open>Parcel_State\<close> has the members of a \<^verbatim>\<open>Parcel\<close> in a 32-bit process, the memory management
  (\<^verbatim>\<open>growData\<close>, \<^verbatim>\<open>restartWrite\<close>, \<^verbatim>\<open>continueWrite\<close>) and the references of its objects; \<open>Parcel_Write\<close> every
  write, \<open>Parcel_Read\<close> every read, the descriptors and the blobs. A pointer is a block of the heap, which
  may be null, freed or a list, and an access outside it is \<open>None\<close>; the record \<open>parcel_env\<close> says what \<^verbatim>\<open>malloc\<close>,
  \<^verbatim>\<open>realloc\<close>, \<^verbatim>\<open>dup\<close> and the calls for shared memory answer, and which handles have proxies; \<open>process\<close> counts
  references and logs what was closed and unmapped. \<open>Parcel_Append\<close> defines what a write promises and
  \<open>Parcel_Runs\<close> shows it for each kind of item and for runs,
  \<open>Parcel_Roundtrip\<close> that reads give back what was written, \<open>Parcel_Safe\<close> which reads of
  foreign data stay inside it, \<open>Parcel_Faults\<close> where the code goes wrong. \<open>Parcel_Theorems\<close> has the properties;
  runs are bounded by a gigabyte, below which no size wraps, and the checks of the driver on
  offsets are those of \<open>Binder_Object\<close>.

  \<^bold>\<open>Character conversions.\<close> \<open>Arrays\<close> has C arrays as lists: an access outside one is \<open>None\<close>. \<open>Unicode\<close>
  models every function of \<^verbatim>\<open>Unicode.cpp\<close> over such arrays; the parameter \<open>sc\<close> says whether \<^verbatim>\<open>char\<close>
  is signed, which the code depends on, and \<^verbatim>\<open>ssize_t\<close> results are of type \<open>int\<close>. \<open>Unicode_Chars\<close> treats
  one character in each encoding, alone and inside an array, \<open>Unicode_Strings\<close> the surrogate pairs and the two
  directions on whole strings, \<open>Unicode_Length\<close> the measuring functions and \<open>Unicode_Compare\<close> comparison and copying.
  \<open>Unicode_Theorems\<close> has the properties: the round trips of well-formed strings, the sizes that are
  enough, what ill-formed input does, and the comparison against the order of lists.

  \<^bold>\<open>Bounds and fuel.\<close> Descents of trees and all loops of the service manager are structural or have a
  measure. \<open>detach_stack\<close> of \<open>Binder_Ioctl\<close> walks the transaction stack with fuel of twice the number of
  live objects; a stack visits every transaction at most twice, so a well-formed one ends before the fuel does,
  and running out is \<open>None\<close>. \<open>stack_search\<close> of \<open>Binder_Transaction\<close> follows the parents alone, with as much fuel as there
  are live objects; \<open>Protocol_Theorems\<close> shows that this is enough for every stack that ends. The loops of \<open>Binder_Lifecycle\<close> over trees take the first node each round, and the
  number of nodes at the start bounds the rounds. The invariant of the driver is about
  steps that return: that no command crashes is shown for the allocator, for nodes and
  references, and for the service manager, not for \<^verbatim>\<open>binder_transaction\<close> as a whole.

  \<^bold>\<open>Not modelled.\<close> Of the driver: wake-ups (any sleeper may wake at any time here, which
  covers them), debug output, debugfs, trace points and module initialisation, and the wait
  after \<open>binder_stop_on_user_error\<close>; debug ids and the counts of threads are numbers without a bound. Of the service manager: the text of log messages (reading
  it is modelled, because it can fault) and the dumps that are compiled out. Of parcels: the text
  \<^verbatim>\<open>print\<close> writes, the templates for light flattenable objects in the header, and appending a parcel to
  itself. Not modelled at all: the rest of libbinder, the containers, strings and threads of libutils (C++ templates and wrappers of the system's threads),
  liblog, libcutils, libcorkscrew, the aidl compiler, the runtime and demo
  services and applications, and the tests.
\<close>

end
